(* ===== verification/JsBase.thy ===== *)
theory JsBase
  imports Complex_Main "HOL-Library.Word"
begin

text \<open>
  Prelude of the development: the JavaScript values the noVNC client computes with.

  \<^item> A byte of a \<open>Uint8Array\<close> is an \<open>8 word\<close>; storing a number into such an array keeps its
    value modulo 256 (\<open>u8_of\<close>).
  \<^item> A JavaScript number that the code uses as an integer is an \<open>int\<close> (or a \<open>nat\<close> where it is
    the value of a byte, a length or an index and so cannot be negative).  The bitwise
    operators of the language work on 32 bits: \<open>to_int32\<close> and \<open>to_uint32\<close> are the two
    conversions (\<open>| 0\<close> and \<open>>>> 0\<close>, which is what \<open>core/util/int.js\<close> exports), and
    \<open>js_shl\<close>, \<open>js_shr\<close>, \<open>js_and\<close>, \<open>js_or\<close> are the operators.
  \<^item> A JavaScript string is the list of its UTF-16 code units (\<open>jsstr\<close>).
  \<^item> An exception is a value of \<open>js_error\<close>; a call that can throw returns \<open>js_error + 'a\<close>.

  The second half holds the lemmas on list slices and on words that the components share.
\<close>

unbundle bit_operations_syntax

type_synonym byte = "8 word"
type_synonym jsstr = "nat list"

datatype js_error =
    RangeError
  | URIError
  | NullError
  | JsError string

named_theorems js_defs \<open>definitions of the number conversions\<close>
named_theorems rq_simps \<open>effect of the receive-queue operations on the unread bytes\<close>

section \<open>Numbers\<close>

definition to_uint32 :: "int \<Rightarrow> int" where
  "to_uint32 x = take_bit 32 x"

definition to_int32 :: "int \<Rightarrow> int" where
  "to_int32 x = signed_take_bit 31 x"

definition js_shl :: "int \<Rightarrow> nat \<Rightarrow> int" where
  "js_shl x n = to_int32 (push_bit n (to_int32 x))"

definition js_shr :: "int \<Rightarrow> nat \<Rightarrow> int" where
  "js_shr x n = drop_bit n (to_int32 x)"

definition js_and :: "int \<Rightarrow> int \<Rightarrow> int" where
  "js_and x y = to_int32 x AND to_int32 y"

definition js_or :: "int \<Rightarrow> int \<Rightarrow> int" where
  "js_or x y = to_int32 x OR to_int32 y"

definition u8_of :: "int \<Rightarrow> byte" where
  "u8_of x = word_of_int x"

abbreviation u8n :: "nat \<Rightarrow> byte" where
  "u8n x \<equiv> word_of_nat x"

text \<open>A string literal of the source, as code units.\<close>

definition lit :: "string \<Rightarrow> jsstr" where
  "lit s = map of_char s"

lemmas number_defs [js_defs] =
  to_uint32_def to_int32_def js_shl_def js_shr_def js_and_def js_or_def u8_of_def

lemma to_uint32_range: "0 \<le> to_uint32 x \<and> to_uint32 x < 2 ^ 32"
  using take_bit_int_less_exp [of 32 x] by (simp add: to_uint32_def)

lemma to_int32_range: "- (2 ^ 31) \<le> to_int32 x \<and> to_int32 x < 2 ^ 31"
  unfolding to_int32_def
  using signed_take_bit_int_greater_eq_minus_exp [of 31 x] signed_take_bit_int_less_exp [of 31 x]
  by simp

lemma to_uint32_of_int32: "to_uint32 (to_int32 x) = to_uint32 x"
  by (simp add: to_uint32_def to_int32_def take_bit_signed_take_bit)

lemma to_int32_of_uint32: "to_int32 (to_uint32 x) = to_int32 x"
  by (simp add: to_uint32_def to_int32_def signed_take_bit_take_bit)

lemma to_int32_small: "- (2 ^ 31) \<le> x \<Longrightarrow> x < 2 ^ 31 \<Longrightarrow> to_int32 x = x"
  by (simp add: to_int32_def signed_take_bit_int_eq_self_iff)

lemma to_uint32_small: "0 \<le> x \<Longrightarrow> x < 2 ^ 32 \<Longrightarrow> to_uint32 x = x"
  by (simp add: to_uint32_def take_bit_int_eq_self_iff)

lemma u8_of_take_bit: "u8_of (take_bit 8 x) = u8_of x"
  by (simp add: u8_of_def word_of_int_eq_iff)

lemma u8_of_shr: "n \<le> 24 \<Longrightarrow> u8_of (js_and (js_shr x n) 255) = u8_of (drop_bit n x)"
proof -
  assume n: "n \<le> 24"
  have *: "(255::int) = mask 8"
    by (simp add: mask_eq_exp_minus_1)
  have "take_bit 8 (js_and (js_shr x n) 255) = take_bit 8 (drop_bit n x)"
    unfolding js_defs *
    by (rule bit_eqI)
      (use n in \<open>auto simp: bit_simps\<close>)
  then show ?thesis
    by (metis u8_of_take_bit)
qed

lemma to_int32_mod: "to_int32 y mod 2 ^ 32 = y mod 2 ^ 32"
  using to_uint32_of_int32 [of y] by (simp only: to_uint32_def take_bit_eq_mod)

lemma js_shl_mod: "js_shl x n mod 2 ^ 32 = (x * 2 ^ n) mod 2 ^ 32"
proof -
  have "js_shl x n mod 2 ^ 32 = (to_int32 x * 2 ^ n) mod 2 ^ 32"
    by (simp only: js_shl_def to_int32_mod push_bit_eq_mult)
  also have "\<dots> = ((to_int32 x mod 2 ^ 32) * 2 ^ n) mod 2 ^ 32"
    by (rule mod_mult_left_eq [symmetric])
  also have "\<dots> = ((x mod 2 ^ 32) * 2 ^ n) mod 2 ^ 32"
    by (simp only: to_int32_mod)
  also have "\<dots> = (x * 2 ^ n) mod 2 ^ 32"
    by (rule mod_mult_left_eq)
  finally show ?thesis .
qed

lemma to_uint32_add_cong:
  "x mod 2 ^ 32 = y mod 2 ^ 32 \<Longrightarrow> to_uint32 (a + x + c) = to_uint32 (a + y + c)"
  unfolding to_uint32_def take_bit_eq_mod by (intro mod_add_cong refl) assumption

lemma to_uint32_add_shl:
  "to_uint32 (a + js_shl x n + c) = to_uint32 (a + x * 2 ^ n + c)"
  by (rule to_uint32_add_cong) (rule js_shl_mod)

section \<open>Big-endian numbers\<close>

text \<open>The number that a sequence of bytes stands for, most significant byte first.\<close>

fun be :: "byte list \<Rightarrow> nat" where
  "be [] = 0"
| "be (b # bs) = unat b * 256 ^ length bs + be bs"

lemma be_less: "be bs < 256 ^ length bs"
proof (induction bs)
  case Nil
  then show ?case by simp
next
  case (Cons b bs)
  have "unat b < 2 ^ LENGTH(8)"
    by (rule unsigned_less)
  then have "unat b \<le> 255" by simp
  then have "unat b * 256 ^ length bs \<le> 255 * 256 ^ length bs"
    by (rule mult_le_mono1)
  then have "unat b * 256 ^ length bs + be bs < 255 * 256 ^ length bs + 256 ^ length bs"
    using Cons by (rule add_le_less_mono)
  then show ?case by simp
qed

lemma be_snoc: "be (bs @ [b]) = 256 * be bs + unat b"
  by (induction bs) (simp_all add: algebra_simps)

lemma be_less_32: "length bs \<le> 4 \<Longrightarrow> be bs < 2 ^ 32"
proof -
  assume "length bs \<le> 4"
  then have "(256::nat) ^ length bs \<le> 256 ^ 4"
    by (rule power_increasing) simp
  with be_less [of bs] show ?thesis by simp
qed

lemma unat_u8_of: "unat (u8_of x) = nat (x mod 256)"
  by (simp add: u8_of_def unat_eq_nat_uint uint_word_of_int)

lemma mod_step: "0 \<le> c \<Longrightarrow> (n::int) mod (256 * c) = 256 * (n div 256 mod c) + n mod 256"
  by (rule zmod_zmult2_eq)

lemma mod_2_16: "(n::int) mod 2 ^ 16 = (n div 256 mod 256) * 256 + n mod 256"
  using mod_step [of 256 n] by simp

lemma div_256: "(n::int) div 0x10000 = n div 256 div 256" "n div 0x1000000 = n div 256 div 256 div 256"
proof -
  have c: "(0x10000::int) = 256 * 256" "(0x1000000::int) = 256 * (256 * 256)"
    by simp_all
  show "n div 0x10000 = n div 256 div 256"
    unfolding c(1) by (rule zdiv_zmult2_eq) simp
  have "n div (256 * (256 * 256)) = n div 256 div (256 * 256)"
    by (rule zdiv_zmult2_eq) simp
  also have "\<dots> = n div 256 div 256 div 256"
    by (rule zdiv_zmult2_eq) simp
  finally show "n div 0x1000000 = n div 256 div 256 div 256"
    unfolding c(2) .
qed

lemma mod_2_32:
  "(n::int) mod 2 ^ 32 = (n div 0x1000000 mod 256) * 0x1000000 + (n div 0x10000 mod 256) * 0x10000
     + (n div 256 mod 256) * 256 + n mod 256"
proof -
  have c: "(2::int) ^ 32 = 256 * 0x1000000" "(0x1000000::int) = 256 * 0x10000" "(0x10000::int) = 256 * 256"
    by simp_all
  have "n mod (256 * 0x1000000) = 256 * (n div 256 mod 0x1000000) + n mod 256"
    by (rule mod_step) simp
  moreover have "n div 256 mod (256 * 0x10000) = 256 * (n div 256 div 256 mod 0x10000) + n div 256 mod 256"
    by (rule mod_step) simp
  moreover have "n div 256 div 256 mod (256 * 256)
      = 256 * (n div 256 div 256 div 256 mod 256) + n div 256 div 256 mod 256"
    by (rule mod_step) simp
  ultimately show ?thesis
    unfolding c(1) div_256 using c(2,3) by presburger
qed

lemma be_bytes16: "be [u8_of (drop_bit 8 n), u8_of n] = nat (n mod 2 ^ 16)"
  unfolding mod_2_16
  by (simp add: unat_u8_of drop_bit_eq_div nat_add_distrib nat_mult_distrib)

lemma be_bytes32:
  "be [u8_of (drop_bit 24 n), u8_of (drop_bit 16 n), u8_of (drop_bit 8 n), u8_of n] = nat (to_uint32 n)"
  unfolding to_uint32_def take_bit_eq_mod mod_2_32
  by (simp add: unat_u8_of drop_bit_eq_div nat_add_distrib nat_mult_distrib)

section \<open>Lists\<close>

lemma take_drop_append_left:
  "i + n \<le> length xs \<Longrightarrow> take n (drop i (xs @ ys)) = take n (drop i xs)"
  by simp

lemma concat_snoc [simp]: "concat (xs @ [x]) = concat xs @ x"
  by simp

end
