(* ===== verification/Websock.thy ===== *)
theory Websock
  imports JsBase
begin

text \<open>
  Model of \<open>core/websock.js\<close>: the buffering wrapper round the raw channel.

  The receive queue is the array \<open>rQ\<close> of \<open>rQbufferSize\<close> bytes with the read index \<open>rQi\<close> and
  the write index \<open>rQlen\<close>; \<open>unread\<close> is the part between the two, the abstract value of the
  queue.  The send queue is kept as the list of the bytes stored in it (\<open>sQ\<close>) next to its write
  index \<open>sQlen\<close>: what lies behind the index is never read.  The raw channel (a WebSocket or an
  RTCDataChannel) is the record \<open>channel\<close>: its \<open>readyState\<close>, the names of its properties, the
  messages handed to its \<open>send\<close>, the number of calls of its \<open>close\<close> and whether \<open>_recvMessage\<close>
  is its \<open>onmessage\<close> handler.

  Both arrays are null until the first \<open>attach\<close> allocates them: \<open>allocated\<close> says whether they
  are there.  A store into the null send queue throws.  Nothing reads the receive queue before
  \<open>attach\<close>, which is what makes \<open>_recvMessage\<close> the handler of the channel, so its operations are
  modelled on the array alone.

  A function of the send side returns \<open>(js_error + websock) option\<close>: \<open>None\<close> is a call that never
  returns, \<open>Some (Inl e)\<close> an exception.
\<close>

section \<open>State\<close>

datatype sub_state = WebSocketState nat | DataChannelState string

datatype ready = Unused | Connecting | Open | Closing | Closed | Unknown

record channel =
  ch_state :: sub_state
  ch_props :: "string list"
  ch_sent :: "byte list list"
  ch_closes :: nat
  ch_listening :: bool

datatype ws_event = EvMessage | EvOpen | EvClose | EvError

record websock =
  websocket :: "channel option"
  rQi :: nat
  rQlen :: nat
  rQbufferSize :: nat
  rQ :: "byte list"
  sQbufferSize :: nat
  sQlen :: nat
  sQ :: "byte list"
  allocated :: bool
  handlers :: "ws_event \<Rightarrow> bool"

definition MAX_RQ_GROW_SIZE :: nat where
  "MAX_RQ_GROW_SIZE = 40 * 1024 * 1024"

definition new_websock :: websock where
  "new_websock = \<lparr>websocket = None, rQi = 0, rQlen = 0, rQbufferSize = 1024 * 1024 * 4, rQ = [],
     sQbufferSize = 1024 * 10, sQlen = 0, sQ = [], allocated = False,
     handlers = (\<lambda>_. False)\<rparr>"

definition rawChannelProps :: "string list" where
  "rawChannelProps = [''send'', ''close'', ''binaryType'', ''onerror'', ''onmessage'', ''onopen'',
     ''protocol'', ''readyState'']"

definition sub_ready :: "sub_state \<Rightarrow> ready" where
  "sub_ready st =
     (if st \<in> {WebSocketState 0, DataChannelState ''connecting''} then Connecting
      else if st \<in> {WebSocketState 1, DataChannelState ''open''} then Open
      else if st \<in> {WebSocketState 2, DataChannelState ''closing''} then Closing
      else if st \<in> {WebSocketState 3, DataChannelState ''closed''} then Closed
      else Unknown)"

definition readyState :: "websock \<Rightarrow> ready" where
  "readyState s = (case websocket s of None \<Rightarrow> Unused | Some c \<Rightarrow> sub_ready (ch_state c))"

section \<open>Receive queue\<close>

text \<open>
  A read outside the array gives \<open>undefined\<close>, which the shift operator turns into 0.
\<close>

definition js_byte :: "byte list \<Rightarrow> nat \<Rightarrow> nat" where
  "js_byte xs i = (if i < length xs then unat (xs ! i) else 0)"

definition unread :: "websock \<Rightarrow> byte list" where
  "unread s = take (rQlen s - rQi s) (drop (rQi s) (rQ s))"

definition rQpeek8 :: "websock \<Rightarrow> nat" where
  "rQpeek8 s = js_byte (rQ s) (rQi s)"

definition rQskipBytes :: "nat \<Rightarrow> websock \<Rightarrow> websock" where
  "rQskipBytes n s = s\<lparr>rQi := rQi s + n\<rparr>"

fun rQshift :: "nat \<Rightarrow> int \<Rightarrow> websock \<Rightarrow> nat \<times> websock" where
  "rQshift 0 res s = (nat (to_uint32 res), s)"
| "rQshift (Suc k) res s =
     rQshift k (res + js_shl (int (js_byte (rQ s) (rQi s))) (k * 8)) (s\<lparr>rQi := Suc (rQi s)\<rparr>)"

definition rQshift8 :: "websock \<Rightarrow> nat \<times> websock" where
  "rQshift8 s = rQshift 1 0 s"

definition rQshift16 :: "websock \<Rightarrow> nat \<times> websock" where
  "rQshift16 s = rQshift 2 0 s"

definition rQshift32 :: "websock \<Rightarrow> nat \<times> websock" where
  "rQshift32 s = rQshift 4 0 s"

definition rQ_length :: "websock \<Rightarrow> int" where
  "rQ_length s = int (rQlen s) - int (rQi s)"

text \<open>
  \<open>rQshiftBytes\<close> returns a copy of the bytes, or (\<open>copy = false\<close>) a view into the queue's own
  array: a view keeps the whole array it lies in and its offset there.
\<close>

record u8view =
  v_buf :: "byte list"
  v_off :: nat
  v_len :: nat

definition v_bytes :: "u8view \<Rightarrow> byte list" where
  "v_bytes v = take (v_len v) (drop (v_off v) (v_buf v))"

definition view_of :: "byte list \<Rightarrow> u8view" where
  "view_of bs = \<lparr>v_buf = bs, v_off = 0, v_len = length bs\<rparr>"

definition rQshiftBytes :: "nat \<Rightarrow> websock \<Rightarrow> byte list \<times> websock" where
  "rQshiftBytes n s = (take n (drop (rQi s) (rQ s)), s\<lparr>rQi := rQi s + n\<rparr>)"

definition rQshiftView :: "nat \<Rightarrow> websock \<Rightarrow> u8view \<times> websock" where
  "rQshiftView n s = (\<lparr>v_buf = rQ s, v_off = rQi s, v_len = min n (length (rQ s) - rQi s)\<rparr>,
     s\<lparr>rQi := rQi s + n\<rparr>)"

definition rQpeekBytes :: "nat \<Rightarrow> websock \<Rightarrow> byte list" where
  "rQpeekBytes n s = take n (drop (rQi s) (rQ s))"

definition rQshiftTo :: "byte list \<Rightarrow> nat \<Rightarrow> websock \<Rightarrow> js_error + (byte list \<times> websock)" where
  "rQshiftTo target n s =
     (if length (rQ s) < rQi s + n \<or> length target < n then Inl RangeError
      else Inr (take n (drop (rQi s) (rQ s)) @ drop n target, s\<lparr>rQi := rQi s + n\<rparr>))"

text \<open>The loop of \<open>rQshiftStr\<close> over parts of at most 4096 bytes.\<close>

function rQshiftStr_from :: "nat \<Rightarrow> nat \<Rightarrow> jsstr \<Rightarrow> websock \<Rightarrow> jsstr \<times> websock" where
  "rQshiftStr_from i len str s =
     (if i < len then
        let (part, s) = rQshiftBytes (min 4096 (len - i)) s
        in rQshiftStr_from (i + 4096) len (str @ map unat part) s
      else (str, s))"
  by pat_completeness auto
termination
  by (relation "measure (\<lambda>(i, len, _, _). len - i)") auto

declare rQshiftStr_from.simps [simp del]

definition rQshiftStr :: "nat \<Rightarrow> websock \<Rightarrow> jsstr \<times> websock" where
  "rQshiftStr len s = rQshiftStr_from 0 len [] s"

text \<open>
  \<open>rQwait msg num\<close> without \<open>goback\<close>, and with it.  Backing up further than the start of the
  array is an exception.
\<close>

definition rQwait :: "nat \<Rightarrow> websock \<Rightarrow> bool" where
  "rQwait num s = (rQ_length s < int num)"

definition rQwait_back :: "nat \<Rightarrow> nat \<Rightarrow> websock \<Rightarrow> js_error + (bool \<times> websock)" where
  "rQwait_back num goback s =
     (if rQ_length s < int num then
        if goback \<noteq> 0 then
          if rQi s < goback then Inl (JsError ''rQwait cannot backup'')
          else Inr (True, s\<lparr>rQi := rQi s - goback\<rparr>)
        else Inr (True, s)
      else Inr (False, s))"

text \<open>
  \<open>_expandCompactRQ\<close>: the exception leaves the new \<open>rQbufferSize\<close> behind.
\<close>

definition expandCompactRQ :: "nat \<Rightarrow> websock \<Rightarrow> js_error option \<times> websock" where
  "expandCompactRQ minFit s =
     (let left = rQ_length s;
          required = (left + int minFit) * 8;
          resizeNeeded = int (rQbufferSize s) < required;
          size1 = (if resizeNeeded then nat (max (int (rQbufferSize s) * 2) required)
                   else rQbufferSize s);
          size2 = (if size1 > MAX_RQ_GROW_SIZE then MAX_RQ_GROW_SIZE else size1);
          s1 = s\<lparr>rQbufferSize := size2\<rparr>
      in if size1 > MAX_RQ_GROW_SIZE \<and> int size2 - left < int minFit
         then (Some (JsError ''Receive queue buffer exceeded''), s1)
         else
           let body = take (nat left) (drop (rQi s) (rQ s));
               s2 = (if resizeNeeded
                     then s1\<lparr>rQ := body @ replicate (size2 - length body) 0\<rparr>
                     else s1\<lparr>rQ := body @ drop (length body) (rQ s)\<rparr>)
           in (None, s2\<lparr>rQlen := nat left, rQi := 0\<rparr>))"

text \<open>
  \<open>_recvMessage\<close>: the second component of the result says whether the \<open>message\<close> handler is
  called.
\<close>

definition recvMessage :: "byte list \<Rightarrow> websock \<Rightarrow> js_error option \<times> bool \<times> websock" where
  "recvMessage u8 s0 =
     (let s1 = (if rQlen s0 = rQi s0 then s0\<lparr>rQlen := 0, rQi := 0\<rparr> else s0);
          (err, s2) = (if int (length u8) > int (rQbufferSize s1) - int (rQlen s1)
                       then expandCompactRQ (length u8) s1 else (None, s1))
      in case err of
           Some e \<Rightarrow> (Some e, False, s2)
         | None \<Rightarrow>
             if length (rQ s2) < rQlen s2 + length u8 then (Some RangeError, False, s2)
             else
               let s3 = s2\<lparr>rQ := take (rQlen s2) (rQ s2) @ u8 @ drop (rQlen s2 + length u8) (rQ s2),
                           rQlen := rQlen s2 + length u8\<rparr>
               in (None, rQ_length s3 > 0 \<and> handlers s3 EvMessage, s3))"

section \<open>Send queue\<close>

text \<open>
  \<open>flush\<close> hands the queue to the channel when it is open; a view longer than the array is a
  \<open>RangeError\<close>.  \<open>sQput\<close> is the store \<open>_sQ[_sQlen++] = num\<close>, which is lost behind the end of
  the array; \<open>sQstore\<close> runs stores on the array, which is a \<open>TypeError\<close> while it is null.
\<close>

definition flush :: "websock \<Rightarrow> js_error + websock" where
  "flush s =
     (if sQlen s > 0 \<and> readyState s = Open then
        if \<not> allocated s then Inl NullError
        else if sQbufferSize s < sQlen s then Inl RangeError
        else case websocket s of
            None \<Rightarrow> Inl NullError
          | Some c \<Rightarrow> Inr (s\<lparr>websocket := Some (c\<lparr>ch_sent := ch_sent c @ [sQ s]\<rparr>),
                             sQlen := 0, sQ := []\<rparr>)
      else Inr s)"

definition sQensureSpace :: "nat \<Rightarrow> websock \<Rightarrow> js_error + websock" where
  "sQensureSpace n s =
     (if int (sQbufferSize s) - int (sQlen s) < int n then flush s else Inr s)"

definition sQput :: "int \<Rightarrow> websock \<Rightarrow> websock" where
  "sQput num s = s\<lparr>sQ := (if sQlen s < sQbufferSize s then sQ s @ [u8_of num] else sQ s),
                   sQlen := Suc (sQlen s)\<rparr>"

definition sQstore :: "(websock \<Rightarrow> websock) \<Rightarrow> websock \<Rightarrow> js_error + websock" where
  "sQstore put s = (if allocated s then Inr (put s) else Inl NullError)"

definition sQpush8 :: "int \<Rightarrow> websock \<Rightarrow> js_error + websock" where
  "sQpush8 num s =
     (case sQensureSpace 1 s of Inl e \<Rightarrow> Inl e | Inr s \<Rightarrow> sQstore (sQput num) s)"

definition sQpush16 :: "int \<Rightarrow> websock \<Rightarrow> js_error + websock" where
  "sQpush16 num s =
     (case sQensureSpace 2 s of Inl e \<Rightarrow> Inl e
      | Inr s \<Rightarrow> sQstore (\<lambda>s. sQput (js_and (js_shr num 0) 255)
                            (sQput (js_and (js_shr num 8) 255) s)) s)"

definition sQpush32 :: "int \<Rightarrow> websock \<Rightarrow> js_error + websock" where
  "sQpush32 num s =
     (case sQensureSpace 4 s of Inl e \<Rightarrow> Inl e
      | Inr s \<Rightarrow> sQstore (\<lambda>s. sQput (js_and (js_shr num 0) 255) (sQput (js_and (js_shr num 8) 255)
                  (sQput (js_and (js_shr num 16) 255) (sQput (js_and (js_shr num 24) 255) s)))) s)"

text \<open>
  The loop of \<open>sQpushBytes\<close>, with \<open>bytes\<close> the part of the argument from \<open>offset\<close> on.  Nothing
  bounds the number of its iterations: a queue that is full and cannot be flushed makes no
  progress.  A negative \<open>chunkSize\<close> selects no bytes, and storing them behind the end of the
  array is a \<open>RangeError\<close>.  A null array has no \<open>set\<close>, which is a \<open>TypeError\<close>.
\<close>

partial_function (option) sQpushBytes :: "byte list \<Rightarrow> websock \<Rightarrow> (js_error + websock) option" where
  "sQpushBytes bytes s =
     (if bytes = [] then Some (Inr s)
      else case sQensureSpace 1 s of
          Inl e \<Rightarrow> Some (Inl e)
        | Inr s1 \<Rightarrow>
            (if \<not> allocated s1 then Some (Inl NullError)
             else if sQbufferSize s1 < sQlen s1 then Some (Inl RangeError)
             else sQpushBytes
                    (drop (min (length bytes) (sQbufferSize s1 - sQlen s1)) bytes)
                    (s1\<lparr>sQ := sQ s1 @ take (min (length bytes) (sQbufferSize s1 - sQlen s1)) bytes,
                        sQlen := sQlen s1 + min (length bytes) (sQbufferSize s1 - sQlen s1)\<rparr>)))"

text \<open>A call through \<open>sQpushString\<close> pushes the low byte of every code unit.\<close>

definition sQpushString :: "jsstr \<Rightarrow> websock \<Rightarrow> (js_error + websock) option" where
  "sQpushString str s = sQpushBytes (map (\<lambda>c. u8_of (int c)) str) s"

text \<open>
  The messages of the client are straight-line sequences of these calls: a sequence is a list
  of \<open>sq_op\<close>, run from left to right until one throws or does not return.  \<open>Fail e\<close> is a
  \<open>throw\<close> statement between two calls.
\<close>

datatype sq_op =
    Push8 int
  | Push16 int
  | Push32 int
  | PushString jsstr
  | PushBytes "byte list"
  | Flush
  | Fail js_error

fun sq_step :: "sq_op \<Rightarrow> websock \<Rightarrow> (js_error + websock) option" where
  "sq_step (Push8 n) s = Some (sQpush8 n s)"
| "sq_step (Push16 n) s = Some (sQpush16 n s)"
| "sq_step (Push32 n) s = Some (sQpush32 n s)"
| "sq_step (PushString str) s = sQpushString str s"
| "sq_step (PushBytes bs) s = sQpushBytes bs s"
| "sq_step Flush s = Some (flush s)"
| "sq_step (Fail e) s = Some (Inl e)"

fun sq_run :: "sq_op list \<Rightarrow> websock \<Rightarrow> (js_error + websock) option" where
  "sq_run [] s = Some (Inr s)"
| "sq_run (x # xs) s =
     (case sq_step x s of
        None \<Rightarrow> None
      | Some (Inl e) \<Rightarrow> Some (Inl e)
      | Some (Inr s) \<Rightarrow> sq_run xs s)"

section \<open>Attaching and closing\<close>

definition ws_on :: "ws_event \<Rightarrow> websock \<Rightarrow> websock" where
  "ws_on evt s = s\<lparr>handlers := (handlers s)(evt := True)\<rparr>"

definition ws_off :: "ws_event \<Rightarrow> websock \<Rightarrow> websock" where
  "ws_off evt s = s\<lparr>handlers := (handlers s)(evt := False)\<rparr>"

definition allocateBuffers :: "websock \<Rightarrow> websock" where
  "allocateBuffers s = s\<lparr>rQ := replicate (rQbufferSize s) 0,
     sQ := replicate (min (sQlen s) (sQbufferSize s)) 0, allocated := True\<rparr>"

definition ws_init :: "websock \<Rightarrow> websock" where
  "ws_init s = (allocateBuffers s)\<lparr>rQi := 0, websocket := None\<rparr>"

definition attach :: "channel \<Rightarrow> websock \<Rightarrow> js_error + websock" where
  "attach rawChannel s =
     (let s = ws_init s
      in if \<exists>p \<in> set rawChannelProps. p \<notin> set (ch_props rawChannel)
         then Inl (JsError ''Raw channel missing property'')
         else Inr (s\<lparr>websocket := Some (rawChannel\<lparr>ch_listening := True\<rparr>)\<rparr>))"

text \<open>\<open>close()\<close> of the raw channel, which is in its closing state at once.\<close>

definition channel_close :: "channel \<Rightarrow> channel" where
  "channel_close c =
     c\<lparr>ch_closes := Suc (ch_closes c),
       ch_state := (case ch_state c of WebSocketState _ \<Rightarrow> WebSocketState 2
                    | DataChannelState _ \<Rightarrow> DataChannelState ''closing'')\<rparr>"

definition ws_close :: "websock \<Rightarrow> websock" where
  "ws_close s =
     (case websocket s of
        None \<Rightarrow> s
      | Some c \<Rightarrow>
          let c1 = (if readyState s = Connecting \<or> readyState s = Open
                    then channel_close c else c)
          in s\<lparr>websocket := Some (c1\<lparr>ch_listening := False\<rparr>)\<rparr>)"

section \<open>The receive queue as a sequence of bytes\<close>

text \<open>The invariant of the receive queue, from \<open>attach\<close> on.\<close>

definition rq_wf :: "websock \<Rightarrow> bool" where
  "rq_wf s \<longleftrightarrow> rQi s \<le> rQlen s \<and> rQlen s \<le> rQbufferSize s \<and> length (rQ s) = rQbufferSize s
     \<and> rQbufferSize s \<le> MAX_RQ_GROW_SIZE"

definition adv :: "nat \<Rightarrow> websock \<Rightarrow> websock" where
  "adv n s = s\<lparr>rQi := rQi s + n\<rparr>"

lemma adv_adv [simp]: "adv n (adv m s) = adv (m + n) s"
  by (simp add: adv_def)

lemma adv_sel [simp]:
  "rQi (adv n s) = rQi s + n" "rQlen (adv n s) = rQlen s" "rQ (adv n s) = rQ s"
  "rQbufferSize (adv n s) = rQbufferSize s" "websocket (adv n s) = websocket s"
  "sQ (adv n s) = sQ s" "sQlen (adv n s) = sQlen s" "sQbufferSize (adv n s) = sQbufferSize s"
  "handlers (adv n s) = handlers s" "allocated (adv n s) = allocated s"
  by (simp_all add: adv_def)

text \<open>All that reading relies on.\<close>

definition rq_ok :: "websock \<Rightarrow> bool" where
  "rq_ok s \<longleftrightarrow> rQi s \<le> rQlen s \<and> rQlen s \<le> length (rQ s)"

lemma rq_wf_ok: "rq_wf s \<Longrightarrow> rq_ok s"
  by (simp add: rq_wf_def rq_ok_def)

lemma length_unread_ok: "rq_ok s \<Longrightarrow> length (unread s) = rQlen s - rQi s"
  by (auto simp: rq_ok_def unread_def)

lemma rQwait_ok: "rq_ok s \<Longrightarrow> rQwait n s \<longleftrightarrow> length (unread s) < n"
  by (auto simp: rQwait_def rQ_length_def length_unread_ok rq_ok_def)

lemma adv_ok: "rq_ok s \<Longrightarrow> n \<le> length (unread s) \<Longrightarrow> rq_ok (adv n s)"
  by (simp add: length_unread_ok) (auto simp: rq_ok_def)

lemma adv_0 [simp]: "adv 0 s = s"
  by (simp add: adv_def)

lemma js_byte_ok: "rq_ok s \<Longrightarrow> i < length (unread s) \<Longrightarrow> js_byte (rQ s) (rQi s + i) = unat (unread s ! i)"
  by (simp add: length_unread_ok) (auto simp: js_byte_def unread_def rq_ok_def)

lemma length_unread: "rq_wf s \<Longrightarrow> length (unread s) = rQlen s - rQi s"
  by (auto simp: rq_wf_def unread_def)

lemma rQ_length_unread: "rq_wf s \<Longrightarrow> rQ_length s = int (length (unread s))"
  by (simp add: rQ_length_def length_unread) (simp add: rq_wf_def)

lemma rQwait_iff [rq_simps]: "rq_wf s \<Longrightarrow> rQwait n s \<longleftrightarrow> length (unread s) < n"
  by (simp add: rQwait_def rQ_length_unread)

lemma rQwait_back_ok [rq_simps]:
  "rq_wf s \<Longrightarrow> n \<le> length (unread s) \<Longrightarrow> rQwait_back n g s = Inr (False, s)"
  by (simp add: rQwait_back_def rQ_length_unread)

lemma rQwait_back_wait:
  "rq_wf s \<Longrightarrow> length (unread s) < n \<Longrightarrow> g \<le> rQi s \<Longrightarrow>
     rQwait_back n g s = Inr (True, s\<lparr>rQi := rQi s - g\<rparr>)"
  by (auto simp: rQwait_back_def rQ_length_unread)

lemma adv_wf [rq_simps]: "rq_wf s \<Longrightarrow> n \<le> length (unread s) \<Longrightarrow> rq_wf (adv n s)"
  by (simp add: length_unread) (auto simp: rq_wf_def)

lemma adv_unread [rq_simps]: "unread (adv n s) = drop n (unread s)"
  by (simp add: unread_def drop_take add.commute)

lemma take_rQ:
  assumes "rq_wf s" "n \<le> length (unread s)"
  shows "take n (drop (rQi s) (rQ s)) = take n (unread s)"
  using assms by (simp add: length_unread unread_def)

lemma rQskipBytes_adv [rq_simps]: "rQskipBytes n s = adv n s"
  by (simp add: rQskipBytes_def adv_def)

lemma rQshiftBytes_unread [rq_simps]:
  "rq_wf s \<Longrightarrow> n \<le> length (unread s) \<Longrightarrow> rQshiftBytes n s = (take n (unread s), adv n s)"
  by (simp add: rQshiftBytes_def take_rQ adv_def)

lemma rQpeekBytes_unread [rq_simps]:
  "rq_wf s \<Longrightarrow> n \<le> length (unread s) \<Longrightarrow> rQpeekBytes n s = take n (unread s)"
  by (simp add: rQpeekBytes_def take_rQ)

lemma js_byte_unread:
  "rq_wf s \<Longrightarrow> k < length (unread s) \<Longrightarrow> js_byte (rQ s) (rQi s + k) = unat (unread s ! k)"
  by (rule js_byte_ok [OF rq_wf_ok])

lemma rQpeek8_unread [rq_simps]:
  "rq_wf s \<Longrightarrow> 0 < length (unread s) \<Longrightarrow> rQpeek8 s = unat (unread s ! 0)"
  using js_byte_unread [of s 0] by (simp add: rQpeek8_def)

lemma rQshiftView_unread:
  assumes "rq_wf s" "n \<le> length (unread s)"
  shows "v_bytes (fst (rQshiftView n s)) = take n (unread s)"
    and "snd (rQshiftView n s) = adv n s"
proof -
  have "min n (length (rQ s) - rQi s) = n"
    using assms by (simp add: length_unread) (auto simp: rq_wf_def)
  then show "v_bytes (fst (rQshiftView n s)) = take n (unread s)"
    using take_rQ [OF assms] by (simp add: rQshiftView_def v_bytes_def)
  show "snd (rQshiftView n s) = adv n s"
    by (simp add: rQshiftView_def adv_def)
qed

text \<open>
  \<open>rQshift\<close> reads a big-endian number: the shift by 24 may be negative, but the final \<open>>>> 0\<close>
  brings the sum back into the unsigned range.
\<close>

lemma rQshift_from:
  "rq_ok s \<Longrightarrow> k \<le> length (unread s) \<Longrightarrow>
     rQshift k res s = (nat (to_uint32 (res + int (be (take k (unread s))))), adv k s)"
proof (induction k arbitrary: res s)
  case 0
  then show ?case by (simp add: adv_def)
next
  case (Suc k)
  let ?s = "s\<lparr>rQi := Suc (rQi s)\<rparr>"
  have s: "?s = adv 1 s" by (simp add: adv_def)
  from Suc.prems obtain b bs where u: "unread s = b # bs"
    by (cases "unread s") auto
  have wf: "rq_ok ?s" and us: "unread ?s = bs"
    using Suc.prems u by (simp_all add: s adv_ok adv_unread)
  have b: "js_byte (rQ s) (rQi s) = unat b"
    using js_byte_ok [of s 0] Suc.prems u by simp
  have "rQshift k (res + js_shl (int (unat b)) (k * 8)) ?s =
      (nat (to_uint32 (res + js_shl (int (unat b)) (k * 8) + int (be (take k bs)))), adv k ?s)"
    using Suc.IH [OF wf] Suc.prems u us by simp
  also have "to_uint32 (res + js_shl (int (unat b)) (k * 8) + int (be (take k bs))) =
      to_uint32 (res + int (unat b) * 2 ^ (k * 8) + int (be (take k bs)))"
    by (rule to_uint32_add_shl)
  also have "res + int (unat b) * 2 ^ (k * 8) + int (be (take k bs)) =
      res + int (be (take (Suc k) (unread s)))"
    using Suc.prems u by (simp add: power_mult mult.commute [of k])
  finally show ?case
    by (simp add: b)
qed

lemma rQshift_be_ok:
  assumes "rq_ok s" "k \<le> length (unread s)" "k \<le> 4"
  shows "rQshift k 0 s = (be (take k (unread s)), adv k s)"
proof -
  have "be (take k (unread s)) < 2 ^ 32"
    by (rule be_less_32) (use assms in simp)
  then have "to_uint32 (int (be (take k (unread s)))) = int (be (take k (unread s)))"
    by (intro to_uint32_small) (simp_all add: of_nat_less_iff [symmetric] del: of_nat_less_iff)
  then show ?thesis
    using rQshift_from [OF assms(1,2), of 0] by simp
qed

lemma rQshift_be:
  "rq_wf s \<Longrightarrow> k \<le> length (unread s) \<Longrightarrow> k \<le> 4 \<Longrightarrow> rQshift k 0 s = (be (take k (unread s)), adv k s)"
  by (rule rQshift_be_ok [OF rq_wf_ok])

lemma rQshift8_be [rq_simps]:
  "rq_wf s \<Longrightarrow> 1 \<le> length (unread s) \<Longrightarrow> rQshift8 s = (be (take 1 (unread s)), adv 1 s)"
  unfolding rQshift8_def by (rule rQshift_be) simp_all

lemma rQshift16_be [rq_simps]:
  "rq_wf s \<Longrightarrow> 2 \<le> length (unread s) \<Longrightarrow> rQshift16 s = (be (take 2 (unread s)), adv 2 s)"
  unfolding rQshift16_def by (rule rQshift_be) simp_all

lemma rQshift32_be [rq_simps]:
  "rq_wf s \<Longrightarrow> 4 \<le> length (unread s) \<Longrightarrow> rQshift32 s = (be (take 4 (unread s)), adv 4 s)"
  unfolding rQshift32_def by (rule rQshift_be) simp_all

lemma rQshiftStr_from_unread:
  "rq_wf s \<Longrightarrow> len - i \<le> length (unread s) \<Longrightarrow>
     rQshiftStr_from i len str s = (str @ map unat (take (len - i) (unread s)), adv (len - i) s)"
proof (induction i len str s rule: rQshiftStr_from.induct)
  case (1 i len str s)
  show ?case
  proof (cases "i < len")
    case False
    then show ?thesis by (simp add: rQshiftStr_from.simps [of i len] adv_def)
  next
    case True
    define m where "m = min 4096 (len - i)"
    have m: "m \<le> length (unread s)" "len - i = m + (len - (i + 4096))"
      using "1.prems" True by (auto simp: m_def)
    have shift: "rQshiftBytes (min 4096 (len - i)) s = (take m (unread s), adv m s)"
      unfolding m_def [symmetric] by (rule rQshiftBytes_unread) (use "1.prems" m in simp_all)
    have rest: "rQshiftStr_from (i + 4096) len (str @ map unat (take m (unread s))) (adv m s) =
        (str @ map unat (take m (unread s)) @ map unat (take (len - (i + 4096)) (drop m (unread s))),
         adv (len - i) s)"
      using "1.IH" [OF True shift [symmetric] refl] "1.prems" m by (simp add: rq_simps)
    have "take (len - i) (unread s) = take m (unread s) @ take (len - (i + 4096)) (drop m (unread s))"
      unfolding m(2) by (rule take_add)
    with True rest show ?thesis
      by (simp add: rQshiftStr_from.simps [of i len] shift)
  qed
qed

lemma rQshiftStr_unread [rq_simps]:
  "rq_wf s \<Longrightarrow> n \<le> length (unread s) \<Longrightarrow> rQshiftStr n s = (map unat (take n (unread s)), adv n s)"
  unfolding rQshiftStr_def using rQshiftStr_from_unread [of s n 0 "[]"] by simp

subsection \<open>Arrival of a message\<close>

lemma expandCompactRQ_None:
  assumes wf: "rq_wf s" and "expandCompactRQ m s = (None, s')" and "0 < m"
  shows "rq_wf s'" and "unread s' = unread s" and "rQlen s' + m \<le> rQbufferSize s'"
    and "rQi s' = 0" and "handlers s' = handlers s" and "websocket s' = websocket s"
proof -
  obtain n where n: "rQlen s = rQi s + n"
    using wf by (auto simp: rq_wf_def le_iff_add)
  have lb: "n \<le> length (rQ s) - rQi s" "length (rQ s) = rQbufferSize s"
    and le: "n \<le> rQbufferSize s" "rQbufferSize s \<le> MAX_RQ_GROW_SIZE"
    using wf n by (auto simp: rq_wf_def)
  have u: "unread s = take n (drop (rQi s) (rQ s))"
    by (simp add: n unread_def)
  have l: "rQ_length s = int n"
    by (simp add: n rQ_length_def)
  show "rq_wf s'" "unread s' = unread s" "rQlen s' + m \<le> rQbufferSize s'" "rQi s' = 0"
    "handlers s' = handlers s" "websocket s' = websocket s"
    using assms(2,3) le lb
    by (auto simp: expandCompactRQ_def l n Let_def u rq_wf_def unread_def split: if_splits)
qed

lemma expandCompactRQ_Some:
  assumes wf: "rq_wf s" and "expandCompactRQ m s = (Some e, s')"
  shows "MAX_RQ_GROW_SIZE < length (unread s) + m"
  using assms
  by (auto simp: expandCompactRQ_def rQ_length_unread [OF wf] Let_def split: if_splits)

lemma expandCompactRQ_throws:
  assumes wf: "rq_wf s" and "MAX_RQ_GROW_SIZE < length (unread s) + m"
  shows "fst (expandCompactRQ m s) = Some (JsError ''Receive queue buffer exceeded'')"
proof -
  have "length (unread s) \<le> rQbufferSize s" "rQbufferSize s \<le> MAX_RQ_GROW_SIZE"
    using wf by (auto simp: length_unread rq_wf_def)
  then show ?thesis
    using assms(2)
    by (auto simp: expandCompactRQ_def rQ_length_unread [OF wf] Let_def)
qed

definition rewound :: "websock \<Rightarrow> websock" where
  "rewound s = (if rQlen s = rQi s then s\<lparr>rQlen := 0, rQi := 0\<rparr> else s)"

lemma rewound: "rq_wf s \<Longrightarrow> rq_wf (rewound s) \<and> unread (rewound s) = unread s
    \<and> handlers (rewound s) = handlers s \<and> websocket (rewound s) = websocket s"
  by (auto simp: rewound_def rq_wf_def unread_def)

definition accepts :: "byte list \<Rightarrow> websock \<Rightarrow> bool" where
  "accepts u8 s \<longleftrightarrow> length (unread s) + length u8 \<le> MAX_RQ_GROW_SIZE"

lemma recvMessage_accepts:
  assumes wf: "rq_wf s" and "accepts u8 s"
  shows "\<exists>s'. recvMessage u8 s = (None, (unread s @ u8 \<noteq> [] \<and> handlers s EvMessage), s')
           \<and> rq_wf s' \<and> unread s' = unread s @ u8 \<and> websocket s' = websocket s
           \<and> handlers s' = handlers s"
proof -
  let ?s1 = "rewound s"
  have r: "rq_wf ?s1" "unread ?s1 = unread s" "handlers ?s1 = handlers s" "websocket ?s1 = websocket s"
    using rewound [OF wf] by auto
  obtain s2 where s2: "(if int (length u8) > int (rQbufferSize ?s1) - int (rQlen ?s1)
                       then expandCompactRQ (length u8) ?s1 else (None, ?s1)) = (None, s2)"
      and wf2: "rq_wf s2" and u2: "unread s2 = unread s" and fits: "rQlen s2 + length u8 \<le> rQbufferSize s2"
      and h2: "handlers s2 = handlers s" and w2: "websocket s2 = websocket s"
  proof (cases "int (length u8) > int (rQbufferSize ?s1) - int (rQlen ?s1)")
    case False
    then show ?thesis
      using that [of ?s1] r by simp
  next
    case True
    obtain err t where e: "expandCompactRQ (length u8) ?s1 = (err, t)"
      by (cases "expandCompactRQ (length u8) ?s1")
    have "err = None"
      using expandCompactRQ_Some [OF r(1)] e assms(2) r(2) by (cases err) (fastforce simp: accepts_def)+
    moreover have "0 < length u8"
      using True r(1) unfolding rq_wf_def by linarith
    ultimately show ?thesis
      using that [of t] True e r expandCompactRQ_None [OF r(1), of "length u8" t] by simp
  qed
  let ?s3 = "s2\<lparr>rQ := take (rQlen s2) (rQ s2) @ u8 @ drop (rQlen s2 + length u8) (rQ s2),
              rQlen := rQlen s2 + length u8\<rparr>"
  have wf3: "rq_wf ?s3" and "unread ?s3 = unread s2 @ u8"
    using wf2 fits by (auto simp: rq_wf_def unread_def drop_take)
  then have u3: "unread ?s3 = unread s @ u8"
    by (simp only: u2)
  have "recvMessage u8 s = (None, rQ_length ?s3 > 0 \<and> handlers ?s3 EvMessage, ?s3)"
    using s2 fits wf2
    by (auto simp: recvMessage_def rewound_def [symmetric] Let_def rq_wf_def)
  moreover have "0 < rQ_length ?s3 \<longleftrightarrow> unread s @ u8 \<noteq> []"
    by (simp only: rQ_length_unread [OF wf3] u3 of_nat_0_less_iff length_greater_0_conv)
  ultimately show ?thesis
    using wf3 u3 h2 w2 by auto
qed

lemma recvMessage_throws:
  assumes wf: "rq_wf s" and "\<not> accepts u8 s"
  shows "fst (recvMessage u8 s) = Some (JsError ''Receive queue buffer exceeded'')"
proof -
  let ?s1 = "rewound s"
  have r: "rq_wf ?s1" "unread ?s1 = unread s"
    using rewound [OF wf] by auto
  have "int (length u8) > int (rQbufferSize ?s1) - int (rQlen ?s1)"
  proof -
    have "length (unread ?s1) \<le> rQlen ?s1" "rQlen ?s1 \<le> rQbufferSize ?s1"
      "rQbufferSize ?s1 \<le> MAX_RQ_GROW_SIZE"
      using r(1) by (auto simp: length_unread rq_wf_def)
    then show ?thesis
      using assms(2) r(2) by (simp add: accepts_def)
  qed
  moreover have "fst (expandCompactRQ (length u8) ?s1) = Some (JsError ''Receive queue buffer exceeded'')"
    by (rule expandCompactRQ_throws [OF r(1)]) (use assms(2) r(2) in \<open>simp add: accepts_def\<close>)
  ultimately show ?thesis
    by (auto simp: recvMessage_def rewound_def [symmetric] Let_def split: option.splits prod.splits)
qed

subsection \<open>The contract of the receive queue\<close>

text \<open>
  What the readers of the queue (the handshake, the message handlers, the decoders) rely on: a
  read after a failed \<open>wait\<close> gives the next bytes in order, and the arrival of more data appends
  to what is still unread.
\<close>

locale byte_queue =
  fixes inv :: "'s \<Rightarrow> bool"
    and content :: "'s \<Rightarrow> byte list"
    and wait :: "nat \<Rightarrow> 's \<Rightarrow> bool"
    and shift :: "nat \<Rightarrow> 's \<Rightarrow> byte list \<times> 's"
    and fits :: "byte list \<Rightarrow> 's \<Rightarrow> bool"
    and recv :: "byte list \<Rightarrow> 's \<Rightarrow> 's"
  assumes wait_iff: "inv s \<Longrightarrow> wait n s \<longleftrightarrow> length (content s) < n"
    and shift_value: "inv s \<Longrightarrow> \<not> wait n s \<Longrightarrow> fst (shift n s) = take n (content s)"
    and shift_content: "inv s \<Longrightarrow> \<not> wait n s \<Longrightarrow> content (snd (shift n s)) = drop n (content s)"
    and shift_inv: "inv s \<Longrightarrow> \<not> wait n s \<Longrightarrow> inv (snd (shift n s))"
    and recv_content: "inv s \<Longrightarrow> fits bs s \<Longrightarrow> content (recv bs s) = content s @ bs"
    and recv_inv: "inv s \<Longrightarrow> fits bs s \<Longrightarrow> inv (recv bs s)"
begin

text \<open>A read that was possible before a message arrived reads the same bytes after it.\<close>

lemma shift_recv:
  assumes "inv s" "fits bs s" "\<not> wait n s"
  shows "fst (shift n (recv bs s)) = fst (shift n s)"
    and "content (snd (shift n (recv bs s))) = content (snd (shift n s)) @ bs"
proof -
  have "n \<le> length (content s)"
    using assms wait_iff by auto
  moreover have "\<not> wait n (recv bs s)"
    using assms calculation by (simp add: wait_iff recv_inv recv_content)
  ultimately show "fst (shift n (recv bs s)) = fst (shift n s)"
    and "content (snd (shift n (recv bs s))) = content (snd (shift n s)) @ bs"
    using assms by (simp_all add: shift_value shift_content recv_inv recv_content)
qed

text \<open>Two reads in a row are one read of the sum.\<close>

lemma shift_shift:
  assumes "inv s" "\<not> wait (m + n) s"
  shows "fst (shift m s) @ fst (shift n (snd (shift m s))) = fst (shift (m + n) s)"
    and "content (snd (shift n (snd (shift m s)))) = content (snd (shift (m + n) s))"
proof -
  have l: "m + n \<le> length (content s)" and m: "\<not> wait m s"
    using assms wait_iff by auto
  have "inv (snd (shift m s))" "\<not> wait n (snd (shift m s))"
    using assms m l by (simp_all add: shift_inv shift_content wait_iff)
  then show "fst (shift m s) @ fst (shift n (snd (shift m s))) = fst (shift (m + n) s)"
    and "content (snd (shift n (snd (shift m s)))) = content (snd (shift (m + n) s))"
    using assms m by (simp_all add: shift_value shift_content take_add add.commute)
qed

text \<open>The messages of a sequence end up in the queue in the order in which they arrived.\<close>

fun all_fit :: "byte list list \<Rightarrow> 's \<Rightarrow> bool" where
  "all_fit [] s = True"
| "all_fit (bs # bss) s = (fits bs s \<and> all_fit bss (recv bs s))"

lemma fold_recv:
  "inv s \<Longrightarrow> all_fit bss s \<Longrightarrow>
     inv (fold recv bss s) \<and> content (fold recv bss s) = content s @ concat bss"
  by (induction bss arbitrary: s) (simp_all add: recv_inv recv_content)

end

definition recv_only :: "byte list \<Rightarrow> websock \<Rightarrow> websock" where
  "recv_only u8 s = snd (snd (recvMessage u8 s))"

interpretation rq: byte_queue rq_wf unread rQwait rQshiftBytes accepts recv_only
proof
  fix s :: websock and n :: nat and bs :: "byte list"
  assume wf: "rq_wf s"
  show "rQwait n s \<longleftrightarrow> length (unread s) < n"
    using wf by (rule rQwait_iff)
  show "fst (rQshiftBytes n s) = take n (unread s)" if "\<not> rQwait n s"
    using that wf by (simp add: rq_simps)
  show "unread (snd (rQshiftBytes n s)) = drop n (unread s)" if "\<not> rQwait n s"
    using that wf by (simp add: rq_simps)
  show "rq_wf (snd (rQshiftBytes n s))" if "\<not> rQwait n s"
    using that wf by (simp add: rq_simps)
  show "unread (recv_only bs s) = unread s @ bs" if "accepts bs s"
    using recvMessage_accepts [OF wf that] by (auto simp: recv_only_def)
  show "rq_wf (recv_only bs s)" if "accepts bs s"
    using recvMessage_accepts [OF wf that] by (auto simp: recv_only_def)
qed

subsection \<open>The send queue as a sequence of bytes\<close>

text \<open>
  \<open>wire\<close> is what the channel has been given so far, \<open>stream\<close> adds what still waits in the
  queue.  \<open>sq_ready\<close> holds from the moment the channel is open.
\<close>

definition wire :: "websock \<Rightarrow> byte list" where
  "wire s = (case websocket s of None \<Rightarrow> [] | Some c \<Rightarrow> concat (ch_sent c))"

definition stream :: "websock \<Rightarrow> byte list" where
  "stream s = wire s @ sQ s"

definition sq_ready :: "websock \<Rightarrow> bool" where
  "sq_ready s \<longleftrightarrow> readyState s = Open \<and> length (sQ s) = sQlen s \<and> sQlen s \<le> sQbufferSize s
     \<and> 4 \<le> sQbufferSize s \<and> allocated s"

definition rq_part :: "websock \<Rightarrow> websock" where
  "rq_part s = s\<lparr>websocket := None, sQ := [], sQlen := 0\<rparr>"

definition sends :: "websock \<Rightarrow> byte list \<Rightarrow> websock \<Rightarrow> bool" where
  "sends s bs s' \<longleftrightarrow> sq_ready s' \<and> stream s' = stream s @ bs \<and> rq_part s' = rq_part s"

lemma sends_refl: "sq_ready s \<Longrightarrow> sends s [] s"
  by (simp add: sends_def)

lemma sends_trans: "sends s bs s' \<Longrightarrow> sends s' cs s'' \<Longrightarrow> sends s (bs @ cs) s''"
  by (simp add: sends_def)

lemma sends_ready: "sends s bs s' \<Longrightarrow> sq_ready s'"
  by (simp add: sends_def)

lemma sends_rq:
  assumes "sends s bs s'"
  shows "rQi s' = rQi s" "rQlen s' = rQlen s" "rQ s' = rQ s" "rQbufferSize s' = rQbufferSize s"
    "handlers s' = handlers s" "sQbufferSize s' = sQbufferSize s" "allocated s' = allocated s"
proof -
  have e: "rq_part s' = rq_part s"
    using assms by (simp add: sends_def)
  show "rQi s' = rQi s" "rQlen s' = rQlen s" "rQ s' = rQ s" "rQbufferSize s' = rQbufferSize s"
    "handlers s' = handlers s" "sQbufferSize s' = sQbufferSize s" "allocated s' = allocated s"
    using arg_cong [OF e, of rQi] arg_cong [OF e, of rQlen] arg_cong [OF e, of rQ]
      arg_cong [OF e, of rQbufferSize] arg_cong [OF e, of handlers] arg_cong [OF e, of sQbufferSize]
      arg_cong [OF e, of allocated]
    by (simp_all add: rq_part_def)
qed

lemma sends_unread: "sends s bs s' \<Longrightarrow> unread s' = unread s"
  by (simp add: unread_def sends_rq)

lemma sends_wf: "sends s bs s' \<Longrightarrow> rq_wf s' = rq_wf s"
  by (simp add: rq_wf_def sends_rq)

lemma flush_ready:
  assumes "sq_ready s"
  shows "\<exists>s'. flush s = Inr s' \<and> sends s [] s' \<and> sQlen s' = 0 \<and> sQ s' = []"
proof (cases "sQlen s > 0")
  case False
  then show ?thesis
    using assms by (auto simp: flush_def sq_ready_def intro: sends_refl)
next
  case True
  obtain c where c: "websocket s = Some c" and o: "sub_ready (ch_state c) = Open"
    using assms by (auto simp: sq_ready_def readyState_def split: option.splits)
  have sizes: "length (sQ s) = sQlen s" "sQlen s \<le> sQbufferSize s" "4 \<le> sQbufferSize s"
    and r: "readyState s = Open" "allocated s"
    using assms by (auto simp: sq_ready_def)
  let ?s = "s\<lparr>websocket := Some (c\<lparr>ch_sent := ch_sent c @ [sQ s]\<rparr>), sQlen := 0, sQ := []\<rparr>"
  have "flush s = Inr ?s"
    using True c sizes r by (simp add: flush_def)
  moreover have "sends s [] ?s"
    using c o sizes r by (simp add: sends_def sq_ready_def readyState_def stream_def wire_def rq_part_def)
  ultimately show ?thesis by simp
qed

lemma sQensureSpace_ready:
  assumes "sq_ready s" "n \<le> 4"
  shows "\<exists>s'. sQensureSpace n s = Inr s' \<and> sends s [] s' \<and> sQlen s' + n \<le> sQbufferSize s'"
proof (cases "int (sQbufferSize s) - int (sQlen s) < int n")
  case False
  then show ?thesis
    using assms by (auto simp: sQensureSpace_def sq_ready_def intro: sends_refl)
next
  case True
  obtain s' where s': "flush s = Inr s'" "sends s [] s'" "sQlen s' = 0"
    using flush_ready [OF assms(1)] by blast
  have "4 \<le> sQbufferSize s'"
    using sends_ready [OF s'(2)] by (simp add: sq_ready_def)
  then show ?thesis
    using True s' assms(2) by (simp add: sQensureSpace_def)
qed

lemma sQput_sends:
  "sq_ready s \<Longrightarrow> sQlen s < sQbufferSize s \<Longrightarrow> sends s [u8_of n] (sQput n s)"
  by (simp add: sends_def sQput_def sq_ready_def stream_def wire_def readyState_def rq_part_def)

lemma sQput_room: "sQlen (sQput n s) = Suc (sQlen s)" "sQbufferSize (sQput n s) = sQbufferSize s"
  by (simp_all add: sQput_def)

lemma sQstore_ready: "sends s bs s' \<Longrightarrow> sQstore put s' = Inr (put s')"
  by (simp add: sQstore_def sends_def sq_ready_def)

lemma sQpush8_sends: "sq_ready s \<Longrightarrow> \<exists>s'. sQpush8 n s = Inr s' \<and> sends s [u8_of n] s'"
proof -
  assume r: "sq_ready s"
  obtain s1 where s1: "sQensureSpace 1 s = Inr s1" "sends s [] s1" "sQlen s1 < sQbufferSize s1"
    using sQensureSpace_ready [OF r, of 1] by auto
  show ?thesis
    using s1(1) sends_trans [OF s1(2) sQput_sends [OF sends_ready [OF s1(2)] s1(3), of n]]
    by (simp add: sQpush8_def sQstore_ready [OF s1(2)])
qed

lemma sQpush16_sends:
  assumes "sq_ready s"
  shows "\<exists>s'. sQpush16 n s = Inr s' \<and> sends s [u8_of (drop_bit 8 n), u8_of n] s'"
proof -
  obtain s1 where s1: "sQensureSpace 2 s = Inr s1" "sends s [] s1" "sQlen s1 + 2 \<le> sQbufferSize s1"
    using sQensureSpace_ready [OF assms, of 2] by auto
  let ?a = "sQput (js_and (js_shr n 8) 255) s1"
  let ?b = "sQput (js_and (js_shr n 0) 255) ?a"
  have a: "sends s1 [u8_of (drop_bit 8 n)] ?a"
    using sQput_sends [OF sends_ready [OF s1(2)]] s1(3) by (simp add: u8_of_shr [symmetric])
  have b: "sends ?a [u8_of n] ?b"
    using sQput_sends [OF sends_ready [OF a], of "js_and (js_shr n 0) 255"] s1(3) u8_of_shr [of 0 n]
    by (simp add: sQput_room)
  show ?thesis
    using s1(1) sends_trans [OF s1(2) sends_trans [OF a b]] by (simp add: sQpush16_def sQstore_ready [OF s1(2)])
qed

lemma sQpush32_sends:
  assumes "sq_ready s"
  shows "\<exists>s'. sQpush32 n s = Inr s'
    \<and> sends s [u8_of (drop_bit 24 n), u8_of (drop_bit 16 n), u8_of (drop_bit 8 n), u8_of n] s'"
proof -
  obtain s1 where s1: "sQensureSpace 4 s = Inr s1" "sends s [] s1" "sQlen s1 + 4 \<le> sQbufferSize s1"
    using sQensureSpace_ready [OF assms, of 4] by auto
  let ?put = "\<lambda>k. sQput (js_and (js_shr n k) 255)"
  have put: "sends t [u8_of (drop_bit k n)] (?put k t)"
    if "sq_ready t" "sQlen t < sQbufferSize t" "k \<le> 24" for k t
    using sQput_sends [OF that(1,2)] that(3) by (simp add: u8_of_shr [symmetric])
  have a: "sends s1 [u8_of (drop_bit 24 n)] (?put 24 s1)"
    using put [OF sends_ready [OF s1(2)]] s1(3) by simp
  have b: "sends (?put 24 s1) [u8_of (drop_bit 16 n)] (?put 16 (?put 24 s1))"
    using put [OF sends_ready [OF a]] s1(3) by (simp add: sQput_room)
  have c: "sends (?put 16 (?put 24 s1)) [u8_of (drop_bit 8 n)] (?put 8 (?put 16 (?put 24 s1)))"
    using put [OF sends_ready [OF b]] s1(3) by (simp add: sQput_room)
  have d: "sends (?put 8 (?put 16 (?put 24 s1))) [u8_of n] (?put 0 (?put 8 (?put 16 (?put 24 s1))))"
    using put [OF sends_ready [OF c], of 0] s1(3) by (simp add: sQput_room)
  show ?thesis
    using s1(1) sends_trans [OF s1(2) sends_trans [OF a sends_trans [OF b sends_trans [OF c d]]]]
    by (simp add: sQpush32_def sQstore_ready [OF s1(2)])
qed

text \<open>
  \<open>sQpushBytes\<close> on an open channel: every round stores at least one byte, so the loop ends.
\<close>

lemma sQpushBytes_sends:
  "sq_ready s \<Longrightarrow> \<exists>s'. sQpushBytes bs s = Some (Inr s') \<and> sends s bs s'"
proof (induction "length bs" arbitrary: bs s rule: less_induct)
  case less
  show ?case
  proof (cases "bs = []")
    case True
    then show ?thesis
      using less.prems by (simp add: sQpushBytes.simps sends_refl)
  next
    case False
    obtain s1 where s1: "sQensureSpace 1 s = Inr s1" "sends s [] s1" "sQlen s1 < sQbufferSize s1"
      using sQensureSpace_ready [OF less.prems, of 1] by auto
    define n where "n = min (length bs) (sQbufferSize s1 - sQlen s1)"
    let ?s2 = "s1\<lparr>sQ := sQ s1 @ take n bs, sQlen := sQlen s1 + n\<rparr>"
    have n: "0 < n" "n \<le> length bs" "sQlen s1 + n \<le> sQbufferSize s1"
      using False s1(3) by (auto simp: n_def)
    have s2: "sends s1 (take n bs) ?s2"
      using sends_ready [OF s1(2)] n
      by (simp add: sends_def sq_ready_def stream_def wire_def readyState_def rq_part_def)
    have lt: "length (drop n bs) < length bs"
      using n by (simp add: diff_less)
    obtain s3 where s3: "sQpushBytes (drop n bs) ?s2 = Some (Inr s3)" "sends ?s2 (drop n bs) s3"
      using less.hyps [OF lt sends_ready [OF s2]] by blast
    have "sQpushBytes bs s = Some (Inr s3)"
      using False s1 s3(1) n sends_ready [OF s1(2)]
      by (subst sQpushBytes.simps) (simp add: n_def [symmetric] sq_ready_def)
    moreover have "sends s bs s3"
      using sends_trans [OF s1(2) sends_trans [OF s2 s3(2)]] by simp
    ultimately show ?thesis by blast
  qed
qed

text \<open>
  On a channel that is not open nothing leaves the queue: what does not fit is never pushed and
  the loop never ends.
\<close>

lemma sQensureSpace_not_open: "readyState s \<noteq> Open \<Longrightarrow> sQensureSpace n s = Inr s"
  by (simp add: sQensureSpace_def flush_def)

lemma sQpushBytes_stuck:
  assumes "readyState s \<noteq> Open" "allocated s" "sQlen s \<le> sQbufferSize s" "sQbufferSize s - sQlen s < length bs"
  shows "sQpushBytes bs s = None"
proof (rule ccontr)
  assume "sQpushBytes bs s \<noteq> None"
  then obtain r where ret: "sQpushBytes bs s = Some r" by auto
  let ?stuck = "\<lambda>bs s. readyState s \<noteq> Open \<and> allocated s \<and> sQlen s \<le> sQbufferSize s
    \<and> sQbufferSize s - sQlen s < length bs"
  have "\<not> ?stuck bs s"
  proof (rule sQpushBytes.raw_induct [where P = "\<lambda>bs s r. \<not> ?stuck bs s", OF _ ret])
    fix f and bs :: "byte list" and s r
    assume IH: "\<And>bs s r. f bs s = Some r \<Longrightarrow> \<not> ?stuck bs s"
      and eq: "(if bs = [] then Some (Inr s)
        else case sQensureSpace 1 s of
          Inl e \<Rightarrow> Some (Inl e)
        | Inr s1 \<Rightarrow>
            (if \<not> allocated s1 then Some (Inl NullError)
             else if sQbufferSize s1 < sQlen s1 then Some (Inl RangeError)
             else f (drop (min (length bs) (sQbufferSize s1 - sQlen s1)) bs)
                    (s1\<lparr>sQ := sQ s1 @ take (min (length bs) (sQbufferSize s1 - sQlen s1)) bs,
                        sQlen := sQlen s1 + min (length bs) (sQbufferSize s1 - sQlen s1)\<rparr>)))
        = Some r"
    show "\<not> ?stuck bs s"
    proof
      assume st: "?stuck bs s"
      let ?n = "sQbufferSize s - sQlen s"
      have "f (drop ?n bs) (s\<lparr>sQ := sQ s @ take ?n bs, sQlen := sQlen s + ?n\<rparr>) = Some r"
        using st eq by (auto simp: sQensureSpace_not_open min_def split: if_splits)
      from IH [OF this] show False
        using st by (auto simp: readyState_def)
    qed
  qed
  with assms show False by simp
qed

lemma sQpushBytes_null:
  assumes "readyState s \<noteq> Open" "\<not> allocated s" "bs \<noteq> []"
  shows "sQpushBytes bs s = Some (Inl NullError)"
  using assms by (simp add: sQpushBytes.simps [of bs] sQensureSpace_not_open)

lemma sQpushBytes_fits:
  assumes "readyState s \<noteq> Open" "allocated s" "sQlen s + length bs \<le> sQbufferSize s"
  shows "sQpushBytes bs s = Some (Inr (s\<lparr>sQ := sQ s @ bs, sQlen := sQlen s + length bs\<rparr>))"
proof (cases "bs = []")
  case True
  then show ?thesis by (simp add: sQpushBytes.simps)
next
  case False
  then show ?thesis
    using assms
    by (simp add: sQpushBytes.simps [of bs] sQensureSpace_not_open min_def sQpushBytes.simps [of "[]"])
qed

subsection \<open>Sequences of pushes\<close>

fun op_bytes :: "sq_op \<Rightarrow> byte list" where
  "op_bytes (Push8 n) = [u8_of n]"
| "op_bytes (Push16 n) = [u8_of (drop_bit 8 n), u8_of n]"
| "op_bytes (Push32 n) = [u8_of (drop_bit 24 n), u8_of (drop_bit 16 n), u8_of (drop_bit 8 n), u8_of n]"
| "op_bytes (PushString str) = map (\<lambda>c. u8_of (int c)) str"
| "op_bytes (PushBytes bs) = bs"
| "op_bytes Flush = []"
| "op_bytes (Fail e) = []"

fun no_fail :: "sq_op \<Rightarrow> bool" where
  "no_fail (Fail e) = False"
| "no_fail _ = True"

text \<open>
  The contract of a byte sink: while it is ready, an operation appends its bytes to the stream,
  and so does a sequence of them.
\<close>

locale byte_sink =
  fixes ready :: "'s \<Rightarrow> bool"
    and appends :: "'s \<Rightarrow> byte list \<Rightarrow> 's \<Rightarrow> bool"
    and step :: "'op \<Rightarrow> 's \<Rightarrow> (js_error + 's) option"
    and run :: "'op list \<Rightarrow> 's \<Rightarrow> (js_error + 's) option"
    and bytes :: "'op \<Rightarrow> byte list"
    and ok :: "'op \<Rightarrow> bool"
  assumes step_appends: "ready s \<Longrightarrow> ok x \<Longrightarrow> \<exists>s'. step x s = Some (Inr s') \<and> appends s (bytes x) s'"
    and appends_refl: "ready s \<Longrightarrow> appends s [] s"
    and appends_trans: "appends s bs s' \<Longrightarrow> appends s' cs s'' \<Longrightarrow> appends s (bs @ cs) s''"
    and appends_ready: "appends s bs s' \<Longrightarrow> ready s'"
    and run_Nil: "run [] s = Some (Inr s)"
    and run_Cons: "step x s = Some (Inr s') \<Longrightarrow> run (x # xs) s = run xs s'"
begin

lemma run_appends:
  "ready s \<Longrightarrow> list_all ok xs \<Longrightarrow> \<exists>s'. run xs s = Some (Inr s') \<and> appends s (concat (map bytes xs)) s'"
proof (induction xs arbitrary: s)
  case Nil
  then show ?case by (simp add: run_Nil appends_refl)
next
  case (Cons x xs)
  obtain s1 where s1: "step x s = Some (Inr s1)" "appends s (bytes x) s1"
    using step_appends [of s x] Cons.prems by auto
  obtain s2 where s2: "run xs s1 = Some (Inr s2)" "appends s1 (concat (map bytes xs)) s2"
    using Cons.IH [OF appends_ready [OF s1(2)]] Cons.prems by auto
  show ?case
    using run_Cons [OF s1(1)] s2(1) appends_trans [OF s1(2) s2(2)] by auto
qed

end

lemma sq_step_sends:
  assumes "sq_ready s" "no_fail x"
  shows "\<exists>s'. sq_step x s = Some (Inr s') \<and> sends s (op_bytes x) s'"
proof (cases x)
  case Flush
  then show ?thesis using flush_ready [OF assms(1)] by auto
qed (use assms in \<open>simp_all add: sQpush8_sends sQpush16_sends sQpush32_sends sQpushBytes_sends
      sQpushString_def\<close>)

interpretation sq: byte_sink sq_ready sends sq_step sq_run op_bytes no_fail
proof
  fix s s' s'' :: websock and bs cs x xs
  show "sq_ready s \<Longrightarrow> no_fail x \<Longrightarrow> \<exists>s'. sq_step x s = Some (Inr s') \<and> sends s (op_bytes x) s'"
    by (rule sq_step_sends)
  show "sq_ready s \<Longrightarrow> sends s [] s" by (rule sends_refl)
  show "sends s bs s' \<Longrightarrow> sends s' cs s'' \<Longrightarrow> sends s (bs @ cs) s''" by (rule sends_trans)
  show "sends s bs s' \<Longrightarrow> sq_ready s'" by (rule sends_ready)
  show "sq_run [] s = Some (Inr s)" by simp
  show "sq_step x s = Some (Inr s') \<Longrightarrow> sq_run (x # xs) s = sq_run xs s'" by simp
qed

lemma sq_run_append:
  "sq_run xs s = Some (Inr s') \<Longrightarrow> sq_run (xs @ ys) s = sq_run ys s'"
  by (induction xs arbitrary: s) (auto split: option.splits sum.splits)

text \<open>A sequence that ends with \<open>flush\<close> leaves nothing behind: its bytes are on the wire.\<close>

lemma sq_run_flush:
  assumes "sq_ready s" "sQ s = []" "list_all no_fail xs"
  shows "\<exists>s'. sq_run (xs @ [Flush]) s = Some (Inr s') \<and> sends s (concat (map op_bytes xs)) s'
    \<and> sQ s' = [] \<and> wire s' = wire s @ concat (map op_bytes xs)"
proof -
  obtain s1 where s1: "sq_run xs s = Some (Inr s1)" "sends s (concat (map op_bytes xs)) s1"
    using sq.run_appends [OF assms(1,3)] by blast
  obtain s2 where s2: "flush s1 = Inr s2" "sends s1 [] s2" "sQ s2 = []"
    using flush_ready [OF sends_ready [OF s1(2)]] by blast
  have "sends s (concat (map op_bytes xs)) s2"
    using sends_trans [OF s1(2) s2(2)] by simp
  then show ?thesis
    using sq_run_append [OF s1(1), of "[Flush]"] s2 assms(2)
    by (simp add: sends_def stream_def)
qed

end
