(* ===== verification/Utf8.thy ===== *)
theory Utf8
  imports JsBase
begin

text \<open>
  Model of \<open>core/util/strings.js\<close>.  The source composes four library functions:
  \<open>unescape(encodeURIComponent(s))\<close> and \<open>decodeURIComponent(escape(s))\<close>.  Together they convert
  between a string of UTF-16 code units and a string whose code units are the bytes of its UTF-8
  form; \<open>encodeURIComponent\<close> throws a \<open>URIError\<close> on a lone surrogate, \<open>decodeURIComponent\<close> on
  anything that is not well-formed UTF-8.
\<close>

section \<open>UTF-16\<close>

definition is_high :: "nat \<Rightarrow> bool" where
  "is_high u \<longleftrightarrow> 0xD800 \<le> u \<and> u \<le> 0xDBFF"

definition is_low :: "nat \<Rightarrow> bool" where
  "is_low u \<longleftrightarrow> 0xDC00 \<le> u \<and> u \<le> 0xDFFF"

fun utf16_points :: "jsstr \<Rightarrow> nat list option" where
  "utf16_points [] = Some []"
| "utf16_points (u # us) =
     (if is_high u then
        (case us of
           [] \<Rightarrow> None
         | v # vs \<Rightarrow>
             if is_low v
             then map_option (Cons (0x10000 + (u - 0xD800) * 0x400 + (v - 0xDC00))) (utf16_points vs)
             else None)
      else if is_low u then None
      else map_option (Cons u) (utf16_points us))"

definition point_units :: "nat \<Rightarrow> jsstr" where
  "point_units p =
     (if p < 0x10000 then [p]
      else [0xD800 + (p - 0x10000) div 0x400, 0xDC00 + (p - 0x10000) mod 0x400])"

section \<open>UTF-8\<close>

definition point_bytes :: "nat \<Rightarrow> jsstr" where
  "point_bytes p =
     (if p < 0x80 then [p]
      else if p < 0x800 then [0xC0 + p div 0x40, 0x80 + p mod 0x40]
      else if p < 0x10000 then [0xE0 + p div 0x1000, 0x80 + p div 0x40 mod 0x40, 0x80 + p mod 0x40]
      else [0xF0 + p div 0x40000, 0x80 + p div 0x1000 mod 0x40, 0x80 + p div 0x40 mod 0x40,
            0x80 + p mod 0x40])"

definition is_cont :: "nat \<Rightarrow> bool" where
  "is_cont b \<longleftrightarrow> 0x80 \<le> b \<and> b \<le> 0xBF"

text \<open>A sequence must not be longer than necessary, nor stand for a surrogate or for a number
  above 0x10FFFF.\<close>

fun bytes_points :: "jsstr \<Rightarrow> nat list option" where
  "bytes_points [] = Some []"
| "bytes_points (b # bs) =
     (if b < 0x80 then map_option (Cons b) (bytes_points bs)
      else if 0xC0 \<le> b \<and> b < 0xE0 then
        (case bs of
           c1 # cs \<Rightarrow>
             let p = (b - 0xC0) * 0x40 + (c1 - 0x80)
             in if is_cont c1 \<and> 0x80 \<le> p then map_option (Cons p) (bytes_points cs) else None
         | _ \<Rightarrow> None)
      else if 0xE0 \<le> b \<and> b < 0xF0 then
        (case bs of
           c1 # c2 # cs \<Rightarrow>
             let p = (b - 0xE0) * 0x1000 + (c1 - 0x80) * 0x40 + (c2 - 0x80)
             in if is_cont c1 \<and> is_cont c2 \<and> 0x800 \<le> p \<and> \<not> is_high p \<and> \<not> is_low p
                then map_option (Cons p) (bytes_points cs) else None
         | _ \<Rightarrow> None)
      else if 0xF0 \<le> b \<and> b < 0xF8 then
        (case bs of
           c1 # c2 # c3 # cs \<Rightarrow>
             let p = (b - 0xF0) * 0x40000 + (c1 - 0x80) * 0x1000 + (c2 - 0x80) * 0x40 + (c3 - 0x80)
             in if is_cont c1 \<and> is_cont c2 \<and> is_cont c3 \<and> 0x10000 \<le> p \<and> p < 0x110000
                then map_option (Cons p) (bytes_points cs) else None
         | _ \<Rightarrow> None)
      else None)"

section \<open>The two functions of the module\<close>

definition encodeUTF8 :: "jsstr \<Rightarrow> js_error + jsstr" where
  "encodeUTF8 DOMString =
     (case utf16_points DOMString of
        None \<Rightarrow> Inl URIError
      | Some ps \<Rightarrow> Inr (concat (map point_bytes ps)))"

definition decodeUTF8 :: "jsstr \<Rightarrow> bool \<Rightarrow> js_error + jsstr" where
  "decodeUTF8 utf8string allowLatin1 =
     (case bytes_points utf8string of
        Some ps \<Rightarrow> Inr (concat (map point_units ps))
      | None \<Rightarrow> if allowLatin1 then Inr utf8string else Inl URIError)"

section \<open>Round trip\<close>

definition units_ok :: "jsstr \<Rightarrow> bool" where
  "units_ok s \<longleftrightarrow> (\<forall>u \<in> set s. u < 0x10000)"

definition scalar :: "nat \<Rightarrow> bool" where
  "scalar p \<longleftrightarrow> p < 0x110000 \<and> \<not> is_high p \<and> \<not> is_low p"

lemma utf16_points_scalar:
  "utf16_points s = Some ps \<Longrightarrow> units_ok s \<Longrightarrow> \<forall>p \<in> set ps. scalar p"
proof (induction s arbitrary: ps rule: utf16_points.induct)
  case 1
  then show ?case by simp
next
  case (2 u us)
  show ?case
  proof (cases "is_high u")
    case True
    with "2.prems" obtain v vs qs where vs: "us = v # vs" "is_low v" "utf16_points vs = Some qs"
      and ps: "ps = (0x10000 + (u - 0xD800) * 0x400 + (v - 0xDC00)) # qs"
      by (auto split: list.splits if_splits)
    have "scalar (0x10000 + (u - 0xD800) * 0x400 + (v - 0xDC00))"
      using True vs(2) by (auto simp: scalar_def is_high_def is_low_def)
    moreover have "\<forall>p \<in> set qs. scalar p"
      using "2.IH"(1) [OF True vs(1) vs(2) vs(3)] "2.prems"(2) vs(1) by (simp add: units_ok_def)
    ultimately show ?thesis by (simp add: ps)
  next
    case False
    with "2.prems" obtain qs where "\<not> is_low u" "utf16_points us = Some qs" "ps = u # qs"
      by (auto split: if_splits)
    then show ?thesis
      using "2.IH"(2) [OF False] False "2.prems"(2) by (auto simp: units_ok_def scalar_def)
  qed
qed

lemma point_units_points: "utf16_points s = Some ps \<Longrightarrow> concat (map point_units ps) = s \<or> \<not> units_ok s"
proof (induction s arbitrary: ps rule: utf16_points.induct)
  case 1
  then show ?case by simp
next
  case (2 u us)
  show ?case
  proof (cases "is_high u")
    case True
    with "2.prems" obtain v vs qs where vs: "us = v # vs" "is_low v" "utf16_points vs = Some qs"
      and ps: "ps = (0x10000 + (u - 0xD800) * 0x400 + (v - 0xDC00)) # qs"
      by (auto split: list.splits if_splits)
    obtain a b where ab: "u = 0xD800 + a" "v = 0xDC00 + b" "b < 0x400"
      using True vs(2) by (auto simp: is_high_def is_low_def le_iff_add)
    have "point_units (0x10000 + (u - 0xD800) * 0x400 + (v - 0xDC00)) = [u, v]"
      using ab by (simp add: point_units_def)
    then show ?thesis
      using "2.IH"(1) [OF True vs(1) vs(2) vs(3)] vs(1) by (auto simp: ps units_ok_def)
  next
    case False
    with "2.prems" obtain qs where "\<not> is_low u" "utf16_points us = Some qs" "ps = u # qs"
      by (auto split: if_splits)
    then show ?thesis
      using "2.IH"(2) [OF False] by (auto simp: units_ok_def point_units_def)
  qed
qed

lemma split64: "\<exists>q r. (p::nat) = q * 0x40 + r \<and> r < 0x40"
  by (metis div_mult_mod_eq mod_less_divisor zero_less_numeral)

lemma div64: "(p::nat) div 0x1000 = p div 0x40 div 0x40" "p div 0x40000 = p div 0x40 div 0x40 div 0x40"
  by (simp_all add: div_mult2_eq [symmetric])

lemma divmod64: "p = q * 0x40 + r \<Longrightarrow> r < 0x40 \<Longrightarrow> p mod 0x40 = r \<and> (p::nat) div 0x40 = q"
  by simp

lemma bytes_points_point:
  assumes "scalar p"
  shows "bytes_points (point_bytes p @ bs) = map_option (Cons p) (bytes_points bs)"
proof -
  consider (1) "p < 0x80" | (2) "0x80 \<le> p" "p < 0x800" | (3) "0x800 \<le> p" "p < 0x10000"
    | (4) "0x10000 \<le> p" "p < 0x110000"
    using assms by (fastforce simp: scalar_def)
  then show ?thesis
  proof cases
    case 1
    then show ?thesis by (simp add: point_bytes_def)
  next
    case 2
    obtain q r where p: "p = q * 0x40 + r" "r < 0x40" using split64 by blast
    have "q < 0x20" "2 \<le> q"
      using 2 p by auto
    then show ?thesis
      using p(2) unfolding p(1) by (simp add: point_bytes_def is_cont_def Let_def)
  next
    case 3
    obtain q c where q: "p = q * 0x40 + c" "c < 0x40" using split64 by blast
    obtain a b where a: "q = a * 0x40 + b" "b < 0x40" using split64 by blast
    have "p mod 0x40 = c" "p div 0x40 = q" "q div 0x40 = a" "q mod 0x40 = b"
      using divmod64 [OF q] divmod64 [OF a] by simp_all
    moreover from this have "p div 0x1000 = a"
      by (simp only: div64)
    ultimately have pb: "point_bytes p = [0xE0 + a, 0x80 + b, 0x80 + c]"
      using 3 by (simp add: point_bytes_def)
    have "a < 0x10" "a * 0x1000 + b * 0x40 + c = p"
      using 3 q a by auto
    then show ?thesis
      using 3 assms q(2) a(2) unfolding pb by (simp add: is_cont_def Let_def scalar_def)
  next
    case 4
    obtain q d where q: "p = q * 0x40 + d" "d < 0x40" using split64 by blast
    obtain r c where r: "q = r * 0x40 + c" "c < 0x40" using split64 by blast
    obtain a b where a: "r = a * 0x40 + b" "b < 0x40" using split64 by blast
    have "p mod 0x40 = d" "p div 0x40 = q" "q mod 0x40 = c" "q div 0x40 = r" "r mod 0x40 = b" "r div 0x40 = a"
      using divmod64 [OF q] divmod64 [OF r] divmod64 [OF a] by simp_all
    moreover from this have "p div 0x1000 = r" "p div 0x40000 = a"
      by (simp_all only: div64)
    ultimately have pb: "point_bytes p = [0xF0 + a, 0x80 + b, 0x80 + c, 0x80 + d]"
      using 4 by (simp add: point_bytes_def)
    have "a < 8" "a * 0x40000 + b * 0x1000 + c * 0x40 + d = p"
      using 4 q r a by auto
    then show ?thesis
      using 4 q(2) r(2) a(2) unfolding pb by (simp add: is_cont_def Let_def)
  qed
qed

lemma bytes_points_points:
  "\<forall>p \<in> set ps. scalar p \<Longrightarrow> bytes_points (concat (map point_bytes ps)) = Some ps"
  by (induction ps) (simp_all add: bytes_points_point)

lemma decode_encode:
  assumes "units_ok s" "encodeUTF8 s = Inr b"
  shows "decodeUTF8 b l = Inr s"
proof -
  obtain ps where ps: "utf16_points s = Some ps" "b = concat (map point_bytes ps)"
    using assms(2) by (auto simp: encodeUTF8_def split: option.splits)
  have "bytes_points b = Some ps"
    using bytes_points_points utf16_points_scalar [OF ps(1) assms(1)] ps(2) by simp
  moreover have "concat (map point_units ps) = s"
    using point_units_points [OF ps(1)] assms(1) by simp
  ultimately show ?thesis by (simp add: decodeUTF8_def)
qed

lemma point_bytes_small: "scalar p \<Longrightarrow> \<forall>b \<in> set (point_bytes p). b < 256"
  by (auto simp: point_bytes_def scalar_def)

lemma encode_small:
  assumes "units_ok s" "encodeUTF8 s = Inr b"
  shows "\<forall>c \<in> set b. c < 256"
  using assms point_bytes_small utf16_points_scalar
  by (fastforce simp: encodeUTF8_def split: option.splits)

end
