(* ===== verification/Messages.thy ===== *)
theory Messages
  imports Websock Utf8
begin

text \<open>
  Model of \<open>RFB.messages\<close> in \<open>core/rfb.js\<close>: the encoders of the client's messages.  Each is the
  sequence of the calls it makes on the socket (\<open>sq_op list\<close>); its arguments are the numbers the
  callers pass, and \<open>deflate\<close> stands for the compressor behind \<open>core/deflator.js\<close>.
\<close>

definition msg_bytes :: "sq_op list \<Rightarrow> byte list" where
  "msg_bytes m = concat (map op_bytes m)"

section \<open>Input\<close>

definition keyEvent :: "int \<Rightarrow> int \<Rightarrow> sq_op list" where
  "keyEvent keysym down =
     [Push8 4, Push8 down, Push16 0, Push32 keysym, Flush]"

definition getRFBkeycode :: "int \<Rightarrow> int" where
  "getRFBkeycode xtScanCode =
     (let upperByte = js_shr xtScanCode 8;
          lowerByte = js_and xtScanCode 0x00ff
      in if upperByte = 0xe0 \<and> lowerByte < 0x7f then js_or lowerByte 0x80 else xtScanCode)"

definition QEMUExtendedKeyEvent :: "int \<Rightarrow> bool \<Rightarrow> int \<Rightarrow> sq_op list" where
  "QEMUExtendedKeyEvent keysym down keycode =
     [Push8 255, Push8 0, Push16 (of_bool down), Push32 keysym, Push32 (getRFBkeycode keycode), Flush]"

definition pointerEvent :: "int \<Rightarrow> int \<Rightarrow> int \<Rightarrow> sq_op list" where
  "pointerEvent x y bmask =
     [Push8 5, Push8 (js_and bmask 0x7f), Push16 x, Push16 y, Flush]"

definition extendedPointerEvent :: "int \<Rightarrow> int \<Rightarrow> int \<Rightarrow> sq_op list" where
  "extendedPointerEvent x y bmask =
     (let higherBits = js_and (js_shr bmask 7) 0xff;
          lowerBits = js_or (js_and bmask 0x7f) 0x80
      in [Push8 5] @
         (if js_and higherBits 0xfc \<noteq> 0 then [Fail (JsError ''Invalid mouse button mask'')] else []) @
         [Push8 lowerBits, Push16 x, Push16 y, Push8 higherBits, Flush])"

section \<open>Clipboard\<close>

definition clientCutText :: "byte list \<Rightarrow> bool \<Rightarrow> sq_op list" where
  "clientCutText data extended =
     (let len = (if extended then to_uint32 (- int (length data)) else int (length data))
      in [Push8 6, Push8 0, Push8 0, Push8 0, Push32 len, PushBytes data, Flush])"

definition buildExtendedClipboardFlags :: "int list \<Rightarrow> int list \<Rightarrow> byte list" where
  "buildExtendedClipboardFlags actions formats =
     (let actionFlag = foldl js_or 0 actions;
          formatFlag = foldl js_or 0 formats
      in [u8_of (js_shr actionFlag 24), 0, 0, u8_of formatFlag])"

abbreviation extendedClipboardFormatText :: int where
  "extendedClipboardFormatText \<equiv> 1"

abbreviation extendedClipboardActionCaps :: int where
  "extendedClipboardActionCaps \<equiv> 0x1000000"

abbreviation extendedClipboardActionRequest :: int where
  "extendedClipboardActionRequest \<equiv> 0x2000000"

abbreviation extendedClipboardActionPeek :: int where
  "extendedClipboardActionPeek \<equiv> 0x4000000"

abbreviation extendedClipboardActionNotify :: int where
  "extendedClipboardActionNotify \<equiv> 0x8000000"

abbreviation extendedClipboardActionProvide :: int where
  "extendedClipboardActionProvide \<equiv> 0x10000000"

text \<open>\<open>replace(/\\r\\n|\\r|\\n/gm, "\\r\\n")\<close>: every line break becomes a carriage return and a line
  feed.\<close>

fun crlf :: "jsstr \<Rightarrow> jsstr" where
  "crlf [] = []"
| "crlf (c # cs) =
     (if c = 13 then 13 # 10 # crlf (if cs \<noteq> [] \<and> hd cs = 10 then tl cs else cs)
      else if c = 10 then 13 # 10 # crlf cs
      else c # crlf cs)"

fun provide_data :: "int list \<Rightarrow> jsstr list \<Rightarrow> js_error + byte list" where
  "provide_data [] inData = Inr []"
| "provide_data (f # fs) inData =
     (if f \<noteq> extendedClipboardFormatText
      then Inl (JsError ''Unsupported extended clipboard format for Provide message.'')
      else case inData of
          [] \<Rightarrow> Inl NullError
        | d # ds \<Rightarrow>
            (case encodeUTF8 (crlf d @ [0]) of
               Inl e \<Rightarrow> Inl e
             | Inr text \<Rightarrow>
                 (case provide_data fs ds of
                    Inl e \<Rightarrow> Inl e
                  | Inr rest \<Rightarrow>
                      Inr ([u8_of (js_and (js_shr (int (length text)) 24) 0xff),
                            u8_of (js_and (js_shr (int (length text)) 16) 0xff),
                            u8_of (js_and (js_shr (int (length text)) 8) 0xff),
                            u8_of (js_and (int (length text)) 0xff)]
                           @ map (\<lambda>c. u8_of (int c)) text @ rest))))"

definition extendedClipboardProvide ::
    "(byte list \<Rightarrow> js_error + byte list) \<Rightarrow> int list \<Rightarrow> jsstr list \<Rightarrow> sq_op list" where
  "extendedClipboardProvide deflate formats inData =
     (case provide_data formats inData of
        Inl e \<Rightarrow> [Fail e]
      | Inr dataToDeflate \<Rightarrow>
          (case deflate dataToDeflate of
             Inl e \<Rightarrow> [Fail e]
           | Inr deflatedData \<Rightarrow>
               clientCutText
                 (buildExtendedClipboardFlags [extendedClipboardActionProvide] formats @ deflatedData)
                 True))"

definition extendedClipboardNotify :: "int list \<Rightarrow> sq_op list" where
  "extendedClipboardNotify formats =
     clientCutText (buildExtendedClipboardFlags [extendedClipboardActionNotify] formats) True"

definition extendedClipboardRequest :: "int list \<Rightarrow> sq_op list" where
  "extendedClipboardRequest formats =
     clientCutText (buildExtendedClipboardFlags [extendedClipboardActionRequest] formats) True"

text \<open>
  \<open>extendedClipboardCaps\<close>: \<open>formats\<close> lists the own keys of the object with their values.  A key
  is a string, and the shift \<open>1 << key\<close> converts it to a number first: a key that is no decimal
  numeral counts as \<open>NaN\<close> and hence as 0.
\<close>

definition is_digit :: "nat \<Rightarrow> bool" where
  "is_digit c \<longleftrightarrow> 48 \<le> c \<and> c \<le> 57"

definition key_number :: "jsstr \<Rightarrow> nat" where
  "key_number k = (if list_all is_digit k then foldl (\<lambda>n c. n * 10 + (c - 48)) 0 k else 0)"

definition extendedClipboardCaps :: "int list \<Rightarrow> (jsstr \<times> int) list \<Rightarrow> sq_op list" where
  "extendedClipboardCaps actions formats =
     (let fs = sort_key (\<lambda>(k, _). key_number k) formats;
          flags = buildExtendedClipboardFlags actions [];
          sizes = concat (map (\<lambda>(_, v). [u8_of (js_shr v 24), u8_of (js_shr v 16), u8_of (js_shr v 8),
                                         u8_of (js_shr v 0)]) fs);
          formatByte = foldl (\<lambda>b (k, _). b OR u8_of (js_shl 1 (key_number k mod 32))) (flags ! 3) fs
      in clientCutText (flags[3 := formatByte] @ sizes) True)"

section \<open>Screen and protocol\<close>

definition setDesktopSize :: "int \<Rightarrow> int \<Rightarrow> int \<Rightarrow> int \<Rightarrow> sq_op list" where
  "setDesktopSize width height sid flags =
     [Push8 251, Push8 0, Push16 width, Push16 height, Push8 1, Push8 0,
      Push32 sid, Push16 0, Push16 0, Push16 width, Push16 height, Push32 flags, Flush]"

definition clientFence :: "int \<Rightarrow> jsstr \<Rightarrow> sq_op list" where
  "clientFence flags payload =
     [Push8 248, Push8 0, Push8 0, Push8 0, Push32 flags, Push8 (int (length payload)),
      PushString payload, Flush]"

definition enableContinuousUpdates :: "bool \<Rightarrow> int \<Rightarrow> int \<Rightarrow> int \<Rightarrow> int \<Rightarrow> sq_op list" where
  "enableContinuousUpdates enable x y width height =
     [Push8 150, Push8 (of_bool enable), Push16 x, Push16 y, Push16 width, Push16 height, Flush]"

definition pixelFormat :: "nat \<Rightarrow> bool \<Rightarrow> sq_op list" where
  "pixelFormat depth trueColor =
     (let bpp = (if depth > 16 then 32 else if depth > 8 then 16 else 8);
          bits = depth div 3
      in [Push8 0, Push8 0, Push8 0, Push8 0,
          Push8 bpp, Push8 (int depth), Push8 0, Push8 (of_bool trueColor),
          Push16 (js_shl 1 bits - 1), Push16 (js_shl 1 bits - 1), Push16 (js_shl 1 bits - 1),
          Push8 (int (bits * 0)), Push8 (int (bits * 1)), Push8 (int (bits * 2)),
          Push8 0, Push8 0, Push8 0, Flush])"

definition clientEncodings :: "int list \<Rightarrow> sq_op list" where
  "clientEncodings encodings =
     [Push8 2, Push8 0, Push16 (int (length encodings))] @ map Push32 encodings @ [Flush]"

definition fbUpdateRequest :: "bool \<Rightarrow> int \<Rightarrow> int \<Rightarrow> int \<Rightarrow> int \<Rightarrow> sq_op list" where
  "fbUpdateRequest incremental x y w h =
     [Push8 3, Push8 (of_bool incremental), Push16 x, Push16 y, Push16 w, Push16 h, Flush]"

definition xvpOp :: "int \<Rightarrow> int \<Rightarrow> sq_op list" where
  "xvpOp ver op = [Push8 250, Push8 0, Push8 ver, Push8 op, Flush]"

section \<open>The bytes of a message\<close>

lemma msg_bytes_simps [simp]:
  "msg_bytes [] = []"
  "msg_bytes (x # xs) = op_bytes x @ msg_bytes xs"
  "msg_bytes (xs @ ys) = msg_bytes xs @ msg_bytes ys"
  by (simp_all add: msg_bytes_def)

lemmas input_msgs = keyEvent_def QEMUExtendedKeyEvent_def pointerEvent_def extendedPointerEvent_def

lemmas screen_msgs = setDesktopSize_def clientFence_def enableContinuousUpdates_def pixelFormat_def
  clientEncodings_def fbUpdateRequest_def xvpOp_def

text \<open>Every message ends with \<open>flush\<close>: it reaches the wire whole, behind what was sent before.\<close>

definition ends_flushed :: "sq_op list \<Rightarrow> bool" where
  "ends_flushed m \<longleftrightarrow> m \<noteq> [] \<and> last m = Flush \<and> list_all no_fail m"

lemma ends_flushed_run:
  assumes "ends_flushed m" "sq_ready s" "sQ s = []"
  shows "\<exists>s'. sq_run m s = Some (Inr s') \<and> sends s (msg_bytes m) s' \<and> sQ s' = []
    \<and> wire s' = wire s @ msg_bytes m"
proof -
  have m: "m = butlast m @ [Flush]" and ok: "list_all no_fail (butlast m)"
    using assms(1) by (auto simp: ends_flushed_def list_all_iff in_set_butlastD)
      (metis append_butlast_last_id)
  have "msg_bytes m = concat (map op_bytes (butlast m))"
    by (subst m) (simp add: msg_bytes_def)
  then show ?thesis
    using sq_run_flush [OF assms(2,3) ok] m by simp
qed

lemma ends_flushed_simps:
  "ends_flushed (keyEvent keysym down)"
  "ends_flushed (QEMUExtendedKeyEvent keysym b keycode)"
  "ends_flushed (pointerEvent x y m)"
  "ends_flushed (clientCutText data ext)"
  "ends_flushed (extendedClipboardNotify fs)"
  "ends_flushed (extendedClipboardRequest fs)"
  "ends_flushed (extendedClipboardCaps as kvs)"
  "ends_flushed (setDesktopSize w h i f)"
  "ends_flushed (clientFence f p)"
  "ends_flushed (enableContinuousUpdates b x y w h)"
  "ends_flushed (pixelFormat d b)"
  "ends_flushed (clientEncodings es)"
  "ends_flushed (fbUpdateRequest b x y w h)"
  "ends_flushed (xvpOp v q)"
  by (simp_all add: ends_flushed_def input_msgs screen_msgs clientCutText_def
      extendedClipboardNotify_def extendedClipboardRequest_def extendedClipboardCaps_def Let_def list_all_iff
      split_def)

lemma u8_of_numeral [simp]: "u8_of (numeral n) = numeral n" "u8_of 0 = 0" "u8_of 1 = 1"
  by (simp_all add: u8_of_def)

lemma length_clientCutText: "length (msg_bytes (clientCutText data ext)) = 8 + length data"
  by (simp add: clientCutText_def Let_def)

text \<open>The length field of the clipboard message, read back as a signed number, is the length of
  the data, negated for the extended form.\<close>

lemma clientCutText_length_field:
  assumes "length data \<le> 2 ^ 31" "\<not> ext \<Longrightarrow> length data < 2 ^ 31"
  shows "to_int32 (int (be (take 4 (drop 4 (msg_bytes (clientCutText data ext))))))
    = (if ext then - int (length data) else int (length data))"
proof -
  define n where "n = (if ext then to_uint32 (- int (length data)) else int (length data))"
  have "take 4 (drop 4 (msg_bytes (clientCutText data ext))) = op_bytes (Push32 n)"
    by (simp add: clientCutText_def Let_def n_def)
  then have "int (be (take 4 (drop 4 (msg_bytes (clientCutText data ext))))) = to_uint32 n"
    using be_bytes32 [of n] to_uint32_range [of n] by simp
  moreover have "to_int32 (to_uint32 n) = (if ext then - int (length data) else int (length data))"
    using assms by (auto simp: n_def to_int32_of_uint32 intro: to_int32_small)
  ultimately show ?thesis by simp
qed

subsection \<open>Line breaks\<close>

lemma crlf_no_bare: "crlf (crlf s) = crlf s"
proof (induction s rule: crlf.induct)
  case 1
  then show ?case by simp
next
  case (2 c cs)
  define rest where "rest = (if cs \<noteq> [] \<and> hd cs = 10 then tl cs else cs)"
  show ?case
  proof (cases "c = 13")
    case True
    then show ?thesis
      using "2.IH"(1) [OF True] by (simp add: rest_def [symmetric])
  next
    case False
    then show ?thesis
      using "2.IH"(2,3) by auto
  qed
qed

text \<open>The receiving side replaces a carriage return and line feed by a line feed.\<close>

fun lf_only :: "jsstr \<Rightarrow> jsstr" where
  "lf_only [] = []"
| "lf_only (c # cs) =
     (if c = 13 \<and> cs \<noteq> [] \<and> hd cs = 10 then 10 # lf_only (tl cs) else c # lf_only cs)"

lemma lf_only_crlf: "13 \<notin> set s \<Longrightarrow> lf_only (crlf s) = s"
  by (induction s rule: crlf.induct) auto

end
