(* ===== verification/ViewFilter.thy ===== *)
theory ViewFilter
  imports Messages
begin

text \<open>
  Model of the server's side of the console session: \<open>internal/proxy/filter.go\<close>, the filter that
  frames the client's messages and drops the input messages of a view-only session, and
  \<open>handshakeWithClient\<close> of \<open>internal/proxy/rfb.go\<close>.

  A reader is the list of the bytes that arrive before the connection ends: \<open>io.ReadFull\<close> on
  fewer bytes than it wants is \<open>Eof\<close>.  Writes to the VNC server are taken to succeed; the result
  lists what was written.  \<open>Panic\<close> is a run-time panic of the goroutine.
\<close>

section \<open>Framing\<close>

datatype go_end =
    Eof
  | UnknownMessage nat
  | UnknownQEMU nat
  | ClipboardTooLarge int
  | Panic

definition clientMessageSize :: "byte \<Rightarrow> byte list \<Rightarrow> go_end + (int \<times> byte list \<times> byte list)" where
  "clientMessageSize tb r =
     (let t = unat tb in
      if t = 0 then Inr (19, [], r)
      else if t = 2 then
        (if length r < 3 then Inl Eof
         else Inr (3 + 4 * int (be (take 2 (drop 1 r))), take 3 r, drop 3 r))
      else if t = 3 then Inr (9, [], r)
      else if t = 4 then Inr (7, [], r)
      else if t = 5 then Inr (5, [], r)
      else if t = 6 then
        (if length r < 7 then Inl Eof
         else
           let n = to_int32 (int (be (take 4 (drop 3 r))));
               n = (if n < 0 then to_int32 (- n) else n)
           in if n > 64 * 2 ^ 20 then Inl (ClipboardTooLarge n)
              else Inr (7 + n, take 7 r, drop 7 r))
      else if t = 150 then Inr (9, [], r)
      else if t = 151 then
        (if length r < 8 then Inl Eof
         else Inr (8 + int (unat (r ! 7)), take 8 r, drop 8 r))
      else if t = 250 then
        (if length r < 7 then Inl Eof
         else Inr (7 + 16 * int (unat (r ! 5)), take 7 r, drop 7 r))
      else if t = 255 then
        (if length r < 1 then Inl Eof
         else if r ! 0 = 0 then Inr (1 + 10, take 1 r, drop 1 r)
         else if r ! 0 = 1 then
           (if length r < 3 then Inl Eof
            else if be (take 2 (drop 1 r)) = 2 then Inr (3 + 6, take 3 r, drop 3 r)
            else Inr (3, take 3 r, drop 3 r))
         else Inl (UnknownQEMU (unat (r ! 0))))
      else Inl (UnknownMessage t))"

text \<open>
  One round of the loop of \<open>copyClientMessages\<close>: what is written, and the bytes left to read.
  \<open>make([]byte, size)\<close> panics on a negative size, and so does the slice \<open>body[len(r.prefix):]\<close>
  of a body shorter than the prefix.
\<close>

definition dropped_type :: "nat \<Rightarrow> bool" where
  "dropped_type t \<longleftrightarrow> t \<in> {4, 5, 6, 250, 255}"

definition filter_step :: "bool \<Rightarrow> byte list \<Rightarrow> go_end + (byte list \<times> byte list)" where
  "filter_step viewOnly input =
     (case input of
        [] \<Rightarrow> Inl Eof
      | hdr # r \<Rightarrow>
          (case clientMessageSize hdr r of
             Inl e \<Rightarrow> Inl e
           | Inr (sz, prefix, rest) \<Rightarrow>
               if sz < 0 \<or> sz < int (length prefix) then Inl Panic
               else
                 let need = nat sz - length prefix
                 in if length rest < need then Inl Eof
                    else Inr (if viewOnly \<and> dropped_type (unat hdr) then []
                              else hdr # prefix @ take need rest,
                              drop need rest)))"

lemma clientMessageSize_rest:
  "clientMessageSize t r = Inr (n, p, rest) \<Longrightarrow> length rest \<le> length r"
  by (auto simp: clientMessageSize_def Let_def split: if_splits)

lemma filter_step_shrinks: "filter_step v input = Inr (out, rest) \<Longrightarrow> length rest < length input"
  by (auto simp: filter_step_def Let_def split: list.splits sum.splits if_splits
      dest!: clientMessageSize_rest)

function filter_loop :: "bool \<Rightarrow> byte list \<Rightarrow> byte list \<times> go_end" where
  "filter_loop viewOnly input =
     (case filter_step viewOnly input of
        Inl e \<Rightarrow> ([], e)
      | Inr (out, rest) \<Rightarrow> (let (outs, e) = filter_loop viewOnly rest in (out @ outs, e)))"
  by pat_completeness auto
termination
  by (relation "measure (\<lambda>(_, input). length input)") (auto dest: filter_step_shrinks)

declare filter_loop.simps [simp del]

definition copyClientMessages :: "bool \<Rightarrow> byte list \<Rightarrow> byte list \<times> go_end" where
  "copyClientMessages viewOnly input =
     (case input of
        [] \<Rightarrow> ([], Eof)
      | ini # rest \<Rightarrow> (let (outs, e) = filter_loop viewOnly rest in (ini # outs, e)))"

section \<open>The handshake with the browser\<close>

text \<open>What is written, and the bytes left to read or the reason of the failure.\<close>

definition rfbVersion :: "byte list" where
  "rfbVersion = map u8n (lit ''RFB 003.008'') @ [10]"

definition rfbVersion37 :: "byte list" where
  "rfbVersion37 = map u8n (lit ''RFB 003.007'') @ [10]"

definition handshakeWithClient :: "byte list \<Rightarrow> byte list \<times> (string + byte list)" where
  "handshakeWithClient input =
     (if length input < 12 then (rfbVersion, Inl ''read client version'')
      else
        let ver = take 12 input; r = drop 12 input
        in if ver \<noteq> rfbVersion \<and> ver \<noteq> rfbVersion37
           then (rfbVersion, Inl ''unsupported client version'')
           else case r of
               [] \<Rightarrow> (rfbVersion @ [1, 1], Inl ''EOF'')
             | choice # rest \<Rightarrow>
                 if choice \<noteq> 1 then (rfbVersion @ [1, 1], Inl ''client chose unexpected security type'')
                 else (rfbVersion @ [1, 1] @ (if ver = rfbVersion then [0, 0, 0, 0] else []), Inr rest))"

section \<open>The contract of a message filter\<close>

text \<open>
  A filter that takes one encoded message off the input in each step and ends at the end of the
  input treats a sequence of messages one by one, in order.
\<close>

locale message_filter =
  fixes step :: "byte list \<Rightarrow> go_end + (byte list \<times> byte list)"
    and loop :: "byte list \<Rightarrow> byte list \<times> go_end"
    and enc :: "'m \<Rightarrow> byte list"
    and ok :: "'m \<Rightarrow> bool"
    and kept :: "'m \<Rightarrow> bool"
  assumes step_msg: "ok m \<Longrightarrow> step (enc m @ rest) = Inr (if kept m then enc m else [], rest)"
    and loop_step: "step input = Inr (out, rest) \<Longrightarrow> loop input = (out @ fst (loop rest), snd (loop rest))"
begin

lemma loop_msgs:
  "list_all ok ms \<Longrightarrow>
     loop (concat (map enc ms) @ rest) = (concat (map enc (filter kept ms)) @ fst (loop rest), snd (loop rest))"
proof (induction ms)
  case Nil
  then show ?case by simp
next
  case (Cons m ms)
  then show ?case
    using loop_step [OF step_msg, of m "concat (map enc ms) @ rest"] by simp
qed

end

text \<open>The messages of the browser, by constructor.\<close>

datatype client_msg =
    MKey int int
  | MQEMUKey int bool int
  | MPointer int int int
  | MExtPointer int int int
  | MCutText "byte list" bool
  | MSetDesktopSize int int int int
  | MFence int jsstr
  | MContinuous bool int int int int
  | MPixelFormat nat bool
  | MEncodings "int list"
  | MFbRequest bool int int int int
  | MXvp int int

fun client_ops :: "client_msg \<Rightarrow> sq_op list" where
  "client_ops (MKey k d) = keyEvent k d"
| "client_ops (MQEMUKey k d c) = QEMUExtendedKeyEvent k d c"
| "client_ops (MPointer x y m) = pointerEvent x y m"
| "client_ops (MExtPointer x y m) = extendedPointerEvent x y m"
| "client_ops (MCutText bs ext) = clientCutText bs ext"
| "client_ops (MSetDesktopSize w h i f) = setDesktopSize w h i f"
| "client_ops (MFence f p) = clientFence f p"
| "client_ops (MContinuous b x y w h) = enableContinuousUpdates b x y w h"
| "client_ops (MPixelFormat d t) = pixelFormat d t"
| "client_ops (MEncodings es) = clientEncodings es"
| "client_ops (MFbRequest b x y w h) = fbUpdateRequest b x y w h"
| "client_ops (MXvp v p) = xvpOp v p"

definition client_bytes :: "client_msg \<Rightarrow> byte list" where
  "client_bytes m = msg_bytes (client_ops m)"

text \<open>The messages that the filter can frame, and those it drops for a viewer.\<close>

fun framed :: "client_msg \<Rightarrow> bool" where
  "framed (MCutText bs ext) = (length bs \<le> 64 * 1024 * 1024)"
| "framed (MEncodings es) = (length es < 2 ^ 16)"
| "framed (MExtPointer x y m) = False"
| "framed (MSetDesktopSize w h i f) = False"
| "framed (MFence f p) = False"
| "framed (MXvp v p) = False"
| "framed _ = True"

fun is_input :: "client_msg \<Rightarrow> bool" where
  "is_input (MKey k d) = True"
| "is_input (MQEMUKey k d c) = True"
| "is_input (MPointer x y m) = True"
| "is_input (MCutText bs ext) = True"
| "is_input _ = False"

lemma filter_step_Cons:
  assumes "clientMessageSize h r = Inr (int (length p + k), p, rest)" "k \<le> length rest"
  shows "filter_step v (h # r) =
    Inr (if v \<and> dropped_type (unat h) then [] else h # p @ take k rest, drop k rest)"
  using assms by (simp add: filter_step_def Let_def nat_int_add)

lemma filter_step_fixed:
  assumes "\<And>r. clientMessageSize h r = Inr (int k, [], r)" "length body = k"
  shows "filter_step v ((h # body) @ rest) =
    Inr (if v \<and> dropped_type (unat h) then [] else h # body, rest)"
  using filter_step_Cons [of h "body @ rest" "[]" k "body @ rest" v] assms by simp

text \<open>The variable-length messages: the filter reads the length field that the encoder wrote.\<close>

lemma clipboard_size:
  assumes "length bs \<le> 64 * 1024 * 1024"
  shows "(let n = to_int32 (int (be (take 4 (drop 4 (msg_bytes (clientCutText bs ext))))))
          in if n < 0 then to_int32 (- n) else n) = int (length bs)"
proof -
  have f: "to_int32 (int (be (take 4 (drop 4 (msg_bytes (clientCutText bs ext))))))
      = (if ext then - int (length bs) else int (length bs))"
    by (rule clientCutText_length_field) (use assms in auto)
  have "to_int32 (int (length bs)) = int (length bs)"
    by (rule to_int32_small) (use assms in auto)
  then show ?thesis
    unfolding f by (auto simp: Let_def)
qed

lemma length_concat_const: "\<forall>x \<in> set xs. length (f x) = k \<Longrightarrow> length (concat (map f xs)) = length xs * k"
  by (induction xs) simp_all

lemma msg_bytes_Push32s: "length (msg_bytes (map Push32 es)) = 4 * length es"
  by (simp add: msg_bytes_def length_concat_const [of _ _ 4] o_def)

lemma filter_step_cut:
  assumes "length bs \<le> 64 * 1024 * 1024"
  shows "filter_step v (client_bytes (MCutText bs ext) @ rest) =
    Inr (if v then [] else client_bytes (MCutText bs ext), rest)"
proof -
  obtain a b c d where l: "client_bytes (MCutText bs ext) = [6, 0, 0, 0, a, b, c, d] @ bs"
    by (simp add: client_bytes_def clientCutText_def Let_def)
  have "(let n = to_int32 (int (be [a, b, c, d])) in if n < 0 then to_int32 (- n) else n)
      = int (length bs)"
    using clipboard_size [OF assms, of ext] l by (simp add: client_bytes_def)
  then have "clientMessageSize 6 ([0, 0, 0, a, b, c, d] @ bs @ rest) =
      Inr (int (length [0, 0, 0, a, b, c, d] + length bs), [0, 0, 0, a, b, c, d], bs @ rest)"
    using assms by (simp add: clientMessageSize_def Let_def del: be.simps)
  from filter_step_Cons [OF this, of v] show ?thesis
    by (simp add: l dropped_type_def)
qed

lemma filter_step_encodings:
  assumes "length es < 2 ^ 16"
  shows "filter_step v (client_bytes (MEncodings es) @ rest) = Inr (client_bytes (MEncodings es), rest)"
proof -
  define n where "n = int (length es)"
  define bs where "bs = msg_bytes (map Push32 es)"
  have l: "client_bytes (MEncodings es) = [2, 0, u8_of (drop_bit 8 n), u8_of n] @ bs"
    by (simp add: client_bytes_def clientEncodings_def n_def bs_def)
  have "be [u8_of (drop_bit 8 n), u8_of n] = length es"
    unfolding be_bytes16 n_def using assms by simp
  moreover have "length bs = 4 * length es"
    by (simp add: bs_def msg_bytes_Push32s)
  ultimately have "clientMessageSize 2 ([0, u8_of (drop_bit 8 n), u8_of n] @ bs @ rest) =
      Inr (int (length [0, u8_of (drop_bit 8 n), u8_of n] + length bs),
           [0, u8_of (drop_bit 8 n), u8_of n], bs @ rest)"
    by (simp add: clientMessageSize_def Let_def del: be.simps)
  from filter_step_Cons [OF this, of v] show ?thesis
    by (simp add: l dropped_type_def)
qed

lemma filter_step_qemu:
  "filter_step v (client_bytes (MQEMUKey k d c) @ rest) =
     Inr (if v then [] else client_bytes (MQEMUKey k d c), rest)"
proof -
  obtain bs where l: "client_bytes (MQEMUKey k d c) = [255, 0] @ bs" and bs: "length bs = 10"
    by (simp add: client_bytes_def QEMUExtendedKeyEvent_def)
  have "clientMessageSize 255 ([0] @ bs @ rest) = Inr (int (length [0 :: byte] + length bs), [0], bs @ rest)"
    using bs by (simp add: clientMessageSize_def Let_def)
  from filter_step_Cons [OF this, of v] show ?thesis
    by (simp add: l dropped_type_def)
qed

lemma fixed_sizes:
  "clientMessageSize 0 r = Inr (int 19, [], r)" "clientMessageSize 3 r = Inr (int 9, [], r)"
  "clientMessageSize 4 r = Inr (int 7, [], r)" "clientMessageSize 5 r = Inr (int 5, [], r)"
  "clientMessageSize 150 r = Inr (int 9, [], r)"
  by (simp_all add: clientMessageSize_def)

lemma filter_step_framed:
  "framed m \<Longrightarrow> filter_step v (client_bytes m @ rest) =
     Inr (if \<not> (v \<and> is_input m) then client_bytes m else [], rest)"
proof (cases m)
  case (MKey k d)
  then show ?thesis
    using filter_step_fixed [OF fixed_sizes(3), of "tl (client_bytes m)" v rest]
    by (simp add: client_bytes_def keyEvent_def dropped_type_def)
next
  case (MPointer x y k)
  then show ?thesis
    using filter_step_fixed [OF fixed_sizes(4), of "tl (client_bytes m)" v rest]
    by (simp add: client_bytes_def pointerEvent_def dropped_type_def)
next
  case (MContinuous b x y w h)
  then show ?thesis
    using filter_step_fixed [OF fixed_sizes(5), of "tl (client_bytes m)" v rest]
    by (simp add: client_bytes_def enableContinuousUpdates_def dropped_type_def)
next
  case (MPixelFormat d t)
  then show ?thesis
    using filter_step_fixed [OF fixed_sizes(1), of "tl (client_bytes m)" v rest]
    by (simp add: client_bytes_def pixelFormat_def Let_def dropped_type_def)
next
  case (MFbRequest b x y w h)
  then show ?thesis
    using filter_step_fixed [OF fixed_sizes(2), of "tl (client_bytes m)" v rest]
    by (simp add: client_bytes_def fbUpdateRequest_def dropped_type_def)
qed (simp_all add: filter_step_cut filter_step_encodings filter_step_qemu)

interpretation vf: message_filter "filter_step v" "filter_loop v" client_bytes framed
  "\<lambda>m. \<not> (v \<and> is_input m)" for v
proof
  fix m :: client_msg and rest
  show "framed m \<Longrightarrow> filter_step v (client_bytes m @ rest) =
      Inr (if \<not> (v \<and> is_input m) then client_bytes m else [], rest)"
    by (rule filter_step_framed)
next
  fix input out rest
  assume "filter_step v input = Inr (out, rest)"
  then show "filter_loop v input = (out @ fst (filter_loop v rest), snd (filter_loop v rest))"
    by (subst filter_loop.simps) (simp add: split_def Let_def)
qed

lemma filter_loop_Inl: "filter_step v input = Inl e \<Longrightarrow> filter_loop v input = ([], e)"
  by (subst filter_loop.simps) simp

lemma filter_loop_Nil [simp]: "filter_loop v [] = ([], Eof)"
  by (rule filter_loop_Inl) (simp add: filter_step_def)

section \<open>Properties\<close>

text \<open>C23. The filter forwards the client's messages one by one, in order and unchanged, and in a
  view-only session leaves out exactly the key, pointer and clipboard messages, whatever their
  contents: for every sequence of messages that it can frame, after the ClientInit byte.\<close>

theorem view_only_filter:
  assumes "list_all framed ms"
  shows "copyClientMessages v (ini # concat (map client_bytes ms)) =
    (ini # concat (map client_bytes (filter (\<lambda>m. \<not> (v \<and> is_input m)) ms)), Eof)"
  using vf.loop_msgs [OF assms, of v "[]"] by (simp add: copyClientMessages_def)

theorem view_only_filter_witness:
  "copyClientMessages True (1 # concat (map client_bytes [MFbRequest True 0 0 8 8, MKey 97 1])) =
    (1 # client_bytes (MFbRequest True 0 0 8 8), Eof)"
  using view_only_filter [of "[MFbRequest True 0 0 8 8, MKey 97 1]" True 1] by simp

text \<open>C39. The filter does not know four of the client's messages.  A fence (type 248) and a
  SetDesktopSize (type 251) end the session with an error, since the filter has them as 151 and
  250; an extended pointer event is one byte longer than the filter thinks, so its last byte (the
  back and forward buttons) is taken for the type of the next message; and an XVP request (type
  250) is held back as the beginning of a SetDesktopSize.\<close>

theorem filter_misframes:
  "filter_step v (client_bytes (MFence f p) @ rest) = Inl (UnknownMessage 248)
   \<and> filter_step v (client_bytes (MSetDesktopSize w h i fl) @ rest) = Inl (UnknownMessage 251)
   \<and> filter_step False (client_bytes (MExtPointer x y 0x81) @ rest) =
       Inr (butlast (client_bytes (MExtPointer x y 0x81)), 1 # rest)
   \<and> filter_step v (client_bytes (MXvp ver op)) = Inl Eof"
proof -
  have hi: "js_and (js_shr 0x81 7) 0xff = 1" "js_and 1 0xfc = 0"
    by (simp_all add: js_defs)
  then show ?thesis
    by (simp add: client_bytes_def clientFence_def setDesktopSize_def extendedPointerEvent_def xvpOp_def
        filter_step_def clientMessageSize_def fixed_sizes Let_def)
qed

text \<open>A clipboard message whose length field is 0x80000000 makes the filter panic, whatever
  follows it and in both modes: negating the least 32-bit number gives it back, the size check
  lets it pass, and the body is allocated with a negative length.\<close>

theorem filter_panics:
  "copyClientMessages v (ini # [6, 0, 0, 0, 0x80, 0, 0, 0] @ rest) = ([ini], Panic)"
proof -
  have n: "to_int32 0x80000000 = - 0x80000000" "to_int32 (- (- 0x80000000)) = - 0x80000000"
    by (simp_all add: to_int32_def)
  have "clientMessageSize 6 ([0, 0, 0, 0x80, 0, 0, 0] @ rest) =
      Inr (7 - 0x80000000, [0, 0, 0, 0x80, 0, 0, 0], rest)"
    using n by (simp add: clientMessageSize_def Let_def)
  then have "filter_step v ([6, 0, 0, 0, 0x80, 0, 0, 0] @ rest) = Inl Panic"
    by (simp add: filter_step_def)
  then show ?thesis
    by (simp add: copyClientMessages_def filter_loop_Inl)
qed

end
