(* ===== verification/Base64.thy ===== *)
theory Base64
  imports JsBase
begin

text \<open>
  Model of \<open>core/base64.js\<close>.  The encoder's result is a string; the decoder's result is the array
  of the decoded numbers, in which an element that was never assigned is \<open>None\<close>.
\<close>

definition toBase64Table :: string where
  "toBase64Table = ''ABCDEFGHIJKLMNOPQRSTUVWXYZabcdefghijklmnopqrstuvwxyz0123456789+/=''"

definition b64char :: "nat \<Rightarrow> char" where
  "b64char n = toBase64Table ! n"

text \<open>The loop over triples and the three ways in which it can end.\<close>

fun b64_encode :: "byte list \<Rightarrow> string" where
  "b64_encode (x # y # z # rest) =
     (let a = unat x; b = unat y; c = unat z
      in b64char (drop_bit 2 a) # b64char (push_bit 4 (a AND 0x03) + drop_bit 4 b)
         # b64char (push_bit 2 (b AND 0x0f) + drop_bit 6 c) # b64char (c AND 0x3f) # b64_encode rest)"
| "b64_encode [x, y] =
     (let a = unat x; b = unat y
      in [b64char (drop_bit 2 a), b64char (push_bit 4 (a AND 0x03) + drop_bit 4 b),
          b64char (push_bit 2 (b AND 0x0f)), b64char 64])"
| "b64_encode [x] =
     (let a = unat x
      in [b64char (drop_bit 2 a), b64char (push_bit 4 (a AND 0x03)), b64char 64, b64char 64])"
| "b64_encode [] = []"

definition toBinaryTable :: "int list" where
  "toBinaryTable =
    [-1,-1,-1,-1, -1,-1,-1,-1, -1,-1,-1,-1, -1,-1,-1,-1,
     -1,-1,-1,-1, -1,-1,-1,-1, -1,-1,-1,-1, -1,-1,-1,-1,
     -1,-1,-1,-1, -1,-1,-1,-1, -1,-1,-1,62, -1,-1,-1,63,
     52,53,54,55, 56,57,58,59, 60,61,-1,-1, -1, 0,-1,-1,
     -1, 0, 1, 2,  3, 4, 5, 6,  7, 8, 9,10, 11,12,13,14,
     15,16,17,18, 19,20,21,22, 23,24,25,-1, -1,-1,-1,-1,
     -1,26,27,28, 29,30,31,32, 33,34,35,36, 37,38,39,40,
     41,42,43,44, 45,46,47,48, 49,50,51,-1, -1,-1,-1,-1]"

definition b64val :: "char \<Rightarrow> int" where
  "b64val ch = toBinaryTable ! (of_char ch AND 0x7f)"

text \<open>The loop of the decoder: the numbers appended to the result and the bits left over.\<close>

fun b64_loop :: "string \<Rightarrow> nat \<Rightarrow> nat \<Rightarrow> nat list \<times> nat" where
  "b64_loop [] leftbits leftdata = ([], leftbits)"
| "b64_loop (ch # chs) leftbits leftdata =
     (if b64val ch = - 1 then b64_loop chs leftbits leftdata
      else
        let leftdata = push_bit 6 leftdata OR nat (b64val ch);
            leftbits = leftbits + 6
        in if leftbits \<ge> 8 then
             let leftbits = leftbits - 8;
                 (out, bits) = b64_loop chs leftbits (leftdata AND (2 ^ leftbits - 1))
             in ((if ch = CHR ''='' then [] else [drop_bit leftbits leftdata AND 0xff]) @ out, bits)
           else b64_loop chs leftbits leftdata)"

definition index_of :: "char \<Rightarrow> string \<Rightarrow> int" where
  "index_of ch s = (if ch \<in> set s then int (length (takeWhile (\<lambda>c. c \<noteq> ch) s)) else - 1)"

text \<open>
  An offset behind the end of the string makes the length of the result negative, and
  \<open>new Array\<close> of a negative length is a \<open>RangeError\<close>.
\<close>

definition b64_decode :: "string \<Rightarrow> nat \<Rightarrow> js_error + nat option list" where
  "b64_decode data offset =
     (let dataLength = index_of (CHR ''='') data - int offset;
          dataLength = (if dataLength < 0 then int (length data) - int offset else dataLength);
          resultLength = nat (dataLength div 4 * 3 + (dataLength mod 4) * 2 div 3);
          (out, leftbits) = b64_loop (drop offset data) 0 0
      in if dataLength < 0 then Inl RangeError
         else if leftbits \<noteq> 0 then Inl (JsError ''Corrupted base64 string'')
         else Inr (map Some out @ replicate (resultLength - length out) None))"

section \<open>The tables\<close>

lemma take_64: "take 64 toBase64Table = ''ABCDEFGHIJKLMNOPQRSTUVWXYZabcdefghijklmnopqrstuvwxyz0123456789+/''"
  by (simp add: toBase64Table_def)

lemma b64val_chars: "map b64val (take 64 toBase64Table) = map int [0..<64]"
  unfolding take_64 by (simp add: b64val_def toBinaryTable_def upt_rec)

lemma b64_no_pad: "CHR ''='' \<notin> set (take 64 toBase64Table)"
  unfolding take_64 by simp

lemma b64val_char:
  assumes "n < 64"
  shows "b64val (b64char n) = int n \<and> b64char n \<noteq> CHR ''=''"
proof -
  have l: "length (take 64 toBase64Table) = 64"
    unfolding take_64 by simp
  have c: "b64char n = take 64 toBase64Table ! n"
    using assms by (simp add: b64char_def)
  have "map b64val (take 64 toBase64Table) ! n = map int [0..<64] ! n"
    by (simp only: b64val_chars)
  then have "b64val (b64char n) = int n"
    using assms l by (simp add: c)
  moreover have "b64char n \<in> set (take 64 toBase64Table)"
    using assms l c by (metis nth_mem)
  ultimately show ?thesis
    using b64_no_pad by metis
qed

lemma b64val_pad: "b64char 64 = CHR ''=''" "b64val (CHR ''='') = 0"
  by (simp_all add: b64char_def toBase64Table_def b64val_def toBinaryTable_def)

section \<open>Round trip\<close>

text \<open>One character of the alphabet with \<open>k\<close> bits waiting, \<open>k = 0, 2, 4, 6\<close>.\<close>

lemma or_add: "c < 64 \<Longrightarrow> push_bit 6 (d::nat) OR c = d * 64 + c"
proof -
  assume "c < 64"
  then have "take_bit 6 c = c"
    by (simp add: take_bit_nat_eq_self_iff)
  then have "push_bit 6 d AND c = 0"
    by (intro bit_eqI) (auto simp: bit_simps, metis bit_take_bit_iff not_le)
  then have "push_bit 6 d + c = push_bit 6 d OR c"
    using disjunctive_add_eq_or [of "push_bit 6 d" c] by simp
  then show ?thesis
    by (simp add: push_bit_eq_mult)
qed

lemma loop_0:
  assumes "c < 64"
  shows "b64_loop (b64char c # s) 0 0 = b64_loop s 6 c"
  using b64val_char [OF assms] by (simp add: Let_def)

lemma loop_bits:
  assumes "c < 64" "2 \<le> k" "k \<le> 6"
  shows "b64_loop (b64char c # s) k d =
    (((d * 64 + c) div 2 ^ (k - 2)) mod 256 # fst (b64_loop s (k - 2) ((d * 64 + c) mod 2 ^ (k - 2))),
     snd (b64_loop s (k - 2) ((d * 64 + c) mod 2 ^ (k - 2))))"
proof -
  have m: "x AND (2 ^ j - 1) = x mod 2 ^ j" for x j :: nat
    by (simp only: mask_eq_exp_minus_1 [symmetric] take_bit_eq_mask [symmetric] take_bit_eq_mod)
  have m255: "x AND 255 = x mod 256" for x :: nat
    using m [of x 8] by simp
  show ?thesis
    using assms b64val_char [OF assms(1)]
    by (simp add: Let_def or_add m [simplified] m255 drop_bit_eq_div split_def)
qed

lemma loop_pad:
  assumes "2 \<le> k"
  shows "b64_loop (CHR ''='' # s) k 0 = b64_loop s (k - 2) 0"
  using assms by (simp add: Let_def b64val_pad split_def)


text \<open>The four characters of a triple, as arithmetic on its bytes.\<close>

lemma and_bits: "(x::nat) AND 3 = x mod 4" "(x::nat) AND 15 = x mod 16" "(x::nat) AND 63 = x mod 64"
  using take_bit_eq_mask [of 2 x] take_bit_eq_mask [of 4 x] take_bit_eq_mask [of 6 x]
  by (simp_all add: mask_eq_exp_minus_1 take_bit_eq_mod)

lemma byte_255: "unat (x::byte) < 256"
  using unsigned_less [of x] by simp

lemma sextets:
  assumes "a < 256" "b < (256::nat)" "c < 256"
  shows "a div 4 < 64" "(a mod 4) * 16 + b div 16 < 64" "(b mod 16) * 4 + c div 64 < 64" "c mod 64 < 64"
proof -
  have "b div 16 < 16" "c div 64 < 4" "a mod 4 < 4" "b mod 16 < 16"
    using assms by (simp_all add: less_mult_imp_div_less)
  then show "(a mod 4) * 16 + b div 16 < 64" "(b mod 16) * 4 + c div 64 < 64"
    by linarith+
  show "a div 4 < 64" "c mod 64 < 64"
    using assms by (simp_all add: less_mult_imp_div_less)
qed

lemma join_sextets:
  fixes a b c :: nat
  shows "a div 4 * 64 + ((a mod 4) * 16 + b div 16) = a * 16 + b div 16"
    and "b div 16 * 64 + ((b mod 16) * 4 + c div 64) = b * 4 + c div 64"
    and "c div 64 * 64 + c mod 64 = c"
  using div_mult_mod_eq [of a 4] div_mult_mod_eq [of b 16] by (linarith, linarith, simp)

lemma octets:
  assumes "a < 256" "b < (256::nat)" "c < 256"
  shows "(a * 16 + b div 16) div 16 mod 256 = a" "(a * 16 + b div 16) mod 16 = b div 16"
    "(b * 4 + c div 64) div 4 mod 256 = b" "(b * 4 + c div 64) mod 4 = c div 64" "c mod 256 = c"
proof -
  have "b div 16 < 16" "c div 64 < 4"
    using assms by (simp_all add: less_mult_imp_div_less)
  then show "(a * 16 + b div 16) div 16 mod 256 = a" "(a * 16 + b div 16) mod 16 = b div 16"
    "(b * 4 + c div 64) div 4 mod 256 = b" "(b * 4 + c div 64) mod 4 = c div 64" "c mod 256 = c"
    using assms by simp_all
qed

lemma byte_chars:
  "drop_bit 2 (unat (x::byte)) < 64"
  "push_bit 4 (unat x AND 3) + drop_bit 4 (unat (y::byte)) < 64" "push_bit 4 (unat x AND 3) < 64"
  "push_bit 2 (unat y AND 15) + drop_bit 6 (unat (z::byte)) < 64" "push_bit 2 (unat y AND 15) < 64"
  "unat z AND 63 < 64"
  using sextets [OF byte_255 [of x] byte_255 [of y] byte_255 [of z]] sextets [of "unat x" 0 0]
    sextets [of 0 "unat y" 0] byte_255 [of x] byte_255 [of y]
  by (simp_all add: and_bits push_bit_eq_mult drop_bit_eq_div)

text \<open>The decoder on two, three and four characters of the alphabet.\<close>

lemma loop_first:
  "b64_loop (b64char (drop_bit 2 (unat x)) # b64char (push_bit 4 (unat x AND 3) + b) # s) 0 0 =
     (let r = b64_loop s 4 b in (unat (x::byte) # fst r, snd r))"
  if "b < 16"
proof -
  have lt: "push_bit 4 (unat x AND 3) + b < 64"
    using that mod_less_divisor [of 4 "unat x"] by (simp add: and_bits push_bit_eq_mult)
  have eq: "drop_bit 2 (unat x) * 64 + (push_bit 4 (unat x AND 3) + b) = unat x * 16 + b"
    using join_sextets(1) [of "unat x" 0] by (simp add: and_bits push_bit_eq_mult drop_bit_eq_div)
  show ?thesis
    using that byte_255 [of x]
    by (simp add: loop_0 [OF byte_chars(1)] loop_bits [OF lt] eq Let_def del: b64_loop.simps(2) push_bit_and)
qed

lemma loop_second:
  "b64_loop (b64char (push_bit 2 (unat y AND 15) + c) # s) 4 (drop_bit 4 (unat y)) =
     (let r = b64_loop s 2 c in (unat (y::byte) # fst r, snd r))"
  if "c < 4"
proof -
  have lt: "push_bit 2 (unat y AND 15) + c < 64"
    using that mod_less_divisor [of 16 "unat y"] by (simp add: and_bits push_bit_eq_mult)
  have eq: "drop_bit 4 (unat y) * 64 + (push_bit 2 (unat y AND 15) + c) = unat y * 4 + c"
    using join_sextets(2) [of "unat y" 0] by (simp add: and_bits push_bit_eq_mult drop_bit_eq_div)
  show ?thesis
    using that byte_255 [of y]
    by (simp add: loop_bits [OF lt] eq Let_def del: b64_loop.simps(2) push_bit_and)
qed

lemma loop_third:
  "b64_loop (b64char (unat (z::byte) AND 63) # s) 2 (drop_bit 6 (unat z)) =
     (let r = b64_loop s 0 0 in (unat z # fst r, snd r))"
proof -
  have eq: "drop_bit 6 (unat z) * 64 + (unat z AND 63) = unat z"
    by (simp add: and_bits drop_bit_eq_div)
  show ?thesis
    using byte_255 [of z]
    by (simp add: loop_bits [OF byte_chars(6)] eq Let_def del: b64_loop.simps(2))
qed

lemma small_rest: "drop_bit 4 (unat (y::byte)) < 16" "drop_bit 6 (unat (y::byte)) < 4"
  using byte_255 [of y] by (simp_all add: drop_bit_eq_div less_mult_imp_div_less)

lemma loop_encode: "b64_loop (b64_encode bs) 0 0 = (map unat bs, 0)"
proof (induction bs rule: b64_encode.induct)
  case (1 x y z rest)
  show ?case
    using 1 [OF refl refl refl]
    by (simp add: Let_def loop_first loop_second loop_third small_rest
        del: b64_loop.simps(2) push_bit_and)
next
  case (2 x y)
  show ?case
    using loop_second [of 0 y]
    by (simp add: Let_def loop_first small_rest b64val_pad(1) loop_pad
        del: b64_loop.simps(2) push_bit_and)
next
  case (3 x)
  show ?case
    using loop_first [of 0 x]
    by (simp add: Let_def b64val_pad(1) loop_pad del: b64_loop.simps(2) push_bit_and)
qed simp

definition chars_before_pad :: "nat \<Rightarrow> nat" where
  "chars_before_pad n = 4 * (n div 3) + (if n mod 3 = 0 then 0 else n mod 3 + 1)"

lemma b64char_no_pad: "n < 64 \<Longrightarrow> b64char n \<noteq> CHR ''=''"
  using b64val_char by blast

lemma takeWhile_encode:
  "length (takeWhile (\<lambda>c. c \<noteq> CHR ''='') (b64_encode bs)) = chars_before_pad (length bs)
   \<and> (CHR ''='' \<notin> set (b64_encode bs) \<longrightarrow> length (b64_encode bs) = chars_before_pad (length bs))"
proof (induction bs rule: b64_encode.induct)
  case (1 x y z rest)
  show ?case
    using 1 [OF refl refl refl]
    by (simp add: Let_def b64char_no_pad byte_chars chars_before_pad_def del: push_bit_and)
qed (simp_all add: Let_def b64char_no_pad byte_chars chars_before_pad_def b64val_pad del: push_bit_and)

lemma result_length:
  "chars_before_pad n div 4 * 3 + (chars_before_pad n mod 4) * 2 div 3 = n"
proof -
  obtain q r where n: "n = 3 * q + r" and r: "r < 3"
    by (metis mult_div_mod_eq mod_less_divisor zero_less_numeral)
  have qr: "n div 3 = q" "n mod 3 = r"
    using r by (simp_all add: n)
  have eq: "(4 * q + k) div 4 = q" "(4 * q + k) mod 4 = k" if "k < 4" for k
    using that by simp_all
  have "r = 0 \<or> r = 1 \<or> r = 2"
    using r by linarith
  then show ?thesis
    unfolding chars_before_pad_def qr
    by (elim disjE) (use eq [of 2] eq [of 3] in \<open>simp_all add: n\<close>)
qed

text \<open>
  C32. Decoding what the encoder produced gives back exactly the bytes that were encoded: no
  element is missing, none is undefined and no error is thrown, for every length modulo 3.
\<close>

theorem base64_roundtrip: "b64_decode (b64_encode bs) 0 = Inr (map (\<lambda>b. Some (unat b)) bs)"
proof -
  let ?d = "let d = index_of (CHR ''='') (b64_encode bs) - int 0
    in if d < 0 then int (length (b64_encode bs)) - int 0 else d"
  have d: "?d = int (chars_before_pad (length bs))"
    using takeWhile_encode [of bs] by (auto simp: index_of_def)
  have "int (chars_before_pad (length bs)) div 4 * 3 + (int (chars_before_pad (length bs)) mod 4) * 2 div 3
      = int (chars_before_pad (length bs) div 4 * 3 + (chars_before_pad (length bs) mod 4) * 2 div 3)"
    by (simp add: zdiv_int zmod_int)
  then have l: "nat (?d div 4 * 3 + (?d mod 4) * 2 div 3) = length bs"
    unfolding d result_length by simp
  show ?thesis
    unfolding b64_decode_def using l
    by (simp only: Let_def drop_0 loop_encode prod.case) simp
qed

text \<open>A bit left over is refused: a single character of the alphabet is no encoding.\<close>

lemma base64_corrupted: "n < 64 \<Longrightarrow> b64_decode [b64char n] 0 = Inl (JsError ''Corrupted base64 string'')"
  by (simp add: b64_decode_def loop_0 Let_def del: b64_loop.simps(2))

end
