(* ===== verification/Display.thy ===== *)
theory Display
  imports Websock Base64
begin

text \<open>
  Model of \<open>core/display.js\<close>: the frame buffer, the viewport, and the queue that keeps the drawing
  operations in order while images and video frames are being decoded.

  The two canvases are browser objects: what the code does to them is recorded as the list
  \<open>cmds\<close> of the calls and assignments, in order, and the sizes that are read back are fields.
  Image objects and video frames are identified by a number; the browser's share (decoding them)
  is the events \<open>image_load\<close>, \<open>image_error\<close> and \<open>frame_ready\<close>.  A number that may have a
  fraction is a \<open>rat\<close>; a scale of \<open>None\<close> is \<open>Infinity\<close>.
\<close>

section \<open>State\<close>

type_synonym css = "byte option list"

datatype draw_cmd =
    FillStyle css
  | FillRect int int int int
  | CopyRect int int int int int int
  | PutImage "byte list" int int int int
  | DrawImage nat int int int int
  | DrawFrame nat int int int int
  | FlipRect int int int int int int
  | TargetSize int int
  | BackSize int int bool

record image =
  img_id :: nat
  img_src :: string
  complete :: bool
  img_w :: int
  img_h :: int
  listening :: bool

record frame =
  fr_id :: nat
  fr_ready :: bool
  codedWidth :: int
  codedHeight :: int
  callbacks :: nat

datatype action =
    AFlip
  | ACopy int int int int int int
  | AFill int int int int "byte list"
  | AFillUndefined int int int int
  | ABlit int int int int "byte list"
  | AImg image int int int int
  | AFrame frame int int int int

record display =
  renderQ :: "action list"
  flushPromise :: bool
  flushResolved :: nat
  fbWidth :: int
  fbHeight :: int
  prevDrawStyle :: "css option"
  vp_x :: int
  vp_y :: int
  vp_w :: int
  vp_h :: int
  dmg_left :: int
  dmg_top :: int
  dmg_right :: int
  dmg_bottom :: int
  scale :: "rat option"
  clipViewport :: bool
  style_w :: "rat option"
  style_h :: "rat option"
  back_w :: int
  back_h :: int
  next_id :: nat
  cmds :: "draw_cmd list"

definition emit :: "draw_cmd \<Rightarrow> display \<Rightarrow> display" where
  "emit c d = d\<lparr>cmds := cmds d @ [c]\<rparr>"

text \<open>The constructor: a canvas has 300 by 150 pixels when its size has not been set.\<close>

definition new_display :: "int \<Rightarrow> int \<Rightarrow> display" where
  "new_display target_width target_height =
     \<lparr>renderQ = [], flushPromise = False, flushResolved = 0, fbWidth = 0, fbHeight = 0,
      prevDrawStyle = None, vp_x = 0, vp_y = 0, vp_w = target_width, vp_h = target_height,
      dmg_left = 0, dmg_top = 0, dmg_right = 300, dmg_bottom = 150,
      scale = Some 1, clipViewport = False, style_w = None, style_h = None,
      back_w = 300, back_h = 150, next_id = 0, cmds = []\<rparr>"

section \<open>Damage and drawing\<close>

definition damage :: "int \<Rightarrow> int \<Rightarrow> int \<Rightarrow> int \<Rightarrow> display \<Rightarrow> display" where
  "damage x y w h d =
     d\<lparr>dmg_left := (if x < dmg_left d then x else dmg_left d),
       dmg_top := (if y < dmg_top d then y else dmg_top d),
       dmg_right := (if x + w > dmg_right d then x + w else dmg_right d),
       dmg_bottom := (if y + h > dmg_bottom d then y + h else dmg_bottom d)\<rparr>"

text \<open>The rectangle that \<open>flip\<close> copies to the visible canvas: position, size, target position.\<close>

definition flip_rect :: "display \<Rightarrow> int \<times> int \<times> int \<times> int \<times> int \<times> int" where
  "flip_rect d =
     (let x = dmg_left d; y = dmg_top d;
          w = dmg_right d - x; h = dmg_bottom d - y;
          vx = x - vp_x d; vy = y - vp_y d;
          (w, x, vx) = (if vx < 0 then (w + vx, x - vx, 0) else (w, x, vx));
          (h, y, vy) = (if vy < 0 then (h + vy, y - vy, 0) else (h, y, vy));
          w = (if vx + w > vp_w d then vp_w d - vx else w);
          h = (if vy + h > vp_h d then vp_h d - vy else h)
      in (x, y, w, h, vx, vy))"

definition flip_now :: "display \<Rightarrow> display" where
  "flip_now d =
     (case flip_rect d of (x, y, w, h, vx, vy) \<Rightarrow>
        (if w > 0 \<and> h > 0 then emit (FlipRect x y w h vx vy) d else d)
          \<lparr>dmg_left := 65535, dmg_top := 65535, dmg_right := 0, dmg_bottom := 0\<rparr>)"

definition css_of :: "byte list \<Rightarrow> css" where
  "css_of color = map (\<lambda>i. if i < length color then Some (color ! i) else None) [0, 1, 2]"

definition setFillColor :: "byte list \<Rightarrow> display \<Rightarrow> display" where
  "setFillColor color d =
     (if Some (css_of color) \<noteq> prevDrawStyle d
      then (emit (FillStyle (css_of color)) d)\<lparr>prevDrawStyle := Some (css_of color)\<rparr> else d)"

definition fill_now :: "int \<Rightarrow> int \<Rightarrow> int \<Rightarrow> int \<Rightarrow> byte list \<Rightarrow> display \<Rightarrow> display" where
  "fill_now x y w h color d = damage x y w h (emit (FillRect x y w h) (setFillColor color d))"

definition copy_now :: "int \<Rightarrow> int \<Rightarrow> int \<Rightarrow> int \<Rightarrow> int \<Rightarrow> int \<Rightarrow> display \<Rightarrow> display" where
  "copy_now oldX oldY newX newY w h d =
     damage newX newY w h (emit (CopyRect oldX oldY newX newY w h) d)"

text \<open>
  \<open>blitImage\<close> when nothing is queued: the pixels are a view of \<open>width * height * 4\<close> bytes into
  the buffer of the array, from the array's own offset on.  A view that does not fit is a
  \<open>RangeError\<close>, and an empty picture is refused by the \<open>ImageData\<close> constructor.
\<close>

definition blit_now :: "int \<Rightarrow> int \<Rightarrow> int \<Rightarrow> int \<Rightarrow> u8view \<Rightarrow> nat \<Rightarrow> display \<Rightarrow> js_error + display" where
  "blit_now x y w h arr offset d =
     (let n = nat (w * h * 4); from = v_off arr + offset in
      if w * h * 4 < 0 \<or> length (v_buf arr) < from + n then Inl RangeError
      else if n = 0 then Inl (JsError ''InvalidStateError'')
      else Inr (damage x y w h (emit (PutImage (take n (drop from (v_buf arr))) w h x y) d)))"

definition drawImage_img :: "image \<Rightarrow> int \<Rightarrow> int \<Rightarrow> display \<Rightarrow> display" where
  "drawImage_img img x y d =
     damage x y (img_w img) (img_h img) (emit (DrawImage (img_id img) x y (img_w img) (img_h img)) d)"

definition drawImage_frame :: "frame \<Rightarrow> int \<Rightarrow> int \<Rightarrow> int \<Rightarrow> int \<Rightarrow> display \<Rightarrow> display" where
  "drawImage_frame f x y w h d = damage x y w h (emit (DrawFrame (fr_id f) x y w h) d)"

section \<open>The render queue\<close>

text \<open>
  One pass of the loop of \<open>_scanRenderQ\<close>: the action at the head is done (\<open>Done\<close>), has to wait
  for its image or frame and now listens for it (\<open>Wait\<close>), makes the function return (\<open>Refuse\<close>),
  or throws.
\<close>

datatype outcome =
    Done display
  | Wait action
  | Refuse
  | Throw js_error

fun perform :: "action \<Rightarrow> display \<Rightarrow> outcome" where
  "perform AFlip d = Done (flip_now d)"
| "perform (ACopy ox oy x y w h) d = Done (copy_now ox oy x y w h d)"
| "perform (AFill x y w h color) d = Done (fill_now x y w h color d)"
| "perform (AFillUndefined x y w h) d = Throw NullError"
| "perform (ABlit x y w h pixels) d =
     (case blit_now x y w h (view_of pixels) 0 d of Inl e \<Rightarrow> Throw e | Inr d \<Rightarrow> Done d)"
| "perform (AImg img x y w h) d =
     (if complete img then
        if img_w img \<noteq> w \<or> img_h img \<noteq> h then Refuse
        else Done (drawImage_img img x y d)
      else Wait (AImg (img\<lparr>listening := True\<rparr>) x y w h))"
| "perform (AFrame f x y w h) d =
     (if fr_ready f then Done (drawImage_frame f x y w h d)
      else Wait (AFrame (f\<lparr>callbacks := Suc (callbacks f)\<rparr>) x y w h))"

definition resolve_flush :: "display \<Rightarrow> display" where
  "resolve_flush d =
     (if flushPromise d then d\<lparr>flushPromise := False, flushResolved := Suc (flushResolved d)\<rparr> else d)"

fun scan_queue :: "action list \<Rightarrow> display \<Rightarrow> js_error option \<times> display" where
  "scan_queue [] d = (None, resolve_flush (d\<lparr>renderQ := []\<rparr>))"
| "scan_queue (a # q) d =
     (case perform a d of
        Done d' \<Rightarrow> scan_queue q d'
      | Wait a' \<Rightarrow> (None, d\<lparr>renderQ := a' # q\<rparr>)
      | Refuse \<Rightarrow> (None, d\<lparr>renderQ := a # q\<rparr>)
      | Throw e \<Rightarrow> (Some e, d\<lparr>renderQ := a # q\<rparr>))"

definition scanRenderQ :: "display \<Rightarrow> js_error option \<times> display" where
  "scanRenderQ d = scan_queue (renderQ d) d"

definition renderQPush :: "action \<Rightarrow> display \<Rightarrow> js_error option \<times> display" where
  "renderQPush a d =
     (let d = d\<lparr>renderQ := renderQ d @ [a]\<rparr>
      in if length (renderQ d) = 1 then scanRenderQ d else (None, d))"

text \<open>
  The drawing operations as the decoders call them (\<open>fromQueue\<close> not set).  The queue is not
  empty when they push, so nothing is scanned and nothing thrown.
\<close>

definition flip :: "display \<Rightarrow> display" where
  "flip d = (if renderQ d \<noteq> [] then snd (renderQPush AFlip d) else flip_now d)"

definition fillRect :: "int \<Rightarrow> int \<Rightarrow> int \<Rightarrow> int \<Rightarrow> byte list \<Rightarrow> display \<Rightarrow> display" where
  "fillRect x y w h color d =
     (if renderQ d \<noteq> [] then snd (renderQPush (AFill x y w h color) d) else fill_now x y w h color d)"

text \<open>\<open>fillRect\<close> with an undefined colour: reading its components throws, at once or from the queue.\<close>

definition fillRect_undefined :: "int \<Rightarrow> int \<Rightarrow> int \<Rightarrow> int \<Rightarrow> display \<Rightarrow> js_error + display" where
  "fillRect_undefined x y w h d =
     (if renderQ d \<noteq> [] then Inr (snd (renderQPush (AFillUndefined x y w h) d)) else Inl NullError)"

definition copyImage :: "int \<Rightarrow> int \<Rightarrow> int \<Rightarrow> int \<Rightarrow> int \<Rightarrow> int \<Rightarrow> display \<Rightarrow> display" where
  "copyImage oldX oldY newX newY w h d =
     (if renderQ d \<noteq> [] then snd (renderQPush (ACopy oldX oldY newX newY w h) d)
      else copy_now oldX oldY newX newY w h d)"

text \<open>
  \<open>blitImage\<close> with a non-empty queue copies the pixels from the start of the array's buffer.
\<close>

definition blitImage :: "int \<Rightarrow> int \<Rightarrow> int \<Rightarrow> int \<Rightarrow> u8view \<Rightarrow> nat \<Rightarrow> display \<Rightarrow> js_error + display" where
  "blitImage x y w h arr offset d =
     (if renderQ d \<noteq> [] then
        if w * h * 4 < 0 \<or> length (v_buf arr) < nat (w * h * 4) then Inl RangeError
        else Inr (snd (renderQPush (ABlit x y w h (take (nat (w * h * 4)) (v_buf arr))) d))
      else blit_now x y w h arr offset d)"

definition imageRect ::
    "int \<Rightarrow> int \<Rightarrow> int \<Rightarrow> int \<Rightarrow> string \<Rightarrow> byte list \<Rightarrow> display \<Rightarrow> js_error option \<times> display" where
  "imageRect x y w h mime arr d =
     (if w = 0 \<or> h = 0 then (None, d)
      else
        let img = \<lparr>img_id = next_id d, img_src = ''data: '' @ mime @ '';base64,'' @ b64_encode arr,
                   complete = False, img_w = 0, img_h = 0, listening = False\<rparr>
        in renderQPush (AImg img x y w h) (d\<lparr>next_id := Suc (next_id d)\<rparr>))"

definition videoFrame :: "int \<Rightarrow> int \<Rightarrow> int \<Rightarrow> int \<Rightarrow> frame \<Rightarrow> display \<Rightarrow> js_error option \<times> display" where
  "videoFrame x y w h f d = renderQPush (AFrame f x y w h) d"

definition pending :: "display \<Rightarrow> bool" where
  "pending d \<longleftrightarrow> length (renderQ d) > 0"

text \<open>\<open>flush\<close>: whether the returned promise is already resolved.\<close>

definition display_flush :: "display \<Rightarrow> bool \<times> display" where
  "display_flush d =
     (if length (renderQ d) = 0 then (True, d)
      else (False, if flushPromise d then d else d\<lparr>flushPromise := True\<rparr>))"

section \<open>Events of the browser\<close>

text \<open>
  An image has been decoded to \<open>w\<close> by \<open>h\<close> pixels: its load event calls \<open>_resumeRenderQ\<close> when
  that listens.  A data URL that is no image makes the image complete, with no size and with an
  error event instead, for which nothing listens.
\<close>

fun finish_img :: "nat \<Rightarrow> int \<Rightarrow> int \<Rightarrow> action \<Rightarrow> action" where
  "finish_img i w h (AImg img x y aw ah) =
     AImg (if img_id img = i then img\<lparr>complete := True, img_w := w, img_h := h\<rparr> else img) x y aw ah"
| "finish_img i w h a = a"

fun unlisten :: "nat \<Rightarrow> action \<Rightarrow> action" where
  "unlisten i (AImg img x y w h) =
     AImg (if img_id img = i then img\<lparr>listening := False\<rparr> else img) x y w h"
| "unlisten i a = a"

fun listens :: "nat \<Rightarrow> action \<Rightarrow> bool" where
  "listens i (AImg img x y w h) = (img_id img = i \<and> listening img)"
| "listens i a = False"

definition resumeRenderQ :: "nat \<Rightarrow> display \<Rightarrow> js_error option \<times> display" where
  "resumeRenderQ i d = scanRenderQ (d\<lparr>renderQ := map (unlisten i) (renderQ d)\<rparr>)"

definition image_load :: "nat \<Rightarrow> int \<Rightarrow> int \<Rightarrow> display \<Rightarrow> js_error option \<times> display" where
  "image_load i w h d =
     (let d1 = d\<lparr>renderQ := map (finish_img i w h) (renderQ d)\<rparr>
      in if list_ex (listens i) (renderQ d) then resumeRenderQ i d1 else (None, d1))"

definition image_error :: "nat \<Rightarrow> display \<Rightarrow> display" where
  "image_error i d = d\<lparr>renderQ := map (finish_img i 0 0) (renderQ d)\<rparr>"

fun finish_frame :: "nat \<Rightarrow> int \<Rightarrow> int \<Rightarrow> action \<Rightarrow> action" where
  "finish_frame i w h (AFrame f x y aw ah) =
     AFrame (if fr_id f = i then f\<lparr>fr_ready := True, codedWidth := w, codedHeight := h\<rparr> else f) x y aw ah"
| "finish_frame i w h a = a"

fun waiting :: "nat \<Rightarrow> action \<Rightarrow> nat" where
  "waiting i (AFrame f x y w h) = (if fr_id f = i then callbacks f else 0)"
| "waiting i a = 0"

fun scan_times :: "nat \<Rightarrow> display \<Rightarrow> js_error option \<times> display" where
  "scan_times 0 d = (None, d)"
| "scan_times (Suc n) d =
     (case scanRenderQ d of (None, d) \<Rightarrow> scan_times n d
      | (Some e, d) \<Rightarrow> (Some e, snd (scan_times n d)))"

definition frame_ready :: "nat \<Rightarrow> int \<Rightarrow> int \<Rightarrow> display \<Rightarrow> js_error option \<times> display" where
  "frame_ready i w h d =
     scan_times (sum_list (map (waiting i) (renderQ d)))
       (d\<lparr>renderQ := map (finish_frame i w h) (renderQ d)\<rparr>)"

section \<open>Viewport and scale\<close>

definition times_scale :: "rat option \<Rightarrow> int \<Rightarrow> rat option" where
  "times_scale factor w = map_option (\<lambda>f. f * of_int w) factor"

text \<open>A width of \<open>NaNpx\<close> or \<open>Infinitypx\<close> is no length: the assignment leaves the style as it was.\<close>

definition rescale :: "rat option \<Rightarrow> display \<Rightarrow> display" where
  "rescale factor d =
     (let width = times_scale factor (vp_w d); height = times_scale factor (vp_h d) in
      d\<lparr>scale := factor,
        style_w := (case width of None \<Rightarrow> style_w d | Some _ \<Rightarrow> width),
        style_h := (case height of None \<Rightarrow> style_h d | Some _ \<Rightarrow> height)\<rparr>)"

text \<open>One coordinate of \<open>viewportChangePos\<close>: the clamped movement.\<close>

definition clamp_move :: "int \<Rightarrow> int \<Rightarrow> int \<Rightarrow> int \<Rightarrow> int" where
  "clamp_move pos len fb delta =
     (let end = pos + len - 1;
          delta = (if pos + delta < 0 then - pos else delta)
      in if end + delta \<ge> fb then delta - (end + delta - fb + 1) else delta)"

definition viewportChangePos :: "rat \<Rightarrow> rat \<Rightarrow> display \<Rightarrow> display" where
  "viewportChangePos dX dY d =
     (let deltaX = (if clipViewport d then \<lfloor>dX\<rfloor> else - vp_w d);
          deltaY = (if clipViewport d then \<lfloor>dY\<rfloor> else - vp_h d);
          vx2 = vp_x d + vp_w d - 1;
          deltaX = (if deltaX < 0 \<and> vp_x d + deltaX < 0 then - vp_x d else deltaX);
          deltaX = (if vx2 + deltaX \<ge> fbWidth d then deltaX - (vx2 + deltaX - fbWidth d + 1) else deltaX);
          deltaY = clamp_move (vp_y d) (vp_h d) (fbHeight d) deltaY
      in if deltaX = 0 \<and> deltaY = 0 then d
         else
           let d = d\<lparr>vp_x := vp_x d + deltaX, vp_y := vp_y d + deltaY\<rparr>
           in flip (damage (vp_x d) (vp_y d) (vp_w d) (vp_h d) d))"

definition viewportChangeSize :: "(rat \<times> rat) option \<Rightarrow> display \<Rightarrow> display" where
  "viewportChangeSize sz d =
     (let (width, height) =
            (case sz of
               Some (w, h) \<Rightarrow> if clipViewport d then (\<lfloor>w\<rfloor>, \<lfloor>h\<rfloor>) else (fbWidth d, fbHeight d)
             | None \<Rightarrow> (fbWidth d, fbHeight d));
          width = (if width > fbWidth d then fbWidth d else width);
          height = (if height > fbHeight d then fbHeight d else height)
      in if vp_w d \<noteq> width \<or> vp_h d \<noteq> height then
           let d = emit (TargetSize width height) (d\<lparr>vp_w := width, vp_h := height\<rparr>);
               d = viewportChangePos 0 0 d;
               d = flip (damage (vp_x d) (vp_y d) (vp_w d) (vp_h d) d)
           in rescale (scale d) d
         else d)"

definition set_clipViewport :: "bool \<Rightarrow> display \<Rightarrow> display" where
  "set_clipViewport viewport d =
     (let d = d\<lparr>clipViewport := viewport\<rparr>;
          d = viewportChangeSize (Some (of_int (vp_w d), of_int (vp_h d))) d
      in viewportChangePos 0 0 d)"

definition truncate_rat :: "rat \<Rightarrow> int" where
  "truncate_rat q = (if q < 0 then \<lceil>q\<rceil> else \<lfloor>q\<rfloor>)"

definition abs_coord :: "rat option \<Rightarrow> int \<Rightarrow> rat \<Rightarrow> int" where
  "abs_coord sc pos x =
     (if sc = Some 0 then 0
      else to_int32 (truncate_rat ((case sc of None \<Rightarrow> 0 | Some f \<Rightarrow> x / f) + of_int pos)))"

definition absX :: "rat \<Rightarrow> display \<Rightarrow> int" where
  "absX x d = abs_coord (scale d) (vp_x d) x"

definition absY :: "rat \<Rightarrow> display \<Rightarrow> int" where
  "absY y d = abs_coord (scale d) (vp_y d) y"

text \<open>The drawn picture survives a change of the frame buffer's size when there was one.\<close>

definition resize :: "int \<Rightarrow> int \<Rightarrow> display \<Rightarrow> display" where
  "resize width height d =
     (let d = d\<lparr>prevDrawStyle := None, fbWidth := width, fbHeight := height\<rparr>;
          d = (if back_w d \<noteq> width \<or> back_h d \<noteq> height
               then (emit (BackSize width height (back_w d > 0 \<and> back_h d > 0)) d)
                      \<lparr>back_w := width, back_h := height\<rparr>
               else d);
          d = viewportChangeSize (Some (of_int (vp_w d), of_int (vp_h d))) d
      in viewportChangePos 0 0 d)"

text \<open>
  \<open>autoscale\<close>: the quotients by a viewport size of 0 are \<open>Infinity\<close> or, for both, a \<open>NaN\<close> that
  compares false.
\<close>

definition div_or_inf :: "rat \<Rightarrow> int \<Rightarrow> rat option" where
  "div_or_inf x n = (if n = 0 then None else Some (x / of_int n))"

definition autoscale :: "rat \<Rightarrow> rat \<Rightarrow> display \<Rightarrow> display" where
  "autoscale containerWidth containerHeight d =
     (let scaleRatio =
            (if containerWidth = 0 \<or> containerHeight = 0 then Some 0
             else
               let target = containerWidth / containerHeight;
                   wider = (case div_or_inf (of_int (vp_w d)) (vp_h d) of
                              None \<Rightarrow> vp_w d \<noteq> 0
                            | Some fb \<Rightarrow> fb \<ge> target)
               in if wider then div_or_inf containerWidth (vp_w d) else div_or_inf containerHeight (vp_h d))
      in rescale scaleRatio d)"

section \<open>What the queue stands for\<close>

text \<open>The effect of an action once its image or frame is there, and the state that the display
  reaches when everything queued is drawn.\<close>

fun act :: "action \<Rightarrow> display \<Rightarrow> display" where
  "act AFlip d = flip_now d"
| "act (ACopy ox oy x y w h) d = copy_now ox oy x y w h d"
| "act (AFill x y w h color) d = fill_now x y w h color d"
| "act (AFillUndefined x y w h) d = d"
| "act (ABlit x y w h pixels) d = damage x y w h (emit (PutImage pixels w h x y) d)"
| "act (AImg img x y w h) d = damage x y w h (emit (DrawImage (img_id img) x y w h) d)"
| "act (AFrame f x y w h) d = drawImage_frame f x y w h d"

definition canvas :: "display \<Rightarrow> display" where
  "canvas d = d\<lparr>renderQ := [], flushPromise := False, flushResolved := 0, next_id := 0\<rparr>"

definition settle :: "display \<Rightarrow> display" where
  "settle d = fold act (renderQ d) (canvas d)"

text \<open>The part of an action that never changes while it waits.\<close>

fun skel :: "action \<Rightarrow> action" where
  "skel (AImg img x y w h) =
     AImg (img\<lparr>img_src := [], complete := False, img_w := 0, img_h := 0, listening := False\<rparr>) x y w h"
| "skel (AFrame f x y w h) =
     AFrame (f\<lparr>fr_ready := False, codedWidth := 0, codedHeight := 0, callbacks := 0\<rparr>) x y w h"
| "skel a = a"

fun ready :: "action \<Rightarrow> bool" where
  "ready (AImg img x y w h) = complete img"
| "ready (AFrame f x y w h) = fr_ready f"
| "ready a = True"

fun waits :: "action \<Rightarrow> bool" where
  "waits (AImg img x y w h) = (\<not> complete img \<and> listening img)"
| "waits (AFrame f x y w h) = (\<not> fr_ready f \<and> 0 < callbacks f)"
| "waits a = False"

fun wf_action :: "action \<Rightarrow> bool" where
  "wf_action (AFillUndefined x y w h) = False"
| "wf_action (ABlit x y w h pixels) = (0 < w * h \<and> int (length pixels) = w * h * 4)"
| "wf_action (AImg img x y w h) = (complete img \<longrightarrow> img_w img = w \<and> img_h img = h)"
| "wf_action a = True"

definition queue_inv :: "display \<Rightarrow> bool" where
  "queue_inv d \<longleftrightarrow> list_all wf_action (renderQ d)
     \<and> (renderQ d \<noteq> [] \<longrightarrow> waits (hd (renderQ d))) \<and> (flushPromise d \<longrightarrow> renderQ d \<noteq> [])"

text \<open>The primitives touch neither the queue nor its bookkeeping.\<close>

lemma flip_rect_canvas: "flip_rect (canvas d) = flip_rect d"
proof -
  have "dmg_left (canvas d) = dmg_left d" "dmg_top (canvas d) = dmg_top d"
    "dmg_right (canvas d) = dmg_right d" "dmg_bottom (canvas d) = dmg_bottom d"
    "vp_x (canvas d) = vp_x d" "vp_y (canvas d) = vp_y d" "vp_w (canvas d) = vp_w d"
    "vp_h (canvas d) = vp_h d"
    by (simp_all add: canvas_def)
  then show ?thesis
    by (simp only: flip_rect_def)
qed

lemma prim_canvas:
  "canvas (damage x y w h d) = damage x y w h (canvas d)"
  "canvas (emit c d) = emit c (canvas d)"
  "canvas (setFillColor color d) = setFillColor color (canvas d)"
  "canvas (flip_now d) = flip_now (canvas d)"
  by (simp_all add: damage_def emit_def canvas_def setFillColor_def flip_now_def
      flip_rect_canvas [unfolded canvas_def] split: prod.split)

lemma act_canvas: "canvas (act a d) = act a (canvas d)"
  by (cases a) (simp_all add: fill_now_def copy_now_def drawImage_frame_def prim_canvas)

lemma prim_keeps [simp]:
  "renderQ (damage x y w h d) = renderQ d" "flushPromise (damage x y w h d) = flushPromise d"
  "flushResolved (damage x y w h d) = flushResolved d" "next_id (damage x y w h d) = next_id d"
  "renderQ (emit c d) = renderQ d" "flushPromise (emit c d) = flushPromise d"
  "flushResolved (emit c d) = flushResolved d" "next_id (emit c d) = next_id d"
  "renderQ (setFillColor color d) = renderQ d" "flushPromise (setFillColor color d) = flushPromise d"
  "flushResolved (setFillColor color d) = flushResolved d" "next_id (setFillColor color d) = next_id d"
  "renderQ (flip_now d) = renderQ d" "flushPromise (flip_now d) = flushPromise d"
  "flushResolved (flip_now d) = flushResolved d" "next_id (flip_now d) = next_id d"
  by (simp_all add: damage_def emit_def setFillColor_def flip_now_def split: prod.split)

lemma act_keeps [simp]:
  "renderQ (act a d) = renderQ d" "flushPromise (act a d) = flushPromise d"
  "flushResolved (act a d) = flushResolved d" "next_id (act a d) = next_id d"
  by (cases a; simp add: fill_now_def copy_now_def drawImage_frame_def)+

lemma act_skel: "act (skel a) = act a"
  by (cases a) (auto simp: fun_eq_iff drawImage_frame_def)

lemma fold_act_skel: "fold act (map skel q) = fold act q"
  by (simp add: fold_map comp_def act_skel)

lemma canvas_sel [simp]: "renderQ (canvas d) = []" "canvas (canvas d) = canvas d"
  "canvas (d\<lparr>renderQ := q\<rparr>) = canvas d" "canvas (d\<lparr>next_id := n\<rparr>) = canvas d"
  "canvas (d\<lparr>flushPromise := b\<rparr>) = canvas d" "canvas (resolve_flush d) = canvas d"
  by (auto simp: canvas_def resolve_flush_def)

lemma settle_queue: "settle (d\<lparr>renderQ := q\<rparr>) = fold act q (canvas d)"
  by (simp add: settle_def)

lemma blit_view_of:
  assumes "0 < w * h" "int (length pixels) = w * h * 4"
  shows "blit_now x y w h (view_of pixels) 0 d = Inr (damage x y w h (emit (PutImage pixels w h x y) d))"
proof -
  have "nat (w * h * 4) = length pixels" "0 < length pixels" "\<not> w * h * 4 < 0"
    using assms by linarith+
  then show ?thesis
    by (simp add: blit_now_def view_of_def Let_def)
qed

text \<open>One action of a well-formed queue: it is drawn, or waits without being ready.\<close>

lemma perform_wf:
  assumes "wf_action a"
  shows "(ready a \<and> perform a d = Done (act a d)) \<or>
    (\<not> ready a \<and> (\<exists>a'. perform a d = Wait a' \<and> skel a' = skel a \<and> waits a' \<and> \<not> ready a' \<and> wf_action a'))"
  using assms by (cases a) (auto simp: blit_view_of drawImage_img_def)

lemma waits_not_ready: "waits a \<Longrightarrow> \<not> ready a"
  by (cases a) auto

text \<open>What a pass over the queue does: it draws a prefix, in order.\<close>

definition scanned :: "action list \<Rightarrow> display \<Rightarrow> display \<Rightarrow> bool" where
  "scanned q d d' \<longleftrightarrow> list_all wf_action (renderQ d')
    \<and> (renderQ d' \<noteq> [] \<longrightarrow> waits (hd (renderQ d'))) \<and> settle d' = fold act q (canvas d)
    \<and> (\<exists>n. map skel (renderQ d') = drop n (map skel q))
    \<and> (\<forall>a' \<in> set (renderQ d'). \<exists>a \<in> set q. skel a' = skel a \<and> ready a' = ready a)
    \<and> next_id d' = next_id d
    \<and> flushResolved d' + of_bool (flushPromise d') = flushResolved d + of_bool (flushPromise d)
    \<and> (flushPromise d' = (flushPromise d \<and> renderQ d' \<noteq> []))"

lemma scanned_Cons:
  assumes "scanned q (act a d) d'"
  shows "scanned (a # q) d d'"
proof -
  obtain n where "map skel (renderQ d') = drop n (map skel q)"
    using assms by (auto simp: scanned_def)
  then have "map skel (renderQ d') = drop (Suc n) (map skel (a # q))"
    by simp
  then have "\<exists>n. map skel (renderQ d') = drop n (map skel (a # q))" ..
  moreover have "settle d' = fold act (a # q) (canvas d)"
    using assms by (simp add: scanned_def act_canvas)
  ultimately show ?thesis
    using assms unfolding scanned_def act_keeps
    by (elim conjE) (intro conjI; (assumption | auto)?)
qed

lemma scanned_wait:
  assumes "skel a' = skel a" "waits a'" "wf_action a'" "\<not> ready a" "\<not> ready a'" "list_all wf_action q"
  shows "scanned (a # q) d (d\<lparr>renderQ := a' # q\<rparr>)"
proof -
  have "act a' = act a"
    using assms(1) by (metis act_skel)
  then have "settle (d\<lparr>renderQ := a' # q\<rparr>) = fold act (a # q) (canvas d)"
    by (simp add: settle_queue)
  moreover have "map skel (a' # q) = drop 0 (map skel (a # q))"
    using assms(1) by simp
  then have "\<exists>n. map skel (a' # q) = drop n (map skel (a # q))" ..
  ultimately show ?thesis
    using assms unfolding scanned_def by auto
qed

lemma scan_queue_wf:
  assumes "list_all wf_action q"
  shows "\<exists>d'. scan_queue q d = (None, d') \<and> scanned q d d'"
  using assms
proof (induction q arbitrary: d)
  case Nil
  then show ?case
    by (auto simp: scanned_def settle_def resolve_flush_def canvas_def)
next
  case (Cons a q)
  have wf: "wf_action a" "list_all wf_action q"
    using Cons.prems by simp_all
  from perform_wf [OF wf(1), of d] show ?case
  proof (elim disjE conjE exE)
    assume p: "perform a d = Done (act a d)"
    obtain d' where "scan_queue q (act a d) = (None, d')" "scanned q (act a d) d'"
      using Cons.IH [OF wf(2)] by blast
    then show ?thesis
      using p scanned_Cons by simp
  next
    fix a'
    assume "perform a d = Wait a'" "skel a' = skel a" "waits a'" "\<not> ready a" "\<not> ready a'" "wf_action a'"
    then show ?thesis
      using scanned_wait wf(2) by simp
  qed
qed

subsection \<open>The operations\<close>

datatype draw_op =
    OFlip
  | OFill int int int int "byte list"
  | OCopy int int int int int int
  | OBlit int int int int u8view nat
  | OImage int int int int string "byte list"
  | OFrame int int int int frame
  | OFlush
  | ELoad nat int int
  | EFrame nat int int
  | EError nat

fun dstep :: "draw_op \<Rightarrow> display \<Rightarrow> js_error option \<times> display" where
  "dstep OFlip d = (None, flip d)"
| "dstep (OFill x y w h c) d = (None, fillRect x y w h c d)"
| "dstep (OCopy ox oy x y w h) d = (None, copyImage ox oy x y w h d)"
| "dstep (OBlit x y w h arr off) d =
     (case blitImage x y w h arr off d of Inl e \<Rightarrow> (Some e, d) | Inr d \<Rightarrow> (None, d))"
| "dstep (OImage x y w h mime arr) d = imageRect x y w h mime arr d"
| "dstep (OFrame x y w h f) d = videoFrame x y w h f d"
| "dstep OFlush d = (None, snd (display_flush d))"
| "dstep (ELoad i w h) d = image_load i w h d"
| "dstep (EFrame i w h) d = frame_ready i w h d"
| "dstep (EError i) d = (None, image_error i d)"

text \<open>
  The pixels that a call of \<open>blitImage\<close> asks for: those of the array, a view of a buffer, from the
  given offset on.
\<close>

definition asked_pixels :: "int \<Rightarrow> int \<Rightarrow> u8view \<Rightarrow> nat \<Rightarrow> byte list" where
  "asked_pixels w h arr off = take (nat (w * h * 4)) (drop (v_off arr + off) (v_buf arr))"

text \<open>The action that a drawing operation stands for.\<close>

fun action_of :: "draw_op \<Rightarrow> display \<Rightarrow> action option" where
  "action_of OFlip d = Some AFlip"
| "action_of (OFill x y w h c) d = Some (AFill x y w h c)"
| "action_of (OCopy ox oy x y w h) d = Some (ACopy ox oy x y w h)"
| "action_of (OBlit x y w h arr off) d = Some (ABlit x y w h (asked_pixels w h arr off))"
| "action_of (OImage x y w h mime arr) d =
     (if w = 0 \<or> h = 0 then None
      else Some (AImg \<lparr>img_id = next_id d, img_src = ''data: '' @ mime @ '';base64,'' @ b64_encode arr,
                       complete = False, img_w = 0, img_h = 0, listening = False\<rparr> x y w h))"
| "action_of (OFrame x y w h f) d = Some (AFrame f x y w h)"
| "action_of _ d = None"

text \<open>
  What a drawing operation needs.  Only \<open>blitImage\<close> needs anything: a picture that is not empty and
  lies inside the buffer and, while something is queued, pixels that are also those at the start
  of the buffer, since the copy for the queue is taken from there.
\<close>

fun wf_op :: "draw_op \<Rightarrow> display \<Rightarrow> bool" where
  "wf_op (OBlit x y w h arr off) d =
     (0 < w \<and> 0 < h \<and> v_off arr + off + nat (w * h * 4) \<le> length (v_buf arr)
      \<and> (renderQ d \<noteq> [] \<longrightarrow> asked_pixels w h arr off = take (nat (w * h * 4)) (v_buf arr)))"
| "wf_op _ d = True"

fun event_fits :: "draw_op \<Rightarrow> action \<Rightarrow> bool" where
  "event_fits (ELoad i w h) (AImg img x y aw ah) = (img_id img = i \<longrightarrow> w = aw \<and> h = ah)"
| "event_fits (EError i) (AImg img x y aw ah) = (img_id img \<noteq> i)"
| "event_fits _ _ = True"

fun is_event :: "draw_op \<Rightarrow> bool" where
  "is_event (ELoad i w h) = True"
| "is_event (EFrame i w h) = True"
| "is_event (EError i) = True"
| "is_event _ = False"

lemma push_nonempty: "renderQ d \<noteq> [] \<Longrightarrow> renderQPush a d = (None, d\<lparr>renderQ := renderQ d @ [a]\<rparr>)"
  by (simp add: renderQPush_def Let_def)

lemma push_empty: "renderQ d = [] \<Longrightarrow> renderQPush a d = scan_queue [a] (d\<lparr>renderQ := [a]\<rparr>)"
  by (simp add: renderQPush_def scanRenderQ_def Let_def)

lemma push_wf:
  assumes "queue_inv d" "wf_action a"
  shows "fst (renderQPush a d) = None \<and> queue_inv (snd (renderQPush a d))
    \<and> settle (snd (renderQPush a d)) = act a (settle d)"
proof (cases "renderQ d = []")
  case False
  then show ?thesis
    using assms by (simp add: push_nonempty queue_inv_def settle_def)
next
  case True
  obtain d' where "scan_queue [a] (d\<lparr>renderQ := [a]\<rparr>) = (None, d')" "scanned [a] (d\<lparr>renderQ := [a]\<rparr>) d'"
    using scan_queue_wf [of "[a]" "d\<lparr>renderQ := [a]\<rparr>"] assms(2) by auto
  then show ?thesis
    using True by (simp add: push_empty queue_inv_def settle_def scanned_def)
qed

lemma direct_wf:
  assumes "queue_inv d" "renderQ d = []"
  shows "queue_inv (act a d) \<and> settle (act a d) = act a (settle d)"
  using assms by (simp add: queue_inv_def settle_def act_canvas)

text \<open>Every drawing operation takes effect behind everything that was asked for before it.\<close>

lemma draw_settles:
  assumes "queue_inv d" "wf_op p d" "action_of p d = Some a"
  shows "fst (dstep p d) = None \<and> queue_inv (snd (dstep p d)) \<and> settle (snd (dstep p d)) = act a (settle d)"
proof (cases p)
  case (OBlit x y w h arr off)
  let ?n = "nat (w * h * 4)"
  have fits: "v_off arr + off + ?n \<le> length (v_buf arr)" and pos: "0 < w * h"
    and a: "a = ABlit x y w h (asked_pixels w h arr off)"
    using assms(2,3) OBlit by simp_all
  have n: "\<not> w * h * 4 < 0" "?n \<noteq> 0" "int ?n = w * h * 4"
    using pos by linarith+
  have len: "length (asked_pixels w h arr off) = ?n"
    using fits by (simp add: asked_pixels_def)
  show ?thesis
  proof (cases "renderQ d = []")
    case True
    have "blitImage x y w h arr off d = Inr (act a d)"
      using True n fits a by (simp add: blitImage_def blit_now_def asked_pixels_def Let_def)
    then show ?thesis
      using OBlit direct_wf [OF assms(1) True, of a] by simp
  next
    case False
    then have "asked_pixels w h arr off = take ?n (v_buf arr)"
      using assms(2) OBlit by simp
    then have "blitImage x y w h arr off d = Inr (snd (renderQPush a d))"
      using False n fits a by (simp add: blitImage_def)
    moreover have "wf_action a"
      using a n(3) len pos by simp
    ultimately show ?thesis
      using OBlit push_wf [OF assms(1), of a] by simp
  qed
next
  case (OImage x y w h mime arr)
  have "queue_inv (d\<lparr>next_id := Suc (next_id d)\<rparr>)" "wf_action a"
    using assms OImage by (auto simp: queue_inv_def split: if_splits)
  from push_wf [OF this] show ?thesis
    using assms(3) OImage
    by (auto simp: imageRect_def Let_def settle_def split: if_splits)
next
  case (OFrame x y w h f)
  then show ?thesis
    using assms push_wf [OF assms(1), of a] by (auto simp: videoFrame_def)
qed (use assms push_wf [OF assms(1), of a] direct_wf [OF assms(1), of a] in
    \<open>auto simp: flip_def fillRect_def copyImage_def\<close>)

end
