(* ===== verification/DisplayProps.thy ===== *)
theory DisplayProps
  imports Display
begin

text \<open>
  What \<open>core/display.js\<close> promises: operations are drawn in the order in which they were asked
  for whatever the order in which the browser decodes images and frames; the viewport stays
  inside the frame buffer; \<open>flip\<close> copies exactly the damaged part of the viewport.
\<close>

section \<open>Events\<close>

fun hits :: "draw_op \<Rightarrow> action \<Rightarrow> bool" where
  "hits (ELoad i w h) (AImg img x y aw ah) = (img_id img = i)"
| "hits (EFrame i w h) (AFrame f x y aw ah) = (fr_id f = i)"
| "hits _ _ = False"

text \<open>What an event may do to the display: draw a prefix of the queue, mark actions as ready.\<close>

definition evolved :: "(action \<Rightarrow> bool) \<Rightarrow> display \<Rightarrow> display \<Rightarrow> bool" where
  "evolved hit d d' \<longleftrightarrow> queue_inv d' \<and> settle d' = settle d
     \<and> (\<forall>a' \<in> set (renderQ d'). \<exists>a \<in> set (renderQ d). skel a' = skel a \<and> ready a' = (ready a \<or> hit a))
     \<and> flushResolved d' + of_bool (flushPromise d') = flushResolved d + of_bool (flushPromise d)"

lemma scan_wf:
  assumes "list_all wf_action (renderQ d)"
  shows "\<exists>d'. scanRenderQ d = (None, d') \<and> scanned (renderQ d) d d'"
  unfolding scanRenderQ_def by (rule scan_queue_wf [OF assms])

lemma scanned_trans:
  assumes "scanned q d d1" "scanned (renderQ d1) d1 d2"
  shows "scanned q d d2"
proof -
  obtain m where m: "map skel (renderQ d1) = drop m (map skel q)"
    using assms(1) unfolding scanned_def by blast
  obtain n where n: "map skel (renderQ d2) = drop n (map skel (renderQ d1))"
    using assms(2) unfolding scanned_def by blast
  have "map skel (renderQ d2) = drop (n + m) (map skel q)"
    using m n by (metis drop_drop)
  then have suffix: "\<exists>n. map skel (renderQ d2) = drop n (map skel q)" ..
  have settled: "settle d2 = fold act q (canvas d)"
    using assms unfolding scanned_def by (metis settle_def)
  have source: "\<forall>a2 \<in> set (renderQ d2). \<exists>a \<in> set q. skel a2 = skel a \<and> ready a2 = ready a"
    using assms unfolding scanned_def by metis
  have ne: "renderQ d1 \<noteq> []" if "renderQ d2 \<noteq> []"
    using n that by auto
  have "flushResolved d2 + of_bool (flushPromise d2) = flushResolved d1 + of_bool (flushPromise d1)"
    using assms(2) unfolding scanned_def by blast
  also have "\<dots> = flushResolved d + of_bool (flushPromise d)"
    using assms(1) unfolding scanned_def by blast
  finally have resolved:
    "flushResolved d2 + of_bool (flushPromise d2) = flushResolved d + of_bool (flushPromise d)" .
  have flush: "next_id d2 = next_id d" "flushPromise d2 = (flushPromise d \<and> renderQ d2 \<noteq> [])"
    "list_all wf_action (renderQ d2)" "renderQ d2 \<noteq> [] \<longrightarrow> waits (hd (renderQ d2))"
    using assms ne unfolding scanned_def by (metis, blast, blast, blast)
  show ?thesis
    unfolding scanned_def by (intro conjI suffix settled source flush resolved)
qed

lemma scan_times_wf:
  "list_all wf_action (renderQ d) \<Longrightarrow>
     \<exists>d'. scan_times (Suc n) d = (None, d') \<and> scanned (renderQ d) d d'"
proof (induction n arbitrary: d)
  case 0
  then show ?case
    using scan_wf [of d] by auto
next
  case (Suc n)
  obtain d1 where d1: "scanRenderQ d = (None, d1)" "scanned (renderQ d) d d1"
    using scan_wf [OF Suc.prems] by blast
  obtain d2 where d2: "scan_times (Suc n) d1 = (None, d2)" "scanned (renderQ d1) d1 d2"
    using Suc.IH [of d1] d1(2) by (auto simp: scanned_def)
  have "scan_times (Suc (Suc n)) d = (None, d2)"
    by (subst scan_times.simps(2)) (simp add: d1(1) d2(1) del: scan_times.simps)
  then show ?case
    using scanned_trans [OF d1(2) d2(2)] by blast
qed

text \<open>A pass over the queue after its actions have been marked.\<close>

lemma scanned_evolved:
  assumes "scanned (map f (renderQ d)) (d\<lparr>renderQ := map f (renderQ d)\<rparr>) d'"
    and "queue_inv d" and "\<And>a. a \<in> set (renderQ d) \<Longrightarrow> skel (f a) = skel a \<and> ready (f a) = (ready a \<or> hit a)"
  shows "evolved hit d d'"
proof -
  have "map skel (map f (renderQ d)) = map skel (renderQ d)"
    using assms(3) by simp
  then have "fold act (map f (renderQ d)) (canvas d) = settle d"
    unfolding settle_def by (metis fold_act_skel)
  then have s: "settle d' = settle d"
    using assms(1) by (simp add: scanned_def)
  have "\<exists>a \<in> set (renderQ d). skel a' = skel a \<and> ready a' = (ready a \<or> hit a)" if "a' \<in> set (renderQ d')" for a'
    using assms(1,3) that unfolding scanned_def by fastforce
  then show ?thesis
    using assms(1) s unfolding evolved_def queue_inv_def scanned_def
    by (elim conjE) (intro conjI; (assumption | auto)?)
qed

lemma unmarked_evolved:
  assumes "queue_inv d" "list_all wf_action (map f (renderQ d))"
    and "\<And>a. a \<in> set (renderQ d) \<Longrightarrow> skel (f a) = skel a \<and> ready (f a) = (ready a \<or> hit a)"
    and "renderQ d \<noteq> [] \<Longrightarrow> waits (f (hd (renderQ d)))"
  shows "evolved hit d (d\<lparr>renderQ := map f (renderQ d)\<rparr>)"
proof -
  have "map skel (map f (renderQ d)) = map skel (renderQ d)"
    using assms(3) by simp
  then have "fold act (map f (renderQ d)) (canvas d) = settle d"
    unfolding settle_def by (metis fold_act_skel)
  then show ?thesis
    using assms by (auto simp: evolved_def queue_inv_def settle_queue hd_map)
qed

lemma finish_img_props:
  "skel (finish_img i w h a) = skel a"
  "ready (finish_img i w h a) = (ready a \<or> hits (ELoad i w h) a)"
  "wf_action a \<Longrightarrow> event_fits (ELoad i w h) a \<Longrightarrow> wf_action (finish_img i w h a)"
  "waits a \<Longrightarrow> \<not> listens i a \<Longrightarrow> waits (finish_img i w h a)"
  by (cases a; simp)+

lemma unlisten_props:
  "skel (unlisten i a) = skel a" "ready (unlisten i a) = ready a"
  "wf_action (unlisten i a) = wf_action a"
  by (cases a; simp)+

lemma finish_frame_props:
  shows "skel (finish_frame i w h a) = skel a"
    and "ready (finish_frame i w h a) = (ready a \<or> hits (EFrame i w h) a)"
    and "wf_action (finish_frame i w h a) = wf_action a"
    and "waits a \<Longrightarrow> waiting i a = 0 \<Longrightarrow> waits (finish_frame i w h a)"
     apply (cases a; simp)
    apply (cases a; auto)
   apply (cases a; simp)
  apply (cases a; auto split: if_splits)
  done

lemma finish_error_props:
  assumes "event_fits (EError i) a"
  shows "finish_img i 0 0 a = a"
  using assms by (cases a) auto

lemma image_load_evolves:
  assumes "queue_inv d" "\<forall>a \<in> set (renderQ d). event_fits (ELoad i w h) a"
  shows "\<exists>d'. image_load i w h d = (None, d') \<and> evolved (hits (ELoad i w h)) d d'"
proof (cases "list_ex (listens i) (renderQ d)")
  case True
  let ?f = "unlisten i \<circ> finish_img i w h"
  have wf: "list_all wf_action (map ?f (renderQ d))"
    using assms by (auto simp: queue_inv_def list_all_iff unlisten_props finish_img_props)
  obtain d' where d': "scanRenderQ (d\<lparr>renderQ := map ?f (renderQ d)\<rparr>) = (None, d')"
    "scanned (map ?f (renderQ d)) (d\<lparr>renderQ := map ?f (renderQ d)\<rparr>) d'"
    using scan_wf [of "d\<lparr>renderQ := map ?f (renderQ d)\<rparr>"] wf by auto
  have "evolved (hits (ELoad i w h)) d d'"
    by (rule scanned_evolved [OF d'(2) assms(1)]) (simp add: unlisten_props finish_img_props)
  then show ?thesis
    using True d'(1) by (simp add: image_load_def resumeRenderQ_def Let_def)
next
  case False
  have "evolved (hits (ELoad i w h)) d (d\<lparr>renderQ := map (finish_img i w h) (renderQ d)\<rparr>)"
  proof (rule unmarked_evolved [OF assms(1)])
    show "list_all wf_action (map (finish_img i w h) (renderQ d))"
      using assms by (auto simp: queue_inv_def list_all_iff finish_img_props)
    show "waits (finish_img i w h (hd (renderQ d)))" if "renderQ d \<noteq> []"
      using that assms(1) False by (auto simp: queue_inv_def list_ex_iff finish_img_props)
  qed (simp add: finish_img_props)
  then show ?thesis
    using False by (simp add: image_load_def)
qed

lemma frame_ready_evolves:
  assumes "queue_inv d"
  shows "\<exists>d'. frame_ready i w h d = (None, d') \<and> evolved (hits (EFrame i w h)) d d'"
proof -
  let ?f = "finish_frame i w h"
  have wf: "list_all wf_action (map ?f (renderQ d))"
    using assms by (auto simp: queue_inv_def list_all_iff finish_frame_props)
  show ?thesis
  proof (cases "sum_list (map (waiting i) (renderQ d))")
    case 0
    have "evolved (hits (EFrame i w h)) d (d\<lparr>renderQ := map ?f (renderQ d)\<rparr>)"
    proof (rule unmarked_evolved [OF assms(1) wf])
      show "waits (?f (hd (renderQ d)))" if "renderQ d \<noteq> []"
        using that assms(1) 0 by (cases "renderQ d") (auto simp: queue_inv_def finish_frame_props)
    qed (simp add: finish_frame_props)
    then show ?thesis
      unfolding frame_ready_def 0 by simp
  next
    case (Suc n)
    obtain d' where d': "scan_times (Suc n) (d\<lparr>renderQ := map ?f (renderQ d)\<rparr>) = (None, d')"
      "scanned (map ?f (renderQ d)) (d\<lparr>renderQ := map ?f (renderQ d)\<rparr>) d'"
      using scan_times_wf [of "d\<lparr>renderQ := map ?f (renderQ d)\<rparr>" n] wf by auto
    have "evolved (hits (EFrame i w h)) d d'"
      by (rule scanned_evolved [OF d'(2) assms(1)]) (simp add: finish_frame_props)
    then show ?thesis
      using Suc d'(1) by (simp add: frame_ready_def del: scan_times.simps)
  qed
qed

lemma event_evolves:
  assumes "is_event e" "queue_inv d" "\<forall>a \<in> set (renderQ d). event_fits e a"
  shows "\<exists>d'. dstep e d = (None, d') \<and> evolved (hits e) d d'"
proof (cases e)
  case (ELoad i w h)
  then show ?thesis
    using image_load_evolves assms by simp
next
  case (EFrame i w h)
  then show ?thesis
    using frame_ready_evolves assms by simp
next
  case (EError i)
  have "map (finish_img i 0 0) (renderQ d) = renderQ d"
    using assms(3) EError by (simp add: finish_error_props map_idI)
  then have "image_error i d = d"
    by (simp add: image_error_def)
  moreover have "evolved (hits e) d d"
    using assms(2) EError by (auto simp: evolved_def)
  ultimately show ?thesis
    using EError by simp
qed (use assms in simp_all)

lemma skel_img_id:
  "img\<lparr>img_src := [], complete := False, img_w := 0, img_h := 0, listening := False\<rparr> =
   img'\<lparr>img_src := [], complete := False, img_w := 0, img_h := 0, listening := False\<rparr> \<Longrightarrow>
   img_id img = img_id img'"
  by (cases img; cases img') simp

lemma skel_fr_id:
  "f\<lparr>fr_ready := False, codedWidth := 0, codedHeight := 0, callbacks := 0\<rparr> =
   f'\<lparr>fr_ready := False, codedWidth := 0, codedHeight := 0, callbacks := 0\<rparr> \<Longrightarrow> fr_id f = fr_id f'"
  by (cases f; cases f') simp

lemma event_fits_skel: "skel a = skel b \<Longrightarrow> event_fits e a = event_fits e b"
  by (cases e; cases a; cases b) (auto dest: skel_img_id)

lemma hits_skel: "skel a = skel b \<Longrightarrow> hits e a = hits e b"
  by (cases e; cases a; cases b) (auto dest: skel_img_id skel_fr_id)

definition run_events :: "draw_op list \<Rightarrow> display \<Rightarrow> display" where
  "run_events es d = fold (\<lambda>e d. snd (dstep e d)) es d"

lemma run_events_evolved:
  assumes "list_all is_event es" "queue_inv d" "\<forall>e \<in> set es. \<forall>a \<in> set (renderQ d). event_fits e a"
  shows "evolved (\<lambda>a. \<exists>e \<in> set es. hits e a) d (run_events es d)"
  using assms
proof (induction es arbitrary: d)
  case Nil
  then show ?case
    by (auto simp: evolved_def run_events_def)
next
  case (Cons e es)
  obtain d1 where d1: "dstep e d = (None, d1)" "evolved (hits e) d d1"
    using event_evolves [of e d] Cons.prems by auto
  have "event_fits e' a1" if e': "e' \<in> set es" and a1: "a1 \<in> set (renderQ d1)" for e' a1
  proof -
    obtain a where "a \<in> set (renderQ d)" "skel a1 = skel a"
      using d1(2) a1 unfolding evolved_def by blast
    then show ?thesis
      using Cons.prems(3) e' event_fits_skel [of a1 a e'] by simp
  qed
  then have r: "evolved (\<lambda>a. \<exists>e \<in> set es. hits e a) d1 (run_events es d1)"
    using Cons.IH [of d1] Cons.prems(1) d1(2) by (simp add: evolved_def)
  moreover have "\<exists>a \<in> set (renderQ d). skel a2 = skel a \<and> ready a2 = (ready a \<or> (\<exists>e \<in> set (e # es). hits e a))"
    if a2: "a2 \<in> set (renderQ (run_events es d1))" for a2
  proof -
    obtain a1 where a1: "a1 \<in> set (renderQ d1)" "skel a2 = skel a1"
      "ready a2 = (ready a1 \<or> (\<exists>e \<in> set es. hits e a1))"
      using r a2 unfolding evolved_def by blast
    obtain a where "a \<in> set (renderQ d)" "skel a1 = skel a" "ready a1 = (ready a \<or> hits e a)"
      using d1(2) a1(1) unfolding evolved_def by blast
    then show ?thesis
      using a1 hits_skel [of a1 a] by auto
  qed
  moreover have "run_events (e # es) d = run_events es d1"
    by (simp add: run_events_def d1(1))
  ultimately show ?case
    using d1(2) unfolding evolved_def by simp
qed

section \<open>Rendering in order\<close>

text \<open>C3. Every drawing operation takes effect behind everything that was asked for before it, no
  matter what is still being decoded: the state in which the display settles once the queue is
  drawn is the settled state before, with the operation applied at its end.  Nothing is thrown and
  the queue keeps waiting for its first action.  The one operation with a condition is \<open>blitImage\<close>
  (\<open>wf_op\<close>): its picture is not empty and lies inside the buffer of the array, and while something
  is queued the pixels it asks for are those at the start of that buffer, because the queue gets its
  copy from there (display.js:400).  Arrays of their own meet this, a view into the receive queue
  does not: \<open>blit_of_a_view\<close> gives what is drawn then.\<close>

theorem drawing_in_order:
  assumes "queue_inv d" "wf_op p d" "action_of p d = Some a"
  shows "fst (dstep p d) = None \<and> queue_inv (snd (dstep p d)) \<and> settle (snd (dstep p d)) = act a (settle d)"
  by (rule draw_settles [OF assms])

definition busy_display :: display where
  "busy_display = snd (imageRect 0 0 2 2 ''image/jpeg'' [] (new_display 4 4))"

lemma busy_display: "queue_inv busy_display"
  by (simp add: busy_display_def imageRect_def renderQPush_def scanRenderQ_def new_display_def queue_inv_def)

theorem drawing_in_order_witness:
  "settle (snd (dstep OFlip busy_display)) = flip_now (settle busy_display)
    \<and> settle (snd (dstep (OBlit 0 0 1 1 (view_of [1, 2, 3, 255]) 0) busy_display))
      = act (ABlit 0 0 1 1 [1, 2, 3, 255]) (settle busy_display)
    \<and> settle (snd (dstep (OBlit 0 0 1 1 \<lparr>v_buf = [9, 9, 9, 9, 1, 2, 3, 255, 7], v_off = 3, v_len = 5\<rparr> 1)
        (new_display 4 4)))
      = act (ABlit 0 0 1 1 [1, 2, 3, 255]) (settle (new_display 4 4))"
proof -
  have d: "queue_inv (new_display 4 4)" "renderQ (new_display 4 4) = []"
    by (simp_all add: new_display_def queue_inv_def)
  show ?thesis
    using drawing_in_order [OF busy_display, of OFlip AFlip]
      drawing_in_order [OF busy_display, of "OBlit 0 0 1 1 (view_of [1, 2, 3, 255]) 0"]
      drawing_in_order [OF d(1),
        of "OBlit 0 0 1 1 \<lparr>v_buf = [9, 9, 9, 9, 1, 2, 3, 255, 7], v_off = 3, v_len = 5\<rparr> 1"] d(2)
    by (simp add: asked_pixels_def view_of_def)
qed

text \<open>C2. When the browser has finished every image and frame that the queue waits for, in whatever
  order and with events for others in between, and each has the size that was announced and decoded
  without an error (\<open>bad_image_freezes\<close> states the other case), the queue is empty, the calls made on the canvas are
  those of the queued actions in the order in which they were asked for, and a flush that was
  waiting is resolved exactly once.\<close>

theorem queue_drains:
  assumes "queue_inv d" "list_all is_event es"
    and "\<forall>e \<in> set es. \<forall>a \<in> set (renderQ d). event_fits e a"
    and "\<forall>a \<in> set (renderQ d). ready a \<or> (\<exists>e \<in> set es. hits e a)"
  shows "renderQ (run_events es d) = [] \<and> canvas (run_events es d) = settle d
    \<and> \<not> flushPromise (run_events es d)
    \<and> flushResolved (run_events es d) = flushResolved d + of_bool (flushPromise d)"
proof -
  let ?d = "run_events es d"
  have e: "evolved (\<lambda>a. \<exists>e \<in> set es. hits e a) d ?d"
    by (rule run_events_evolved [OF assms(2,1,3)])
  have all: "ready a" if "a \<in> set (renderQ ?d)" for a
    using e assms(4) that unfolding evolved_def by blast
  have empty: "renderQ ?d = []"
  proof (rule ccontr)
    assume "renderQ ?d \<noteq> []"
    moreover then have "waits (hd (renderQ ?d))"
      using e by (simp add: evolved_def queue_inv_def)
    ultimately show False
      using all waits_not_ready by (metis list.set_sel(1))
  qed
  then have "settle ?d = canvas ?d" "\<not> flushPromise ?d"
    using e by (auto simp: settle_def evolved_def queue_inv_def)
  then show ?thesis
    using e empty by (simp add: evolved_def)
qed

theorem queue_drains_witness:
  "renderQ (run_events [ELoad 7 1 1, ELoad 0 2 2] busy_display) = []"
  using queue_drains [OF busy_display, of "[ELoad 7 1 1, ELoad 0 2 2]"]
  by (simp add: busy_display_def imageRect_def renderQPush_def scanRenderQ_def new_display_def)

section \<open>An image that cannot be drawn\<close>

definition frozen :: "nat \<Rightarrow> display \<Rightarrow> bool" where
  "frozen i d \<longleftrightarrow> (case renderQ d of
      AImg img x y w h # q \<Rightarrow> img_id img = i \<and> complete img \<and> (img_w img \<noteq> w \<or> img_h img \<noteq> h)
    | _ \<Rightarrow> False)"

definition stays_frozen :: "nat \<Rightarrow> display \<Rightarrow> display \<Rightarrow> bool" where
  "stays_frozen i d d' \<longleftrightarrow> frozen i d' \<and> cmds d' = cmds d \<and> flushResolved d' = flushResolved d"

fun about_image :: "nat \<Rightarrow> draw_op \<Rightarrow> bool" where
  "about_image i (ELoad j w h) = (i = j)"
| "about_image i (EError j) = (i = j)"
| "about_image i _ = False"

lemma frozen_cases:
  assumes "frozen i d"
  obtains img x y w h q where "renderQ d = AImg img x y w h # q" "img_id img = i" "complete img"
    "img_w img \<noteq> w \<or> img_h img \<noteq> h"
  using assms by (auto simp: frozen_def split: list.splits action.splits)

lemma frozen_scan: "frozen i d \<Longrightarrow> scanRenderQ d = (None, d)"
  by (erule frozen_cases) (auto simp: scanRenderQ_def)

lemma frozen_scan_times: "frozen i d \<Longrightarrow> scan_times n d = (None, d)"
  by (induction n) (simp_all add: frozen_scan)

lemma frozen_append: "frozen i d \<Longrightarrow> stays_frozen i d (d\<lparr>renderQ := renderQ d @ q\<rparr>)"
  by (erule frozen_cases) (simp add: stays_frozen_def frozen_def)

lemma frozen_push: "frozen i d \<Longrightarrow> stays_frozen i d (snd (renderQPush a d))"
  by (metis frozen_append frozen_cases list.distinct(1) push_nonempty snd_conv)

lemma frozen_mark:
  assumes "frozen i d" "\<And>img x y w h. img_id img = i \<Longrightarrow> \<exists>l. f (AImg img x y w h) = AImg (img\<lparr>listening := l\<rparr>) x y w h"
  shows "stays_frozen i d (d\<lparr>renderQ := map f (renderQ d)\<rparr>)"
  using assms(1)
proof (rule frozen_cases)
  fix img x y w h q
  assume r: "renderQ d = AImg img x y w h # q" "img_id img = i" "complete img" "img_w img \<noteq> w \<or> img_h img \<noteq> h"
  obtain l where "f (AImg img x y w h) = AImg (img\<lparr>listening := l\<rparr>) x y w h"
    using assms(2) [OF r(2)] by blast
  then show ?thesis
    using r by (simp add: stays_frozen_def frozen_def)
qed

lemma stays_frozen_scan: "stays_frozen i d d' \<Longrightarrow> scanRenderQ d' = (None, d')"
  by (auto simp: stays_frozen_def frozen_scan)

lemma keep_listening: "img = img\<lparr>listening := listening img\<rparr>"
  by simp

lemma dstep_frozen:
  assumes "frozen i d" "\<not> about_image i p"
  shows "stays_frozen i d (snd (dstep p d))"
proof -
  have ne: "renderQ d \<noteq> []"
    using assms(1) by (auto simp: frozen_def)
  have same: "stays_frozen i d d"
    using assms(1) by (simp add: stays_frozen_def)
  show ?thesis
  proof (cases p)
    case (OBlit x y w h arr off)
    then show ?thesis
      using assms(1) ne same by (auto simp: blitImage_def frozen_push)
  next
    case (OImage x y w h mime arr)
    have "frozen i (d\<lparr>next_id := Suc (next_id d)\<rparr>)"
      using assms(1) by (simp add: frozen_def)
    from frozen_push [OF this] show ?thesis
      using OImage same by (simp add: imageRect_def Let_def stays_frozen_def)
  next
    case OFlush
    then show ?thesis
      using assms(1) ne by (auto simp: display_flush_def stays_frozen_def frozen_def)
  next
    case (ELoad j w h)
    have m: "stays_frozen i d (d\<lparr>renderQ := map (finish_img j w h) (renderQ d)\<rparr>)"
      using assms(2) ELoad by (intro frozen_mark [OF assms(1)]) (auto intro: keep_listening)
    have "stays_frozen i d (d\<lparr>renderQ := map (unlisten j \<circ> finish_img j w h) (renderQ d)\<rparr>)"
      using assms(2) ELoad by (intro frozen_mark [OF assms(1)]) (auto intro: keep_listening)
    then show ?thesis
      using ELoad m stays_frozen_scan by (simp add: image_load_def resumeRenderQ_def Let_def)
  next
    case (EFrame j w h)
    have m: "stays_frozen i d (d\<lparr>renderQ := map (finish_frame j w h) (renderQ d)\<rparr>)"
      using assms(2) EFrame by (intro frozen_mark [OF assms(1)]) (auto intro: keep_listening)
    then show ?thesis
      using EFrame frozen_scan_times by (auto simp: frame_ready_def stays_frozen_def)
  next
    case (EError j)
    then show ?thesis
      using assms(2) unfolding EError by (auto simp: image_error_def intro!: frozen_mark [OF assms(1)] keep_listening)
  qed (use assms(1) ne in \<open>auto simp: flip_def fillRect_def copyImage_def videoFrame_def frozen_push\<close>)
qed

lemma run_frozen:
  "frozen i d \<Longrightarrow> list_all (\<lambda>p. \<not> about_image i p) ps \<Longrightarrow> stays_frozen i d (fold (\<lambda>p d. snd (dstep p d)) ps d)"
proof (induction ps arbitrary: d)
  case Nil
  then show ?case by (simp add: stays_frozen_def)
next
  case (Cons p ps)
  have "stays_frozen i d (snd (dstep p d))"
    using dstep_frozen Cons.prems by simp
  then show ?case
    using Cons.IH [of "snd (dstep p d)"] Cons.prems by (simp add: stays_frozen_def)
qed

text \<open>C40. An image that turns out broken, or has another size than its rectangle, stops the display
  for ever: once it is at the head of the queue and its event has come, no operation and no
  event for another image or frame draws anything again or resolves a flush.\<close>

theorem bad_image_freezes:
  assumes "queue_inv d" "renderQ d = AImg img x y w h # q"
    and "e = EError (img_id img) \<and> \<not> (w = 0 \<and> h = 0) \<or> e = ELoad (img_id img) w' h' \<and> (w', h') \<noteq> (w, h)"
    and "list_all (\<lambda>p. \<not> about_image (img_id img) p) ps"
  shows "let d' = fold (\<lambda>p d. snd (dstep p d)) (e # ps) d
    in renderQ d' \<noteq> [] \<and> cmds d' = cmds d \<and> flushResolved d' = flushResolved d"
proof -
  have l: "listening img"
    using assms(1,2) by (simp add: queue_inv_def)
  have "stays_frozen (img_id img) d (snd (dstep e d))"
    using assms(2,3) l
    by (auto simp: image_error_def image_load_def resumeRenderQ_def scanRenderQ_def stays_frozen_def
        frozen_def Let_def)
  moreover have "stays_frozen (img_id img) (snd (dstep e d)) (fold (\<lambda>p d. snd (dstep p d)) ps (snd (dstep e d)))"
    using calculation assms(4) run_frozen [of "img_id img" "snd (dstep e d)" ps]
    by (simp add: stays_frozen_def)
  ultimately show ?thesis
    by (auto simp: stays_frozen_def Let_def frozen_def)
qed

theorem bad_image_freezes_witness:
  "renderQ (fold (\<lambda>p d. snd (dstep p d)) [EError 0, OFlip, OFill 0 0 1 1 [0, 0, 0]] busy_display) \<noteq> []"
proof -
  obtain img q where "renderQ busy_display = AImg img 0 0 2 2 # q" "img_id img = 0"
    by (simp add: busy_display_def imageRect_def renderQPush_def scanRenderQ_def new_display_def)
  then show ?thesis
    using bad_image_freezes [OF busy_display, of img 0 0 2 2 q "EError 0" 0 0 "[OFlip, OFill 0 0 1 1 [0, 0, 0]]"]
    by (simp add: Let_def)
qed

text \<open>A picture given as a view into a larger array is drawn from the view while nothing is
  queued, and from the start of the whole array while something is: the pixels on the screen depend
  on whether an image is being decoded.\<close>

theorem blit_of_a_view:
  assumes "0 < w * h" "v_off arr + nat (w * h * 4) \<le> length (v_buf arr)"
  shows "blitImage x y w h arr 0 d =
    Inr (if renderQ d = []
         then act (ABlit x y w h (take (nat (w * h * 4)) (drop (v_off arr) (v_buf arr)))) d
         else d\<lparr>renderQ := renderQ d @ [ABlit x y w h (take (nat (w * h * 4)) (v_buf arr))]\<rparr>)"
proof -
  have "\<not> w * h * 4 < 0" "nat (w * h * 4) \<noteq> 0"
    using assms(1) by linarith+
  then show ?thesis
    using assms(2) by (simp add: blitImage_def blit_now_def push_nonempty Let_def)
qed

theorem blit_of_a_view_witness:
  "blitImage 0 0 1 1 \<lparr>v_buf = [9, 9, 9, 9, 1, 2, 3, 255], v_off = 4, v_len = 4\<rparr> 0 (new_display 4 4) =
     Inr (act (ABlit 0 0 1 1 [1, 2, 3, 255]) (new_display 4 4))
   \<and> blitImage 0 0 1 1 \<lparr>v_buf = [9, 9, 9, 9, 1, 2, 3, 255], v_off = 4, v_len = 4\<rparr> 0 busy_display =
     Inr (busy_display\<lparr>renderQ := renderQ busy_display @ [ABlit 0 0 1 1 [9, 9, 9, 9]]\<rparr>)"
proof -
  have "renderQ (new_display 4 4) = []" "renderQ busy_display \<noteq> []"
    by (simp_all add: busy_display_def imageRect_def renderQPush_def scanRenderQ_def new_display_def)
  then show ?thesis
    using blit_of_a_view [of 1 1 "\<lparr>v_buf = [9, 9, 9, 9, 1, 2, 3, 255], v_off = 4, v_len = 4\<rparr>"] by simp
qed

section \<open>The viewport\<close>

definition vp_ok :: "display \<Rightarrow> bool" where
  "vp_ok d \<longleftrightarrow> 0 \<le> vp_x d \<and> 0 \<le> vp_y d \<and> 0 \<le> vp_w d \<and> 0 \<le> vp_h d
     \<and> vp_x d + vp_w d \<le> fbWidth d \<and> vp_y d + vp_h d \<le> fbHeight d"

text \<open>The part of it that a new size keeps; a move brings the rest back.\<close>

definition vp_sized :: "display \<Rightarrow> bool" where
  "vp_sized d \<longleftrightarrow> 0 \<le> vp_x d \<and> 0 \<le> vp_y d \<and> 0 \<le> vp_w d \<and> 0 \<le> vp_h d
     \<and> vp_w d \<le> fbWidth d \<and> vp_h d \<le> fbHeight d"

lemma vp_ok_sized: "vp_ok d \<Longrightarrow> vp_sized d"
  by (simp add: vp_ok_def vp_sized_def)

lemma flip_now_keeps [simp]:
  "vp_x (flip_now d) = vp_x d" "vp_y (flip_now d) = vp_y d" "vp_w (flip_now d) = vp_w d"
  "vp_h (flip_now d) = vp_h d" "fbWidth (flip_now d) = fbWidth d" "fbHeight (flip_now d) = fbHeight d"
  "clipViewport (flip_now d) = clipViewport d" "scale (flip_now d) = scale d"
  by (simp_all add: flip_now_def emit_def split: prod.split)

lemma flip_keeps [simp]:
  "vp_x (flip d) = vp_x d" "vp_y (flip d) = vp_y d" "vp_w (flip d) = vp_w d"
  "vp_h (flip d) = vp_h d" "fbWidth (flip d) = fbWidth d" "fbHeight (flip d) = fbHeight d"
  "clipViewport (flip d) = clipViewport d" "scale (flip d) = scale d"
  by (simp_all add: flip_def push_nonempty)

lemma damage_keeps [simp]:
  "vp_x (damage x y w h d) = vp_x d" "vp_y (damage x y w h d) = vp_y d" "vp_w (damage x y w h d) = vp_w d"
  "vp_h (damage x y w h d) = vp_h d" "fbWidth (damage x y w h d) = fbWidth d"
  "fbHeight (damage x y w h d) = fbHeight d" "clipViewport (damage x y w h d) = clipViewport d"
  "scale (damage x y w h d) = scale d"
  by (simp_all add: damage_def)

lemma emit_keeps [simp]:
  "vp_x (emit c d) = vp_x d" "vp_y (emit c d) = vp_y d" "vp_w (emit c d) = vp_w d"
  "vp_h (emit c d) = vp_h d" "fbWidth (emit c d) = fbWidth d" "fbHeight (emit c d) = fbHeight d"
  "clipViewport (emit c d) = clipViewport d" "scale (emit c d) = scale d"
  by (simp_all add: emit_def)

lemma rescale_keeps [simp]:
  "vp_x (rescale f d) = vp_x d" "vp_y (rescale f d) = vp_y d" "vp_w (rescale f d) = vp_w d"
  "vp_h (rescale f d) = vp_h d" "fbWidth (rescale f d) = fbWidth d" "fbHeight (rescale f d) = fbHeight d"
  "clipViewport (rescale f d) = clipViewport d" "scale (rescale f d) = f"
  by (simp_all add: rescale_def Let_def)

text \<open>Where a move by \<open>delta\<close> ends: the nearest position that is inside.\<close>

definition clamped :: "int \<Rightarrow> int \<Rightarrow> int \<Rightarrow> int" where
  "clamped len fb pos = min (fb - len) (max 0 pos)"

lemma changePos_result:
  assumes "vp_sized d"
  shows "vp_x (viewportChangePos dX dY d) =
      clamped (vp_w d) (fbWidth d) (vp_x d + (if clipViewport d then \<lfloor>dX\<rfloor> else - vp_w d))"
    and "vp_y (viewportChangePos dX dY d) =
      clamped (vp_h d) (fbHeight d) (vp_y d + (if clipViewport d then \<lfloor>dY\<rfloor> else - vp_h d))"
proof -
  have move: "p + clamp_move p l fb e = clamped l fb (p + e)" for p l fb e
    by (simp add: clamp_move_def clamped_def Let_def)
  have move': "p + (let e = (if e < 0 \<and> p + e < 0 then - p else e) in
      if p + l - 1 + e \<ge> fb then e - (p + l - 1 + e - fb + 1) else e) = clamped l fb (p + e)"
    if "0 \<le> p" for p l fb e
    using that by (auto simp: clamped_def Let_def min_def max_def)
  have x0: "0 \<le> vp_x d"
    using assms by (simp add: vp_sized_def)
  let ?X = "if clipViewport d then \<lfloor>dX\<rfloor> else - vp_w d"
  let ?Y = "if clipViewport d then \<lfloor>dY\<rfloor> else - vp_h d"
  define mx where "mx = (let e = (if ?X < 0 \<and> vp_x d + ?X < 0 then - vp_x d else ?X) in
      if vp_x d + vp_w d - 1 + e \<ge> fbWidth d then e - (vp_x d + vp_w d - 1 + e - fbWidth d + 1) else e)"
  define my where "my = clamp_move (vp_y d) (vp_h d) (fbHeight d) ?Y"
  define d2 where "d2 = d\<lparr>vp_x := vp_x d + mx, vp_y := vp_y d + my\<rparr>"
  have eq: "viewportChangePos dX dY d =
      (if mx = 0 \<and> my = 0 then d else flip (damage (vp_x d2) (vp_y d2) (vp_w d2) (vp_h d2) d2))"
    unfolding viewportChangePos_def mx_def my_def d2_def Let_def by (rule refl)
  have v: "vp_x (viewportChangePos dX dY d) = vp_x d + mx" "vp_y (viewportChangePos dX dY d) = vp_y d + my"
    unfolding eq by (simp_all add: d2_def)
  show "vp_x (viewportChangePos dX dY d) = clamped (vp_w d) (fbWidth d) (vp_x d + ?X)"
    unfolding v mx_def by (rule move' [OF x0])
  show "vp_y (viewportChangePos dX dY d) = clamped (vp_h d) (fbHeight d) (vp_y d + ?Y)"
    unfolding v my_def by (rule move)
qed

lemma changePos_keeps [simp]:
  "vp_w (viewportChangePos dX dY d) = vp_w d" "vp_h (viewportChangePos dX dY d) = vp_h d"
  "fbWidth (viewportChangePos dX dY d) = fbWidth d" "fbHeight (viewportChangePos dX dY d) = fbHeight d"
  "clipViewport (viewportChangePos dX dY d) = clipViewport d" "scale (viewportChangePos dX dY d) = scale d"
  unfolding viewportChangePos_def Let_def by simp_all

lemma clamped_range: "len \<le> fb \<Longrightarrow> 0 \<le> clamped len fb p \<and> clamped len fb p + len \<le> fb"
  by (auto simp: clamped_def min_def max_def)

lemma changePos_ok:
  assumes "vp_sized d"
  shows "vp_ok (viewportChangePos dX dY d)"
  using assms clamped_range unfolding vp_ok_def changePos_result [OF assms] changePos_keeps
  by (simp add: vp_sized_def)

definition new_size :: "(rat \<times> rat) option \<Rightarrow> display \<Rightarrow> int \<times> int" where
  "new_size sz d =
     (case sz of Some (w, h) \<Rightarrow>
        if clipViewport d then (min (fbWidth d) \<lfloor>w\<rfloor>, min (fbHeight d) \<lfloor>h\<rfloor>) else (fbWidth d, fbHeight d)
      | None \<Rightarrow> (fbWidth d, fbHeight d))"

lemma changeSize_unfold:
  "viewportChangeSize sz d =
     (case new_size sz d of (width, height) \<Rightarrow>
      if vp_w d \<noteq> width \<or> vp_h d \<noteq> height then
        let d = viewportChangePos 0 0 (emit (TargetSize width height) (d\<lparr>vp_w := width, vp_h := height\<rparr>))
        in rescale (scale d) (flip (damage (vp_x d) (vp_y d) (vp_w d) (vp_h d) d))
      else d)"
  by (auto simp: viewportChangeSize_def new_size_def Let_def split: option.split)

lemma changeSize_keeps [simp]:
  "fbWidth (viewportChangeSize sz d) = fbWidth d" "fbHeight (viewportChangeSize sz d) = fbHeight d"
  "clipViewport (viewportChangeSize sz d) = clipViewport d"
  by (simp_all add: changeSize_unfold Let_def split: prod.split)

lemma changeSize_size:
  "(vp_w (viewportChangeSize sz d), vp_h (viewportChangeSize sz d)) = new_size sz d"
  by (auto simp: changeSize_unfold Let_def split: prod.split)

definition size_nonneg :: "(rat \<times> rat) option \<Rightarrow> bool" where
  "size_nonneg sz = (case sz of None \<Rightarrow> True | Some (w, h) \<Rightarrow> 0 \<le> w \<and> 0 \<le> h)"

lemma new_size_range:
  assumes "size_nonneg sz" "0 \<le> fbWidth d" "0 \<le> fbHeight d" "new_size sz d = (w, h)"
  shows "0 \<le> w \<and> w \<le> fbWidth d \<and> 0 \<le> h \<and> h \<le> fbHeight d"
  using assms by (auto simp: new_size_def size_nonneg_def split: option.splits if_splits)

lemma changeSize_sized:
  assumes "size_nonneg sz" "0 \<le> fbWidth d" "0 \<le> fbHeight d" "0 \<le> vp_x d" "0 \<le> vp_y d"
  shows "vp_sized (viewportChangeSize sz d)"
    and "vp_ok d \<Longrightarrow> vp_ok (viewportChangeSize sz d)"
proof -
  obtain w h where n: "new_size sz d = (w, h)"
    by fastforce
  note r = new_size_range [OF assms(1-3) n]
  let ?d1 = "emit (TargetSize w h) (d\<lparr>vp_w := w, vp_h := h\<rparr>)"
  have "vp_sized ?d1"
    using r assms by (simp add: vp_sized_def)
  then have ok: "vp_ok (viewportChangePos 0 0 ?d1)"
    by (rule changePos_ok)
  have eq: "viewportChangeSize sz d =
      (if vp_w d \<noteq> w \<or> vp_h d \<noteq> h then
        (let d = viewportChangePos 0 0 ?d1
         in rescale (scale d) (flip (damage (vp_x d) (vp_y d) (vp_w d) (vp_h d) d)))
      else d)"
    by (simp add: changeSize_unfold n)
  have changed: "vp_ok (viewportChangeSize sz d)" if "vp_w d \<noteq> w \<or> vp_h d \<noteq> h"
    using that ok unfolding eq by (simp add: vp_ok_def Let_def)
  then show "vp_sized (viewportChangeSize sz d)"
    using r assms vp_ok_sized by (cases "vp_w d \<noteq> w \<or> vp_h d \<noteq> h") (auto simp: eq vp_sized_def)
  show "vp_ok (viewportChangeSize sz d)" if "vp_ok d"
    using changed that by (cases "vp_w d \<noteq> w \<or> vp_h d \<noteq> h") (auto simp: eq)
qed

datatype view_op =
    Move rat rat
  | Size "(rat \<times> rat) option"
  | Clip bool
  | Resize int int
  | Rescale "rat option"
  | Autoscale rat rat

fun view_step :: "view_op \<Rightarrow> display \<Rightarrow> display" where
  "view_step (Move dX dY) d = viewportChangePos dX dY d"
| "view_step (Size sz) d = viewportChangeSize sz d"
| "view_step (Clip b) d = set_clipViewport b d"
| "view_step (Resize w h) d = resize w h d"
| "view_step (Rescale f) d = rescale f d"
| "view_step (Autoscale w h) d = autoscale w h d"

fun view_nonneg :: "view_op \<Rightarrow> bool" where
  "view_nonneg (Size sz) = size_nonneg sz"
| "view_nonneg (Resize w h) = (0 \<le> w \<and> 0 \<le> h)"
| "view_nonneg _ = True"

lemma resize_ok:
  assumes "vp_ok d" "0 \<le> w" "0 \<le> h"
  shows "vp_ok (resize w h d)"
proof -
  define d1 where "d1 = d\<lparr>prevDrawStyle := None, fbWidth := w, fbHeight := h\<rparr>"
  define d2 where "d2 = (if back_w d1 \<noteq> w \<or> back_h d1 \<noteq> h
      then (emit (BackSize w h (back_w d1 > 0 \<and> back_h d1 > 0)) d1)\<lparr>back_w := w, back_h := h\<rparr> else d1)"
  have f: "fbWidth d2 = w" "fbHeight d2 = h" "vp_x d2 = vp_x d" "vp_y d2 = vp_y d" "vp_w d2 = vp_w d"
    "vp_h d2 = vp_h d"
    by (simp_all add: d2_def d1_def)
  have "resize w h d = viewportChangePos 0 0 (viewportChangeSize (Some (of_int (vp_w d2), of_int (vp_h d2))) d2)"
    by (simp add: resize_def Let_def d1_def d2_def)
  moreover have "vp_sized (viewportChangeSize (Some (of_int (vp_w d2), of_int (vp_h d2))) d2)"
    by (rule changeSize_sized(1)) (use assms in \<open>simp_all add: f vp_ok_def size_nonneg_def\<close>)
  ultimately show ?thesis
    using changePos_ok by simp
qed

text \<open>C27. The viewport stays inside the frame buffer: whatever is done to its position, its size,
  clipping, the scale or the size of the frame buffer itself, it never reaches over an edge; and a
  move with clipping ends at the position asked for, or the nearest one that is inside.\<close>

theorem viewport_inside:
  assumes "vp_ok d" "list_all view_nonneg ps"
  shows "vp_ok (fold view_step ps d) \<and>
    (clipViewport d \<longrightarrow> vp_x (viewportChangePos dX dY d) = clamped (vp_w d) (fbWidth d) (vp_x d + \<lfloor>dX\<rfloor>)
       \<and> vp_y (viewportChangePos dX dY d) = clamped (vp_h d) (fbHeight d) (vp_y d + \<lfloor>dY\<rfloor>))"
proof
  have step: "vp_ok (view_step p d)" if "vp_ok d" "view_nonneg p" for p d
  proof (cases p)
    case (Clip b)
    define d1 where "d1 = d\<lparr>clipViewport := b\<rparr>"
    have "vp_ok d1"
      using that(1) by (simp add: d1_def vp_ok_def)
    then have "vp_sized (viewportChangeSize (Some (of_int (vp_w d1), of_int (vp_h d1))) d1)"
      by (intro changeSize_sized(1)) (simp_all add: vp_ok_def size_nonneg_def)
    then show ?thesis
      using changePos_ok by (simp add: Clip set_clipViewport_def Let_def d1_def)
  next
    case (Size sz)
    then show ?thesis
      using changeSize_sized(2) [of sz d] that by (simp add: vp_ok_def)
  next
    case (Autoscale w h)
    then show ?thesis
      using that by (simp add: autoscale_def Let_def vp_ok_def)
  next
    case (Move dX dY)
    then show ?thesis
      using changePos_ok [OF vp_ok_sized [OF that(1)]] by simp
  next
    case (Resize w h)
    then show ?thesis
      using resize_ok [OF that(1)] that(2) by simp
  next
    case (Rescale f)
    then show ?thesis
      using that(1) by (simp add: vp_ok_def)
  qed
  show "vp_ok (fold view_step ps d)"
    using assms by (induction ps arbitrary: d) (simp_all add: step)
  show "clipViewport d \<longrightarrow> vp_x (viewportChangePos dX dY d) = clamped (vp_w d) (fbWidth d) (vp_x d + \<lfloor>dX\<rfloor>)
       \<and> vp_y (viewportChangePos dX dY d) = clamped (vp_h d) (fbHeight d) (vp_y d + \<lfloor>dY\<rfloor>)"
    using changePos_result [OF vp_ok_sized [OF assms(1)], of dX dY] by simp
qed

theorem viewport_inside_witness:
  "vp_ok (fold view_step [Resize 800 600, Clip True, Size (Some (100, 100)), Move 750 20] (new_display 0 0))"
  using viewport_inside [of "new_display 0 0" "[Resize 800 600, Clip True, Size (Some (100, 100)), Move 750 20]" 0 0]
  by (simp add: new_display_def vp_ok_def size_nonneg_def)

text \<open>\<open>flip\<close> copies exactly the damaged part of the viewport: a pixel is in the rectangle it
  copies if and only if it is in the damaged bounds and in the viewport, and it lands at its
  position relative to the viewport.\<close>

theorem flip_copies_damage:
  "case flip_rect d of (x, y, w, h, vx, vy) \<Rightarrow>
     ((x \<le> px \<and> px < x + w \<and> y \<le> py \<and> py < y + h) =
      (dmg_left d \<le> px \<and> px < dmg_right d \<and> vp_x d \<le> px \<and> px < vp_x d + vp_w d
       \<and> dmg_top d \<le> py \<and> py < dmg_bottom d \<and> vp_y d \<le> py \<and> py < vp_y d + vp_h d))
     \<and> x - vx = vp_x d \<and> y - vy = vp_y d"
proof -
  have "flip_rect d = (max (dmg_left d) (vp_x d), max (dmg_top d) (vp_y d),
      min (dmg_right d) (vp_x d + vp_w d) - max (dmg_left d) (vp_x d),
      min (dmg_bottom d) (vp_y d + vp_h d) - max (dmg_top d) (vp_y d),
      max (dmg_left d) (vp_x d) - vp_x d, max (dmg_top d) (vp_y d) - vp_y d)"
    by (simp add: flip_rect_def Let_def max_def min_def)
  then show ?thesis
    by auto
qed

text \<open>A point inside the scaled viewport is translated to the pixel under it: with a positive
  scale \<open>s\<close>, the frame buffer's column at \<open>x\<close> is the viewport's column plus \<open>x / s\<close> rounded
  down, and it is one that the viewport shows; the same holds for rows.\<close>

theorem abs_inside_viewport:
  assumes "vp_ok d" "fbWidth d < 2 ^ 31" "fbHeight d < 2 ^ 31" "scale d = Some f" "0 < f"
    and "0 \<le> x" "x < f * of_int (vp_w d)" "0 \<le> y" "y < f * of_int (vp_h d)"
  shows "absX x d = vp_x d + \<lfloor>x / f\<rfloor> \<and> vp_x d \<le> absX x d \<and> absX x d < vp_x d + vp_w d
    \<and> absY y d = vp_y d + \<lfloor>y / f\<rfloor> \<and> vp_y d \<le> absY y d \<and> absY y d < vp_y d + vp_h d"
proof -
  have coord: "abs_coord (Some f) p q = p + \<lfloor>q / f\<rfloor> \<and> p \<le> p + \<lfloor>q / f\<rfloor> \<and> p + \<lfloor>q / f\<rfloor> < p + l"
    if "0 \<le> p" "0 \<le> q" "q < f * of_int l" "p + l \<le> fb" "fb < 2 ^ 31" for p q l fb
  proof -
    have "0 \<le> q / f" "q / f < of_int l"
      using that \<open>0 < f\<close> by (simp_all add: field_simps)
    then have b: "0 \<le> \<lfloor>q / f\<rfloor>" "\<lfloor>q / f\<rfloor> < l"
      by (simp_all add: floor_less_iff)
    have "\<not> q / f + of_int p < 0"
      using \<open>0 \<le> q / f\<close> that(1) by (simp add: add_nonneg_nonneg not_less)
    then have "truncate_rat (q / f + of_int p) = \<lfloor>q / f\<rfloor> + p"
      by (simp add: truncate_rat_def)
    moreover have "to_int32 (\<lfloor>q / f\<rfloor> + p) = \<lfloor>q / f\<rfloor> + p"
      using b that by (intro to_int32_small) linarith+
    ultimately show ?thesis
      using b \<open>0 < f\<close> by (simp add: abs_coord_def add.commute)
  qed
  show ?thesis
    using coord [of "vp_x d" x "vp_w d" "fbWidth d"] coord [of "vp_y d" y "vp_h d" "fbHeight d"] assms
    by (simp add: absX_def absY_def vp_ok_def)
qed

theorem abs_inside_viewport_witness:
  "absX 4 ((new_display 4 4)\<lparr>fbWidth := 8, fbHeight := 8, vp_x := 2, scale := Some 2\<rparr>) = 4"
  using abs_inside_viewport [of "(new_display 4 4)\<lparr>fbWidth := 8, fbHeight := 8, vp_x := 2, scale := Some 2\<rparr>" 2 4 0]
  by (simp add: vp_ok_def new_display_def)

text \<open>Automatic scaling fits the viewport into its container: neither side is exceeded and one
  of them is filled exactly.\<close>

theorem autoscale_fits:
  assumes "0 < vp_w d" "0 < vp_h d" "0 < w" "0 < h"
  shows "\<exists>f. scale (autoscale w h d) = Some f \<and> 0 < f \<and> f * of_int (vp_w d) \<le> w \<and> f * of_int (vp_h d) \<le> h
    \<and> (f * of_int (vp_w d) = w \<or> f * of_int (vp_h d) = h)"
proof (cases "of_int (vp_w d) / of_int (vp_h d) \<ge> w / h")
  case True
  then have "scale (autoscale w h d) = Some (w / of_int (vp_w d))"
    using assms by (simp add: autoscale_def div_or_inf_def Let_def)
  moreover have "w * of_int (vp_h d) \<le> h * of_int (vp_w d)"
    using True assms by (simp add: field_simps)
  ultimately show ?thesis
    using assms by (intro exI [of _ "w / of_int (vp_w d)"]) (simp add: field_simps)
next
  case False
  then have "scale (autoscale w h d) = Some (h / of_int (vp_h d))"
    using assms by (simp add: autoscale_def div_or_inf_def Let_def)
  moreover have "h * of_int (vp_w d) \<le> w * of_int (vp_h d)"
    using False assms by (simp add: field_simps)
  ultimately show ?thesis
    using assms by (intro exI [of _ "h / of_int (vp_h d)"]) (simp add: field_simps)
qed

theorem autoscale_fits_witness:
  "\<exists>f. scale (autoscale 400 400 (new_display 800 600)) = Some f \<and> f * 800 \<le> 400"
  using autoscale_fits [of "new_display 800 600" 400 400] by (auto simp: new_display_def)

end
