(* ===== verification/Resumable.thy ===== *)
theory Resumable
  imports Websock
begin

text \<open>
  The contract that \<open>RFB._framebufferUpdate\<close> relies on when it calls \<open>decodeRect\<close> of a decoder
  again and again: a call that returns false has only been interrupted.

  A decoder is a function from its own state, the socket and the display to the outcome (true:
  the rectangle is done, false: more data are needed, or an exception) and the new states.
\<close>

type_synonym ('d, 'p) decoded = "(js_error + bool) \<times> 'd \<times> websock \<times> 'p"

section \<open>The contract\<close>

text \<open>
  \<open>spec\<close> is what the decoder does as a function of the bytes that are unread.  The law of
  resumption: when more bytes arrive behind \<open>u\<close>, the work done on \<open>u\<close> alone stands, and is
  continued where it stopped if it had been interrupted.
\<close>

type_synonym ('d, 'p) decoded_bytes = "(js_error + bool) \<times> 'd \<times> byte list \<times> 'p"

definition resume ::
    "('d \<Rightarrow> byte list \<Rightarrow> 'p \<Rightarrow> ('d, 'p) decoded_bytes) \<Rightarrow> ('d, 'p) decoded_bytes \<Rightarrow> byte list \<Rightarrow>
     ('d, 'p) decoded_bytes" where
  "resume spec res bs = (case res of (r, d, u, p) \<Rightarrow>
     if r = Inr False then spec d (u @ bs) p else (r, d, u @ bs, p))"

text \<open>Calls of a decoder, one after each message that arrives while the rectangle is not done.\<close>

fun feed ::
    "('d \<Rightarrow> websock \<Rightarrow> 'p \<Rightarrow> ('d, 'p) decoded) \<Rightarrow> byte list list \<Rightarrow> 'd \<Rightarrow> websock \<Rightarrow> 'p \<Rightarrow> ('d, 'p) decoded" where
  "feed dec [] d s p = dec d s p"
| "feed dec (bs # bss) d s p =
     (case dec d s p of (r, d', s', p') \<Rightarrow>
        if r = Inr False then feed dec bss d' (recv_only bs s') p'
        else (r, d', fold recv_only (bs # bss) s', p'))"

locale resumable =
  fixes dec :: "'d \<Rightarrow> websock \<Rightarrow> 'p \<Rightarrow> ('d, 'p) decoded"
    and spec :: "'d \<Rightarrow> byte list \<Rightarrow> 'p \<Rightarrow> ('d, 'p) decoded_bytes"
    and ok :: "'d \<Rightarrow> 'p \<Rightarrow> bool"
  assumes dec_spec:
      "ok d p \<Longrightarrow> rq_wf s \<Longrightarrow> dec d s p = (r, d', s', p') \<Longrightarrow>
         rq_wf s' \<and> spec d (unread s) p = (r, d', unread s', p')"
    and spec_ok:
      "ok d p \<Longrightarrow> spec d u p = (Inr False, d', u', p') \<Longrightarrow> ok d' p'"
    and spec_length:
      "ok d p \<Longrightarrow> spec d u p = (r, d', u', p') \<Longrightarrow> length u' \<le> length u"
    and spec_append:
      "ok d p \<Longrightarrow> spec d (u @ bs) p = resume spec (spec d u p) bs"
begin

lemma fold_recv:
  assumes "rq_wf s" "length (unread s) + length (concat bss) \<le> MAX_RQ_GROW_SIZE"
  shows "rq_wf (fold recv_only bss s) \<and> unread (fold recv_only bss s) = unread s @ concat bss"
  using assms
proof (induction bss arbitrary: s)
  case (Cons bs bss)
  have a: "accepts bs s"
    using Cons.prems by (simp add: accepts_def)
  show ?case
    using Cons.IH [OF rq.recv_inv [OF Cons.prems(1) a]] Cons.prems rq.recv_content [OF Cons.prems(1) a]
    by simp
qed simp

text \<open>
  The rectangle does not depend on how its data are cut into messages: the calls end with the
  outcome and the states that the whole stream of bytes prescribes.
\<close>

lemma feed_spec:
  "ok d p \<Longrightarrow> rq_wf s \<Longrightarrow> length (unread s) + length (concat bss) \<le> MAX_RQ_GROW_SIZE \<Longrightarrow>
     feed dec bss d s p = (r, d', s', p') \<Longrightarrow>
     rq_wf s' \<and> spec d (unread s @ concat bss) p = (r, d', unread s', p')"
proof (induction bss arbitrary: d s p)
  case Nil
  then show ?case
    using dec_spec [OF Nil.prems(1,2), of r d' s' p'] by simp
next
  case (Cons bs bss)
  obtain r1 d1 s1 p1 where dec: "dec d s p = (r1, d1, s1, p1)"
    by (cases "dec d s p")
  have wf1: "rq_wf s1" and sp: "spec d (unread s) p = (r1, d1, unread s1, p1)"
    using dec_spec [OF Cons.prems(1,2) dec] by auto
  have fits: "length (unread s1) + length (concat (bs # bss)) \<le> MAX_RQ_GROW_SIZE"
    using spec_length [OF Cons.prems(1) sp] Cons.prems(3) by linarith
  have whole: "spec d (unread s @ concat (bs # bss)) p =
      (if r1 = Inr False then spec d1 (unread s1 @ concat (bs # bss)) p1
       else (r1, d1, unread s1 @ concat (bs # bss), p1))"
    using spec_append [OF Cons.prems(1), of "unread s" "concat (bs # bss)"] by (simp add: sp resume_def)
  show ?case
  proof (cases "r1 = Inr False")
    case True
    have a: "accepts bs s1"
      using fits by (simp add: accepts_def)
    have u: "unread (recv_only bs s1) = unread s1 @ bs"
      by (rule rq.recv_content [OF wf1 a])
    have "feed dec bss d1 (recv_only bs s1) p1 = (r, d', s', p')"
      using Cons.prems(4) dec True by simp
    then have "rq_wf s' \<and> spec d1 (unread (recv_only bs s1) @ concat bss) p1 = (r, d', unread s', p')"
      using Cons.IH [OF spec_ok [OF Cons.prems(1) sp [unfolded True]] rq.recv_inv [OF wf1 a]] fits u by simp
    then show ?thesis
      using True whole u by simp
  next
    case False
    then show ?thesis
      using Cons.prems(4) dec whole fold_recv [OF wf1 fits] by auto
  qed
qed

text \<open>In particular all that matters is the stream: two ways of cutting it give the same.\<close>

lemma feed_same:
  assumes "ok d p" "rq_wf s" "length (unread s) + length (concat bss) \<le> MAX_RQ_GROW_SIZE"
    and "concat bss = concat css"
    and "feed dec bss d s p = (r, d', s', p')" "feed dec css d s p = (r2, d2, s2, p2)"
  shows "r = r2 \<and> d' = d2 \<and> p' = p2 \<and> unread s' = unread s2"
  using feed_spec [OF assms(1-3) assms(5)] feed_spec [OF assms(1,2) _ assms(6)] assms(3,4) by simp

end

end
