(* ===== verification/DecBasic.thy ===== *)
theory DecBasic
  imports Resumable Display
begin

text \<open>
  Model of the decoders for the raw, CopyRect and RRE encodings: \<open>core/decoders/raw.js\<close>,
  \<open>copyrect.js\<close> and \<open>rre.js\<close>.  The state of a decoder is what its object keeps between two
  calls of \<open>decodeRect\<close>: the lines or subrectangles that are left.
\<close>

section \<open>Views and pixels\<close>

text \<open>
  "Make sure the image is fully opaque": the loop that sets every fourth byte of an array to
  255.  The array may be a view, and then the assignment goes to the buffer behind it; an
  assignment behind the end of the view does nothing.
\<close>

definition set_alpha :: "nat \<Rightarrow> u8view \<Rightarrow> u8view" where
  "set_alpha n v = v\<lparr>v_buf := fold (\<lambda>i buf. if i * 4 + 3 < v_len v then buf[v_off v + i * 4 + 3 := 255] else buf)
     [0..<n] (v_buf v)\<rparr>"

definition opaque :: "nat \<Rightarrow> byte list \<Rightarrow> byte list" where
  "opaque n bs = fold (\<lambda>i bs. if i * 4 + 3 < length bs then bs[i * 4 + 3 := 255] else bs) [0..<n] bs"

definition v_ok :: "u8view \<Rightarrow> bool" where
  "v_ok v \<longleftrightarrow> v_off v + v_len v \<le> length (v_buf v)"

lemma v_bytes_length: "v_ok v \<Longrightarrow> length (v_bytes v) = v_len v"
  by (simp add: v_ok_def v_bytes_def)

lemma view_of_simps [simp]: "v_ok (view_of bs)" "v_bytes (view_of bs) = bs" "v_len (view_of bs) = length bs"
  by (simp_all add: v_ok_def view_of_def v_bytes_def)

lemma fold_alpha_length:
  "length (fold (\<lambda>i buf. if i * 4 + 3 < k then buf[off + i * 4 + 3 := 255] else buf) is buf) = length buf"
  by (induction "is" arbitrary: buf) simp_all

lemma fold_alpha_drop:
  "off + k \<le> m \<Longrightarrow>
     drop m (fold (\<lambda>i buf. if i * 4 + 3 < k then buf[off + i * 4 + 3 := 255] else buf) is buf) = drop m buf"
  by (induction "is" arbitrary: buf) (simp_all add: drop_update_cancel)

lemma fold_alpha_bytes:
  "off + k \<le> length buf \<Longrightarrow>
     take k (drop off (fold (\<lambda>i buf. if i * 4 + 3 < k then buf[off + i * 4 + 3 := (255::byte)] else buf) is buf)) =
     fold (\<lambda>i bs. if i * 4 + 3 < length bs then bs[i * 4 + 3 := 255] else bs) is (take k (drop off buf))"
proof (induction "is" arbitrary: buf)
  case (Cons i "is")
  have "take k (drop off (buf[off + i * 4 + 3 := 255])) = (take k (drop off buf))[i * 4 + 3 := 255]"
    by (simp add: drop_update_swap take_update_swap)
  moreover have "length (take k (drop off buf)) = k"
    using Cons.prems by simp
  ultimately show ?case
    using Cons.IH [of "buf[off + i * 4 + 3 := 255]"] Cons.IH [of buf] Cons.prems by simp
qed simp

lemma set_alpha_simps [simp]: "v_off (set_alpha n v) = v_off v" "v_len (set_alpha n v) = v_len v"
  "v_ok (set_alpha n v) = v_ok v"
  by (simp_all add: set_alpha_def v_ok_def fold_alpha_length)

lemma set_alpha_bytes: "v_ok v \<Longrightarrow> v_bytes (set_alpha n v) = opaque n (v_bytes v)"
  by (simp add: set_alpha_def v_ok_def v_bytes_def opaque_def fold_alpha_bytes)

lemma set_alpha_rest: "v_off v + v_len v \<le> m \<Longrightarrow> drop m (v_buf (set_alpha n v)) = drop m (v_buf v)"
  by (simp add: set_alpha_def fold_alpha_drop)

lemma length_opaque [simp]: "length (opaque n bs) = length bs"
  unfolding opaque_def by (induction n) simp_all

lemma opaque_nth:
  "k < length bs \<Longrightarrow> opaque n bs ! k = (if k mod 4 = 3 \<and> k div 4 < n then 255 else bs ! k)"
proof (induction n)
  case (Suc n)
  have "opaque (Suc n) bs = (if n * 4 + 3 < length bs then (opaque n bs)[n * 4 + 3 := 255] else opaque n bs)"
    using length_opaque [of n bs] by (simp add: opaque_def)
  moreover have "k = n * 4 + 3 \<longleftrightarrow> k mod 4 = 3 \<and> k div 4 = n"
    by presburger
  ultimately show ?case
    using Suc by (auto simp: nth_list_update less_Suc_eq)
qed (simp add: opaque_def)

text \<open>
  A view that the queue handed out, after its pixels were made opaque in place: what is still
  unread is not touched.
\<close>

definition write_back :: "u8view \<Rightarrow> websock \<Rightarrow> websock" where
  "write_back v s = s\<lparr>rQ := v_buf v\<rparr>"

lemma view_opaque:
  fixes k :: nat
  assumes "rq_wf s" "n \<le> length (unread s)"
  defines "v \<equiv> set_alpha k (fst (rQshiftView n s))"
  shows "v_ok v" "v_len v = n" "v_bytes v = opaque k (take n (unread s))"
    "rq_wf (write_back v (snd (rQshiftView n s)))"
    "unread (write_back v (snd (rQshiftView n s))) = drop n (unread s)"
proof -
  let ?w = "fst (rQshiftView n s)"
  have n: "n \<le> rQlen s - rQi s" "rQi s \<le> rQlen s" "rQlen s \<le> length (rQ s)"
    using assms by (auto simp: length_unread rq_wf_def)
  have w: "v_off ?w = rQi s" "v_len ?w = n" "v_buf ?w = rQ s" "v_ok ?w"
    using n by (auto simp: rQshiftView_def v_ok_def)
  show "v_ok v" "v_len v = n" "v_bytes v = opaque k (take n (unread s))"
    using w set_alpha_bytes rQshiftView_unread(1) [OF assms(1,2)] by (simp_all add: v_def)
  have l: "length (v_buf v) = length (rQ s)"
    using w by (simp add: v_def set_alpha_def fold_alpha_length)
  have d: "drop (rQi s + n) (v_buf v) = drop (rQi s + n) (rQ s)"
    using set_alpha_rest [of ?w "rQi s + n" k] w by (simp add: v_def)
  show "rq_wf (write_back v (snd (rQshiftView n s)))"
    using assms(1) l n by (auto simp: write_back_def rQshiftView_def rq_wf_def)
  have "unread (write_back v (snd (rQshiftView n s))) = take (rQlen s - (rQi s + n)) (drop (rQi s + n) (v_buf v))"
    by (simp add: unread_def write_back_def rQshiftView_def)
  also have "\<dots> = drop n (unread s)"
    unfolding d by (simp add: unread_def drop_take add.commute)
  finally show "unread (write_back v (snd (rQshiftView n s))) = drop n (unread s)" .
qed

text \<open>While nothing is queued, \<open>blitImage\<close> of a view draws the bytes of the view.\<close>

lemma blit_direct:
  assumes "renderQ p = []" "v_ok v" "int (v_len v) = w * h * 4" "0 < w * h"
  shows "blitImage x y w h v 0 p = Inr (act (ABlit x y w h (v_bytes v)) p)"
proof -
  have "nat (w * h * 4) = v_len v" "0 < v_len v" "\<not> w * h * 4 < 0"
    using assms(3,4) by linarith+
  then show ?thesis
    using assms(1,2) by (simp add: blitImage_def blit_now_def v_ok_def v_bytes_def Let_def)
qed

section \<open>Raw\<close>

text \<open>A line of 8-bit pixels (two bits for each colour) as 32-bit pixels.\<close>

definition depth8_line :: "nat \<Rightarrow> u8view \<Rightarrow> byte list" where
  "depth8_line width data = concat (map (\<lambda>i.
     let b = js_byte (v_bytes data) i
     in [u8n ((drop_bit 0 b AND 0x3) * 255 div 3), u8n ((drop_bit 2 b AND 0x3) * 255 div 3),
         u8n ((drop_bit 4 b AND 0x3) * 255 div 3), 255]) [0..<width])"

fun raw_loop :: "int \<Rightarrow> int \<Rightarrow> nat \<Rightarrow> nat \<Rightarrow> nat \<Rightarrow> nat \<Rightarrow> websock \<Rightarrow> display \<Rightarrow> (nat, display) decoded" where
  "raw_loop x y width height depth 0 sock d = (Inr True, 0, sock, d)"
| "raw_loop x y width height depth (Suc l) sock d =
     (let pixelSize = (if depth = 8 then 1 else 4);
          bytesPerLine = width * pixelSize
      in if rQwait bytesPerLine sock then (Inr False, Suc l, sock, d)
         else
           let curY = y + (int height - int (Suc l));
               (data, sock) = rQshiftView bytesPerLine sock;
               data = set_alpha width (if depth = 8 then view_of (depth8_line width data) else data);
               sock = (if depth = 8 then sock else write_back data sock)
           in case blitImage x curY (int width) 1 data 0 d of
                Inl e \<Rightarrow> (Inl e, Suc l, sock, d)
              | Inr d \<Rightarrow> raw_loop x y width height depth l sock d)"

definition raw_decodeRect ::
    "int \<Rightarrow> int \<Rightarrow> nat \<Rightarrow> nat \<Rightarrow> nat \<Rightarrow> nat \<Rightarrow> websock \<Rightarrow> display \<Rightarrow> (nat, display) decoded" where
  "raw_decodeRect x y width height depth lines sock d =
     (if width = 0 \<or> height = 0 then (Inr True, lines, sock, d)
      else raw_loop x y width height depth (if lines = 0 then height else lines) sock d)"

text \<open>The rectangle as a function of the stream: one line of pixels after the other.\<close>

definition raw_line :: "nat \<Rightarrow> nat \<Rightarrow> byte list \<Rightarrow> byte list" where
  "raw_line width depth bs = opaque width (if depth = 8 then depth8_line width (view_of bs) else bs)"

definition line_bytes :: "nat \<Rightarrow> nat \<Rightarrow> nat" where
  "line_bytes width depth = width * (if depth = 8 then 1 else 4)"

fun raw_spec_loop :: "int \<Rightarrow> int \<Rightarrow> nat \<Rightarrow> nat \<Rightarrow> nat \<Rightarrow> nat \<Rightarrow> byte list \<Rightarrow> display \<Rightarrow> (nat, display) decoded_bytes" where
  "raw_spec_loop x y width height depth 0 u d = (Inr True, 0, u, d)"
| "raw_spec_loop x y width height depth (Suc l) u d =
     (let n = line_bytes width depth in
      if length u < n then (Inr False, Suc l, u, d)
      else raw_spec_loop x y width height depth l (drop n u)
             (act (ABlit x (y + (int height - int (Suc l))) (int width) 1 (raw_line width depth (take n u))) d))"

definition raw_spec ::
    "int \<Rightarrow> int \<Rightarrow> nat \<Rightarrow> nat \<Rightarrow> nat \<Rightarrow> nat \<Rightarrow> byte list \<Rightarrow> display \<Rightarrow> (nat, display) decoded_bytes" where
  "raw_spec x y width height depth lines u d =
     (if width = 0 \<or> height = 0 then (Inr True, lines, u, d)
      else raw_spec_loop x y width height depth (if lines = 0 then height else lines) u d)"

lemma length_depth8_line [simp]: "length (depth8_line width data) = width * 4"
  unfolding depth8_line_def by (induction width) (simp_all add: Let_def)

lemma raw_loop_spec:
  assumes "rq_wf s" "renderQ d = []" "0 < width"
  shows "case raw_loop x y width height depth l s d of (r, l', s', d') \<Rightarrow>
    rq_wf s' \<and> renderQ d' = [] \<and> raw_spec_loop x y width height depth l (unread s) d = (r, l', unread s', d')"
  using assms
proof (induction l arbitrary: s d)
  case (Suc l)
  let ?n = "line_bytes width depth"
  have n: "width * (if depth = 8 then 1 else 4) = ?n"
    by (simp add: line_bytes_def)
  show ?case
  proof (cases "length (unread s) < ?n")
    case True
    then show ?thesis
      using Suc.prems by (simp add: Let_def rQwait_iff n)
  next
    case False
    then have enough: "?n \<le> length (unread s)"
      by simp
    let ?v = "fst (rQshiftView ?n s)" and ?s1 = "snd (rQshiftView ?n s)"
    let ?data = "set_alpha width (if depth = 8 then view_of (depth8_line width ?v) else ?v)"
    let ?s2 = "if depth = 8 then ?s1 else write_back ?data ?s1"
    let ?y = "y + (int height - int (Suc l))"
    have bytes: "v_bytes ?v = take ?n (unread s)"
      by (rule rQshiftView_unread(1) [OF Suc.prems(1) enough])
    have line: "depth8_line width ?v = depth8_line width (view_of (take ?n (unread s)))"
      by (simp add: depth8_line_def bytes)
    have "v_bytes ?data = raw_line width depth (take ?n (unread s))"
      using view_opaque(3) [OF Suc.prems(1) enough, of width] line
      by (cases "depth = 8") (simp_all add: raw_line_def set_alpha_bytes)
    then have data: "v_ok ?data" "v_len ?data = width * 4"
        "v_bytes ?data = raw_line width depth (take ?n (unread s))"
      using view_opaque(1,2) [OF Suc.prems(1) enough, of width]
      by (cases "depth = 8"; simp add: line_bytes_def)+
    have s2: "rq_wf ?s2" "unread ?s2 = drop ?n (unread s)"
      using view_opaque(4,5) [OF Suc.prems(1) enough, of width] Suc.prems(1) enough
        rQshiftView_unread(2) [OF Suc.prems(1) enough]
      by (auto simp: rq_simps)
    let ?d = "act (ABlit x ?y (int width) 1 (raw_line width depth (take ?n (unread s)))) d"
    have "blitImage x ?y (int width) 1 ?data 0 d = Inr ?d"
      using blit_direct [OF Suc.prems(2) data(1), of "int width" 1 x ?y] data Suc.prems(3) by simp
    then have "raw_loop x y width height depth (Suc l) s d = raw_loop x y width height depth l ?s2 ?d"
      using False Suc.prems(1) by (simp add: Let_def rQwait_iff n split_def)
    moreover have "renderQ ?d = []"
      using Suc.prems(2) by (simp del: act.simps)
    ultimately show ?thesis
      using Suc.IH [OF s2(1) _ Suc.prems(3), of ?d] False s2(2) by (simp add: Let_def del: act.simps)
  qed
qed simp

lemma raw_spec_append:
  "raw_spec_loop x y width height depth l (u @ bs) d =
     (case raw_spec_loop x y width height depth l u d of (r, l', u', d') \<Rightarrow>
        if r = Inr False then raw_spec_loop x y width height depth l' (u' @ bs) d' else (r, l', u' @ bs, d'))"
  by (induction l arbitrary: u d) (simp_all add: Let_def del: act.simps)

lemma raw_spec_false: "raw_spec_loop x y width height depth l u d = (Inr False, l', u', d') \<Longrightarrow> 0 < l'"
  by (induction l arbitrary: u d) (auto simp: Let_def split: if_splits)

lemma raw_spec_keeps:
  "raw_spec_loop x y width height depth l u d = (r, l', u', d') \<Longrightarrow>
     length u' \<le> length u \<and> (renderQ d = [] \<longrightarrow> renderQ d' = [])"
proof (induction l arbitrary: u d)
  case (Suc l)
  show ?case
  proof (cases "length u < line_bytes width depth")
    case False
    then show ?thesis
      using Suc.prems Suc.IH [of "drop (line_bytes width depth) u"]
      by (simp add: Let_def del: act.simps) fastforce
  qed (use Suc.prems in \<open>auto simp: Let_def\<close>)
qed auto

lemma raw_append:
  "raw_spec x y width height depth l (u @ bs) d =
     resume (raw_spec x y width height depth) (raw_spec x y width height depth l u d) bs"
proof (cases "width = 0 \<or> height = 0")
  case False
  let ?l = "if l = 0 then height else l"
  obtain r l' u' d' where e: "raw_spec_loop x y width height depth ?l u d = (r, l', u', d')"
    by (cases "raw_spec_loop x y width height depth ?l u d") auto
  have "r = Inr False \<longrightarrow> l' \<noteq> 0"
    using raw_spec_false e by blast
  then show ?thesis
    using False raw_spec_append [of x y width height depth ?l u bs d]
    by (auto simp: raw_spec_def resume_def e)
qed (auto simp: raw_spec_def resume_def)

interpretation raw: resumable "raw_decodeRect x y width height depth" "raw_spec x y width height depth"
    "\<lambda>_ d. renderQ d = []" for x y width height depth
proof
  fix l s d r l' s' d' u u' bs
  show "rq_wf s' \<and> raw_spec x y width height depth l (unread s) d = (r, l', unread s', d')"
    if "renderQ d = []" "rq_wf s" "raw_decodeRect x y width height depth l s d = (r, l', s', d')"
    using raw_loop_spec [OF that(2,1), of width x y height depth "if l = 0 then height else l"] that
    by (auto simp: raw_decodeRect_def raw_spec_def split: if_splits)
  show "renderQ d' = []" if "renderQ d = []" "raw_spec x y width height depth l u d = (Inr False, l', u', d')"
    using that raw_spec_keeps by (auto simp: raw_spec_def split: if_splits)
  show "length u' \<le> length u" if "renderQ d = []" "raw_spec x y width height depth l u d = (r, l', u', d')"
    using that raw_spec_keeps by (auto simp: raw_spec_def split: if_splits)
  show "raw_spec x y width height depth l (u @ bs) d =
      resume (raw_spec x y width height depth) (raw_spec x y width height depth l u d) bs"
    by (rule raw_append)
qed

text \<open>A whole rectangle.\<close>

definition raw_draw :: "int \<Rightarrow> int \<Rightarrow> nat \<Rightarrow> nat \<Rightarrow> byte list \<Rightarrow> nat \<Rightarrow> action" where
  "raw_draw x y width depth u i =
     (let n = line_bytes width depth
      in ABlit x (y + int i) (int width) 1 (raw_line width depth (take n (drop (i * n) u))))"

lemma raw_spec_whole:
  assumes "line_bytes width depth * l \<le> length u" "l \<le> height"
  shows "raw_spec_loop x y width height depth l u d =
    (Inr True, 0, drop (line_bytes width depth * l) u,
     fold (\<lambda>i. act (raw_draw x (y + (int height - int l)) width depth u i)) [0..<l] d)"
  using assms
proof (induction l arbitrary: u d)
  case (Suc l)
  let ?n = "line_bytes width depth"
  let ?d = "act (raw_draw x (y + (int height - int (Suc l))) width depth u 0) d"
  have enough: "\<not> length u < ?n" and rest: "?n * l \<le> length (drop ?n u)"
    using Suc.prems(1) by auto
  have draw: "raw_draw x (y + (int height - int l)) width depth (drop ?n u) i =
      raw_draw x (y + (int height - int (Suc l))) width depth u (Suc i)" for i
    by (simp add: raw_draw_def Let_def add.commute algebra_simps)
  have "raw_spec_loop x y width height depth (Suc l) u d = raw_spec_loop x y width height depth l (drop ?n u) ?d"
    using enough by (simp add: Let_def raw_draw_def del: act.simps)
  also have "\<dots> = (Inr True, 0, drop (?n * l) (drop ?n u),
      fold (\<lambda>i. act (raw_draw x (y + (int height - int (Suc l))) width depth u (Suc i))) [0..<l] ?d)"
    using Suc.IH [OF rest] Suc.prems(2) by (simp add: draw)
  also have "fold (\<lambda>i. act (raw_draw x (y + (int height - int (Suc l))) width depth u (Suc i))) [0..<l] ?d =
      fold (\<lambda>i. act (raw_draw x (y + (int height - int (Suc l))) width depth u i)) [0..<Suc l] d"
    by (simp add: upt_conv_Cons map_Suc_upt [symmetric] fold_map comp_def del: upt_Suc)
  finally show ?case
    by (simp add: add.commute)
qed simp

lemma raw_line_nth:
  assumes "depth \<noteq> 8" "i < height" "k < 4 * width" "4 * width * height \<le> length u"
  shows "raw_line width depth (take (4 * width) (drop (i * (4 * width)) u)) ! k =
      (if k mod 4 = 3 then 255 else u ! (i * (4 * width) + k))"
proof -
  have "Suc i * (4 * width) \<le> height * (4 * width)"
    using assms(2) by (intro mult_le_mono1) simp
  then have i: "i * (4 * width) + 4 * width \<le> length u"
    using assms(4) by (simp add: mult.commute)
  have "k div 4 < width"
    using assms(3) by (simp add: less_mult_imp_div_less mult.commute)
  then show ?thesis
    using assms i by (simp add: raw_line_def opaque_nth)
qed

text \<open>C12. While no image or frame is queued on the display, a raw rectangle is drawn line by line from
  the bytes of the stream, however these are cut into messages, as long as they fit the receive
  queue: when all of them have arrived the decoder has returned true, has taken exactly the
  rectangle's bytes off the stream, and has put one line of pixels after the other on the canvas,
  each with the stream's colours and full opacity.  (With an image in the queue the lines are drawn
  later and from the start of the receive buffer, display.js:400: \<open>blit_of_a_view\<close>.)\<close>

theorem raw_rectangle:
  assumes "renderQ d = []" "rq_wf s" "length (unread s) + length (concat bss) \<le> MAX_RQ_GROW_SIZE"
    and "0 < width" "0 < height" "line_bytes width depth * height \<le> length (unread s @ concat bss)"
  shows "case feed (raw_decodeRect x y width height depth) bss 0 s d of (r, l, s', d') \<Rightarrow>
     r = Inr True \<and> l = 0
     \<and> unread s' = drop (line_bytes width depth * height) (unread s @ concat bss)
     \<and> d' = fold (\<lambda>i. act (raw_draw x y width depth (unread s @ concat bss) i)) [0..<height] d
     \<and> (depth \<noteq> 8 \<longrightarrow> (\<forall>i < height. \<forall>k < 4 * width.
           raw_line width depth (take (4 * width) (drop (i * (4 * width)) (unread s @ concat bss))) ! k =
           (if k mod 4 = 3 then 255 else (unread s @ concat bss) ! (i * (4 * width) + k))))"
proof -
  let ?u = "unread s @ concat bss"
  obtain r l s' d' where f: "feed (raw_decodeRect x y width height depth) bss 0 s d = (r, l, s', d')"
    by (cases "feed (raw_decodeRect x y width height depth) bss 0 s d") auto
  have sp: "raw_spec x y width height depth 0 ?u d = (r, l, unread s', d')"
    using raw.feed_spec [OF assms(1-3) f] by simp
  have whole: "raw_spec x y width height depth 0 ?u d = (Inr True, 0, drop (line_bytes width depth * height) ?u,
      fold (\<lambda>i. act (raw_draw x y width depth ?u i)) [0..<height] d)"
    using raw_spec_whole [of width depth height ?u height x y d] assms(4-6) by (simp add: raw_spec_def)
  have "raw_line width depth (take (4 * width) (drop (i * (4 * width)) ?u)) ! k =
      (if k mod 4 = 3 then 255 else ?u ! (i * (4 * width) + k))"
    if "depth \<noteq> 8" "i < height" "k < 4 * width" for i k
    by (rule raw_line_nth) (use that assms(6) in \<open>simp_all add: line_bytes_def mult.commute\<close>)
  then show ?thesis
    using f sp whole by auto
qed

definition two_bytes :: websock where
  "two_bytes = new_websock\<lparr>rQbufferSize := 4, rQ := [1, 2, 0, 0], rQlen := 2\<rparr>"

theorem raw_rectangle_witness:
  "case feed (raw_decodeRect 5 6 1 1 24) [[3], [4, 5]] 0 two_bytes (new_display 8 8) of
     (r, l, s', d') \<Rightarrow> r = Inr True \<and> unread s' = [5]"
proof -
  have "rq_wf two_bytes" "unread two_bytes = [1, 2]" "renderQ (new_display 8 8) = []"
    by (simp_all add: two_bytes_def new_websock_def rq_wf_def unread_def MAX_RQ_GROW_SIZE_def new_display_def)
  then show ?thesis
    using raw_rectangle [of "new_display 8 8" two_bytes "[[3], [4, 5]]" 1 1 24 5 6]
    by (auto simp: MAX_RQ_GROW_SIZE_def line_bytes_def)
qed

section \<open>CopyRect\<close>

definition copyrect_decodeRect ::
    "int \<Rightarrow> int \<Rightarrow> nat \<Rightarrow> nat \<Rightarrow> unit \<Rightarrow> websock \<Rightarrow> display \<Rightarrow> (unit, display) decoded" where
  "copyrect_decodeRect x y width height u sock d =
     (if rQwait 4 sock then (Inr False, (), sock, d)
      else
        let (deltaX, sock) = rQshift16 sock;
            (deltaY, sock) = rQshift16 sock
        in if width = 0 \<or> height = 0 then (Inr True, (), sock, d)
           else (Inr True, (), sock, copyImage (int deltaX) (int deltaY) x y (int width) (int height) d))"

definition copyrect_spec ::
    "int \<Rightarrow> int \<Rightarrow> nat \<Rightarrow> nat \<Rightarrow> unit \<Rightarrow> byte list \<Rightarrow> display \<Rightarrow> (unit, display) decoded_bytes" where
  "copyrect_spec x y width height un u d =
     (if length u < 4 then (Inr False, (), u, d)
      else (Inr True, (), drop 4 u,
            if width = 0 \<or> height = 0 then d
            else copyImage (int (be (take 2 u))) (int (be (take 2 (drop 2 u)))) x y (int width) (int height) d))"

interpretation copyrect: resumable "copyrect_decodeRect x y width height" "copyrect_spec x y width height"
    "\<lambda>_ d. True" for x y width height
proof
  fix l s d r l' s' d' u u' bs
  show "rq_wf s' \<and> copyrect_spec x y width height l (unread s) d = (r, l', unread s', d')"
    if "rq_wf s" "copyrect_decodeRect x y width height l s d = (r, l', s', d')"
    using that by (auto simp: copyrect_decodeRect_def copyrect_spec_def Let_def rq_simps split: if_splits)
  show "length u' \<le> length u" if "copyrect_spec x y width height l u d = (r, l', u', d')"
    using that by (auto simp: copyrect_spec_def split: if_splits)
  show "copyrect_spec x y width height l (u @ bs) d =
      resume (copyrect_spec x y width height) (copyrect_spec x y width height l u d) bs"
    by (auto simp: copyrect_spec_def resume_def)
qed auto

section \<open>RRE\<close>

fun rre_loop :: "int \<Rightarrow> int \<Rightarrow> nat \<Rightarrow> websock \<Rightarrow> display \<Rightarrow> (nat, display) decoded" where
  "rre_loop x y 0 sock d = (Inr True, 0, sock, d)"
| "rre_loop x y (Suc n) sock d =
     (if rQwait (4 + 8) sock then (Inr False, Suc n, sock, d)
      else
        let (color, sock) = rQshiftBytes 4 sock;
            (sx, sock) = rQshift16 sock;
            (sy, sock) = rQshift16 sock;
            (swidth, sock) = rQshift16 sock;
            (sheight, sock) = rQshift16 sock
        in rre_loop x y n sock (fillRect (x + int sx) (y + int sy) (int swidth) (int sheight) color d))"

definition rre_decodeRect ::
    "int \<Rightarrow> int \<Rightarrow> nat \<Rightarrow> nat \<Rightarrow> nat \<Rightarrow> websock \<Rightarrow> display \<Rightarrow> (nat, display) decoded" where
  "rre_decodeRect x y width height subrects sock d =
     (if subrects = 0 then
        if rQwait (4 + 4) sock then (Inr False, subrects, sock, d)
        else
          let (subrects, sock) = rQshift32 sock;
              (color, sock) = rQshiftBytes 4 sock
          in rre_loop x y subrects sock (fillRect x y (int width) (int height) color d)
      else rre_loop x y subrects sock d)"

fun rre_spec_loop :: "int \<Rightarrow> int \<Rightarrow> nat \<Rightarrow> byte list \<Rightarrow> display \<Rightarrow> (nat, display) decoded_bytes" where
  "rre_spec_loop x y 0 u d = (Inr True, 0, u, d)"
| "rre_spec_loop x y (Suc n) u d =
     (if length u < 12 then (Inr False, Suc n, u, d)
      else rre_spec_loop x y n (drop 12 u)
             (fillRect (x + int (be (take 2 (drop 4 u)))) (y + int (be (take 2 (drop 6 u))))
                (int (be (take 2 (drop 8 u)))) (int (be (take 2 (drop 10 u)))) (take 4 u) d))"

definition rre_spec ::
    "int \<Rightarrow> int \<Rightarrow> nat \<Rightarrow> nat \<Rightarrow> nat \<Rightarrow> byte list \<Rightarrow> display \<Rightarrow> (nat, display) decoded_bytes" where
  "rre_spec x y width height subrects u d =
     (if subrects = 0 then
        if length u < 8 then (Inr False, subrects, u, d)
        else rre_spec_loop x y (be (take 4 u)) (drop 8 u)
               (fillRect x y (int width) (int height) (take 4 (drop 4 u)) d)
      else rre_spec_loop x y subrects u d)"

lemma rre_loop_spec:
  assumes "rq_wf s"
  shows "case rre_loop x y n s d of (r, n', s', d') \<Rightarrow>
    rq_wf s' \<and> rre_spec_loop x y n (unread s) d = (r, n', unread s', d')"
  using assms
proof (induction n arbitrary: s d)
  case (Suc n)
  show ?case
  proof (cases "length (unread s) < 12")
    case True
    then show ?thesis
      using Suc.prems by (simp add: rQwait_iff)
  next
    case False
    then have "rq_wf (adv 12 s)"
      using Suc.prems by (simp add: rq_simps)
    from Suc.IH [OF this] False Suc.prems show ?thesis
      by (simp add: Let_def rq_simps add.commute)
  qed
qed simp

lemma rre_spec_append:
  "rre_spec_loop x y n (u @ bs) d =
     (case rre_spec_loop x y n u d of (r, n', u', d') \<Rightarrow>
        if r = Inr False then rre_spec_loop x y n' (u' @ bs) d' else (r, n', u' @ bs, d'))"
  by (induction n arbitrary: u d) simp_all

lemma rre_spec_false:
  "rre_spec_loop x y n u d = (r, n', u', d') \<Longrightarrow> length u' \<le> length u \<and> (r = Inr False \<longrightarrow> 0 < n')"
proof (induction n arbitrary: u d)
  case (Suc n)
  show ?case
  proof (cases "length u < 12")
    case False
    then show ?thesis
      using Suc.prems Suc.IH [of "drop 12 u"] by fastforce
  qed (use Suc.prems in auto)
qed auto

lemma rre_append:
  "rre_spec x y width height n (u @ bs) d =
     resume (rre_spec x y width height) (rre_spec x y width height n u d) bs"
proof (cases "n = 0")
  case True
  show ?thesis
  proof (cases "length u < 8")
    case False
    let ?d = "fillRect x y (int width) (int height) (take 4 (drop 4 u)) d"
    obtain r n' u' d' where e: "rre_spec_loop x y (be (take 4 u)) (drop 8 u) ?d = (r, n', u', d')"
      by (cases "rre_spec_loop x y (be (take 4 u)) (drop 8 u) ?d") auto
    have "r = Inr False \<longrightarrow> n' \<noteq> 0"
      using rre_spec_false [OF e] by simp
    then show ?thesis
      using True False rre_spec_append [of x y "be (take 4 u)" "drop 8 u" bs ?d]
      by (auto simp: rre_spec_def resume_def e)
  qed (use True in \<open>simp add: rre_spec_def resume_def\<close>)
next
  case False
  obtain r n' u' d' where e: "rre_spec_loop x y n u d = (r, n', u', d')"
    by (cases "rre_spec_loop x y n u d") auto
  have "r = Inr False \<longrightarrow> n' \<noteq> 0"
    using rre_spec_false [OF e] by simp
  then show ?thesis
    using False rre_spec_append [of x y n u bs d] by (auto simp: rre_spec_def resume_def e)
qed

lemma rre_length:
  assumes "rre_spec x y width height n u d = (r, n', u', d')"
  shows "length u' \<le> length u"
proof (cases "n = 0 \<and> \<not> length u < 8")
  case True
  then show ?thesis
    using assms rre_spec_false [of x y "be (take 4 u)" "drop 8 u"] by (fastforce simp: rre_spec_def)
next
  case False
  then show ?thesis
    using assms rre_spec_false [of x y n u d] by (auto simp: rre_spec_def split: if_splits)
qed

interpretation rre: resumable "rre_decodeRect x y width height" "rre_spec x y width height"
    "\<lambda>_ d. True" for x y width height
proof
  fix l s d r l' s' d' u u' bs
  show "rq_wf s' \<and> rre_spec x y width height l (unread s) d = (r, l', unread s', d')"
    if wf: "rq_wf s" and dec: "rre_decodeRect x y width height l s d = (r, l', s', d')"
  proof (cases "l = 0 \<and> \<not> length (unread s) < 8")
    case True
    then have l: "l = 0" "8 \<le> length (unread s)"
      by simp_all
    then have "rq_wf (adv 8 s)"
      using wf by (simp add: rq_simps)
    from rre_loop_spec [OF this, of x y "be (take 4 (unread s))"
        "fillRect x y (int width) (int height) (take 4 (drop 4 (unread s))) d"]
    show ?thesis
      using l wf dec by (simp add: rre_decodeRect_def rre_spec_def Let_def rq_simps)
  next
    case False
    then show ?thesis
      using wf dec rre_loop_spec [OF wf, of x y l d]
      by (auto simp: rre_decodeRect_def rre_spec_def rQwait_iff split: if_splits)
  qed
  show "length u' \<le> length u" if "rre_spec x y width height l u d = (r, l', u', d')"
    using that by (rule rre_length)
  show "rre_spec x y width height l (u @ bs) d =
      resume (rre_spec x y width height) (rre_spec x y width height l u d) bs"
    by (rule rre_append)
qed auto

end
