(* ===== verification/DecHextile.thy ===== *)
theory DecHextile
  imports DecBasic
begin

text \<open>
  Model of the hextile decoder, \<open>core/decoders/hextile.js\<close>: tiles of at most 16 by 16 pixels, each
  preceded by its subencoding.  The record holds what the decoder keeps between two calls; an
  undefined colour is \<open>None\<close>.
\<close>

section \<open>Tiles of pixels\<close>

record hextile =
  hx_tiles :: nat
  hx_lastsubencoding :: nat
  hx_tileBuffer :: "byte list"
  hx_tilesX :: nat
  hx_tilesY :: nat
  hx_totalTiles :: nat
  hx_background :: "byte list option"
  hx_foreground :: "byte list option"
  hx_tileX :: int
  hx_tileY :: int
  hx_tileW :: int
  hx_tileH :: int

definition new_hextile :: hextile where
  "new_hextile = \<lparr>hx_tiles = 0, hx_lastsubencoding = 0, hx_tileBuffer = replicate (16 * 16 * 4) 0,
     hx_tilesX = 0, hx_tilesY = 0, hx_totalTiles = 0, hx_background = None, hx_foreground = None,
     hx_tileX = 0, hx_tileY = 0, hx_tileW = 0, hx_tileH = 0\<rparr>"

text \<open>One pixel of a colour, opaque; an element that an array lacks is stored as 0.\<close>

definition col :: "byte list \<Rightarrow> nat \<Rightarrow> byte" where
  "col color i = (if i < length color then color ! i else 0)"

definition write_pixel :: "byte list \<Rightarrow> nat \<Rightarrow> byte list \<Rightarrow> byte list" where
  "write_pixel color p buf =
     buf[p * 4 := col color 0, p * 4 + 1 := col color 1, p * 4 + 2 := col color 2, p * 4 + 3 := 255]"

definition startTile ::
    "int \<Rightarrow> int \<Rightarrow> int \<Rightarrow> int \<Rightarrow> byte list option \<Rightarrow> hextile \<Rightarrow> js_error option \<times> hextile" where
  "startTile x y width height color hx =
     (let hx = hx\<lparr>hx_tileX := x, hx_tileY := y, hx_tileW := width, hx_tileH := height\<rparr>
      in case color of
           None \<Rightarrow> (Some NullError, hx)
         | Some color \<Rightarrow>
             (None, hx\<lparr>hx_tileBuffer := fold (write_pixel color) [0..<nat (width * height)] (hx_tileBuffer hx)\<rparr>))"

definition subTile :: "nat \<Rightarrow> nat \<Rightarrow> nat \<Rightarrow> nat \<Rightarrow> byte list \<Rightarrow> hextile \<Rightarrow> hextile" where
  "subTile x y w h color hx =
     hx\<lparr>hx_tileBuffer :=
       fold (\<lambda>j. fold (\<lambda>i. write_pixel color (i + j * nat (hx_tileW hx))) [x..<x + w]) [y..<y + h]
         (hx_tileBuffer hx)\<rparr>"

definition finishTile :: "hextile \<Rightarrow> display \<Rightarrow> js_error + display" where
  "finishTile hx d =
     blitImage (hx_tileX hx) (hx_tileY hx) (hx_tileW hx) (hx_tileH hx) (view_of (hx_tileBuffer hx)) 0 d"

section \<open>The decoder\<close>

fun hextile_subrects :: "nat \<Rightarrow> nat \<Rightarrow> hextile \<Rightarrow> websock \<Rightarrow> js_error option \<times> hextile \<times> websock" where
  "hextile_subrects 0 subencoding hx sock = (None, hx, sock)"
| "hextile_subrects (Suc s) subencoding hx sock =
     (let (color, sock) =
            (if subencoding AND 0x10 \<noteq> 0
             then (let (c, sock) = rQshiftBytes 4 sock in (Some c, sock))
             else (hx_foreground hx, sock));
          (xy, sock) = rQshift8 sock;
          sx = drop_bit 4 xy; sy = xy AND 0x0f;
          (wh, sock) = rQshift8 sock;
          sw = drop_bit 4 wh + 1; sh = (wh AND 0x0f) + 1
      in case color of
           None \<Rightarrow> (Some NullError, hx, sock)
         | Some color \<Rightarrow> hextile_subrects s subencoding (subTile sx sy sw sh color hx) sock)"

definition hextile_colours :: "nat \<Rightarrow> hextile \<Rightarrow> websock \<Rightarrow> hextile \<times> websock" where
  "hextile_colours subencoding hx sock =
     (let (hx, sock) = (if subencoding AND 0x02 \<noteq> 0
            then (let (c, sock) = rQshiftBytes 4 sock in (hx\<lparr>hx_background := Some c\<rparr>, sock))
            else (hx, sock));
          (hx, sock) = (if subencoding AND 0x04 \<noteq> 0
            then (let (c, sock) = rQshiftBytes 4 sock in (hx\<lparr>hx_foreground := Some c\<rparr>, sock))
            else (hx, sock))
      in (hx, sock))"

definition hextile_subs :: "nat \<Rightarrow> hextile \<Rightarrow> websock \<Rightarrow> js_error option \<times> hextile \<times> websock" where
  "hextile_subs subencoding hx sock =
     (if subencoding AND 0x08 \<noteq> 0
      then (let (subrects, sock) = rQshift8 sock in hextile_subrects subrects subencoding hx sock)
      else (None, hx, sock))"

definition hextile_body ::
    "nat \<Rightarrow> int \<Rightarrow> int \<Rightarrow> int \<Rightarrow> int \<Rightarrow> hextile \<Rightarrow> websock \<Rightarrow> display \<Rightarrow> (hextile, display) decoded" where
  "hextile_body subencoding tx ty tw th hx sock d =
     (case startTile tx ty tw th (hx_background hx) hx of
        (Some e, hx) \<Rightarrow> (Inl e, hx, sock, d)
      | (None, hx) \<Rightarrow>
          (case hextile_subs subencoding hx sock of
             (Some e, hx, sock) \<Rightarrow> (Inl e, hx, sock, d)
           | (None, hx, sock) \<Rightarrow>
               (case finishTile hx d of
                  Inl e \<Rightarrow> (Inl e, hx, sock, d) | Inr d \<Rightarrow> (Inr True, hx, sock, d))))"

text \<open>A tile whose bytes are all there, from its subencoding byte on.\<close>

definition hextile_draw ::
    "nat \<Rightarrow> int \<Rightarrow> int \<Rightarrow> int \<Rightarrow> int \<Rightarrow> hextile \<Rightarrow> websock \<Rightarrow> display \<Rightarrow> (hextile, display) decoded" where
  "hextile_draw subencoding tx ty tw th hx sock d =
     (let (_, sock) = rQshift8 sock
      in if subencoding = 0 then
           if hx_lastsubencoding hx AND 0x01 \<noteq> 0 then (Inr True, hx, sock, d)
           else (case hx_background hx of
               None \<Rightarrow> (case fillRect_undefined tx ty tw th d of
                   Inl e \<Rightarrow> (Inl e, hx, sock, d) | Inr d \<Rightarrow> (Inr True, hx, sock, d))
             | Some color \<Rightarrow> (Inr True, hx, sock, fillRect tx ty tw th color d))
         else if subencoding AND 0x01 \<noteq> 0 then
           let pixels = nat (tw * th);
               (data, sock) = rQshiftView (pixels * 4) sock;
               data = set_alpha pixels data;
               sock = write_back data sock
           in (case blitImage tx ty tw th data 0 d of
                 Inl e \<Rightarrow> (Inl e, hx, sock, d) | Inr d \<Rightarrow> (Inr True, hx, sock, d))
         else
           let (hx, sock) = hextile_colours subencoding hx sock
           in hextile_body subencoding tx ty tw th hx sock d)"

definition hx_head :: "nat \<Rightarrow> nat" where
  "hx_head subencoding =
     1 + (if subencoding AND 0x02 \<noteq> 0 then 4 else 0) + (if subencoding AND 0x04 \<noteq> 0 then 4 else 0)"

definition hx_rest :: "nat \<Rightarrow> nat \<Rightarrow> nat" where
  "hx_rest subencoding subrects = subrects * (if subencoding AND 0x10 \<noteq> 0 then 4 + 2 else 2)"

text \<open>The rectangle of the current tile: its position and its size.\<close>

definition tile_rect :: "int \<Rightarrow> int \<Rightarrow> nat \<Rightarrow> nat \<Rightarrow> hextile \<Rightarrow> int \<times> int \<times> int \<times> int" where
  "tile_rect x y width height hx =
     (let currTile = hx_totalTiles hx - hx_tiles hx;
          tileX = currTile mod hx_tilesX hx;
          tileY = currTile div hx_tilesX hx;
          tx = x + int tileX * 16; ty = y + int tileY * 16;
          tw = min 16 ((x + int width) - tx); th = min 16 ((y + int height) - ty)
      in (tx, ty, tw, th))"

text \<open>
  One round of the loop over the tiles.  The number of bytes is known once the subencoding and,
  for a tile with subrectangles, their number (the last of the bytes peeked at) are there.
\<close>

definition hextile_tile ::
    "int \<Rightarrow> int \<Rightarrow> nat \<Rightarrow> nat \<Rightarrow> hextile \<Rightarrow> websock \<Rightarrow> display \<Rightarrow> (hextile, display) decoded" where
  "hextile_tile x y width height hx sock d =
     (if rQwait 1 sock then (Inr False, hx, sock, d)
      else
        let subencoding = rQpeek8 sock
        in if subencoding > 30 then (Inl (JsError ''Illegal hextile subencoding''), hx, sock, d)
           else
             let (tx, ty, tw, th) = tile_rect x y width height hx
             in if subencoding AND 0x01 \<noteq> 0 then
                  if rQwait (1 + nat (tw * th * 4)) sock then (Inr False, hx, sock, d)
                  else hextile_draw subencoding tx ty tw th hx sock d
                else if subencoding AND 0x08 \<noteq> 0 then
                  let bytes = hx_head subencoding + 1
                  in if rQwait bytes sock then (Inr False, hx, sock, d)
                     else
                       let subrects = unat (last (rQpeekBytes bytes sock));
                           bytes = bytes + hx_rest subencoding subrects
                       in if rQwait bytes sock then (Inr False, hx, sock, d)
                          else hextile_draw subencoding tx ty tw th hx sock d
                else if rQwait (hx_head subencoding) sock then (Inr False, hx, sock, d)
                else hextile_draw subencoding tx ty tw th hx sock d)"

text \<open>The loop; its first argument is the number of tiles that are left.\<close>

fun hextile_loop ::
    "int \<Rightarrow> int \<Rightarrow> nat \<Rightarrow> nat \<Rightarrow> nat \<Rightarrow> hextile \<Rightarrow> websock \<Rightarrow> display \<Rightarrow> (hextile, display) decoded" where
  "hextile_loop x y width height 0 hx sock d = (Inr True, hx, sock, d)"
| "hextile_loop x y width height (Suc n) hx sock d =
     (case hextile_tile x y width height hx sock d of
        (r, hx', sock', d') \<Rightarrow>
          if r = Inr True then
            hextile_loop x y width height n
              (hx'\<lparr>hx_lastsubencoding := rQpeek8 sock, hx_tiles := n\<rparr>) sock' d'
          else (r, hx', sock', d'))"

definition hextile_start :: "nat \<Rightarrow> nat \<Rightarrow> hextile \<Rightarrow> hextile" where
  "hextile_start width height hx =
     (if hx_tiles hx = 0 then
        let tilesX = (width + 15) div 16; tilesY = (height + 15) div 16
        in hx\<lparr>hx_tilesX := tilesX, hx_tilesY := tilesY, hx_totalTiles := tilesX * tilesY,
              hx_tiles := tilesX * tilesY\<rparr>
      else hx)"

definition hextile_decodeRect ::
    "int \<Rightarrow> int \<Rightarrow> nat \<Rightarrow> nat \<Rightarrow> hextile \<Rightarrow> websock \<Rightarrow> display \<Rightarrow> (hextile, display) decoded" where
  "hextile_decodeRect x y width height hx sock d =
     (let hx = hextile_start width height hx
      in hextile_loop x y width height (hx_tiles hx) hx sock d)"

section \<open>The pixels of a tile\<close>

definition pixel :: "byte list \<Rightarrow> nat \<Rightarrow> byte list" where
  "pixel buf k = take 4 (drop (4 * k) buf)"

definition rgba :: "byte list \<Rightarrow> byte list" where
  "rgba color = [col color 0, col color 1, col color 2, 255]"

lemma length_write_pixel [simp]: "length (write_pixel c p buf) = length buf"
  by (simp add: write_pixel_def)

lemma pixel_write_pixel:
  assumes "4 * k + 4 \<le> length buf"
  shows "pixel (write_pixel c p buf) k = (if k = p then rgba c else pixel buf k)"
proof -
  have l: "length (pixel b k) = 4" if "length b = length buf" for b
    using assms that by (simp add: pixel_def)
  have nth: "pixel b k ! i = b ! (4 * k + i)" if "i < 4" "length b = length buf" for b i
    using assms that by (simp add: pixel_def)
  have "pixel (write_pixel c p buf) k ! i = (if k = p then rgba c else pixel buf k) ! i" if "i < 4" for i
  proof -
    have "i \<in> {0, 1, 2, 3}"
      using that by auto
    moreover have "4 * k + i < length buf"
      using assms that by simp
    ultimately show ?thesis
      unfolding nth [OF that length_write_pixel]
      by (auto simp: nth write_pixel_def rgba_def nth_list_update)
  qed
  then show ?thesis
    using l [of buf] l [of "write_pixel c p buf"]
    by (intro nth_equalityI) (auto simp: rgba_def)
qed

lemma fold_write_length [simp]:
  "length (fold (\<lambda>i. write_pixel c (f i)) is buf) = length buf"
  by (induction "is" arbitrary: buf) simp_all

lemma pixel_fold:
  "4 * k + 4 \<le> length buf \<Longrightarrow>
     pixel (fold (\<lambda>i. write_pixel c (f i)) is buf) k = (if k \<in> f ` set is then rgba c else pixel buf k)"
  by (induction "is" arbitrary: buf) (auto simp: pixel_write_pixel)

lemma fold_fold_length [simp]:
  "length (fold (\<lambda>j. fold (\<lambda>i. write_pixel c (f i j)) is) js buf) = length buf"
  by (induction js arbitrary: buf) simp_all

lemma pixel_fold_fold:
  "4 * k + 4 \<le> length buf \<Longrightarrow>
     pixel (fold (\<lambda>j. fold (\<lambda>i. write_pixel c (f i j)) is) js buf) k =
     (if \<exists>j \<in> set js. \<exists>i \<in> set is. k = f i j then rgba c else pixel buf k)"
  by (induction js arbitrary: buf) (auto simp: pixel_fold)

text \<open>A subrectangle and the colour it gives to the pixels inside; later ones cover earlier ones.\<close>

type_synonym subrect = "nat \<times> nat \<times> nat \<times> nat \<times> byte list"

fun covers :: "subrect \<Rightarrow> nat \<Rightarrow> nat \<Rightarrow> bool" where
  "covers (x, y, w, h, c) i j = (x \<le> i \<and> i < x + w \<and> y \<le> j \<and> j < y + h)"

fun inside :: "nat \<Rightarrow> nat \<Rightarrow> subrect \<Rightarrow> bool" where
  "inside tw th (x, y, w, h, c) = (x + w \<le> tw \<and> y + h \<le> th)"

fun colour_at :: "subrect list \<Rightarrow> byte list \<Rightarrow> nat \<Rightarrow> nat \<Rightarrow> byte list" where
  "colour_at [] bg i j = bg"
| "colour_at (r # rs) bg i j =
     colour_at rs (if covers r i j then snd (snd (snd (snd r))) else bg) i j"

fun draw_subrect :: "subrect \<Rightarrow> hextile \<Rightarrow> hextile" where
  "draw_subrect (x, y, w, h, c) hx = subTile x y w h c hx"

lemma pixel_index:
  assumes "i < (tw::nat)" "a < tw"
  shows "i + j * tw = a + b * tw \<longleftrightarrow> i = a \<and> j = b"
proof
  assume e: "i + j * tw = a + b * tw"
  have "(i + j * tw) mod tw = i" "(a + b * tw) mod tw = a"
    using assms by simp_all
  moreover have "(i + j * tw) div tw = j" "(a + b * tw) div tw = b"
    using assms by simp_all
  ultimately show "i = a \<and> j = b"
    using e by metis
qed simp

lemma subTile_pixel:
  assumes "hx_tileW hx = int tw" "inside tw th (x, y, w, h, c)" "i < tw" "j < th"
    and "4 * (tw * th) \<le> length (hx_tileBuffer hx)"
  shows "pixel (hx_tileBuffer (subTile x y w h c hx)) (i + j * tw) =
    (if covers (x, y, w, h, c) i j then rgba c else pixel (hx_tileBuffer hx) (i + j * tw))"
proof -
  have "Suc j * tw \<le> th * tw"
    using assms(4) by (intro mult_le_mono1) simp
  then have "4 * (i + j * tw) + 4 \<le> length (hx_tileBuffer hx)"
    using assms(3,5) by (simp add: mult.commute)
  from pixel_fold_fold [OF this, of c "\<lambda>i j. i + j * tw" "[x..<x + w]" "[y..<y + h]"]
  have "pixel (hx_tileBuffer (subTile x y w h c hx)) (i + j * tw) =
      (if \<exists>b \<in> set [y..<y + h]. \<exists>a \<in> set [x..<x + w]. i + j * tw = a + b * tw then rgba c
       else pixel (hx_tileBuffer hx) (i + j * tw))"
    using assms(1) by (simp add: subTile_def)
  moreover have "(\<exists>b \<in> set [y..<y + h]. \<exists>a \<in> set [x..<x + w]. i + j * tw = a + b * tw) = covers (x, y, w, h, c) i j"
  proof
    assume "\<exists>b \<in> set [y..<y + h]. \<exists>a \<in> set [x..<x + w]. i + j * tw = a + b * tw"
    then obtain a b where "a \<in> set [x..<x + w]" "b \<in> set [y..<y + h]" "i + j * tw = a + b * tw"
      by blast
    moreover then have "a < tw"
      using assms(2) by auto
    ultimately show "covers (x, y, w, h, c) i j"
      using pixel_index [OF assms(3), of a j b] by auto
  next
    assume "covers (x, y, w, h, c) i j"
    then show "\<exists>b \<in> set [y..<y + h]. \<exists>a \<in> set [x..<x + w]. i + j * tw = a + b * tw"
      by (intro bexI [of _ j] bexI [of _ i]) auto
  qed
  ultimately show ?thesis by simp
qed

lemma subTile_keeps [simp]:
  "hx_tileW (subTile x y w h c hx) = hx_tileW hx"
  "length (hx_tileBuffer (subTile x y w h c hx)) = length (hx_tileBuffer hx)"
  by (simp_all add: subTile_def)

lemma subrects_pixel:
  assumes "hx_tileW hx = int tw" "list_all (inside tw th) rs" "i < tw" "j < th"
    and "4 * (tw * th) \<le> length (hx_tileBuffer hx)" "pixel (hx_tileBuffer hx) (i + j * tw) = rgba bg"
  shows "pixel (hx_tileBuffer (fold draw_subrect rs hx)) (i + j * tw) = rgba (colour_at rs bg i j)"
  using assms
proof (induction rs arbitrary: hx bg)
  case (Cons r rs)
  obtain x y w h c where r: "r = (x, y, w, h, c)"
    by (cases r)
  let ?hx = "draw_subrect r hx"
  have "pixel (hx_tileBuffer ?hx) (i + j * tw) = rgba (if covers r i j then c else bg)"
    using subTile_pixel [of hx tw th x y w h c i j] Cons.prems by (simp add: r)
  then show ?case
    using Cons.IH [of ?hx "if covers r i j then c else bg"] Cons.prems by (simp add: r)
qed simp

text \<open>C15. A hextile tile has in every pixel the colour of the last subrectangle that covers it, and
  of the background where none does, fully opaque: for tiles of every size up to 16 by 16 and
  subrectangles inside the tile.\<close>

theorem hextile_tile_pixels:
  assumes "tw \<le> 16" "th \<le> 16" "length (hx_tileBuffer hx) = 16 * 16 * 4"
    and "list_all (inside tw th) rs" "i < tw" "j < th"
  shows "case startTile tx ty (int tw) (int th) (Some bg) hx of (e, hx1) \<Rightarrow>
    e = None \<and> pixel (hx_tileBuffer (fold draw_subrect rs hx1)) (i + j * tw) = rgba (colour_at rs bg i j)"
proof -
  have "tw * th \<le> 16 * 16"
    using assms(1,2) by (rule mult_le_mono)
  then have len: "4 * (tw * th) \<le> length (hx_tileBuffer hx)"
    using assms(3) by (simp add: mult.commute)
  have "Suc j * tw \<le> th * tw"
    using assms(6) by (intro mult_le_mono1) simp
  then have k: "i + j * tw < tw * th"
    using assms(5) by (simp add: mult.commute)
  define hx1 where "hx1 = snd (startTile tx ty (int tw) (int th) (Some bg) hx)"
  have start: "startTile tx ty (int tw) (int th) (Some bg) hx = (None, hx1)"
    by (simp add: hx1_def startTile_def Let_def)
  have "nat (int tw * int th) = tw * th"
    by (simp flip: of_nat_mult)
  then have buf: "hx_tileBuffer hx1 = fold (\<lambda>i. write_pixel bg (id i)) [0..<tw * th] (hx_tileBuffer hx)"
    and w: "hx_tileW hx1 = int tw"
    by (simp_all add: hx1_def startTile_def Let_def)
  have "pixel (hx_tileBuffer hx1) (i + j * tw) = rgba bg"
    unfolding buf by (subst pixel_fold) (use k len in auto)
  moreover have "4 * (tw * th) \<le> length (hx_tileBuffer hx1)"
    unfolding buf fold_write_length by (rule len)
  ultimately show ?thesis
    using subrects_pixel [OF w assms(4,5,6)] start by simp
qed

theorem hextile_tile_pixels_witness:
  "pixel (hx_tileBuffer (fold draw_subrect [(0, 0, 2, 1, [9, 8, 7]), (1, 0, 1, 2, [4, 5, 6])]
     (snd (startTile 0 0 2 2 (Some [1, 2, 3]) new_hextile)))) (1 + 0 * 2) = [4, 5, 6, 255]"
  using hextile_tile_pixels [where tw = 2 and th = 2 and hx = new_hextile and i = 1 and j = 0
      and rs = "[(0, 0, 2, 1, [9, 8, 7]), (1, 0, 1, 2, [4, 5, 6])]" and tx = 0 and ty = 0 and bg = "[1, 2, 3]"]
  by (simp add: new_hextile_def split_def rgba_def col_def)

section \<open>The decoder as a function of the stream\<close>

fun hx_subrects_spec :: "nat \<Rightarrow> nat \<Rightarrow> hextile \<Rightarrow> byte list \<Rightarrow> js_error option \<times> hextile \<times> byte list" where
  "hx_subrects_spec 0 sub hx u = (None, hx, u)"
| "hx_subrects_spec (Suc s) sub hx u =
     (let k = (if sub AND 0x10 \<noteq> 0 then 4 else 0);
          color = (if sub AND 0x10 \<noteq> 0 then Some (take 4 u) else hx_foreground hx);
          xy = be (take 1 (drop k u)); wh = be (take 1 (drop (k + 1) u))
      in case color of
           None \<Rightarrow> (Some NullError, hx, drop (k + 2) u)
         | Some color \<Rightarrow>
             hx_subrects_spec s sub
               (subTile (drop_bit 4 xy) (xy AND 0x0f) (drop_bit 4 wh + 1) ((wh AND 0x0f) + 1) color hx)
               (drop (k + 2) u))"

definition hx_colours :: "nat \<Rightarrow> hextile \<Rightarrow> byte list \<Rightarrow> hextile" where
  "hx_colours sub hx u =
     (let k = (if sub AND 0x02 \<noteq> 0 then 4 else 0);
          hx = (if sub AND 0x02 \<noteq> 0 then hx\<lparr>hx_background := Some (take 4 u)\<rparr> else hx)
      in if sub AND 0x04 \<noteq> 0 then hx\<lparr>hx_foreground := Some (take 4 (drop k u))\<rparr> else hx)"

definition hx_subs_spec :: "nat \<Rightarrow> hextile \<Rightarrow> byte list \<Rightarrow> js_error option \<times> hextile \<times> byte list" where
  "hx_subs_spec sub hx u =
     (if sub AND 0x08 \<noteq> 0 then hx_subrects_spec (be (take 1 u)) sub hx (drop 1 u) else (None, hx, u))"

definition hx_body_spec ::
    "nat \<Rightarrow> int \<Rightarrow> int \<Rightarrow> int \<Rightarrow> int \<Rightarrow> hextile \<Rightarrow> byte list \<Rightarrow> display \<Rightarrow> (hextile, display) decoded_bytes" where
  "hx_body_spec sub tx ty tw th hx u d =
     (case startTile tx ty tw th (hx_background hx) hx of
        (Some e, hx) \<Rightarrow> (Inl e, hx, u, d)
      | (None, hx) \<Rightarrow>
          (case hx_subs_spec sub hx u of
             (Some e, hx, u) \<Rightarrow> (Inl e, hx, u, d)
           | (None, hx, u) \<Rightarrow>
               (case finishTile hx d of Inl e \<Rightarrow> (Inl e, hx, u, d) | Inr d \<Rightarrow> (Inr True, hx, u, d))))"

definition hx_draw_spec ::
    "nat \<Rightarrow> int \<Rightarrow> int \<Rightarrow> int \<Rightarrow> int \<Rightarrow> hextile \<Rightarrow> byte list \<Rightarrow> display \<Rightarrow> (hextile, display) decoded_bytes" where
  "hx_draw_spec sub tx ty tw th hx u d =
     (if sub = 0 then
        if hx_lastsubencoding hx AND 0x01 \<noteq> 0 then (Inr True, hx, drop 1 u, d)
        else (case hx_background hx of
            None \<Rightarrow> (Inl NullError, hx, drop 1 u, d)
          | Some color \<Rightarrow> (Inr True, hx, drop 1 u, fillRect tx ty tw th color d))
      else if sub AND 0x01 \<noteq> 0 then
        let n = nat (tw * th)
        in (Inr True, hx, drop (1 + n * 4) u, act (ABlit tx ty tw th (opaque n (take (n * 4) (drop 1 u)))) d)
      else
        hx_body_spec sub tx ty tw th (hx_colours sub hx (drop 1 u)) (drop (hx_head sub) u) d)"

text \<open>How many bytes a tile has, when that can be told from the bytes there are.\<close>

definition hx_need :: "nat \<Rightarrow> int \<Rightarrow> byte list \<Rightarrow> nat option" where
  "hx_need sub area u =
     (if sub AND 0x01 \<noteq> 0 then Some (1 + nat (area * 4))
      else if sub AND 0x08 \<noteq> 0 then
        if length u < hx_head sub + 1 then None
        else Some (hx_head sub + 1 + hx_rest sub (unat (u ! hx_head sub)))
      else Some (hx_head sub))"

definition hx_tile_spec ::
    "int \<Rightarrow> int \<Rightarrow> nat \<Rightarrow> nat \<Rightarrow> hextile \<Rightarrow> byte list \<Rightarrow> display \<Rightarrow> (hextile, display) decoded_bytes" where
  "hx_tile_spec x y width height hx u d =
     (if u = [] then (Inr False, hx, u, d)
      else if unat (u ! 0) > 30 then (Inl (JsError ''Illegal hextile subencoding''), hx, u, d)
      else
        let sub = unat (u ! 0); (tx, ty, tw, th) = tile_rect x y width height hx
        in case hx_need sub (tw * th) u of
             None \<Rightarrow> (Inr False, hx, u, d)
           | Some n \<Rightarrow> if length u < n then (Inr False, hx, u, d) else hx_draw_spec sub tx ty tw th hx u d)"

fun hx_loop_spec ::
    "int \<Rightarrow> int \<Rightarrow> nat \<Rightarrow> nat \<Rightarrow> nat \<Rightarrow> hextile \<Rightarrow> byte list \<Rightarrow> display \<Rightarrow> (hextile, display) decoded_bytes" where
  "hx_loop_spec x y width height 0 hx u d = (Inr True, hx, u, d)"
| "hx_loop_spec x y width height (Suc n) hx u d =
     (case hx_tile_spec x y width height hx u d of
        (r, hx', u', d') \<Rightarrow>
          if r = Inr True then
            hx_loop_spec x y width height n (hx'\<lparr>hx_lastsubencoding := unat (u ! 0), hx_tiles := n\<rparr>) u' d'
          else (r, hx', u', d'))"

definition hextile_spec ::
    "int \<Rightarrow> int \<Rightarrow> nat \<Rightarrow> nat \<Rightarrow> hextile \<Rightarrow> byte list \<Rightarrow> display \<Rightarrow> (hextile, display) decoded_bytes" where
  "hextile_spec x y width height hx u d =
     (let hx = hextile_start width height hx in hx_loop_spec x y width height (hx_tiles hx) hx u d)"

subsection \<open>The code follows the stream\<close>

lemma subrects_spec:
  assumes "rq_wf s" "hx_rest sub n \<le> length (unread s)"
  shows "case hextile_subrects n sub hx s of (e, hx', s') \<Rightarrow>
    rq_wf s' \<and> hx_subrects_spec n sub hx (unread s) = (e, hx', unread s')"
  using assms
proof (induction n arbitrary: hx s)
  case (Suc n)
  define k where "k = (if sub AND 0x10 \<noteq> 0 then 4 else (0::nat))"
  have rest: "hx_rest sub (Suc n) = k + 2 + hx_rest sub n"
    by (simp add: hx_rest_def k_def)
  have u: "k + 2 \<le> length (unread s)"
    using Suc.prems(2) rest by simp
  have wf: "rq_wf (adv (k + 2) s)"
    using Suc.prems(1) u by (simp add: adv_wf)
  have enough: "hx_rest sub n \<le> length (unread (adv (k + 2) s))"
    using Suc.prems(2) rest by (simp add: rq_simps)
  show ?case
  proof (cases "sub AND 0x10 = 0")
    case True
    then show ?thesis
      using Suc.IH [OF wf enough] Suc.prems(1) u k_def
      by (cases "hx_foreground hx") (simp_all add: Let_def rq_simps split_def)
  next
    case False
    then show ?thesis
      using Suc.IH [OF wf enough] Suc.prems(1) u k_def
      by (simp add: Let_def rq_simps split_def)
  qed
qed simp

lemma subrects_append:
  assumes "hx_rest sub n \<le> length u"
  shows "hx_subrects_spec n sub hx (u @ bs) =
    (case hx_subrects_spec n sub hx u of (e, hx', u') \<Rightarrow> (e, hx', u' @ bs))"
  using assms
proof (induction n arbitrary: hx u)
  case (Suc n)
  define k where "k = (if sub AND 0x10 \<noteq> 0 then 4 else (0::nat))"
  have u: "k + 2 \<le> length u" "hx_rest sub n \<le> length (drop (k + 2) u)"
    using Suc.prems by (auto simp: hx_rest_def k_def)
  show ?case
    using Suc.IH [OF u(2)] u(1)
    by (cases "sub AND 0x10 = 0"; cases "hx_foreground hx") (simp_all add: Let_def k_def)
qed simp

definition hx_frame :: "hextile \<Rightarrow> hextile \<Rightarrow> bool" where
  "hx_frame hx hx' \<longleftrightarrow> hx_tiles hx' = hx_tiles hx \<and> hx_tilesX hx' = hx_tilesX hx
     \<and> hx_tilesY hx' = hx_tilesY hx \<and> hx_totalTiles hx' = hx_totalTiles hx"

lemma subrects_frame:
  "hx_subrects_spec n sub hx u = (e, hx', u') \<Longrightarrow> hx_frame hx hx' \<and> length u' \<le> length u"
proof (induction n arbitrary: hx u)
  case 0
  then show ?case by (simp add: hx_frame_def)
next
  case (Suc n)
  have f: "hx_frame hx (subTile a b c d col hx)" for a b c d col
    by (simp add: hx_frame_def subTile_def)
  show ?case
    using Suc.prems Suc.IH f
    by (auto simp: Let_def hx_frame_def split: option.splits if_splits) fastforce+
qed

lemma startTile_frame: "startTile x y w h c hx = (e, hx') \<Longrightarrow> hx_frame hx hx'"
  by (auto simp: startTile_def Let_def hx_frame_def split: option.splits)

lemma colours_frame: "hx_frame hx (hx_colours sub hx u)"
  by (simp add: hx_colours_def Let_def hx_frame_def)

lemma finishTile_queue: "renderQ d = [] \<Longrightarrow> finishTile hx d = Inr d' \<Longrightarrow> renderQ d' = []"
  by (auto simp: finishTile_def blitImage_def blit_now_def Let_def split: if_splits)

lemma fillRect_queue [simp]: "renderQ d = [] \<Longrightarrow> renderQ (fillRect x y w h c d) = []"
  by (simp add: fillRect_def fill_now_def)

definition subs_there :: "nat \<Rightarrow> byte list \<Rightarrow> bool" where
  "subs_there sub u \<longleftrightarrow> (sub AND 0x08 \<noteq> 0 \<longrightarrow> u \<noteq> [] \<and> hx_rest sub (unat (u ! 0)) \<le> length u - 1)"

lemma be_one: "u \<noteq> [] \<Longrightarrow> be (take (Suc 0) u) = unat (u ! 0)"
  by (cases u) auto

lemma subs_append:
  assumes "subs_there sub u"
  shows "hx_subs_spec sub hx (u @ bs) = (case hx_subs_spec sub hx u of (e, hx', u') \<Rightarrow> (e, hx', u' @ bs))"
  using assms subrects_append [of sub "unat (u ! 0)" "drop 1 u" hx bs]
  by (cases u) (auto simp: hx_subs_spec_def subs_there_def)

lemma subs_code:
  assumes "rq_wf s" "subs_there sub (unread s)"
  shows "case hextile_subs sub hx s of (e, hx', s') \<Rightarrow>
    rq_wf s' \<and> hx_subs_spec sub hx (unread s) = (e, hx', unread s')"
proof (cases "sub AND 0x08 = 0")
  case False
  then have u: "unread s \<noteq> []" "1 \<le> length (unread s)"
    "hx_rest sub (unat (unread s ! 0)) \<le> length (unread (adv 1 s))"
    using assms(2) by (auto simp: subs_there_def adv_unread Suc_le_eq)
  have "rq_wf (adv 1 s)"
    using assms(1) u(2) by (rule adv_wf)
  from subrects_spec [OF this u(3), of hx] show ?thesis
    using False u assms(1)
    by (simp add: hextile_subs_def hx_subs_spec_def be_one adv_unread rQshift8_be)
qed (use assms in \<open>simp add: hextile_subs_def hx_subs_spec_def\<close>)

lemma subs_frame: "hx_subs_spec sub hx u = (e, hx', u') \<Longrightarrow> hx_frame hx hx' \<and> length u' \<le> length u"
  using subrects_frame [of "be (take 1 u)" sub hx "drop 1 u" e hx' u']
  by (auto simp: hx_subs_spec_def hx_frame_def split: if_splits)

lemma body_append:
  assumes "subs_there sub u"
  shows "hx_body_spec sub tx ty tw th hx (u @ bs) d =
    (case hx_body_spec sub tx ty tw th hx u d of (r, hx', u', d') \<Rightarrow> (r, hx', u' @ bs, d'))"
  unfolding hx_body_spec_def subs_append [OF assms]
  by (auto split: prod.split option.split sum.split)

lemma body_frame:
  assumes "hx_body_spec sub tx ty tw th hx u d = (r, hx', u', d')" "renderQ d = []"
  shows "hx_frame hx hx' \<and> length u' \<le> length u \<and> renderQ d' = [] \<and> r \<noteq> Inr False"
proof -
  obtain e1 hx1 where s1: "startTile tx ty tw th (hx_background hx) hx = (e1, hx1)"
    by fastforce
  obtain e2 hx2 u2 where s2: "hx_subs_spec sub hx1 u = (e2, hx2, u2)"
    by (metis prod_cases3)
  show ?thesis
    using assms s1 s2 startTile_frame [OF s1] subs_frame [OF s2] finishTile_queue [OF assms(2), of hx2]
    by (auto simp: hx_body_spec_def hx_frame_def split: option.splits sum.splits)
qed

lemma body_code:
  assumes "rq_wf s" "subs_there sub (unread s)"
  shows "case hextile_body sub tx ty tw th hx s d of (r, hx', s', d') \<Rightarrow>
    rq_wf s' \<and> hx_body_spec sub tx ty tw th hx (unread s) d = (r, hx', unread s', d')"
proof -
  obtain e1 hx1 where s1: "startTile tx ty tw th (hx_background hx) hx = (e1, hx1)"
    by fastforce
  obtain e2 hx2 s2 where s2: "hextile_subs sub hx1 s = (e2, hx2, s2)"
    by (metis prod_cases3)
  show ?thesis
    using subs_code [OF assms, of hx1] assms(1) s1 s2
    by (auto simp: hextile_body_def hx_body_spec_def split: option.splits sum.splits)
qed

lemma colours_code:
  assumes "rq_wf s" "hx_head sub - 1 \<le> length (unread s)"
  shows "hextile_colours sub hx s = (hx_colours sub hx (unread s), adv (hx_head sub - 1) s)"
proof -
  have "rq_wf (adv 4 s)" if "sub AND 0x02 \<noteq> 0"
    using assms that by (intro adv_wf) (auto simp: hx_head_def)
  then show ?thesis
    using assms
    by (cases "sub AND 0x02 = 0"; cases "sub AND 0x04 = 0")
      (simp_all add: hextile_colours_def hx_colours_def hx_head_def Let_def rQshiftBytes_unread adv_unread adv_0)
qed

text \<open>A whole tile is there.\<close>

definition tile_there :: "nat \<Rightarrow> int \<Rightarrow> byte list \<Rightarrow> bool" where
  "tile_there sub area u \<longleftrightarrow> u \<noteq> [] \<and> (case hx_need sub area u of None \<Rightarrow> False | Some n \<Rightarrow> n \<le> length u)"

lemma tile_there_rects:
  assumes "tile_there sub area u" "sub AND 0x01 = 0"
  shows "hx_head sub \<le> length u" "subs_there sub (drop (hx_head sub) u)"
  using assms by (auto simp: tile_there_def hx_need_def subs_there_def split: if_splits)

lemma draw_spec_frame:
  assumes "hx_draw_spec sub tx ty tw th hx u d = (r, hx', u', d')" "renderQ d = []"
  shows "hx_frame hx hx' \<and> length u' \<le> length u \<and> renderQ d' = [] \<and> r \<noteq> Inr False"
proof (cases "sub = 0 \<or> sub AND 0x01 \<noteq> 0")
  case True
  then show ?thesis
    using assms by (auto simp: hx_draw_spec_def Let_def hx_frame_def split: if_splits option.splits simp del: act.simps)
next
  case False
  then show ?thesis
    using assms body_frame [of sub tx ty tw th "hx_colours sub hx (drop 1 u)" "drop (hx_head sub) u" d r hx' u' d']
      colours_frame [of hx sub "drop 1 u"]
    by (auto simp: hx_draw_spec_def hx_frame_def)
qed

lemma draw_spec_append:
  assumes "tile_there sub (tw * th) u"
  shows "hx_draw_spec sub tx ty tw th hx (u @ bs) d =
    (case hx_draw_spec sub tx ty tw th hx u d of (r, hx', u', d') \<Rightarrow> (r, hx', u' @ bs, d'))"
proof (cases "sub = 0")
  case True
  have "u \<noteq> []"
    using assms by (simp add: tile_there_def)
  then show ?thesis
    using True by (cases u) (simp_all add: hx_draw_spec_def split: option.split)
next
  case nonzero: False
  show ?thesis
  proof (cases "sub AND 0x01 = 0")
    case False
    have "nat (tw * th * 4) = nat (tw * th) * 4"
      by (simp add: nat_mult_distrib mult.commute)
    then have l: "1 + nat (tw * th) * 4 \<le> length u"
      using assms False by (auto simp: tile_there_def hx_need_def)
    show ?thesis
      using nonzero False l by (simp add: hx_draw_spec_def Let_def del: act.simps)
  next
    case True
    then have head: "hx_head sub \<le> length u" "1 \<le> hx_head sub" and subs: "subs_there sub (drop (hx_head sub) u)"
      using tile_there_rects [OF assms] by (auto simp: hx_head_def)
    have "hx_colours sub hx (drop 1 (u @ bs)) = hx_colours sub hx (drop 1 u)"
      using head by (auto simp: hx_colours_def hx_head_def Let_def split: if_splits)
    then show ?thesis
      using True nonzero head body_append [OF subs] by (simp add: hx_draw_spec_def)
  qed
qed

lemma draw_spec_code:
  assumes "rq_wf s" "renderQ d = []" "tile_there sub (tw * th) (unread s)" "0 < tw * th"
  shows "case hextile_draw sub tx ty tw th hx s d of (r, hx', s', d') \<Rightarrow>
    rq_wf s' \<and> hx_draw_spec sub tx ty tw th hx (unread s) d = (r, hx', unread s', d')"
proof -
  have ne: "1 \<le> length (unread s)"
    using assms(3) by (simp add: tile_there_def Suc_le_eq)
  have s1: "rQshift8 s = (be (take 1 (unread s)), adv 1 s)" "rq_wf (adv 1 s)"
    using assms(1) ne by (simp_all add: rq_simps)
  consider (blank) "sub = 0" | (raw) "sub \<noteq> 0" "sub AND 0x01 \<noteq> 0" | (rects) "sub \<noteq> 0" "sub AND 0x01 = 0"
    by blast
  then show ?thesis
  proof cases
    case blank
    then show ?thesis
      using s1 assms(2)
      by (auto simp: hextile_draw_def hx_draw_spec_def adv_unread fillRect_undefined_def split: option.splits)
  next
    case raw
    define k where "k = nat (tw * th)"
    have "nat (tw * th * 4) = k * 4"
      by (simp add: nat_mult_distrib mult.commute k_def)
    then have k4: "k * 4 \<le> length (unread (adv 1 s))"
      using assms(3) raw by (auto simp: tile_there_def hx_need_def adv_unread)
    let ?v = "set_alpha k (fst (rQshiftView (k * 4) (adv 1 s)))"
    let ?s2 = "write_back ?v (snd (rQshiftView (k * 4) (adv 1 s)))"
    note v = view_opaque [OF s1(2) k4, of k]
    have "int (v_len ?v) = tw * th * 4"
      using v(2) assms(4) by (simp add: k_def)
    from blit_direct [OF assms(2) v(1) this assms(4), of tx ty]
    have "hextile_draw sub tx ty tw th hx s d =
        (Inr True, hx, ?s2, act (ABlit tx ty tw th (opaque k (take (k * 4) (unread (adv 1 s))))) d)"
      using raw s1 v(3)
      by (simp add: hextile_draw_def split_def k_def [symmetric] Let_def del: act.simps One_nat_def)
    then show ?thesis
      using raw v(4,5)
      by (simp add: hx_draw_spec_def k_def [symmetric] Let_def adv_unread add.commute del: act.simps)
  next
    case rects
    have head: "hx_head sub \<le> length (unread s)" "1 \<le> hx_head sub"
      and subs: "subs_there sub (drop (hx_head sub) (unread s))"
      using tile_there_rects [OF assms(3) rects(2)] by (auto simp: hx_head_def)
    have "hx_head sub - 1 \<le> length (unread (adv 1 s))"
      using head by (simp add: adv_unread)
    from colours_code [OF s1(2) this]
    have c: "hextile_colours sub hx (adv 1 s) = (hx_colours sub hx (drop 1 (unread s)), adv (hx_head sub) s)"
      using head(2) by (simp add: adv_unread)
    have "rq_wf (adv (hx_head sub) s)"
      using assms(1) head(1) by (rule adv_wf)
    from body_code [OF this, of sub tx ty tw th "hx_colours sub hx (drop 1 (unread s))" d] show ?thesis
      using rects s1 c subs by (simp add: hextile_draw_def hx_draw_spec_def adv_unread)
  qed
qed

subsection \<open>Tiles and rectangles\<close>

text \<open>The number of tiles that are left fits the rectangle.\<close>

definition hx_consistent :: "nat \<Rightarrow> nat \<Rightarrow> hextile \<Rightarrow> bool" where
  "hx_consistent width height hx \<longleftrightarrow> hx_tiles hx = 0 \<or>
     (hx_tilesX hx = (width + 15) div 16 \<and> hx_totalTiles hx = hx_tilesX hx * ((height + 15) div 16)
      \<and> hx_tiles hx \<le> hx_totalTiles hx)"

lemma tile_area:
  assumes "hx_consistent width height hx" "0 < hx_tiles hx" "tile_rect x y width height hx = (tx, ty, tw, th)"
  shows "0 < tw * th"
proof -
  let ?c = "hx_totalTiles hx - hx_tiles hx" and ?X = "(width + 15) div 16" and ?Y = "(height + 15) div 16"
  have X: "hx_tilesX hx = ?X" "hx_totalTiles hx = ?X * ?Y" "hx_tiles hx \<le> hx_totalTiles hx"
    using assms by (auto simp: hx_consistent_def)
  then have "?c < ?X * ?Y"
    using assms(2) by linarith
  moreover then have "0 < ?X"
    by (cases "?X = 0") auto
  ultimately have "?c mod ?X < ?X" "?c div ?X < ?Y"
    by (simp_all add: less_mult_imp_div_less mult.commute)
  then have "?c mod ?X * 16 < width" "?c div ?X * 16 < height"
    by linarith+
  then have "0 < int width - int (?c mod ?X) * 16" "0 < int height - int (?c div ?X) * 16"
    by linarith+
  then have "0 < tw" "0 < th"
    using assms(3) X(1) by (auto simp: tile_rect_def Let_def)
  then show ?thesis by simp
qed

lemma last_take: "n < length u \<Longrightarrow> last (take (Suc n) u) = u ! n"
  by (simp add: take_Suc_conv_app_nth)

lemma tile_code:
  assumes "rq_wf s" "renderQ d = []" "hx_consistent width height hx" "0 < hx_tiles hx"
  shows "case hextile_tile x y width height hx s d of (r, hx', s', d') \<Rightarrow>
    rq_wf s' \<and> hx_tile_spec x y width height hx (unread s) d = (r, hx', unread s', d')"
proof (cases "unread s = [] \<or> 30 < unat (unread s ! 0)")
  case True
  then show ?thesis
    using assms(1) by (auto simp: hextile_tile_def hx_tile_spec_def rQwait_iff rQpeek8_unread)
next
  case False
  let ?u = "unread s"
  let ?sub = "unat (?u ! 0)"
  obtain tx ty tw th where rect: "tile_rect x y width height hx = (tx, ty, tw, th)"
    by (metis prod_cases4)
  note area = tile_area [OF assms(3,4) rect]
  have ne: "?u \<noteq> []" "\<not> rQwait 1 s" "rQpeek8 s = ?sub" "\<not> 30 < ?sub"
    using False assms(1) by (auto simp: rQwait_iff rQpeek8_unread)
  have concrete: "hextile_tile x y width height hx s d =
      (case hx_need ?sub (tw * th) ?u of
         None \<Rightarrow> (Inr False, hx, s, d)
       | Some n \<Rightarrow> if length ?u < n then (Inr False, hx, s, d) else hextile_draw ?sub tx ty tw th hx s d)"
  proof (cases "?sub AND 0x01 \<noteq> 0 \<or> ?sub AND 0x08 = 0")
    case True
    then show ?thesis
      using ne assms(1) by (auto simp: hextile_tile_def Let_def hx_need_def rQwait_iff rect)
  next
    case False
    then show ?thesis
      using ne assms(1)
      by (simp add: hextile_tile_def Let_def hx_need_def rQwait_iff rect rQpeekBytes_unread
          last_take not_less Suc_le_eq)
  qed
  have spec: "hx_tile_spec x y width height hx ?u d =
      (case hx_need ?sub (tw * th) ?u of
         None \<Rightarrow> (Inr False, hx, ?u, d)
       | Some n \<Rightarrow> if length ?u < n then (Inr False, hx, ?u, d) else hx_draw_spec ?sub tx ty tw th hx ?u d)"
    using ne by (simp add: hx_tile_spec_def Let_def rect)
  show ?thesis
  proof (cases "tile_there ?sub (tw * th) ?u")
    case True
    then show ?thesis
      using draw_spec_code [OF assms(1,2) True area, of tx ty hx] ne
      unfolding concrete spec by (auto simp: tile_there_def split: option.splits)
  next
    case False
    then show ?thesis
      using assms(1) ne unfolding concrete spec by (auto simp: tile_there_def split: option.splits)
  qed
qed

lemma need_append:
  assumes "hx_need sub area u = Some n"
  shows "hx_need sub area (u @ bs) = Some n"
  using assms by (auto simp: hx_need_def nth_append split: if_splits)

text \<open>A tile is interrupted before anything of it is taken, or ends for good.\<close>

lemma tile_cases:
  obtains (wait) "hx_tile_spec x y width height hx u d = (Inr False, hx, u, d)"
  | (illegal) e where "u \<noteq> []" "\<And>bs. hx_tile_spec x y width height hx (u @ bs) d = (Inl e, hx, u @ bs, d)"
  | (there) tx ty tw th where "tile_there (unat (u ! 0)) (tw * th) u"
      "\<And>bs. hx_tile_spec x y width height hx (u @ bs) d = hx_draw_spec (unat (u ! 0)) tx ty tw th hx (u @ bs) d"
proof -
  obtain tx ty tw th where rect: "tile_rect x y width height hx = (tx, ty, tw, th)"
    by (metis prod_cases4)
  consider "u = []" | "u \<noteq> []" "30 < unat (u ! 0)"
    | "u \<noteq> []" "\<not> 30 < unat (u ! 0)" "tile_there (unat (u ! 0)) (tw * th) u"
    | "u \<noteq> []" "\<not> 30 < unat (u ! 0)" "\<not> tile_there (unat (u ! 0)) (tw * th) u"
    by blast
  then show thesis
  proof cases
    case 1
    then show thesis
      by (intro wait) (simp add: hx_tile_spec_def)
  next
    case 2
    then show thesis
      by (intro illegal) (simp_all add: hx_tile_spec_def nth_append)
  next
    case 3
    then obtain n where n: "hx_need (unat (u ! 0)) (tw * th) u = Some n" "n \<le> length u"
      by (auto simp: tile_there_def split: option.splits)
    show thesis
      using 3 need_append [OF n(1)] n(2)
      by (intro there [of tw th tx ty]) (simp_all add: hx_tile_spec_def nth_append rect)
  next
    case 4
    then show thesis
      by (intro wait) (auto simp: hx_tile_spec_def rect tile_there_def split: option.splits)
  qed
qed

lemma draw_spec_ends: "fst (hx_draw_spec sub tx ty tw th hx u d) \<noteq> Inr False"
  by (auto simp: hx_draw_spec_def hx_body_spec_def Let_def split: option.splits prod.splits sum.splits)

lemma tile_append:
  "hx_tile_spec x y width height hx (u @ bs) d =
     (case hx_tile_spec x y width height hx u d of (r, hx', u', d') \<Rightarrow>
        if r = Inr False then hx_tile_spec x y width height hx' (u' @ bs) d' else (r, hx', u' @ bs, d'))"
proof (cases rule: tile_cases [of x y width height hx u d])
  case wait
  then show ?thesis by simp
next
  case (illegal e)
  then show ?thesis
    using illegal(2) [of "[]"] by simp
next
  case (there tx ty tw th)
  have e: "hx_tile_spec x y width height hx u d = hx_draw_spec (unat (u ! 0)) tx ty tw th hx u d"
    using there(2) [of "[]"] by simp
  show ?thesis
    using draw_spec_append [OF there(1), of tx ty hx bs d] draw_spec_ends [of "unat (u ! 0)" tx ty tw th hx u d]
    unfolding there(2) e by (auto split: prod.splits)
qed

lemma tile_keeps:
  assumes "hx_tile_spec x y width height hx u d = (r, hx', u', d')" "renderQ d = []"
  shows "hx_frame hx hx' \<and> length u' \<le> length u \<and> renderQ d' = [] \<and> (r = Inr False \<longrightarrow> hx' = hx \<and> u' = u \<and> d' = d)"
proof (cases rule: tile_cases [of x y width height hx u d])
  case wait
  then show ?thesis
    using assms by (simp add: hx_frame_def)
next
  case (illegal e)
  then show ?thesis
    using assms illegal(2) [of "[]"] by (auto simp: hx_frame_def)
next
  case (there tx ty tw th)
  have e: "hx_draw_spec (unat (u ! 0)) tx ty tw th hx u d = (r, hx', u', d')"
    using there(2) [of "[]"] assms(1) by simp
  then show ?thesis
    using draw_spec_frame [OF e assms(2)] by blast
qed

lemma tile_first_byte:
  "hx_tile_spec x y width height hx u d = (Inr True, hx', u', d') \<Longrightarrow> u \<noteq> []"
  by (auto simp: hx_tile_spec_def)

lemma hx_step_consistent:
  assumes "hx_consistent width height hx" "hx_frame hx hx'" "hx_tiles hx = Suc n"
  shows "hx_consistent width height (hx'\<lparr>hx_lastsubencoding := l, hx_tiles := n\<rparr>)"
  using assms by (auto simp: hx_consistent_def hx_frame_def)

lemma hextile_loop_code:
  assumes "rq_wf s" "renderQ d = []" "hx_consistent width height hx" "hx_tiles hx = n"
  shows "case hextile_loop x y width height n hx s d of (r, hx', s', d') \<Rightarrow>
    rq_wf s' \<and> hx_loop_spec x y width height n hx (unread s) d = (r, hx', unread s', d')"
  using assms
proof (induction n arbitrary: hx s d)
  case (Suc n)
  obtain r hx1 s1 d1 where t: "hextile_tile x y width height hx s d = (r, hx1, s1, d1)"
    by (metis prod_cases4)
  have c: "rq_wf s1" "hx_tile_spec x y width height hx (unread s) d = (r, hx1, unread s1, d1)"
    using tile_code [OF Suc.prems(1-3), of x y] Suc.prems(4) t by auto
  show ?case
  proof (cases "r = Inr True")
    case True
    have "rQpeek8 s = unat (unread s ! 0)"
      using tile_first_byte c(2) True Suc.prems(1) by (auto simp: rQpeek8_unread)
    moreover have "renderQ d1 = []" "hx_frame hx hx1"
      using tile_keeps [OF c(2) Suc.prems(2)] by auto
    moreover have "hx_consistent width height (hx1\<lparr>hx_lastsubencoding := unat (unread s ! 0), hx_tiles := n\<rparr>)"
      by (rule hx_step_consistent [OF Suc.prems(3) calculation(3) Suc.prems(4)])
    ultimately show ?thesis
      using Suc.IH [OF c(1), of d1 "hx1\<lparr>hx_lastsubencoding := unat (unread s ! 0), hx_tiles := n\<rparr>"] t c(2) True
      by simp
  next
    case False
    then show ?thesis
      using t c by simp
  qed
qed simp

lemma hextile_loop_append:
  assumes "hx_tiles hx = n" "renderQ d = []"
  shows "hx_loop_spec x y width height n hx (u @ bs) d =
     (case hx_loop_spec x y width height n hx u d of (r, hx', u', d') \<Rightarrow>
        if r = Inr False then hx_loop_spec x y width height (hx_tiles hx') hx' (u' @ bs) d'
        else (r, hx', u' @ bs, d'))"
  using assms
proof (induction n arbitrary: hx u d)
  case (Suc n)
  obtain r hx1 u1 d1 where t: "hx_tile_spec x y width height hx u d = (r, hx1, u1, d1)"
    by (metis prod_cases4)
  note keeps = tile_keeps [OF t Suc.prems(2)]
  show ?case
  proof (cases "r = Inr True")
    case True
    have "u \<noteq> []"
      using tile_first_byte t True by blast
    then show ?thesis
      using Suc.IH [of "hx1\<lparr>hx_lastsubencoding := unat (u ! 0), hx_tiles := n\<rparr>" d1 u1] keeps t True
        tile_append [of x y width height hx u bs d]
      by (simp add: nth_append)
  next
    case False
    show ?thesis
    proof (cases "r = Inr False")
      case wait: True
      then show ?thesis
        using keeps t Suc.prems(1) by simp
    next
      case noteither: False
      then show ?thesis
        using False t tile_append [of x y width height hx u bs d] by simp
    qed
  qed
qed simp

lemma hextile_loop_keeps:
  assumes "hx_loop_spec x y width height n hx u d = (r, hx', u', d')" "renderQ d = []"
    and "hx_consistent width height hx" "hx_tiles hx = n"
  shows "length u' \<le> length u \<and> renderQ d' = [] \<and> hx_consistent width height hx' \<and> (r = Inr False \<longrightarrow> 0 < hx_tiles hx')"
  using assms
proof (induction n arbitrary: hx u d)
  case (Suc n)
  obtain r1 hx1 u1 d1 where t: "hx_tile_spec x y width height hx u d = (r1, hx1, u1, d1)"
    by (metis prod_cases4)
  note keeps = tile_keeps [OF t Suc.prems(2)]
  show ?case
  proof (cases "r1 = Inr True")
    case True
    let ?hx = "hx1\<lparr>hx_lastsubencoding := unat (u ! 0), hx_tiles := n\<rparr>"
    have "hx_loop_spec x y width height n ?hx u1 d1 = (r, hx', u', d')"
      using Suc.prems(1) t True by simp
    moreover have "hx_consistent width height ?hx"
      by (rule hx_step_consistent [OF Suc.prems(3) _ Suc.prems(4)]) (use keeps in simp)
    ultimately show ?thesis
      using Suc.IH [of ?hx u1 d1] keeps by auto
  next
    case False
    then show ?thesis
      using Suc.prems t keeps by (auto simp: hx_consistent_def hx_frame_def)
  qed
qed auto

lemma start_consistent: "hx_consistent width height hx \<Longrightarrow> hx_consistent width height (hextile_start width height hx)"
  by (auto simp: hextile_start_def hx_consistent_def Let_def)

lemma start_again: "0 < hx_tiles hx \<Longrightarrow> hextile_start width height hx = hx"
  by (simp add: hextile_start_def)

interpretation hextile: resumable "hextile_decodeRect x y width height" "hextile_spec x y width height"
    "\<lambda>hx d. renderQ d = [] \<and> hx_consistent width height hx" for x y width height
proof
  fix hx hx' :: hextile and s s' :: websock and d d' :: display and r u u' bs
  assume ok: "renderQ d = [] \<and> hx_consistent width height hx"
  let ?hx = "hextile_start width height hx"
  have start: "hx_consistent width height ?hx"
    using ok start_consistent by blast
  show "rq_wf s' \<and> hextile_spec x y width height hx (unread s) d = (r, hx', unread s', d')"
    if "rq_wf s" "hextile_decodeRect x y width height hx s d = (r, hx', s', d')"
    using hextile_loop_code [OF that(1) conjunct1 [OF ok] start refl, of x y] that(2)
    by (simp add: hextile_decodeRect_def hextile_spec_def Let_def)
  show "renderQ d' = [] \<and> hx_consistent width height hx'"
    if "hextile_spec x y width height hx u d = (Inr False, hx', u', d')"
    using hextile_loop_keeps [of x y width height _ ?hx u d] that ok start by (auto simp: hextile_spec_def Let_def)
  show "length u' \<le> length u" if "hextile_spec x y width height hx u d = (r, hx', u', d')"
    using hextile_loop_keeps [of x y width height _ ?hx u d] that ok start by (auto simp: hextile_spec_def Let_def)
  obtain r1 hx1 u1 d1 where l: "hx_loop_spec x y width height (hx_tiles ?hx) ?hx u d = (r1, hx1, u1, d1)"
    by (metis prod_cases4)
  have "r1 = Inr False \<longrightarrow> hextile_start width height hx1 = hx1"
    using hextile_loop_keeps [OF l] ok start start_again by auto
  then show "hextile_spec x y width height hx (u @ bs) d =
      resume (hextile_spec x y width height) (hextile_spec x y width height hx u d) bs"
    using hextile_loop_append [where hx = ?hx and x = x and y = y and width = width and height = height
        and u = u and bs = bs, OF refl conjunct1 [OF ok]] l
    by (auto simp: hextile_spec_def resume_def Let_def)
qed

text \<open>C13. A hextile rectangle depends only on the stream of bytes, not on how it is cut into
  messages: fed message by message from the start of the rectangle, while no image or frame is
  queued on the display and the bytes fit the receive queue, the decoder ends with the outcome, the
  state, the picture and the unread bytes that the stream prescribes, which are the same for every
  other way of cutting it.  (With an image in the queue a raw tile is drawn later and from the start
  of the receive buffer, display.js:400: \<open>blit_of_a_view\<close>.)\<close>

theorem hextile_chunks:
  assumes "renderQ d = []" "hx_tiles hx = 0" "rq_wf s"
    and "length (unread s) + length (concat bss) \<le> MAX_RQ_GROW_SIZE" "concat bss = concat css"
    and "feed (hextile_decodeRect x y width height) bss hx s d = (r, hx', s', d')"
    and "feed (hextile_decodeRect x y width height) css hx s d = (r2, hx2, s2, d2)"
  shows "hextile_spec x y width height hx (unread s @ concat bss) d = (r, hx', unread s', d')
    \<and> r = r2 \<and> hx' = hx2 \<and> d' = d2 \<and> unread s' = unread s2"
proof -
  have ok: "renderQ d = [] \<and> hx_consistent width height hx"
    using assms(1,2) by (simp add: hx_consistent_def)
  show ?thesis
    using hextile.feed_spec [OF ok assms(3,4,6)] hextile.feed_same [OF ok assms(3-7)] by blast
qed

theorem hextile_chunks_witness:
  "unread (fst (snd (snd (feed (hextile_decodeRect 0 0 1 1) [[9], [8, 7, 6, 5]] new_hextile two_bytes (new_display 4 4))))) =
   unread (fst (snd (snd (feed (hextile_decodeRect 0 0 1 1) [[9, 8, 7, 6, 5]] new_hextile two_bytes (new_display 4 4)))))"
proof -
  obtain r hx s d where e: "feed (hextile_decodeRect 0 0 1 1) [[9], [8, 7, 6, 5]] new_hextile two_bytes (new_display 4 4) = (r, hx, s, d)"
    by (metis prod_cases4)
  obtain r2 hx2 s2 d2 where e2: "feed (hextile_decodeRect 0 0 1 1) [[9, 8, 7, 6, 5]] new_hextile two_bytes (new_display 4 4) = (r2, hx2, s2, d2)"
    by (metis prod_cases4)
  have "rq_wf two_bytes" "unread two_bytes = [1, 2]"
    by (simp_all add: two_bytes_def new_websock_def rq_wf_def unread_def MAX_RQ_GROW_SIZE_def)
  then show ?thesis
    using hextile_chunks [OF _ _ _ _ _ e e2] e e2
    by (simp add: new_display_def new_hextile_def MAX_RQ_GROW_SIZE_def)
qed

end
