(* ===== verification/Des.thy ===== *)
theory Des
  imports JsBase
begin

text \<open>
  Model of \<open>core/crypto/des.js\<close>: the DES cipher that answers the challenge of VNC
  authentication (\<open>DES-ECB\<close>) and hides the credentials of MS-Logon II (\<open>DES-CBC\<close>).

  The bitwise operators of the language work on 32 bits, so every number of the cipher is a
  \<open>32 word\<close>; \<open>>>>\<close> is \<open>drop_bit\<close> and \<open><<\<close> is \<open>push_bit\<close>.  The lemmas show that the reversed
  keys undo \<open>enc8\<close>, and that the two modes can be undone whenever the block cipher can.
\<close>

section \<open>Tables\<close>

definition PC2 :: "nat list" where
  "PC2 = [13,16,10,23, 0, 4, 2,27,14, 5,20, 9,22,18,11, 3,
          25, 7,15, 6,26,19,12, 1,40,51,30,36,46,54,29,39,
          50,44,32,47,43,48,38,55,33,52,45,41,49,35,28,31]"

definition totrot :: "nat list" where
  "totrot = [1, 2, 4, 6, 8,10,12,14,15,17,19,21,23,25,27,28]"

definition SP1 :: "32 word list" where
  "SP1 =
     (let z = 0; a = push_bit 16 1; b = push_bit 24 1; c = a OR b;
          d = push_bit 2 1; e = push_bit 10 1; f = d OR e
      in [c OR e, z OR z, a OR z, c OR f, c OR d, a OR f, z OR d, a OR z,
          z OR e, c OR e, c OR f, z OR e, b OR f, c OR d, b OR z, z OR d,
          z OR f, b OR e, b OR e, a OR e, a OR e, c OR z, c OR z, b OR f,
          a OR d, b OR d, b OR d, a OR d, z OR z, z OR f, a OR f, b OR z,
          a OR z, c OR f, z OR d, c OR z, c OR e, b OR z, b OR z, z OR e,
          c OR d, a OR z, a OR e, b OR d, z OR e, z OR d, b OR f, a OR f,
          c OR f, a OR d, c OR z, b OR f, b OR d, z OR f, a OR f, c OR e,
          z OR f, b OR e, b OR e, z OR z, a OR d, a OR e, z OR z, c OR d])"

definition SP2 :: "32 word list" where
  "SP2 =
     (let z = 0; a = push_bit 20 1; b = push_bit 31 1; c = a OR b;
          d = push_bit 5 1; e = push_bit 15 1; f = d OR e
      in [c OR f, b OR e, z OR e, a OR f, a OR z, z OR d, c OR d, b OR f,
          b OR d, c OR f, c OR e, b OR z, b OR e, a OR z, z OR d, c OR d,
          a OR e, a OR d, b OR f, z OR z, b OR z, z OR e, a OR f, c OR z,
          a OR d, b OR d, z OR z, a OR e, z OR f, c OR e, c OR z, z OR f,
          z OR z, a OR f, c OR d, a OR z, b OR f, c OR z, c OR e, z OR e,
          c OR z, b OR e, z OR d, c OR f, a OR f, z OR d, z OR e, b OR z,
          z OR f, c OR e, a OR z, b OR d, a OR d, b OR f, b OR d, a OR d,
          a OR e, z OR z, b OR e, z OR f, b OR z, c OR d, c OR f, a OR e])"

definition SP3 :: "32 word list" where
  "SP3 =
     (let z = 0; a = push_bit 17 1; b = push_bit 27 1; c = a OR b;
          d = push_bit 3 1; e = push_bit 9 1; f = d OR e
      in [z OR f, c OR e, z OR z, c OR d, b OR e, z OR z, a OR f, b OR e,
          a OR d, b OR d, b OR d, a OR z, c OR f, a OR d, c OR z, z OR f,
          b OR z, z OR d, c OR e, z OR e, a OR e, c OR z, c OR d, a OR f,
          b OR f, a OR e, a OR z, b OR f, z OR d, c OR f, z OR e, b OR z,
          c OR e, b OR z, a OR d, z OR f, a OR z, c OR e, b OR e, z OR z,
          z OR e, a OR d, c OR f, b OR e, b OR d, z OR e, z OR z, c OR d,
          b OR f, a OR z, b OR z, c OR f, z OR d, a OR f, a OR e, b OR d,
          c OR z, b OR f, z OR f, c OR z, a OR f, z OR d, c OR d, a OR e])"

definition SP4 :: "32 word list" where
  "SP4 =
     (let z = 0; a = push_bit 13 1; b = push_bit 23 1; c = a OR b;
          d = push_bit 0 1; e = push_bit 7 1; f = d OR e
      in [c OR d, a OR f, a OR f, z OR e, c OR e, b OR f, b OR d, a OR d,
          z OR z, c OR z, c OR z, c OR f, z OR f, z OR z, b OR e, b OR d,
          z OR d, a OR z, b OR z, c OR d, z OR e, b OR z, a OR d, a OR e,
          b OR f, z OR d, a OR e, b OR e, a OR z, c OR e, c OR f, z OR f,
          b OR e, b OR d, c OR z, c OR f, z OR f, z OR z, z OR z, c OR z,
          a OR e, b OR e, b OR f, z OR d, c OR d, a OR f, a OR f, z OR e,
          c OR f, z OR f, z OR d, a OR z, b OR d, a OR d, c OR e, b OR f,
          a OR d, a OR e, b OR z, c OR d, z OR e, b OR z, a OR z, c OR e])"

definition SP5 :: "32 word list" where
  "SP5 =
     (let z = 0; a = push_bit 25 1; b = push_bit 30 1; c = a OR b;
          d = push_bit 8 1; e = push_bit 19 1; f = d OR e
      in [z OR d, a OR f, a OR e, c OR d, z OR e, z OR d, b OR z, a OR e,
          b OR f, z OR e, a OR d, b OR f, c OR d, c OR e, z OR f, b OR z,
          a OR z, b OR e, b OR e, z OR z, b OR d, c OR f, c OR f, a OR d,
          c OR e, b OR d, z OR z, c OR z, a OR f, a OR z, c OR z, z OR f,
          z OR e, c OR d, z OR d, a OR z, b OR z, a OR e, c OR d, b OR f,
          a OR d, b OR z, c OR e, a OR f, b OR f, z OR d, a OR z, c OR e,
          c OR f, z OR f, c OR z, c OR f, a OR e, z OR z, b OR e, c OR z,
          z OR f, a OR d, b OR d, z OR e, z OR z, b OR e, a OR f, b OR d])"

definition SP6 :: "32 word list" where
  "SP6 =
     (let z = 0; a = push_bit 22 1; b = push_bit 29 1; c = a OR b;
          d = push_bit 4 1; e = push_bit 14 1; f = d OR e
      in [b OR d, c OR z, z OR e, c OR f, c OR z, z OR d, c OR f, a OR z,
          b OR e, a OR f, a OR z, b OR d, a OR d, b OR e, b OR z, z OR f,
          z OR z, a OR d, b OR f, z OR e, a OR e, b OR f, z OR d, c OR d,
          c OR d, z OR z, a OR f, c OR e, z OR f, a OR e, c OR e, b OR z,
          b OR e, z OR d, c OR d, a OR e, c OR f, a OR z, z OR f, b OR d,
          a OR z, b OR e, b OR z, z OR f, b OR d, c OR f, a OR e, c OR z,
          a OR f, c OR e, z OR z, c OR d, z OR d, z OR e, c OR z, a OR f,
          z OR e, a OR d, b OR f, z OR z, c OR e, b OR z, a OR d, b OR f])"

definition SP7 :: "32 word list" where
  "SP7 =
     (let z = 0; a = push_bit 21 1; b = push_bit 26 1; c = a OR b;
          d = push_bit 1 1; e = push_bit 11 1; f = d OR e
      in [a OR z, c OR d, b OR f, z OR z, z OR e, b OR f, a OR f, c OR e,
          c OR f, a OR z, z OR z, b OR d, z OR d, b OR z, c OR d, z OR f,
          b OR e, a OR f, a OR d, b OR e, b OR d, c OR z, c OR e, a OR d,
          c OR z, z OR e, z OR f, c OR f, a OR e, z OR d, b OR z, a OR e,
          b OR z, a OR e, a OR z, b OR f, b OR f, c OR d, c OR d, z OR d,
          a OR d, b OR z, b OR e, a OR z, c OR e, z OR f, a OR f, c OR e,
          z OR f, b OR d, c OR f, c OR z, a OR e, z OR z, z OR d, c OR f,
          z OR z, a OR f, c OR z, z OR e, b OR d, b OR e, z OR e, a OR d])"

definition SP8 :: "32 word list" where
  "SP8 =
     (let z = 0; a = push_bit 18 1; b = push_bit 28 1; c = a OR b;
          d = push_bit 6 1; e = push_bit 12 1; f = d OR e
      in [b OR f, z OR e, a OR z, c OR f, b OR z, b OR f, z OR d, b OR z,
          a OR d, c OR z, c OR f, a OR e, c OR e, a OR f, z OR e, z OR d,
          c OR z, b OR d, b OR e, z OR f, a OR e, a OR d, c OR d, c OR e,
          z OR f, z OR z, z OR z, c OR d, b OR d, b OR e, a OR f, a OR z,
          a OR f, a OR z, c OR e, z OR e, z OR d, c OR d, z OR e, a OR f,
          b OR e, z OR d, b OR d, c OR z, c OR d, b OR z, a OR z, b OR f,
          z OR z, c OR f, a OR d, b OR d, c OR z, b OR e, b OR f, z OR z,
          c OR f, a OR e, a OR e, z OR f, z OR f, a OR d, b OR z, c OR e])"

section \<open>Key schedule\<close>

text \<open>The walk of \<open>l\<close> through the bits of the password (PC1): the value after each adjustment.\<close>

fun pc1_walk :: "nat \<Rightarrow> int \<Rightarrow> int list" where
  "pc1_walk 0 l = []"
| "pc1_walk (Suc j) l =
     (let l = l + (if l < - 5 then 65 else if l < - 3 then 31 else if l < - 1 then 63
                   else if l = 27 then 35 else 0)
      in l # pc1_walk j (l - 8))"

text \<open>A character behind the end of the password is \<open>undefined\<close>, which \<open>&\<close> takes for 0.\<close>

definition pw_char :: "nat list \<Rightarrow> nat \<Rightarrow> nat" where
  "pw_char password i = (if i < length password then password ! i else 0)"

definition pc1m_of :: "nat list \<Rightarrow> bool list" where
  "pc1m_of password =
     map (\<lambda>l. bit (pw_char password (nat l div 8)) (nat l mod 8)) (pc1_walk 56 56)"

definition pcr_of :: "bool list \<Rightarrow> nat \<Rightarrow> bool list" where
  "pcr_of pc1m i = concat (map (\<lambda>off. map (\<lambda>j.
     let l = j + totrot ! i in if l < off then pc1m ! l else pc1m ! (l - 28)) [off - 28..<off]) [28, 56])"

text \<open>The 24 bits that \<open>sel\<close> picks from the rotated key, first bit highest.\<close>

definition kn_of :: "bool list \<Rightarrow> nat list \<Rightarrow> 32 word" where
  "kn_of pcr sel = fold (\<lambda>j k. if pcr ! (sel ! j) then k OR push_bit (23 - j) 1 else k) [0..<24] 0"

definition cookey :: "32 word \<Rightarrow> 32 word \<Rightarrow> 32 word list" where
  "cookey raw0 raw1 =
     [push_bit 6 (raw0 AND 0x00fc0000) OR push_bit 10 (raw0 AND 0x00000fc0)
        OR drop_bit 10 (raw1 AND 0x00fc0000) OR drop_bit 6 (raw1 AND 0x00000fc0),
      push_bit 12 (raw0 AND 0x0003f000) OR push_bit 16 (raw0 AND 0x0000003f)
        OR drop_bit 4 (raw1 AND 0x0003f000) OR (raw1 AND 0x0000003f)]"

definition des_keys :: "nat list \<Rightarrow> 32 word list" where
  "des_keys password =
     (let pc1m = pc1m_of password
      in concat (map (\<lambda>i. let pcr = pcr_of pc1m i
                          in cookey (kn_of pcr (take 24 PC2)) (kn_of pcr (drop 24 PC2))) [0..<16]))"

section \<open>Encryption of a block\<close>

text \<open>
  The exchanges of bits between the two halves: \<open>swap_r\<close> shifts the first half down, \<open>swap_l\<close>
  the second, \<open>swap_0\<close> neither.
\<close>

type_synonym halves = "32 word \<times> 32 word"

definition swap_r :: "nat \<Rightarrow> 32 word \<Rightarrow> halves \<Rightarrow> halves" where
  "swap_r n m = (\<lambda>(l, r). let x = (drop_bit n l XOR r) AND m in (l XOR push_bit n x, r XOR x))"

definition swap_l :: "nat \<Rightarrow> 32 word \<Rightarrow> halves \<Rightarrow> halves" where
  "swap_l n m = (\<lambda>(l, r). let x = (drop_bit n r XOR l) AND m in (l XOR x, r XOR push_bit n x))"

definition swap_0 :: "32 word \<Rightarrow> halves \<Rightarrow> halves" where
  "swap_0 m = (\<lambda>(l, r). let x = (l XOR r) AND m in (l XOR x, r XOR x))"

definition rol1 :: "32 word \<Rightarrow> 32 word" where
  "rol1 w = push_bit 1 w OR (drop_bit 31 w AND 1)"

definition ror1 :: "32 word \<Rightarrow> 32 word" where
  "ror1 w = push_bit 31 w OR drop_bit 1 w"

definition des_ip :: "halves \<Rightarrow> halves" where
  "des_ip lr =
     (let lr = swap_r 4 0x0f0f0f0f lr;
          lr = swap_r 16 0x0000ffff lr;
          lr = swap_l 2 0x33333333 lr;
          lr = swap_l 8 0x00ff00ff lr;
          (l, r) = swap_0 0xaaaaaaaa (fst lr, rol1 (snd lr))
      in (rol1 l, r))"

definition des_fp :: "halves \<Rightarrow> halves" where
  "des_fp lr =
     (let (l, r) = swap_0 0xaaaaaaaa (fst lr, ror1 (snd lr));
          lr = swap_r 8 0x00ff00ff (ror1 l, r);
          lr = swap_r 2 0x33333333 lr;
          lr = swap_l 16 0x0000ffff lr
      in swap_l 4 0x0f0f0f0f lr)"

definition six :: "nat \<Rightarrow> 32 word \<Rightarrow> nat" where
  "six n x = unat (drop_bit n x AND 0x3f)"

text \<open>One half of a pass of the loop: the value that is added to the other half.\<close>

definition fval :: "32 word \<Rightarrow> 32 word \<Rightarrow> 32 word \<Rightarrow> 32 word" where
  "fval k0 k1 r =
     (let x = (push_bit 28 r OR drop_bit 4 r) XOR k0;
          y = r XOR k1
      in SP7 ! six 0 x OR SP5 ! six 8 x OR SP3 ! six 16 x OR SP1 ! six 24 x
         OR SP8 ! six 0 y OR SP6 ! six 8 y OR SP4 ! six 16 y OR SP2 ! six 24 y)"

fun des_rounds :: "32 word list \<Rightarrow> halves \<Rightarrow> halves" where
  "des_rounds (k0 # k1 # k2 # k3 # ks) (l, r) =
     (let l = l XOR fval k0 k1 r;
          r = r XOR fval k2 k3 l
      in des_rounds ks (l, r))"
| "des_rounds _ lr = lr"

definition squash :: "byte list \<Rightarrow> 32 word" where
  "squash b = push_bit 24 (ucast (b ! 0)) OR push_bit 16 (ucast (b ! 1)) OR push_bit 8 (ucast (b ! 2))
     OR ucast (b ! 3)"

definition spread :: "32 word \<Rightarrow> byte list" where
  "spread w = [ucast (drop_bit 24 w), ucast (drop_bit 16 w), ucast (drop_bit 8 w), ucast w]"

text \<open>\<open>enc8\<close> on a block of eight bytes.\<close>

definition enc8 :: "32 word list \<Rightarrow> byte list \<Rightarrow> byte list" where
  "enc8 keys text =
     (case des_fp (des_rounds keys (des_ip (squash text, squash (drop 4 text)))) of
        (l, r) \<Rightarrow> spread r @ spread l)"

section \<open>Modes\<close>

text \<open>
  The loops of the two \<open>encrypt\<close> methods over the blocks of the plaintext, for a block cipher
  \<open>enc\<close>; \<open>None\<close> is the value \<open>null\<close> of a plaintext that is no sequence of whole blocks.
\<close>

fun ecb_blocks :: "(byte list \<Rightarrow> byte list) \<Rightarrow> nat \<Rightarrow> byte list \<Rightarrow> byte list" where
  "ecb_blocks enc 0 x = []"
| "ecb_blocks enc (Suc n) x = enc (take 8 x) @ ecb_blocks enc n (drop 8 x)"

fun cbc_blocks :: "(byte list \<Rightarrow> byte list) \<Rightarrow> nat \<Rightarrow> byte list \<Rightarrow> byte list \<Rightarrow> byte list" where
  "cbc_blocks enc 0 y x = []"
| "cbc_blocks enc (Suc n) y x =
     (let y = enc (map2 (XOR) y (take 8 x)) in y @ cbc_blocks enc n y (drop 8 x))"

definition des_ecb_encrypt :: "nat list \<Rightarrow> byte list \<Rightarrow> byte list option" where
  "des_ecb_encrypt key plaintext =
     (if length plaintext mod 8 \<noteq> 0 then None
      else Some (ecb_blocks (enc8 (des_keys key)) (length plaintext div 8) plaintext))"

definition des_cbc_encrypt :: "nat list \<Rightarrow> byte list \<Rightarrow> byte list \<Rightarrow> byte list option" where
  "des_cbc_encrypt key iv plaintext =
     (if length plaintext mod 8 \<noteq> 0 then None
      else Some (cbc_blocks (enc8 (des_keys key)) (length plaintext div 8) iv plaintext))"

section \<open>The cipher can be undone\<close>

lemma masked_shift:
  fixes m v :: "32 word"
  assumes "take_bit (32 - n) m = m" "n \<le> 32"
  shows "drop_bit n (push_bit n v) AND m = v AND m"
proof (rule bit_word_eqI)
  fix k :: nat
  assume k: "k < LENGTH(32)"
  have "bit m k \<Longrightarrow> k < 32 - n"
    using assms(1) by (metis bit_take_bit_iff)
  then show "bit (drop_bit n (push_bit n v) AND m) k = bit (v AND m) k"
    using k assms(2) by (auto simp: bit_simps)
qed

lemma swap_r_twice:
  assumes "take_bit (32 - n) m = m" "n \<le> 32"
  shows "swap_r n m (swap_r n m (l, r)) = (l, r)"
proof -
  define x where "x = (drop_bit n l XOR r) AND m"
  have xm: "x AND m = x"
    by (simp add: x_def and.assoc)
  have "(drop_bit n (l XOR push_bit n x) XOR (r XOR x)) AND m
      = (drop_bit n l XOR r) AND m XOR ((drop_bit n (push_bit n x) AND m) XOR (x AND m))"
    by (rule bit_word_eqI) (auto simp: bit_simps)
  also have "\<dots> = x"
    by (simp add: masked_shift [OF assms] xm) (simp add: x_def)
  finally have x2: "(drop_bit n (l XOR push_bit n x) XOR (r XOR x)) AND m = x" .
  have step: "swap_r n m (a, b) =
      (a XOR push_bit n ((drop_bit n a XOR b) AND m), b XOR ((drop_bit n a XOR b) AND m))" for a b
    by (simp add: swap_r_def Let_def)
  show ?thesis
    unfolding step x_def [symmetric] x2 by (simp only: xor.assoc xor_self_eq xor.right_neutral)
qed

lemma swap_l_swap_r: "swap_l n m (l, r) = prod.swap (swap_r n m (r, l))"
  by (simp add: swap_l_def swap_r_def Let_def)

lemma swap_l_twice:
  assumes "take_bit (32 - n) m = m" "n \<le> 32"
  shows "swap_l n m (swap_l n m (l, r)) = (l, r)"
proof -
  obtain a b where "swap_r n m (r, l) = (a, b)"
    by (cases "swap_r n m (r, l)")
  then show ?thesis
    using swap_r_twice [OF assms, of r l] by (simp add: swap_l_swap_r)
qed

lemma swap_0_twice: "swap_0 m (swap_0 m (l, r)) = (l, r)"
proof -
  define x where "x = (l XOR r) AND m"
  have "((l XOR x) XOR (r XOR x)) AND m = x"
    unfolding x_def by (rule bit_word_eqI) (auto simp: bit_simps)
  then show ?thesis
    by (simp add: swap_0_def Let_def x_def [symmetric] xor.assoc)
qed

lemma bit_rol1: "n < 32 \<Longrightarrow> bit (rol1 w) n = bit w (if n = 0 then 31 else n - 1)"
  unfolding rol1_def bit_or_iff bit_push_bit_iff bit_and_iff bit_drop_bit_eq bit_1_iff
  by (auto simp: Suc_le_eq)

lemma bit_ror1: "n < 32 \<Longrightarrow> bit (ror1 w) n = bit w (if n = 31 then 0 else n + 1)"
  unfolding ror1_def bit_or_iff bit_push_bit_iff bit_drop_bit_eq
  using bit_imp_le_length [of w "Suc n"] by auto

lemma rol1_ror1 [simp]: "rol1 (ror1 w) = w" "ror1 (rol1 w) = w"
  by (rule bit_word_eqI, auto simp: bit_rol1 bit_ror1)+

text \<open>The closing permutation, with the halves exchanged, is the inverse of the opening one.\<close>

lemma swap_steps:
  "swap_r 4 0x0f0f0f0f (swap_r 4 0x0f0f0f0f lr) = lr"
  "swap_r 16 0x0000ffff (swap_r 16 0x0000ffff lr) = lr"
  "swap_l 2 0x33333333 (swap_l 2 0x33333333 lr) = lr"
  "swap_l 8 0x00ff00ff (swap_l 8 0x00ff00ff lr) = lr"
  by (cases lr, simp add: swap_r_twice swap_l_twice)+

lemma swap_r_swap_l: "swap_r n m (r, l) = prod.swap (swap_l n m (l, r))"
  by (simp add: swap_l_def swap_r_def Let_def)

lemma swap_0_swap: "swap_0 m (r, l) = prod.swap (swap_0 m (l, r))"
  by (simp add: swap_0_def Let_def xor.commute)

definition des_ip_inv :: "halves \<Rightarrow> halves" where
  "des_ip_inv lr =
     (let (l, r) = swap_0 0xaaaaaaaa (ror1 (fst lr), snd lr);
          lr = swap_l 8 0x00ff00ff (l, ror1 r);
          lr = swap_l 2 0x33333333 lr;
          lr = swap_r 16 0x0000ffff lr
      in swap_r 4 0x0f0f0f0f lr)"

lemma des_fp_swap: "des_fp (l, r) = prod.swap (des_ip_inv (r, l))"
proof -
  obtain a b where 0: "swap_0 0xaaaaaaaa (l, ror1 r) = (a, b)"
    by fastforce
  obtain c d where 1: "swap_r 8 0x00ff00ff (ror1 a, b) = (c, d)"
    by fastforce
  obtain e f where 2: "swap_r 2 0x33333333 (c, d) = (e, f)"
    by fastforce
  obtain g h where 3: "swap_l 16 0x0000ffff (e, f) = (g, h)"
    by fastforce
  have "swap_0 0xaaaaaaaa (ror1 r, l) = (b, a)"
    using 0 by (subst swap_0_swap) simp
  moreover have "swap_l 8 0x00ff00ff (b, ror1 a) = (d, c)"
    using 1 by (simp add: swap_l_swap_r)
  moreover have "swap_l 2 0x33333333 (d, c) = (f, e)"
    using 2 by (simp add: swap_l_swap_r)
  moreover have "swap_r 16 0x0000ffff (f, e) = (h, g)"
    using 3 by (simp add: swap_r_swap_l)
  moreover have "swap_r 4 0x0f0f0f0f (h, g) = prod.swap (swap_l 4 0x0f0f0f0f (g, h))"
    by (rule swap_r_swap_l)
  ultimately show ?thesis
    using 0 1 2 3 by (simp add: des_fp_def des_ip_inv_def Let_def)
qed

lemma des_ip_inverse: "des_ip_inv (des_ip lr) = lr" "des_ip (des_ip_inv lr) = lr"
proof -
  obtain l r where 0: "swap_l 8 0x00ff00ff (swap_l 2 0x33333333 (swap_r 16 0x0000ffff
      (swap_r 4 0x0f0f0f0f lr))) = (l, r)"
    by fastforce
  obtain a b where 1: "swap_0 0xaaaaaaaa (l, rol1 r) = (a, b)"
    by fastforce
  have "swap_0 0xaaaaaaaa (a, b) = (l, rol1 r)"
    using 1 swap_0_twice by metis
  moreover have "swap_l 8 0x00ff00ff (l, r) = swap_l 2 0x33333333 (swap_r 16 0x0000ffff
      (swap_r 4 0x0f0f0f0f lr))"
    using 0 swap_steps(4) by metis
  ultimately show "des_ip_inv (des_ip lr) = lr"
    using 0 1 by (simp add: des_ip_def des_ip_inv_def Let_def swap_steps)
next
  obtain l r where 0: "swap_0 0xaaaaaaaa (ror1 (fst lr), snd lr) = (l, r)"
    by fastforce
  then have "swap_0 0xaaaaaaaa (l, r) = (ror1 (fst lr), snd lr)"
    using swap_0_twice by metis
  then show "des_ip (des_ip_inv lr) = lr"
    using 0 by (simp add: des_ip_def des_ip_inv_def Let_def swap_steps)
qed

text \<open>The loop with its pairs of keys in the opposite order goes the way back.\<close>

fun rev_pairs :: "32 word list \<Rightarrow> 32 word list" where
  "rev_pairs (k0 # k1 # ks) = rev_pairs ks @ [k0, k1]"
| "rev_pairs ks = []"

fun fours :: "'a list \<Rightarrow> bool" where
  "fours [] = True"
| "fours (k0 # k1 # k2 # k3 # ks) = fours ks"
| "fours _ = False"

lemma fours_append: "fours xs \<Longrightarrow> fours ys \<Longrightarrow> fours (xs @ ys)"
  by (induction xs rule: fours.induct) simp_all

lemma des_rounds_append: "fours xs \<Longrightarrow> des_rounds (xs @ ys) lr = des_rounds ys (des_rounds xs lr)"
proof (induction xs arbitrary: lr rule: fours.induct)
  case (2 k0 k1 k2 k3 ks)
  then show ?case
    by (cases lr) (simp add: Let_def)
qed simp_all

lemma fours_rev_pairs: "fours ks \<Longrightarrow> fours (rev_pairs ks)"
  by (induction ks rule: fours.induct) (simp_all add: fours_append)

lemma des_rounds_undo:
  "fours ks \<Longrightarrow> des_rounds (rev_pairs ks) (prod.swap (des_rounds ks lr)) = prod.swap lr"
proof (induction ks arbitrary: lr rule: fours.induct)
  case (2 k0 k1 k2 k3 ks)
  obtain l r where lr: "lr = (l, r)"
    by fastforce
  show ?case
    using 2 by (simp add: lr Let_def des_rounds_append fours_rev_pairs xor.assoc)
qed simp_all

lemma bit_low_byte: "bit (ucast (ucast (v :: 32 word) :: byte) :: 32 word) k \<longleftrightarrow> k < 8 \<and> bit v k"
  by (auto simp: bit_ucast_iff)

lemma squash_Cons:
  "squash (b0 # b1 # b2 # b3 # bs) =
     push_bit 24 (ucast b0) OR push_bit 16 (ucast b1) OR push_bit 8 (ucast b2) OR ucast b3"
  by (simp add: squash_def)

lemma squash_spread: "squash (spread w @ bs) = w"
proof (rule bit_word_eqI)
  fix n :: nat
  assume n: "n < LENGTH(32)"
  have b: "bit (squash (spread w @ bs)) n \<longleftrightarrow>
      24 \<le> n \<and> n - 24 < 8 \<and> bit w (24 + (n - 24)) \<or> 16 \<le> n \<and> n - 16 < 8 \<and> bit w (16 + (n - 16))
    \<or> 8 \<le> n \<and> n - 8 < 8 \<and> bit w (8 + (n - 8)) \<or> n < 8 \<and> bit w n"
    using n by (simp only: spread_def append_Cons squash_Cons bit_or_iff bit_push_bit_iff bit_low_byte
        bit_drop_bit_eq comp_apply) simp
  have r: "24 \<le> n \<and> n - 24 < 8 \<or> 16 \<le> n \<and> n - 16 < 8 \<or> 8 \<le> n \<and> n - 8 < 8 \<or> n < 8"
    using n unfolding len_bit0 len_num1 by presburger
  show "bit (squash (spread w @ bs)) n = bit w n"
    unfolding b using r by auto
qed

lemma byte_bit_high: "8 \<le> k \<Longrightarrow> \<not> bit (x :: byte) k"
  using bit_imp_le_length [of x k] by auto

lemma bit_squash:
  "n < 32 \<Longrightarrow> bit (squash (b0 # b1 # b2 # b3 # bs)) n \<longleftrightarrow>
     24 \<le> n \<and> bit b0 (n - 24) \<or> 16 \<le> n \<and> bit b1 (n - 16) \<or> 8 \<le> n \<and> bit b2 (n - 8) \<or> bit b3 n"
  by (simp add: squash_Cons bit_or_iff bit_push_bit_iff bit_ucast_iff) auto

lemma spread_squash_Cons: "spread (squash (b0 # b1 # b2 # b3 # bs)) = [b0, b1, b2, b3]"
proof -
  let ?w = "squash (b0 # b1 # b2 # b3 # bs)"
  have "ucast (drop_bit 24 ?w) = b0"
    by (rule bit_word_eqI) (simp add: bit_ucast_iff bit_drop_bit_eq bit_squash byte_bit_high)
  moreover have "ucast (drop_bit 16 ?w) = b1"
    by (rule bit_word_eqI) (simp add: bit_ucast_iff bit_drop_bit_eq bit_squash byte_bit_high)
  moreover have "ucast (drop_bit 8 ?w) = b2"
    by (rule bit_word_eqI) (simp add: bit_ucast_iff bit_drop_bit_eq bit_squash byte_bit_high)
  moreover have "ucast ?w = b3"
    by (rule bit_word_eqI) (simp add: bit_ucast_iff bit_drop_bit_eq bit_squash byte_bit_high)
  ultimately show ?thesis
    by (simp add: spread_def)
qed

lemma spread_squash: "length b = 8 \<Longrightarrow> spread (squash b) @ spread (squash (drop 4 b)) = b"
  by (auto simp: spread_squash_Cons length_Suc_conv numeral_eq_Suc)

lemma length_spread [simp]: "length (spread w) = 4"
  by (simp add: spread_def)

lemma length_enc8 [simp]: "length (enc8 keys b) = 8"
  by (simp add: enc8_def split: prod.split)

lemma enc8_undo:
  assumes "fours keys" "length b = 8"
  shows "enc8 (rev_pairs keys) (enc8 keys b) = b"
proof -
  define lr where "lr = (squash b, squash (drop 4 b))"
  obtain l r where fin: "des_rounds keys (des_ip lr) = (l, r)"
    by fastforce
  obtain r' l' where inv: "des_ip_inv (r, l) = (r', l')"
    by fastforce
  obtain a c where ip: "des_ip lr = (a, c)"
    by fastforce
  have e: "enc8 keys b = spread r' @ spread l'"
    using inv by (simp add: enc8_def lr_def [symmetric] fin des_fp_swap)
  have "des_ip (r', l') = prod.swap (des_rounds keys (des_ip lr))"
    using des_ip_inverse(2) [of "(r, l)"] by (simp add: inv fin)
  then have "des_rounds (rev_pairs keys) (des_ip (r', l')) = (c, a)"
    using des_rounds_undo [OF assms(1), of "des_ip lr"] by (simp add: ip)
  moreover have "des_ip_inv (a, c) = lr"
    using des_ip_inverse(1) [of lr] by (simp add: ip)
  ultimately have "enc8 (rev_pairs keys) (enc8 keys b) = spread (squash b) @ spread (squash (drop 4 b))"
    using squash_spread [of l' "[]"]
    unfolding e enc8_def [of "rev_pairs keys"] by (simp add: squash_spread des_fp_swap lr_def)
  then show ?thesis
    by (simp only: spread_squash [OF assms(2)])
qed

subsection \<open>The two modes\<close>

text \<open>Cipher block chaining is undone block by block, the chain being the ciphertext itself.\<close>

fun cbc_undo :: "(byte list \<Rightarrow> byte list) \<Rightarrow> nat \<Rightarrow> byte list \<Rightarrow> byte list \<Rightarrow> byte list" where
  "cbc_undo dec 0 y c = []"
| "cbc_undo dec (Suc n) y c = map2 (XOR) y (dec (take 8 c)) @ cbc_undo dec n (take 8 c) (drop 8 c)"

text \<open>What a mode needs of a block cipher: blocks go to blocks, and \<open>dec\<close> undoes \<open>enc\<close>.\<close>

locale block_cipher =
  fixes enc dec :: "byte list \<Rightarrow> byte list"
  assumes enc_length: "length (enc b) = 8"
    and dec_enc: "length b = 8 \<Longrightarrow> dec (enc b) = b"
begin

lemma ecb_length: "length (ecb_blocks enc n x) = 8 * n"
  by (induction n arbitrary: x) (simp_all add: enc_length)

lemma ecb_undo: "length x = 8 * n \<Longrightarrow> ecb_blocks dec n (ecb_blocks enc n x) = x"
  by (induction n arbitrary: x) (simp_all add: enc_length dec_enc)

lemma xor_twice: "length a = length b \<Longrightarrow> map2 (XOR) a (map2 (XOR) a b) = (b :: byte list)"
  by (induction a b rule: list_induct2) (simp_all add: xor.assoc [symmetric])

lemma cbc_undo_blocks:
  "length x = 8 * n \<Longrightarrow> length y = 8 \<Longrightarrow> cbc_undo dec n y (cbc_blocks enc n y x) = x"
  by (induction n arbitrary: x y) (simp_all add: Let_def enc_length dec_enc xor_twice)

end

lemma fours_concat: "list_all (\<lambda>k. \<exists>a b. k = [a, b]) ks \<Longrightarrow> even (length ks) \<Longrightarrow> fours (concat ks)"
  by (induction ks rule: induct_list012) auto

lemma fours_des_keys: "fours (des_keys password)"
  unfolding des_keys_def Let_def by (rule fours_concat) (auto simp: list_all_iff cookey_def)

interpretation des: block_cipher "enc8 (des_keys password)" "enc8 (rev_pairs (des_keys password))"
  for password
  by unfold_locales (simp_all add: enc8_undo fours_des_keys)

text \<open>C34. Encryption in either mode is answered by null exactly for a plaintext that is no
  sequence of whole blocks; the ciphertext has the length of the plaintext, and the cipher with its
  keys in the opposite order gives the plaintext back, for every password, vector and plaintext.\<close>

theorem des_decrypts:
  assumes "length iv = 8"
  shows "case des_ecb_encrypt key x of
      None \<Rightarrow> length x mod 8 \<noteq> 0 \<and> des_cbc_encrypt key iv x = None
    | Some c \<Rightarrow> length x mod 8 = 0 \<and> length c = length x
        \<and> ecb_blocks (enc8 (rev_pairs (des_keys key))) (length x div 8) c = x
        \<and> (\<exists>c'. des_cbc_encrypt key iv x = Some c'
             \<and> cbc_undo (enc8 (rev_pairs (des_keys key))) (length x div 8) iv c' = x)"
proof (cases "length x mod 8 = 0")
  case True
  then have "length x = 8 * (length x div 8)"
    by presburger
  then show ?thesis
    using True des.ecb_undo [of x "length x div 8" key] des.ecb_length [of key "length x div 8" x]
      des.cbc_undo_blocks [of x "length x div 8" iv key] assms
    by (simp add: des_ecb_encrypt_def des_cbc_encrypt_def)
qed (simp add: des_ecb_encrypt_def des_cbc_encrypt_def)

theorem des_decrypts_witness:
  "\<exists>c. des_ecb_encrypt [112, 119] (replicate 16 7) = Some c
     \<and> ecb_blocks (enc8 (rev_pairs (des_keys [112, 119]))) 2 c = replicate 16 7"
  using des_decrypts [where iv = "replicate 8 0" and key = "[112, 119]" and x = "replicate 16 7"]
  by (auto split: option.splits)

section \<open>The password\<close>

lemma pc1_walk_bits: "pc1_walk 56 56 =
   [56, 48, 40, 32, 24, 16, 8, 0, 57, 49, 41, 33, 25, 17, 9, 1, 58, 50, 42, 34, 26, 18, 10, 2,
    59, 51, 43, 35, 62, 54, 46, 38, 30, 22, 14, 6, 61, 53, 45, 37, 29, 21, 13, 5,
    60, 52, 44, 36, 28, 20, 12, 4, 27, 19, 11, 3]"
  by code_simp

text \<open>Only the low seven bits of the first eight characters of a password enter the keys: two
  passwords that agree there answer every challenge alike.\<close>

theorem password_significance:
  assumes "\<forall>i < 8. take_bit 7 (pw_char p i) = take_bit 7 (pw_char q i)"
  shows "des_keys p = des_keys q"
proof -
  have b: "i < 8 \<Longrightarrow> k < 7 \<Longrightarrow> bit (pw_char p i) k = bit (pw_char q i) k" for i k
    using assms by (metis bit_take_bit_iff)
  have "list_all (\<lambda>l. nat l div 8 < 8 \<and> nat l mod 8 < 7) (pc1_walk 56 56)"
    unfolding pc1_walk_bits by simp
  then have "pc1m_of p = pc1m_of q"
    unfolding pc1m_of_def using b by (auto simp: list_all_iff)
  then show ?thesis
    by (simp add: des_keys_def)
qed

theorem password_significance_witness:
  "des_keys [112, 97, 115, 115, 119, 111, 114, 100, 49] = des_keys [112, 97, 115, 115, 119, 111, 114, 100]"
proof (rule password_significance, intro allI impI)
  fix i :: nat
  assume "i < 8"
  then have "i \<in> {0, 1, 2, 3, 4, 5, 6, 7}"
    by auto
  then show "take_bit 7 (pw_char [112, 97, 115, 115, 119, 111, 114, 100, 49] i)
      = take_bit 7 (pw_char [112, 97, 115, 115, 119, 111, 114, 100] i)"
    by (auto simp: pw_char_def)
qed

end
