(* ===== verification/Dh.thy ===== *)
theory Dh
  imports JsBase
begin

text \<open>
  Model of \<open>core/crypto/bigint.js\<close> and \<open>core/crypto/dh.js\<close>: the Diffie-Hellman exchange of the
  Apple and MS-Logon II authentication schemes.

  A \<open>BigInt\<close> of this code is never negative, so it is a \<open>nat\<close>; a hexadecimal string is the list
  of its digits.  The random bytes of a private key are an argument.
\<close>

section \<open>Big integers\<close>

fun modPow_loop :: "nat \<Rightarrow> nat \<Rightarrow> nat \<Rightarrow> nat \<Rightarrow> nat" where
  "modPow_loop r b e m =
     (if e > 0 then modPow_loop (if e mod 2 = 1 then (r * b) mod m else r) ((b * b) mod m) (e div 2) m
      else r)"

declare modPow_loop.simps [simp del]

text \<open>The remainder of a division by zero is a \<open>RangeError\<close>.\<close>

definition modPow :: "nat \<Rightarrow> nat \<Rightarrow> nat \<Rightarrow> js_error + nat" where
  "modPow b e m = (if m = 0 then Inl RangeError else Inr (modPow_loop 1 (b mod m) e m))"

fun hex_digits :: "nat \<Rightarrow> nat list" where
  "hex_digits n = (if n < 16 then [n] else hex_digits (n div 16) @ [n mod 16])"

declare hex_digits.simps [simp del]

definition padStart :: "nat \<Rightarrow> nat list \<Rightarrow> nat list" where
  "padStart n ds = replicate (n - length ds) 0 @ ds"

text \<open>An array has a whole number of bytes: what an odd digit at the end would give is dropped.\<close>

definition bigIntToU8Array :: "nat \<Rightarrow> nat \<Rightarrow> byte list" where
  "bigIntToU8Array n padLength =
     (let hex = hex_digits n;
          padLength = (if padLength = 0 then (length hex + 1) div 2 else padLength);
          hex = padStart (padLength * 2) hex
      in map (\<lambda>i. u8n (16 * hex ! (2 * i) + hex ! (2 * i + 1))) [0..<length hex div 2])"

definition hex_value :: "nat list \<Rightarrow> nat" where
  "hex_value ds = foldl (\<lambda>v d. v * 16 + d) 0 ds"

text \<open>\<open>BigInt("0x")\<close> is a \<open>SyntaxError\<close>.\<close>

definition u8ArrayToBigInt :: "byte list \<Rightarrow> js_error + nat" where
  "u8ArrayToBigInt arr =
     (if arr = [] then Inl (JsError ''SyntaxError'')
      else Inr (hex_value (concat (map (\<lambda>b. padStart 2 (hex_digits (unat b))) arr))))"

section \<open>Diffie-Hellman\<close>

record dh_key =
  dh_p :: nat
  dh_keyBytes :: nat
  dh_private :: nat
  dh_public :: "byte list"

definition dh_generateKey :: "byte list \<Rightarrow> byte list \<Rightarrow> byte list \<Rightarrow> js_error + dh_key" where
  "dh_generateKey rnd g p =
     (case u8ArrayToBigInt g of Inl e \<Rightarrow> Inl e
      | Inr gb \<Rightarrow> (case u8ArrayToBigInt p of Inl e \<Rightarrow> Inl e
      | Inr pb \<Rightarrow> (case u8ArrayToBigInt rnd of Inl e \<Rightarrow> Inl e
      | Inr priv \<Rightarrow> (case modPow gb priv pb of Inl e \<Rightarrow> Inl e
      | Inr pub \<Rightarrow> Inr \<lparr>dh_p = pb, dh_keyBytes = length p, dh_private = priv,
                       dh_public = bigIntToU8Array pub (length p)\<rparr>))))"

definition dh_deriveBits :: "byte list \<Rightarrow> nat \<Rightarrow> dh_key \<Rightarrow> js_error + byte list" where
  "dh_deriveBits pkey len k =
     (let bytes = (len + 7) div 8;
          len = (if bytes > dh_keyBytes k then bytes else dh_keyBytes k)
      in case u8ArrayToBigInt pkey of Inl e \<Rightarrow> Inl e
         | Inr b \<Rightarrow> (case modPow b (dh_private k) (dh_p k) of Inl e \<Rightarrow> Inl e
         | Inr secret \<Rightarrow> Inr (take len (bigIntToU8Array secret len))))"

section \<open>Powers\<close>

lemma modPow_loop_mod: "modPow_loop r b e m mod m = r * b ^ e mod m"
proof (induction r b e m rule: modPow_loop.induct)
  case (1 r b e m)
  show ?case
  proof (cases "e > 0")
    case True
    define q where "q = e div 2"
    have ih: "modPow_loop (if e mod 2 = 1 then r * b mod m else r) (b * b mod m) q m mod m
        = (if e mod 2 = 1 then r * b mod m else r) * (b * b) ^ q mod m"
      using "1.IH" [OF True] by (simp add: q_def) (metis mod_mult_right_eq power_mod)
    have q: "(b * b) ^ q = b ^ (2 * q)"
      by (simp add: power_mult power2_eq_square)
    show ?thesis
    proof (cases "e mod 2 = 1")
      case odd: True
      have "e = Suc (2 * q)"
        using odd unfolding q_def by presburger
      then have p: "r * b ^ e = (r * b) * (b * b) ^ q"
        unfolding q by simp
      have "modPow_loop r b e m = modPow_loop (r * b mod m) (b * b mod m) q m"
        using odd True by (subst modPow_loop.simps) (simp add: q_def)
      then show ?thesis
        unfolding p using ih odd mod_mult_left_eq [of "r * b" m "(b * b) ^ q"] by simp
    next
      case even: False
      have "e = 2 * q"
        using even unfolding q_def by presburger
      then have p: "r * b ^ e = r * (b * b) ^ q"
        unfolding q by simp
      show ?thesis
        unfolding p using ih even True by (subst modPow_loop.simps) (simp add: q_def)
    qed
  qed (simp add: modPow_loop.simps)
qed

lemma modPow_loop_less: "r < m \<Longrightarrow> modPow_loop r b e m < m"
proof (induction r b e m rule: modPow_loop.induct)
  case (1 r b e m)
  then show ?case
    by (subst modPow_loop.simps) simp
qed

lemma modPow_power: "1 < m \<Longrightarrow> modPow b e m = Inr (b ^ e mod m)"
  using modPow_loop_mod [of 1 "b mod m" e m] modPow_loop_less [of 1 m "b mod m" e]
  by (simp add: modPow_def power_mod)

section \<open>Digits\<close>

lemma hex_digits_less: "d \<in> set (hex_digits n) \<Longrightarrow> d < 16"
proof (induction n rule: hex_digits.induct)
  case (1 n)
  then show ?case
    by (cases "n < 16") (auto simp: hex_digits.simps [of n])
qed

lemma hex_value_snoc [simp]: "hex_value (ds @ [d]) = 16 * hex_value ds + d"
  by (simp add: hex_value_def)

lemma hex_value_Nil [simp]: "hex_value [] = 0"
  by (simp add: hex_value_def)

lemma hex_value_zeros: "hex_value (replicate k 0 @ ds) = hex_value ds"
proof (induction ds rule: rev_induct)
  case Nil
  have "hex_value (replicate k 0) = 0"
    by (induction k) (simp_all add: hex_value_def)
  then show ?case by simp
next
  case (snoc d ds)
  then show ?case
    by (simp flip: append_assoc)
qed

lemma hex_value_digits: "hex_value (hex_digits n) = n"
proof (induction n rule: hex_digits.induct)
  case (1 n)
  then show ?case
    by (cases "n < 16") (simp_all add: hex_digits.simps [of n] hex_value_def)
qed

lemma length_hex_digits: "0 < k \<Longrightarrow> n < 16 ^ k \<Longrightarrow> length (hex_digits n) \<le> k"
proof (induction n arbitrary: k rule: hex_digits.induct)
  case (1 n)
  show ?case
  proof (cases "n < 16")
    case True
    then show ?thesis
      using "1.prems"(1) by (simp add: hex_digits.simps [of n])
  next
    case False
    obtain j where k: "k = Suc j"
      using "1.prems"(1) by (cases k) auto
    have j: "0 < j"
      using False "1.prems"(2) k by (cases j) auto
    have "n div 16 < 16 ^ j"
      using "1.prems"(2) k by (simp add: less_mult_imp_div_less mult.commute)
    then show ?thesis
      using "1.IH" [OF False j] False k by (simp add: hex_digits.simps [of n])
  qed
qed

lemma hex_value_byte: "hex_value (ds @ padStart 2 (hex_digits (unat (b :: byte)))) = 256 * hex_value ds + unat b"
proof -
  have "unat b < 16 ^ 2"
    using unsigned_less [of b, where ?'a = nat] by simp
  then have "length (hex_digits (unat b)) \<le> 2"
    by (intro length_hex_digits) simp_all
  moreover have "hex_digits (unat b) \<noteq> []"
    by (simp add: hex_digits.simps [of "unat b"])
  ultimately consider d where "hex_digits (unat b) = [d]" | d e where "hex_digits (unat b) = [d, e]"
    by (cases "hex_digits (unat b)"; cases "tl (hex_digits (unat b))") auto
  then show ?thesis
    using hex_value_digits [of "unat b"]
    by cases (simp_all add: padStart_def hex_value_def)
qed

lemma hex_value_bytes:
  "hex_value (concat (map (\<lambda>b. padStart 2 (hex_digits (unat b))) arr)) = be arr"
proof (induction arr rule: rev_induct)
  case (snoc b arr)
  then show ?case
    by (simp add: hex_value_byte be_snoc)
qed simp

lemma u8ArrayToBigInt_be: "arr \<noteq> [] \<Longrightarrow> u8ArrayToBigInt arr = Inr (be arr)"
  by (simp add: u8ArrayToBigInt_def hex_value_bytes)

lemma be_pairs:
  "length hex = 2 * n \<Longrightarrow> \<forall>d \<in> set hex. d < 16 \<Longrightarrow>
     be (map (\<lambda>i. u8n (16 * hex ! (2 * i) + hex ! (2 * i + 1))) [0..<n]) = hex_value hex"
proof (induction n arbitrary: hex)
  case (Suc n)
  obtain ds d e where hex: "hex = ds @ [d, e]"
    using Suc.prems(1) by (metis append_Cons append_Nil append_assoc length_0_conv length_Suc_conv_rev
        mult_Suc_right add_2_eq_Suc)
  have l: "length ds = 2 * n" and small: "d < 16" "e < 16" "\<forall>d \<in> set ds. d < 16"
    using Suc.prems hex by auto
  have "16 * d + e < 256"
    using small by simp
  then have de: "unat (u8n (16 * d + e)) = 16 * d + e"
    unfolding unat_of_nat by simp
  have m: "map (\<lambda>i. u8n (16 * hex ! (2 * i) + hex ! (2 * i + 1))) [0..<n]
      = map (\<lambda>i. u8n (16 * ds ! (2 * i) + ds ! (2 * i + 1))) [0..<n]"
    using l by (auto simp: hex nth_append)
  have "hex ! (2 * n) = d" "hex ! (2 * n + 1) = e"
    using l by (simp_all add: hex nth_append)
  then have "be (map (\<lambda>i. u8n (16 * hex ! (2 * i) + hex ! (2 * i + 1))) [0..<Suc n])
      = 256 * hex_value ds + (16 * d + e)"
    using Suc.IH [OF l small(3)] de by (simp only: m upt_Suc_append map_append le0 list.map be_snoc)
  then show ?case
    using hex_value_snoc [of "ds @ [d]" e] by (simp add: hex)
qed simp

text \<open>A number that fits into \<open>k\<close> bytes is written as these \<open>k\<close> bytes, most significant first.\<close>

lemma bigIntToU8Array_fits:
  assumes "0 < k" "n < 256 ^ k"
  shows "length (bigIntToU8Array n k) = k" "be (bigIntToU8Array n k) = n"
proof -
  define hex where "hex = padStart (k * 2) (hex_digits n)"
  have "n < 16 ^ (2 * k)"
    using assms(2) by (simp add: power_mult)
  then have "length (hex_digits n) \<le> 2 * k"
    using assms(1) by (intro length_hex_digits) simp_all
  then have l: "length hex = 2 * k"
    by (simp add: hex_def padStart_def)
  have b: "bigIntToU8Array n k = map (\<lambda>i. u8n (16 * hex ! (2 * i) + hex ! (2 * i + 1))) [0..<k]"
    using assms(1) l by (simp add: bigIntToU8Array_def Let_def hex_def)
  then show "length (bigIntToU8Array n k) = k"
    by simp
  have "\<forall>d \<in> set hex. d < 16"
    using hex_digits_less by (auto simp: hex_def padStart_def)
  then have "be (bigIntToU8Array n k) = hex_value hex"
    unfolding b by (rule be_pairs [OF l])
  then show "be (bigIntToU8Array n k) = n"
    by (simp add: hex_def padStart_def hex_value_zeros hex_value_digits)
qed

section \<open>The exchange\<close>

lemma dh_generate:
  assumes "g \<noteq> []" "1 < be p" "rnd \<noteq> []"
  shows "dh_generateKey rnd g p = Inr \<lparr>dh_p = be p, dh_keyBytes = length p, dh_private = be rnd,
           dh_public = bigIntToU8Array (be g ^ be rnd mod be p) (length p)\<rparr>"
proof -
  have "p \<noteq> []"
    using assms(2) by auto
  then show ?thesis
    using assms by (simp add: dh_generateKey_def u8ArrayToBigInt_be modPow_power)
qed

lemma dh_derive:
  assumes "1 < be p"
  shows "dh_deriveBits (bigIntToU8Array (be g ^ be b mod be p) (length p)) len
     \<lparr>dh_p = be p, dh_keyBytes = length p, dh_private = be a, dh_public = pub\<rparr>
   = Inr (bigIntToU8Array (be g ^ (be b * be a) mod be p) (max ((len + 7) div 8) (length p)))"
proof -
  have p: "0 < length p"
    using assms by auto
  have fit: "x mod be p < 256 ^ k" if "length p \<le> k" for x k
  proof -
    have "x mod be p < be p"
      using assms by simp
    also have "\<dots> < 256 ^ length p"
      by (rule be_less)
    also have "\<dots> \<le> 256 ^ k"
      using that by (intro power_increasing) simp_all
    finally show ?thesis .
  qed
  let ?pub = "bigIntToU8Array (be g ^ be b mod be p) (length p)"
  have pub: "length ?pub = length p" "be ?pub = be g ^ be b mod be p"
    using bigIntToU8Array_fits [OF p fit [OF order_refl]] by simp_all
  then have "u8ArrayToBigInt ?pub = Inr (be g ^ be b mod be p)"
    using p by (subst u8ArrayToBigInt_be) auto
  moreover have "(be g ^ be b mod be p) ^ be a mod be p = be g ^ (be b * be a) mod be p"
    by (simp add: power_mod power_mult)
  moreover have "length (bigIntToU8Array (be g ^ (be b * be a) mod be p) (max ((len + 7) div 8) (length p)))
      = max ((len + 7) div 8) (length p)"
    using p by (intro bigIntToU8Array_fits fit) (simp_all add: less_max_iff_disj)
  ultimately show ?thesis
    using assms by (simp add: dh_deriveBits_def Let_def modPow_power max_def split: if_splits)
qed

text \<open>C35. Two sides that generate their keys with the same generator and the same modulus above 1
  derive the same secret from each other's public key; it is as long as asked for, and at least as
  long as the modulus.\<close>

theorem dh_agreement:
  assumes "g \<noteq> []" "1 < be p" "a \<noteq> []" "b \<noteq> []"
  shows "\<exists>ka kb secret. dh_generateKey a g p = Inr ka \<and> dh_generateKey b g p = Inr kb
    \<and> dh_deriveBits (dh_public kb) len ka = Inr secret
    \<and> dh_deriveBits (dh_public ka) len kb = Inr secret
    \<and> be secret = be g ^ (be a * be b) mod be p \<and> length secret = max ((len + 7) div 8) (length p)"
proof -
  have p: "0 < length p"
    using assms(2) by auto
  have "be g ^ (be a * be b) mod be p < be p"
    using assms(2) by simp
  also have "\<dots> < 256 ^ length p"
    by (rule be_less)
  also have "\<dots> \<le> 256 ^ max ((len + 7) div 8) (length p)"
    by (intro power_increasing) simp_all
  finally have "length (bigIntToU8Array (be g ^ (be a * be b) mod be p) (max ((len + 7) div 8) (length p)))
        = max ((len + 7) div 8) (length p)"
      "be (bigIntToU8Array (be g ^ (be a * be b) mod be p) (max ((len + 7) div 8) (length p)))
        = be g ^ (be a * be b) mod be p"
    using p by (simp_all add: bigIntToU8Array_fits less_max_iff_disj)
  then show ?thesis
    using assms by (simp add: dh_generate dh_derive mult.commute)
qed

theorem dh_agreement_witness:
  "\<exists>ka kb secret. dh_generateKey [0, 6] [5] [0, 23] = Inr ka \<and> dh_generateKey [0, 15] [5] [0, 23] = Inr kb
    \<and> dh_deriveBits (dh_public kb) 16 ka = Inr secret \<and> dh_deriveBits (dh_public ka) 16 kb = Inr secret
    \<and> be secret = 2"
  using dh_agreement [of "[5]" "[0, 23]" "[0, 6]" "[0, 15]" 16] by auto

end
