(* ===== verification/Md5.thy ===== *)
theory Md5
  imports JsBase
begin

text \<open>
  Model of \<open>core/crypto/md5.js\<close>: the digest that the Apple authentication derives its key with.
  The numbers are 32-bit words; a string of the source is the list of its character codes.

  \<open>Y\<close> is one nested expression of 64 assignments to the four variables in turn; it is written
  here as four lists of the constants of these assignments (index of the word, rotation, summand).
\<close>

section \<open>Arithmetic\<close>

definition md5_add :: "32 word \<Rightarrow> 32 word \<Rightarrow> 32 word" where
  "md5_add d g =
     (let m = (65535 AND d) + (65535 AND g)
      in push_bit 16 (signed_drop_bit 16 d + signed_drop_bit 16 g + signed_drop_bit 16 m) OR (65535 AND m))"

definition md5_rol :: "32 word \<Rightarrow> nat \<Rightarrow> 32 word" where
  "md5_rol d g = push_bit g d OR drop_bit (32 - g) d"

definition md5_cmn :: "32 word \<Rightarrow> 32 word \<Rightarrow> 32 word \<Rightarrow> 32 word \<Rightarrow> nat \<Rightarrow> 32 word \<Rightarrow> 32 word" where
  "md5_cmn d g m f r i = md5_add (md5_rol (md5_add (md5_add g d) (md5_add f i)) r) m"

definition md5_ff :: "32 word \<Rightarrow> 32 word \<Rightarrow> 32 word \<Rightarrow> 32 word \<Rightarrow> 32 word \<Rightarrow> nat \<Rightarrow> 32 word \<Rightarrow> 32 word" where
  "md5_ff d g m f r i n = md5_cmn ((g AND m) OR (NOT g AND f)) d g r i n"

definition md5_gg :: "32 word \<Rightarrow> 32 word \<Rightarrow> 32 word \<Rightarrow> 32 word \<Rightarrow> 32 word \<Rightarrow> nat \<Rightarrow> 32 word \<Rightarrow> 32 word" where
  "md5_gg d g m f r i n = md5_cmn ((g AND f) OR (m AND NOT f)) d g r i n"

definition md5_hh :: "32 word \<Rightarrow> 32 word \<Rightarrow> 32 word \<Rightarrow> 32 word \<Rightarrow> 32 word \<Rightarrow> nat \<Rightarrow> 32 word \<Rightarrow> 32 word" where
  "md5_hh d g m f r i n = md5_cmn (g XOR m XOR f) d g r i n"

definition md5_ii :: "32 word \<Rightarrow> 32 word \<Rightarrow> 32 word \<Rightarrow> 32 word \<Rightarrow> 32 word \<Rightarrow> nat \<Rightarrow> 32 word \<Rightarrow> 32 word" where
  "md5_ii d g m f r i n = md5_cmn (m XOR (g OR NOT f)) d g r i n"

section \<open>Strings and words\<close>

text \<open>An element that has not been set is \<open>undefined\<close>, which the operators take for 0.\<close>

definition word_at :: "32 word list \<Rightarrow> nat \<Rightarrow> 32 word" where
  "word_at d i = (if i < length d then d ! i else 0)"

text \<open>An assignment behind the end of an array extends it.\<close>

definition put :: "nat \<Rightarrow> 32 word \<Rightarrow> 32 word list \<Rightarrow> 32 word list" where
  "put i v d = (if i < length d then d[i := v] else d @ replicate (i - length d) 0 @ [v])"

definition md5_X :: "byte list \<Rightarrow> 32 word list" where
  "md5_X s = fold (\<lambda>k r. put (8 * k div 32) (word_at r (8 * k div 32) OR push_bit (8 * k mod 32) (ucast (s ! k))) r)
     [0..<length s] (replicate (length s div 4) 0)"

definition md5_V :: "32 word list \<Rightarrow> byte list" where
  "md5_V d = map (\<lambda>k. ucast (drop_bit (8 * k mod 32) (d ! (8 * k div 32)))) [0..<4 * length d]"

section \<open>The digest\<close>

definition round_ff :: "(nat \<times> nat \<times> int) list" where
  "round_ff = [(0, 7, - 680876936), (1, 12, - 389564586), (2, 17, 606105819), (3, 22, - 1044525330),
     (4, 7, - 176418897), (5, 12, 1200080426), (6, 17, - 1473231341), (7, 22, - 45705983),
     (8, 7, 1770035416), (9, 12, - 1958414417), (10, 17, - 42063), (11, 22, - 1990404162),
     (12, 7, 1804603682), (13, 12, - 40341101), (14, 17, - 1502002290), (15, 22, 1236535329)]"

definition round_gg :: "(nat \<times> nat \<times> int) list" where
  "round_gg = [(1, 5, - 165796510), (6, 9, - 1069501632), (11, 14, 643717713), (0, 20, - 373897302),
     (5, 5, - 701558691), (10, 9, 38016083), (15, 14, - 660478335), (4, 20, - 405537848),
     (9, 5, 568446438), (14, 9, - 1019803690), (3, 14, - 187363961), (8, 20, 1163531501),
     (13, 5, - 1444681467), (2, 9, - 51403784), (7, 14, 1735328473), (12, 20, - 1926607734)]"

definition round_hh :: "(nat \<times> nat \<times> int) list" where
  "round_hh = [(5, 4, - 378558), (8, 11, - 2022574463), (11, 16, 1839030562), (14, 23, - 35309556),
     (1, 4, - 1530992060), (4, 11, 1272893353), (7, 16, - 155497632), (10, 23, - 1094730640),
     (13, 4, 681279174), (0, 11, - 358537222), (3, 16, - 722521979), (6, 23, 76029189),
     (9, 4, - 640364487), (12, 11, - 421815835), (15, 16, 530742520), (2, 23, - 995338651)]"

definition round_ii :: "(nat \<times> nat \<times> int) list" where
  "round_ii = [(0, 6, - 198630844), (7, 10, 1126891415), (14, 15, - 1416354905), (5, 21, - 57434055),
     (12, 6, 1700485571), (3, 10, - 1894986606), (10, 15, - 1051523), (1, 21, - 2054922799),
     (8, 6, 1873313359), (15, 10, - 30611744), (6, 15, - 1560198380), (13, 21, 1309151649),
     (4, 6, - 145523070), (11, 10, - 1120210379), (2, 15, 718787259), (9, 21, - 343485551)]"

text \<open>One assignment: the variables rotate, so that the one to be assigned is always the first.\<close>

type_synonym md5_state = "32 word \<times> 32 word \<times> 32 word \<times> 32 word"

definition md5_step ::
    "(32 word \<Rightarrow> 32 word \<Rightarrow> 32 word \<Rightarrow> 32 word \<Rightarrow> 32 word \<Rightarrow> nat \<Rightarrow> 32 word \<Rightarrow> 32 word) \<Rightarrow> 32 word list \<Rightarrow> nat \<Rightarrow>
     nat \<times> nat \<times> int \<Rightarrow> md5_state \<Rightarrow> md5_state" where
  "md5_step fn d n = (\<lambda>(k, s, t) (m, f, r, i). (i, fn m f r i (word_at d (n + k)) s (word_of_int t), f, r))"

definition md5_block :: "32 word list \<Rightarrow> nat \<Rightarrow> md5_state \<Rightarrow> md5_state" where
  "md5_block d n st =
     (let st1 = fold (md5_step md5_ff d n) round_ff st;
          st2 = fold (md5_step md5_gg d n) round_gg st1;
          st3 = fold (md5_step md5_hh d n) round_hh st2;
          (m, f, r, i) = fold (md5_step md5_ii d n) round_ii st3;
          (h, t, g, e) = st
      in (md5_add m h, md5_add f t, md5_add r g, md5_add i e))"

text \<open>The padding and the loop over blocks of 16 words; \<open>g\<close> is the length in bits.\<close>

definition md5_pad :: "32 word list \<Rightarrow> nat \<Rightarrow> 32 word list" where
  "md5_pad d g =
     (let d = put (g div 32) (word_at d (g div 32) OR push_bit (g mod 32) 128) d
      in put (14 + (g + 64) div 512 * 16) (of_nat g) d)"

definition md5_Y :: "32 word list \<Rightarrow> nat \<Rightarrow> 32 word list" where
  "md5_Y d g =
     (let d = md5_pad d g;
          (m, f, r, i) = fold (\<lambda>k. md5_block d (16 * k)) [0..<(length d + 15) div 16]
            (1732584193, word_of_int (- 271733879), word_of_int (- 1732584194), 271733878)
      in [m, f, r, i])"

definition md5 :: "byte list \<Rightarrow> byte list" where
  "md5 d = md5_V (md5_Y (md5_X d) (8 * length d))"

section \<open>Correctness\<close>

lemma low16: "(65535 :: 32 word) = mask 16"
  by (simp add: mask_eq_exp_minus_1)

lemma split16: "push_bit 16 (signed_drop_bit 16 w) + (65535 AND w) = (w :: 32 word)"
proof -
  have "push_bit 16 (signed_drop_bit 16 w) AND (65535 AND w) = (0 :: 32 word)"
    unfolding low16 by (rule bit_word_eqI) (auto simp: bit_simps)
  then have "push_bit 16 (signed_drop_bit 16 w) + (65535 AND w)
      = push_bit 16 (signed_drop_bit 16 w) OR (65535 AND w)"
    by (rule disjunctive_add_eq_or)
  also have "\<dots> = w"
    unfolding low16 by (rule bit_word_eqI) (auto simp: bit_simps)
  finally show ?thesis .
qed

lemma md5_add_plus: "md5_add d g = d + g"
proof -
  let ?h = "\<lambda>w :: 32 word. signed_drop_bit 16 w"
  define m where "m = (65535 AND d) + (65535 AND g)"
  have "push_bit 16 (?h d + ?h g + ?h m) AND (65535 AND m) = 0"
    unfolding low16 by (rule bit_word_eqI) (auto simp: bit_simps)
  then have "md5_add d g = push_bit 16 (?h d + ?h g + ?h m) + (65535 AND m)"
    by (simp add: md5_add_def m_def [symmetric] disjunctive_add_eq_or)
  also have "\<dots> = push_bit 16 (?h d) + push_bit 16 (?h g) + m"
    using split16 [of m] by (simp add: push_bit_add add.assoc)
  also have "\<dots> = d + g"
    using split16 [of d] split16 [of g] by (simp add: m_def ac_simps)
  finally show ?thesis .
qed

text \<open>A list of words as bytes, the lowest byte of a word first.\<close>

definition byte_at :: "32 word list \<Rightarrow> nat \<Rightarrow> byte" where
  "byte_at d k = ucast (drop_bit (8 * (k mod 4)) (word_at d (k div 4)))"

lemma word_at_put: "word_at (put i v d) j = (if j = i then v else word_at d j)"
  by (auto simp: word_at_def put_def nth_append nth_list_update less_Suc_eq)

lemma byte_position: "8 * k div 32 = k div 4" "8 * k mod 32 = 8 * (k mod (4::nat))"
  using div_mult_mult1 [of 8 k 4] mult_mod_right [of 8 k 4] by simp_all

lemma byte_at_or:
  "byte_at (put (k div 4) (word_at d (k div 4) OR push_bit (8 * (k mod 4)) (ucast (v :: byte))) d) j
     = (if j = k then byte_at d k OR v else byte_at d j)"
proof (cases "j div 4 = k div 4")
  case False
  then show ?thesis
    by (auto simp: byte_at_def word_at_put)
next
  case same: True
  define a b where "a = j mod 4" and "b = k mod 4"
  have ab: "a < 4" "b < 4" and jk: "j = k \<longleftrightarrow> a = b"
    using same by (auto simp: a_def b_def) (metis div_mult_mod_eq)
  have "bit (ucast (drop_bit (8 * a) (w OR push_bit (8 * b) (ucast v))) :: byte) n
      = bit (if a = b then ucast (drop_bit (8 * b) w) OR v else (ucast (drop_bit (8 * a) w) :: byte)) n"
    if n: "n < 8" for n and w :: "32 word"
  proof -
    have l: "8 * a + n < 32"
      using n ab by simp
    have "bit (ucast (drop_bit (8 * a) (w OR push_bit (8 * b) (ucast v))) :: byte) n
        \<longleftrightarrow> bit w (8 * a + n) \<or> 8 * b \<le> 8 * a + n \<and> bit v (8 * a + n - 8 * b)"
      using n l by (simp add: bit_ucast_iff bit_drop_bit_eq bit_or_iff bit_push_bit_iff) linarith
    moreover have "a \<noteq> b \<Longrightarrow> 8 * b \<le> 8 * a + n \<Longrightarrow> 8 \<le> 8 * a + n - 8 * b"
      using n by linarith
    ultimately show ?thesis
      using n bit_imp_le_length [of v "8 * a + n - 8 * b"]
      by (auto simp: bit_ucast_iff bit_drop_bit_eq bit_or_iff)
  qed
  then show ?thesis
    unfolding jk using same
    by (intro bit_word_eqI) (auto simp: byte_at_def word_at_put a_def [symmetric] b_def [symmetric])
qed

text \<open>\<open>X\<close> stores the bytes in order, and nothing behind them.\<close>

lemma byte_at_X: "byte_at (md5_X s) j = (if j < length s then s ! j else 0)"
proof -
  define f where "f = (\<lambda>k r. put (8 * k div 32) (word_at r (8 * k div 32)
    OR push_bit (8 * k mod 32) (ucast (s ! k))) r)"
  have "n \<le> length s \<Longrightarrow> byte_at (fold f [0..<n] (replicate (length s div 4) 0)) j = (if j < n then s ! j else 0)" for n
  proof (induction n)
    case 0
    then show ?case by (simp add: byte_at_def word_at_def)
  next
    case (Suc n)
    then show ?case
      unfolding upt_Suc by (auto simp: f_def byte_position byte_at_or less_Suc_eq)
  qed
  then show ?thesis
    by (simp add: md5_X_def f_def)
qed

lemma length_put [simp]: "length (put i v d) = max (length d) (Suc i)"
  by (auto simp: put_def)

lemma length_X: "length (md5_X s) \<le> Suc (length s div 4)"
proof -
  define f where "f = (\<lambda>k r. put (8 * k div 32) (word_at r (8 * k div 32)
    OR push_bit (8 * k mod 32) (ucast (s ! k))) r)"
  have "n \<le> length s \<Longrightarrow> length (fold f [0..<n] (replicate (length s div 4) 0)) \<le> Suc (length s div 4)" for n
  proof (induction n)
    case (Suc n)
    have "n div 4 \<le> length s div 4"
      using Suc.prems by (intro div_le_mono) simp
    then show ?case
      using Suc unfolding upt_Suc by (simp add: f_def byte_position)
  qed simp
  then show ?thesis
    by (simp add: md5_X_def f_def)
qed

text \<open>MD5 pads a message as the standard has it: behind its bytes come a byte 128 and zeros up
  to the last but one word of a block, and this word holds the length in bits.\<close>

theorem md5_padding:
  fixes s :: "byte list"
  shows "let w = md5_pad (md5_X s) (8 * length s); last = 14 + (8 * length s + 64) div 512 * 16
    in map (byte_at w) [0..<4 * last] = s @ [128] @ replicate (4 * last - Suc (length s)) 0
     \<and> word_at w last = of_nat (8 * length s) \<and> length w = Suc last"
proof -
  define Q where "Q = (8 * length s + 64) div 512"
  define k where "k = length s"
  define d where "d = md5_X s"
  define e where "e = put (k div 4) (word_at d (k div 4) OR push_bit (8 * (k mod 4)) (ucast (128 :: byte))) d"
  have "8 * k + 64 < 512 * Suc Q"
    using dividend_less_times_div [of 512 "8 * length s + 64"] unfolding Q_def k_def by simp
  then have kl: "k < (14 + Q * 16) * 4"
    by simp
  then have k: "k div 4 < 14 + Q * 16"
    by (rule less_mult_imp_div_less)
  have w: "md5_pad d (8 * k) = put (14 + Q * 16) (of_nat (8 * k)) e"
    using byte_position [of k] by (simp add: md5_pad_def Let_def e_def Q_def k_def)
  have "byte_at (md5_pad d (8 * k)) j = (if j < k then s ! j else if j = k then 128 else 0)"
    if j: "j < 4 * (14 + Q * 16)" for j
  proof -
    have "j div 4 < 14 + Q * 16"
      using j by (simp add: less_mult_imp_div_less mult.commute)
    then have "byte_at (md5_pad d (8 * k)) j = byte_at e j"
      by (simp add: w byte_at_def word_at_put)
    then show ?thesis
      unfolding e_def byte_at_or by (simp add: byte_at_X d_def k_def)
  qed
  then have "map (byte_at (md5_pad d (8 * k))) [0..<4 * (14 + Q * 16)]
      = s @ [128] @ replicate (4 * (14 + Q * 16) - Suc (length s)) 0"
    using kl by (intro nth_equalityI) (auto simp: nth_append k_def nth_Cons')
  moreover have "word_at (md5_pad d (8 * k)) (14 + Q * 16) = of_nat (8 * k)"
    by (simp add: w word_at_put)
  moreover have "length (md5_pad d (8 * k)) = Suc (14 + Q * 16)"
    using k length_X [of s] unfolding w e_def length_put by (simp add: d_def k_def)
  ultimately show ?thesis
    by (simp add: Let_def d_def k_def Q_def)
qed

end
