(* ===== verification/Zlib.thy ===== *)
theory Zlib
  imports Websock
begin

text \<open>
  Model of \<open>core/inflator.js\<close> and \<open>core/deflator.js\<close>, the wrappers round the zlib port that is
  vendored under \<open>vendor/pako\<close>.

  The port is the record \<open>zlib\<close>: the states after \<open>inflateInit\<close>, \<open>inflateReset\<close> and \<open>deflateInit\<close>,
  and the two functions, which take a state, the input that is left and \<open>avail_out\<close>, and give the
  return code, the bytes they wrote, the input that is left and the new state.
\<close>

record 'z zlib =
  z_inflateInit :: 'z
  z_inflateReset :: "'z \<Rightarrow> 'z"
  z_inflate :: "'z \<Rightarrow> byte list \<Rightarrow> int \<Rightarrow> int \<times> byte list \<times> byte list \<times> 'z"
  z_deflateInit :: 'z
  z_deflate :: "'z \<Rightarrow> byte list \<Rightarrow> int \<Rightarrow> int \<times> byte list \<times> byte list \<times> 'z"

section \<open>Inflator\<close>

text \<open>
  The output buffer is shared by all calls until it grows; \<open>z_gen\<close> counts how often it has been
  replaced.  What \<open>inflate\<close> returns is a view of its start, given by its length.
\<close>

record 'z inflator =
  z_strm :: 'z
  z_input :: "byte list"
  z_chunkSize :: int
  z_output :: "byte list"
  z_gen :: nat

definition new_inflator :: "'z zlib \<Rightarrow> 'z inflator" where
  "new_inflator zl = \<lparr>z_strm = z_inflateInit zl, z_input = [], z_chunkSize = 1024 * 10 * 10,
     z_output = replicate (1024 * 10 * 10) 0, z_gen = 0\<rparr>"

definition setInput :: "byte list option \<Rightarrow> 'z inflator \<Rightarrow> 'z inflator" where
  "setInput data zi = zi\<lparr>z_input := (case data of None \<Rightarrow> [] | Some d \<Rightarrow> d)\<rparr>"

definition z_resize :: "int \<Rightarrow> 'z inflator \<Rightarrow> 'z inflator" where
  "z_resize expected zi =
     (if expected > z_chunkSize zi
      then zi\<lparr>z_chunkSize := expected, z_output := replicate (nat expected) 0, z_gen := Suc (z_gen zi)\<rparr>
      else zi)"

definition inflate :: "'z zlib \<Rightarrow> int \<Rightarrow> 'z inflator \<Rightarrow> (js_error + nat) \<times> 'z inflator" where
  "inflate zl expected zi =
     (let zi = z_resize expected zi in
      case z_inflate zl (z_strm zi) (z_input zi) expected of
        (q, out, rest, st) \<Rightarrow>
          let zi = zi\<lparr>z_strm := st, z_input := rest, z_output := out @ drop (length out) (z_output zi)\<rparr>
          in if q < 0 then (Inl (JsError ''zlib inflate failed''), zi)
             else if int (length out) \<noteq> expected then (Inl (JsError ''Incomplete zlib block''), zi)
             else (Inr (length out), zi))"

definition inflator_reset :: "'z zlib \<Rightarrow> 'z inflator \<Rightarrow> 'z inflator" where
  "inflator_reset zl zi = zi\<lparr>z_strm := z_inflateReset zl (z_strm zi)\<rparr>"

text \<open>The bytes behind a view of length \<open>n\<close> that \<open>inflate\<close> has returned.\<close>

definition z_view :: "nat \<Rightarrow> 'z inflator \<Rightarrow> byte list" where
  "z_view n zi = take n (z_output zi)"

text \<open>A call that returns has produced exactly the number of bytes that was asked for, and they are
  the ones that zlib wrote.\<close>

lemma inflate_exact:
  assumes "inflate zl n zi = (Inr k, zi')"
  shows "int k = n \<and> (\<exists>q st. z_inflate zl (z_strm zi) (z_input zi) n
    = (q, z_view k zi', z_input zi', st) \<and> 0 \<le> q)"
  using assms
  by (auto simp: inflate_def z_view_def z_resize_def Let_def split: if_splits prod.splits)

lemma inflate_view_length: "inflate zl n zi = (Inr k, zi') \<Longrightarrow> length (z_view k zi') = k"
  by (auto simp: inflate_def z_view_def Let_def split: if_splits prod.splits)

section \<open>Deflator\<close>

text \<open>
  \<open>deflate\<close> calls zlib with a chunk of output space until no input is left; nothing bounds the
  number of its calls.  \<open>None\<close> is a call that does not return.
\<close>

definition deflate_chunk :: int where
  "deflate_chunk = 1024 * 10 * 10"

partial_function (option) deflate_chunks ::
    "'z zlib \<Rightarrow> 'z \<Rightarrow> byte list \<Rightarrow> byte list \<Rightarrow> (js_error + byte list) option" where
  "deflate_chunks zl st inData done =
     (case z_deflate zl st inData deflate_chunk of
        (q, out, rest, st) \<Rightarrow>
          if q < 0 then Some (Inl (JsError ''zlib deflate failed''))
          else if rest = [] then Some (Inr (done @ out))
          else deflate_chunks zl st rest (done @ out))"

definition deflate :: "'z zlib \<Rightarrow> byte list \<Rightarrow> (js_error + byte list) option" where
  "deflate zl inData = deflate_chunks zl (z_deflateInit zl) inData []"

text \<open>It returns when every call of zlib takes some of the input.\<close>

lemma deflate_chunks_returns:
  assumes progress: "\<And>st i q out rest st'. i \<noteq> [] \<Longrightarrow> z_deflate zl st i deflate_chunk = (q, out, rest, st')
    \<Longrightarrow> 0 \<le> q \<Longrightarrow> length rest < length i"
  shows "length i > 0 \<Longrightarrow> deflate_chunks zl st i acc \<noteq> None"
proof (induction "length i" arbitrary: st i acc rule: less_induct)
  case less
  obtain q out rest st' where z: "z_deflate zl st i deflate_chunk = (q, out, rest, st')"
    by (cases "z_deflate zl st i deflate_chunk")
  show ?case
  proof (cases "q < 0 \<or> rest = []")
    case True
    then show ?thesis
      by (subst deflate_chunks.simps) (auto simp: z)
  next
    case False
    then have "length rest < length i"
      using progress [OF _ z] less.prems by auto
    then show ?thesis
      using less.hyps [of rest st' "acc @ out"] False by (subst deflate_chunks.simps) (simp add: z)
  qed
qed

end
