(* ===== verification/Keyboard.thy ===== *)
theory Keyboard
  imports Keysyms
begin

text \<open>
  Model of \<open>core/input/keyboard.js\<close>: the object that turns the key events of the browser into
  presses and releases for the server.

  \<open>_keyDownList\<close> is the list of the keys that are down with their keysyms, in the order in which
  they were pressed (the order in which \<open>for ... in\<close> goes through the object); a keysym may be
  \<open>null\<close>.  A method returns the new object and the calls it made of \<open>onkeyevent\<close>.  The code and the
  keysym of an event, which \<open>core/input/util.js\<close> finds, are part of the event here.
\<close>

section \<open>State and events\<close>

record keyboard =
  keyDownList :: "(string \<times> int option) list"
  altGrArmed :: bool
  altGrCtrlTime :: rat
  grabbed :: bool

record platform =
  isMac :: bool
  isIOS :: bool
  isWindows :: bool

record key_event =
  e_code :: string
  e_keysym :: "int option"
  e_numlock :: bool
  e_capslock :: bool
  e_metaKey :: bool
  e_timeStamp :: rat

record key_out =
  ko_keysym :: "int option"
  ko_code :: string
  ko_down :: bool
  ko_numlock :: "bool option"
  ko_capslock :: "bool option"

definition new_keyboard :: keyboard where
  "new_keyboard = \<lparr>keyDownList = [], altGrArmed = False, altGrCtrlTime = 0, grabbed = False\<rparr>"

text \<open>Setting a key of an object keeps its place if it is there already.\<close>

fun obj_set :: "string \<Rightarrow> 'v \<Rightarrow> (string \<times> 'v) list \<Rightarrow> (string \<times> 'v) list" where
  "obj_set k v [] = [(k, v)]"
| "obj_set k v ((k', v') # ps) = (if k' = k then (k, v) # ps else (k', v') # obj_set k v ps)"

definition obj_del :: "string \<Rightarrow> (string \<times> 'v) list \<Rightarrow> (string \<times> 'v) list" where
  "obj_del k ps = filter (\<lambda>(k', _). k' \<noteq> k) ps"

definition is_down :: "string \<Rightarrow> keyboard \<Rightarrow> bool" where
  "is_down code kb = (code \<in> fst ` set (keyDownList kb))"

section \<open>Operations\<close>

definition sendKeyEvent ::
    "int option \<Rightarrow> string \<Rightarrow> bool \<Rightarrow> bool option \<Rightarrow> bool option \<Rightarrow> keyboard \<Rightarrow> keyboard \<times> key_out list" where
  "sendKeyEvent keysym code down numlock capslock kb =
     (let ev = \<lparr>ko_keysym = keysym, ko_code = code, ko_down = down, ko_numlock = numlock, ko_capslock = capslock\<rparr>
      in if down then (kb\<lparr>keyDownList := obj_set code keysym (keyDownList kb)\<rparr>, [ev])
         else if \<not> is_down code kb then (kb, [])
         else (kb\<lparr>keyDownList := obj_del code (keyDownList kb)\<rparr>, [ev]))"

definition then_key ::
    "keyboard \<times> key_out list \<Rightarrow> (keyboard \<Rightarrow> keyboard \<times> key_out list) \<Rightarrow> keyboard \<times> key_out list" where
  "then_key p f = (case p of (kb, evs) \<Rightarrow> (case f kb of (kb, evs') \<Rightarrow> (kb, evs @ evs')))"

definition interruptAltGrSequence :: "keyboard \<Rightarrow> keyboard \<times> key_out list" where
  "interruptAltGrSequence kb =
     (if altGrArmed kb
      then sendKeyEvent (Some XK_Control_L) ''ControlLeft'' True None None (kb\<lparr>altGrArmed := False\<rparr>)
      else (kb, []))"

definition allKeysUp :: "keyboard \<Rightarrow> keyboard \<times> key_out list" where
  "allKeysUp kb =
     (case interruptAltGrSequence kb of (kb, evs) \<Rightarrow>
        fold (\<lambda>(code, keysym) p. then_key p (sendKeyEvent keysym code False None None))
          (keyDownList kb) (kb, evs))"

text \<open>The shuffle of the Alt keys on macOS.\<close>

definition mac_keysym :: "int option \<Rightarrow> int option" where
  "mac_keysym keysym =
     (if keysym = Some XK_Super_L then Some XK_Alt_L
      else if keysym = Some XK_Super_R then Some XK_Super_L
      else if keysym = Some XK_Alt_L then Some XK_Mode_switch
      else if keysym = Some XK_Alt_R then Some XK_ISO_Level3_Shift
      else keysym)"

definition jpBadKeys :: "int option list" where
  "jpBadKeys = map Some [XK_Zenkaku_Hankaku, XK_Eisu_toggle, XK_Katakana, XK_Hiragana, XK_Romaji]"

text \<open>A press and, at once, a release.\<close>

definition tap :: "int option \<Rightarrow> string \<Rightarrow> bool option \<Rightarrow> bool option \<Rightarrow> keyboard \<Rightarrow> keyboard \<times> key_out list" where
  "tap keysym code numlock capslock kb =
     then_key (sendKeyEvent keysym code True numlock capslock kb)
       (sendKeyEvent keysym code False numlock capslock)"

definition keydown_tracked ::
    "platform \<Rightarrow> key_event \<Rightarrow> int option \<Rightarrow> bool option \<Rightarrow> keyboard \<Rightarrow> keyboard \<times> key_out list" where
  "keydown_tracked os e keysym numlock kb =
     (let code = e_code e;
          capslock = Some (e_capslock e);
          mac = isMac os \<or> isIOS os;
          keysym = (if mac then mac_keysym keysym else keysym);
          keysym = (case map_of (keyDownList kb) code of Some k \<Rightarrow> k | None \<Rightarrow> keysym)
      in if mac \<and> e_metaKey e \<and> code \<noteq> ''MetaLeft'' \<and> code \<noteq> ''MetaRight''
         then tap keysym code numlock capslock kb
         else if mac \<and> code = ''CapsLock'' then tap (Some XK_Caps_Lock) ''CapsLock'' numlock capslock kb
         else if isWindows os \<and> keysym \<in> set jpBadKeys then tap keysym code numlock capslock kb
         else if code = ''ControlLeft'' \<and> isWindows os \<and> \<not> is_down ''ControlLeft'' kb
         then (kb\<lparr>altGrArmed := True, altGrCtrlTime := e_timeStamp e\<rparr>, [])
         else sendKeyEvent keysym code True numlock capslock kb)"

definition handleKeyDown :: "platform \<Rightarrow> key_event \<Rightarrow> keyboard \<Rightarrow> keyboard \<times> key_out list" where
  "handleKeyDown os e kb =
     (let code = e_code e;
          numlock = (if isMac os \<or> isIOS os then None else Some (e_numlock e));
          capslock = Some (e_capslock e);
          altGr = altGrArmed kb \<and> code = ''AltRight'' \<and> e_timeStamp e - altGrCtrlTime kb < 50;
          keysym = (if altGr then Some XK_ISO_Level3_Shift else e_keysym e);
          first = (if altGrArmed kb \<and> \<not> altGr
                   then sendKeyEvent (Some XK_Control_L) ''ControlLeft'' True numlock capslock
                          (kb\<lparr>altGrArmed := False\<rparr>)
                   else (kb\<lparr>altGrArmed := False\<rparr>, []))
      in then_key first (\<lambda>kb.
           if code = ''Unidentified'' then
             if keysym \<noteq> None \<and> keysym \<noteq> Some 0 then tap keysym code numlock capslock kb else (kb, [])
           else keydown_tracked os e keysym numlock kb))"

definition release_if_down :: "string \<Rightarrow> keyboard \<Rightarrow> keyboard \<times> key_out list" where
  "release_if_down code kb =
     (case map_of (keyDownList kb) code of
        Some keysym \<Rightarrow> sendKeyEvent keysym code False None None kb
      | None \<Rightarrow> (kb, []))"

definition handleKeyUp :: "platform \<Rightarrow> key_event \<Rightarrow> keyboard \<Rightarrow> keyboard \<times> key_out list" where
  "handleKeyUp os e kb =
     (let code = e_code e in
      then_key (interruptAltGrSequence kb) (\<lambda>kb.
        if (isMac os \<or> isIOS os) \<and> code = ''CapsLock'' then tap (Some XK_Caps_Lock) ''CapsLock'' None None kb
        else
          then_key (release_if_down code kb) (\<lambda>kb.
            if isWindows os \<and> (code = ''ShiftLeft'' \<or> code = ''ShiftRight'')
            then then_key (release_if_down ''ShiftRight'' kb) (release_if_down ''ShiftLeft'')
            else (kb, []))))"

definition grab :: "keyboard \<Rightarrow> keyboard" where
  "grab kb = kb\<lparr>grabbed := True\<rparr>"

definition ungrab :: "keyboard \<Rightarrow> keyboard \<times> key_out list" where
  "ungrab kb = allKeysUp (kb\<lparr>grabbed := False\<rparr>)"

section \<open>What is reported\<close>

text \<open>
  The keys that are down, and with which keysym, after a sequence of presses and releases handed to
  the listener \<open>onkeyevent\<close>.  Whether these reach the server is up to the listener: the one of
  \<open>rfb.js\<close> drops them in view-only mode.
\<close>

fun reported :: "key_out list \<Rightarrow> (string \<rightharpoonup> int option) \<Rightarrow> (string \<rightharpoonup> int option)" where
  "reported [] m = m"
| "reported (ev # evs) m =
     reported evs (m(ko_code ev := (if ko_down ev then Some (ko_keysym ev) else None)))"

text \<open>Only keys that are down are released, and with the keysym they were pressed with.\<close>

fun consistent :: "key_out list \<Rightarrow> (string \<rightharpoonup> int option) \<Rightarrow> bool" where
  "consistent [] m = True"
| "consistent (ev # evs) m \<longleftrightarrow>
     (ko_down ev \<or> m (ko_code ev) = Some (ko_keysym ev)) \<and>
     consistent evs (m(ko_code ev := (if ko_down ev then Some (ko_keysym ev) else None)))"

lemma reported_append [simp]: "reported (xs @ ys) m = reported ys (reported xs m)"
  by (induction xs arbitrary: m) simp_all

lemma consistent_append [simp]: "consistent (xs @ ys) m \<longleftrightarrow> consistent xs m \<and> consistent ys (reported xs m)"
  by (induction xs arbitrary: m) simp_all

lemma map_of_obj_set: "map_of (obj_set k v ps) = (map_of ps)(k \<mapsto> v)"
  by (induction ps rule: obj_set.induct) auto

lemma map_of_obj_del: "map_of (obj_del k ps) = (map_of ps)(k := None)"
  by (induction ps) (auto simp: obj_del_def)

lemma distinct_obj_set: "distinct (map fst ps) \<Longrightarrow> distinct (map fst (obj_set k v ps))"
proof (induction ps)
  case (Cons p ps)
  have "fst ` set (obj_set k v ps) = insert k (fst ` set ps)"
    by (simp flip: dom_map_of_conv_image_fst add: map_of_obj_set)
  then show ?case
    using Cons by (cases p; cases "fst p = k") auto
qed simp

lemma distinct_obj_del: "distinct (map fst ps) \<Longrightarrow> distinct (map fst (obj_del k ps))"
  by (induction ps) (auto simp: obj_del_def)

text \<open>
  The law of a step: the events it reported lead from the old list of keys to the new one.
\<close>

definition tracks :: "keyboard \<Rightarrow> keyboard \<times> key_out list \<Rightarrow> bool" where
  "tracks kb p \<longleftrightarrow> reported (snd p) (map_of (keyDownList kb)) = map_of (keyDownList (fst p))
     \<and> consistent (snd p) (map_of (keyDownList kb))
     \<and> (distinct (map fst (keyDownList kb)) \<longrightarrow> distinct (map fst (keyDownList (fst p))))"

lemma is_down_iff: "is_down code kb \<longleftrightarrow> map_of (keyDownList kb) code \<noteq> None"
  by (simp add: is_down_def map_of_eq_None_iff)

lemma tracks_press: "tracks kb (sendKeyEvent keysym code True numlock capslock kb)"
  by (simp add: tracks_def sendKeyEvent_def map_of_obj_set distinct_obj_set)

lemma tracks_release:
  "map_of (keyDownList kb) code = Some keysym \<Longrightarrow> tracks kb (sendKeyEvent keysym code False numlock capslock kb)"
  by (simp add: tracks_def sendKeyEvent_def is_down_iff map_of_obj_del distinct_obj_del)

lemma tracks_none: "keyDownList kb' = keyDownList kb \<Longrightarrow> tracks kb (kb', [])"
  by (simp add: tracks_def)

lemma tracks_same: "keyDownList kb = keyDownList kb' \<Longrightarrow> tracks kb p = tracks kb' p"
  by (simp add: tracks_def)

lemma tracks_then: "tracks kb p \<Longrightarrow> (\<And>kb'. tracks kb' (f kb')) \<Longrightarrow> tracks kb (then_key p f)"
proof -
  assume p: "tracks kb p" and f: "\<And>kb'. tracks kb' (f kb')"
  obtain kb1 evs where 1: "p = (kb1, evs)"
    by fastforce
  obtain kb2 evs' where 2: "f kb1 = (kb2, evs')"
    by fastforce
  show ?thesis
    using p f [of kb1] unfolding 1 then_key_def by (simp add: 2 tracks_def)
qed

lemma tracks_tap: "tracks kb (tap keysym code numlock capslock kb)"
  by (simp add: tap_def then_key_def sendKeyEvent_def tracks_def is_down_iff map_of_obj_set map_of_obj_del
      distinct_obj_set distinct_obj_del Let_def)

lemma tracks_interrupt: "tracks kb (interruptAltGrSequence kb)"
  using tracks_press [of "kb\<lparr>altGrArmed := False\<rparr>"] tracks_none [of kb kb]
  by (simp add: interruptAltGrSequence_def tracks_same [of kb "kb\<lparr>altGrArmed := False\<rparr>"])

lemma tracks_release_if_down: "tracks kb (release_if_down code kb)"
  by (auto simp: release_if_down_def tracks_release tracks_none split: option.split)

lemma tracks_down: "tracks kb (handleKeyDown os e kb)"
  unfolding handleKeyDown_def Let_def
proof (rule tracks_then)
  show "tracks kb (if altGrArmed kb \<and> \<not> (altGrArmed kb \<and> e_code e = ''AltRight'' \<and> e_timeStamp e - altGrCtrlTime kb < 50)
      then sendKeyEvent (Some XK_Control_L) ''ControlLeft'' True (if isMac os \<or> isIOS os then None else Some (e_numlock e))
             (Some (e_capslock e)) (kb\<lparr>altGrArmed := False\<rparr>)
      else (kb\<lparr>altGrArmed := False\<rparr>, []))"
    using tracks_press [of "kb\<lparr>altGrArmed := False\<rparr>"] by (simp add: tracks_none tracks_def)
qed (simp add: tracks_tap tracks_none keydown_tracked_def Let_def tracks_press)

lemma tracks_up: "tracks kb (handleKeyUp os e kb)"
  unfolding handleKeyUp_def Let_def
  by (intro tracks_then tracks_interrupt)
    (auto intro!: tracks_then tracks_release_if_down tracks_none simp: tracks_tap)

text \<open>Releasing all keys leaves none.\<close>

lemma release_all:
  assumes "distinct (map fst ps)" "keyDownList kb = ps"
  shows "\<exists>kb' evs'. fold (\<lambda>(code, keysym) p. then_key p (sendKeyEvent keysym code False None None)) ps (kb, evs)
      = (kb', evs @ evs') \<and> tracks kb (kb', evs') \<and> keyDownList kb' = []
      \<and> altGrArmed kb' = altGrArmed kb \<and> grabbed kb' = grabbed kb"
  using assms
proof (induction ps arbitrary: kb evs)
  case Nil
  then show ?case
    by (auto simp: tracks_none)
next
  case (Cons p ps)
  obtain code keysym where p: "p = (code, keysym)"
    by fastforce
  define kb1 where "kb1 = kb\<lparr>keyDownList := ps\<rparr>"
  have fresh: "\<forall>q \<in> set ps. fst q \<noteq> code"
    using Cons.prems(1) p by force
  then have "obj_del code (keyDownList kb) = ps"
    using Cons.prems(2) p by (auto simp: obj_del_def filter_id_conv)
  then have s: "sendKeyEvent keysym code False None None kb
      = (kb1, [\<lparr>ko_keysym = keysym, ko_code = code, ko_down = False, ko_numlock = None, ko_capslock = None\<rparr>])"
    using Cons.prems(2) p by (simp add: sendKeyEvent_def is_down_def kb1_def)
  have t: "tracks kb (sendKeyEvent keysym code False None None kb)"
    using Cons.prems(2) p by (intro tracks_release) simp
  have d: "distinct (map fst ps)" "keyDownList kb1 = ps"
    using Cons.prems(1) p by (simp_all add: kb1_def)
  obtain kb' evs' where ih: "fold (\<lambda>(code, keysym) p. then_key p (sendKeyEvent keysym code False None None)) ps
        (kb1, evs @ snd (sendKeyEvent keysym code False None None kb))
      = (kb', (evs @ snd (sendKeyEvent keysym code False None None kb)) @ evs')"
      "tracks kb1 (kb', evs')" "keyDownList kb' = []" "altGrArmed kb' = altGrArmed kb1" "grabbed kb' = grabbed kb1"
    using Cons.IH [OF d, of "evs @ snd (sendKeyEvent keysym code False None None kb)"] by blast
  have "tracks kb (kb', snd (sendKeyEvent keysym code False None None kb) @ evs')"
    using t ih(2) unfolding s by (simp add: tracks_def)
  then show ?case
    using ih by (simp add: p then_key_def s kb1_def)
qed

lemma allKeysUp_releases:
  assumes "distinct (map fst (keyDownList kb))"
  shows "tracks kb (allKeysUp kb) \<and> keyDownList (fst (allKeysUp kb)) = [] \<and> \<not> altGrArmed (fst (allKeysUp kb))"
proof -
  obtain kb1 evs where i: "interruptAltGrSequence kb = (kb1, evs)"
    by fastforce
  have t: "tracks kb (kb1, evs)"
    using tracks_interrupt [of kb] i by simp
  have a: "\<not> altGrArmed kb1"
    using i by (auto simp: interruptAltGrSequence_def sendKeyEvent_def split: if_splits)
  have d: "distinct (map fst (keyDownList kb1))"
    using t assms by (simp add: tracks_def)
  show ?thesis
    using release_all [OF d refl, of evs] t a i
    by (auto simp: allKeysUp_def tracks_def)
qed

section \<open>Sequences of events\<close>

datatype kb_event = KeyDown key_event | KeyUp key_event | Blur | AltGrTimeout | Grab | Ungrab

fun kb_step :: "platform \<Rightarrow> kb_event \<Rightarrow> keyboard \<Rightarrow> keyboard \<times> key_out list" where
  "kb_step os (KeyDown e) kb = handleKeyDown os e kb"
| "kb_step os (KeyUp e) kb = handleKeyUp os e kb"
| "kb_step os Blur kb = allKeysUp kb"
| "kb_step os AltGrTimeout kb = interruptAltGrSequence kb"
| "kb_step os Grab kb = (grab kb, [])"
| "kb_step os Ungrab kb = ungrab kb"

fun kb_run :: "platform \<Rightarrow> kb_event list \<Rightarrow> keyboard \<Rightarrow> keyboard \<times> key_out list" where
  "kb_run os [] kb = (kb, [])"
| "kb_run os (ev # evs) kb = then_key (kb_step os ev kb) (kb_run os evs)"

lemma tracks_step:
  assumes "distinct (map fst (keyDownList kb))"
  shows "tracks kb (kb_step os ev kb)"
proof (cases ev)
  case Ungrab
  have "tracks kb (ungrab kb) = tracks (kb\<lparr>grabbed := False\<rparr>) (ungrab kb)"
    by (rule tracks_same) simp
  then show ?thesis
    using Ungrab allKeysUp_releases [of "kb\<lparr>grabbed := False\<rparr>"] assms by (simp add: ungrab_def)
qed (use assms allKeysUp_releases in \<open>auto simp: tracks_down tracks_up tracks_interrupt grab_def intro: tracks_none\<close>)

lemma tracks_run:
  "distinct (map fst (keyDownList kb)) \<Longrightarrow> tracks kb (kb_run os evs kb)"
proof (induction evs arbitrary: kb)
  case (Cons ev evs)
  obtain kb1 out where s: "kb_step os ev kb = (kb1, out)"
    by fastforce
  have t: "tracks kb (kb1, out)"
    using tracks_step [OF Cons.prems, of os ev] s by simp
  then have "tracks kb1 (kb_run os evs kb1)"
    using Cons.IH [of kb1] Cons.prems by (simp add: tracks_def)
  then show ?case
    using t by (cases "kb_run os evs kb1") (simp add: s then_key_def tracks_def)
qed (simp add: tracks_none)

lemma kb_run_snoc: "kb_run os (evs @ [ev]) kb = then_key (kb_run os evs kb) (kb_step os ev)"
proof (induction evs arbitrary: kb)
  case Nil
  then show ?case
    by (cases "kb_step os ev kb") (simp add: then_key_def)
next
  case (Cons e evs)
  then show ?case
    by (cases "kb_step os e kb"; cases "kb_run os evs (fst (kb_step os e kb))")
      (simp add: then_key_def split: prod.splits)
qed

text \<open>C28. Whatever key events arrive, on whichever platform, the keys that are down, and with which
  keysym, for a listener that goes by what \<open>onkeyevent\<close> reports are the object's own list; a key is
  only reported as released while it is down and with the keysym it was reported pressed with; and
  when the window loses the focus or the keyboard is released, no key stays down for the listener.
  (The listener of \<open>rfb.js\<close> passes the reports on to the server except in view-only mode and outside
  a connection; \<open>view_only_forgets_keys\<close> is what follows from that.)\<close>

theorem no_stuck_keys:
  "(let (kb, out) = kb_run os evs new_keyboard in
      reported out Map.empty = map_of (keyDownList kb) \<and> consistent out Map.empty)
    \<and> reported (snd (kb_run os (evs @ [Blur]) new_keyboard)) Map.empty = Map.empty
      \<and> reported (snd (kb_run os (evs @ [Ungrab]) new_keyboard)) Map.empty = Map.empty"
proof -
  have t: "tracks new_keyboard (kb_run os evs' new_keyboard)" for evs'
    by (rule tracks_run) (simp add: new_keyboard_def)
  have e: "map_of (keyDownList new_keyboard) = Map.empty" "distinct (map fst (keyDownList new_keyboard))"
    by (simp_all add: new_keyboard_def)
  have "let (kb, out) = kb_run os evs new_keyboard in
      reported out Map.empty = map_of (keyDownList kb) \<and> consistent out Map.empty"
    using t [of evs] e by (auto simp: tracks_def Let_def split: prod.splits)
  moreover
  define kb where "kb = fst (kb_run os evs new_keyboard)"
  have d: "distinct (map fst (keyDownList kb))"
    using t [of evs] e by (simp add: tracks_def kb_def)
  have f: "fst (kb_run os (evs @ [ev]) new_keyboard) = fst (kb_step os ev kb)" for ev
    by (auto simp: kb_run_snoc then_key_def kb_def split: prod.splits)
  have "keyDownList (fst (kb_step os Blur kb)) = []" "keyDownList (fst (kb_step os Ungrab kb)) = []"
    using allKeysUp_releases [OF d] allKeysUp_releases [of "kb\<lparr>grabbed := False\<rparr>"] d by (simp_all add: ungrab_def)
  then have "reported (snd (kb_run os (evs @ [Blur]) new_keyboard)) Map.empty = Map.empty
      \<and> reported (snd (kb_run os (evs @ [Ungrab]) new_keyboard)) Map.empty = Map.empty"
    using t [of "evs @ [Blur]"] t [of "evs @ [Ungrab]"] e f [of Blur] f [of Ungrab] by (simp add: tracks_def)
  ultimately show ?thesis
    by blast
qed

end
