(* ===== verification/Effects.thy ===== *)
theory Effects
  imports JsBase
begin

text \<open>
  Methods that change the state of an object, may throw, and may fail to return.

  \<open>('a, 's) res\<close> is the outcome of such a call: \<open>None\<close> is a call that does not return,
  \<open>Some (Inl e, s)\<close> an exception \<open>e\<close> that leaves the object in the state \<open>s\<close>, and \<open>Some (Inr x, s)\<close> a
  return of \<open>x\<close>.
\<close>

section \<open>Calls that may throw\<close>

type_synonym ('a, 's) res = "((js_error + 'a) \<times> 's) option"

definition ret :: "'a \<Rightarrow> 's \<Rightarrow> ('a, 's) res" where
  "ret x s = Some (Inr x, s)"

definition raise :: "js_error \<Rightarrow> 's \<Rightarrow> ('a, 's) res" where
  "raise e s = Some (Inl e, s)"

definition seqr :: "('a, 's) res \<Rightarrow> ('a \<Rightarrow> 's \<Rightarrow> ('b, 's) res) \<Rightarrow> ('b, 's) res" where
  "seqr m f = (case m of None \<Rightarrow> None | Some (Inl e, s) \<Rightarrow> Some (Inl e, s) | Some (Inr x, s) \<Rightarrow> f x s)"

text \<open>What holds of the state in which a call leaves the object, if it returns or throws.\<close>

definition leaves :: "('s \<Rightarrow> bool) \<Rightarrow> ('a, 's) res \<Rightarrow> bool" where
  "leaves P m = (case m of None \<Rightarrow> True | Some (_, s) \<Rightarrow> P s)"

named_theorems leaves_intros \<open>rules for the state that a call leaves behind\<close>

lemma seqr_simps [simp]:
  "seqr (ret x s) f = f x s" "seqr (raise e s) f = raise e s" "seqr None f = None"
  "seqr (Some (Inr x, s)) f = f x s" "seqr (Some (Inl e, s)) f = Some (Inl e, s)"
  by (simp_all add: seqr_def ret_def raise_def)

lemma ret_inject [simp]: "ret x s = ret y t \<longleftrightarrow> x = y \<and> s = t"
  by (simp add: ret_def)

lemma leaves_simps [simp]:
  "leaves P (ret x s) = P s" "leaves P (raise e s) = P s" "leaves P None" "leaves P (Some (q, s)) = P s"
  by (simp_all add: leaves_def ret_def raise_def)

lemma leaves_seqr [leaves_intros]:
  assumes "leaves P m" "\<And>x s. P s \<Longrightarrow> leaves P (f x s)"
  shows "leaves P (seqr m f)"
proof (cases m)
  case (Some p)
  obtain q s where "m = Some (q, s)"
    using Some by (cases p) simp
  then show ?thesis
    using assms by (cases q) (simp_all add: leaves_def seqr_def)
qed simp

lemma seqr_assoc: "seqr (seqr m f) g = seqr m (\<lambda>x s. seqr (f x s) g)"
  by (auto simp: seqr_def split: option.splits sum.splits)

lemma leaves_mono: "leaves P m \<Longrightarrow> (\<And>s. P s \<Longrightarrow> Q s) \<Longrightarrow> leaves Q m"
  by (auto simp: leaves_def split: option.splits)

lemma seqr_mono [partial_function_mono]:
  assumes "\<And>x s. mono_option (\<lambda>f. C f x s)"
  shows "mono_option (\<lambda>f. seqr m (C f))"
proof (cases m)
  case (Some p)
  obtain q s where "m = Some (q, s)"
    using Some by (cases p) simp
  then show ?thesis
    using assms by (cases q) (simp_all add: option.const_mono)
qed (simp add: option.const_mono)

lemma leaves_cases [leaves_intros]:
  "P s \<Longrightarrow> leaves P (ret x s)"
  "P s \<Longrightarrow> leaves P (raise e s)"
  "leaves P None"
  "(b \<Longrightarrow> leaves P m) \<Longrightarrow> (\<not> b \<Longrightarrow> leaves P m') \<Longrightarrow> leaves P (if b then m else m')"
  "(\<And>x y. p = (x, y) \<Longrightarrow> leaves P (f x y)) \<Longrightarrow> leaves P (case p of (x, y) \<Rightarrow> f x y)"
  "(q = None \<Longrightarrow> leaves P m) \<Longrightarrow> (\<And>x. q = Some x \<Longrightarrow> leaves P (g x)) \<Longrightarrow>
    leaves P (case q of None \<Rightarrow> m | Some x \<Rightarrow> g x)"
  "(\<And>e. z = Inl e \<Longrightarrow> leaves P (h e)) \<Longrightarrow> (\<And>x. z = Inr x \<Longrightarrow> leaves P (k x)) \<Longrightarrow>
    leaves P (case z of Inl e \<Rightarrow> h e | Inr x \<Rightarrow> k x)"
  "(l = [] \<Longrightarrow> leaves P m) \<Longrightarrow> (\<And>x xs. l = x # xs \<Longrightarrow> leaves P (c x xs)) \<Longrightarrow>
    leaves P (case l of [] \<Rightarrow> m | x # xs \<Rightarrow> c x xs)"
  by (auto split: prod.split option.split sum.split list.split)

text \<open>A loop leaves what every round leaves.\<close>

lemma leaves_adm: "option.admissible (\<lambda>f. \<forall>x. R x \<longrightarrow> leaves P (f x))"
proof -
  have e: "(\<lambda>f. \<forall>x. R x \<longrightarrow> leaves P (f x)) = (\<lambda>f. \<forall>x y. f x = Some y \<longrightarrow> R x \<longrightarrow> P (snd y))"
    by (rule ext) (fastforce simp: leaves_def split: option.splits)
  show ?thesis
    unfolding e by (rule option_admissible)
qed

section \<open>Calls that return\<close>

text \<open>\<open>m\<close> returns or throws, and what it returns satisfies \<open>P\<close>.\<close>

definition gives :: "('a \<Rightarrow> 's \<Rightarrow> bool) \<Rightarrow> ('a, 's) res \<Rightarrow> bool" where
  "gives P m = (case m of None \<Rightarrow> False | Some (Inl e, s) \<Rightarrow> True | Some (Inr x, s) \<Rightarrow> P x s)"

named_theorems gives_intros \<open>rules for calls that return\<close>

lemma gives_simps [simp]:
  "gives P (ret x s) = P x s" "gives P (raise e s)" "\<not> gives P None"
  "gives P (Some (Inr x, s)) = P x s" "gives P (Some (Inl e, s))"
  by (simp_all add: gives_def ret_def raise_def)

lemma gives_seqr:
  assumes "gives Q m" "\<And>x s. Q x s \<Longrightarrow> gives P (f x s)"
  shows "gives P (seqr m f)"
proof (cases m)
  case (Some p)
  obtain q s where "m = Some (q, s)"
    using Some by (cases p) simp
  then show ?thesis
    using assms by (cases q) simp_all
qed (use assms in simp)

lemma gives_mono: "gives Q m \<Longrightarrow> (\<And>x s. Q x s \<Longrightarrow> P x s) \<Longrightarrow> gives P m"
  by (auto simp: gives_def split: option.splits sum.splits)

lemma gives_cases [gives_intros]:
  "P x s \<Longrightarrow> gives P (ret x s)"
  "gives P (raise e s)"
  "(b \<Longrightarrow> gives P m) \<Longrightarrow> (\<not> b \<Longrightarrow> gives P m') \<Longrightarrow> gives P (if b then m else m')"
  "(\<And>x y. p = (x, y) \<Longrightarrow> gives P (f x y)) \<Longrightarrow> gives P (case p of (x, y) \<Rightarrow> f x y)"
  "(q = None \<Longrightarrow> gives P m) \<Longrightarrow> (\<And>x. q = Some x \<Longrightarrow> gives P (g x)) \<Longrightarrow>
    gives P (case q of None \<Rightarrow> m | Some x \<Rightarrow> g x)"
  "(\<And>e. z = Inl e \<Longrightarrow> gives P (h e)) \<Longrightarrow> (\<And>x. z = Inr x \<Longrightarrow> gives P (k x)) \<Longrightarrow>
    gives P (case z of Inl e \<Rightarrow> h e | Inr x \<Rightarrow> k x)"
  "(l = [] \<Longrightarrow> gives P m) \<Longrightarrow> (\<And>x xs. l = x # xs \<Longrightarrow> gives P (c x xs)) \<Longrightarrow>
    gives P (case l of [] \<Rightarrow> m | x # xs \<Rightarrow> c x xs)"
  by (auto split: prod.split option.split sum.split list.split)

end
