(* ===== verification/Rfb.thy ===== *)
theory Rfb
  imports Effects Messages DisplayProps Resumable Keyboard
begin

text \<open>
  Model of the class \<open>RFB\<close> in \<open>core/rfb.js\<close>, first part: its state, its properties and the states
  of a connection.

  The fields of the object are grouped: what belongs to the handshake, to the mouse and gestures,
  to the remote resize, the settings that a page may change, and the page itself (the DOM, its
  geometry, the clock and what has been scheduled with the browser).  Events that the object
  dispatches are collected in \<open>events\<close>.  \<open>'d\<close> is the state of the decoders.

  A method returns \<open>('a, 'd rfb) res\<close> (\<open>Effects\<close>); \<open>None\<close> is an endless loop in \<open>sQpushBytes\<close>.
\<close>

section \<open>Calls on the socket\<close>

text \<open>A sequence of calls on the socket: the call that throws has not changed it.\<close>

fun sq_exec :: "sq_op list \<Rightarrow> websock \<Rightarrow> (unit, websock) res" where
  "sq_exec [] s = ret () s"
| "sq_exec (x # xs) s =
     (case sq_step x s of
        None \<Rightarrow> None
      | Some (Inl e) \<Rightarrow> raise e s
      | Some (Inr s) \<Rightarrow> sq_exec xs s)"

lemma sq_exec_run:
  "sq_run xs s = (case sq_exec xs s of None \<Rightarrow> None | Some (Inl e, _) \<Rightarrow> Some (Inl e)
     | Some (Inr _, s) \<Rightarrow> Some (Inr s))"
  by (induction xs arbitrary: s) (auto simp: ret_def raise_def split: option.splits sum.splits)

section \<open>State\<close>

datatype conn = NoConn | Conn_connecting | Conn_connected | Conn_disconnecting | Conn_disconnected

datatype init = NoInit | ProtocolVersion | Security | Authentication | SecurityResult
  | SecurityReason | ClientInitialisation | ServerInitialisation

record credentials =
  username :: "jsstr option"
  password :: "jsstr option"
  target :: "jsstr option"
  ardCredentials :: "byte list option"
  ardPublicKey :: "byte list option"

text \<open>The calls made on the object of the RSA-AES authentication.\<close>

datatype ra2_call = Ra2Check | Ra2Start | Ra2Approve | Ra2Disconnect

record ra2 =
  hasStarted :: bool
  ra2_calls :: "ra2_call list"

text \<open>A protocol version is kept as ten times the number: 3.8 is 38.\<close>

record handshake =
  initState :: init
  authScheme :: int
  rfbVersion :: nat
  rfbMaxVersion :: nat
  tightVNC :: bool
  veNCryptState :: nat
  veNCryptSubtypesLength :: nat
  securityContext :: string
  securityStatus :: nat
  ra2_state :: "ra2 option"

record fbu =
  rects :: nat
  fbu_x :: nat
  fbu_y :: nat
  fbu_width :: nat
  fbu_height :: nat
  encoding :: "int option"

record cursor_image =
  rgbaPixels :: "byte list"
  hotx :: nat
  hoty :: nat
  cur_w :: nat
  cur_h :: nat

datatype cursor_call =
    CurAttach
  | CurDetach
  | CurChange "byte list" nat nat nat nat
  | CurMove rat rat

record gesture_ev =
  ge_type :: string
  ge_gesture :: string
  ge_clientX :: rat
  ge_clientY :: rat
  ge_magnitudeX :: real
  ge_magnitudeY :: real

text \<open>The handle of a timer, if it is not \<open>null\<close>: whether the timer is still armed, and its delay in
  milliseconds.\<close>

type_synonym timer = "(bool \<times> int) option"

definition clear_timer :: "timer \<Rightarrow> timer" where
  "clear_timer t = map_option (\<lambda>(_, delay). (False, delay)) t"

record mouse =
  mousePos :: "rat \<times> rat"
  mouseButtonMask :: int
  mouseLastMoveTime :: int
  mouseMoveTimer :: timer
  viewportDragging :: bool
  viewportDragPos :: "(rat \<times> rat) option"
  viewportHasMoved :: bool
  accumulatedWheelDeltaX :: rat
  accumulatedWheelDeltaY :: rat
  gestureLastTapTime :: "int option"
  gestureFirstDoubleTapEv :: "gesture_ev option"
  gestureLastMagnitudeX :: real
  gestureLastMagnitudeY :: real

record resizing =
  supportsSetDesktopSize :: bool
  screenID :: nat
  screenFlags :: nat
  pendingRemoteResize :: bool
  lastResize :: int
  resizeTimeout :: timer
  expectedClient :: "(int \<times> int) option"

record settings =
  dragViewport :: bool
  focusOnClick :: bool
  viewOnly :: bool
  clipViewport_on :: bool
  clippingViewport :: bool
  scaleViewport :: bool
  resizeSession :: bool
  showDotCursor :: bool
  qualityLevel :: int
  compressionLevel :: int

text \<open>
  The page: the geometry the browser reports (client size and bounding rectangle of the screen
  element, bounding rectangle of the canvas as left, top, width, height), the clock in
  milliseconds, what is attached to it, the calls of the cursor object, how often the canvas got
  the focus, whether the mouse is captured, the distance at which a drag begins, the number of callbacks handed to \<open>setTimeout(_initMsg)\<close>, the results that
  \<open>_negotiateARDAuthAsync\<close> is still to store, and the number of callbacks handed to
  \<open>requestAnimationFrame\<close>.
\<close>

record page =
  clientSize :: "int \<times> int"
  screenRect :: "rat \<times> rat"
  canvasRect :: "rat \<times> rat \<times> rat \<times> rat"
  now :: int
  inPage :: bool
  listeners :: "string list"
  observing :: bool
  gesturesAttached :: bool
  cursorCalls :: "cursor_call list"
  focused :: nat
  captured :: bool
  dragThreshold :: rat
  resumes :: nat
  ardTasks :: "(byte list \<times> byte list) list"
  frames :: nat

datatype rfb_event =
    EvConnect
  | EvDisconnect bool
  | EvDesktopName jsstr
  | EvCapabilities bool
  | EvClipping bool
  | EvSecurityFailure nat "jsstr option"
  | EvCredentials "string list"
  | EvRa2 string
  | EvClipboard jsstr
  | EvBell

record 'd rfb =
  url :: "jsstr option"
  rawChannel :: "channel option"
  rfbCredentials :: credentials
  shared :: bool
  repeaterID :: jsstr
  conn :: conn
  cleanDisconnect :: bool
  disconnTimer :: bool
  hs :: handshake
  xvpVer :: nat
  fbW :: nat
  fbH :: nat
  fbName :: jsstr
  fbDepth :: nat
  power :: bool
  supportsFence :: bool
  supportsContinuousUpdates :: bool
  enabledContinuousUpdates :: bool
  rsz :: resizing
  qemuExtKeyEventSupported :: bool
  extendedPointerEventSupported :: bool
  clipboardText :: "jsstr option"
  clipActions :: "int \<Rightarrow> bool"
  clipFormats :: "int \<Rightarrow> bool"
  sock :: websock
  disp :: display
  flushing :: bool
  decoders :: 'd
  FBU :: fbu
  mouse :: mouse
  settings :: settings
  keyboard :: keyboard
  remoteCapsLock :: "bool option"
  remoteNumLock :: "bool option"
  cursorImage :: cursor_image
  page :: page
  events :: "rfb_event list"

definition dispatch :: "rfb_event \<Rightarrow> 'd rfb \<Rightarrow> 'd rfb" where
  "dispatch ev r = r\<lparr>events := events r @ [ev]\<rparr>"

definition send :: "sq_op list \<Rightarrow> 'd rfb \<Rightarrow> (unit, 'd rfb) res" where
  "send m r = (case sq_exec m (sock r) of None \<Rightarrow> None | Some (q, s) \<Rightarrow> Some (q, r\<lparr>sock := s\<rparr>))"

definition cursor_call :: "cursor_call \<Rightarrow> 'd rfb \<Rightarrow> 'd rfb" where
  "cursor_call c r = r\<lparr>page := (page r)\<lparr>cursorCalls := cursorCalls (page r) @ [c]\<rparr>\<rparr>"

section \<open>Cursor\<close>

definition cursor_none :: cursor_image where
  "cursor_none = \<lparr>rgbaPixels = [], hotx = 0, hoty = 0, cur_w = 0, cur_h = 0\<rparr>"

definition cursor_dot :: cursor_image where
  "cursor_dot = \<lparr>rgbaPixels = [
     255, 255, 255, 255,   0,   0,   0, 255, 255, 255, 255, 255,
       0,   0,   0, 255,   0,   0,   0,   0,   0,   0,   0, 255,
     255, 255, 255, 255,   0,   0,   0, 255, 255, 255, 255, 255],
     hotx = 1, hoty = 1, cur_w = 3, cur_h = 3\<rparr>"

fun alpha_nonzero :: "byte list \<Rightarrow> bool" where
  "alpha_nonzero (_ # _ # _ # a # px) = (a \<noteq> 0 \<or> alpha_nonzero px)"
| "alpha_nonzero _ = False"

definition shouldShowDotCursor :: "'d rfb \<Rightarrow> bool" where
  "shouldShowDotCursor r =
     (if \<not> showDotCursor (settings r) then False
      else \<not> alpha_nonzero (rgbaPixels (cursorImage r)))"

definition refreshCursor :: "'d rfb \<Rightarrow> 'd rfb" where
  "refreshCursor r =
     (if conn r \<noteq> Conn_connecting \<and> conn r \<noteq> Conn_connected then r
      else
        let image = (if shouldShowDotCursor r then cursor_dot else cursorImage r)
        in cursor_call (CurChange (rgbaPixels image) (hotx image) (hoty image) (cur_w image) (cur_h image)) r)"

definition updateCursor :: "byte list \<Rightarrow> nat \<Rightarrow> nat \<Rightarrow> nat \<Rightarrow> nat \<Rightarrow> 'd rfb \<Rightarrow> 'd rfb" where
  "updateCursor rgba hx hy w h r =
     refreshCursor (r\<lparr>cursorImage := \<lparr>rgbaPixels = rgba, hotx = hx, hoty = hy, cur_w = w, cur_h = h\<rparr>\<rparr>)"

section \<open>The states of a connection\<close>

text \<open>\<open>_socketOpen\<close> and \<open>_fail\<close> need the transitions, and the first transition needs \<open>_connect\<close>,
  which may find the channel open already.  The transition itself comes first.\<close>

definition transition_ok :: "conn \<Rightarrow> conn \<Rightarrow> bool" where
  "transition_ok old state =
     (case state of
        Conn_connected \<Rightarrow> old = Conn_connecting
      | Conn_disconnected \<Rightarrow> old = Conn_disconnecting
      | Conn_connecting \<Rightarrow> old = NoConn
      | Conn_disconnecting \<Rightarrow> old = Conn_connected \<or> old = Conn_connecting
      | NoConn \<Rightarrow> False)"

definition canvas_listeners :: "string list" where
  "canvas_listeners = [''mousedown focusCanvas'', ''touchstart focusCanvas'',
     ''mousedown handleMouse'', ''mouseup handleMouse'', ''mousemove handleMouse'', ''click handleMouse'',
     ''contextmenu handleMouse'', ''wheel handleWheel'', ''gesturestart handleGesture'',
     ''gesturemove handleGesture'', ''gestureend handleGesture'']"

definition removed_listeners :: "string list" where
  "removed_listeners = [''gesturestart handleGesture'', ''gesturemove handleGesture'',
     ''gestureend handleGesture'', ''wheel handleWheel'', ''mousedown handleMouse'', ''mouseup handleMouse'',
     ''mousemove handleMouse'', ''click handleMouse'', ''contextmenu handleMouse'',
     ''mousedown focusCanvas'', ''touchstart focusCanvas'']"

text \<open>
  \<open>_keyboard.ungrab()\<close>.  The releases that it reports reach \<open>_handleKeyEvent\<close>, but it is only called
  when the object is disconnecting or has been made view-only, and then nothing comes of them.
\<close>

definition keyboard_ungrab :: "'d rfb \<Rightarrow> 'd rfb" where
  "keyboard_ungrab r = r\<lparr>keyboard := fst (ungrab (keyboard r))\<rparr>"

text \<open>\<open>_disconnect\<close>; taking out a screen element that is not in the page is not an error.\<close>

definition disconnect_now :: "'d rfb \<Rightarrow> 'd rfb" where
  "disconnect_now r =
     (let r = cursor_call CurDetach r;
          r = r\<lparr>page := (page r)\<lparr>
                  listeners := filter (\<lambda>l. l \<notin> set removed_listeners) (listeners (page r)),
                  observing := False\<rparr>\<rparr>;
          r = keyboard_ungrab r;
          r = r\<lparr>page := (page r)\<lparr>gesturesAttached := False\<rparr>\<rparr>;
          r = r\<lparr>sock := ws_close (sock r)\<rparr>;
          r = r\<lparr>page := (page r)\<lparr>inPage := False\<rparr>\<rparr>
      in r\<lparr>rsz := (rsz r)\<lparr>resizeTimeout := clear_timer (resizeTimeout (rsz r))\<rparr>,
           mouse := (mouse r)\<lparr>mouseMoveTimer := clear_timer (mouseMoveTimer (mouse r))\<rparr>\<rparr>)"

text \<open>The transitions other than the one to \<open>connecting\<close>.\<close>

definition change_state :: "conn \<Rightarrow> 'd rfb \<Rightarrow> 'd rfb" where
  "change_state state r =
     (if state = conn r \<or> conn r = Conn_disconnected \<or> \<not> transition_ok (conn r) state then r
      else
        let r = r\<lparr>conn := state\<rparr>;
            r = (if disconnTimer r \<and> state \<noteq> Conn_disconnecting
                 then r\<lparr>disconnTimer := False, sock := ws_off EvClose (sock r)\<rparr> else r)
        in case state of
             Conn_connected \<Rightarrow> dispatch EvConnect r
           | Conn_disconnecting \<Rightarrow> (disconnect_now r)\<lparr>disconnTimer := True\<rparr>
           | Conn_disconnected \<Rightarrow> dispatch (EvDisconnect (cleanDisconnect r)) r
           | _ \<Rightarrow> r)"

definition fail :: "'d rfb \<Rightarrow> 'd rfb" where
  "fail r = change_state Conn_disconnected (change_state Conn_disconnecting (r\<lparr>cleanDisconnect := False\<rparr>))"

text \<open>\<open>return this._fail(...)\<close>\<close>

definition failed :: "'d rfb \<Rightarrow> (bool, 'd rfb) res" where
  "failed r = ret False (fail r)"

definition disconnect_timeout :: "'d rfb \<Rightarrow> 'd rfb" where
  "disconnect_timeout r = change_state Conn_disconnected r"

definition socketOpen :: "'d rfb \<Rightarrow> 'd rfb" where
  "socketOpen r =
     (if conn r = Conn_connecting \<and> initState (hs r) = NoInit
      then r\<lparr>hs := (hs r)\<lparr>initState := ProtocolVersion\<rparr>\<rparr>
      else fail r)"

definition socketClose :: "'d rfb \<Rightarrow> 'd rfb" where
  "socketClose r =
     (let r = (case conn r of
                 Conn_connecting \<Rightarrow> fail r
               | Conn_connected \<Rightarrow> change_state Conn_disconnected (change_state Conn_disconnecting r)
               | Conn_disconnecting \<Rightarrow> change_state Conn_disconnected r
               | Conn_disconnected \<Rightarrow> fail r
               | NoConn \<Rightarrow> fail r)
      in r\<lparr>sock := ws_off EvClose (sock r), rawChannel := None\<rparr>)"

definition socketError :: "'d rfb \<Rightarrow> 'd rfb" where
  "socketError r = r"

text \<open>\<open>new WebSocket(url)\<close>: a channel that is not open yet.\<close>

definition browser_socket :: channel where
  "browser_socket = \<lparr>ch_state = WebSocketState 0, ch_props = rawChannelProps, ch_sent = [], ch_closes = 0,
     ch_listening = False\<rparr>"

definition connect_page :: "'d rfb \<Rightarrow> 'd rfb" where
  "connect_page r =
     (let r = r\<lparr>page := (page r)\<lparr>inPage := True, gesturesAttached := True\<rparr>\<rparr>;
          r = refreshCursor (cursor_call CurAttach r)
      in r\<lparr>page := (page r)\<lparr>observing := True, listeners := listeners (page r) @ canvas_listeners\<rparr>\<rparr>)"

definition connect :: "'d rfb \<Rightarrow> (unit, 'd rfb) res" where
  "connect r =
     (if url r \<noteq> None \<and> url r \<noteq> Some [] then
        (case attach browser_socket (sock r) of
           Inl e \<Rightarrow> raise e (r\<lparr>sock := ws_init (sock r)\<rparr>)
         | Inr s \<Rightarrow> ret () (connect_page (r\<lparr>sock := s\<rparr>)))
      else
        (case rawChannel r of
           None \<Rightarrow> raise NullError (r\<lparr>sock := ws_init (sock r)\<rparr>)
         | Some c \<Rightarrow>
             (case attach c (sock r) of
                Inl e \<Rightarrow> raise e (r\<lparr>sock := ws_init (sock r)\<rparr>)
              | Inr s \<Rightarrow>
                  let r = r\<lparr>sock := s\<rparr> in
                  if readyState s = Closed
                  then raise (JsError ''Cannot use already closed WebSocket/RTCDataChannel'') r
                  else ret () (connect_page (if readyState s = Open then socketOpen r else r)))))"

definition updateConnectionState :: "conn \<Rightarrow> 'd rfb \<Rightarrow> (unit, 'd rfb) res" where
  "updateConnectionState state r =
     (let r' = change_state state r in
      if state = Conn_connecting \<and> conn r = NoConn then connect r' else ret () r')"

definition setCapability :: "bool \<Rightarrow> 'd rfb \<Rightarrow> 'd rfb" where
  "setCapability val r = dispatch (EvCapabilities val) (r\<lparr>power := val\<rparr>)"

definition setDesktopName :: "jsstr \<Rightarrow> 'd rfb \<Rightarrow> 'd rfb" where
  "setDesktopName name r = dispatch (EvDesktopName name) (r\<lparr>fbName := name\<rparr>)"

section \<open>Screen size, clipping and scaling\<close>

definition saveExpectedClientSize :: "'d rfb \<Rightarrow> 'd rfb" where
  "saveExpectedClientSize r = r\<lparr>rsz := (rsz r)\<lparr>expectedClient := Some (clientSize (page r))\<rparr>\<rparr>"

definition clientHasExpectedSize :: "'d rfb \<Rightarrow> bool" where
  "clientHasExpectedSize r = (Some (clientSize (page r)) = expectedClient (rsz r))"

definition screenSize :: "'d rfb \<Rightarrow> rat \<times> rat" where
  "screenSize r = screenRect (page r)"

definition setClippingViewport :: "bool \<Rightarrow> 'd rfb \<Rightarrow> 'd rfb" where
  "setClippingViewport on r =
     (if on = clippingViewport (settings r) then r
      else dispatch (EvClipping on) (r\<lparr>settings := (settings r)\<lparr>clippingViewport := on\<rparr>\<rparr>))"

text \<open>\<open>width\<close> and \<open>height\<close> of the display are the size of the frame buffer.  \<open>_fixScrollbars\<close>
  switches a style off and on again.\<close>

definition updateClip :: "'d rfb \<Rightarrow> 'd rfb" where
  "updateClip r =
     (let curClip = clipViewport (disp r);
          newClip = (if scaleViewport (settings r) then False else clipViewport_on (settings r));
          r = (if curClip \<noteq> newClip then r\<lparr>disp := set_clipViewport newClip (disp r)\<rparr> else r);
          r = (if newClip then
                 let (w, h) = screenSize r;
                     r = r\<lparr>disp := viewportChangeSize (Some (w, h)) (disp r)\<rparr>
                 in setClippingViewport (w < of_int (fbWidth (disp r)) \<or> h < of_int (fbHeight (disp r))) r
               else setClippingViewport False r)
      in if curClip \<noteq> newClip then saveExpectedClientSize r else r)"

definition updateScale :: "'d rfb \<Rightarrow> 'd rfb" where
  "updateScale r =
     (if \<not> scaleViewport (settings r) then r\<lparr>disp := rescale (Some 1) (disp r)\<rparr>
      else let (w, h) = screenSize r in r\<lparr>disp := autoscale w h (disp r)\<rparr>)"

definition requestRemoteResize :: "'d rfb \<Rightarrow> (unit, 'd rfb) res" where
  "requestRemoteResize r =
     (if \<not> resizeSession (settings r) \<or> viewOnly (settings r) \<or> \<not> supportsSetDesktopSize (rsz r)
         \<or> pendingRemoteResize (rsz r) then ret () r
      else if now (page r) - lastResize (rsz r) < 100 then
        ret () (r\<lparr>rsz := (rsz r)\<lparr>resizeTimeout := Some (True, 100 - (now (page r) - lastResize (rsz r)))\<rparr>\<rparr>)
      else
        let r = r\<lparr>rsz := (rsz r)\<lparr>resizeTimeout := None\<rparr>\<rparr>;
            (w, h) = screenSize r
        in if w = of_nat (fbW r) \<and> h = of_nat (fbH r) then ret () r
           else
             let r = r\<lparr>rsz := (rsz r)\<lparr>pendingRemoteResize := True, lastResize := now (page r)\<rparr>\<rparr>
             in send (setDesktopSize \<lfloor>w\<rfloor> \<lfloor>h\<rfloor> (int (screenID (rsz r))) (int (screenFlags (rsz r)))) r)"

text \<open>The callback of \<open>requestAnimationFrame\<close> in \<open>_handleResize\<close>, and \<open>_handleResize\<close> itself.\<close>

definition animation_frame :: "'d rfb \<Rightarrow> 'd rfb" where
  "animation_frame r = saveExpectedClientSize (updateScale (updateClip r))"

definition handleResize :: "'d rfb \<Rightarrow> (unit, 'd rfb) res" where
  "handleResize r =
     (if clientHasExpectedSize r then ret () r
      else requestRemoteResize (r\<lparr>page := (page r)\<lparr>frames := Suc (frames (page r))\<rparr>\<rparr>))"

definition updateContinuousUpdates :: "'d rfb \<Rightarrow> (unit, 'd rfb) res" where
  "updateContinuousUpdates r =
     (if \<not> enabledContinuousUpdates r then ret () r
      else send (enableContinuousUpdates True 0 0 (int (fbW r)) (int (fbH r))) r)"

definition resize_fb :: "nat \<Rightarrow> nat \<Rightarrow> 'd rfb \<Rightarrow> (unit, 'd rfb) res" where
  "resize_fb width height r =
     (let r = r\<lparr>fbW := width, fbH := height\<rparr>;
          r = r\<lparr>disp := resize (int width) (int height) (disp r)\<rparr>
      in seqr (updateContinuousUpdates (updateScale (updateClip r)))
           (\<lambda>_ r. ret () (saveExpectedClientSize r)))"

section \<open>Encodings\<close>

abbreviation encodingRaw :: int where "encodingRaw \<equiv> 0"
abbreviation encodingCopyRect :: int where "encodingCopyRect \<equiv> 1"
abbreviation encodingRRE :: int where "encodingRRE \<equiv> 2"
abbreviation encodingHextile :: int where "encodingHextile \<equiv> 5"
abbreviation encodingZlib :: int where "encodingZlib \<equiv> 6"
abbreviation encodingTight :: int where "encodingTight \<equiv> 7"
abbreviation encodingZRLE :: int where "encodingZRLE \<equiv> 16"
abbreviation encodingTightPNG :: int where "encodingTightPNG \<equiv> - 260"
abbreviation encodingJPEG :: int where "encodingJPEG \<equiv> 21"
abbreviation encodingH264 :: int where "encodingH264 \<equiv> 50"
abbreviation pseudoEncodingQualityLevel0 :: int where "pseudoEncodingQualityLevel0 \<equiv> - 32"
abbreviation pseudoEncodingDesktopSize :: int where "pseudoEncodingDesktopSize \<equiv> - 223"
abbreviation pseudoEncodingLastRect :: int where "pseudoEncodingLastRect \<equiv> - 224"
abbreviation pseudoEncodingCursor :: int where "pseudoEncodingCursor \<equiv> - 239"
abbreviation pseudoEncodingQEMUExtendedKeyEvent :: int where "pseudoEncodingQEMUExtendedKeyEvent \<equiv> - 258"
abbreviation pseudoEncodingQEMULedEvent :: int where "pseudoEncodingQEMULedEvent \<equiv> - 261"
abbreviation pseudoEncodingDesktopName :: int where "pseudoEncodingDesktopName \<equiv> - 307"
abbreviation pseudoEncodingExtendedDesktopSize :: int where "pseudoEncodingExtendedDesktopSize \<equiv> - 308"
abbreviation pseudoEncodingXvp :: int where "pseudoEncodingXvp \<equiv> - 309"
abbreviation pseudoEncodingFence :: int where "pseudoEncodingFence \<equiv> - 312"
abbreviation pseudoEncodingContinuousUpdates :: int where "pseudoEncodingContinuousUpdates \<equiv> - 313"
abbreviation pseudoEncodingExtendedMouseButtons :: int where "pseudoEncodingExtendedMouseButtons \<equiv> - 316"
abbreviation pseudoEncodingCompressLevel0 :: int where "pseudoEncodingCompressLevel0 \<equiv> - 256"
abbreviation pseudoEncodingVMwareCursor :: int where "pseudoEncodingVMwareCursor \<equiv> 0x574d5664"
abbreviation pseudoEncodingExtendedClipboard :: int where "pseudoEncodingExtendedClipboard \<equiv> 0xc0a1e5ce"

text \<open>\<open>h264\<close> says whether the browser decodes H.264 (\<open>supportsWebCodecsH264Decode\<close>).\<close>

definition client_encodings :: "bool \<Rightarrow> nat \<Rightarrow> int \<Rightarrow> int \<Rightarrow> int list" where
  "client_encodings h264 depth quality compression =
     [encodingCopyRect]
     @ (if depth = 24
        then (if h264 then [encodingH264] else [])
          @ [encodingTight, encodingTightPNG, encodingZRLE, encodingJPEG, encodingHextile, encodingRRE,
             encodingZlib]
        else [])
     @ [encodingRaw, pseudoEncodingQualityLevel0 + quality, pseudoEncodingCompressLevel0 + compression,
        pseudoEncodingDesktopSize, pseudoEncodingLastRect, pseudoEncodingQEMUExtendedKeyEvent,
        pseudoEncodingQEMULedEvent, pseudoEncodingExtendedDesktopSize, pseudoEncodingXvp,
        pseudoEncodingFence, pseudoEncodingContinuousUpdates, pseudoEncodingDesktopName,
        pseudoEncodingExtendedClipboard, pseudoEncodingExtendedMouseButtons]
     @ (if depth = 24 then [pseudoEncodingVMwareCursor, pseudoEncodingCursor] else [])"

definition sendEncodings :: "bool \<Rightarrow> 'd rfb \<Rightarrow> (unit, 'd rfb) res" where
  "sendEncodings h264 r =
     send (clientEncodings (client_encodings h264 (fbDepth r) (qualityLevel (settings r))
             (compressionLevel (settings r)))) r"

section \<open>Properties and public methods\<close>

definition set_viewOnly :: "bool \<Rightarrow> 'd rfb \<Rightarrow> 'd rfb" where
  "set_viewOnly v r =
     (let r = r\<lparr>settings := (settings r)\<lparr>viewOnly := v\<rparr>\<rparr>
      in if conn r = Conn_connecting \<or> conn r = Conn_connected
         then if v then keyboard_ungrab r else r\<lparr>keyboard := grab (keyboard r)\<rparr>
         else r)"

definition set_clipViewport_prop :: "bool \<Rightarrow> 'd rfb \<Rightarrow> 'd rfb" where
  "set_clipViewport_prop v r = updateClip (r\<lparr>settings := (settings r)\<lparr>clipViewport_on := v\<rparr>\<rparr>)"

definition set_scaleViewport :: "bool \<Rightarrow> 'd rfb \<Rightarrow> 'd rfb" where
  "set_scaleViewport v r =
     (let r = r\<lparr>settings := (settings r)\<lparr>scaleViewport := v\<rparr>\<rparr>;
          r = (if v \<and> clipViewport_on (settings r) then updateClip r else r);
          r = updateScale r
      in if \<not> v \<and> clipViewport_on (settings r) then updateClip r else r)"

definition set_resizeSession :: "bool \<Rightarrow> 'd rfb \<Rightarrow> (unit, 'd rfb) res" where
  "set_resizeSession v r =
     (let r = r\<lparr>settings := (settings r)\<lparr>resizeSession := v\<rparr>\<rparr>
      in if v then requestRemoteResize r else ret () r)"

definition set_showDotCursor :: "bool \<Rightarrow> 'd rfb \<Rightarrow> 'd rfb" where
  "set_showDotCursor v r = refreshCursor (r\<lparr>settings := (settings r)\<lparr>showDotCursor := v\<rparr>\<rparr>)"

text \<open>The two setters of a level; a number that is no integer is \<open>None\<close>.\<close>

definition set_qualityLevel :: "bool \<Rightarrow> int option \<Rightarrow> 'd rfb \<Rightarrow> (unit, 'd rfb) res" where
  "set_qualityLevel h264 level r =
     (case level of
        None \<Rightarrow> ret () r
      | Some q \<Rightarrow>
          if q < 0 \<or> q > 9 \<or> qualityLevel (settings r) = q then ret () r
          else
            let r = r\<lparr>settings := (settings r)\<lparr>qualityLevel := q\<rparr>\<rparr>
            in if conn r = Conn_connected then sendEncodings h264 r else ret () r)"

definition set_compressionLevel :: "bool \<Rightarrow> int option \<Rightarrow> 'd rfb \<Rightarrow> (unit, 'd rfb) res" where
  "set_compressionLevel h264 level r =
     (case level of
        None \<Rightarrow> ret () r
      | Some q \<Rightarrow>
          if q < 0 \<or> q > 9 \<or> compressionLevel (settings r) = q then ret () r
          else
            let r = r\<lparr>settings := (settings r)\<lparr>compressionLevel := q\<rparr>\<rparr>
            in if conn r = Conn_connected then sendEncodings h264 r else ret () r)"

definition ra2_call :: "ra2_call \<Rightarrow> 'd rfb \<Rightarrow> 'd rfb" where
  "ra2_call c r =
     (case ra2_state (hs r) of
        None \<Rightarrow> r
      | Some a \<Rightarrow> r\<lparr>hs := (hs r)\<lparr>ra2_state := Some (a\<lparr>ra2_calls := ra2_calls a @ [c]\<rparr>)\<rparr>\<rparr>)"

definition disconnect :: "'d rfb \<Rightarrow> 'd rfb" where
  "disconnect r =
     (let r = change_state Conn_disconnecting r;
          r = r\<lparr>sock := ws_off EvOpen (ws_off EvMessage (ws_off EvError (sock r)))\<rparr>
      in ra2_call Ra2Disconnect r)"

definition approveServer :: "'d rfb \<Rightarrow> 'd rfb" where
  "approveServer r = ra2_call Ra2Approve r"

definition resumeAuthentication :: "'d rfb \<Rightarrow> 'd rfb" where
  "resumeAuthentication r = r\<lparr>page := (page r)\<lparr>resumes := Suc (resumes (page r))\<rparr>\<rparr>"

definition sendCredentials :: "credentials \<Rightarrow> 'd rfb \<Rightarrow> 'd rfb" where
  "sendCredentials creds r = resumeAuthentication (r\<lparr>rfbCredentials := creds\<rparr>)"

definition xvp_op :: "nat \<Rightarrow> int \<Rightarrow> 'd rfb \<Rightarrow> (unit, 'd rfb) res" where
  "xvp_op ver q r = (if xvpVer r < ver then ret () r else send (xvpOp (int ver) q) r)"

definition machineShutdown :: "'d rfb \<Rightarrow> (unit, 'd rfb) res" where
  "machineShutdown r = xvp_op 1 2 r"

definition machineReboot :: "'d rfb \<Rightarrow> (unit, 'd rfb) res" where
  "machineReboot r = xvp_op 1 3 r"

definition machineReset :: "'d rfb \<Rightarrow> (unit, 'd rfb) res" where
  "machineReset r = xvp_op 1 4 r"

definition focus :: "'d rfb \<Rightarrow> 'd rfb" where
  "focus r = r\<lparr>page := (page r)\<lparr>focused := Suc (focused (page r))\<rparr>\<rparr>"

definition focusCanvas :: "'d rfb \<Rightarrow> 'd rfb" where
  "focusCanvas r = (if focusOnClick (settings r) then focus r else r)"

section \<open>Construction\<close>

record options =
  opt_credentials :: "credentials option"
  opt_shared :: "bool option"
  opt_repeaterID :: "jsstr option"

definition no_credentials :: credentials where
  "no_credentials = \<lparr>username = None, password = None, target = None, ardCredentials = None, ardPublicKey = None\<rparr>"

definition new_handshake :: handshake where
  "new_handshake = \<lparr>initState = NoInit, authScheme = - 1, rfbVersion = 0, rfbMaxVersion = 38, tightVNC = False,
     veNCryptState = 0, veNCryptSubtypesLength = 0, securityContext = [], securityStatus = 0,
     ra2_state = None\<rparr>"

definition new_mouse :: mouse where
  "new_mouse = \<lparr>mousePos = (0, 0), mouseButtonMask = 0, mouseLastMoveTime = 0, mouseMoveTimer = None,
     viewportDragging = False, viewportDragPos = None, viewportHasMoved = False,
     accumulatedWheelDeltaX = 0, accumulatedWheelDeltaY = 0, gestureLastTapTime = None,
     gestureFirstDoubleTapEv = None, gestureLastMagnitudeX = 0, gestureLastMagnitudeY = 0\<rparr>"

definition new_resizing :: resizing where
  "new_resizing = \<lparr>supportsSetDesktopSize = False, screenID = 0, screenFlags = 0, pendingRemoteResize = False,
     lastResize = 0, resizeTimeout = None, expectedClient = None\<rparr>"

definition new_settings :: settings where
  "new_settings = \<lparr>dragViewport = False, focusOnClick = True, viewOnly = False, clipViewport_on = False,
     clippingViewport = False, scaleViewport = False, resizeSession = False, showDotCursor = False,
     qualityLevel = 6, compressionLevel = 2\<rparr>"

definition new_fbu :: fbu where
  "new_fbu = \<lparr>rects = 0, fbu_x = 0, fbu_y = 0, fbu_width = 0, fbu_height = 0, encoding = None\<rparr>"

text \<open>
  The constructor, on a page \<open>pg\<close> and with decoders \<open>ds\<close>: the object before it starts to connect,
  and the whole constructor.  The properties keep their initial values while it connects.
\<close>

definition prepared :: "jsstr + channel \<Rightarrow> options \<Rightarrow> page \<Rightarrow> 'd \<Rightarrow> 'd rfb" where
  "prepared urlOrChannel opts pg ds =
     \<lparr>url = (case urlOrChannel of Inl u \<Rightarrow> Some u | Inr _ \<Rightarrow> None),
      rawChannel = (case urlOrChannel of Inl _ \<Rightarrow> None | Inr c \<Rightarrow> Some c),
      rfbCredentials = (case opt_credentials opts of None \<Rightarrow> no_credentials | Some c \<Rightarrow> c),
      shared = (case opt_shared opts of None \<Rightarrow> True | Some b \<Rightarrow> b),
      repeaterID = (case opt_repeaterID opts of None \<Rightarrow> [] | Some i \<Rightarrow> i),
      conn = NoConn, cleanDisconnect = True, disconnTimer = False, hs = new_handshake, xvpVer = 0,
      fbW = 0, fbH = 0, fbName = [], fbDepth = 0, power = False, supportsFence = False,
      supportsContinuousUpdates = False, enabledContinuousUpdates = False, rsz = new_resizing,
      qemuExtKeyEventSupported = False, extendedPointerEventSupported = False, clipboardText = None,
      clipActions = (\<lambda>_. False), clipFormats = (\<lambda>_. False),
      sock = ws_on EvError (ws_on EvMessage (ws_on EvClose (ws_on EvOpen new_websock))),
      disp = new_display 0 0, flushing = False, decoders = ds, FBU = new_fbu, mouse = new_mouse,
      settings = new_settings, keyboard = new_keyboard, remoteCapsLock = None, remoteNumLock = None, cursorImage = cursor_none,
      page = pg, events = []\<rparr>"

definition new_rfb :: "bool \<Rightarrow> (jsstr + channel) option \<Rightarrow> options \<Rightarrow> page \<Rightarrow> 'd \<Rightarrow> js_error + 'd rfb" where
  "new_rfb has_target urlOrChannel opts pg ds =
     (if \<not> has_target then Inl (JsError ''Must specify target'')
      else case urlOrChannel of
          None \<Rightarrow> Inl (JsError ''Must specify URL, WebSocket or RTCDataChannel'')
        | Some u \<Rightarrow>
            if u = Inl [] then Inl (JsError ''Must specify URL, WebSocket or RTCDataChannel'')
            else (case updateConnectionState Conn_connecting (prepared u opts pg ds) of
                    None \<Rightarrow> Inl NullError
                  | Some (Inl e, _) \<Rightarrow> Inl e
                  | Some (Inr _, r) \<Rightarrow> Inr r))"

end
