(* ===== verification/Handshake.thy ===== *)
theory Handshake
  imports Rfb Zlib Des Dh Md5
begin

text \<open>
  Model of the handshake of the class \<open>RFB\<close>: \<open>_initMsg\<close> and everything it calls, in
  \<open>core/rfb.js\<close>.

  What the code takes from the browser is the record \<open>env\<close>: the random bytes of the \<open>k\<close>-th request
  of a method, AES in CBC mode (\<open>subtle.encrypt\<close>), whether H.264 can be decoded, and the zlib port.  The part of the
  Apple authentication behind its first \<open>await\<close> ends as a task, whose result is stored when it is
  run.  The methods of \<open>core/ra2.js\<close> are only recorded as calls.
\<close>

record 'z env =
  random :: "nat \<Rightarrow> nat \<Rightarrow> byte list"
  aes_cbc :: "byte list \<Rightarrow> byte list \<Rightarrow> byte list \<Rightarrow> byte list"
  supports_h264 :: bool
  env_zlib :: "'z zlib"

section \<open>Reading and waiting\<close>

definition get :: "(websock \<Rightarrow> 'a \<times> websock) \<Rightarrow> 'd rfb \<Rightarrow> 'a \<times> 'd rfb" where
  "get f r = (case f (sock r) of (x, s) \<Rightarrow> (x, r\<lparr>sock := s\<rparr>))"

definition skip :: "nat \<Rightarrow> 'd rfb \<Rightarrow> 'd rfb" where
  "skip n r = r\<lparr>sock := rQskipBytes n (sock r)\<rparr>"

definition wait :: "nat \<Rightarrow> 'd rfb \<Rightarrow> bool" where
  "wait n r = rQwait n (sock r)"

definition wait_back :: "nat \<Rightarrow> nat \<Rightarrow> 'd rfb \<Rightarrow> (bool, 'd rfb) res" where
  "wait_back n goback r =
     (case rQwait_back n goback (sock r) of Inl e \<Rightarrow> raise e r | Inr (b, s) \<Rightarrow> ret b (r\<lparr>sock := s\<rparr>))"

definition goto :: "init \<Rightarrow> 'd rfb \<Rightarrow> 'd rfb" where
  "goto st r = r\<lparr>hs := (hs r)\<lparr>initState := st\<rparr>\<rparr>"

definition set_scheme :: "int \<Rightarrow> 'd rfb \<Rightarrow> 'd rfb" where
  "set_scheme n r = r\<lparr>hs := (hs r)\<lparr>authScheme := n\<rparr>\<rparr>"

section \<open>Version\<close>

text \<open>The versions by the text the server sends; the repeater is \<open>Some None\<close>.\<close>

definition server_version :: "jsstr \<Rightarrow> nat option option" where
  "server_version sversion =
     (if sversion = lit ''000.000'' then Some None
      else if sversion \<in> {lit ''003.003'', lit ''003.006''} then Some (Some 33)
      else if sversion = lit ''003.007'' then Some (Some 37)
      else if sversion \<in> {lit ''003.008'', lit ''003.889'', lit ''004.000'', lit ''004.001'', lit ''005.000''}
      then Some (Some 38)
      else None)"

definition client_version :: "nat \<Rightarrow> jsstr" where
  "client_version v = lit ''RFB 00'' @ [48 + v div 10] @ lit ''.00'' @ [48 + v mod 10] @ [10]"

definition padded_id :: "jsstr \<Rightarrow> jsstr" where
  "padded_id i = (let s = lit ''ID:'' @ i in s @ replicate (250 - length s) 0)"

text \<open>\<open>_negotiateProtocolVersion\<close> returns nothing at its end, which counts as false.\<close>

definition negotiateProtocolVersion :: "'d rfb \<Rightarrow> (bool, 'd rfb) res" where
  "negotiateProtocolVersion r =
     (if wait 12 r then ret False r
      else
        let (str, r) = get (rQshiftStr 12) r;
            sversion = take 7 (drop 4 str)
        in case server_version sversion of
             None \<Rightarrow> failed r
           | Some None \<Rightarrow> seqr (send [PushString (padded_id (repeaterID r)), Flush] r) (\<lambda>_ r. ret True r)
           | Some (Some v) \<Rightarrow>
               let v = (if v > rfbMaxVersion (hs r) then rfbMaxVersion (hs r) else v);
                   r = r\<lparr>hs := (hs r)\<lparr>rfbVersion := v\<rparr>\<rparr>
               in seqr (send [PushString (client_version v), Flush] r)
                    (\<lambda>_ r. ret False (goto Security r)))"

section \<open>Security type\<close>

abbreviation securityTypeNone :: int where "securityTypeNone \<equiv> 1"
abbreviation securityTypeVNCAuth :: int where "securityTypeVNCAuth \<equiv> 2"
abbreviation securityTypeRA2ne :: int where "securityTypeRA2ne \<equiv> 6"
abbreviation securityTypeTight :: int where "securityTypeTight \<equiv> 16"
abbreviation securityTypeVeNCrypt :: int where "securityTypeVeNCrypt \<equiv> 19"
abbreviation securityTypeXVP :: int where "securityTypeXVP \<equiv> 22"
abbreviation securityTypeARD :: int where "securityTypeARD \<equiv> 30"
abbreviation securityTypeMSLogonII :: int where "securityTypeMSLogonII \<equiv> 113"
abbreviation securityTypeUnixLogon :: int where "securityTypeUnixLogon \<equiv> 129"
abbreviation securityTypePlain :: int where "securityTypePlain \<equiv> 256"

definition isSupportedSecurityType :: "int \<Rightarrow> bool" where
  "isSupportedSecurityType t =
     (t \<in> set [securityTypeNone, securityTypeVNCAuth, securityTypeRA2ne, securityTypeTight,
        securityTypeVeNCrypt, securityTypeXVP, securityTypeARD, securityTypeMSLogonII, securityTypePlain])"

text \<open>The first supported type in the order of the server, or -1.\<close>

fun first_supported :: "int list \<Rightarrow> int" where
  "first_supported [] = - 1"
| "first_supported (t # ts) = (if isSupportedSecurityType t then t else first_supported ts)"

definition to_reason :: "string \<Rightarrow> nat \<Rightarrow> 'd rfb \<Rightarrow> 'd rfb" where
  "to_reason context status r =
     r\<lparr>hs := (hs r)\<lparr>initState := SecurityReason, securityContext := context, securityStatus := status\<rparr>\<rparr>"

definition negotiateSecurity :: "'d rfb \<Rightarrow> (bool, 'd rfb) res" where
  "negotiateSecurity r =
     (if rfbVersion (hs r) \<ge> 37 then
        let (numTypes, r) = get rQshift8 r in
        seqr (wait_back numTypes 1 r) (\<lambda>waiting r.
          if waiting then ret False r
          else if numTypes = 0 then ret True (to_reason ''no security types'' 1 r)
          else
            let (types, r) = get (rQshiftBytes numTypes) r;
                r = set_scheme (first_supported (map (\<lambda>b. int (unat b)) types)) r
            in if authScheme (hs r) = - 1 then failed r
               else seqr (send [Push8 (authScheme (hs r)), Flush] r)
                      (\<lambda>_ r. ret True (goto Authentication r)))
      else if wait 4 r then ret False r
      else
        let (scheme, r) = get rQshift32 r;
            r = set_scheme (int scheme) r
        in if scheme = 0 then ret True (to_reason ''authentication scheme'' 1 r)
           else ret True (goto Authentication r))"

definition handleSecurityReason :: "'d rfb \<Rightarrow> (bool, 'd rfb) res" where
  "handleSecurityReason r =
     (if wait 4 r then ret False r
      else
        let (strlen, r) = get rQshift32 r;
            finish = (\<lambda>reason r. failed (dispatch (EvSecurityFailure (securityStatus (hs r))
                        (if reason = [] then None else Some reason)) r))
        in if strlen > 0 then
             seqr (wait_back strlen 4 r) (\<lambda>waiting r.
               if waiting then ret False r
               else let (reason, r) = get (rQshiftStr strlen) r in finish reason r)
           else finish [] r)"

section \<open>Authentication\<close>

definition ask :: "string list \<Rightarrow> 'd rfb \<Rightarrow> (bool, 'd rfb) res" where
  "ask types r = ret False (dispatch (EvCredentials types) r)"

text \<open>A string of the source with at most \<open>n\<close> characters, and its codes stored into an array, with
  a 0 behind them; a store behind the end is lost.\<close>

definition store_string :: "nat \<Rightarrow> jsstr \<Rightarrow> byte list \<Rightarrow> byte list" where
  "store_string off str arr =
     (let stored = fold (\<lambda>i a. a[off + i := u8n (str ! i)]) [0..<length str] arr
      in stored[off + length str := 0])"

definition genDES :: "jsstr \<Rightarrow> byte list \<Rightarrow> byte list option" where
  "genDES pw challenge = des_ecb_encrypt pw challenge"

definition negotiateStdVNCAuth :: "'d rfb \<Rightarrow> (bool, 'd rfb) res" where
  "negotiateStdVNCAuth r =
     (if wait 16 r then ret False r
      else case password (rfbCredentials r) of
          None \<Rightarrow> ask [''password''] r
        | Some pw \<Rightarrow>
            let (challenge, r) = get (rQshiftBytes 16) r in
            (case genDES pw challenge of
               None \<Rightarrow> raise NullError r
             | Some response \<Rightarrow>
                 seqr (send [PushBytes response, Flush] r) (\<lambda>_ r. ret True (goto SecurityResult r))))"

text \<open>\<open>_negotiateXvpAuth\<close> goes on as \<open>_negotiateAuthentication\<close> does for VNC authentication.\<close>

definition negotiateXvpAuth :: "'d rfb \<Rightarrow> (bool, 'd rfb) res" where
  "negotiateXvpAuth r =
     (case (username (rfbCredentials r), password (rfbCredentials r), target (rfbCredentials r)) of
        (Some user, Some _, Some tgt) \<Rightarrow>
          seqr (send [Push8 (int (length user)), Push8 (int (length tgt)), PushString user, PushString tgt,
                      Flush] r)
            (\<lambda>_ r. negotiateStdVNCAuth (set_scheme securityTypeVNCAuth r))
      | _ \<Rightarrow> ask [''username'', ''password'', ''target''] r)"

text \<open>
  \<open>_negotiateVeNCryptAuth\<close>: its stages fall through, so each returns \<open>None\<close> to go on and
  \<open>Some b\<close> for \<open>return b\<close>.
\<close>

definition vencrypt_at :: "nat \<Rightarrow> 'd rfb \<Rightarrow> 'd rfb" where
  "vencrypt_at n r = r\<lparr>hs := (hs r)\<lparr>veNCryptState := n\<rparr>\<rparr>"

definition vencrypt_version :: "'d rfb \<Rightarrow> (bool option, 'd rfb) res" where
  "vencrypt_version r =
     (if veNCryptState (hs r) \<noteq> 0 then ret None r
      else if wait 2 r then ret (Some False) r
      else
        let (major, r) = get rQshift8 r;
            (minor, r) = get rQshift8 r
        in if \<not> (major = 0 \<and> minor = 2) then ret (Some False) (fail r)
           else seqr (send [Push8 0, Push8 2, Flush] r) (\<lambda>_ r. ret None (vencrypt_at 1 r)))"

definition vencrypt_ack :: "'d rfb \<Rightarrow> (bool option, 'd rfb) res" where
  "vencrypt_ack r =
     (if veNCryptState (hs r) \<noteq> 1 then ret None r
      else if wait 1 r then ret (Some False) r
      else
        let (rs, r) = get rQshift8 r
        in if rs \<noteq> 0 then ret (Some False) (fail r) else ret None (vencrypt_at 2 r))"

definition vencrypt_length :: "'d rfb \<Rightarrow> (bool option, 'd rfb) res" where
  "vencrypt_length r =
     (if veNCryptState (hs r) \<noteq> 2 then ret None r
      else if wait 1 r then ret (Some False) r
      else
        let (subtypesLength, r) = get rQshift8 r
        in if subtypesLength < 1 then ret (Some False) (fail r)
           else ret None (vencrypt_at 3 (r\<lparr>hs := (hs r)\<lparr>veNCryptSubtypesLength := subtypesLength\<rparr>\<rparr>)))"

fun read32s :: "nat \<Rightarrow> 'd rfb \<Rightarrow> nat list \<times> 'd rfb" where
  "read32s 0 r = ([], r)"
| "read32s (Suc n) r = (let (x, r) = get rQshift32 r; (xs, r) = read32s n r in (x # xs, r))"

definition vencrypt_subtypes :: "'d rfb \<Rightarrow> (bool, 'd rfb) res" where
  "vencrypt_subtypes r =
     (if veNCryptState (hs r) \<noteq> 3 then ret False r
      else if wait (4 * veNCryptSubtypesLength (hs r)) r then ret False r
      else
        let (subtypes, r) = read32s (veNCryptSubtypesLength (hs r)) r;
            r = set_scheme (first_supported (filter (\<lambda>t. t \<noteq> securityTypeVeNCrypt) (map int subtypes))) r
        in if authScheme (hs r) = - 1 then failed r
           else seqr (send [Push32 (authScheme (hs r)), Flush] r) (\<lambda>_ r. ret True (vencrypt_at 4 r)))"

definition fall_through ::
    "(bool option, 'd rfb) res \<Rightarrow> ('d rfb \<Rightarrow> (bool, 'd rfb) res) \<Rightarrow> (bool, 'd rfb) res" where
  "fall_through m f = seqr m (\<lambda>q r. case q of Some b \<Rightarrow> ret b r | None \<Rightarrow> f r)"

definition negotiateVeNCryptAuth :: "'d rfb \<Rightarrow> (bool, 'd rfb) res" where
  "negotiateVeNCryptAuth r =
     fall_through (vencrypt_version r) (\<lambda>r.
       fall_through (vencrypt_ack r) (\<lambda>r.
         fall_through (vencrypt_length r) vencrypt_subtypes))"

definition negotiatePlainAuth :: "'d rfb \<Rightarrow> (bool, 'd rfb) res" where
  "negotiatePlainAuth r =
     (case (username (rfbCredentials r), password (rfbCredentials r)) of
        (Some user, Some pass) \<Rightarrow>
          (case encodeUTF8 user of Inl e \<Rightarrow> raise e r
           | Inr user \<Rightarrow>
          (case encodeUTF8 pass of Inl e \<Rightarrow> raise e r
           | Inr pass \<Rightarrow>
               seqr (send [Push32 (int (length user)), Push32 (int (length pass)), PushString user,
                           PushString pass, Flush] r)
                 (\<lambda>_ r. ret True (goto SecurityResult r))))
      | _ \<Rightarrow> ask [''username'', ''password''] r)"

definition negotiateTightUnixAuth :: "'d rfb \<Rightarrow> (bool, 'd rfb) res" where
  "negotiateTightUnixAuth r =
     (case (username (rfbCredentials r), password (rfbCredentials r)) of
        (Some user, Some pass) \<Rightarrow>
          seqr (send [Push32 (int (length user)), Push32 (int (length pass)), PushString user,
                      PushString pass, Flush] r)
            (\<lambda>_ r. ret True (goto SecurityResult r))
      | _ \<Rightarrow> ask [''username'', ''password''] r)"

subsection \<open>Apple Remote Desktop\<close>

text \<open>\<open>AESECBCipher.encrypt\<close> in \<open>core/crypto/aes.js\<close>: every block for itself, in CBC mode with a
  vector of zeros.\<close>

fun aes_ecb_blocks :: "(byte list \<Rightarrow> byte list) \<Rightarrow> nat \<Rightarrow> byte list \<Rightarrow> byte list" where
  "aes_ecb_blocks enc 0 x = []"
| "aes_ecb_blocks enc (Suc n) x = take 16 (enc (take 16 x)) @ aes_ecb_blocks enc n (drop 16 x)"

definition aes_ecb_encrypt :: "'z env \<Rightarrow> byte list \<Rightarrow> byte list \<Rightarrow> byte list option" where
  "aes_ecb_encrypt env key plaintext =
     (if length plaintext mod 16 \<noteq> 0 then None
      else Some (aes_ecb_blocks (aes_cbc env key (replicate 16 0)) (length plaintext div 16) plaintext))"

text \<open>\<open>_negotiateARDAuthAsync\<close>: what it will store; an exception in it only ends it.\<close>

definition ard_result ::
    "'z env \<Rightarrow> nat \<Rightarrow> byte list \<Rightarrow> dh_key \<Rightarrow> jsstr \<Rightarrow> jsstr \<Rightarrow> (byte list \<times> byte list) option" where
  "ard_result env keyLength serverPublicKey clientKey user pass =
     (case (dh_deriveBits serverPublicKey (keyLength * 8) clientKey, encodeUTF8 user, encodeUTF8 pass) of
        (Inr sharedKey, Inr user, Inr pass) \<Rightarrow>
          (let credentials = store_string 64 (take 63 pass) (store_string 0 (take 63 user) (random env 1 128))
           in map_option (\<lambda>encrypted. (encrypted, dh_public clientKey))
                (aes_ecb_encrypt env (md5 sharedKey) credentials))
      | _ \<Rightarrow> None)"

definition negotiateARDAuth :: "'z env \<Rightarrow> 'd rfb \<Rightarrow> (bool, 'd rfb) res" where
  "negotiateARDAuth env r =
     (case (username (rfbCredentials r), password (rfbCredentials r)) of
        (Some user, Some pass) \<Rightarrow>
          (case (ardPublicKey (rfbCredentials r), ardCredentials (rfbCredentials r)) of
             (Some pub, Some creds) \<Rightarrow>
               seqr (send [PushBytes creds, PushBytes pub, Flush] r)
                 (\<lambda>_ r. ret True (goto SecurityResult (r\<lparr>rfbCredentials :=
                          (rfbCredentials r)\<lparr>ardCredentials := None, ardPublicKey := None\<rparr>\<rparr>)))
           | _ \<Rightarrow>
               if wait 4 r then ret False r
               else
                 let (generator, r) = get (rQshiftBytes 2) r;
                     (keyLength, r) = get rQshift16 r
                 in seqr (wait_back (keyLength * 2) 4 r) (\<lambda>waiting r.
                      if waiting then ret False r
                      else
                        let (prime, r) = get (rQshiftBytes keyLength) r;
                            (serverPublicKey, r) = get (rQshiftBytes keyLength) r
                        in case dh_generateKey (random env 0 keyLength) generator prime of
                             Inl e \<Rightarrow> raise e r
                           | Inr clientKey \<Rightarrow>
                               (case ard_result env keyLength serverPublicKey clientKey user pass of
                                  None \<Rightarrow> ret False r
                                | Some q \<Rightarrow> ret False (r\<lparr>page := (page r)\<lparr>ardTasks := ardTasks (page r) @ [q]\<rparr>\<rparr>))))
      | _ \<Rightarrow> ask [''username'', ''password''] r)"

text \<open>The end of the asynchronous part, if one is waiting.\<close>

definition ard_done :: "'d rfb \<Rightarrow> 'd rfb" where
  "ard_done r =
     (case ardTasks (page r) of
        [] \<Rightarrow> r
      | (creds, pub) # ts \<Rightarrow>
          resumeAuthentication (r\<lparr>page := (page r)\<lparr>ardTasks := ts\<rparr>,
            rfbCredentials := (rfbCredentials r)\<lparr>ardCredentials := Some creds, ardPublicKey := Some pub\<rparr>\<rparr>))"

subsection \<open>Tight\<close>

type_synonym tunnels = "nat \<Rightarrow> (jsstr \<times> jsstr) option"

fun read_tunnels :: "nat \<Rightarrow> tunnels \<Rightarrow> 'd rfb \<Rightarrow> tunnels \<times> 'd rfb" where
  "read_tunnels 0 ts r = (ts, r)"
| "read_tunnels (Suc n) ts r =
     (let (capCode, r) = get rQshift32 r;
          (capVendor, r) = get (rQshiftStr 4) r;
          (capSignature, r) = get (rQshiftStr 8) r
      in read_tunnels n (ts(capCode \<mapsto> (capVendor, capSignature))) r)"

definition notunnel :: "jsstr \<times> jsstr" where
  "notunnel = (lit ''TGHT'', lit ''NOTUNNEL'')"

definition negotiateTightTunnels :: "nat \<Rightarrow> 'd rfb \<Rightarrow> (bool, 'd rfb) res" where
  "negotiateTightTunnels numTunnels r =
     (let (ts, r) = read_tunnels numTunnels (\<lambda>_. None) r;
          ts = (if ts 1 = Some (lit ''SICR'', lit ''SCHANNEL'') then ts(0 \<mapsto> notunnel) else ts)
      in case ts 0 of
           None \<Rightarrow> failed r
         | Some t \<Rightarrow>
             if t \<noteq> notunnel then failed r
             else seqr (send [Push32 0, Flush] r) (\<lambda>_ r. ret False r))"

fun read_auth_types :: "nat \<Rightarrow> 'd rfb \<Rightarrow> jsstr list \<times> 'd rfb" where
  "read_auth_types 0 r = ([], r)"
| "read_auth_types (Suc n) r =
     (let (capNum, r) = get rQshift32 r;
          (capabilities, r) = get (rQshiftStr 12) r;
          (cs, r) = read_auth_types n r
      in (capabilities # cs, r))"

text \<open>The sub-authentication types the client knows, in the order of the object's keys.\<close>

definition clientSupportedTypes :: "(jsstr \<times> int) list" where
  "clientSupportedTypes = [(lit ''STDVNOAUTH__'', 1), (lit ''STDVVNCAUTH_'', 2), (lit ''TGHTULGNAUTH'', 129)]"

definition select_sub_auth :: "jsstr list \<Rightarrow> 'd rfb \<Rightarrow> (bool, 'd rfb) res" where
  "select_sub_auth serverSupportedTypes r =
     (case filter (\<lambda>(t, _). t \<in> set serverSupportedTypes) clientSupportedTypes of
        [] \<Rightarrow> failed r
      | (authType, n) # _ \<Rightarrow>
          seqr (send [Push32 n, Flush] r) (\<lambda>_ r.
            if authType = lit ''STDVNOAUTH__'' then ret True (goto SecurityResult r)
            else if authType = lit ''STDVVNCAUTH_'' then ret True (set_scheme securityTypeVNCAuth r)
            else if authType = lit ''TGHTULGNAUTH'' then ret True (set_scheme securityTypeUnixLogon r)
            else failed r))"

definition tight_sub_auth :: "'d rfb \<Rightarrow> (bool, 'd rfb) res" where
  "tight_sub_auth r =
     (if wait 4 r then ret False r
      else
        let (subAuthCount, r) = get rQshift32 r
        in if subAuthCount = 0 then ret True (goto SecurityResult r)
           else seqr (wait_back (16 * subAuthCount) 4 r) (\<lambda>waiting r.
             if waiting then ret False r
             else let (types, r) = read_auth_types subAuthCount r in select_sub_auth types r))"

definition negotiateTightAuth :: "'d rfb \<Rightarrow> (bool, 'd rfb) res" where
  "negotiateTightAuth r =
     (if \<not> tightVNC (hs r) then
        if wait 4 r then ret False r
        else
          let (numTunnels, r) = get rQshift32 r in
          seqr (if numTunnels > 0 then wait_back (16 * numTunnels) 4 r else ret False r) (\<lambda>waiting r.
            if waiting then ret False r
            else
              let r = r\<lparr>hs := (hs r)\<lparr>tightVNC := True\<rparr>\<rparr>
              in if numTunnels > 0 then seqr (negotiateTightTunnels numTunnels r) (\<lambda>_ r. ret False r)
                 else tight_sub_auth r)
      else tight_sub_auth r)"

subsection \<open>RSA-AES and MS-Logon II\<close>

definition negotiateRA2neAuth :: "'d rfb \<Rightarrow> (bool, 'd rfb) res" where
  "negotiateRA2neAuth r =
     (let r = (if ra2_state (hs r) = None
               then r\<lparr>hs := (hs r)\<lparr>ra2_state := Some \<lparr>hasStarted = False, ra2_calls = []\<rparr>\<rparr>\<rparr> else r);
          r = ra2_call Ra2Check r;
          r = (case ra2_state (hs r) of
                 Some a \<Rightarrow> if hasStarted a then r
                   else ra2_call Ra2Start (r\<lparr>hs := (hs r)\<lparr>ra2_state := Some (a\<lparr>hasStarted := True\<rparr>)\<rparr>\<rparr>)
               | None \<Rightarrow> r)
      in ret False r)"

text \<open>
  The end of \<open>negotiateRA2neAuthAsync\<close>, with the message of the exception if it threw.  The handler
  chained behind \<open>catch\<close> runs in both cases.
\<close>

definition ra2_end :: "string option \<Rightarrow> 'd rfb \<Rightarrow> 'd rfb" where
  "ra2_end err r =
     (let r = (case err of None \<Rightarrow> r | Some m \<Rightarrow> if m \<noteq> ''disconnect normally'' then fail r else r);
          r = goto SecurityResult r
      in r\<lparr>hs := (hs r)\<lparr>ra2_state := None\<rparr>\<rparr>)"

definition handleRSAAESEvent :: "string \<Rightarrow> 'd rfb \<Rightarrow> 'd rfb" where
  "handleRSAAESEvent ev r = dispatch (EvRa2 ev) r"

definition ms_logon_reply :: "'z env \<Rightarrow> byte list \<Rightarrow> byte list \<Rightarrow> byte list \<Rightarrow> jsstr \<Rightarrow> jsstr \<Rightarrow>
    js_error + (byte list \<times> byte list \<times> byte list)" where
  "ms_logon_reply env g p A user pass =
     (case dh_generateKey (random env 0 8) g p of Inl e \<Rightarrow> Inl e
      | Inr dhKey \<Rightarrow> (case dh_deriveBits A 64 dhKey of Inl e \<Rightarrow> Inl e
      | Inr secret \<Rightarrow> (case encodeUTF8 user of Inl e \<Rightarrow> Inl e
      | Inr user \<Rightarrow> (case encodeUTF8 pass of Inl e \<Rightarrow> Inl e
      | Inr pass \<Rightarrow>
          (let usernameBytes = store_string 0 (take 255 user) (random env 1 256);
               passwordBytes = store_string 0 (take 63 pass) (random env 2 64);
               key = map unat secret
           in case (des_cbc_encrypt key secret usernameBytes, des_cbc_encrypt key secret passwordBytes) of
                (Some u, Some w) \<Rightarrow> Inr (dh_public dhKey, u, w)
              | _ \<Rightarrow> Inl NullError)))))"

definition negotiateMSLogonIIAuth :: "'z env \<Rightarrow> 'd rfb \<Rightarrow> (bool, 'd rfb) res" where
  "negotiateMSLogonIIAuth env r =
     (if wait 24 r then ret False r
      else case (username (rfbCredentials r), password (rfbCredentials r)) of
          (Some user, Some pass) \<Rightarrow>
            (let (g, r) = get (rQshiftBytes 8) r;
                 (p, r) = get (rQshiftBytes 8) r;
                 (A, r) = get (rQshiftBytes 8) r
             in case ms_logon_reply env g p A user pass of
                  Inl e \<Rightarrow> raise e r
                | Inr (B, u, w) \<Rightarrow>
                    seqr (send [PushBytes B, PushBytes u, PushBytes w, Flush] r)
                      (\<lambda>_ r. ret True (goto SecurityResult r)))
        | _ \<Rightarrow> ask [''username'', ''password''] r)"

definition negotiateAuthentication :: "'z env \<Rightarrow> 'd rfb \<Rightarrow> (bool, 'd rfb) res" where
  "negotiateAuthentication env r =
     (let scheme = authScheme (hs r) in
      if scheme = securityTypeNone
      then ret True (goto (if rfbVersion (hs r) \<ge> 38 then SecurityResult else ClientInitialisation) r)
      else if scheme = securityTypeXVP then negotiateXvpAuth r
      else if scheme = securityTypeARD then negotiateARDAuth env r
      else if scheme = securityTypeVNCAuth then negotiateStdVNCAuth r
      else if scheme = securityTypeTight then negotiateTightAuth r
      else if scheme = securityTypeVeNCrypt then negotiateVeNCryptAuth r
      else if scheme = securityTypePlain then negotiatePlainAuth r
      else if scheme = securityTypeUnixLogon then negotiateTightUnixAuth r
      else if scheme = securityTypeRA2ne then negotiateRA2neAuth r
      else if scheme = securityTypeMSLogonII then negotiateMSLogonIIAuth env r
      else failed r)"

section \<open>Result and initialisation\<close>

definition handleSecurityResult :: "'d rfb \<Rightarrow> (bool, 'd rfb) res" where
  "handleSecurityResult r =
     (if wait 4 r then ret False r
      else
        let (status, r) = get rQshift32 r
        in if status = 0 then ret True (goto ClientInitialisation r)
           else if rfbVersion (hs r) \<ge> 38 then ret True (to_reason ''security result'' status r)
           else failed (dispatch (EvSecurityFailure status None) r))"

text \<open>\<open>_negotiateServerInit\<close>: the extension of the TightVNC servers, which is skipped, and the rest.
  The pixel format of the server (four numbers, then nine bytes of
  maxima and shifts, then padding) is read for the log only.\<close>

definition tight_server_init :: "nat \<Rightarrow> 'd rfb \<Rightarrow> (bool, 'd rfb) res" where
  "tight_server_init nameLength r =
     seqr (wait_back 8 (24 + nameLength) r) (\<lambda>waiting r.
       if waiting then ret True r
       else
         let (numServerMessages, r) = get rQshift16 r;
             (numClientMessages, r) = get rQshift16 r;
             (numEncodings, r) = get rQshift16 r;
             r = skip 2 r
         in seqr (wait_back ((numServerMessages + numClientMessages + numEncodings) * 16) (32 + nameLength) r)
              (\<lambda>waiting r.
                if waiting then ret True r
                else ret False (skip (16 * numEncodings) (skip (16 * numClientMessages)
                                  (skip (16 * numServerMessages) r)))))"

definition start_session :: "'z env \<Rightarrow> jsstr \<Rightarrow> nat \<Rightarrow> nat \<Rightarrow> 'd rfb \<Rightarrow> (bool, 'd rfb) res" where
  "start_session env name width height r =
     seqr (resize_fb width height (setDesktopName name r)) (\<lambda>_ r.
       let r = (if \<not> viewOnly (settings r) then r\<lparr>keyboard := grab (keyboard r)\<rparr> else r);
           r = r\<lparr>fbDepth := (if fbName r = lit ''Intel(r) AMT KVM'' then 8 else 24)\<rparr>
       in seqr (send (pixelFormat (fbDepth r) True) r) (\<lambda>_ r.
          seqr (sendEncodings (supports_h264 env) r) (\<lambda>_ r.
          seqr (send (fbUpdateRequest False 0 0 (int (fbW r)) (int (fbH r))) r) (\<lambda>_ r.
          seqr (updateConnectionState Conn_connected r) (\<lambda>_ r. ret True r)))))"

definition negotiateServerInit :: "'z env \<Rightarrow> 'd rfb \<Rightarrow> (bool, 'd rfb) res" where
  "negotiateServerInit env r =
     (if wait 24 r then ret False r
      else
        let (width, r) = get rQshift16 r;
            (height, r) = get rQshift16 r;
            r = skip 4 r;
            r = skip 9 r;
            r = skip 3 r;
            (nameLength, r) = get rQshift32 r
        in seqr (wait_back nameLength 24 r) (\<lambda>waiting r.
          if waiting then ret False r
          else
            let (name, r) = get (rQshiftStr nameLength) r in
            case decodeUTF8 name True of
              Inl e \<Rightarrow> raise e r
            | Inr name \<Rightarrow>
                if tightVNC (hs r) then
                  seqr (tight_server_init nameLength r) (\<lambda>waiting r.
                    if waiting then ret False r else start_session env name width height r)
                else start_session env name width height r))"

definition initMsg :: "'z env \<Rightarrow> 'd rfb \<Rightarrow> (bool, 'd rfb) res" where
  "initMsg env r =
     (case initState (hs r) of
        ProtocolVersion \<Rightarrow> negotiateProtocolVersion r
      | Security \<Rightarrow> negotiateSecurity r
      | Authentication \<Rightarrow> negotiateAuthentication env r
      | SecurityResult \<Rightarrow> handleSecurityResult r
      | SecurityReason \<Rightarrow> handleSecurityReason r
      | ClientInitialisation \<Rightarrow>
          seqr (send [Push8 (if shared r then 1 else 0), Flush] r)
            (\<lambda>_ r. ret True (goto ServerInitialisation r))
      | ServerInitialisation \<Rightarrow> negotiateServerInit env r
      | NoInit \<Rightarrow> failed r)"

end
