(* ===== verification/Normal.thy ===== *)
theory Normal
  imports Handshake
begin

text \<open>
  Model of the messages of the server in an established session: \<open>_normalMsg\<close> with everything it
  calls, and \<open>_handleMessage\<close>, in \<open>core/rfb.js\<close>.

  The decoders are a table from encodings to functions (\<open>_decoders\<close> filled by the constructor); a
  call of one that does not return is \<open>None\<close>.
\<close>

type_synonym 'd decoder = "int \<Rightarrow> int \<Rightarrow> nat \<Rightarrow> nat \<Rightarrow> nat \<Rightarrow> 'd \<Rightarrow> websock \<Rightarrow> display \<Rightarrow> ('d, display) decoded option"

type_synonym 'd decoder_table = "int \<Rightarrow> 'd decoder option"

section \<open>Clipboard\<close>

definition format_bits :: "int \<Rightarrow> nat list" where
  "format_bits formats = filter (\<lambda>i. js_and formats (js_shl 1 i) \<noteq> 0) [0..<16]"

text \<open>The capabilities of the server: a 32-bit size is read for each of its formats and ignored.\<close>

definition cut_text_caps :: "int \<Rightarrow> int \<Rightarrow> 'd rfb \<Rightarrow> (bool, 'd rfb) res" where
  "cut_text_caps formats actions r =
     (let r = r\<lparr>clipFormats := (\<lambda>_. False), clipActions := (\<lambda>_. False)\<rparr>;
          r = fold (\<lambda>i r. snd (get rQshift32 (r\<lparr>clipFormats := (clipFormats r)(js_shl 1 i := True)\<rparr>)))
                (format_bits formats) r;
          r = fold (\<lambda>i r. r\<lparr>clipActions := (clipActions r)(js_shl 1 i := js_and actions (js_shl 1 i) \<noteq> 0)\<rparr>)
                [24..<32] r
      in seqr (send (extendedClipboardCaps
                 [extendedClipboardActionCaps, extendedClipboardActionRequest, extendedClipboardActionPeek,
                  extendedClipboardActionNotify, extendedClipboardActionProvide]
                 [(lit ''extendedClipboardFormatText'', 0)]) r)
           (\<lambda>_ r. ret True r))"

text \<open>\<open>RFB.messages.extendedClipboardProvide\<close> with the deflator of the source.\<close>

definition send_provide :: "'z env \<Rightarrow> int list \<Rightarrow> jsstr list \<Rightarrow> 'd rfb \<Rightarrow> (unit, 'd rfb) res" where
  "send_provide env formats inData r =
     (case provide_data formats inData of
        Inl e \<Rightarrow> raise e r
      | Inr d \<Rightarrow>
          (case deflate (env_zlib env) d of
             None \<Rightarrow> None
           | Some q \<Rightarrow> send (extendedClipboardProvide (\<lambda>_. q) formats inData) r))"

definition cut_text_request :: "'z env \<Rightarrow> int \<Rightarrow> 'd rfb \<Rightarrow> (bool, 'd rfb) res" where
  "cut_text_request env formats r =
     (if viewOnly (settings r) then ret True r
      else case clipboardText r of
          None \<Rightarrow> ret True r
        | Some text \<Rightarrow>
            if clipActions r extendedClipboardActionProvide \<and> js_and formats extendedClipboardFormatText \<noteq> 0
            then seqr (send_provide env [extendedClipboardFormatText] [text] r) (\<lambda>_ r. ret True r)
            else ret True r)"

definition cut_text_peek :: "'d rfb \<Rightarrow> (bool, 'd rfb) res" where
  "cut_text_peek r =
     (if viewOnly (settings r) then ret True r
      else if clipActions r extendedClipboardActionNotify
      then seqr (send (extendedClipboardNotify
                   (if clipboardText r \<noteq> None then [extendedClipboardFormatText] else [])) r)
             (\<lambda>_ r. ret True r)
      else ret True r)"

definition cut_text_notify :: "int \<Rightarrow> 'd rfb \<Rightarrow> (bool, 'd rfb) res" where
  "cut_text_notify formats r =
     (if viewOnly (settings r) then ret True r
      else if clipActions r extendedClipboardActionRequest \<and> js_and formats extendedClipboardFormatText \<noteq> 0
      then seqr (send (extendedClipboardRequest [extendedClipboardFormatText]) r) (\<lambda>_ r. ret True r)
      else ret True r)"

text \<open>
  The loop over the formats of a \<open>Provide\<close> message.  The text is a view of the inflator's output
  buffer, and is read only behind the loop: later formats overwrite what the view shows, unless
  the buffer has been replaced in the meantime.
\<close>

record text_view =
  tv_gen :: nat
  tv_len :: nat
  tv_bytes :: "byte list"

definition size_of :: "byte list \<Rightarrow> int" where
  "size_of b = foldl js_or 0 [js_shl (int (unat (b ! 0))) 24, js_shl (int (unat (b ! 1))) 16,
     js_shl (int (unat (b ! 2))) 8, int (unat (b ! 3))]"

fun provide_loop :: "'z zlib \<Rightarrow> nat list \<Rightarrow> text_view option \<Rightarrow> 'z inflator \<Rightarrow>
    js_error + (text_view option \<times> 'z inflator)" where
  "provide_loop zl [] tv zi = Inr (tv, zi)"
| "provide_loop zl (i # is) tv zi =
     (case inflate zl 4 zi of
        (Inl e, _) \<Rightarrow> Inl e
      | (Inr k, zi) \<Rightarrow>
          (case inflate zl (size_of (z_view k zi)) zi of
             (Inl e, _) \<Rightarrow> Inl e
           | (Inr n, zi) \<Rightarrow>
               provide_loop zl is
                 (if js_shl 1 i = extendedClipboardFormatText
                  then Some \<lparr>tv_gen = z_gen zi, tv_len = n, tv_bytes = z_view n zi\<rparr> else tv) zi))"

definition text_bytes :: "text_view \<Rightarrow> 'z inflator \<Rightarrow> byte list" where
  "text_bytes tv zi = (if tv_gen tv = z_gen zi then z_view (tv_len tv) zi else tv_bytes tv)"

definition clean_text :: "jsstr \<Rightarrow> jsstr" where
  "clean_text s = lf_only (if s \<noteq> [] \<and> last s = 0 then butlast s else s)"

text \<open>
  The rest of a \<open>Provide\<close> message is what \<open>rQshiftBytes(length - 4)\<close> returns.  A message that
  announces fewer than four bytes makes that number negative: nothing is returned, and the read
  index, which the flags have moved on by four, goes back by what is missing.
\<close>

definition rQshiftRest :: "int \<Rightarrow> websock \<Rightarrow> byte list \<times> websock" where
  "rQshiftRest n s =
     (if n < 0 then ([], s\<lparr>rQi := nat (int (rQi s) + n)\<rparr>) else rQshiftBytes (nat n) s)"

definition cut_text_provide :: "'z env \<Rightarrow> int \<Rightarrow> nat \<Rightarrow> 'd rfb \<Rightarrow> (bool, 'd rfb) res" where
  "cut_text_provide env formats len r =
     (if viewOnly (settings r) then ret True r
      else if js_and formats extendedClipboardFormatText = 0 then ret True r
      else
        let r = r\<lparr>clipboardText := None\<rparr>;
            (zlibStream, r) = get (rQshiftRest (int len - 4)) r
        in case provide_loop (env_zlib env) (format_bits formats) None
                  (setInput (Some zlibStream) (new_inflator (env_zlib env))) of
             Inl e \<Rightarrow> raise e r
           | Inr (None, zi) \<Rightarrow> ret True r
           | Inr (Some tv, zi) \<Rightarrow>
               (case decodeUTF8 (map unat (text_bytes tv zi)) False of
                  Inl e \<Rightarrow> raise e r
                | Inr text \<Rightarrow> ret True (dispatch (EvClipboard (clean_text text)) r)))"

definition cut_text_extended :: "'z env \<Rightarrow> nat \<Rightarrow> 'd rfb \<Rightarrow> (bool, 'd rfb) res" where
  "cut_text_extended env len r =
     (let (flags, r) = get rQshift32 r;
          formats = js_and (int flags) 0x0000FFFF;
          actions = js_and (int flags) 0xFF000000
      in if js_and actions extendedClipboardActionCaps \<noteq> 0 then cut_text_caps formats actions r
         else if actions = extendedClipboardActionRequest then cut_text_request env formats r
         else if actions = extendedClipboardActionPeek then cut_text_peek r
         else if actions = extendedClipboardActionNotify then cut_text_notify formats r
         else if actions = extendedClipboardActionProvide then cut_text_provide env formats len r
         else failed r)"

definition handleServerCutText :: "'z env \<Rightarrow> 'd rfb \<Rightarrow> (bool, 'd rfb) res" where
  "handleServerCutText env r =
     seqr (wait_back 7 1 r) (\<lambda>waiting r.
       if waiting then ret False r
       else
         let r = skip 3 r;
             (len, r) = get rQshift32 r;
             len = to_int32 (int len)
         in seqr (wait_back (nat \<bar>len\<bar>) 8 r) (\<lambda>waiting r.
              if waiting then ret False r
              else if len \<ge> 0 then
                let (text, r) = get (rQshiftStr (nat len)) r
                in ret True (if viewOnly (settings r) then r else dispatch (EvClipboard text) r)
              else cut_text_extended env (nat \<bar>len\<bar>) r))"

section \<open>Fence and XVP\<close>

definition handleServerFenceMsg :: "'d rfb \<Rightarrow> (bool, 'd rfb) res" where
  "handleServerFenceMsg r =
     seqr (wait_back 8 1 r) (\<lambda>waiting r.
       if waiting then ret False r
       else
         let r = skip 3 r;
             (flags, r) = get rQshift32 r;
             (len, r) = get rQshift8 r
         in seqr (wait_back len 9 r) (\<lambda>waiting r.
              if waiting then ret False r
              else
                let len = (if len > 64 then 64 else len);
                    (payload, r) = get (rQshiftStr len) r;
                    r = r\<lparr>supportsFence := True\<rparr>
                in if js_and (int flags) (js_shl 1 31) = 0 then failed r
                   else seqr (send (clientFence (js_and (int flags) 3) payload) r) (\<lambda>_ r. ret True r)))"

definition handleXvpMsg :: "'d rfb \<Rightarrow> (bool, 'd rfb) res" where
  "handleXvpMsg r =
     seqr (wait_back 3 1 r) (\<lambda>waiting r.
       if waiting then ret False r
       else
         let r = skip 1 r;
             (ver, r) = get rQshift8 r;
             (msg, r) = get rQshift8 r
         in if msg = 0 then ret True r
            else if msg = 1 then ret True (setCapability True (r\<lparr>xvpVer := ver\<rparr>))
            else ret True (fail r))"

section \<open>Rectangles that are no pictures\<close>

abbreviation PIXEL_MASK :: int where
  "PIXEL_MASK \<equiv> to_int32 0xffffff00"

text \<open>A pixel of a VMware cursor, from its two masks and from its 32-bit colour.\<close>

definition classic_pixel :: "nat \<Rightarrow> nat \<Rightarrow> byte list" where
  "classic_pixel andMask xorMask =
     (if andMask = 0 then
        [u8_of (js_and (js_shr (int xorMask) 8) 0xff), u8_of (js_and (js_shr (int xorMask) 16) 0xff),
         u8_of (js_and (js_shr (int xorMask) 24) 0xff), 0xff]
      else if js_and (int andMask) PIXEL_MASK = PIXEL_MASK then
        if xorMask = 0 then [0, 0, 0, 0]
        else if js_and (int xorMask) PIXEL_MASK = PIXEL_MASK then [0, 0, 0, 0xff]
        else [0, 0, 0, 0xff]
      else [0, 0, 0, 0xff])"

definition alpha_pixel :: "nat \<Rightarrow> byte list" where
  "alpha_pixel data = [u8_of (js_and (js_shr (int data) 24) 0xff), u8_of (js_and (js_shr (int data) 16) 0xff),
     u8_of (js_and (js_shr (int data) 8) 0xff), u8_of (js_and (int data) 0xff)]"

definition handleVMwareCursor :: "'d rfb \<Rightarrow> (bool, 'd rfb) res" where
  "handleVMwareCursor r =
     (let hx = fbu_x (FBU r); hy = fbu_y (FBU r); w = fbu_width (FBU r); h = fbu_height (FBU r) in
      if wait 1 r then ret False r
      else
        let (cursorType, r) = get rQshift8 r;
            (padding, r) = get rQshift8 r
        in if cursorType = 0 then
             seqr (wait_back (w * h * 4 * 2) 2 r) (\<lambda>waiting r.
               if waiting then ret False r
               else
                 let (andMask, r) = read32s (w * h) r;
                     (xorMask, r) = read32s (w * h) r
                 in ret True (updateCursor (concat (map2 classic_pixel andMask xorMask)) hx hy w h r))
           else if cursorType = 1 then
             seqr (wait_back (w * h * 4) 2 r) (\<lambda>waiting r.
               if waiting then ret False r
               else
                 let (data, r) = read32s (w * h) r
                 in ret True (updateCursor (concat (map alpha_pixel data)) hx hy w h r))
           else ret False r)"

text \<open>The cursor with a bit mask: a store of an \<open>undefined\<close> byte would be a 0.\<close>

definition cursor_rgba :: "nat \<Rightarrow> nat \<Rightarrow> byte list \<Rightarrow> byte list \<Rightarrow> byte list" where
  "cursor_rgba w h pixels bits =
     concat (map (\<lambda>y. concat (map (\<lambda>x.
       let pixIdx = (y * w + x) * 4;
           maskIdx = y * ((w + 7) div 8) + x div 8;
           alpha = (if js_and (js_shl (int (js_byte bits maskIdx)) (x mod 8)) 0x80 \<noteq> 0 then 255 else 0)
       in [u8n (js_byte pixels (pixIdx + 2)), u8n (js_byte pixels (pixIdx + 1)), u8n (js_byte pixels pixIdx),
           alpha]) [0..<w])) [0..<h])"

definition handleCursor :: "'d rfb \<Rightarrow> (bool, 'd rfb) res" where
  "handleCursor r =
     (let hx = fbu_x (FBU r); hy = fbu_y (FBU r); w = fbu_width (FBU r); h = fbu_height (FBU r);
          pixelslength = w * h * 4;
          masklength = (w + 7) div 8 * h
      in if wait (pixelslength + masklength) r then ret False r
         else
           let (pixels, r) = get (rQshiftBytes pixelslength) r;
               (bits, r) = get (rQshiftBytes masklength) r
           in ret True (updateCursor (cursor_rgba w h pixels bits) hx hy w h r))"

definition handleDesktopName :: "'d rfb \<Rightarrow> (bool, 'd rfb) res" where
  "handleDesktopName r =
     (if wait 4 r then ret False r
      else
        let (len, r) = get rQshift32 r in
        seqr (wait_back len 4 r) (\<lambda>waiting r.
          if waiting then ret False r
          else
            let (name, r) = get (rQshiftStr len) r in
            case decodeUTF8 name True of
              Inl e \<Rightarrow> raise e r
            | Inr name \<Rightarrow> ret True (setDesktopName name r)))"

definition handleLedEvent :: "'d rfb \<Rightarrow> (bool, 'd rfb) res" where
  "handleLedEvent r =
     (if wait 1 r then ret False r
      else
        let (data, r) = get rQshift8 r;
            numLock = js_and (int data) 2 \<noteq> 0;
            capsLock = js_and (int data) 4 \<noteq> 0
        in ret True (r\<lparr>remoteCapsLock := Some capsLock, remoteNumLock := Some numLock\<rparr>))"

text \<open>The loop over the screens: id and flags of the first one are kept.\<close>

fun read_screens :: "nat \<Rightarrow> nat \<Rightarrow> 'd rfb \<Rightarrow> 'd rfb" where
  "read_screens i 0 r = r"
| "read_screens i (Suc n) r =
     read_screens (Suc i) n
       (if i = 0 then
          let (ident, r) = get rQshift32 r;
              r = r\<lparr>rsz := (rsz r)\<lparr>screenID := ident\<rparr>\<rparr>;
              r = skip 2 (skip 2 (skip 2 (skip 2 r)));
              (flags, r) = get rQshift32 r
          in r\<lparr>rsz := (rsz r)\<lparr>screenFlags := flags\<rparr>\<rparr>
        else skip 16 r)"

definition handleExtendedDesktopSize :: "'d rfb \<Rightarrow> (bool, 'd rfb) res" where
  "handleExtendedDesktopSize r =
     (if wait 4 r then ret False r
      else
        let numberOfScreens = rQpeek8 (sock r) in
        if wait (4 + numberOfScreens * 16) r then ret False r
        else
          let firstUpdate = \<not> supportsSetDesktopSize (rsz r);
              r = r\<lparr>rsz := (rsz r)\<lparr>supportsSetDesktopSize := True\<rparr>\<rparr>;
              r = skip 3 (skip 1 r);
              r = read_screens 0 numberOfScreens r;
              x = fbu_x (FBU r); y = fbu_y (FBU r);
              r = (if x = 1 then r\<lparr>rsz := (rsz r)\<lparr>pendingRemoteResize := False\<rparr>\<rparr> else r)
          in seqr (if x = 1 \<and> y \<noteq> 0 then ret () r
                   else resize_fb (fbu_width (FBU r)) (fbu_height (FBU r)) r) (\<lambda>_ r.
             seqr (if firstUpdate then requestRemoteResize r else ret () r) (\<lambda>_ r.
             seqr (if x = 1 \<and> y = 0 then requestRemoteResize r else ret () r) (\<lambda>_ r. ret True r))))"

section \<open>Rectangles\<close>

definition handleDataRect :: "'d decoder_table \<Rightarrow> 'd rfb \<Rightarrow> (bool, 'd rfb) res" where
  "handleDataRect dt r =
     (case encoding (FBU r) of
        None \<Rightarrow> failed r
      | Some enc \<Rightarrow>
          (case dt enc of
             None \<Rightarrow> failed r
           | Some decodeRect \<Rightarrow>
               (case decodeRect (int (fbu_x (FBU r))) (int (fbu_y (FBU r))) (fbu_width (FBU r))
                       (fbu_height (FBU r)) (fbDepth r) (decoders r) (sock r) (disp r) of
                  None \<Rightarrow> None
                | Some (q, ds, s, d) \<Rightarrow>
                    let r = r\<lparr>decoders := ds, sock := s, disp := d\<rparr>
                    in case q of Inl e \<Rightarrow> failed r | Inr b \<Rightarrow> ret b r)))"

definition handleRect :: "'d decoder_table \<Rightarrow> 'd rfb \<Rightarrow> (bool, 'd rfb) res" where
  "handleRect dt r =
     (let enc = encoding (FBU r) in
      if enc = Some pseudoEncodingLastRect then ret True (r\<lparr>FBU := (FBU r)\<lparr>rects := 1\<rparr>\<rparr>)
      else if enc = Some pseudoEncodingVMwareCursor then handleVMwareCursor r
      else if enc = Some pseudoEncodingCursor then handleCursor r
      else if enc = Some pseudoEncodingQEMUExtendedKeyEvent then ret True (r\<lparr>qemuExtKeyEventSupported := True\<rparr>)
      else if enc = Some pseudoEncodingDesktopName then handleDesktopName r
      else if enc = Some pseudoEncodingDesktopSize
      then seqr (resize_fb (fbu_width (FBU r)) (fbu_height (FBU r)) r) (\<lambda>_ r. ret True r)
      else if enc = Some pseudoEncodingExtendedDesktopSize then handleExtendedDesktopSize r
      else if enc = Some pseudoEncodingExtendedMouseButtons
      then ret True (r\<lparr>extendedPointerEventSupported := True\<rparr>)
      else if enc = Some pseudoEncodingQEMULedEvent then handleLedEvent r
      else handleDataRect dt r)"

section \<open>The framebuffer update\<close>

definition read_rect_header :: "'d rfb \<Rightarrow> 'd rfb" where
  "read_rect_header r =
     (let (x, r) = get rQshift16 r;
          (y, r) = get rQshift16 r;
          (w, r) = get rQshift16 r;
          (h, r) = get rQshift16 r;
          (enc, r) = get rQshift32 r
      in r\<lparr>FBU := (FBU r)\<lparr>fbu_x := x, fbu_y := y, fbu_width := w, fbu_height := h,
                         encoding := Some (to_int32 (int enc))\<rparr>\<rparr>)"

partial_function (option) rect_loop :: "'d decoder_table \<Rightarrow> 'd rfb \<Rightarrow> (bool, 'd rfb) res" where
  "rect_loop dt r =
     (if rects (FBU r) = 0 then ret True (r\<lparr>disp := flip (disp r)\<rparr>)
      else if encoding (FBU r) = None \<and> wait 12 r then ret False r
      else
        seqr (handleRect dt (if encoding (FBU r) = None then read_rect_header r else r))
          (\<lambda>done r. if \<not> done then ret False r
                  else rect_loop dt (r\<lparr>FBU := (FBU r)\<lparr>rects := rects (FBU r) - 1, encoding := None\<rparr>\<rparr>)))"

definition framebufferUpdate :: "'d decoder_table \<Rightarrow> 'd rfb \<Rightarrow> (bool, 'd rfb) res" where
  "framebufferUpdate dt r =
     (if rects (FBU r) = 0 then
        seqr (wait_back 3 1 r) (\<lambda>waiting r.
          if waiting then ret False r
          else
            let r = skip 1 r;
                (n, r) = get rQshift16 r;
                r = r\<lparr>FBU := (FBU r)\<lparr>rects := n\<rparr>\<rparr>
            in if pending (disp r)
               then ret False (r\<lparr>flushing := True, disp := snd (display_flush (disp r))\<rparr>)
               else rect_loop dt r)
      else rect_loop dt r)"

section \<open>Messages\<close>

definition end_of_continuous_updates :: "'d rfb \<Rightarrow> (bool, 'd rfb) res" where
  "end_of_continuous_updates r =
     (let first = \<not> supportsContinuousUpdates r;
          r = r\<lparr>supportsContinuousUpdates := True, enabledContinuousUpdates := False\<rparr>
      in if first then seqr (updateContinuousUpdates (r\<lparr>enabledContinuousUpdates := True\<rparr>)) (\<lambda>_ r. ret True r)
         else ret True r)"

definition framebuffer_message :: "'d decoder_table \<Rightarrow> 'd rfb \<Rightarrow> (bool, 'd rfb) res" where
  "framebuffer_message dt r =
     seqr (framebufferUpdate dt r) (\<lambda>done r.
       if done \<and> \<not> enabledContinuousUpdates r
       then seqr (send (fbUpdateRequest True 0 0 (int (fbW r)) (int (fbH r))) r) (\<lambda>_ r. ret done r)
       else ret done r)"

definition normalMsg :: "'z env \<Rightarrow> 'd decoder_table \<Rightarrow> 'd rfb \<Rightarrow> (bool, 'd rfb) res" where
  "normalMsg env dt r =
     (let (msgType, r) = (if rects (FBU r) > 0 then (0, r) else get rQshift8 r) in
      if msgType = 0 then framebuffer_message dt r
      else if msgType = 1 then failed r
      else if msgType = 2 then ret True (dispatch EvBell r)
      else if msgType = 3 then handleServerCutText env r
      else if msgType = 150 then end_of_continuous_updates r
      else if msgType = 248 then handleServerFenceMsg r
      else if msgType = 250 then handleXvpMsg r
      else ret True (fail r))"

text \<open>The two loops of \<open>_handleMessage\<close>.\<close>

partial_function (option) normal_loop :: "'z env \<Rightarrow> 'd decoder_table \<Rightarrow> 'd rfb \<Rightarrow> (unit, 'd rfb) res" where
  "normal_loop env dt r =
     (if flushing r then ret () r
      else
        seqr (normalMsg env dt r)
          (\<lambda>done r. if \<not> done then ret () r else if wait 1 r then ret () r else normal_loop env dt r))"

partial_function (option) init_loop :: "'z env \<Rightarrow> 'd rfb \<Rightarrow> (unit, 'd rfb) res" where
  "init_loop env r =
     (if conn r = Conn_connecting
      then seqr (initMsg env r) (\<lambda>done r. if \<not> done then ret () r else init_loop env r)
      else ret () r)"

definition handleMessage :: "'z env \<Rightarrow> 'd decoder_table \<Rightarrow> 'd rfb \<Rightarrow> (unit, 'd rfb) res" where
  "handleMessage env dt r =
     (if wait 1 r then ret () r
      else case conn r of
          Conn_connected \<Rightarrow> normal_loop env dt r
        | Conn_connecting \<Rightarrow> init_loop env r
        | _ \<Rightarrow> ret () r)"

text \<open>What runs when the display has been flushed, and when \<open>setTimeout\<close> calls \<open>_initMsg\<close>.\<close>

definition flush_done :: "'z env \<Rightarrow> 'd decoder_table \<Rightarrow> 'd rfb \<Rightarrow> (unit, 'd rfb) res" where
  "flush_done env dt r =
     (let r = r\<lparr>flushing := False\<rparr> in if \<not> wait 1 r then handleMessage env dt r else ret () r)"

definition resumed :: "'z env \<Rightarrow> 'd rfb \<Rightarrow> (unit, 'd rfb) res" where
  "resumed env r = seqr (initMsg env r) (\<lambda>_ r. ret () r)"

end
