(* ===== verification/Input.thy ===== *)
theory Input
  imports Rfb
begin

text \<open>
  Model of the input side of the class \<open>RFB\<close> in \<open>core/rfb.js\<close>: keys, the clipboard, the mouse, the
  wheel and the gestures.

  A Boolean argument that a caller may leave out or give as \<open>null\<close> is \<open>None\<close> for \<open>undefined\<close> and
  \<open>Some None\<close> for \<open>null\<close>.  Positions are \<open>rat\<close>; the magnitude of a pinch is a \<open>real\<close>, because the
  code takes a square root.
\<close>

section \<open>Keys\<close>

definition js_truthy :: "int option \<Rightarrow> bool" where
  "js_truthy n = (n \<noteq> None \<and> n \<noteq> Some 0)"

definition send_key :: "int option \<Rightarrow> string \<Rightarrow> bool \<Rightarrow> 'd rfb \<Rightarrow> (unit, 'd rfb) res" where
  "send_key keysym code down r =
     (if conn r \<noteq> Conn_connected \<or> viewOnly (settings r) then ret () r
      else
        let scancode = xtScancode code
        in if qemuExtKeyEventSupported r \<and> js_truthy scancode
           then send (QEMUExtendedKeyEvent (case keysym of None \<Rightarrow> 0 | Some k \<Rightarrow> k) down (the scancode)) r
           else if \<not> js_truthy keysym then ret () r
           else send (keyEvent (the keysym) (if down then 1 else 0)) r)"

text \<open>\<open>sendKey\<close> without \<open>down\<close> sends a press and a release.\<close>

definition sendKey :: "int option \<Rightarrow> string \<Rightarrow> bool option \<Rightarrow> 'd rfb \<Rightarrow> (unit, 'd rfb) res" where
  "sendKey keysym code down r =
     (case down of
        Some d \<Rightarrow> send_key keysym code d r
      | None \<Rightarrow>
          if conn r \<noteq> Conn_connected \<or> viewOnly (settings r) then ret () r
          else seqr (send_key keysym code True r) (\<lambda>_ r. send_key keysym code False r))"

definition sendCtrlAltDel :: "'d rfb \<Rightarrow> (unit, 'd rfb) res" where
  "sendCtrlAltDel r =
     (if conn r \<noteq> Conn_connected \<or> viewOnly (settings r) then ret () r
      else
        seqr (send_key (Some XK_Control_L) ''ControlLeft'' True r) (\<lambda>_ r.
        seqr (send_key (Some XK_Alt_L) ''AltLeft'' True r) (\<lambda>_ r.
        seqr (send_key (Some XK_Delete) ''Delete'' True r) (\<lambda>_ r.
        seqr (send_key (Some XK_Delete) ''Delete'' False r) (\<lambda>_ r.
        seqr (send_key (Some XK_Alt_L) ''AltLeft'' False r) (\<lambda>_ r.
        send_key (Some XK_Control_L) ''ControlLeft'' False r))))))"

text \<open>The synchronisation of one lock key: \<open>known\<close> is the remote state, \<open>local\<close> the argument.\<close>

definition lock_differs :: "bool option \<Rightarrow> bool option option \<Rightarrow> bool \<Rightarrow> bool" where
  "lock_differs known local down = (known \<noteq> None \<and> local \<noteq> Some None \<and> local \<noteq> Some known \<and> down)"

definition handleKeyEvent ::
    "int option \<Rightarrow> string \<Rightarrow> bool \<Rightarrow> bool option option \<Rightarrow> bool option option \<Rightarrow> 'd rfb \<Rightarrow> (unit, 'd rfb) res" where
  "handleKeyEvent keysym code down numlock capslock r =
     (let r = (if code = ''CapsLock'' \<and> down then r\<lparr>remoteCapsLock := None\<rparr> else r) in
      seqr (if lock_differs (remoteCapsLock r) capslock down
            then seqr (send_key (Some XK_Caps_Lock) ''CapsLock'' True r) (\<lambda>_ r.
                 seqr (send_key (Some XK_Caps_Lock) ''CapsLock'' False r) (\<lambda>_ r.
                 ret () (r\<lparr>remoteCapsLock := None\<rparr>)))
            else ret () r) (\<lambda>_ r.
      let r = (if code = ''NumLock'' \<and> down then r\<lparr>remoteNumLock := None\<rparr> else r) in
      seqr (if lock_differs (remoteNumLock r) numlock down
            then seqr (send_key (Some XK_Num_Lock) ''NumLock'' True r) (\<lambda>_ r.
                 seqr (send_key (Some XK_Num_Lock) ''NumLock'' False r) (\<lambda>_ r.
                 ret () (r\<lparr>remoteNumLock := None\<rparr>)))
            else ret () r) (\<lambda>_ r.
      send_key keysym code down r)))"

text \<open>The calls that the keyboard object has made of its \<open>onkeyevent\<close>, and a key event of the page.\<close>

fun key_outs :: "key_out list \<Rightarrow> 'd rfb \<Rightarrow> (unit, 'd rfb) res" where
  "key_outs [] r = ret () r"
| "key_outs (ev # evs) r =
     seqr (handleKeyEvent (ko_keysym ev) (ko_code ev) (ko_down ev) (Some (ko_numlock ev))
             (Some (ko_capslock ev)) r)
       (\<lambda>_ r. key_outs evs r)"

definition keyboard_event :: "platform \<Rightarrow> kb_event \<Rightarrow> 'd rfb \<Rightarrow> (unit, 'd rfb) res" where
  "keyboard_event os ev r =
     (case kb_step os ev (keyboard r) of (kb, outs) \<Rightarrow> key_outs outs (r\<lparr>keyboard := kb\<rparr>))"

section \<open>Clipboard\<close>

text \<open>The code points that \<open>for ... of\<close> finds in a string: a surrogate without its partner counts
  for itself.\<close>

fun code_points :: "jsstr \<Rightarrow> nat list" where
  "code_points [] = []"
| "code_points [c] = [c]"
| "code_points (h # l # cs) =
     (if is_high h \<and> is_low l
      then (0x10000 + (h - 0xD800) * 0x400 + (l - 0xDC00)) # code_points cs
      else h # code_points (l # cs))"

definition latin1_bytes :: "jsstr \<Rightarrow> byte list" where
  "latin1_bytes text = map (\<lambda>code. u8n (if code > 0xff then 0x3f else code)) (code_points text)"

definition clipboardPasteFrom :: "jsstr \<Rightarrow> 'd rfb \<Rightarrow> (unit, 'd rfb) res" where
  "clipboardPasteFrom text r =
     (if conn r \<noteq> Conn_connected \<or> viewOnly (settings r) then ret () r
      else if clipFormats r extendedClipboardFormatText \<and> clipActions r extendedClipboardActionNotify
      then send (extendedClipboardNotify [extendedClipboardFormatText]) (r\<lparr>clipboardText := Some text\<rparr>)
      else send (clientCutText (latin1_bytes text) False) r)"

section \<open>Mouse\<close>

definition clientToElement :: "rat \<Rightarrow> rat \<Rightarrow> rat \<times> rat \<times> rat \<times> rat \<Rightarrow> rat \<times> rat" where
  "clientToElement x y bounds =
     (case bounds of (left, tp, width, height) \<Rightarrow>
        (if x < left then 0 else if x \<ge> left + width then width - 1 else x - left,
         if y < tp then 0 else if y \<ge> tp + height then height - 1 else y - tp))"

text \<open>The bits of \<open>MouseEvent.buttons\<close> and what they are in the protocol.\<close>

definition buttonMaskMap :: "nat \<Rightarrow> int" where
  "buttonMaskMap i = [js_shl 1 0, js_shl 1 2, js_shl 1 1, js_shl 1 7, js_shl 1 8] ! i"

definition convertButtonMask :: "int \<Rightarrow> int" where
  "convertButtonMask buttons =
     fold (\<lambda>i bmask. if js_and buttons (js_shl 1 i) \<noteq> 0 then js_or bmask (buttonMaskMap i) else bmask) [0..<5] 0"

definition sendMouse :: "rat \<Rightarrow> rat \<Rightarrow> int \<Rightarrow> 'd rfb \<Rightarrow> (unit, 'd rfb) res" where
  "sendMouse x y bmask r =
     (if conn r \<noteq> Conn_connected \<or> viewOnly (settings r) then ret () r
      else if js_and bmask 0x8000 \<noteq> 0 then raise (JsError ''Illegal mouse button mask'') r
      else if extendedPointerEventSupported r \<and> js_and bmask 0x7f80 \<noteq> 0
      then send (extendedPointerEvent (absX x (disp r)) (absY y (disp r)) bmask) r
      else send (pointerEvent (absX x (disp r)) (absY y (disp r)) bmask) r)"

definition upd_mouse :: "(mouse \<Rightarrow> mouse) \<Rightarrow> 'd rfb \<Rightarrow> 'd rfb" where
  "upd_mouse f r = r\<lparr>mouse := f (mouse r)\<rparr>"

definition flushMouseMoveTimer :: "rat \<Rightarrow> rat \<Rightarrow> 'd rfb \<Rightarrow> (unit, 'd rfb) res" where
  "flushMouseMoveTimer x y r =
     (if mouseMoveTimer (mouse r) \<noteq> None
      then sendMouse x y (mouseButtonMask (mouse r)) (upd_mouse (\<lambda>m. m\<lparr>mouseMoveTimer := None\<rparr>) r)
      else ret () r)"

definition handleMouseButton :: "rat \<Rightarrow> rat \<Rightarrow> int \<Rightarrow> 'd rfb \<Rightarrow> (unit, 'd rfb) res" where
  "handleMouseButton x y bmask r =
     seqr (flushMouseMoveTimer x y r) (\<lambda>_ r.
       let r = upd_mouse (\<lambda>m. m\<lparr>mouseButtonMask := bmask\<rparr>) r
       in sendMouse x y (mouseButtonMask (mouse r)) r)"

abbreviation MOUSE_MOVE_DELAY :: int where "MOUSE_MOVE_DELAY \<equiv> 17"

definition mouse_moved_now :: "'d rfb \<Rightarrow> 'd rfb" where
  "mouse_moved_now r = upd_mouse (\<lambda>m. m\<lparr>mouseLastMoveTime := now (page r)\<rparr>) r"

definition handleMouseMove :: "rat \<Rightarrow> rat \<Rightarrow> 'd rfb \<Rightarrow> (unit, 'd rfb) res" where
  "handleMouseMove x y r =
     (let r = upd_mouse (\<lambda>m. m\<lparr>mousePos := (x, y)\<rparr>) r in
      if mouseMoveTimer (mouse r) = None then
        let timeSinceLastMove = now (page r) - mouseLastMoveTime (mouse r)
        in if timeSinceLastMove > MOUSE_MOVE_DELAY
           then seqr (sendMouse x y (mouseButtonMask (mouse r)) r) (\<lambda>_ r. ret () (mouse_moved_now r))
           else ret () (upd_mouse (\<lambda>m. m\<lparr>mouseMoveTimer := Some (True, MOUSE_MOVE_DELAY - timeSinceLastMove)\<rparr>) r)
      else ret () r)"

definition handleDelayedMouseMove :: "'d rfb \<Rightarrow> (unit, 'd rfb) res" where
  "handleDelayedMouseMove r =
     (let r = upd_mouse (\<lambda>m. m\<lparr>mouseMoveTimer := None\<rparr>) r
      in seqr (sendMouse (fst (mousePos (mouse r))) (snd (mousePos (mouse r))) (mouseButtonMask (mouse r)) r)
           (\<lambda>_ r. ret () (mouse_moved_now r)))"

datatype mouse_type = MDown | MUp | MMove | MClick | MContextMenu

record mouse_ev =
  me_type :: mouse_type
  me_clientX :: rat
  me_clientY :: rat
  me_buttons :: int

text \<open>
  Dragging of the viewport: a move beyond the threshold, or any move once it has begun.  While
  no position has been noted (the constructor leaves \<open>{}\<close>) both differences are \<open>NaN\<close>, which
  exceed no threshold; \<open>_viewportHasMoved\<close> is only ever set together with a position.
\<close>

definition drag_viewport_to :: "rat \<times> rat \<Rightarrow> 'd rfb \<Rightarrow> 'd rfb" where
  "drag_viewport_to pos r =
     (case viewportDragPos (mouse r) of
        None \<Rightarrow> r
      | Some p \<Rightarrow>
          let deltaX = fst p - fst pos;
              deltaY = snd p - snd pos
          in if viewportHasMoved (mouse r) \<or> \<bar>deltaX\<bar> > dragThreshold (page r) \<or> \<bar>deltaY\<bar> > dragThreshold (page r)
             then (upd_mouse (\<lambda>m. m\<lparr>viewportHasMoved := True, viewportDragPos := Some pos\<rparr>) r)
                    \<lparr>disp := viewportChangePos deltaX deltaY (disp r)\<rparr>
             else r)"

definition handleMouse :: "mouse_ev \<Rightarrow> 'd rfb \<Rightarrow> (unit, 'd rfb) res" where
  "handleMouse ev r =
     (if me_type ev = MClick \<or> me_type ev = MContextMenu then ret () r
      else
        let pos = clientToElement (me_clientX ev) (me_clientY ev) (canvasRect (page r));
            bmask = convertButtonMask (me_buttons ev);
            down = (me_type ev = MDown);
            button = (\<lambda>r.
              let r = (if down then r\<lparr>page := (page r)\<lparr>captured := True\<rparr>\<rparr> else r)
              in handleMouseButton (fst pos) (snd pos) bmask r)
        in if me_type ev = MMove then
             if viewportDragging (mouse r) then ret () (drag_viewport_to pos r)
             else handleMouseMove (fst pos) (snd pos) r
           else if dragViewport (settings r) then
             if down \<and> \<not> viewportDragging (mouse r) then
               seqr (flushMouseMoveTimer (fst pos) (snd pos)
                       (upd_mouse (\<lambda>m. m\<lparr>viewportDragging := True, viewportDragPos := Some pos,
                                        viewportHasMoved := False\<rparr>) r))
                 (\<lambda>_ r. ret () (upd_mouse (\<lambda>m. m\<lparr>mouseButtonMask := bmask\<rparr>) r))
             else
               let r = upd_mouse (\<lambda>m. m\<lparr>viewportDragging := False\<rparr>) r
               in if viewportHasMoved (mouse r)
                  then ret () (upd_mouse (\<lambda>m. m\<lparr>mouseButtonMask := bmask\<rparr>) r)
                  else seqr (sendMouse (fst pos) (snd pos) (mouseButtonMask (mouse r)) r) (\<lambda>_ r. button r)
           else button r)"

section \<open>Wheel\<close>

record wheel_ev =
  we_clientX :: rat
  we_clientY :: rat
  we_buttons :: int
  we_deltaX :: rat
  we_deltaY :: rat
  we_deltaMode :: nat

abbreviation WHEEL_STEP :: rat where "WHEEL_STEP \<equiv> 50"
abbreviation WHEEL_LINE_HEIGHT :: rat where "WHEEL_LINE_HEIGHT \<equiv> 19"

text \<open>A step of the wheel: a press of one of its buttons and the release.\<close>

definition wheel_step :: "rat \<times> rat \<Rightarrow> int \<Rightarrow> int \<Rightarrow> 'd rfb \<Rightarrow> (unit, 'd rfb) res" where
  "wheel_step pos bmask button r =
     seqr (handleMouseButton (fst pos) (snd pos) (js_or bmask button) r)
       (\<lambda>_ r. handleMouseButton (fst pos) (snd pos) bmask r)"

definition wheel_axis ::
    "(mouse \<Rightarrow> rat) \<Rightarrow> (rat \<Rightarrow> mouse \<Rightarrow> mouse) \<Rightarrow> int \<Rightarrow> int \<Rightarrow> rat \<times> rat \<Rightarrow> int \<Rightarrow> 'd rfb \<Rightarrow> (unit, 'd rfb) res" where
  "wheel_axis acc set_acc less_button greater_button pos bmask r =
     (if \<bar>acc (mouse r)\<bar> \<ge> WHEEL_STEP then
        seqr (if acc (mouse r) < 0 then wheel_step pos bmask less_button r
              else if acc (mouse r) > 0 then wheel_step pos bmask greater_button r
              else ret () r)
          (\<lambda>_ r. ret () (upd_mouse (set_acc 0) r))
      else ret () r)"

definition handleWheel :: "wheel_ev \<Rightarrow> 'd rfb \<Rightarrow> (unit, 'd rfb) res" where
  "handleWheel ev r =
     (if conn r \<noteq> Conn_connected \<or> viewOnly (settings r) then ret () r
      else
        let pos = clientToElement (we_clientX ev) (we_clientY ev) (canvasRect (page r));
            bmask = convertButtonMask (we_buttons ev);
            dX = (if we_deltaMode ev \<noteq> 0 then we_deltaX ev * WHEEL_LINE_HEIGHT else we_deltaX ev);
            dY = (if we_deltaMode ev \<noteq> 0 then we_deltaY ev * WHEEL_LINE_HEIGHT else we_deltaY ev);
            r = upd_mouse (\<lambda>m. m\<lparr>accumulatedWheelDeltaX := accumulatedWheelDeltaX m + dX,
                                accumulatedWheelDeltaY := accumulatedWheelDeltaY m + dY\<rparr>) r
        in seqr (wheel_axis accumulatedWheelDeltaX (\<lambda>v m. m\<lparr>accumulatedWheelDeltaX := v\<rparr>)
                   (js_shl 1 5) (js_shl 1 6) pos bmask r)
             (\<lambda>_ r. wheel_axis accumulatedWheelDeltaY (\<lambda>v m. m\<lparr>accumulatedWheelDeltaY := v\<rparr>)
                   (js_shl 1 3) (js_shl 1 4) pos bmask r))"

section \<open>Gestures\<close>

abbreviation GESTURE_ZOOMSENS :: real where "GESTURE_ZOOMSENS \<equiv> 75"
abbreviation GESTURE_SCRLSENS :: real where "GESTURE_SCRLSENS \<equiv> 50"
abbreviation DOUBLE_TAP_TIMEOUT :: int where "DOUBLE_TAP_TIMEOUT \<equiv> 1000"
abbreviation DOUBLE_TAP_THRESHOLD :: rat where "DOUBLE_TAP_THRESHOLD \<equiv> 50"

definition fakeMouseMove :: "gesture_ev \<Rightarrow> rat \<times> rat \<Rightarrow> 'd rfb \<Rightarrow> (unit, 'd rfb) res" where
  "fakeMouseMove ev pos r =
     seqr (handleMouseMove (fst pos) (snd pos) r)
       (\<lambda>_ r. ret () (cursor_call (CurMove (ge_clientX ev) (ge_clientY ev)) r))"

definition gesture_pos :: "gesture_ev \<Rightarrow> 'd rfb \<Rightarrow> rat \<times> rat" where
  "gesture_pos ev r = clientToElement (ge_clientX ev) (ge_clientY ev) (canvasRect (page r))"

text \<open>\<open>Math.hypot(dx, dy) < limit\<close> for a positive limit.\<close>

definition nearer :: "rat \<Rightarrow> rat \<Rightarrow> rat \<Rightarrow> bool" where
  "nearer dx dy limit = (dx * dx + dy * dy < limit * limit)"

text \<open>\<open>_handleTapEvent\<close>: the event that the position is taken from, and the new first tap.\<close>

definition tap_target :: "gesture_ev \<Rightarrow> 'd rfb \<Rightarrow> gesture_ev \<times> gesture_ev" where
  "tap_target ev r =
     (case (gestureLastTapTime (mouse r), gestureFirstDoubleTapEv (mouse r)) of
        (Some t, Some f) \<Rightarrow>
          if now (page r) - t < DOUBLE_TAP_TIMEOUT \<and> ge_gesture f = ge_gesture ev then
            if nearer (ge_clientX f - ge_clientX ev) (ge_clientY f - ge_clientY ev) DOUBLE_TAP_THRESHOLD
            then (f, f) else (ev, ev)
          else (ev, ev)
      | _ \<Rightarrow> (ev, ev))"

definition handleTapEvent :: "gesture_ev \<Rightarrow> int \<Rightarrow> 'd rfb \<Rightarrow> (unit, 'd rfb) res" where
  "handleTapEvent ev bmask r =
     (let (hit, f) = tap_target ev r;
          pos = gesture_pos hit r;
          r = upd_mouse (\<lambda>m. m\<lparr>gestureFirstDoubleTapEv := Some f, gestureLastTapTime := Some (now (page r))\<rparr>) r
      in seqr (fakeMouseMove f pos r) (\<lambda>_ r.
         seqr (handleMouseButton (fst pos) (snd pos) bmask r) (\<lambda>_ r.
         handleMouseButton (fst pos) (snd pos) 0 r)))"

definition click_at :: "rat \<times> rat \<Rightarrow> int \<Rightarrow> 'd rfb \<Rightarrow> (unit, 'd rfb) res" where
  "click_at pos button r =
     seqr (handleMouseButton (fst pos) (snd pos) button r)
       (\<lambda>_ r. handleMouseButton (fst pos) (snd pos) 0 r)"

text \<open>
  The loops of \<open>twodrag\<close> and \<open>pinch\<close>: while the magnitude is more than \<open>sens\<close> above (below) the last
  one, a click of a wheel button and a step of the last magnitude, which \<open>get_last\<close> and \<open>set_last\<close>
  read and store.
\<close>

partial_function (option) scroll_up ::
    "(mouse \<Rightarrow> real) \<Rightarrow> (real \<Rightarrow> mouse \<Rightarrow> mouse) \<Rightarrow> rat \<times> rat \<Rightarrow> int \<Rightarrow> real \<Rightarrow> real \<Rightarrow> 'd rfb \<Rightarrow> (unit, 'd rfb) res" where
  "scroll_up get_last set_last pos button sens magnitude r =
     (if magnitude - get_last (mouse r) > sens
      then seqr (click_at pos button r)
             (\<lambda>_ r. scroll_up get_last set_last pos button sens magnitude
                      (upd_mouse (\<lambda>m. set_last (get_last m + sens) m) r))
      else ret () r)"

partial_function (option) scroll_down ::
    "(mouse \<Rightarrow> real) \<Rightarrow> (real \<Rightarrow> mouse \<Rightarrow> mouse) \<Rightarrow> rat \<times> rat \<Rightarrow> int \<Rightarrow> real \<Rightarrow> real \<Rightarrow> 'd rfb \<Rightarrow> (unit, 'd rfb) res" where
  "scroll_down get_last set_last pos button sens magnitude r =
     (if magnitude - get_last (mouse r) < - sens
      then seqr (click_at pos button r)
             (\<lambda>_ r. scroll_down get_last set_last pos button sens magnitude
                      (upd_mouse (\<lambda>m. set_last (get_last m - sens) m) r))
      else ret () r)"

definition scroll_both ::
    "(mouse \<Rightarrow> real) \<Rightarrow> (real \<Rightarrow> mouse \<Rightarrow> mouse) \<Rightarrow> rat \<times> rat \<Rightarrow> int \<Rightarrow> int \<Rightarrow> real \<Rightarrow> real \<Rightarrow> 'd rfb \<Rightarrow> (unit, 'd rfb) res" where
  "scroll_both get_last set_last pos up_button down_button sens magnitude r =
     seqr (scroll_up get_last set_last pos up_button sens magnitude r)
       (\<lambda>_ r. scroll_down get_last set_last pos down_button sens magnitude r)"

abbreviation set_mX :: "real \<Rightarrow> mouse \<Rightarrow> mouse" where
  "set_mX v m \<equiv> m\<lparr>gestureLastMagnitudeX := v\<rparr>"

abbreviation set_mY :: "real \<Rightarrow> mouse \<Rightarrow> mouse" where
  "set_mY v m \<equiv> m\<lparr>gestureLastMagnitudeY := v\<rparr>"

definition hypot :: "real \<Rightarrow> real \<Rightarrow> real" where
  "hypot x y = sqrt (x ^ 2 + y ^ 2)"

definition gesture_start :: "gesture_ev \<Rightarrow> 'd rfb \<Rightarrow> (unit, 'd rfb) res" where
  "gesture_start ev r =
     (let pos = gesture_pos ev r; drag = dragViewport (settings r); g = ge_gesture ev in
      if g = ''onetap'' then handleTapEvent ev 1 r
      else if g = ''twotap'' then handleTapEvent ev 4 r
      else if g = ''threetap'' then handleTapEvent ev 2 r
      else if g = ''drag'' then
        if drag then ret () (upd_mouse (\<lambda>m. m\<lparr>viewportHasMoved := False, viewportDragging := True,
                                             viewportDragPos := Some pos\<rparr>) r)
        else seqr (fakeMouseMove ev pos r) (\<lambda>_ r. handleMouseButton (fst pos) (snd pos) 1 r)
      else if g = ''longpress'' then
        if drag then ret () (upd_mouse (\<lambda>m. m\<lparr>viewportHasMoved := False, viewportDragPos := Some pos\<rparr>) r)
        else seqr (fakeMouseMove ev pos r) (\<lambda>_ r. handleMouseButton (fst pos) (snd pos) 4 r)
      else if g = ''twodrag'' then
        fakeMouseMove ev pos (upd_mouse (\<lambda>m. set_mY (ge_magnitudeY ev) (set_mX (ge_magnitudeX ev) m)) r)
      else if g = ''pinch'' then
        fakeMouseMove ev pos (upd_mouse (set_mX (hypot (ge_magnitudeX ev) (ge_magnitudeY ev))) r)
      else ret () r)"

text \<open>The moves of two fingers: along both axes, and apart or together.\<close>

definition two_drag :: "gesture_ev \<Rightarrow> rat \<times> rat \<Rightarrow> 'd rfb \<Rightarrow> (unit, 'd rfb) res" where
  "two_drag ev pos r =
     seqr (scroll_both gestureLastMagnitudeY set_mY pos 0x8 0x10 GESTURE_SCRLSENS (ge_magnitudeY ev) r)
       (\<lambda>_ r. scroll_both gestureLastMagnitudeX set_mX pos 0x20 0x40 GESTURE_SCRLSENS (ge_magnitudeX ev) r)"

definition pinch :: "gesture_ev \<Rightarrow> rat \<times> rat \<Rightarrow> 'd rfb \<Rightarrow> (unit, 'd rfb) res" where
  "pinch ev pos r =
     (let magnitude = hypot (ge_magnitudeX ev) (ge_magnitudeY ev) in
      seqr (if \<bar>magnitude - gestureLastMagnitudeX (mouse r)\<bar> > GESTURE_ZOOMSENS then
              seqr (handleKeyEvent (Some XK_Control_L) ''ControlLeft'' True None None r)
                (\<lambda>_ r. scroll_both gestureLastMagnitudeX set_mX pos 0x8 0x10 GESTURE_ZOOMSENS magnitude r)
            else ret () r)
        (\<lambda>_ r. handleKeyEvent (Some XK_Control_L) ''ControlLeft'' False None None r))"

definition gesture_move :: "gesture_ev \<Rightarrow> 'd rfb \<Rightarrow> (unit, 'd rfb) res" where
  "gesture_move ev r =
     (let pos = gesture_pos ev r; g = ge_gesture ev in
      if g = ''drag'' \<or> g = ''longpress'' then
        if dragViewport (settings r)
        then ret () (drag_viewport_to pos (upd_mouse (\<lambda>m. m\<lparr>viewportDragging := True\<rparr>) r))
        else fakeMouseMove ev pos r
      else if g = ''twodrag'' then seqr (fakeMouseMove ev pos r) (\<lambda>_ r. two_drag ev pos r)
      else if g = ''pinch'' then seqr (fakeMouseMove ev pos r) (\<lambda>_ r. pinch ev pos r)
      else ret () r)"

definition gesture_end :: "gesture_ev \<Rightarrow> 'd rfb \<Rightarrow> (unit, 'd rfb) res" where
  "gesture_end ev r =
     (let pos = gesture_pos ev r; g = ge_gesture ev in
      if g = ''drag'' then
        if dragViewport (settings r) then ret () (upd_mouse (\<lambda>m. m\<lparr>viewportDragging := False\<rparr>) r)
        else seqr (fakeMouseMove ev pos r) (\<lambda>_ r. handleMouseButton (fst pos) (snd pos) 0 r)
      else if g = ''longpress'' then
        if viewportHasMoved (mouse r) then ret () r
        else if dragViewport (settings r) then
          seqr (fakeMouseMove ev pos r) (\<lambda>_ r.
          seqr (click_at pos 4 r) (\<lambda>_ r.
          ret () (upd_mouse (\<lambda>m. m\<lparr>viewportDragging := False\<rparr>) r)))
        else seqr (fakeMouseMove ev pos r) (\<lambda>_ r. handleMouseButton (fst pos) (snd pos) 0 r)
      else ret () r)"

definition handleGesture :: "gesture_ev \<Rightarrow> 'd rfb \<Rightarrow> (unit, 'd rfb) res" where
  "handleGesture ev r =
     (if ge_type ev = ''gesturestart'' then gesture_start ev r
      else if ge_type ev = ''gesturemove'' then gesture_move ev r
      else if ge_type ev = ''gestureend'' then gesture_end ev r
      else ret () r)"

end
