(* ===== verification/InputProps.thy ===== *)
theory InputProps
  imports Input
begin

text \<open>
  What the input side of \<open>RFB\<close> does to the connection: every handler returns, throws nothing, and
  puts whole messages of the protocol on the wire, or none if the object is view-only or not
  connected.
\<close>

section \<open>Messages of the client's input\<close>

text \<open>The shape of one message about input, as the protocol defines it.\<close>

definition input_msg :: "byte list \<Rightarrow> bool" where
  "input_msg bs =
     (if take 1 bs = [4] then length bs = 8
      else if take 1 bs = [5] then
        length bs = (if bit (js_byte bs 1) 7 then 7 else 6)
      else if take 1 bs = [6] then
        length bs = 8 + nat \<bar>to_int32 (int (be (take 4 (drop 4 bs))))\<bar>
      else take 2 bs = [255, 0] \<and> length bs = 12)"

definition muted :: "'d rfb \<Rightarrow> bool" where
  "muted r = (conn r \<noteq> Conn_connected \<or> viewOnly (settings r))"

text \<open>A mask of the buttons the protocol can name: nine bits.\<close>

definition legal_mask :: "int \<Rightarrow> bool" where
  "legal_mask b = (0 \<le> b \<and> b < 512)"

text \<open>The state in which input may arrive.\<close>

definition fit :: "'d rfb \<Rightarrow> bool" where
  "fit r = (legal_mask (mouseButtonMask (mouse r))
     \<and> (muted r \<or> sq_ready (sock r) \<and> sQ (sock r) = []))"

definition same_link :: "'d rfb \<Rightarrow> 'd rfb \<Rightarrow> bool" where
  "same_link r r' = (conn r' = conn r \<and> viewOnly (settings r') = viewOnly (settings r))"

text \<open>\<open>m\<close> returns, and between \<open>r\<close> and the state it leaves the messages \<open>ms\<close> have been sent.\<close>

definition says :: "'d rfb \<Rightarrow> byte list list \<Rightarrow> 'd rfb \<Rightarrow> bool" where
  "says r ms r' =
     (same_link r r' \<and> fit r'
      \<and> (if muted r then ms = [] \<and> sock r' = sock r else sends (sock r) (concat ms) (sock r')))"

definition emits :: "'d rfb \<Rightarrow> (unit, 'd rfb) res \<Rightarrow> bool" where
  "emits r m = (\<exists>r' ms. m = ret () r' \<and> list_all input_msg ms \<and> says r ms r')"

named_theorems emits_intros \<open>handlers that emit\<close>

lemma same_link_muted: "same_link r r' \<Longrightarrow> muted r' = muted r"
  by (simp add: same_link_def muted_def)

lemma says_refl: "fit r \<Longrightarrow> says r [] r"
  by (auto simp: says_def same_link_def fit_def intro: sends_refl)

lemma says_trans: "says r ms r' \<Longrightarrow> says r' ns r'' \<Longrightarrow> says r (ms @ ns) r''"
  by (auto simp: says_def same_link_def muted_def intro: sends_trans)

lemma emitsI: "m = ret () r' \<Longrightarrow> list_all input_msg ms \<Longrightarrow> says r ms r' \<Longrightarrow> emits r m"
  by (auto simp: emits_def)

lemma emits_ret: "fit r \<Longrightarrow> emits r (ret () r)"
  by (rule emitsI [of _ r "[]"]) (simp_all add: says_refl)

lemma emits_then:
  assumes "emits r m" "\<And>r'. m = ret () r' \<Longrightarrow> fit r' \<Longrightarrow> same_link r r' \<Longrightarrow> emits r' (f () r')"
  shows "emits r (seqr m f)"
proof -
  obtain r1 ms where 1: "m = ret () r1" "list_all input_msg ms" "says r ms r1"
    using assms(1) by (auto simp: emits_def)
  then have "emits r1 (f () r1)"
    using assms(2) by (auto simp: says_def)
  then obtain r2 ns where 2: "f () r1 = ret () r2" "list_all input_msg ns" "says r1 ns r2"
    by (auto simp: emits_def)
  have "seqr m f = ret () r2 \<and> list_all input_msg (ms @ ns) \<and> says r (ms @ ns) r2"
    using 1 2 says_trans by auto
  then show ?thesis
    unfolding emits_def by blast
qed

lemma emits_seqr:
  "emits r m \<Longrightarrow> (\<And>r'. fit r' \<Longrightarrow> same_link r r' \<Longrightarrow> emits r' (f () r')) \<Longrightarrow> emits r (seqr m f)"
  by (rule emits_then)

text \<open>Assignments to other fields do not change what a handler sends.\<close>

definition linked :: "'d rfb \<Rightarrow> 'd rfb \<Rightarrow> bool" where
  "linked r r' = (same_link r r' \<and> sock r' = sock r)"

lemma emits_linked:
  assumes "emits r' m" "linked r r'"
  shows "emits r m"
proof -
  have "says r' ms x = says r ms x" for ms x
    using assms(2) by (simp add: says_def linked_def same_link_def muted_def)
  then show ?thesis
    using assms(1) by (simp add: emits_def)
qed

lemma emits_if: "(b \<Longrightarrow> emits r x) \<Longrightarrow> (\<not> b \<Longrightarrow> emits r y) \<Longrightarrow> emits r (if b then x else y)"
  by simp

lemmas link_defs = fit_def linked_def same_link_def muted_def upd_mouse_def

lemmas [emits_intros] = emits_linked [OF emits_ret]

text \<open>Sending one message.\<close>

lemma sq_exec_flushed:
  assumes "ends_flushed m" "sq_ready s" "sQ s = []"
  shows "\<exists>s'. sq_exec m s = Some (Inr (), s') \<and> sends s (msg_bytes m) s' \<and> sQ s' = []"
proof -
  obtain s' where s': "sq_run m s = Some (Inr s')" "sends s (msg_bytes m) s'" "sQ s' = []"
    using ends_flushed_run [OF assms] by blast
  then have "sq_exec m s = Some (Inr (), s')"
    using sq_exec_run [of m s] by (auto split: option.splits sum.splits prod.splits)
  then show ?thesis
    using s' by blast
qed

lemma emits_send:
  assumes "ends_flushed m" "input_msg (msg_bytes m)" "fit r" "\<not> muted r"
  shows "emits r (send m r)"
proof -
  obtain s' where s': "sq_exec m (sock r) = Some (Inr (), s')" "sends (sock r) (msg_bytes m) s'" "sQ s' = []"
    using sq_exec_flushed [OF assms(1)] assms(3,4) by (auto simp: fit_def)
  have "says r [msg_bytes m] (r\<lparr>sock := s'\<rparr>)"
    using s'(2,3) assms(3,4) sends_ready [OF s'(2)]
    by (auto simp: says_def same_link_def fit_def muted_def)
  moreover have "send m r = ret () (r\<lparr>sock := s'\<rparr>)"
    using s'(1) by (simp add: send_def ret_def)
  ultimately show ?thesis
    using assms(2) by (intro emitsI [of _ "r\<lparr>sock := s'\<rparr>" "[msg_bytes m]"]) simp_all
qed

section \<open>The messages have the shape\<close>

lemma js_byte_1: "js_byte (a # b # bs) 1 = unat b"
  by (simp add: js_byte_def)

lemma keyEvent_msg: "input_msg (msg_bytes (keyEvent k d))"
  by (simp add: input_msg_def keyEvent_def)

lemma QEMU_msg: "input_msg (msg_bytes (QEMUExtendedKeyEvent k d c))"
  by (simp add: input_msg_def QEMUExtendedKeyEvent_def)

lemma u8_of_bit: "n < 8 \<Longrightarrow> bit (unat (u8_of x)) n = bit x n"
  by (simp add: u8_of_def bit_unsigned_iff bit_simps)

lemma bit_127: "bit (127::int) n \<longleftrightarrow> n < 7"
proof -
  have *: "(127::int) = mask 7"
    by (simp add: mask_eq_exp_minus_1)
  show ?thesis
    unfolding * by (simp add: bit_simps)
qed

lemma js_and_bit: "n < 31 \<Longrightarrow> bit (js_and x y) n \<longleftrightarrow> bit x n \<and> bit y n"
  by (simp add: js_and_def to_int32_def bit_simps min_def)

lemma js_or_bit: "n < 31 \<Longrightarrow> bit (js_or x y) n \<longleftrightarrow> bit x n \<or> bit y n"
  by (simp add: js_or_def to_int32_def bit_simps min_def)

lemma pointer_msg: "input_msg (msg_bytes (pointerEvent x y b))"
  by (simp add: input_msg_def pointerEvent_def js_byte_1 [unfolded One_nat_def] u8_of_bit js_and_bit bit_127)

lemma legal_mask_bits: "legal_mask b \<longleftrightarrow> (\<forall>n\<ge>9. \<not> bit b n)"
proof -
  have "legal_mask b \<longleftrightarrow> take_bit 9 b = b"
    by (simp add: legal_mask_def take_bit_int_eq_self_iff)
  also have "\<dots> \<longleftrightarrow> (\<forall>n. (n < 9 \<and> bit b n) = bit b n)"
    unfolding bit_eq_iff bit_take_bit_iff by simp
  also have "\<dots> \<longleftrightarrow> (\<forall>n\<ge>9. \<not> bit b n)"
    using not_less by blast
  finally show ?thesis .
qed

lemma bit_small_numeral:
  "bit (1::int) n \<longleftrightarrow> n = 0" "bit (4::int) n \<longleftrightarrow> n = 2" "bit (2::int) n \<longleftrightarrow> n = 1"
  "bit (8::int) n \<longleftrightarrow> n = 3" "bit (16::int) n \<longleftrightarrow> n = 4" "bit (32::int) n \<longleftrightarrow> n = 5"
  "bit (64::int) n \<longleftrightarrow> n = 6" "bit (128::int) n \<longleftrightarrow> n = 7" "bit (256::int) n \<longleftrightarrow> n = 8"
  "bit (0x8000::int) n \<longleftrightarrow> n = 15"
proof -
  have e: "(4::int) = 2 ^ 2" "(8::int) = 2 ^ 3" "(16::int) = 2 ^ 4" "(32::int) = 2 ^ 5"
    "(64::int) = 2 ^ 6" "(128::int) = 2 ^ 7" "(256::int) = 2 ^ 8" "(0x8000::int) = 2 ^ 15"
    by simp_all
  have b: "bit ((2::int) ^ k) n \<longleftrightarrow> n = k" for k
    by (auto simp: bit_exp_iff possible_bit_def)
  show "bit (1::int) n \<longleftrightarrow> n = 0" "bit (2::int) n \<longleftrightarrow> n = 1"
    using b [of 0] b [of 1] by simp_all
  show "bit (4::int) n \<longleftrightarrow> n = 2" "bit (8::int) n \<longleftrightarrow> n = 3" "bit (16::int) n \<longleftrightarrow> n = 4" "bit (32::int) n \<longleftrightarrow> n = 5"
    "bit (64::int) n \<longleftrightarrow> n = 6" "bit (128::int) n \<longleftrightarrow> n = 7" "bit (256::int) n \<longleftrightarrow> n = 8"
    "bit (0x8000::int) n \<longleftrightarrow> n = 15"
    unfolding e by (rule b)+
qed

lemma js_or_legal: "legal_mask x \<Longrightarrow> legal_mask y \<Longrightarrow> legal_mask (js_or x y)"
proof -
  assume l: "legal_mask x" "legal_mask y"
  then have "to_int32 x = x" "to_int32 y = y"
    by (auto simp: legal_mask_def intro!: to_int32_small)
  then show ?thesis
    using l by (simp add: legal_mask_bits js_or_def bit_or_iff)
qed

lemma legal_not_8000:
  assumes "legal_mask b"
  shows "js_and b 0x8000 = 0"
proof -
  have "to_int32 b = b" "to_int32 0x8000 = 0x8000"
    using assms by (auto simp: legal_mask_def intro!: to_int32_small)
  moreover have "b AND 0x8000 = 0"
    using assms unfolding bit_eq_iff by (auto simp: bit_and_iff bit_small_numeral legal_mask_bits)
  ultimately show ?thesis
    by (simp add: js_and_def)
qed

lemma legal_higher:
  assumes "legal_mask b"
  shows "js_and (js_and (js_shr b 7) 0xff) 0xfc = 0"
proof -
  have b: "to_int32 b = b" and r: "0 \<le> b" "b < 512"
    using assms by (auto simp: legal_mask_def intro!: to_int32_small)
  then have d: "0 \<le> drop_bit 7 b" "drop_bit 7 b < 4"
    by (auto simp: drop_bit_eq_div)
  have "k \<in> {0, 1, 2, 3}" if "0 \<le> k" "k < 4" for k :: int
    using that by auto
  with d have "drop_bit 7 b \<in> {0, 1, 2, 3}"
    by blast
  moreover have "to_int32 (0xff) = 0xff" "to_int32 0xfc = 0xfc"
    by (simp_all add: to_int32_small)
  ultimately show ?thesis
    unfolding js_and_def js_shr_def b by (auto simp: to_int32_small)
qed

lemma extended_pointer:
  assumes "legal_mask b"
  shows "ends_flushed (extendedPointerEvent x y b)" "input_msg (msg_bytes (extendedPointerEvent x y b))"
proof -
  have e: "extendedPointerEvent x y b =
      [Push8 5, Push8 (js_or (js_and b 0x7f) 0x80), Push16 x, Push16 y, Push8 (js_and (js_shr b 7) 0xff), Flush]"
    by (simp add: extendedPointerEvent_def Let_def legal_higher [OF assms])
  show "ends_flushed (extendedPointerEvent x y b)"
    by (simp add: e ends_flushed_def)
  show "input_msg (msg_bytes (extendedPointerEvent x y b))"
    by (simp add: e input_msg_def js_byte_1 [unfolded One_nat_def] u8_of_bit js_or_bit bit_small_numeral)
qed

lemma convertButtonMask_legal: "legal_mask (convertButtonMask b)"
proof -
  have m: "legal_mask (buttonMaskMap i)" if "i < 5" for i
  proof -
    have "i \<in> {0, 1, 2, 3, 4}"
      using that by auto
    then show ?thesis
      by (auto simp: buttonMaskMap_def legal_mask_def js_shl_def to_int32_small)
  qed
  have "legal_mask (fold (\<lambda>i bmask. if js_and b (js_shl 1 i) \<noteq> 0 then js_or bmask (buttonMaskMap i) else bmask) is k)"
    if "legal_mask k" "\<forall>i\<in>set is. i < 5" for "is" k
    using that by (induction "is" arbitrary: k) (auto simp: m js_or_legal)
  then show ?thesis
    unfolding convertButtonMask_def by (simp add: legal_mask_def)
qed

lemma cut_text_msg: "length bs < 2 ^ 31 \<Longrightarrow> input_msg (msg_bytes (clientCutText bs ext))"
proof -
  assume l: "length bs < 2 ^ 31"
  have t: "take 1 (msg_bytes (clientCutText bs ext)) = [6]"
    by (simp add: clientCutText_def Let_def)
  show ?thesis
    using clientCutText_length_field [of bs ext] l
    unfolding input_msg_def t by (simp add: length_clientCutText)
qed

section \<open>The handlers\<close>

lemma emits_send_key: "fit r \<Longrightarrow> emits r (send_key keysym code down r)"
  unfolding send_key_def Let_def
  by (auto intro!: emits_ret emits_send simp: ends_flushed_simps keyEvent_msg QEMU_msg muted_def)

lemmas [emits_intros] = emits_linked [OF emits_send_key]

lemma emits_sendKey: "fit r \<Longrightarrow> emits r (sendKey keysym code down r)"
  unfolding sendKey_def by (auto intro!: emits_seqr emits_intros simp: link_defs split: option.split)

lemma emits_sendCtrlAltDel: "fit r \<Longrightarrow> emits r (sendCtrlAltDel r)"
  unfolding sendCtrlAltDel_def by (intro emits_seqr emits_if emits_intros) (simp_all add: link_defs)

lemma emits_handleKeyEvent: "fit r \<Longrightarrow> emits r (handleKeyEvent keysym code down numlock capslock r)"
  unfolding handleKeyEvent_def Let_def
  by (intro emits_seqr emits_if emits_intros) (simp_all add: link_defs)

lemmas [emits_intros] = emits_linked [OF emits_handleKeyEvent]

lemma emits_key_outs: "fit r \<Longrightarrow> emits r (key_outs outs r)"
  by (induction outs arbitrary: r) (auto intro!: emits_seqr emits_intros simp: link_defs)

lemmas [emits_intros] = emits_linked [OF emits_key_outs]

lemma emits_keyboard_event: "fit r \<Longrightarrow> emits r (keyboard_event os ev r)"
  unfolding keyboard_event_def
  by (cases "kb_step os ev (keyboard r)") (auto intro!: emits_intros simp: link_defs)

lemma length_code_points: "length (code_points str) \<le> length str"
  by (induction str rule: code_points.induct) auto

lemma flags_length: "length (buildExtendedClipboardFlags ac fs) = 4"
  by (simp add: buildExtendedClipboardFlags_def Let_def)

lemma emits_clipboardPasteFrom:
  assumes "fit r" "length str < 2 ^ 31"
  shows "emits r (clipboardPasteFrom str r)"
proof -
  have "length (latin1_bytes str) < 2 ^ 31"
    using length_code_points [of str] assms(2) by (simp add: latin1_bytes_def)
  then have "\<not> muted r \<Longrightarrow> emits r (send (clientCutText (latin1_bytes str) False) r)"
    by (intro emits_send ends_flushed_simps cut_text_msg assms(1))
  moreover have "input_msg (msg_bytes (extendedClipboardNotify [extendedClipboardFormatText]))"
    unfolding extendedClipboardNotify_def by (rule cut_text_msg) (simp add: flags_length)
  then have "\<not> muted r \<Longrightarrow>
      emits r (send (extendedClipboardNotify [extendedClipboardFormatText]) (r\<lparr>clipboardText := Some str\<rparr>))"
    using assms(1) by (intro emits_linked [OF emits_send] ends_flushed_simps) (simp_all add: link_defs)
  ultimately show ?thesis
    using assms(1) by (auto simp: clipboardPasteFrom_def muted_def intro: emits_ret)
qed

section \<open>The mouse\<close>

lemma emits_sendMouse: "fit r \<Longrightarrow> legal_mask bmask \<Longrightarrow> emits r (sendMouse x y bmask r)"
  unfolding sendMouse_def Let_def
  by (auto intro!: emits_ret emits_send extended_pointer pointer_msg ends_flushed_simps
      simp: legal_not_8000 muted_def)

lemmas [emits_intros] = emits_linked [OF emits_sendMouse]

lemma emits_flushMouseMoveTimer: "fit r \<Longrightarrow> emits r (flushMouseMoveTimer x y r)"
  unfolding flushMouseMoveTimer_def by (intro emits_seqr emits_if emits_intros) (simp_all add: link_defs)

lemmas [emits_intros] = emits_linked [OF emits_flushMouseMoveTimer]

lemma emits_handleMouseButton: "fit r \<Longrightarrow> legal_mask b \<Longrightarrow> emits r (handleMouseButton x y b r)"
  unfolding handleMouseButton_def Let_def by (intro emits_seqr emits_if emits_intros) (simp_all add: link_defs)

lemmas [emits_intros] = emits_linked [OF emits_handleMouseButton]

lemma emits_handleMouseMove: "fit r \<Longrightarrow> emits r (handleMouseMove x y r)"
  unfolding handleMouseMove_def mouse_moved_now_def Let_def
  by (intro emits_seqr emits_if emits_intros) (simp_all add: link_defs)

lemmas [emits_intros] = emits_linked [OF emits_handleMouseMove]

lemma emits_handleDelayedMouseMove: "fit r \<Longrightarrow> emits r (handleDelayedMouseMove r)"
  unfolding handleDelayedMouseMove_def mouse_moved_now_def Let_def
  by (intro emits_seqr emits_if emits_intros) (simp_all add: link_defs)

lemma drag_keeps [simp]:
  "conn (drag_viewport_to pos r) = conn r" "settings (drag_viewport_to pos r) = settings r"
  "sock (drag_viewport_to pos r) = sock r"
  "mouseButtonMask (mouse (drag_viewport_to pos r)) = mouseButtonMask (mouse r)"
  by (simp_all add: drag_viewport_to_def upd_mouse_def Let_def split: option.split)

lemma emits_handleMouse: "fit r \<Longrightarrow> emits r (handleMouse ev r)"
  unfolding handleMouse_def Let_def
  by (intro emits_seqr emits_if emits_intros convertButtonMask_legal) (simp_all add: link_defs convertButtonMask_legal)

section \<open>The wheel\<close>

lemma legal_masks [simp]:
  "legal_mask 0" "legal_mask 1" "legal_mask 2" "legal_mask 4" "legal_mask 8" "legal_mask 16"
  "legal_mask 32" "legal_mask 64"
  by (simp_all add: legal_mask_def)

lemma wheel_buttons: "js_shl 1 3 = 8" "js_shl 1 4 = 16" "js_shl 1 5 = 32" "js_shl 1 6 = 64"
  by (simp_all add: js_shl_def to_int32_small)

lemma emits_wheel_step: "fit r \<Longrightarrow> legal_mask b \<Longrightarrow> legal_mask k \<Longrightarrow> emits r (wheel_step pos b k r)"
  unfolding wheel_step_def by (intro emits_seqr emits_if emits_intros js_or_legal) (simp_all add: link_defs)

lemmas [emits_intros] = emits_linked [OF emits_wheel_step]

lemma emits_wheel_axis:
  assumes "fit r" "legal_mask b" "legal_mask k" "legal_mask l"
    "\<And>m v. mouseButtonMask (set_acc v m) = mouseButtonMask m"
  shows "emits r (wheel_axis acc set_acc k l pos b r)"
  unfolding wheel_axis_def using assms
  by (auto intro!: emits_seqr emits_intros simp: link_defs)

lemmas [emits_intros] = emits_linked [OF emits_wheel_axis]

lemma emits_handleWheel: "fit r \<Longrightarrow> emits r (handleWheel ev r)"
  unfolding handleWheel_def Let_def wheel_buttons
  by (intro emits_seqr emits_if emits_intros convertButtonMask_legal) (simp_all add: link_defs convertButtonMask_legal)

section \<open>Gestures\<close>

lemma emits_fakeMouseMove: "fit r \<Longrightarrow> emits r (fakeMouseMove ev pos r)"
  unfolding fakeMouseMove_def cursor_call_def
  by (intro emits_seqr emits_intros) (simp_all add: link_defs)

lemmas [emits_intros] = emits_linked [OF emits_fakeMouseMove]

lemma emits_handleTapEvent: "fit r \<Longrightarrow> legal_mask b \<Longrightarrow> emits r (handleTapEvent ev b r)"
  unfolding handleTapEvent_def Let_def split_def
  by (intro emits_seqr emits_intros) (simp_all add: link_defs)

lemmas [emits_intros] = emits_linked [OF emits_handleTapEvent]

lemma emits_click_at: "fit r \<Longrightarrow> legal_mask b \<Longrightarrow> emits r (click_at pos b r)"
  unfolding click_at_def by (intro emits_seqr emits_intros) (simp_all add: link_defs)

lemmas [emits_intros] = emits_linked [OF emits_click_at]

text \<open>A click leaves of the mouse what it was, but for the buttons and the timer.\<close>

definition idle :: "mouse \<Rightarrow> mouse" where
  "idle m = m\<lparr>mouseMoveTimer := None, mouseButtonMask := 0\<rparr>"

lemma send_ret_mouse: "send m r = ret () r' \<Longrightarrow> mouse r' = mouse r"
  by (auto simp: send_def ret_def split: option.splits prod.splits)

lemma sendMouse_ret: "sendMouse x y b r = ret () r' \<Longrightarrow> mouse r' = mouse r"
  by (auto simp: sendMouse_def Let_def ret_def raise_def split: if_splits dest: send_ret_mouse [unfolded ret_def])

lemma seqr_ret_D:
  assumes "seqr m f = ret () r'"
  shows "\<exists>x r1. m = ret x r1 \<and> f x r1 = ret () r'"
proof (cases m)
  case None
  then show ?thesis
    using assms by (simp add: seqr_def ret_def)
next
  case (Some p)
  then obtain q r1 where "m = Some (q, r1)"
    by (cases p) simp
  then show ?thesis
    using assms by (cases q) (simp_all add: seqr_def ret_def)
qed

lemma handleMouseButton_ret:
  assumes "handleMouseButton x y b r = ret () r'"
  shows "mouse r' = (mouse r)\<lparr>mouseMoveTimer := None, mouseButtonMask := b\<rparr>"
proof -
  obtain r1 where r1: "flushMouseMoveTimer x y r = ret () r1"
    "sendMouse x y b (upd_mouse (\<lambda>m. m\<lparr>mouseButtonMask := b\<rparr>) r1) = ret () r'"
    using seqr_ret_D [OF assms [unfolded handleMouseButton_def Let_def]] by (auto simp: upd_mouse_def)
  have "mouse r1 = (mouse r)\<lparr>mouseMoveTimer := None\<rparr>"
  proof (cases "mouseMoveTimer (mouse r) = None")
    case True
    then show ?thesis
      using r1(1) by (simp add: flushMouseMoveTimer_def ret_def)
  next
    case False
    then have "sendMouse x y (mouseButtonMask (mouse r)) (upd_mouse (\<lambda>m. m\<lparr>mouseMoveTimer := None\<rparr>) r) = ret () r1"
      using r1(1) by (simp add: flushMouseMoveTimer_def)
    from sendMouse_ret [OF this] show ?thesis
      by (simp add: upd_mouse_def)
  qed
  then show ?thesis
    using sendMouse_ret [OF r1(2)] by (simp add: upd_mouse_def)
qed

lemma click_at_ret: "click_at pos b r = ret () r' \<Longrightarrow> mouse r' = idle (mouse r)"
  unfolding click_at_def
  by (drule seqr_ret_D) (auto dest!: handleMouseButton_ret simp: idle_def)

text \<open>
  What the loops of a gesture need of the field they step: a value that reads back, that clicks do
  not change, and that is no part of the button mask.
\<close>

locale stepped =
  fixes get_last :: "mouse \<Rightarrow> real" and set_last :: "real \<Rightarrow> mouse \<Rightarrow> mouse"
  assumes get_set: "get_last (set_last v m) = v"
    and set_mask: "mouseButtonMask (set_last v m) = mouseButtonMask m"
    and set_timer: "mouseMoveTimer (set_last v m) = mouseMoveTimer m"
    and get_idle: "get_last (idle m) = get_last m"
begin

lemma step_emits:
  fixes r :: "'d rfb"
  assumes "fit r" "legal_mask b"
    "\<And>r1. fit r1 \<Longrightarrow> get_last (mouse r1) = get_last (mouse r) + v \<Longrightarrow> emits r1 (f r1)"
  shows "emits r (seqr (click_at pos b r) (\<lambda>_ r. f (upd_mouse (\<lambda>m. set_last (get_last m + v) m) r)))"
proof (rule emits_then [OF emits_click_at [OF assms(1,2)]])
  fix r1 :: "'d rfb"
  let ?r = "upd_mouse (\<lambda>m. set_last (get_last m + v) m) r1"
  assume "click_at pos b r = ret () r1" "fit r1"
  then have "fit ?r" "get_last (mouse ?r) = get_last (mouse r) + v"
    by (simp_all add: link_defs click_at_ret get_set set_mask get_idle)
  then show "emits r1 (f ?r)"
    by (intro emits_linked [OF assms(3)]) (simp_all add: linked_def same_link_def upd_mouse_def)
qed

lemma scroll_up_emits:
  assumes "fit r" "legal_mask b" "0 < sens" "magnitude - get_last (mouse r) \<le> sens * real (Suc n)"
  shows "emits r (scroll_up get_last set_last pos b sens magnitude r)"
  using assms(1,4)
proof (induction n arbitrary: r)
  case 0
  then show ?case
    by (subst scroll_up.simps) (simp add: emits_ret)
next
  case (Suc n)
  have "emits r (seqr (click_at pos b r)
      (\<lambda>_ r. scroll_up get_last set_last pos b sens magnitude (upd_mouse (\<lambda>m. set_last (get_last m + sens) m) r)))"
    by (rule step_emits [OF Suc.prems(1) assms(2)])
      (rule Suc.IH, assumption, use Suc.prems(2) in \<open>simp add: algebra_simps\<close>)
  then show ?case
    by (subst scroll_up.simps) (simp add: emits_ret Suc.prems(1))
qed

lemma scroll_down_emits:
  assumes "fit r" "legal_mask b" "0 < sens" "get_last (mouse r) - magnitude \<le> sens * real (Suc n)"
  shows "emits r (scroll_down get_last set_last pos b sens magnitude r)"
  using assms(1,4)
proof (induction n arbitrary: r)
  case 0
  then show ?case
    by (subst scroll_down.simps) (simp add: emits_ret)
next
  case (Suc n)
  have "emits r (seqr (click_at pos b r)
      (\<lambda>_ r. scroll_down get_last set_last pos b sens magnitude (upd_mouse (\<lambda>m. set_last (get_last m + - sens) m) r)))"
    by (rule step_emits [OF Suc.prems(1) assms(2)])
      (rule Suc.IH, assumption, use Suc.prems(2) in \<open>simp add: algebra_simps\<close>)
  then show ?case
    by (subst scroll_down.simps) (simp add: emits_ret Suc.prems(1))
qed

lemma scroll_both_emits:
  assumes "fit r" "legal_mask b" "legal_mask c" "0 < sens"
  shows "emits r (scroll_both get_last set_last pos b c sens magnitude r)"
proof -
  have bound: "\<exists>n. x \<le> sens * real (Suc n)" for x :: real
  proof -
    obtain n where "x / sens < real n"
      using reals_Archimedean2 by blast
    then have "x \<le> sens * real (Suc n)"
      using assms(4) by (simp add: field_simps)
    then show ?thesis ..
  qed
  have up: "emits r' (scroll_up get_last set_last pos b sens magnitude r')" if "fit r'" for r' :: "'a rfb"
    using bound scroll_up_emits [OF that assms(2,4)] by blast
  have down: "emits r' (scroll_down get_last set_last pos c sens magnitude r')" if "fit r'" for r' :: "'a rfb"
    using bound scroll_down_emits [OF that assms(3,4)] by blast
  show ?thesis
    unfolding scroll_both_def by (rule emits_seqr [OF up [OF assms(1)] down])
qed

end

interpretation mag_x: stepped gestureLastMagnitudeX set_mX
  by unfold_locales (simp_all add: idle_def)

interpretation mag_y: stepped gestureLastMagnitudeY set_mY
  by unfold_locales (simp_all add: idle_def)

lemmas [emits_intros] = emits_linked [OF mag_x.scroll_both_emits] emits_linked [OF mag_y.scroll_both_emits]

lemma emits_two_drag: "fit r \<Longrightarrow> emits r (two_drag ev pos r)"
  unfolding two_drag_def by (intro emits_seqr emits_intros) (simp_all add: link_defs)

lemma emits_pinch: "fit r \<Longrightarrow> emits r (pinch ev pos r)"
  unfolding pinch_def Let_def by (intro emits_seqr emits_if emits_intros) (simp_all add: link_defs)

lemmas [emits_intros] = emits_linked [OF emits_two_drag] emits_linked [OF emits_pinch]

lemma emits_handleGesture: "fit r \<Longrightarrow> emits r (handleGesture ev r)"
  unfolding handleGesture_def gesture_start_def gesture_move_def gesture_end_def Let_def
  by (intro emits_seqr emits_if emits_intros) (simp_all add: link_defs)

section \<open>What exactly is sent\<close>

text \<open>\<open>m\<close> sends the bytes \<open>bs\<close> and otherwise turns the object into \<open>g\<close> of what it was.\<close>

definition tells :: "'d rfb \<Rightarrow> byte list \<Rightarrow> ('d rfb \<Rightarrow> 'd rfb) \<Rightarrow> (unit, 'd rfb) res \<Rightarrow> bool" where
  "tells r bs g m = (\<exists>s'. m = ret () ((g r)\<lparr>sock := s'\<rparr>) \<and> sends (sock r) bs s' \<and> sQ s' = [])"

definition eager :: "'d rfb \<Rightarrow> bool" where
  "eager r = (fit r \<and> \<not> muted r)"

lemma tells_send: "ends_flushed m \<Longrightarrow> eager r \<Longrightarrow> tells r (msg_bytes m) (\<lambda>r. r) (send m r)"
proof -
  assume m: "ends_flushed m" and r: "eager r"
  obtain s' where s': "sq_exec m (sock r) = Some (Inr (), s')" "sends (sock r) (msg_bytes m) s'" "sQ s' = []"
    using sq_exec_flushed [OF m] r by (auto simp: eager_def fit_def)
  moreover have "send m r = ret () (r\<lparr>sock := s'\<rparr>)"
    using s'(1) by (simp add: send_def ret_def)
  ultimately show ?thesis
    unfolding tells_def by blast
qed

text \<open>A fact about a sequence of two, and about an assignment that comes first or last.\<close>

lemma tells_seqr:
  assumes "tells r bs g m"
    and "\<And>s'. sends (sock r) bs s' \<Longrightarrow> sQ s' = [] \<Longrightarrow>
      tells ((g r)\<lparr>sock := s'\<rparr>) cs h (f () ((g r)\<lparr>sock := s'\<rparr>))"
    and "\<And>s'. h ((g r)\<lparr>sock := s'\<rparr>) = (h (g r))\<lparr>sock := s'\<rparr>"
  shows "tells r (bs @ cs) (\<lambda>r. h (g r)) (seqr m f)"
proof -
  obtain s1 where s1: "m = ret () ((g r)\<lparr>sock := s1\<rparr>)" "sends (sock r) bs s1" "sQ s1 = []"
    using assms(1) by (auto simp: tells_def)
  obtain s2 where s2: "f () ((g r)\<lparr>sock := s1\<rparr>) = ret () ((h ((g r)\<lparr>sock := s1\<rparr>))\<lparr>sock := s2\<rparr>)"
    "sends s1 cs s2" "sQ s2 = []"
    using assms(2) [OF s1(2,3)] by (auto simp: tells_def)
  show ?thesis
    unfolding tells_def using s1(1) s2 sends_trans [OF s1(2) s2(2)] by (auto simp: assms(3))
qed

lemma tells_first: "tells (g r) bs h m \<Longrightarrow> sock (g r) = sock r \<Longrightarrow> tells r bs (\<lambda>r. h (g r)) m"
  by (simp add: tells_def)

lemma sendMouse_tells:
  assumes "eager r" "legal_mask b" "js_and b 0x7f80 = 0"
  shows "tells r (msg_bytes (pointerEvent (absX x (disp r)) (absY y (disp r)) b)) (\<lambda>r. r) (sendMouse x y b r)"
  using assms tells_send [OF ends_flushed_simps(3)]
  by (simp add: sendMouse_def Let_def eager_def muted_def legal_not_8000)

lemma handleMouseButton_tells:
  assumes "eager r" "legal_mask b" "js_and b 0x7f80 = 0" "mouseMoveTimer (mouse r) = None"
  shows "tells r (msg_bytes (pointerEvent (absX x (disp r)) (absY y (disp r)) b))
    (upd_mouse (\<lambda>m. m\<lparr>mouseButtonMask := b\<rparr>)) (handleMouseButton x y b r)"
proof -
  let ?r = "upd_mouse (\<lambda>m. m\<lparr>mouseButtonMask := b\<rparr>) r"
  have "fit r" "\<not> muted r"
    using assms(1) by (simp_all add: eager_def)
  then have "eager ?r" "disp ?r = disp r" "sock ?r = sock r"
    using assms(2) by (simp_all add: eager_def fit_def muted_def upd_mouse_def)
  then have "tells ?r (msg_bytes (pointerEvent (absX x (disp r)) (absY y (disp r)) b)) (\<lambda>r. r) (sendMouse x y b ?r)"
    using sendMouse_tells [of ?r b x y] assms(2,3) by metis
  then have "tells r (msg_bytes (pointerEvent (absX x (disp r)) (absY y (disp r)) b))
      (upd_mouse (\<lambda>m. m\<lparr>mouseButtonMask := b\<rparr>)) (sendMouse x y b ?r)"
    by (rule tells_first [where h = "\<lambda>r. r"]) (simp add: upd_mouse_def)
  then show ?thesis
    using assms(4) by (simp add: handleMouseButton_def flushMouseMoveTimer_def Let_def upd_mouse_def)
qed

definition click_bytes :: "rat \<times> rat \<Rightarrow> int \<Rightarrow> 'd rfb \<Rightarrow> byte list" where
  "click_bytes pos b r =
     msg_bytes (pointerEvent (absX (fst pos) (disp r)) (absY (snd pos) (disp r)) b)
     @ msg_bytes (pointerEvent (absX (fst pos) (disp r)) (absY (snd pos) (disp r)) 0)"

lemma click_at_tells:
  assumes "eager r" "legal_mask b" "js_and b 0x7f80 = 0" "mouseMoveTimer (mouse r) = None"
  shows "tells r (click_bytes pos b r) (upd_mouse (\<lambda>m. m\<lparr>mouseButtonMask := 0\<rparr>)) (click_at pos b r)"
proof -
  let ?g = "\<lambda>b. upd_mouse (\<lambda>m. m\<lparr>mouseButtonMask := b\<rparr>)"
  have e: "(\<lambda>r. ?g 0 (?g b r)) = (?g 0 :: 'a rfb \<Rightarrow> 'a rfb)"
    by (simp add: upd_mouse_def fun_eq_iff)
  have "tells r (click_bytes pos b r) (\<lambda>r. ?g 0 (?g b r)) (click_at pos b r)"
    unfolding click_at_def click_bytes_def
  proof (rule tells_seqr [OF handleMouseButton_tells [OF assms]])
    fix s'
    let ?r = "(?g b r)\<lparr>sock := s'\<rparr>"
    assume s: "sends (sock r) (msg_bytes (pointerEvent (absX (fst pos) (disp r)) (absY (snd pos) (disp r)) b)) s'"
      "sQ s' = []"
    have "eager ?r"
      using assms(1,2) s sends_ready [OF s(1)] by (simp add: eager_def link_defs)
    then show "tells ?r (msg_bytes (pointerEvent (absX (fst pos) (disp r)) (absY (snd pos) (disp r)) 0))
        (?g 0) (handleMouseButton (fst pos) (snd pos) 0 ?r)"
      using handleMouseButton_tells [of ?r 0 "fst pos" "snd pos"] assms(4)
      by (simp add: upd_mouse_def js_and_def to_int32_def)
  qed (simp add: upd_mouse_def)
  then show ?thesis
    unfolding e .
qed

context stepped begin

lemma step_up_tells:
  assumes "eager r" "legal_mask b" "js_and b 0x7f80 = 0" "mouseMoveTimer (mouse r) = None"
    and "sens < magnitude - get_last (mouse r)"
  obtains r1 where "scroll_up get_last set_last pos b sens magnitude r = scroll_up get_last set_last pos b sens magnitude r1"
    "eager r1" "mouseMoveTimer (mouse r1) = None" "get_last (mouse r1) = get_last (mouse r) + sens"
    "disp r1 = disp r" "sends (sock r) (click_bytes pos b r) (sock r1)"
proof -
  let ?r0 = "upd_mouse (\<lambda>m. m\<lparr>mouseButtonMask := 0\<rparr>) r"
  have m: "mouse ?r0 = idle (mouse r)"
    using assms(4) by (simp add: upd_mouse_def idle_def)
  obtain s' where s': "click_at pos b r = ret () (?r0\<lparr>sock := s'\<rparr>)" "sends (sock r) (click_bytes pos b r) s'" "sQ s' = []"
    using click_at_tells [OF assms(1-4)] unfolding tells_def by blast
  let ?r1 = "upd_mouse (\<lambda>m. set_last (get_last m + sens) m) (?r0\<lparr>sock := s'\<rparr>)"
  have "scroll_up get_last set_last pos b sens magnitude r = scroll_up get_last set_last pos b sens magnitude ?r1"
    by (subst (1) scroll_up.simps) (simp add: assms(5) s'(1))
  moreover have "eager ?r1" "mouseMoveTimer (mouse ?r1) = None" "get_last (mouse ?r1) = get_last (mouse r) + sens"
    using assms(1,4) sends_ready [OF s'(2)] s'(3) m
    by (simp_all add: eager_def link_defs set_mask set_timer get_set get_idle) (simp_all add: idle_def)
  ultimately show thesis
    using s'(2) by (intro that [of ?r1]) (simp_all add: upd_mouse_def)
qed

lemma scroll_up_clicks:
  assumes "eager r" "legal_mask b" "js_and b 0x7f80 = 0" "mouseMoveTimer (mouse r) = None"
    and "magnitude - get_last (mouse r) \<le> sens * real (Suc n)"
    and "n = 0 \<or> sens * real n < magnitude - get_last (mouse r)" and "0 < sens"
  shows "\<exists>r'. scroll_up get_last set_last pos b sens magnitude r = ret () r'
    \<and> sends (sock r) (concat (replicate n (click_bytes pos b r))) (sock r')
    \<and> get_last (mouse r') = get_last (mouse r) + sens * real n"
  using assms(1,4-6)
proof (induction n arbitrary: r)
  case 0
  then have "scroll_up get_last set_last pos b sens magnitude r = ret () r"
    by (subst scroll_up.simps) simp
  then show ?case
    using 0 by (auto simp: eager_def fit_def intro: sends_refl)
next
  case (Suc n)
  have "sens * 1 \<le> sens * real (Suc n)"
    using assms(7) by (intro mult_left_mono) simp_all
  then have "sens < magnitude - get_last (mouse r)"
    using Suc.prems(4) by simp
  then obtain r1 where r1: "scroll_up get_last set_last pos b sens magnitude r = scroll_up get_last set_last pos b sens magnitude r1"
    "eager r1" "mouseMoveTimer (mouse r1) = None" "get_last (mouse r1) = get_last (mouse r) + sens"
    "disp r1 = disp r" "sends (sock r) (click_bytes pos b r) (sock r1)"
    using step_up_tells [OF Suc.prems(1) assms(2,3) Suc.prems(2)] by metis
  have c: "click_bytes pos b r1 = click_bytes pos b r"
    by (simp add: click_bytes_def r1(5))
  have "magnitude - get_last (mouse r1) \<le> sens * real (Suc n)"
    "n = 0 \<or> sens * real n < magnitude - get_last (mouse r1)"
    using Suc.prems(3,4) by (simp_all add: r1(4) distrib_left)
  from Suc.IH [OF r1(2,3) this] obtain r' where
    r': "scroll_up get_last set_last pos b sens magnitude r1 = ret () r'"
    "sends (sock r1) (concat (replicate n (click_bytes pos b r1))) (sock r')"
    "get_last (mouse r') = get_last (mouse r1) + sens * real n"
    by blast
  have "sends (sock r) (concat (replicate (Suc n) (click_bytes pos b r))) (sock r')"
    using sends_trans [OF r1(6) r'(2)] by (simp add: c)
  moreover have "get_last (mouse r') = get_last (mouse r) + sens * real (Suc n)"
    by (simp add: r'(3) r1(4) distrib_left)
  ultimately show ?case
    unfolding r1(1) using r'(1) by blast
qed

end

section \<open>Keys that are released behind the server's back\<close>

text \<open>The events of \<open>ungrab\<close> come to nothing while the object is muted.\<close>

definition plain_out :: "key_out \<Rightarrow> bool" where
  "plain_out ev = ((ko_numlock ev = None \<and> ko_capslock ev = None \<or> \<not> ko_down ev)
     \<and> (ko_down ev \<longrightarrow> ko_code ev \<noteq> ''CapsLock'' \<and> ko_code ev \<noteq> ''NumLock''))"

lemma plain_out_muted:
  assumes "muted r" "plain_out ev"
  shows "handleKeyEvent (ko_keysym ev) (ko_code ev) (ko_down ev) (Some (ko_numlock ev)) (Some (ko_capslock ev)) r = ret () r"
proof -
  have "send_key k c d r = ret () r" for k c d
    using assms(1) by (simp add: send_key_def muted_def)
  then show ?thesis
    using assms(2) by (cases "ko_down ev") (simp_all add: plain_out_def handleKeyEvent_def lock_differs_def)
qed

lemma plain_outs_muted: "muted r \<Longrightarrow> list_all plain_out outs \<Longrightarrow> key_outs outs r = ret () r"
  by (induction outs) (simp_all add: plain_out_muted)

lemma ungrab_plain: "list_all plain_out (snd (ungrab kb))"
proof -
  have s: "list_all plain_out (snd (sendKeyEvent k c False None None kb))" for k c kb
    by (simp add: sendKeyEvent_def plain_out_def Let_def)
  have f: "list_all plain_out (snd (fold (\<lambda>(code, keysym) p. then_key p (sendKeyEvent keysym code False None None)) ps p))"
    if "list_all plain_out (snd p)" for ps p
    using that
  proof (induction ps arbitrary: p)
    case (Cons q ps)
    have "list_all plain_out (snd (then_key p (sendKeyEvent k c False None None)))" for k c
      using Cons.prems s [of k c "fst p"] by (cases p) (simp add: then_key_def split_def)
    then show ?case
      using Cons.IH by (cases q) simp
  qed simp
  have i: "list_all plain_out (snd (interruptAltGrSequence kb))" for kb
    by (simp add: interruptAltGrSequence_def sendKeyEvent_def plain_out_def Let_def)
  show ?thesis
    unfolding ungrab_def allKeysUp_def using f [OF i] by (simp add: split_def)
qed

lemma keyboard_ungrab_muted:
  "muted r \<Longrightarrow> key_outs (snd (ungrab (keyboard r))) (keyboard_ungrab r) = ret () (keyboard_ungrab r)"
  by (rule plain_outs_muted) (simp_all add: ungrab_plain keyboard_ungrab_def muted_def)

text \<open>Making an object view-only clears its list of pressed keys and tells the server nothing.\<close>

lemma view_only_forgets_keys:
  assumes "conn r = Conn_connected" "distinct (map fst (keyDownList (keyboard r)))"
  shows "keyDownList (keyboard (set_viewOnly True r)) = []" "sock (set_viewOnly True r) = sock r"
  using assms allKeysUp_releases [of "(keyboard r)\<lparr>grabbed := False\<rparr>"]
  by (simp_all add: set_viewOnly_def keyboard_ungrab_def ungrab_def Let_def)

text \<open>\<open>pinch\<close> leaves out the lock states: if the server's is known, a press and a release of Caps Lock
  go ahead of the Control key.\<close>

lemma pinch_toggles_caps_lock:
  assumes "eager r" "remoteCapsLock r = Some b" "remoteNumLock r = None" "\<not> qemuExtKeyEventSupported r"
  shows "tells r (msg_bytes (keyEvent XK_Caps_Lock 1) @ msg_bytes (keyEvent XK_Caps_Lock 0)
      @ msg_bytes (keyEvent XK_Control_L 1)) (\<lambda>r. r\<lparr>remoteCapsLock := None\<rparr>)
    (handleKeyEvent (Some XK_Control_L) ''ControlLeft'' True None None r)"
proof -
  have key: "tells r (msg_bytes (keyEvent k (if d then 1 else 0))) (\<lambda>r. r) (send_key (Some k) c d r)"
    if "eager r" "\<not> qemuExtKeyEventSupported r" "k \<noteq> 0" for r :: "'a rfb" and k c d
    using tells_send [OF ends_flushed_simps(1) that(1)] that
    by (simp add: send_key_def Let_def js_truthy_def eager_def muted_def)
  have link: "eager (r\<lparr>sock := s'\<rparr>)" if "eager r" "sends (sock r) bs s'" "sQ s' = []" for r :: "'a rfb" and bs s'
    using that sends_ready [OF that(2)] by (auto simp: eager_def link_defs)
  let ?k1 = "msg_bytes (keyEvent XK_Caps_Lock 1)" and ?k2 = "msg_bytes (keyEvent XK_Caps_Lock 0)"
  let ?k3 = "msg_bytes (keyEvent XK_Control_L 1)"
  obtain s1 where s1: "send_key (Some XK_Caps_Lock) ''CapsLock'' True r = ret () (r\<lparr>sock := s1\<rparr>)"
    "sends (sock r) ?k1 s1" "sQ s1 = []"
    using key [OF assms(1,4), where k = XK_Caps_Lock and c = "''CapsLock''" and d = True] by (auto simp: tells_def)
  let ?r1 = "r\<lparr>sock := s1\<rparr>"
  have r1: "eager ?r1"
    by (rule link [OF assms(1) s1(2,3)])
  obtain s2 where s2: "send_key (Some XK_Caps_Lock) ''CapsLock'' False ?r1 = ret () (r\<lparr>sock := s2\<rparr>)"
    "sends s1 ?k2 s2" "sQ s2 = []"
    using key [OF r1, where k = XK_Caps_Lock and c = "''CapsLock''" and d = False] assms(4) by (auto simp: tells_def)
  have o: "r\<lparr>sock := x, remoteCapsLock := None\<rparr> = r\<lparr>remoteCapsLock := None, sock := x\<rparr>" for x
    by (cases r) simp
  let ?r2 = "r\<lparr>remoteCapsLock := None, sock := s2\<rparr>"
  have r2: "eager ?r2"
    using assms(1) s2(3) sends_ready [OF s2(2)] by (simp add: eager_def link_defs)
  obtain s3 where s3: "send_key (Some XK_Control_L) ''ControlLeft'' True ?r2 = ret () (r\<lparr>remoteCapsLock := None, sock := s3\<rparr>)"
    "sends s2 ?k3 s3" "sQ s3 = []"
    using key [OF r2, where k = XK_Control_L and c = "''ControlLeft''" and d = True] assms(4) by (auto simp: tells_def)
  have "handleKeyEvent (Some XK_Control_L) ''ControlLeft'' True None None r
      = ret () ((r\<lparr>remoteCapsLock := None\<rparr>)\<lparr>sock := s3\<rparr>)"
    using s1(1) s2(1) s3(1) by (simp add: handleKeyEvent_def lock_differs_def assms(2,3) o)
  moreover have "sends (sock r) (?k1 @ ?k2 @ ?k3) s3"
    using sends_trans [OF s1(2) sends_trans [OF s2(2) s3(2)]] .
  ultimately show ?thesis
    using s3(3) unfolding tells_def by blast
qed

end
