(* ===== verification/Session.thy ===== *)
theory Session
  imports Normal Input
begin

text \<open>
  The object \<open>RFB\<close> as a whole: everything that can happen to it, one event at a time, in any order.

  An event is a callback of the browser (the socket, the display, timers, the input devices, the
  observer of the size) or a call of the page.  A callback that is not registered, or whose timer
  is not armed, does not run.  An exception ends its own callback only; a callback that does not
  return ends everything (\<open>None\<close>).
\<close>

datatype page_event =
    Received "byte list"
  | ChannelState sub_state
  | SocketOpened
  | SocketClosed
  | SocketErrored
  | DisconnectTimeout
  | Drawn draw_op
  | Flushed
  | AuthTimeout
  | ArdFinished
  | Ra2Credentials string
  | Ra2Finished "string option"
  | Key kb_event
  | MouseInput mouse_ev
  | MouseMoveTimeout
  | WheelInput wheel_ev
  | GestureInput gesture_ev
  | CanvasFocus
  | Resized
  | AnimationFrame
  | ResizeTimeout
  | ClockAt int
  | Geometry "int \<times> int" "rat \<times> rat" "rat \<times> rat \<times> rat \<times> rat"
  | CallSendKey "int option" string "bool option"
  | CallSendCtrlAltDel
  | CallClipboardPasteFrom jsstr
  | CallDisconnect
  | CallApproveServer
  | CallSendCredentials credentials
  | CallMachineShutdown
  | CallMachineReboot
  | CallMachineReset
  | CallFocus
  | SetViewOnly bool
  | SetDragViewport bool
  | SetFocusOnClick bool
  | SetClipViewport bool
  | SetScaleViewport bool
  | SetResizeSession bool
  | SetShowDotCursor bool
  | SetQualityLevel "int option"
  | SetCompressionLevel "int option"

text \<open>What the socket and the display report.\<close>

definition received :: "'z env \<Rightarrow> 'd decoder_table \<Rightarrow> byte list \<Rightarrow> 'd rfb \<Rightarrow> (unit, 'd rfb) res" where
  "received env dt bs r =
     (case recvMessage bs (sock r) of
        (Some e, _, s) \<Rightarrow> raise e (r\<lparr>sock := s\<rparr>)
      | (None, False, s) \<Rightarrow> ret () (r\<lparr>sock := s\<rparr>)
      | (None, True, s) \<Rightarrow> handleMessage env dt (r\<lparr>sock := s\<rparr>))"

definition hears :: "'d rfb \<Rightarrow> bool" where
  "hears r = (case websocket (sock r) of None \<Rightarrow> False | Some c \<Rightarrow> ch_listening c)"

definition channel_state :: "sub_state \<Rightarrow> 'd rfb \<Rightarrow> 'd rfb" where
  "channel_state st r =
     (case websocket (sock r) of
        None \<Rightarrow> r
      | Some c \<Rightarrow> r\<lparr>sock := (sock r)\<lparr>websocket := Some (c\<lparr>ch_state := st\<rparr>)\<rparr>\<rparr>)"

definition drawn :: "draw_op \<Rightarrow> 'd rfb \<Rightarrow> (unit, 'd rfb) res" where
  "drawn ev r =
     (if is_event ev then
        case dstep ev (disp r) of
          (None, d) \<Rightarrow> ret () (r\<lparr>disp := d\<rparr>)
        | (Some e, d) \<Rightarrow> raise e (r\<lparr>disp := d\<rparr>)
      else ret () r)"

definition on_canvas :: "string \<Rightarrow> ('d rfb \<Rightarrow> (unit, 'd rfb) res) \<Rightarrow> 'd rfb \<Rightarrow> (unit, 'd rfb) res" where
  "on_canvas l f r = (if l \<in> set (listeners (page r)) then f r else ret () r)"

definition is_armed :: "timer \<Rightarrow> bool" where
  "is_armed t = (case t of Some (b, _) \<Rightarrow> b | None \<Rightarrow> False)"

definition mouse_listener :: "mouse_type \<Rightarrow> string" where
  "mouse_listener t =
     (case t of MDown \<Rightarrow> ''mousedown handleMouse'' | MUp \<Rightarrow> ''mouseup handleMouse''
      | MMove \<Rightarrow> ''mousemove handleMouse'' | MClick \<Rightarrow> ''click handleMouse''
      | MContextMenu \<Rightarrow> ''contextmenu handleMouse'')"

definition upd_page :: "(page \<Rightarrow> page) \<Rightarrow> 'd rfb \<Rightarrow> 'd rfb" where
  "upd_page f r = r\<lparr>page := f (page r)\<rparr>"

definition upd_settings :: "(settings \<Rightarrow> settings) \<Rightarrow> 'd rfb \<Rightarrow> 'd rfb" where
  "upd_settings f r = r\<lparr>settings := f (settings r)\<rparr>"

text \<open>The listeners and the timer of the keyboard object.\<close>

fun key_hears :: "kb_event \<Rightarrow> keyboard \<Rightarrow> bool" where
  "key_hears AltGrTimeout kb = altGrArmed kb"
| "key_hears Grab kb = False"
| "key_hears Ungrab kb = False"
| "key_hears _ kb = grabbed kb"

text \<open>The timer of the remote resize: when it fires, its handle stays what it is.\<close>

definition fire_resize :: "'d rfb \<Rightarrow> 'd rfb" where
  "fire_resize r = r\<lparr>rsz := (rsz r)\<lparr>resizeTimeout := clear_timer (resizeTimeout (rsz r))\<rparr>\<rparr>"

fun rfb_step ::
    "'z env \<Rightarrow> 'd decoder_table \<Rightarrow> platform \<Rightarrow> page_event \<Rightarrow> 'd rfb \<Rightarrow> (unit, 'd rfb) res" where
  "rfb_step env dt os (Received bs) r = (if hears r then received env dt bs r else ret () r)"
| "rfb_step env dt os (ChannelState st) r = ret () (channel_state st r)"
| "rfb_step env dt os SocketOpened r = ret () (if handlers (sock r) EvOpen then socketOpen r else r)"
| "rfb_step env dt os SocketClosed r = ret () (if handlers (sock r) EvClose then socketClose r else r)"
| "rfb_step env dt os SocketErrored r = ret () (if handlers (sock r) EvError then socketError r else r)"
| "rfb_step env dt os DisconnectTimeout r = ret () (if disconnTimer r then disconnect_timeout r else r)"
| "rfb_step env dt os (Drawn ev) r = drawn ev r"
| "rfb_step env dt os Flushed r =
     (if flushing r \<and> \<not> flushPromise (disp r) then flush_done env dt r else ret () r)"
| "rfb_step env dt os AuthTimeout r =
     (if resumes (page r) = 0 then ret () r
      else resumed env (upd_page (\<lambda>p. p\<lparr>resumes := resumes p - 1\<rparr>) r))"
| "rfb_step env dt os ArdFinished r = ret () (ard_done r)"
| "rfb_step env dt os (Ra2Credentials ev) r = ret () (handleRSAAESEvent ev r)"
| "rfb_step env dt os (Ra2Finished err) r =
     ret () (if ra2_state (hs r) = None then r else ra2_end err r)"
| "rfb_step env dt os (Key ev) r =
     (if key_hears ev (keyboard r) then keyboard_event os ev r else ret () r)"
| "rfb_step env dt os (MouseInput ev) r = on_canvas (mouse_listener (me_type ev)) (handleMouse ev) r"
| "rfb_step env dt os MouseMoveTimeout r =
     (if is_armed (mouseMoveTimer (mouse r)) then handleDelayedMouseMove r else ret () r)"
| "rfb_step env dt os (WheelInput ev) r = on_canvas ''wheel handleWheel'' (handleWheel ev) r"
| "rfb_step env dt os (GestureInput ev) r =
     on_canvas (ge_type ev @ '' handleGesture'') (handleGesture ev) r"
| "rfb_step env dt os CanvasFocus r = on_canvas ''mousedown focusCanvas'' (\<lambda>r. ret () (focusCanvas r)) r"
| "rfb_step env dt os Resized r = (if observing (page r) then handleResize r else ret () r)"
| "rfb_step env dt os AnimationFrame r =
     ret () (if frames (page r) = 0 then r
             else animation_frame (upd_page (\<lambda>p. p\<lparr>frames := frames p - 1\<rparr>) r))"
| "rfb_step env dt os ResizeTimeout r =
     (if is_armed (resizeTimeout (rsz r)) then requestRemoteResize (fire_resize r) else ret () r)"
| "rfb_step env dt os (ClockAt t) r = ret () (upd_page (\<lambda>p. p\<lparr>now := t\<rparr>) r)"
| "rfb_step env dt os (Geometry cs sr cr) r =
     ret () (upd_page (\<lambda>p. p\<lparr>clientSize := cs, screenRect := sr, canvasRect := cr\<rparr>) r)"
| "rfb_step env dt os (CallSendKey k c d) r = sendKey k c d r"
| "rfb_step env dt os CallSendCtrlAltDel r = sendCtrlAltDel r"
| "rfb_step env dt os (CallClipboardPasteFrom str) r = clipboardPasteFrom str r"
| "rfb_step env dt os CallDisconnect r = ret () (disconnect r)"
| "rfb_step env dt os CallApproveServer r = ret () (approveServer r)"
| "rfb_step env dt os (CallSendCredentials creds) r = ret () (sendCredentials creds r)"
| "rfb_step env dt os CallMachineShutdown r = machineShutdown r"
| "rfb_step env dt os CallMachineReboot r = machineReboot r"
| "rfb_step env dt os CallMachineReset r = machineReset r"
| "rfb_step env dt os CallFocus r = ret () (focus r)"
| "rfb_step env dt os (SetViewOnly v) r = ret () (set_viewOnly v r)"
| "rfb_step env dt os (SetDragViewport v) r = ret () (upd_settings (\<lambda>s. s\<lparr>dragViewport := v\<rparr>) r)"
| "rfb_step env dt os (SetFocusOnClick v) r = ret () (upd_settings (\<lambda>s. s\<lparr>focusOnClick := v\<rparr>) r)"
| "rfb_step env dt os (SetClipViewport v) r = ret () (set_clipViewport_prop v r)"
| "rfb_step env dt os (SetScaleViewport v) r = ret () (set_scaleViewport v r)"
| "rfb_step env dt os (SetResizeSession v) r = set_resizeSession v r"
| "rfb_step env dt os (SetShowDotCursor v) r = ret () (set_showDotCursor v r)"
| "rfb_step env dt os (SetQualityLevel v) r = set_qualityLevel (supports_h264 env) v r"
| "rfb_step env dt os (SetCompressionLevel v) r = set_compressionLevel (supports_h264 env) v r"

fun rfb_run ::
    "'z env \<Rightarrow> 'd decoder_table \<Rightarrow> platform \<Rightarrow> page_event list \<Rightarrow> 'd rfb \<Rightarrow> 'd rfb option" where
  "rfb_run env dt os [] r = Some r"
| "rfb_run env dt os (ev # evs) r =
     (case rfb_step env dt os ev r of None \<Rightarrow> None | Some (_, r) \<Rightarrow> rfb_run env dt os evs r)"

end
