(* ===== verification/Lifecycle.thy ===== *)
theory Lifecycle
  imports Session
begin

text \<open>
  The connection of an \<open>RFB\<close> object over its whole life: what the page is told about it, and when.
\<close>

section \<open>The part of the state that the connection is\<close>

fun is_life :: "rfb_event \<Rightarrow> bool" where
  "is_life EvConnect = True"
| "is_life (EvDisconnect b) = True"
| "is_life _ = False"

record life =
  l_conn :: conn
  l_clean :: bool
  l_timer :: bool
  l_events :: "rfb_event list"

definition life :: "'d rfb \<Rightarrow> life" where
  "life r = \<lparr>l_conn = conn r, l_clean = cleanDisconnect r, l_timer = disconnTimer r,
     l_events = filter is_life (events r)\<rparr>"

text \<open>What \<open>_updateConnectionState\<close> does to it.\<close>

definition life_change :: "conn \<Rightarrow> life \<Rightarrow> life" where
  "life_change state l =
     (if state = l_conn l \<or> l_conn l = Conn_disconnected \<or> \<not> transition_ok (l_conn l) state then l
      else l\<lparr>l_conn := state, l_timer := (state = Conn_disconnecting),
             l_events := l_events l @
               (case state of Conn_connected \<Rightarrow> [EvConnect]
                | Conn_disconnected \<Rightarrow> [EvDisconnect (l_clean l)] | _ \<Rightarrow> [])\<rparr>)"

lemma life_upd [simp]:
  "life (r\<lparr>url := a1\<rparr>) = life r" "life (r\<lparr>rawChannel := a2\<rparr>) = life r"
  "life (r\<lparr>rfbCredentials := a3\<rparr>) = life r" "life (r\<lparr>hs := a4\<rparr>) = life r" "life (r\<lparr>xvpVer := a5\<rparr>) = life r"
  "life (r\<lparr>fbW := a6\<rparr>) = life r" "life (r\<lparr>fbH := a7\<rparr>) = life r" "life (r\<lparr>fbName := a8\<rparr>) = life r"
  "life (r\<lparr>fbDepth := a9\<rparr>) = life r" "life (r\<lparr>power := b1\<rparr>) = life r" "life (r\<lparr>supportsFence := b2\<rparr>) = life r"
  "life (r\<lparr>supportsContinuousUpdates := b3\<rparr>) = life r" "life (r\<lparr>enabledContinuousUpdates := b4\<rparr>) = life r"
  "life (r\<lparr>rsz := b5\<rparr>) = life r" "life (r\<lparr>qemuExtKeyEventSupported := b6\<rparr>) = life r"
  "life (r\<lparr>extendedPointerEventSupported := b7\<rparr>) = life r" "life (r\<lparr>clipboardText := b8\<rparr>) = life r"
  "life (r\<lparr>clipActions := b9\<rparr>) = life r" "life (r\<lparr>clipFormats := c1\<rparr>) = life r" "life (r\<lparr>sock := c2\<rparr>) = life r"
  "life (r\<lparr>disp := c3\<rparr>) = life r" "life (r\<lparr>flushing := c4\<rparr>) = life r" "life (r\<lparr>decoders := c5\<rparr>) = life r"
  "life (r\<lparr>FBU := c6\<rparr>) = life r" "life (r\<lparr>mouse := c7\<rparr>) = life r" "life (r\<lparr>settings := c8\<rparr>) = life r"
  "life (r\<lparr>keyboard := c9\<rparr>) = life r" "life (r\<lparr>remoteCapsLock := d1\<rparr>) = life r"
  "life (r\<lparr>remoteNumLock := d2\<rparr>) = life r" "life (r\<lparr>cursorImage := d3\<rparr>) = life r" "life (r\<lparr>page := d4\<rparr>) = life r"
  by (simp_all add: life_def)

lemma life_dispatch [simp]: "\<not> is_life ev \<Longrightarrow> life (dispatch ev r) = life r"
  by (simp add: life_def dispatch_def)

lemma life_disconnect_now: "life (disconnect_now r) = life r"
  by (simp add: disconnect_now_def cursor_call_def keyboard_ungrab_def Let_def)

lemma life_change_state: "life (change_state st r) = life_change st (life r)"
proof (cases "st = conn r \<or> conn r = Conn_disconnected \<or> \<not> transition_ok (conn r) st")
  case True
  then show ?thesis
    by (auto simp: change_state_def life_change_def life_def)
next
  case False
  have d: "conn (disconnect_now r) = conn r" "cleanDisconnect (disconnect_now r) = cleanDisconnect r"
    "events (disconnect_now r) = events r" "disconnTimer (disconnect_now r) = disconnTimer r" for r :: "'a rfb"
    using life_disconnect_now [of r]
    by (simp_all add: disconnect_now_def cursor_call_def keyboard_ungrab_def Let_def)
  show ?thesis
    using False by (cases st) (auto simp: change_state_def life_change_def life_def Let_def d dispatch_def transition_ok_def)
qed

lemma life_set_clean [simp]: "life (r\<lparr>cleanDisconnect := b\<rparr>) = (life r)\<lparr>l_clean := b\<rparr>"
  by (simp add: life_def)

text \<open>The calls that have nothing to do with it.\<close>

lemma life_get [simp]: "life (snd (get f r)) = life r"
  by (simp add: get_def split_def)

lemma life_skip [simp]: "life (skip n r) = life r"
  by (simp add: skip_def)

lemma life_goto [simp]: "life (goto st r) = life r" "life (set_scheme scheme r) = life r"
  "life (to_reason c k r) = life r" "life (vencrypt_at n r) = life r"
  by (simp_all add: goto_def set_scheme_def to_reason_def vencrypt_at_def)

lemma life_cursor [simp]: "life (cursor_call c r) = life r" "life (refreshCursor r) = life r"
  "life (updateCursor px hx hy w h r) = life r"
  by (simp_all add: cursor_call_def refreshCursor_def updateCursor_def Let_def)

lemma life_ungrab [simp]: "life (keyboard_ungrab r) = life r"
  by (simp add: keyboard_ungrab_def)

lemma life_names [simp]: "life (setCapability b r) = life r" "life (setDesktopName name r) = life r"
  by (simp_all add: setCapability_def setDesktopName_def)

lemma life_clip [simp]: "life (setClippingViewport b r) = life r" "life (saveExpectedClientSize r) = life r"
  "life (updateScale r) = life r"
  by (simp_all add: setClippingViewport_def saveExpectedClientSize_def updateScale_def split_def Let_def)

lemma life_updateClip [simp]: "life (updateClip r) = life r"
  by (simp add: updateClip_def Let_def split_def)

lemma life_frame [simp]: "life (animation_frame r) = life r"
  by (simp add: animation_frame_def)

lemma life_ra2 [simp]: "life (ra2_call c r) = life r"
  by (simp add: ra2_call_def split: option.split)

lemma life_api [simp]: "life (approveServer r) = life r" "life (resumeAuthentication r) = life r"
  "life (sendCredentials c r) = life r" "life (focus r) = life r" "life (focusCanvas r) = life r"
  "life (handleRSAAESEvent ev r) = life r"
  by (simp_all add: approveServer_def resumeAuthentication_def sendCredentials_def focus_def focusCanvas_def
      handleRSAAESEvent_def)

lemma life_ard [simp]: "life (ard_done r) = life r"
  by (simp add: ard_done_def split: list.split)

lemma life_setters [simp]: "life (set_viewOnly b r) = life r" "life (set_clipViewport_prop b r) = life r"
  "life (set_scaleViewport b r) = life r" "life (set_showDotCursor b r) = life r"
  by (simp_all add: set_viewOnly_def set_clipViewport_prop_def set_scaleViewport_def set_showDotCursor_def Let_def)

lemma life_mouse [simp]: "life (upd_mouse f r) = life r" "life (mouse_moved_now r) = life r"
  "life (drag_viewport_to pos r) = life r"
  by (simp_all add: upd_mouse_def mouse_moved_now_def drag_viewport_to_def Let_def split: option.split)

lemma life_env [simp]: "life (channel_state st r) = life r" "life (upd_page f r) = life r"
  "life (upd_settings g r) = life r" "life (fire_resize r) = life r"
  by (simp_all add: channel_state_def upd_page_def upd_settings_def fire_resize_def split: option.split)

lemma life_header [simp]: "life (read_rect_header r) = life r"
  by (simp add: read_rect_header_def Let_def split_def)

lemma life_read32s [simp]: "life (snd (read32s n r)) = life r"
  by (induction n arbitrary: r) (simp_all add: Let_def split_def)

lemma life_read_tunnels [simp]: "life (snd (read_tunnels n ts r)) = life r"
  by (induction n arbitrary: ts r) (simp_all add: Let_def split_def)

lemma life_read_auth_types [simp]: "life (snd (read_auth_types n r)) = life r"
  by (induction n arbitrary: r) (simp_all add: Let_def split_def)

lemma life_read_screens [simp]: "life (read_screens i n r) = life r"
  by (induction n arbitrary: i r) (simp_all add: Let_def split_def)

lemma life_fold: "(\<And>x r. life (f x r) = life r) \<Longrightarrow> life (fold f xs r) = life r"
  by (induction xs arbitrary: r) simp_all

section \<open>Laws of the connection\<close>

text \<open>
  A property of the connection that every transition keeps is kept by everything the object does:
  the only way to the connection are \<open>_updateConnectionState\<close> and \<open>_fail\<close>.
\<close>

locale life_law =
  fixes Q :: "life \<Rightarrow> bool"
  assumes change: "Q l \<Longrightarrow> Q (life_change st l)"
    and unclean: "Q l \<Longrightarrow> Q (l\<lparr>l_clean := False\<rparr>)"
begin

abbreviation K :: "'d rfb \<Rightarrow> bool" where
  "K r \<equiv> Q (life r)"

lemma K_change: "K r \<Longrightarrow> K (change_state st r)"
  by (simp add: life_change_state change)

lemma K_fail: "K r \<Longrightarrow> K (fail r)"
  by (simp add: fail_def life_change_state change unclean)

lemma K_failed [leaves_intros]: "K r \<Longrightarrow> leaves K (failed r)"
  by (simp add: failed_def K_fail)

subsection \<open>The methods in \<open>Rfb\<close>\<close>

lemma K_send [leaves_intros]: "K r \<Longrightarrow> leaves K (send m r)"
  by (auto simp: send_def split: option.split)

lemma K_resize [leaves_intros]:
  "K r \<Longrightarrow> leaves K (requestRemoteResize r)" "K r \<Longrightarrow> leaves K (updateContinuousUpdates r)"
  unfolding requestRemoteResize_def updateContinuousUpdates_def Let_def split_def
  by (intro leaves_intros; simp)+

lemma K_handleResize [leaves_intros]: "K r \<Longrightarrow> leaves K (handleResize r)"
  unfolding handleResize_def by (intro leaves_intros) simp_all

lemma K_resize_fb [leaves_intros]: "K r \<Longrightarrow> leaves K (resize_fb w h r)"
  unfolding resize_fb_def Let_def by (intro leaves_intros) simp_all

lemma K_sendEncodings [leaves_intros]: "K r \<Longrightarrow> leaves K (sendEncodings b r)"
  unfolding sendEncodings_def by (rule K_send)

lemma K_setters [leaves_intros]:
  "K r \<Longrightarrow> leaves K (set_resizeSession b r)" "K r \<Longrightarrow> leaves K (set_qualityLevel c v r)"
  "K r \<Longrightarrow> leaves K (set_compressionLevel c v r)"
  unfolding set_resizeSession_def set_qualityLevel_def set_compressionLevel_def Let_def
  by (intro leaves_intros; simp)+

lemma K_machine [leaves_intros]:
  "K r \<Longrightarrow> leaves K (machineShutdown r)" "K r \<Longrightarrow> leaves K (machineReboot r)" "K r \<Longrightarrow> leaves K (machineReset r)"
  unfolding machineShutdown_def machineReboot_def machineReset_def xvp_op_def
  by (intro leaves_intros; simp)+

lemma K_socket: "K r \<Longrightarrow> K (socketOpen r)" "K r \<Longrightarrow> K (socketClose r)" "K r \<Longrightarrow> K (disconnect_timeout r)"
  "K r \<Longrightarrow> K (disconnect r)" "K r \<Longrightarrow> K (ra2_end err r)"
  by (auto simp: socketOpen_def socketClose_def disconnect_timeout_def disconnect_def ra2_end_def Let_def
      K_fail K_change split: conn.split option.split)

lemma K_connect [leaves_intros]: "K r \<Longrightarrow> leaves K (connect r)"
proof -
  have c: "life (connect_page r) = life r" for r :: "'x rfb"
    by (simp add: connect_page_def Let_def)
  show "K r \<Longrightarrow> leaves K (connect r)"
    unfolding connect_def Let_def by (intro leaves_intros) (simp_all add: c K_socket)
qed

lemma K_updateConnectionState [leaves_intros]: "K r \<Longrightarrow> leaves K (updateConnectionState st r)"
  unfolding updateConnectionState_def Let_def by (intro leaves_intros) (simp_all add: K_change)

subsection \<open>The handshake\<close>

lemma K_wait_back [leaves_intros]: "K r \<Longrightarrow> leaves K (wait_back n k r)"
  unfolding wait_back_def by (intro leaves_intros) simp_all

lemma K_ask [leaves_intros]: "K r \<Longrightarrow> leaves K (ask ts r)"
  unfolding ask_def by (intro leaves_intros) simp_all

lemma K_negotiateProtocolVersion [leaves_intros]: "K r \<Longrightarrow> leaves K (negotiateProtocolVersion r)"
  unfolding negotiateProtocolVersion_def Let_def split_def by (intro leaves_intros) simp_all

lemma K_negotiateSecurity [leaves_intros]: "K r \<Longrightarrow> leaves K (negotiateSecurity r)"
  unfolding negotiateSecurity_def Let_def split_def by (intro leaves_intros) simp_all

lemma K_handleSecurityReason [leaves_intros]: "K r \<Longrightarrow> leaves K (handleSecurityReason r)"
  unfolding handleSecurityReason_def Let_def split_def by (intro leaves_intros) simp_all

lemma K_negotiateStdVNCAuth [leaves_intros]: "K r \<Longrightarrow> leaves K (negotiateStdVNCAuth r)"
  unfolding negotiateStdVNCAuth_def Let_def split_def by (intro leaves_intros) simp_all

lemma K_negotiateXvpAuth [leaves_intros]: "K r \<Longrightarrow> leaves K (negotiateXvpAuth r)"
  unfolding negotiateXvpAuth_def by (intro leaves_intros) simp_all

lemma K_vencrypt [leaves_intros]:
  "K r \<Longrightarrow> leaves K (vencrypt_version r)" "K r \<Longrightarrow> leaves K (vencrypt_ack r)"
  "K r \<Longrightarrow> leaves K (vencrypt_length r)" "K r \<Longrightarrow> leaves K (vencrypt_subtypes r)"
  unfolding vencrypt_version_def vencrypt_ack_def vencrypt_length_def vencrypt_subtypes_def Let_def split_def
  by (intro leaves_intros; simp add: K_fail)+

lemma K_negotiateVeNCryptAuth [leaves_intros]: "K r \<Longrightarrow> leaves K (negotiateVeNCryptAuth r)"
  unfolding negotiateVeNCryptAuth_def fall_through_def by (intro leaves_intros) simp_all

lemma K_negotiatePlainAuth [leaves_intros]: "K r \<Longrightarrow> leaves K (negotiatePlainAuth r)"
  unfolding negotiatePlainAuth_def by (intro leaves_intros) simp_all

lemma K_negotiateTightUnixAuth [leaves_intros]: "K r \<Longrightarrow> leaves K (negotiateTightUnixAuth r)"
  unfolding negotiateTightUnixAuth_def by (intro leaves_intros) simp_all

lemma K_negotiateARDAuth [leaves_intros]: "K r \<Longrightarrow> leaves K (negotiateARDAuth env r)"
  unfolding negotiateARDAuth_def Let_def prod.case_eq_if by (intro leaves_intros) simp_all

lemma K_tight [leaves_intros]:
  "K r \<Longrightarrow> leaves K (negotiateTightTunnels n r)" "K r \<Longrightarrow> leaves K (select_sub_auth ts r)"
  unfolding negotiateTightTunnels_def select_sub_auth_def Let_def split_def by (intro leaves_intros; simp)+

lemma K_tight_sub_auth [leaves_intros]: "K r \<Longrightarrow> leaves K (tight_sub_auth r)"
  unfolding tight_sub_auth_def Let_def split_def by (intro leaves_intros) simp_all

lemma K_negotiateTightAuth [leaves_intros]: "K r \<Longrightarrow> leaves K (negotiateTightAuth r)"
  unfolding negotiateTightAuth_def Let_def split_def by (intro leaves_intros) simp_all

lemma K_negotiateRA2neAuth [leaves_intros]: "K r \<Longrightarrow> leaves K (negotiateRA2neAuth r)"
  unfolding negotiateRA2neAuth_def Let_def by (intro leaves_intros) (simp split: option.split)

lemma K_negotiateMSLogonIIAuth [leaves_intros]: "K r \<Longrightarrow> leaves K (negotiateMSLogonIIAuth env r)"
  unfolding negotiateMSLogonIIAuth_def Let_def split_def by (intro leaves_intros) simp_all

lemma K_negotiateAuthentication [leaves_intros]: "K r \<Longrightarrow> leaves K (negotiateAuthentication env r)"
  unfolding negotiateAuthentication_def Let_def by (intro leaves_intros) simp_all

lemma K_handleSecurityResult [leaves_intros]: "K r \<Longrightarrow> leaves K (handleSecurityResult r)"
  unfolding handleSecurityResult_def Let_def split_def by (intro leaves_intros) simp_all

lemma K_server_init [leaves_intros]:
  "K r \<Longrightarrow> leaves K (tight_server_init n r)" "K r \<Longrightarrow> leaves K (start_session env nm w h r)"
  unfolding tight_server_init_def start_session_def Let_def split_def by (intro leaves_intros; simp)+

lemma K_negotiateServerInit [leaves_intros]: "K r \<Longrightarrow> leaves K (negotiateServerInit env r)"
  unfolding negotiateServerInit_def Let_def split_def by (intro leaves_intros) simp_all

lemma K_initMsg [leaves_intros]: "K r \<Longrightarrow> leaves K (initMsg env r)"
  unfolding initMsg_def
  by (cases "initState (hs r)"; simp only: init.case; intro leaves_intros; simp)

subsection \<open>The messages of the server\<close>

lemma K_format_sizes: "life (fold (\<lambda>i r. snd (get rQshift32 (r\<lparr>clipFormats := (clipFormats r)(js_shl 1 i := True)\<rparr>))) xs r) = life r"
  by (rule life_fold) simp

lemma K_cut_text_caps [leaves_intros]: "K r \<Longrightarrow> leaves K (cut_text_caps formats actions r)"
  unfolding cut_text_caps_def Let_def by (intro leaves_intros) (simp_all add: life_fold)

lemma K_send_provide [leaves_intros]: "K r \<Longrightarrow> leaves K (send_provide env fs ds r)"
  unfolding send_provide_def by (intro leaves_intros) simp_all

lemma K_cut_text [leaves_intros]:
  "K r \<Longrightarrow> leaves K (cut_text_request env formats r)" "K r \<Longrightarrow> leaves K (cut_text_peek r)"
  "K r \<Longrightarrow> leaves K (cut_text_notify formats r)" "K r \<Longrightarrow> leaves K (cut_text_provide env formats len r)"
  unfolding cut_text_request_def cut_text_peek_def cut_text_notify_def cut_text_provide_def Let_def prod.case_eq_if
  by (intro leaves_intros; simp)+

lemma K_handleServerCutText [leaves_intros]: "K r \<Longrightarrow> leaves K (handleServerCutText env r)"
  unfolding handleServerCutText_def cut_text_extended_def Let_def split_def by (intro leaves_intros) simp_all

lemma K_fence [leaves_intros]: "K r \<Longrightarrow> leaves K (handleServerFenceMsg r)" "K r \<Longrightarrow> leaves K (handleXvpMsg r)"
  unfolding handleServerFenceMsg_def handleXvpMsg_def Let_def split_def by (intro leaves_intros; simp add: K_fail)+

lemma K_cursor [leaves_intros]: "K r \<Longrightarrow> leaves K (handleVMwareCursor r)" "K r \<Longrightarrow> leaves K (handleCursor r)"
  unfolding handleVMwareCursor_def handleCursor_def Let_def split_def by (intro leaves_intros; simp)+

lemma K_pseudo [leaves_intros]: "K r \<Longrightarrow> leaves K (handleDesktopName r)" "K r \<Longrightarrow> leaves K (handleLedEvent r)"
  "K r \<Longrightarrow> leaves K (handleExtendedDesktopSize r)"
  unfolding handleDesktopName_def handleLedEvent_def handleExtendedDesktopSize_def Let_def split_def
  by (intro leaves_intros; simp)+

lemma K_handleRect [leaves_intros]: "K r \<Longrightarrow> leaves K (handleRect dt r)"
  unfolding handleRect_def handleDataRect_def Let_def by (intro leaves_intros) simp_all

lemma K_rect_loop [leaves_intros]: "K r \<Longrightarrow> leaves K (rect_loop dt r)"
proof -
  have "\<forall>dt (r :: 'x rfb). K r \<longrightarrow> leaves K (rect_loop dt r)"
    by (rule rect_loop.fixp_induct)
      (use leaves_adm [of "\<lambda>(dt, r). K r" K] in simp, simp, intro allI impI leaves_intros, simp_all)
  then show "K r \<Longrightarrow> leaves K (rect_loop dt r)"
    by blast
qed

lemma K_normalMsg [leaves_intros]: "K r \<Longrightarrow> leaves K (normalMsg env dt r)"
  unfolding normalMsg_def framebuffer_message_def framebufferUpdate_def end_of_continuous_updates_def Let_def split_def
  by (intro leaves_intros) (simp_all add: K_fail)

lemma K_normal_loop [leaves_intros]: "K r \<Longrightarrow> leaves K (normal_loop env dt r)"
proof -
  have "\<forall>env dt (r :: 'x rfb). K r \<longrightarrow> leaves K (normal_loop env dt r)"
    by (rule normal_loop.fixp_induct)
      (use leaves_adm [of "\<lambda>((env, dt), r). K r" K] in simp, simp, intro allI impI leaves_intros, simp_all)
  then show "K r \<Longrightarrow> leaves K (normal_loop env dt r)"
    by blast
qed

lemma K_init_loop [leaves_intros]: "K r \<Longrightarrow> leaves K (init_loop env r)"
proof -
  have "\<forall>env (r :: 'x rfb). K r \<longrightarrow> leaves K (init_loop env r)"
    by (rule init_loop.fixp_induct)
      (use leaves_adm [of "\<lambda>(env, r). K r" K] in simp, simp, intro allI impI leaves_intros, simp_all)
  then show "K r \<Longrightarrow> leaves K (init_loop env r)"
    by blast
qed

lemma K_handleMessage [leaves_intros]: "K r \<Longrightarrow> leaves K (handleMessage env dt r)"
  unfolding handleMessage_def
  by (cases "conn r"; simp only: conn.case; intro leaves_intros; simp)

lemma K_callbacks [leaves_intros]: "K r \<Longrightarrow> leaves K (flush_done env dt r)" "K r \<Longrightarrow> leaves K (resumed env r)"
  unfolding flush_done_def resumed_def Let_def by (intro leaves_intros; simp)+

subsection \<open>Input\<close>

lemma K_keys [leaves_intros]: "K r \<Longrightarrow> leaves K (send_key k c d r)"
  unfolding send_key_def Let_def by (intro leaves_intros) simp_all

lemma K_sendKey [leaves_intros]: "K r \<Longrightarrow> leaves K (sendKey k c d r)" "K r \<Longrightarrow> leaves K (sendCtrlAltDel r)"
  unfolding sendKey_def sendCtrlAltDel_def by (intro leaves_intros; simp)+

lemma K_handleKeyEvent [leaves_intros]: "K r \<Longrightarrow> leaves K (handleKeyEvent k c d nl cl r)"
  unfolding handleKeyEvent_def Let_def by (intro leaves_intros) simp_all

lemma K_key_outs [leaves_intros]: "K r \<Longrightarrow> leaves K (key_outs outs r)"
  by (induction outs arbitrary: r) (simp_all, intro leaves_intros, simp_all)

lemma K_keyboard_event [leaves_intros]: "K r \<Longrightarrow> leaves K (keyboard_event os ev r)"
  unfolding keyboard_event_def by (intro leaves_intros) simp_all

lemma K_clipboard [leaves_intros]: "K r \<Longrightarrow> leaves K (clipboardPasteFrom str r)"
  unfolding clipboardPasteFrom_def by (intro leaves_intros) simp_all

lemma K_sendMouse [leaves_intros]: "K r \<Longrightarrow> leaves K (sendMouse x y b r)"
  unfolding sendMouse_def Let_def by (intro leaves_intros) simp_all

lemma K_flushMouseMoveTimer [leaves_intros]: "K r \<Longrightarrow> leaves K (flushMouseMoveTimer x y r)"
  unfolding flushMouseMoveTimer_def by (intro leaves_intros) simp_all

lemma K_handleMouseButton [leaves_intros]: "K r \<Longrightarrow> leaves K (handleMouseButton x y b r)"
  unfolding handleMouseButton_def Let_def by (intro leaves_intros) simp_all

lemma K_move [leaves_intros]: "K r \<Longrightarrow> leaves K (handleMouseMove x y r)" "K r \<Longrightarrow> leaves K (handleDelayedMouseMove r)"
  unfolding handleMouseMove_def handleDelayedMouseMove_def Let_def by (intro leaves_intros; simp)+

lemma K_handleMouse [leaves_intros]: "K r \<Longrightarrow> leaves K (handleMouse ev r)"
  unfolding handleMouse_def Let_def by (intro leaves_intros) simp_all

lemma K_wheel_axis [leaves_intros]: "K r \<Longrightarrow> leaves K (wheel_axis acc upd k l pos b r)"
  unfolding wheel_axis_def wheel_step_def by (intro leaves_intros) simp_all

lemma K_handleWheel [leaves_intros]: "K r \<Longrightarrow> leaves K (handleWheel ev r)"
  unfolding handleWheel_def Let_def by (intro leaves_intros) simp_all

lemma K_taps [leaves_intros]: "K r \<Longrightarrow> leaves K (fakeMouseMove ev pos r)" "K r \<Longrightarrow> leaves K (click_at pos b r)"
  unfolding fakeMouseMove_def click_at_def by (intro leaves_intros; simp)+

lemma K_handleTapEvent [leaves_intros]: "K r \<Longrightarrow> leaves K (handleTapEvent ev b r)"
  unfolding handleTapEvent_def Let_def split_def by (intro leaves_intros) simp_all

lemma K_scroll [leaves_intros]:
  "K r \<Longrightarrow> leaves K (scroll_up g s pos b sens m r)" "K r \<Longrightarrow> leaves K (scroll_down g s pos b sens m r)"
proof -
  have "\<forall>g s pos b sens m (r :: 'x rfb). K r \<longrightarrow> leaves K (scroll_up g s pos b sens m r)"
    by (rule scroll_up.fixp_induct)
      (use leaves_adm [of "\<lambda>((((((g :: mouse \<Rightarrow> real, s :: real \<Rightarrow> mouse \<Rightarrow> mouse), pos :: rat \<times> rat), b :: int),
          sens :: real), m :: real), r :: 'x rfb). K r" K] in simp, simp,
        intro allI impI leaves_intros, auto)
  then show "K r \<Longrightarrow> leaves K (scroll_up g s pos b sens m r)"
    by blast
  have "\<forall>g s pos b sens m (r :: 'x rfb). K r \<longrightarrow> leaves K (scroll_down g s pos b sens m r)"
    by (rule scroll_down.fixp_induct)
      (use leaves_adm [of "\<lambda>((((((g :: mouse \<Rightarrow> real, s :: real \<Rightarrow> mouse \<Rightarrow> mouse), pos :: rat \<times> rat), b :: int),
          sens :: real), m :: real), r :: 'x rfb). K r" K] in simp, simp,
        intro allI impI leaves_intros, auto)
  then show "K r \<Longrightarrow> leaves K (scroll_down g s pos b sens m r)"
    by blast
qed

lemma K_scrolls [leaves_intros]: "K r \<Longrightarrow> leaves K (two_drag ev pos r)" "K r \<Longrightarrow> leaves K (pinch ev pos r)"
  unfolding two_drag_def pinch_def scroll_both_def Let_def by (intro leaves_intros; simp)+

lemma K_handleGesture [leaves_intros]: "K r \<Longrightarrow> leaves K (handleGesture ev r)"
  unfolding handleGesture_def gesture_start_def gesture_move_def gesture_end_def Let_def
  by (intro leaves_intros) simp_all

subsection \<open>Everything\<close>

lemma K_received [leaves_intros]: "K r \<Longrightarrow> leaves K (received env dt bs r)"
  unfolding received_def by (intro leaves_intros) (auto split: bool.split intro: K_handleMessage)

lemma K_step: "K r \<Longrightarrow> leaves K (rfb_step env dt os ev r)"
  by (cases ev; simp only: rfb_step.simps drawn_def on_canvas_def; intro leaves_intros;
      simp add: K_socket socketError_def)

lemma K_run: "rfb_run env dt os evs r = Some r' \<Longrightarrow> K r \<Longrightarrow> K r'"
proof (induction evs arbitrary: r)
  case (Cons ev evs)
  obtain q r1 where 1: "rfb_step env dt os ev r = Some (q, r1)" "rfb_run env dt os evs r1 = Some r'"
    using Cons.prems(1) by (auto split: option.splits)
  then have "K r1"
    using K_step [OF Cons.prems(2), of env dt os ev] by simp
  then show ?case
    using Cons.IH 1(2) by blast
qed simp

end

section \<open>The story a page is told\<close>

text \<open>What has been reported, and whether the timer of the disconnect runs, in each state.\<close>

definition story_ok :: "life \<Rightarrow> bool" where
  "story_ok l =
     (l_timer l = (l_conn l = Conn_disconnecting) \<and>
      (case l_conn l of
         NoConn \<Rightarrow> l_events l = []
       | Conn_connecting \<Rightarrow> l_events l = []
       | Conn_connected \<Rightarrow> l_events l = [EvConnect]
       | Conn_disconnecting \<Rightarrow> l_events l = [] \<or> l_events l = [EvConnect]
       | Conn_disconnected \<Rightarrow>
           (\<exists>b. l_events l = [EvDisconnect b] \<or> l_events l = [EvConnect, EvDisconnect b])))"

interpretation story: life_law story_ok
  by unfold_locales
    (auto simp: story_ok_def life_change_def transition_ok_def split: conn.splits)

text \<open>An object that has disconnected stays disconnected and reports nothing more.\<close>

definition over :: "rfb_event list \<Rightarrow> life \<Rightarrow> bool" where
  "over evs l = (l_conn l = Conn_disconnected \<and> l_events l = evs)"

interpretation over: life_law "over evs" for evs
  by unfold_locales (simp_all add: over_def life_change_def)

lemma new_rfb_story:
  assumes "new_rfb t u opts pg ds = Inr r"
  shows "story_ok (life r)"
proof -
  have "story_ok (life (prepared c opts pg ds))" for c
    by (simp add: story_ok_def life_def prepared_def)
  then have "leaves (\<lambda>r. story_ok (life r)) (updateConnectionState Conn_connecting (prepared c opts pg ds))" for c
    by (rule story.K_updateConnectionState)
  then have "updateConnectionState Conn_connecting (prepared c opts pg ds) = Some (q, r) \<Longrightarrow> story_ok (life r)" for c q
    by (metis leaves_simps(4))
  then show ?thesis
    using assms by (auto simp: new_rfb_def split: if_splits option.splits sum.splits)
qed

end
