(* ===== verification/Samples.thy ===== *)
theory Samples
  imports Session
begin

text \<open>Concrete objects: a page, a browser, and an object in a session.\<close>

section \<open>Concrete objects\<close>

text \<open>A zlib without compression; a call that makes no progress is a \<open>Z_BUF_ERROR\<close>.\<close>

definition plain_zlib :: "unit zlib" where
  "plain_zlib = \<lparr>z_inflateInit = (), z_inflateReset = (\<lambda>_. ()),
     z_inflate = (\<lambda>_ inp avail. (if take (nat avail) inp = [] then - 5 else 0,
       take (nat avail) inp, drop (nat avail) inp, ())),
     z_deflateInit = (), z_deflate = (\<lambda>_ inp avail. (0, take (nat avail) inp, drop (nat avail) inp, ()))\<rparr>"

definition plain_env :: "unit env" where
  "plain_env = \<lparr>random = (\<lambda>_ n. replicate n 7), aes_cbc = (\<lambda>_ _ x. x), supports_h264 = False,
     env_zlib = plain_zlib\<rparr>"

definition plain_page :: page where
  "plain_page = \<lparr>clientSize = (800, 600), screenRect = (800, 600), canvasRect = (0, 0, 800, 600), now = 1000,
     inPage = False, listeners = [], observing = False, gesturesAttached = False, cursorCalls = [],
     focused = 0, captured = False, dragThreshold = 10, resumes = 0, ardTasks = [], frames = 0\<rparr>"

definition plain_options :: options where
  "plain_options = \<lparr>opt_credentials = None, opt_shared = None, opt_repeaterID = None\<rparr>"

definition plain_platform :: platform where
  "plain_platform = \<lparr>isMac = False, isIOS = False, isWindows = False\<rparr>"

definition no_decoders :: "unit decoder_table" where
  "no_decoders = (\<lambda>_. None)"

definition open_channel :: channel where
  "open_channel = browser_socket\<lparr>ch_state := WebSocketState 1, ch_listening := True\<rparr>"

text \<open>An object in a session, with \<open>bs\<close> received and not yet read.\<close>

definition live_rfb :: "byte list \<Rightarrow> unit rfb" where
  "live_rfb bs = (prepared (Inl [97]) plain_options plain_page ())\<lparr>
     conn := Conn_connected, events := [EvConnect],
     sock := new_websock\<lparr>websocket := Some open_channel, rQ := bs, rQlen := length bs,
       rQbufferSize := length bs, allocated := True, handlers := (\<lambda>_. True)\<rparr>,
     page := plain_page\<lparr>listeners := canvas_listeners, inPage := True\<rparr>\<rparr>"

end
