(* ===== verification/SessionProps.thy ===== *)
theory SessionProps
  imports InputProps Lifecycle Samples
begin

text \<open>
  Properties of a whole session: the order in which the page learns of the connection, what input
  puts on the wire, and the concrete objects on which they are tried.
\<close>

lemma live_rfb_ready: "sq_ready (sock (live_rfb bs))" "sQ (sock (live_rfb bs)) = []"
  by (simp_all add: live_rfb_def sq_ready_def readyState_def open_channel_def browser_socket_def
      new_websock_def sub_ready_def)

lemma live_rfb_fit: "fit (live_rfb bs)" "\<not> muted (live_rfb bs)"
  using live_rfb_ready
  by (simp_all add: fit_def muted_def) (simp_all add: live_rfb_def prepared_def new_mouse_def new_settings_def)

section \<open>Connecting and disconnecting\<close>

text \<open>C1. From the constructor on, whatever the browser, the server and the page do in whatever
  order, a page hears \<open>connect\<close> at most once, \<open>disconnect\<close> at most once and never before it, both in
  step with the state of the object; and the timer of the disconnect runs exactly while the object is
  disconnecting.\<close>

theorem connection_story:
  assumes "new_rfb has_target u opts pg ds = Inr r" "rfb_run env dt os evs r = Some r'"
  shows "story_ok (life r')"
  using story.K_run [OF assms(2)] new_rfb_story [OF assms(1)] by blast

text \<open>C4. A disconnected object stays disconnected, and reports nothing more about its connection:
  no late event, call or data from the server revives it.\<close>

theorem disconnected_for_good:
  assumes "conn r = Conn_disconnected" "rfb_run env dt os evs r = Some r'"
  shows "conn r' = Conn_disconnected \<and> filter is_life (events r') = filter is_life (events r)"
  using over.K_run [OF assms(2), of "filter is_life (events r)"] assms(1)
  by (simp add: over_def life_def)

section \<open>Input\<close>

text \<open>The events and calls that are input; a pasted text has less than two to the 31 characters.\<close>

fun is_input :: "page_event \<Rightarrow> bool" where
  "is_input (Key ev) = True"
| "is_input (MouseInput ev) = True"
| "is_input MouseMoveTimeout = True"
| "is_input (WheelInput ev) = True"
| "is_input (GestureInput ev) = True"
| "is_input (CallSendKey k c d) = True"
| "is_input CallSendCtrlAltDel = True"
| "is_input (CallClipboardPasteFrom str) = (length str < 2 ^ 31)"
| "is_input _ = False"

lemma input_emits: "is_input ev \<Longrightarrow> fit r \<Longrightarrow> emits r (rfb_step env dt os ev r)"
  by (cases ev)
    (simp_all add: on_canvas_def emits_ret emits_keyboard_event emits_handleMouse emits_handleDelayedMouseMove
      emits_handleWheel emits_handleGesture emits_sendKey emits_sendCtrlAltDel emits_clipboardPasteFrom)

text \<open>C5. While an object is view-only or not connected, no input event and no call for input does
  anything to the socket, and none throws or loops.\<close>

theorem muted_input_is_silent:
  assumes "is_input ev" "muted r" "legal_mask (mouseButtonMask (mouse r))"
  shows "\<exists>r'. rfb_step env dt os ev r = ret () r' \<and> sock r' = sock r \<and> muted r'"
proof -
  have "emits r (rfb_step env dt os ev r)"
    using assms by (intro input_emits) (simp_all add: fit_def)
  then show ?thesis
    using assms(2) by (auto simp: emits_def says_def dest: same_link_muted)
qed

text \<open>C7. In a session every input event and call returns without an exception, whatever its
  coordinates, buttons, keys and magnitudes, and what it adds to the stream of sent bytes is a sequence
  of whole input messages; it leaves the object fit for the next one.\<close>

theorem input_is_well_formed:
  assumes "is_input ev" "fit r" "\<not> muted r"
  shows "\<exists>r' ms. rfb_step env dt os ev r = ret () r' \<and> list_all input_msg ms
    \<and> sends (sock r) (concat ms) (sock r') \<and> fit r' \<and> \<not> muted r'"
proof -
  obtain r' ms where "rfb_step env dt os ev r = ret () r'" "list_all input_msg ms" "says r ms r'"
    using input_emits [OF assms(1,2), of env dt os] by (auto simp: emits_def)
  moreover from this(3) have "sends (sock r) (concat ms) (sock r') \<and> fit r' \<and> \<not> muted r'"
    using assms(3) by (auto simp: says_def dest: same_link_muted)
  ultimately show ?thesis
    by blast
qed

text \<open>A drag with two fingers sends exactly as many clicks of the wheel as whole steps of 50 lie in
  its length beyond the first partial one: while the magnitude is more than \<open>50 n\<close> and at most
  \<open>50 (n + 1)\<close> above the last one, \<open>n\<close> presses and releases at the position of the gesture reach the
  stream, the loop ends, and the rest is kept for the next move.\<close>

theorem scroll_sends_clicks:
  assumes "eager r" "mouseMoveTimer (mouse r) = None"
    and "magnitude - gestureLastMagnitudeY (mouse r) \<le> GESTURE_SCRLSENS * real (Suc n)"
    and "n = 0 \<or> GESTURE_SCRLSENS * real n < magnitude - gestureLastMagnitudeY (mouse r)"
  shows "\<exists>r'. scroll_up gestureLastMagnitudeY set_mY pos 8 GESTURE_SCRLSENS magnitude r = ret () r'
    \<and> sends (sock r) (concat (replicate n (click_bytes pos 8 r))) (sock r')
    \<and> gestureLastMagnitudeY (mouse r') = gestureLastMagnitudeY (mouse r) + GESTURE_SCRLSENS * real n"
proof (rule mag_y.scroll_up_clicks [OF assms(1) _ _ assms(2-4)])
  show "js_and 8 0x7f80 = 0"
    by (simp add: js_and_def to_int32_small)
qed simp_all

section \<open>Witnesses\<close>

text \<open>An object that connects and is told to disconnect before the server answers.\<close>

lemma attach_browser_socket:
  "attach browser_socket s = Inr ((ws_init s)\<lparr>websocket := Some (browser_socket\<lparr>ch_listening := True\<rparr>)\<rparr>)"
  by (simp add: attach_def browser_socket_def)

definition connecting_rfb :: "unit rfb" where
  "connecting_rfb =
     (let r = (prepared (Inl [97]) plain_options plain_page ())\<lparr>conn := Conn_connecting\<rparr>
      in connect_page (r\<lparr>sock := (ws_init (sock r))\<lparr>websocket := Some (browser_socket\<lparr>ch_listening := True\<rparr>)\<rparr>\<rparr>))"

lemma new_rfb_connecting: "new_rfb True (Some (Inl [97])) plain_options plain_page () = Inr connecting_rfb"
  by (simp add: new_rfb_def updateConnectionState_def change_state_def connect_def attach_browser_socket
      connecting_rfb_def prepared_def transition_ok_def ret_def)

lemma connect_page_conn: "conn (connect_page r) = conn r" "events (connect_page r) = events r"
  by (simp_all add: connect_page_def Let_def cursor_call_def refreshCursor_def)

lemma connecting_life: "life connecting_rfb = \<lparr>l_conn = Conn_connecting, l_clean = True, l_timer = False, l_events = []\<rparr>"
proof -
  have "life (connect_page r) = life r" for r :: "unit rfb"
    by (simp add: connect_page_def Let_def)
  then show ?thesis
    by (simp add: connecting_rfb_def Let_def life_def prepared_def)
qed

lemma connection_story_witness:
  "\<exists>r'. rfb_run plain_env no_decoders plain_platform [CallDisconnect, DisconnectTimeout, SocketClosed] connecting_rfb = Some r'
     \<and> story_ok (life r')"
proof -
  obtain r' where r': "rfb_run plain_env no_decoders plain_platform
      [CallDisconnect, DisconnectTimeout, SocketClosed] connecting_rfb = Some r'"
    by (simp add: ret_def)
  show ?thesis
    using r' connection_story [OF new_rfb_connecting r'] by blast
qed

lemma disconnected_for_good_witness:
  "\<exists>r r'. conn r = Conn_disconnected
     \<and> rfb_run plain_env no_decoders plain_platform [CallDisconnect, SocketOpened] r = Some r'
     \<and> conn r' = Conn_disconnected \<and> filter is_life (events r') = filter is_life (events r)"
proof -
  let ?r = "connecting_rfb\<lparr>conn := Conn_disconnected\<rparr>"
  obtain r' where r': "rfb_run plain_env no_decoders plain_platform [CallDisconnect, SocketOpened] ?r = Some r'"
    by (simp add: ret_def)
  have c: "conn ?r = Conn_disconnected"
    by simp
  show ?thesis
    using c r' disconnected_for_good [OF c r'] by blast
qed

lemma scroll_sends_clicks_witness:
  "\<exists>r'. scroll_up gestureLastMagnitudeY set_mY (10, 20) 8 GESTURE_SCRLSENS 120 (live_rfb []) = ret () r'
    \<and> sends (sock (live_rfb [])) (concat (replicate 2 (click_bytes (10, 20) 8 (live_rfb [])))) (sock r')
    \<and> gestureLastMagnitudeY (mouse r') = gestureLastMagnitudeY (mouse (live_rfb [])) + GESTURE_SCRLSENS * real 2"
  by (rule scroll_sends_clicks)
    (simp_all add: eager_def live_rfb_fit, simp_all add: live_rfb_def prepared_def new_mouse_def)

definition a_drag :: mouse_ev where
  "a_drag = \<lparr>me_type = MDown, me_clientX = 10, me_clientY = 20, me_buttons = 1\<rparr>"

lemma muted_input_is_silent_witness:
  "\<exists>r'. rfb_step plain_env no_decoders plain_platform (MouseInput a_drag) (set_viewOnly True (live_rfb [])) = ret () r'
     \<and> sock r' = sock (set_viewOnly True (live_rfb [])) \<and> muted r'"
proof -
  have s: "settings (set_viewOnly True (live_rfb [])) = (settings (live_rfb []))\<lparr>viewOnly := True\<rparr>"
    "mouse (set_viewOnly True (live_rfb [])) = mouse (live_rfb [])"
    by (simp_all add: set_viewOnly_def Let_def keyboard_ungrab_def)
  have "muted (set_viewOnly True (live_rfb []))"
    "legal_mask (mouseButtonMask (mouse (set_viewOnly True (live_rfb []))))"
    using live_rfb_fit(1) [of "[]"] unfolding fit_def s muted_def by simp_all
  then show ?thesis
    by (intro muted_input_is_silent) simp_all
qed

lemma input_is_well_formed_witness:
  "\<exists>r' ms. rfb_step plain_env no_decoders plain_platform (MouseInput a_drag) (live_rfb []) = ret () r'
     \<and> list_all input_msg ms \<and> sends (sock (live_rfb [])) (concat ms) (sock r') \<and> fit r' \<and> \<not> muted r'"
  by (rule input_is_well_formed) (simp_all add: live_rfb_fit)

end
