(* ===== verification/HandshakeProps.thy ===== *)
theory HandshakeProps
  imports Samples
begin

text \<open>
  Properties of the handshake: it always comes to an end of its current round, whatever the server
  has sent, and how the security types are chosen.
\<close>

section \<open>What is left to read\<close>

definition room :: "'d rfb \<Rightarrow> int" where
  "room r = rQ_length (sock r)"

lemma room_simps [simp]:
  "wait n r = (room r < int n)"
  "room (skip n r) = room r - int n"
  by (simp_all add: room_def rQ_length_def wait_def rQwait_def skip_def rQskipBytes_def)

lemma rQshift_state: "snd (rQshift k res s) = adv k s"
  by (induction k arbitrary: res s) (simp_all add: adv_def)

lemma rQshiftStr_from_state: "snd (rQshiftStr_from i len str s) = adv (len - i) s"
proof (induction i len str s rule: rQshiftStr_from.induct)
  case (1 i len str s)
  show ?case
  proof (cases "i < len")
    case True
    have "min 4096 (len - i) + (len - (i + 4096)) = len - i"
      by simp
    then show ?thesis
      using 1 [OF True] True
      by (subst rQshiftStr_from.simps) (simp add: rQshiftBytes_def adv_def split_def)
  next
    case False
    then show ?thesis
      by (subst rQshiftStr_from.simps) (simp add: adv_def)
  qed
qed

text \<open>Reading moves the read index, whatever is read.\<close>

lemma get_state [simp]:
  "snd (get rQshift8 r) = r\<lparr>sock := adv 1 (sock r)\<rparr>"
  "snd (get rQshift16 r) = r\<lparr>sock := adv 2 (sock r)\<rparr>"
  "snd (get rQshift32 r) = r\<lparr>sock := adv 4 (sock r)\<rparr>"
  "snd (get (rQshiftBytes n) r) = r\<lparr>sock := adv n (sock r)\<rparr>"
  "snd (get (rQshiftStr n) r) = r\<lparr>sock := adv n (sock r)\<rparr>"
  by (simp_all add: get_def split_def rQshift8_def rQshift16_def rQshift32_def rQshift_state
      rQshiftBytes_def rQshiftStr_def rQshiftStr_from_state adv_def)

lemma skip_state [simp]: "skip n r = r\<lparr>sock := adv n (sock r)\<rparr>"
  by (simp add: skip_def rQskipBytes_def adv_def)

lemma adv_ready [simp]: "sq_ready (adv n s) = sq_ready s"
  by (simp add: adv_def sq_ready_def readyState_def)

lemma room_adv [simp]: "rQ_length (adv n s) = rQ_length s - int n"
  by (simp add: rQ_length_def adv_def)

lemma gives_wait_back [gives_intros]:
  "(\<And>r'. gives P (f True r')) \<Longrightarrow> (int n \<le> room r \<Longrightarrow> gives P (f False r)) \<Longrightarrow>
    gives P (seqr (wait_back n k r) f)"
  by (auto simp: wait_back_def rQwait_back_def room_def)

lemma gives_send [gives_intros]:
  assumes "sq_ready (sock r)" "list_all no_fail m"
    "\<And>s'. sq_ready s' \<Longrightarrow> rQ_length s' = rQ_length (sock r) \<Longrightarrow> gives P (f () (r\<lparr>sock := s'\<rparr>))"
  shows "gives P (seqr (send m r) f)"
proof -
  obtain s' where s': "sq_run m (sock r) = Some (Inr s')" "sends (sock r) (concat (map op_bytes m)) s'"
    using sq.run_appends [OF assms(1,2)] by blast
  have "sq_exec m (sock r) = Some (Inr (), s')"
    using s'(1) sq_exec_run [of m "sock r"] by (auto split: option.splits sum.splits prod.splits)
  moreover have "rQ_length s' = rQ_length (sock r)"
    by (simp add: rQ_length_def sends_rq [OF s'(2)])
  ultimately show ?thesis
    using assms(3) sends_ready [OF s'(2)] by (simp add: send_def)
qed

section \<open>Every step goes onward\<close>

fun init_stage :: "init \<Rightarrow> nat" where
  "init_stage NoInit = 0"
| "init_stage ProtocolVersion = 1"
| "init_stage Security = 2"
| "init_stage Authentication = 3"
| "init_stage SecurityResult = 4"
| "init_stage SecurityReason = 5"
| "init_stage ClientInitialisation = 6"
| "init_stage ServerInitialisation = 7"

definition at_stage :: "'d rfb \<Rightarrow> nat" where
  "at_stage r = init_stage (initState (hs r))"

text \<open>A step that asks for another round has finished the connection, reached a later stage, or
  consumed something.\<close>

definition onward :: "'d rfb \<Rightarrow> bool \<Rightarrow> 'd rfb \<Rightarrow> bool" where
  "onward r b r' =
     (b \<longrightarrow> conn r' \<noteq> Conn_connecting \<or>
        sq_ready (sock r') \<and> 0 \<le> room r' \<and>
        (at_stage r < at_stage r' \<or> at_stage r = at_stage r' \<and> room r' < room r))"

definition able :: "'d rfb \<Rightarrow> bool" where
  "able r = (sq_ready (sock r) \<and> 0 \<le> room r)"

lemmas onward_defs = onward_def room_def at_stage_def goto_def set_scheme_def to_reason_def vencrypt_at_def able_def

lemma onward_False [simp]: "onward r False r'"
  by (simp add: onward_def)

lemma gives_failed [gives_intros]: "(\<And>r'. P False r') \<Longrightarrow> gives P (failed r)"
  by (simp add: failed_def)

lemma gives_ask [gives_intros]: "(\<And>r'. P False r') \<Longrightarrow> gives P (ask ts r)"
  by (simp add: ask_def)

lemma onward_ProtocolVersion:
  "able r \<Longrightarrow> at_stage r = 1 \<Longrightarrow> gives (onward r) (negotiateProtocolVersion r)"
  unfolding negotiateProtocolVersion_def Let_def split_def
  by (intro gives_intros) (auto simp: onward_defs)

lemma onward_Security:
  "able r \<Longrightarrow> at_stage r = 2 \<Longrightarrow> gives (onward r) (negotiateSecurity r)"
  unfolding negotiateSecurity_def Let_def split_def
  by (intro gives_intros) (auto simp: onward_defs)

lemma onward_StdVNCAuth:
  "able r \<Longrightarrow> at_stage r = 3 \<Longrightarrow> gives (onward r) (negotiateStdVNCAuth r)"
  unfolding negotiateStdVNCAuth_def Let_def split_def
  by (intro gives_intros) (auto simp: onward_defs)

lemma onward_XvpAuth:
  assumes "able r" "at_stage r = 3"
  shows "gives (onward r) (negotiateXvpAuth r)"
proof -
  have "gives (onward r) (negotiateStdVNCAuth (set_scheme securityTypeVNCAuth (r\<lparr>sock := s\<rparr>)))"
    if s: "sq_ready s" "rQ_length s = rQ_length (sock r)" for s
  proof -
    let ?r = "set_scheme securityTypeVNCAuth (r\<lparr>sock := s\<rparr>)"
    have "gives (onward ?r) (negotiateStdVNCAuth ?r)"
      using assms s by (intro onward_StdVNCAuth) (simp_all add: onward_defs)
    then show ?thesis
      by (rule gives_mono) (use s in \<open>simp add: onward_defs\<close>)
  qed
  then show ?thesis
    unfolding negotiateXvpAuth_def using assms
    by (intro gives_intros) (auto simp: onward_defs)
qed

lemma gives_fall_through:
  assumes "gives (\<lambda>q r'. case q of Some b \<Rightarrow> P b r' | None \<Rightarrow> gives P (f r')) m"
  shows "gives P (fall_through m f)"
  unfolding fall_through_def by (rule gives_seqr [OF assms]) (simp split: option.splits)

text \<open>The stages of VeNCrypt only move on inside the stage of the authentication.\<close>

definition same_stage :: "'d rfb \<Rightarrow> 'd rfb \<Rightarrow> bool" where
  "same_stage r r' = (able r' \<and> at_stage r' = at_stage r \<and> room r' \<le> room r)"

lemma length_read32s: "length (fst (read32s n r)) = n"
  by (induction n arbitrary: r) (simp_all add: Let_def split_def)

lemma read32s_state [simp]: "snd (read32s n r) = r\<lparr>sock := adv (4 * n) (sock r)\<rparr>"
  by (induction n arbitrary: r) (simp_all add: Let_def split_def adv_def)

lemma first_supported_Nil: "first_supported ts \<noteq> - 1 \<Longrightarrow> ts \<noteq> []"
  by auto

lemma onward_vencrypt_subtypes:
  assumes "same_stage r0 r" 
  shows "gives (onward r0) (vencrypt_subtypes r)"
proof -
  have "0 < veNCryptSubtypesLength (hs r)"
    if "first_supported (filter (\<lambda>t. t \<noteq> securityTypeVeNCrypt) (map int (fst (read32s (veNCryptSubtypesLength (hs r)) r)))) \<noteq> - 1"
    using first_supported_Nil [OF that] length_read32s [of "veNCryptSubtypesLength (hs r)" r]
    by (metis filter.simps(1) length_greater_0_conv list.simps(8))
  then show ?thesis
    unfolding vencrypt_subtypes_def Let_def split_def using assms
    by (intro gives_intros) (auto simp: onward_defs same_stage_def)
qed

lemma onward_VeNCryptAuth:
  assumes "able r" "at_stage r = 3"
  shows "gives (onward r) (negotiateVeNCryptAuth r)"
proof -
  have step: "gives (\<lambda>q r'. case q of Some b \<Rightarrow> \<not> b | None \<Rightarrow> same_stage r r') (vencrypt_version r1)"
    "gives (\<lambda>q r'. case q of Some b \<Rightarrow> \<not> b | None \<Rightarrow> same_stage r r') (vencrypt_ack r1)"
    "gives (\<lambda>q r'. case q of Some b \<Rightarrow> \<not> b | None \<Rightarrow> same_stage r r') (vencrypt_length r1)"
    if "same_stage r r1" for r1
    using that unfolding vencrypt_version_def vencrypt_ack_def vencrypt_length_def Let_def split_def
    by (intro gives_intros; auto simp: onward_defs same_stage_def)+
  have fall: "gives (onward r) (fall_through m f)"
    if "gives (\<lambda>q r'. case q of Some b \<Rightarrow> \<not> b | None \<Rightarrow> same_stage r r') m"
      "\<And>r1. same_stage r r1 \<Longrightarrow> gives (onward r) (f r1)" for m f
    by (rule gives_fall_through, rule gives_mono [OF that(1)]) (auto intro: that(2) split: option.splits)
  show ?thesis
    unfolding negotiateVeNCryptAuth_def
    using assms by (intro fall step onward_vencrypt_subtypes) (auto simp: same_stage_def)
qed

lemma onward_Plain:
  "able r \<Longrightarrow> at_stage r = 3 \<Longrightarrow> gives (onward r) (negotiatePlainAuth r)"
  "able r \<Longrightarrow> at_stage r = 3 \<Longrightarrow> gives (onward r) (negotiateTightUnixAuth r)"
  unfolding negotiatePlainAuth_def negotiateTightUnixAuth_def
  by (intro gives_intros; auto simp: onward_defs)+

lemma onward_ARDAuth:
  "able r \<Longrightarrow> at_stage r = 3 \<Longrightarrow> gives (onward r) (negotiateARDAuth env r)"
  unfolding negotiateARDAuth_def Let_def prod.case_eq_if
  by (intro gives_intros) (auto simp: onward_defs)


lemma read_tunnels_state [simp]: "snd (read_tunnels n ts r) = r\<lparr>sock := adv (16 * n) (sock r)\<rparr>"
  by (induction n arbitrary: ts r) (simp_all add: Let_def split_def adv_def)

lemma read_auth_types_state [simp]: "snd (read_auth_types n r) = r\<lparr>sock := adv (16 * n) (sock r)\<rparr>"
  by (induction n arbitrary: r) (simp_all add: Let_def split_def adv_def)

lemma gives_TightTunnels: "sq_ready (sock r) \<Longrightarrow> gives (\<lambda>_ _. True) (negotiateTightTunnels n r)"
  unfolding negotiateTightTunnels_def Let_def split_def
  by (intro gives_intros) simp_all

lemma onward_select_sub_auth:
  assumes "able r" "at_stage r = 3" "at_stage r0 = 3" "room r < room r0"
  shows "gives (onward r0) (select_sub_auth ts r)"
  unfolding select_sub_auth_def Let_def split_def using assms
  by (intro gives_intros) (auto simp: onward_defs)

lemma onward_tight_sub_auth:
  assumes "able r" "at_stage r = 3" "at_stage r0 = 3" "room r \<le> room r0"
  shows "gives (onward r0) (tight_sub_auth r)"
  unfolding tight_sub_auth_def Let_def split_def using assms
  by (intro gives_intros onward_select_sub_auth) (auto simp: onward_defs)

lemma onward_TightAuth:
  assumes "able r" "at_stage r = 3"
  shows "gives (onward r) (negotiateTightAuth r)"
proof -
  have t: "gives (onward r) (seqr (negotiateTightTunnels n r1) (\<lambda>_ r. ret False r))" if "sq_ready (sock r1)" for n r1
    by (rule gives_seqr [OF gives_TightTunnels [OF that]]) simp
  have w: "gives P (seqr (if b then wait_back n k r1 else ret False r1) f)"
    if "\<And>r'. gives P (f True r')" "b \<Longrightarrow> int n \<le> room r1 \<Longrightarrow> gives P (f False r1)" "\<not> b \<Longrightarrow> gives P (f False r1)"
    for P :: "bool \<Rightarrow> 'a rfb \<Rightarrow> bool" and b n k r1 f
    using that by (cases b) (auto intro: gives_intros)
  show ?thesis
    unfolding negotiateTightAuth_def Let_def split_def using assms
    by (intro gives_cases w t onward_tight_sub_auth) (auto simp: onward_defs)
qed

lemma onward_RA2neAuth: "gives (onward r) (negotiateRA2neAuth r)"
  by (simp add: negotiateRA2neAuth_def Let_def)

lemma onward_MSLogonIIAuth:
  "able r \<Longrightarrow> at_stage r = 3 \<Longrightarrow> gives (onward r) (negotiateMSLogonIIAuth env r)"
  unfolding negotiateMSLogonIIAuth_def Let_def split_def
  by (intro gives_intros) (auto simp: onward_defs)

lemma onward_Authentication:
  assumes "able r" "at_stage r = 3"
  shows "gives (onward r) (negotiateAuthentication env r)"
  unfolding negotiateAuthentication_def Let_def using assms
  by (intro gives_intros onward_XvpAuth onward_ARDAuth onward_StdVNCAuth onward_TightAuth onward_VeNCryptAuth
      onward_Plain onward_RA2neAuth onward_MSLogonIIAuth) (auto simp: onward_defs)

lemma onward_SecurityResult:
  "able r \<Longrightarrow> at_stage r = 4 \<Longrightarrow> gives (onward r) (handleSecurityResult r)"
  unfolding handleSecurityResult_def Let_def split_def
  by (intro gives_intros) (auto simp: onward_defs)

lemma onward_SecurityReason:
  "able r \<Longrightarrow> gives (onward r) (handleSecurityReason r)"
  unfolding handleSecurityReason_def Let_def split_def
  by (intro gives_intros) (auto simp: onward_defs)

text \<open>The session starts with a sequence of messages; then the loop ends.\<close>

definition ready_to_send :: "'d rfb \<Rightarrow> bool" where
  "ready_to_send r = sq_ready (sock r)"

lemma gives_send_only:
  assumes "sq_ready (sock r)" "list_all no_fail m"
  shows "gives (\<lambda>_ r'. ready_to_send r' \<and> conn r' = conn r \<and> hs r' = hs r) (send m r)"
proof -
  have "gives (\<lambda>_ r'. ready_to_send r' \<and> conn r' = conn r \<and> hs r' = hs r) (seqr (send m r) ret)"
    using assms by (intro gives_send) (simp_all add: ready_to_send_def)
  then show ?thesis
    by (simp add: seqr_def ret_def split: option.splits sum.splits prod.splits)
qed

lemma ends_flushed_ok: "ends_flushed m \<Longrightarrow> list_all no_fail m"
  by (simp add: ends_flushed_def)

lemma sock_layout [simp]:
  "sock (setClippingViewport b r) = sock r" "sock (saveExpectedClientSize r) = sock r"
  "sock (updateScale r) = sock r" "sock (updateClip r) = sock r" "sock (setDesktopName nm r) = sock r"
  by (simp_all add: setClippingViewport_def saveExpectedClientSize_def updateScale_def updateClip_def
      setDesktopName_def dispatch_def split_def Let_def)

lemma gives_resize_fb: "sq_ready (sock r) \<Longrightarrow> gives (\<lambda>_. ready_to_send) (resize_fb w h r)"
  unfolding resize_fb_def updateContinuousUpdates_def Let_def
  by (intro gives_seqr [where Q = "\<lambda>_. ready_to_send"] gives_intros gives_mono [OF gives_send_only])
    (auto simp: ready_to_send_def ends_flushed_ok ends_flushed_simps)

lemma gives_start_session:
  assumes "sq_ready (sock r)"
  shows "gives (\<lambda>_ r'. conn r' \<noteq> Conn_connecting) (start_session env nm w h r)"
proof -
  have c: "gives (\<lambda>_ r'. conn r' \<noteq> Conn_connecting) (updateConnectionState Conn_connected r')" for r' :: "'a rfb"
    by (simp add: updateConnectionState_def Let_def change_state_def transition_ok_def dispatch_def)
  have s: "gives (\<lambda>_. ready_to_send) (send m r')" if "ends_flushed m" "ready_to_send r'" for m and r' :: "'a rfb"
    by (rule gives_mono [OF gives_send_only [OF _ ends_flushed_ok [OF that(1)]]])
      (use that(2) in \<open>simp_all add: ready_to_send_def\<close>)
  have k: "ready_to_send (if b then r'\<lparr>keyboard := kb\<rparr> else r')" if "ready_to_send r'" for b kb and r' :: "'a rfb"
    using that by (simp add: ready_to_send_def)
  show ?thesis
    unfolding start_session_def Let_def sendEncodings_def
    by (intro gives_seqr [OF gives_resize_fb] gives_seqr [OF s] gives_seqr [OF c] gives_cases ends_flushed_simps)
      (use assms in \<open>auto simp: ready_to_send_def\<close>)
qed

lemma onward_ServerInit:
  assumes "able r"
  shows "gives (onward r) (negotiateServerInit env r)"
proof -
  have s: "gives (onward r) (start_session env nm w h r1)" if "sq_ready (sock r1)" for nm w h r1
    by (rule gives_mono [OF gives_start_session [OF that]]) (simp add: onward_def)
  have t: "gives (onward r) (seqr (tight_server_init n r1) (\<lambda>waiting r. if waiting then ret False r else f r))"
    if "sq_ready (sock r1)" "\<And>r2. sq_ready (sock r2) \<Longrightarrow> gives (onward r) (f r2)" for n r1 f
  proof -
    have "gives (\<lambda>b r2. \<not> b \<longrightarrow> sq_ready (sock r2)) (tight_server_init n r1)"
      unfolding tight_server_init_def Let_def split_def using that(1)
      by (intro gives_intros) auto
    then show ?thesis
      by (rule gives_seqr) (use that(2) in auto)
  qed
  show ?thesis
    unfolding negotiateServerInit_def Let_def split_def using assms
    by (intro gives_cases gives_wait_back t s) (auto simp: onward_defs)
qed

lemma onward_initMsg:
  assumes "able r"
  shows "gives (onward r) (initMsg env r)"
proof (cases "initState (hs r)")
  case ClientInitialisation
  have "gives (onward r) (seqr (send [Push8 (if shared r then 1 else 0), Flush] r)
      (\<lambda>_ r. ret True (goto ServerInitialisation r)))"
    using assms ClientInitialisation by (intro gives_intros) (auto simp: onward_defs)
  then show ?thesis
    using ClientInitialisation by (simp add: initMsg_def)
qed (use assms in \<open>simp_all add: initMsg_def failed_def onward_ProtocolVersion onward_Security
       onward_Authentication onward_SecurityResult onward_SecurityReason onward_ServerInit at_stage_def\<close>)

lemma init_stage_bound: "init_stage st \<le> 7"
  by (cases st) simp_all

text \<open>C8. The handshake never hangs: on an open socket, for whatever bytes are in the receive queue,
  whatever state the negotiation is in and whatever the browser's cryptography returns, the loop of
  \<open>_handleMessage\<close> ends.  (Each round that asks for another one closes the connection, reaches a later
  stage or consumes a byte.)\<close>

theorem handshake_returns:
  assumes "able r"
  shows "init_loop env r \<noteq> None"
  using assms
proof (induction "(7 - at_stage r, nat (room r))" arbitrary: r rule: wf_induct_rule [OF wf_lex_prod [OF wf_less_than wf_less_than]])
  case 1
  show ?case
  proof (cases "conn r = Conn_connecting")
    case True
    have "gives (\<lambda>b r'. b \<longrightarrow> init_loop env r' \<noteq> None) (initMsg env r)"
    proof (rule gives_mono [OF onward_initMsg [OF 1(2)]], intro impI)
      fix b r'
      assume o: "onward r b r'" and b
      show "init_loop env r' \<noteq> None"
      proof (cases "conn r' = Conn_connecting")
        case True
        then have "able r'" "at_stage r < at_stage r' \<or> at_stage r = at_stage r' \<and> room r' < room r"
          using o \<open>b\<close> by (auto simp: onward_def able_def)
        moreover have "at_stage r' \<le> 7" "0 \<le> room r'"
          using init_stage_bound \<open>able r'\<close> by (simp_all add: at_stage_def able_def)
        ultimately show ?thesis
          by (intro 1(1)) (auto simp: diff_less_mono2)
      next
        case False
        then show ?thesis
          by (subst init_loop.simps) (simp add: ret_def)
      qed
    qed
    then show ?thesis
      using True by (subst init_loop.simps) (auto simp: gives_def seqr_def ret_def split: option.splits sum.splits)
  next
    case False
    then show ?thesis
      by (subst init_loop.simps) (simp add: ret_def)
  qed
qed

lemma handshake_returns_witness:
  "init_loop plain_env ((live_rfb [0, 0, 0, 1])\<lparr>conn := Conn_connecting\<rparr>) \<noteq> None"
proof (rule handshake_returns)
  show "able ((live_rfb [0, 0, 0, 1])\<lparr>conn := Conn_connecting\<rparr>)"
    by (simp add: able_def room_def rQ_length_def live_rfb_def sq_ready_def readyState_def open_channel_def
        browser_socket_def new_websock_def sub_ready_def)
qed

section \<open>The choice of the security type\<close>

lemma first_supported_find:
  "first_supported (map f ts) = (case find (\<lambda>t. isSupportedSecurityType (f t)) ts of None \<Rightarrow> - 1 | Some t \<Rightarrow> f t)"
  by (induction ts) auto

lemma get_bytes:
  "rq_wf s \<Longrightarrow> unread s = xs @ ys \<Longrightarrow> length xs = n \<Longrightarrow> rQshiftBytes n s = (xs, adv n s)"
  using rQshiftBytes_unread [of s n] by simp

lemma get_byte: "rq_wf s \<Longrightarrow> unread s = x # xs \<Longrightarrow> rQshift8 s = (unat x, adv 1 s)"
  using rQshift8_be [of s] by simp

lemma wait_back_enough:
  "rq_wf (sock r) \<Longrightarrow> n \<le> length (unread (sock r)) \<Longrightarrow> wait_back n k r = ret False r"
  by (simp add: wait_back_def rQwait_back_ok)

lemma send_sends:
  assumes "sq_ready (sock r)" "list_all no_fail m"
  obtains s' where "send m r = ret () (r\<lparr>sock := s'\<rparr>)" "sends (sock r) (concat (map op_bytes m)) s'"
proof -
  obtain s' where s': "sq_run m (sock r) = Some (Inr s')" "sends (sock r) (concat (map op_bytes m)) s'"
    using sq.run_appends [OF assms] by blast
  have "sq_exec m (sock r) = Some (Inr (), s')"
    using s'(1) sq_exec_run [of m "sock r"] by (auto split: option.splits sum.splits prod.splits)
  then have "send m r = ret () (r\<lparr>sock := s'\<rparr>)"
    by (simp add: send_def ret_def)
  then show thesis
    using s'(2) that by blast
qed

text \<open>C9. Of the security types that the server lists, in its order, the client takes the first one
  that it supports: it answers with that type alone, remembers it, goes on to the authentication, and
  has consumed the list and nothing behind it.\<close>

theorem first_supported_type_wins:
  assumes "rq_wf (sock r)" "sq_ready (sock r)" "37 \<le> rfbVersion (hs r)"
    and "unread (sock r) = u8n (length ts) # ts @ rest" "length ts < 256"
    and "find (\<lambda>t. isSupportedSecurityType (uint t)) ts = Some t"
  shows "\<exists>s'. negotiateSecurity r = ret True (goto Authentication (set_scheme (uint t) (r\<lparr>sock := s'\<rparr>)))
    \<and> unread s' = rest \<and> stream s' = stream (sock r) @ [t]"
proof -
  let ?s1 = "adv 1 (sock r)" and ?s2 = "adv (1 + length ts) (sock r)"
  have wf1: "rq_wf ?s1"
    using assms(1,4) by (intro adv_wf) simp_all
  have u1: "unread ?s1 = ts @ rest"
    using assms(4) by (simp add: adv_unread)
  have c: "unat (u8n (length ts)) = length ts"
    using assms(5) by (simp add: unat_of_nat)
  have ts: "ts \<noteq> []" "isSupportedSecurityType (uint t)"
    using assms(6) by (auto simp: find_Some_iff)
  have t: "first_supported (map uint ts) = uint t"
    using first_supported_find [of uint ts] assms(6) by simp
  have neg: "uint t \<noteq> - 1"
    using ts(2) by (auto simp: isSupportedSecurityType_def)
  let ?r2 = "set_scheme (uint t) (r\<lparr>sock := ?s2\<rparr>)"
  have r2: "sq_ready (sock ?r2)"
    using assms(2) by (simp add: set_scheme_def)
  obtain s' where s': "send [Push8 (uint t), Flush] ?r2 = ret () (?r2\<lparr>sock := s'\<rparr>)"
    "sends (sock ?r2) (concat (map op_bytes [Push8 (uint t), Flush])) s'"
    by (rule send_sends [OF r2, of "[Push8 (uint t), Flush]"]) simp_all
  have wb: "wait_back (length ts) 1 (r\<lparr>sock := ?s1\<rparr>) = ret False (r\<lparr>sock := ?s1\<rparr>)"
    by (rule wait_back_enough) (simp_all add: wf1 u1 del: One_nat_def)
  have o: "r\<lparr>sock := x, hs := y\<rparr> = r\<lparr>hs := y, sock := x\<rparr>" for x y
    by (cases r) simp
  have "negotiateSecurity r = ret True (goto Authentication (set_scheme (uint t) (r\<lparr>sock := s'\<rparr>)))"
    using assms(3) ts(1) s'(1) neg
    by (simp add: negotiateSecurity_def get_def get_byte [OF assms(1,4)] c wb
        get_bytes [OF wf1 u1 refl] t set_scheme_def o Let_def del: One_nat_def)
  moreover have "unread s' = rest"
    using assms(4) sends_unread [OF s'(2)] by (simp add: set_scheme_def adv_unread)
  moreover have "stream s' = stream (sock r) @ [t]"
    using s'(2) by (simp add: sends_def set_scheme_def stream_def wire_def adv_def u8_of_def)
  ultimately show ?thesis
    by blast
qed

lemma first_supported_type_wins_witness:
  "\<exists>s'. negotiateSecurity ((live_rfb [3, 9, 2, 1, 0])\<lparr>hs := new_handshake\<lparr>rfbVersion := 38\<rparr>\<rparr>)
      = ret True (goto Authentication (set_scheme (uint (2 :: byte))
          (((live_rfb [3, 9, 2, 1, 0])\<lparr>hs := new_handshake\<lparr>rfbVersion := 38\<rparr>\<rparr>)\<lparr>sock := s'\<rparr>)))
    \<and> unread s' = [0] \<and> stream s' = stream (sock (live_rfb [3, 9, 2, 1, 0])) @ [2]"
  using first_supported_type_wins [of "(live_rfb [3, 9, 2, 1, 0])\<lparr>hs := new_handshake\<lparr>rfbVersion := 38\<rparr>\<rparr>"
      "[9, 2, 1]" "[0]" 2]
  by (simp add: live_rfb_def rq_wf_def unread_def MAX_RQ_GROW_SIZE_def sq_ready_def readyState_def open_channel_def
        browser_socket_def new_websock_def sub_ready_def isSupportedSecurityType_def)

end
