(* ===== verification/DecZrle.thy ===== *)
theory DecZrle
  imports Effects DecBasic Zlib
begin

text \<open>
  Model of \<open>core/decoders/zlib.js\<close> and \<open>core/decoders/zrle.js\<close>.

  Both take a length, wait for so many bytes and hand them to their inflator.  The ZRLE decoder then
  asks for the inflated bytes a few at a time; a run length is read until a byte is not 255, so a
  zlib stream that never ends makes a call that does not return (\<open>None\<close>).
\<close>

section \<open>Zlib\<close>

record 'z zlib_dec =
  zd_zlib :: "'z inflator"
  zd_length :: nat

definition new_zlib_dec :: "'z zlib \<Rightarrow> 'z zlib_dec" where
  "new_zlib_dec zl = \<lparr>zd_zlib = new_inflator zl, zd_length = 0\<rparr>"

text \<open>The pixels are made opaque in the output buffer of the inflator, of which \<open>data\<close> is a view.\<close>

definition zlib_pixels ::
    "'z zlib \<Rightarrow> nat \<Rightarrow> nat \<Rightarrow> byte list \<Rightarrow> 'z inflator \<Rightarrow> (js_error + u8view) \<times> 'z inflator" where
  "zlib_pixels zl width height data zi =
     (case inflate zl (int (width * height * 4)) (setInput (Some data) zi) of
        (Inl e, zi) \<Rightarrow> (Inl e, zi)
      | (Inr n, zi) \<Rightarrow>
          let zi = setInput None zi;
              v = set_alpha (width * height) \<lparr>v_buf = z_output zi, v_off = 0, v_len = n\<rparr>
          in (Inr v, zi\<lparr>z_output := v_buf v\<rparr>))"

definition zlib_decodeRect ::
    "'z zlib \<Rightarrow> int \<Rightarrow> int \<Rightarrow> nat \<Rightarrow> nat \<Rightarrow> 'z zlib_dec \<Rightarrow> websock \<Rightarrow> display \<Rightarrow> ('z zlib_dec, display) decoded" where
  "zlib_decodeRect zl x y width height st sock d =
     (if width = 0 \<or> height = 0 then (Inr True, st, sock, d)
      else if zd_length st = 0 \<and> rQwait 4 sock then (Inr False, st, sock, d)
      else
        let (n, sock) = (if zd_length st = 0 then rQshift32 sock else (zd_length st, sock));
            st = st\<lparr>zd_length := n\<rparr>
        in if rQwait n sock then (Inr False, st, sock, d)
           else
             let (data, sock) = rQshiftBytes n sock;
                 (q, zi) = zlib_pixels zl width height data (zd_zlib st);
                 st = st\<lparr>zd_length := 0, zd_zlib := zi\<rparr>
             in case q of
                  Inl e \<Rightarrow> (Inl e, st, sock, d)
                | Inr v \<Rightarrow>
                    (case blitImage x y (int width) (int height) v 0 d of
                       Inl e \<Rightarrow> (Inl e, st, sock, d)
                     | Inr d \<Rightarrow> (Inr True, st, sock, d)))"

section \<open>ZRLE\<close>

abbreviation ZRLE_TILE :: nat where "ZRLE_TILE \<equiv> 64"

record 'z zrle =
  zr_length :: nat
  zr_inflator :: "'z inflator"
  zr_pixels :: "byte list"
  zr_tile :: "byte list"

definition new_zrle :: "'z zlib \<Rightarrow> 'z zrle" where
  "new_zrle zl = \<lparr>zr_length = 0, zr_inflator = new_inflator zl,
     zr_pixels = replicate (ZRLE_TILE * ZRLE_TILE * 4) 0, zr_tile = replicate (ZRLE_TILE * ZRLE_TILE * 4) 0\<rparr>"

subsection \<open>Reading from the stream\<close>

definition zr_inflate :: "'z zlib \<Rightarrow> nat \<Rightarrow> 'z zrle \<Rightarrow> (byte list, 'z zrle) res" where
  "zr_inflate zl n st =
     (case inflate zl (int n) (zr_inflator st) of
        (Inl e, zi) \<Rightarrow> raise e (st\<lparr>zr_inflator := zi\<rparr>)
      | (Inr k, zi) \<Rightarrow> ret (z_view k zi) (st\<lparr>zr_inflator := zi\<rparr>))"

definition zr_byte :: "'z zlib \<Rightarrow> 'z zrle \<Rightarrow> (nat, 'z zrle) res" where
  "zr_byte zl st = seqr (zr_inflate zl 1 st) (\<lambda>b st. ret (js_byte b 0) st)"

text \<open>Three bytes of colour become a pixel of four.  A store behind the end of an array is lost.\<close>

definition rgbx :: "nat \<Rightarrow> byte list \<Rightarrow> byte list" where
  "rgbx n buffer = concat (map (\<lambda>i. [u8n (js_byte buffer (3 * i)), u8n (js_byte buffer (3 * i + 1)),
     u8n (js_byte buffer (3 * i + 2)), 255]) [0..<n])"

definition readPixels :: "'z zlib \<Rightarrow> nat \<Rightarrow> 'z zrle \<Rightarrow> (unit, 'z zrle) res" where
  "readPixels zl pixels st =
     seqr (zr_inflate zl (3 * pixels) st) (\<lambda>buffer st.
       ret () (st\<lparr>zr_pixels := take (length (zr_pixels st)) (rgbx pixels buffer) @ drop (pixels * 4) (zr_pixels st)\<rparr>))"

partial_function (option) readRLELength_from :: "'z zlib \<Rightarrow> nat \<Rightarrow> 'z zrle \<Rightarrow> (nat, 'z zrle) res" where
  "readRLELength_from zl n st =
     seqr (zr_byte zl st) (\<lambda>current st.
       if current = 255 then readRLELength_from zl (n + current) st else ret (n + current + 1) st)"

definition readRLELength :: "'z zlib \<Rightarrow> 'z zrle \<Rightarrow> (nat, 'z zrle) res" where
  "readRLELength zl st = readRLELength_from zl 0 st"

subsection \<open>Tiles\<close>

definition bitsPerPixelInPalette :: "nat \<Rightarrow> nat" where
  "bitsPerPixelInPalette paletteSize = (if paletteSize \<le> 2 then 1 else if paletteSize \<le> 4 then 2 else 4)"

text \<open>Pixel \<open>k\<close> of a palette copied to pixel \<open>i\<close> of the tile.\<close>

definition copy_pixel :: "byte list \<Rightarrow> nat \<Rightarrow> nat \<Rightarrow> byte list \<Rightarrow> byte list" where
  "copy_pixel palette k i data =
     data[i * 4 := u8n (js_byte palette (k * 4)), i * 4 + 1 := u8n (js_byte palette (k * 4 + 1)),
          i * 4 + 2 := u8n (js_byte palette (k * 4 + 2)), i * 4 + 3 := u8n (js_byte palette (k * 4 + 3))]"

text \<open>A row of a palette tile: \<open>n\<close> pixels, the current byte and the shift, which is negative when the
  byte is used up.  The row ends with the byte and the shift it has come to.\<close>

fun palette_row :: "'z zlib \<Rightarrow> nat \<Rightarrow> nat \<Rightarrow> nat \<Rightarrow> nat \<Rightarrow> int \<Rightarrow> 'z zrle \<Rightarrow> (nat \<times> int, 'z zrle) res" where
  "palette_row zl bpp 0 offset encoded shift st = ret (encoded, shift) st"
| "palette_row zl bpp (Suc n) offset encoded shift st =
     seqr (if shift < 0 then seqr (zr_byte zl st) (\<lambda>b st. ret (b, 8 - int bpp) st) else ret (encoded, shift) st)
       (\<lambda>(encoded, shift) st.
         let k = nat (js_and (js_shr (int encoded) (nat shift)) (js_shl 1 bpp - 1))
         in palette_row zl bpp n (Suc offset) encoded (shift - int bpp)
              (st\<lparr>zr_tile := copy_pixel (zr_pixels st) k offset (zr_tile st)\<rparr>))"

fun palette_rows :: "'z zlib \<Rightarrow> nat \<Rightarrow> nat \<Rightarrow> nat \<Rightarrow> nat \<Rightarrow> nat \<Rightarrow> 'z zrle \<Rightarrow> (unit, 'z zrle) res" where
  "palette_rows zl bpp tilew 0 offset encoded st = ret () st"
| "palette_rows zl bpp tilew (Suc n) offset encoded st =
     seqr (palette_row zl bpp tilew offset encoded (8 - int bpp) st) (\<lambda>(encoded, shift) st.
       seqr (if shift < 8 - int bpp \<and> n > 0 then zr_byte zl st else ret encoded st) (\<lambda>encoded st.
         palette_rows zl bpp tilew n (offset + tilew) encoded st))"

definition decodePaletteTile :: "'z zlib \<Rightarrow> nat \<Rightarrow> nat \<Rightarrow> nat \<Rightarrow> 'z zrle \<Rightarrow> (unit, 'z zrle) res" where
  "decodePaletteTile zl paletteSize tilew tileh st =
     seqr (readPixels zl paletteSize st) (\<lambda>_ st.
     seqr (zr_byte zl st) (\<lambda>encoded st.
     palette_rows zl (bitsPerPixelInPalette paletteSize) tilew tileh 0 encoded st))"

definition run_pixels :: "byte list \<Rightarrow> nat \<Rightarrow> nat \<Rightarrow> nat \<Rightarrow> byte list \<Rightarrow> byte list" where
  "run_pixels palette k from len data = fold (copy_pixel palette k) [from..<from + len] data"

partial_function (option) decodeRLETile_from :: "'z zlib \<Rightarrow> nat \<Rightarrow> nat \<Rightarrow> 'z zrle \<Rightarrow> (unit, 'z zrle) res" where
  "decodeRLETile_from zl tileSize i st =
     (if i < tileSize then
        seqr (readPixels zl 1 st) (\<lambda>_ st.
        seqr (readRLELength zl st) (\<lambda>len st.
        decodeRLETile_from zl tileSize (i + len)
          (st\<lparr>zr_tile := run_pixels (zr_pixels st) 0 i len (zr_tile st)\<rparr>)))
      else ret () st)"

definition decodeRLETile :: "'z zlib \<Rightarrow> nat \<Rightarrow> 'z zrle \<Rightarrow> (unit, 'z zrle) res" where
  "decodeRLETile zl tileSize st = decodeRLETile_from zl tileSize 0 st"

text \<open>An index from 128 on announces a run.\<close>

definition palette_run :: "'z zlib \<Rightarrow> 'z zrle \<Rightarrow> (nat \<times> nat, 'z zrle) res" where
  "palette_run zl st =
     seqr (zr_byte zl st) (\<lambda>k st.
       if k \<ge> 128 then seqr (readRLELength zl st) (\<lambda>len st. ret (k - 128, len) st) else ret (k, 1) st)"

partial_function (option) decodeRLEPaletteTile_from ::
    "'z zlib \<Rightarrow> nat \<Rightarrow> nat \<Rightarrow> nat \<Rightarrow> 'z zrle \<Rightarrow> (unit, 'z zrle) res" where
  "decodeRLEPaletteTile_from zl paletteSize tileSize offset st =
     (if offset < tileSize then
        seqr (palette_run zl st) (\<lambda>p st.
          if fst p > paletteSize then raise (JsError ''Too big index in palette'') st
          else if offset + snd p > tileSize then raise (JsError ''Too big rle length in palette mode'') st
          else decodeRLEPaletteTile_from zl paletteSize tileSize (offset + snd p)
                 (st\<lparr>zr_tile := run_pixels (zr_pixels st) (fst p) offset (snd p) (zr_tile st)\<rparr>))
      else ret () st)"

definition decodeRLEPaletteTile :: "'z zlib \<Rightarrow> nat \<Rightarrow> nat \<Rightarrow> 'z zrle \<Rightarrow> (unit, 'z zrle) res" where
  "decodeRLEPaletteTile zl paletteSize tileSize st =
     seqr (readPixels zl paletteSize st) (\<lambda>_ st. decodeRLEPaletteTile_from zl paletteSize tileSize 0 st)"

text \<open>A tile, and what is drawn: an array of pixels, or one colour.\<close>

datatype tile_draw = TileBlit "byte list" | TileFill "byte list"

definition zrle_subtile :: "'z zlib \<Rightarrow> nat \<Rightarrow> nat \<Rightarrow> nat \<Rightarrow> 'z zrle \<Rightarrow> (tile_draw, 'z zrle) res" where
  "zrle_subtile zl tw th subencoding st =
     (let tileSize = tw * th; blit_tile = (\<lambda>_ st. ret (TileBlit (zr_tile st)) st) in
        if subencoding = 0 then
          seqr (readPixels zl tileSize st) (\<lambda>_ st. ret (TileBlit (zr_pixels st)) st)
        else if subencoding = 1 then
          seqr (readPixels zl 1 st) (\<lambda>_ st. ret (TileFill (take 3 (zr_pixels st))) st)
        else if subencoding \<ge> 2 \<and> subencoding \<le> 16 then
          seqr (decodePaletteTile zl subencoding tw th st) blit_tile
        else if subencoding = 128 then seqr (decodeRLETile zl tileSize st) blit_tile
        else if subencoding \<ge> 130 \<and> subencoding \<le> 255 then
          seqr (decodeRLEPaletteTile zl (subencoding - 128) tileSize st) blit_tile
        else raise (JsError ''Unknown subencoding'') st)"

definition zrle_tile :: "'z zlib \<Rightarrow> nat \<Rightarrow> nat \<Rightarrow> 'z zrle \<Rightarrow> (tile_draw, 'z zrle) res" where
  "zrle_tile zl tw th st = seqr (zr_byte zl st) (zrle_subtile zl tw th)"

text \<open>The tiles of a rectangle: position and size, row by row.\<close>

definition zrle_tiles :: "int \<Rightarrow> int \<Rightarrow> nat \<Rightarrow> nat \<Rightarrow> (int \<times> int \<times> nat \<times> nat) list" where
  "zrle_tiles x y width height =
     concat (map (\<lambda>j. map (\<lambda>i. (x + int (ZRLE_TILE * i), y + int (ZRLE_TILE * j),
         min ZRLE_TILE (width - ZRLE_TILE * i), min ZRLE_TILE (height - ZRLE_TILE * j)))
       [0..<(width + ZRLE_TILE - 1) div ZRLE_TILE]) [0..<(height + ZRLE_TILE - 1) div ZRLE_TILE])"

definition draw_tile :: "int \<Rightarrow> int \<Rightarrow> nat \<Rightarrow> nat \<Rightarrow> tile_draw \<Rightarrow> display \<Rightarrow> js_error + display" where
  "draw_tile tx ty tw th t d =
     (case t of
        TileFill color \<Rightarrow> Inr (fillRect tx ty (int tw) (int th) color d)
      | TileBlit data \<Rightarrow> blitImage tx ty (int tw) (int th) (view_of data) 0 d)"

fun zrle_loop ::
    "'z zlib \<Rightarrow> (int \<times> int \<times> nat \<times> nat) list \<Rightarrow> 'z zrle \<times> display \<Rightarrow> (unit, 'z zrle \<times> display) res" where
  "zrle_loop zl [] p = ret () p"
| "zrle_loop zl ((tx, ty, tw, th) # ts) (st, d) =
     (case zrle_tile zl tw th st of
        None \<Rightarrow> None
      | Some (Inl e, st) \<Rightarrow> raise e (st, d)
      | Some (Inr t, st) \<Rightarrow>
          (case draw_tile tx ty tw th t d of
             Inl e \<Rightarrow> raise e (st, d)
           | Inr d \<Rightarrow> zrle_loop zl ts (st, d)))"

definition zrle_decodeRect ::
    "'z zlib \<Rightarrow> int \<Rightarrow> int \<Rightarrow> nat \<Rightarrow> nat \<Rightarrow> 'z zrle \<Rightarrow> websock \<Rightarrow> display \<Rightarrow> ('z zrle, display) decoded option" where
  "zrle_decodeRect zl x y width height st sock d =
     (if zr_length st = 0 \<and> rQwait 4 sock then Some (Inr False, st, sock, d)
      else
        let (n, sock) = (if zr_length st = 0 then rQshift32 sock else (zr_length st, sock));
            st = st\<lparr>zr_length := n\<rparr>
        in if rQwait n sock then Some (Inr False, st, sock, d)
           else
             let (data, sock) = rQshiftBytes n sock;
                 st = st\<lparr>zr_inflator := setInput (Some data) (zr_inflator st)\<rparr>
             in case zrle_loop zl (zrle_tiles x y width height) (st, d) of
                  None \<Rightarrow> None
                | Some (Inl e, st, d) \<Rightarrow> Some (Inl e, st, sock, d)
                | Some (Inr _, st, d) \<Rightarrow> Some (Inr True, st\<lparr>zr_length := 0\<rparr>, sock, d))"

end
