(* ===== verification/ZrleProps.thy ===== *)
theory ZrleProps
  imports DecZrle Samples
begin

text \<open>
  The ZRLE decoder against the encoding that the protocol defines: what is drawn for a tile are the
  pixels that were encoded, for each of the kinds of tile, and exactly its bytes are taken from the
  inflated stream.
\<close>

section \<open>A stream of inflated bytes\<close>

text \<open>
  What the decoder relies on of zlib: in a state that stands for the inflated bytes \<open>bs\<close>, asking for
  one or more of them gives these and leaves a state that stands for the others.  Nothing is
  claimed of a call that asks for none, which makes no progress and is a \<open>Z_BUF_ERROR\<close>.
\<close>

definition inflates :: "'z zlib \<Rightarrow> ('z inflator \<Rightarrow> byte list \<Rightarrow> bool) \<Rightarrow> bool" where
  "inflates zl R = (\<forall>zi bs n. R zi bs \<longrightarrow> 0 < n \<longrightarrow> n \<le> length bs \<longrightarrow>
     (\<exists>zi'. inflate zl (int n) zi = (Inr n, zi') \<and> z_view n zi' = take n bs \<and> R zi' (drop n bs)))"

lemma zr_swap [simp]:
  "st\<lparr>zr_inflator := a, zr_pixels := b\<rparr> = st\<lparr>zr_pixels := b, zr_inflator := a\<rparr>"
  "st\<lparr>zr_inflator := a, zr_tile := c\<rparr> = st\<lparr>zr_tile := c, zr_inflator := a\<rparr>"
  "st\<lparr>zr_tile := c, zr_pixels := b\<rparr> = st\<lparr>zr_pixels := b, zr_tile := c\<rparr>"
  by (cases st; simp)+

locale inflating =
  fixes zl :: "'z zlib" and R :: "'z inflator \<Rightarrow> byte list \<Rightarrow> bool"
  assumes stream: "inflates zl R"
begin

text \<open>\<open>m\<close> takes the bytes \<open>bs\<close>, whatever follows, returns \<open>x\<close> and changes the rest of the state as \<open>g\<close> does.\<close>

definition takes :: "('z zrle \<Rightarrow> ('a, 'z zrle) res) \<Rightarrow> byte list \<Rightarrow> ('z zrle \<Rightarrow> 'a) \<Rightarrow> ('z zrle \<Rightarrow> 'z zrle) \<Rightarrow> 'z zrle \<Rightarrow> bool" where
  "takes m bs x g st = (\<forall>zi rest. R zi (bs @ rest) \<longrightarrow>
     (\<exists>zi'. m (st\<lparr>zr_inflator := zi\<rparr>) = ret (x st) ((g st)\<lparr>zr_inflator := zi'\<rparr>) \<and> R zi' rest))"

lemma takesI:
  assumes "\<And>zi rest. R zi (bs @ rest) \<Longrightarrow>
     \<exists>zi'. m (st\<lparr>zr_inflator := zi\<rparr>) = ret (x st) ((g st)\<lparr>zr_inflator := zi'\<rparr>) \<and> R zi' rest"
  shows "takes m bs x g st"
  using assms by (simp add: takes_def)

lemma takes_seqr:
  assumes "takes m bs x g st" "takes (f (x st)) cs y h (g st)"
  shows "takes (\<lambda>st. seqr (m st) f) (bs @ cs) (\<lambda>st. y (g st)) (\<lambda>st. h (g st)) st"
proof (rule takesI)
  fix zi rest
  assume "R zi ((bs @ cs) @ rest)"
  then obtain z1 where z1: "m (st\<lparr>zr_inflator := zi\<rparr>) = ret (x st) ((g st)\<lparr>zr_inflator := z1\<rparr>)" "R z1 (cs @ rest)"
    using assms(1) by (auto simp: takes_def)
  then obtain z2 where "f (x st) ((g st)\<lparr>zr_inflator := z1\<rparr>) = ret (y (g st)) ((h (g st))\<lparr>zr_inflator := z2\<rparr>)" "R z2 rest"
    using assms(2) by (auto simp: takes_def)
  then show "\<exists>zi'. seqr (m (st\<lparr>zr_inflator := zi\<rparr>)) f = ret (y (g st)) ((h (g st))\<lparr>zr_inflator := zi'\<rparr>) \<and> R zi' rest"
    using z1(1) by auto
qed

lemma takes_ret: "(\<And>zi. g (st\<lparr>zr_inflator := zi\<rparr>) = (g st)\<lparr>zr_inflator := zi\<rparr>) \<Longrightarrow> x' = x st \<Longrightarrow>
    takes (\<lambda>st. ret x' (g st)) [] x g st"
  by (rule takesI) auto

lemma takes_inflate: "length bs = n \<Longrightarrow> 0 < n \<Longrightarrow> takes (zr_inflate zl n) bs (\<lambda>_. bs) (\<lambda>st. st) st"
proof (rule takesI)
  fix zi rest
  assume n: "length bs = n" "0 < n" and r: "R zi (bs @ rest)"
  have "\<exists>zi'. inflate zl (int n) zi = (Inr n, zi') \<and> z_view n zi' = take n (bs @ rest) \<and> R zi' (drop n (bs @ rest))"
    using stream r n unfolding inflates_def by (metis length_append le_add1)
  then obtain zi' where "inflate zl (int n) zi = (Inr n, zi')" "z_view n zi' = bs" "R zi' rest"
    using n by auto
  then show "\<exists>zi'. zr_inflate zl n (st\<lparr>zr_inflator := zi\<rparr>) = ret bs (st\<lparr>zr_inflator := zi'\<rparr>) \<and> R zi' rest"
    by (auto simp: zr_inflate_def)
qed

lemma takes_byte: "takes (zr_byte zl) [b] (\<lambda>_. unat b) (\<lambda>st. st) st"
proof (rule takesI)
  fix zi rest
  assume "R zi ([b] @ rest)"
  then obtain zi' where "zr_inflate zl 1 (st\<lparr>zr_inflator := zi\<rparr>) = ret [b] (st\<lparr>zr_inflator := zi'\<rparr>)" "R zi' rest"
    using takes_inflate [of "[b]" 1 st] by (auto simp: takes_def)
  then show "\<exists>zi'. zr_byte zl (st\<lparr>zr_inflator := zi\<rparr>) = ret (unat b) (st\<lparr>zr_inflator := zi'\<rparr>) \<and> R zi' rest"
    by (auto simp: zr_byte_def js_byte_def)
qed

end

section \<open>Run lengths\<close>

text \<open>A run of \<open>n\<close> pixels, \<open>n\<close> at least 1: \<open>n - 1\<close> as a sum of bytes, all but the last one 255.\<close>

definition enc_length :: "nat \<Rightarrow> byte list" where
  "enc_length n = replicate ((n - 1) div 255) 255 @ [u8n ((n - 1) mod 255)]"

context inflating begin

lemma takes_length_from:
  "m < 255 \<Longrightarrow> takes (readRLELength_from zl n) (replicate k 255 @ [u8n m]) (\<lambda>_. n + 255 * k + m + 1) (\<lambda>st. st) st"
proof (induction k arbitrary: n)
  case 0
  have u: "unat (u8n m) = m"
    using 0 by (simp add: unat_of_nat)
  have "takes (\<lambda>st. seqr (zr_byte zl st) (\<lambda>current st.
       if current = 255 then readRLELength_from zl (n + current) st else ret (n + current + 1) st))
      ([u8n m] @ []) (\<lambda>_. n + m + 1) (\<lambda>st. st) st"
    by (rule takes_seqr [OF takes_byte]) (use 0 u in \<open>auto simp: takes_def\<close>)
  then show ?case
    by (simp add: readRLELength_from.simps [of zl n, abs_def])
next
  case (Suc k)
  have "unat (255 :: byte) = 255"
    by simp
  then have byte255: "takes (zr_byte zl) [255] (\<lambda>_. 255) (\<lambda>st. st) st"
    using takes_byte [of 255 st] by (simp only:)
  have "takes (\<lambda>st. seqr (zr_byte zl st) (\<lambda>current st.
       if current = 255 then readRLELength_from zl (n + current) st else ret (n + current + 1) st))
      ([255] @ (replicate k 255 @ [u8n m])) (\<lambda>_. n + 255 + 255 * k + m + 1) (\<lambda>st. st) st"
    by (rule takes_seqr [OF byte255]) (use Suc.IH [OF Suc.prems, of "n + 255"] in \<open>simp add: algebra_simps\<close>)
  then show ?case
    by (simp add: readRLELength_from.simps [of zl n, abs_def] algebra_simps)
qed

lemma takes_length: "0 < n \<Longrightarrow> takes (readRLELength zl) (enc_length n) (\<lambda>_. n) (\<lambda>st. st) st"
proof -
  assume n: "0 < n"
  have "255 * ((n - 1) div 255) + (n - 1) mod 255 = n - 1"
    by simp
  then have "0 + 255 * ((n - 1) div 255) + (n - 1) mod 255 + 1 = n"
    using n by linarith
  then show ?thesis
    using takes_length_from [of "(n - 1) mod 255" 0 "(n - 1) div 255" st]
    by (simp add: enc_length_def readRLELength_def [abs_def])
qed

end

section \<open>Pixels\<close>

type_synonym colour = "byte \<times> byte \<times> byte"

fun enc_colour :: "colour \<Rightarrow> byte list" where
  "enc_colour (r, g, b) = [r, g, b]"

fun pixel :: "colour \<Rightarrow> byte list" where
  "pixel (r, g, b) = [r, g, b, 255]"

lemma length_pixel [simp]: "length (pixel c) = 4"
  by (cases c) simp

lemma length_pixels: "length (concat (map enc_colour cs)) = 3 * length cs" "length (concat (map pixel cs)) = 4 * length cs"
  by (induction cs) (auto simp: split_paired_all)

lemma js_byte_append: "js_byte (xs @ ys) (length xs + i) = js_byte ys i"
  by (simp add: js_byte_def nth_append)

lemma rgbx_Cons: "rgbx (Suc n) ([r, g, b] @ bs) = [r, g, b, 255] @ rgbx n bs"
proof -
  define px where "px bs i = [u8n (js_byte bs (3 * i)), u8n (js_byte bs (3 * i + 1)), u8n (js_byte bs (3 * i + 2)), 255]"
    for bs i
  have e: "rgbx k xs = concat (map (px xs) [0..<k])" for k xs
    by (simp only: rgbx_def px_def [abs_def])
  have s: "js_byte ([r, g, b] @ bs) (3 * Suc i + c) = js_byte bs (3 * i + c)" for i c
  proof -
    have "3 * Suc i + c = length [r, g, b] + (3 * i + c)"
      by simp
    then show ?thesis
      by (simp only: js_byte_append)
  qed
  have "px ([r, g, b] @ bs) (Suc i) = px bs i" for i
    unfolding px_def using s [of i 0] s [of i 1] s [of i 2] by (simp only: add_0_right)
  then have "map (px ([r, g, b] @ bs)) (map Suc [0..<n]) = map (px bs) [0..<n]"
    by (simp only: map_map comp_def)
  moreover have "px ([r, g, b] @ bs) 0 = [r, g, b, 255]"
    by (simp add: px_def js_byte_def)
  moreover have "[0..<Suc n] = 0 # map Suc [0..<n]"
    by (simp add: map_Suc_upt upt_conv_Cons)
  ultimately show ?thesis
    unfolding e by (simp only: list.map concat.simps)
qed

lemma rgbx_colours: "rgbx (length cs) (concat (map enc_colour cs)) = concat (map pixel cs)"
proof (induction cs)
  case (Cons c cs)
  then show ?case
    using rgbx_Cons [of "length cs" "fst c" "fst (snd c)" "snd (snd c)"] by (cases c) simp
qed (simp add: rgbx_def)

definition with_pixels :: "colour list \<Rightarrow> 'z zrle \<Rightarrow> 'z zrle" where
  "with_pixels cs st = st\<lparr>zr_pixels := concat (map pixel cs) @ drop (4 * length cs) (zr_pixels st)\<rparr>"

context inflating begin

lemma takes_readPixels:
  assumes "cs \<noteq> []" "length cs * 4 \<le> length (zr_pixels st)"
  shows "takes (readPixels zl (length cs)) (concat (map enc_colour cs)) (\<lambda>_. ()) (with_pixels cs) st"
proof -
  have "takes (readPixels zl (length cs)) (concat (map enc_colour cs) @ []) (\<lambda>_. ()) (with_pixels cs) st"
    unfolding readPixels_def
    by (rule takes_seqr [OF takes_inflate, where h = "with_pixels cs" and y = "\<lambda>_. ()"])
      (use assms in \<open>auto simp: length_pixels takes_def with_pixels_def rgbx_colours mult.commute\<close>)
  then show ?thesis by simp
qed

end

section \<open>Runs\<close>

lemma copy_pixel_length [simp]: "length (copy_pixel p k i data) = length data"
  by (simp add: copy_pixel_def)

lemma run_pixels_length [simp]: "length (run_pixels p k from n data) = length data"
  by (induction n arbitrary: data) (simp_all add: run_pixels_def)

text \<open>The four bytes of a pixel.\<close>

definition pixel_at :: "byte list \<Rightarrow> nat \<Rightarrow> byte list" where
  "pixel_at p k = [u8n (js_byte p (k * 4)), u8n (js_byte p (k * 4 + 1)), u8n (js_byte p (k * 4 + 2)),
     u8n (js_byte p (k * 4 + 3))]"

lemma copy_pixel_take:
  assumes "4 * i + 4 \<le> length data"
  shows "copy_pixel p k i data = take (4 * i) data @ pixel_at p k @ drop (4 * i + 4) data"
proof (rule nth_equalityI)
  show "length (copy_pixel p k i data) = length (take (4 * i) data @ pixel_at p k @ drop (4 * i + 4) data)"
    using assms by (simp add: pixel_at_def)
  fix n
  assume n: "n < length (copy_pixel p k i data)"
  consider "n < 4 * i" | "n = 4 * i" | "n = 4 * i + 1" | "n = 4 * i + 2" | "n = 4 * i + 3" | "4 * i + 4 \<le> n"
    by linarith
  then show "copy_pixel p k i data ! n = (take (4 * i) data @ pixel_at p k @ drop (4 * i + 4) data) ! n"
    by cases (use assms n in \<open>simp_all add: copy_pixel_def pixel_at_def nth_append nth_list_update mult.commute\<close>)
qed

lemma run_pixels_take:
  assumes "4 * (i + n) \<le> length data"
  shows "run_pixels p k i n data = take (4 * i) data @ concat (replicate n (pixel_at p k)) @ drop (4 * (i + n)) data"
  using assms
proof (induction n)
  case (Suc n)
  let ?r = "run_pixels p k i n data"
  have r: "?r = take (4 * i) data @ concat (replicate n (pixel_at p k)) @ drop (4 * (i + n)) data"
    using Suc by simp
  have l: "length (pixel_at p k) = 4"
    by (simp add: pixel_at_def)
  have c: "length (concat (replicate n (pixel_at p k))) = 4 * n"
    by (induction n) (simp_all add: l)
  have "run_pixels p k i (Suc n) data = copy_pixel p k (i + n) ?r"
    by (simp add: run_pixels_def)
  also have "\<dots> = take (4 * (i + n)) ?r @ pixel_at p k @ drop (4 * (i + n) + 4) ?r"
    by (rule copy_pixel_take) (use Suc.prems in simp)
  also have "take (4 * (i + n)) ?r = take (4 * i) data @ concat (replicate n (pixel_at p k))"
    unfolding r using Suc.prems by (simp add: c)
  also have "drop (4 * (i + n) + 4) ?r = drop (4 * (i + Suc n)) data"
    unfolding r using Suc.prems by (simp add: c algebra_simps)
  finally have "run_pixels p k i (Suc n) data = (take (4 * i) data @ concat (replicate n (pixel_at p k)))
      @ pixel_at p k @ drop (4 * (i + Suc n)) data" .
  moreover have "concat (replicate (Suc n) (pixel_at p k)) = concat (replicate n (pixel_at p k)) @ pixel_at p k"
    unfolding replicate_Suc replicate_append_same [symmetric] by (rule concat_snoc)
  ultimately show ?case
    by simp
qed (simp add: run_pixels_def)

lemma pixel_at_colours:
  assumes "k < length cs" 
  shows "pixel_at (concat (map pixel cs) @ ys) k = pixel (cs ! k)"
  using assms
proof (induction cs arbitrary: k)
  case (Cons c cs)
  have s: "js_byte (pixel c @ zs) (Suc j * 4 + i) = js_byte zs (j * 4 + i)" for zs i j
  proof -
    have "Suc j * 4 + i = length (pixel c) + (j * 4 + i)"
      by (cases c) simp
    then show ?thesis
      by (simp only: js_byte_append)
  qed
  show ?case
  proof (cases k)
    case 0
    then show ?thesis
      by (cases c) (simp add: pixel_at_def js_byte_def)
  next
    case (Suc j)
    then have "pixel_at (concat (map pixel (c # cs)) @ ys) k = pixel_at (concat (map pixel cs) @ ys) j"
      using s [of "concat (map pixel cs) @ ys" j 0] s [of "concat (map pixel cs) @ ys" j]
      by (simp only: pixel_at_def list.map concat.simps append_assoc add_0_right)
    then show ?thesis
      using Cons Suc by simp
  qed
qed simp

text \<open>Runs of colours, and of indices into a palette: how they are encoded, and their pixels.\<close>

definition enc_run :: "colour \<times> nat \<Rightarrow> byte list" where
  "enc_run r = enc_colour (fst r) @ enc_length (snd r)"

definition enc_index :: "nat \<times> nat \<Rightarrow> byte list" where
  "enc_index r = (if snd r = 1 then [u8n (fst r)] else u8n (fst r + 128) # enc_length (snd r))"

definition run_of :: "byte list \<Rightarrow> nat \<Rightarrow> byte list" where
  "run_of px n = concat (replicate n px)"

definition total :: "('a \<times> nat) list \<Rightarrow> nat" where
  "total rs = sum_list (map snd rs)"

lemma total_simps [simp]: "total [] = 0" "total (r # rs) = snd r + total rs"
  by (simp_all add: total_def)

text \<open>The tile with the pixels \<open>px\<close> stored from pixel \<open>i\<close> on.\<close>

definition stored :: "nat \<Rightarrow> byte list \<Rightarrow> byte list \<Rightarrow> byte list" where
  "stored i px data = take (4 * i) data @ px @ drop (4 * i + length px) data"

lemma stored_stored:
  "length px = 4 * n \<Longrightarrow> 4 * i + length px \<le> length data \<Longrightarrow>
    stored (i + n) py (stored i px data) = stored i (px @ py) data"
  by (simp add: stored_def algebra_simps)

lemma length_stored: "4 * i + length px \<le> length data \<Longrightarrow> length (stored i px data) = length data"
  by (simp add: stored_def)

lemma length_run_of: "length (run_of px n) = n * length px"
  by (induction n) (simp_all add: run_of_def)

lemma run_pixels_stored:
  "4 * (i + n) \<le> length data \<Longrightarrow> run_pixels p k i n data = stored i (run_of (pixel_at p k) n) data"
  by (simp add: run_pixels_take stored_def run_of_def length_concat sum_list_replicate pixel_at_def algebra_simps)

definition painted :: "nat \<Rightarrow> byte list \<Rightarrow> 'z zrle \<Rightarrow> 'z zrle \<Rightarrow> bool" where
  "painted i px st st' = (zr_tile st' = stored i px (zr_tile st) \<and> length (zr_pixels st') = length (zr_pixels st))"

abbreviation painted_runs :: "(colour \<times> nat) list \<Rightarrow> byte list" where
  "painted_runs runs \<equiv> concat (map (\<lambda>r. run_of (pixel (fst r)) (snd r)) runs)"

context inflating begin

text \<open>As \<open>takes\<close>, with a relation for the state that results.\<close>

definition yields :: "('z zrle \<Rightarrow> ('a, 'z zrle) res) \<Rightarrow> byte list \<Rightarrow> ('a \<Rightarrow> 'z zrle \<Rightarrow> bool) \<Rightarrow> 'z zrle \<Rightarrow> bool" where
  "yields m bs P st = (\<forall>rest. R (zr_inflator st) (bs @ rest) \<longrightarrow>
     (\<exists>x st'. m st = ret x st' \<and> P x st' \<and> R (zr_inflator st') rest))"

lemma yieldsI:
  assumes "\<And>rest. R (zr_inflator st) (bs @ rest) \<Longrightarrow> \<exists>x st'. m st = ret x st' \<and> P x st' \<and> R (zr_inflator st') rest"
  shows "yields m bs P st"
  using assms by (simp add: yields_def)

lemma yields_seqr:
  assumes "yields m bs P st" "\<And>x st'. P x st' \<Longrightarrow> yields (f x) cs Q st'"
  shows "yields (\<lambda>st. seqr (m st) f) (bs @ cs) Q st"
proof (rule yieldsI)
  fix rest
  assume "R (zr_inflator st) ((bs @ cs) @ rest)"
  then obtain x st1 where 1: "m st = ret x st1" "P x st1" "R (zr_inflator st1) (cs @ rest)"
    using assms(1) by (auto simp: yields_def)
  then show "\<exists>y st'. seqr (m st) f = ret y st' \<and> Q y st' \<and> R (zr_inflator st') rest"
    using assms(2) [OF 1(2)] by (auto simp: yields_def)
qed

lemma yields_ret: "P x (g st) \<Longrightarrow> zr_inflator (g st) = zr_inflator st \<Longrightarrow> yields (\<lambda>st. ret x (g st)) [] P st"
  by (rule yieldsI) (rule exI [of _ x], rule exI [of _ "g st"], simp)

lemma yields_mono: "yields m bs P st \<Longrightarrow> (\<And>x st'. P x st' \<Longrightarrow> Q x st') \<Longrightarrow> yields m bs Q st"
  by (fastforce simp: yields_def)

lemma takes_yields:
  assumes "takes m bs x g st" "\<And>zi. P (x st) ((g st)\<lparr>zr_inflator := zi\<rparr>)"
  shows "yields m bs P st"
proof (rule yieldsI)
  fix rest
  assume "R (zr_inflator st) (bs @ rest)"
  then obtain zi' where "m (st\<lparr>zr_inflator := zr_inflator st\<rparr>) = ret (x st) ((g st)\<lparr>zr_inflator := zi'\<rparr>)" "R zi' rest"
    using assms(1) unfolding takes_def by blast
  then show "\<exists>y st'. m st = ret y st' \<and> P y st' \<and> R (zr_inflator st') rest"
    using assms(2) by (intro exI [of _ "x st"] exI [of _ "(g st)\<lparr>zr_inflator := zi'\<rparr>"]) simp
qed

text \<open>Storing into the tile needs nothing of the stream.\<close>

lemma yields_tile:
  "yields m bs P (st\<lparr>zr_tile := t\<rparr>) \<Longrightarrow> yields (\<lambda>st. m (st\<lparr>zr_tile := f st\<rparr>)) bs P st" if "f st = t" for f
  using that by (simp add: yields_def)

text \<open>A colour and a length, and the rest of the loop behind the pixels that they paint.\<close>

lemma yields_colour_run:
  assumes "0 < n" "4 \<le> length (zr_pixels st)"
  shows "yields (\<lambda>st. seqr (readPixels zl 1 st) (\<lambda>_. readRLELength zl)) (enc_run (c, n))
    (\<lambda>m st'. m = n \<and> zr_tile st' = zr_tile st \<and> pixel_at (zr_pixels st') 0 = pixel c
        \<and> length (zr_pixels st') = length (zr_pixels st)) st"
proof -
  have "pixel_at (zr_pixels (with_pixels [c] st)) 0 = pixel c"
    using pixel_at_colours [of 0 "[c]"] by (simp add: with_pixels_def)
  then have "yields (readPixels zl 1) (enc_colour c) (\<lambda>_ st'. zr_tile st' = zr_tile st \<and>
      pixel_at (zr_pixels st') 0 = pixel c \<and> length (zr_pixels st') = length (zr_pixels st)) st"
    using takes_readPixels [of "[c]" st] assms(2)
    by (intro takes_yields [where x = "\<lambda>_. ()" and g = "with_pixels [c]"]) (simp_all add: with_pixels_def)
  then show ?thesis
    unfolding enc_run_def fst_conv snd_conv
    by (rule yields_seqr) (rule takes_yields [OF takes_length [OF assms(1)]], simp)
qed

lemma yields_paint:
  assumes "4 * (i + n) \<le> length (zr_tile st)" "zr_tile st' = zr_tile st" "pixel_at (zr_pixels st') k = pixel c"
    and "length (zr_pixels st') = length (zr_pixels st)"
    and "\<And>st''. length (zr_tile st'') = length (zr_tile st) \<Longrightarrow> zr_pixels st'' = zr_pixels st' \<Longrightarrow>
      yields m bs (\<lambda>_. painted (i + n) px st'') st''"
  shows "yields (\<lambda>st. m (st\<lparr>zr_tile := run_pixels (zr_pixels st) k i n (zr_tile st)\<rparr>)) bs
    (\<lambda>_. painted i (run_of (pixel c) n @ px) st) st'"
proof (rule yields_tile [OF refl])
  let ?st = "st'\<lparr>zr_tile := run_pixels (zr_pixels st') k i n (zr_tile st')\<rparr>"
  have t: "zr_tile ?st = stored i (run_of (pixel c) n) (zr_tile st)"
    using assms(1-3) by (simp add: run_pixels_stored)
  have "yields m bs (\<lambda>_. painted (i + n) px ?st) ?st"
    by (rule assms(5)) (use assms(1,2) in simp_all)
  then show "yields m bs (\<lambda>_. painted i (run_of (pixel c) n @ px) st) ?st"
    by (rule yields_mono) (use assms(1) t in \<open>simp add: painted_def stored_stored length_run_of assms(4)\<close>)
qed

lemma yields_done: "yields (\<lambda>st. ret x st) [] (\<lambda>_. painted i [] st) st"
  by (rule yieldsI) (auto simp: painted_def stored_def)

lemma yields_rle:
  assumes "list_all (\<lambda>r. 0 < snd r) runs" "4 * tileSize \<le> length (zr_tile st)" "4 \<le> length (zr_pixels st)"
    and "i + total runs = tileSize"
  shows "yields (decodeRLETile_from zl tileSize i) (concat (map enc_run runs)) (\<lambda>_. painted i (painted_runs runs) st) st"
  using assms
proof (induction runs arbitrary: i st)
  case Nil
  then show ?case
    using yields_done [of "()" i st] by (simp add: decodeRLETile_from.simps [of zl, abs_def])
next
  case (Cons r runs)
  obtain c n where r: "r = (c, n)"
    by fastforce
  have n: "0 < n" "i < tileSize" "4 * (i + n) \<le> length (zr_tile st)"
    using Cons.prems r by auto
  have "yields (\<lambda>st. seqr (seqr (readPixels zl 1 st) (\<lambda>_. readRLELength zl)) (\<lambda>len st.
      decodeRLETile_from zl tileSize (i + len) (st\<lparr>zr_tile := run_pixels (zr_pixels st) 0 i len (zr_tile st)\<rparr>)))
    (enc_run (c, n) @ concat (map enc_run runs)) (\<lambda>_. painted i (run_of (pixel c) n @ painted_runs runs) st) st"
  proof (rule yields_seqr [OF yields_colour_run [OF n(1) Cons.prems(3)]])
    fix m and st' :: "'z zrle"
    assume st': "m = n \<and> zr_tile st' = zr_tile st \<and> pixel_at (zr_pixels st') 0 = pixel c
      \<and> length (zr_pixels st') = length (zr_pixels st)"
    show "yields (\<lambda>st. decodeRLETile_from zl tileSize (i + m)
        (st\<lparr>zr_tile := run_pixels (zr_pixels st) 0 i m (zr_tile st)\<rparr>))
      (concat (map enc_run runs)) (\<lambda>_. painted i (run_of (pixel c) n @ painted_runs runs) st) st'"
      unfolding conjunct1 [OF st']
      by (rule yields_paint [OF n(3)], (use st' in simp_all)[3], rule Cons.IH)
        (use Cons.prems r st' in simp_all)
  qed
  then show ?case
    using n(2) by (simp add: decodeRLETile_from.simps [of zl tileSize i, abs_def] seqr_assoc r)
qed

end

section \<open>Palettes\<close>

text \<open>The palette in the buffer of pixels.\<close>

definition palette_in :: "colour list \<Rightarrow> 'z zrle \<Rightarrow> bool" where
  "palette_in cs st = (\<exists>ys. zr_pixels st = concat (map pixel cs) @ ys)"

abbreviation painted_indices :: "colour list \<Rightarrow> (nat \<times> nat) list \<Rightarrow> byte list" where
  "painted_indices cs runs \<equiv> concat (map (\<lambda>r. run_of (pixel (cs ! fst r)) (snd r)) runs)"

context inflating begin

lemma yields_palette:
  assumes "cs \<noteq> []" "4 * length cs \<le> length (zr_pixels st)"
  shows "yields (readPixels zl (length cs)) (concat (map enc_colour cs))
    (\<lambda>_ st'. palette_in cs st' \<and> zr_tile st' = zr_tile st \<and> length (zr_pixels st') = length (zr_pixels st)) st"
proof (rule takes_yields [OF takes_readPixels [OF assms(1)]])
  show "length cs * 4 \<le> length (zr_pixels st)"
    using assms by simp
qed (use assms in \<open>auto simp: with_pixels_def palette_in_def length_pixels\<close>)

lemma yields_byte: "yields (zr_byte zl) [b] (\<lambda>n st'. n = unat b \<and> zr_tile st' = zr_tile st \<and> zr_pixels st' = zr_pixels st) st"
  by (rule takes_yields [OF takes_byte]) simp

lemma yields_byte_nat:
  "k < 256 \<Longrightarrow> yields (zr_byte zl) [u8n k] (\<lambda>n st'. n = k \<and> zr_tile st' = zr_tile st \<and> zr_pixels st' = zr_pixels st) st"
  using yields_byte [of "u8n k" st] by (simp add: unat_of_nat)

lemma yields_length:
  "0 < n \<Longrightarrow> yields (readRLELength zl) (enc_length n) (\<lambda>m st'. m = n \<and> zr_tile st' = zr_tile st \<and> zr_pixels st' = zr_pixels st) st"
  by (rule takes_yields [OF takes_length]) simp_all

lemma yields_index_run:
  assumes "k < 128" "0 < n"
  shows "yields (palette_run zl) (enc_index (k, n))
    (\<lambda>p st'. p = (k, n) \<and> zr_tile st' = zr_tile st \<and> zr_pixels st' = zr_pixels st) st"
proof (cases "n = 1")
  case True
  have "yields (\<lambda>st. seqr (zr_byte zl st) (\<lambda>k st.
       if k \<ge> 128 then seqr (readRLELength zl st) (\<lambda>len st. ret (k - 128, len) st) else ret (k, 1) st))
     ([u8n k] @ []) (\<lambda>p st'. p = (k, n) \<and> zr_tile st' = zr_tile st \<and> zr_pixels st' = zr_pixels st) st"
    by (rule yields_seqr [OF yields_byte_nat]) (use assms True in \<open>auto intro!: yieldsI\<close>)
  then show ?thesis
    by (simp add: palette_run_def [abs_def] enc_index_def True)
next
  case False
  have b: "k + 128 < 256"
    using assms(1) by simp
  have "yields (\<lambda>st. seqr (zr_byte zl st) (\<lambda>k st.
       if k \<ge> 128 then seqr (readRLELength zl st) (\<lambda>len st. ret (k - 128, len) st) else ret (k, 1) st))
     ([u8n (k + 128)] @ (enc_length n @ [])) (\<lambda>p st'. p = (k, n) \<and> zr_tile st' = zr_tile st \<and> zr_pixels st' = zr_pixels st) st"
  proof (rule yields_seqr [OF yields_byte_nat [OF b]])
    fix j and st' :: "'z zrle"
    assume st': "j = k + 128 \<and> zr_tile st' = zr_tile st \<and> zr_pixels st' = zr_pixels st"
    have "yields (\<lambda>st. seqr (readRLELength zl st) (\<lambda>len st. ret (k, len) st)) (enc_length n @ [])
        (\<lambda>p st'. p = (k, n) \<and> zr_tile st' = zr_tile st \<and> zr_pixels st' = zr_pixels st) st'"
      by (rule yields_seqr [OF yields_length [OF assms(2)]]) (use st' in \<open>auto intro!: yieldsI\<close>)
    then show "yields (\<lambda>st. if j \<ge> 128 then seqr (readRLELength zl st) (\<lambda>len st. ret (j - 128, len) st) else ret (j, 1) st)
        (enc_length n @ []) (\<lambda>p st'. p = (k, n) \<and> zr_tile st' = zr_tile st \<and> zr_pixels st' = zr_pixels st) st'"
      using st' by simp
  qed
  then show ?thesis
    using False by (simp add: palette_run_def [abs_def] enc_index_def)
qed

lemma yields_rle_palette:
  assumes "list_all (\<lambda>r. fst r < length cs \<and> 0 < snd r) runs" "length cs \<le> 128"
    and "4 * tileSize \<le> length (zr_tile st)" "palette_in cs st" "i + total runs = tileSize"
  shows "yields (decodeRLEPaletteTile_from zl (length cs) tileSize i) (concat (map enc_index runs))
    (\<lambda>_. painted i (painted_indices cs runs) st) st"
  using assms
proof (induction runs arbitrary: i st)
  case Nil
  then show ?case
    using yields_done [of "()" i st] by (simp add: decodeRLEPaletteTile_from.simps [of zl, abs_def])
next
  case (Cons r runs)
  obtain k n where r: "r = (k, n)"
    by fastforce
  have n: "0 < n" "i < tileSize" "4 * (i + n) \<le> length (zr_tile st)" "k < length cs" "k < 128" "i + n \<le> tileSize"
    using Cons.prems r by auto
  have px: "pixel_at (zr_pixels st) k = pixel (cs ! k)"
    using Cons.prems(4) n(4) pixel_at_colours [of k cs] by (auto simp: palette_in_def)
  have "yields (\<lambda>st. seqr (palette_run zl st) (\<lambda>p st.
        if fst p > length cs then raise (JsError ''Too big index in palette'') st
        else if i + snd p > tileSize then raise (JsError ''Too big rle length in palette mode'') st
        else decodeRLEPaletteTile_from zl (length cs) tileSize (i + snd p)
               (st\<lparr>zr_tile := run_pixels (zr_pixels st) (fst p) i (snd p) (zr_tile st)\<rparr>)))
     (enc_index (k, n) @ concat (map enc_index runs))
     (\<lambda>_. painted i (run_of (pixel (cs ! k)) n @ painted_indices cs runs) st) st"
  proof (rule yields_seqr [OF yields_index_run [OF n(5,1)]])
    fix p and st' :: "'z zrle"
    assume st': "p = (k, n) \<and> zr_tile st' = zr_tile st \<and> zr_pixels st' = zr_pixels st"
    have "yields (\<lambda>st. decodeRLEPaletteTile_from zl (length cs) tileSize (i + n)
        (st\<lparr>zr_tile := run_pixels (zr_pixels st) k i n (zr_tile st)\<rparr>)) (concat (map enc_index runs))
        (\<lambda>_. painted i (run_of (pixel (cs ! k)) n @ painted_indices cs runs) st) st'"
      by (rule yields_paint [OF n(3)], (use st' px in simp_all)[3], rule Cons.IH)
        (use Cons.prems r st' in \<open>simp_all add: palette_in_def\<close>)
    then show "yields (\<lambda>st. if fst p > length cs then raise (JsError ''Too big index in palette'') st
        else if i + snd p > tileSize then raise (JsError ''Too big rle length in palette mode'') st
        else decodeRLEPaletteTile_from zl (length cs) tileSize (i + snd p)
               (st\<lparr>zr_tile := run_pixels (zr_pixels st) (fst p) i (snd p) (zr_tile st)\<rparr>))
       (concat (map enc_index runs)) (\<lambda>_. painted i (run_of (pixel (cs ! k)) n @ painted_indices cs runs) st) st'"
      using st' n(4,6) by simp
  qed
  then show ?case
    using n(2) by (simp add: decodeRLEPaletteTile_from.simps [of zl "length cs" tileSize i, abs_def] r)
qed

end

section \<open>Packed indices\<close>

text \<open>
  Indices of \<open>bpp\<close> bits, packed into bytes from the high bits down; every row begins a new byte.
  \<open>packed_bits bpp s ks\<close> is what the first of them come to in the low \<open>s\<close> bits of a byte.
\<close>

fun packed_bits :: "nat \<Rightarrow> nat \<Rightarrow> nat list \<Rightarrow> nat" where
  "packed_bits bpp s [] = 0"
| "packed_bits bpp s (k # ks) = (if s < bpp then 0 else k * 2 ^ (s - bpp) + packed_bits bpp (s - bpp) ks)"

function pack :: "nat \<Rightarrow> nat list \<Rightarrow> byte list" where
  "pack bpp ks =
     (if ks = [] \<or> 8 div bpp = 0 then [] else u8n (packed_bits bpp 8 ks) # pack bpp (drop (8 div bpp) ks))"
  by auto
termination
  by (relation "measure (\<lambda>(bpp, ks). length ks)") (auto simp: length_greater_0_conv)

declare pack.simps [simp del]

lemma packed_bits_less: "list_all (\<lambda>k. k < 2 ^ bpp) ks \<Longrightarrow> packed_bits bpp s ks < 2 ^ s"
proof (induction bpp s ks rule: packed_bits.induct)
  case (2 bpp s k ks)
  show ?case
  proof (cases "s < bpp")
    case False
    have "k * 2 ^ (s - bpp) + packed_bits bpp (s - bpp) ks < (k + 1) * 2 ^ (s - bpp)"
      using 2 False by simp
    also have "\<dots> \<le> 2 ^ bpp * 2 ^ (s - bpp)"
      using 2(2) by (intro mult_right_mono) auto
    also have "\<dots> = 2 ^ s"
      using False by (simp flip: power_add)
    finally show ?thesis
      using False by simp
  qed simp
qed simp

lemma digit_bits:
  assumes "e < 256" "s < 8" "b < 8"
  shows "nat (js_and (js_shr (int e) s) (js_shl 1 b - 1)) = (e div 2 ^ s) mod 2 ^ b"
proof -
  have e: "to_int32 (int e) = int e"
    using assms(1) by (intro to_int32_small) simp_all
  have p: "(2::int) ^ b \<le> 2 ^ 7"
    using assms(3) by (intro power_increasing) simp_all
  have pos: "0 < (2::int) ^ b"
    by simp
  have t: "to_int32 (2 ^ b) = 2 ^ b"
    using p pos by (intro to_int32_small) (simp_all del: zero_less_power)
  then have s: "js_shl 1 b = 2 ^ b"
    by (simp add: js_shl_def to_int32_small push_bit_eq_mult)
  have d: "drop_bit s (int e) = int (e div 2 ^ s)"
    by (simp add: drop_bit_eq_div zdiv_int)
  have "e div 2 ^ s < 256"
    using assms(1) div_le_dividend le_less_trans by blast
  then have d32: "to_int32 (int (e div 2 ^ s)) = int (e div 2 ^ s)"
    by (intro to_int32_small) simp_all
  have m32: "to_int32 (2 ^ b - 1) = mask b"
  proof -
    have "- (2 ^ 31) < (2::int) ^ b"
      using pos by (rule less_trans [rotated]) simp
    then show ?thesis
      using p to_int32_small [of "2 ^ b - 1"] by (simp add: mask_eq_exp_minus_1)
  qed
  have "js_and (js_shr (int e) s) (js_shl 1 b - 1) = int (e div 2 ^ s) AND mask b"
    by (simp add: js_and_def js_shr_def e d d32 s m32)
  also have "\<dots> = int (e div 2 ^ s mod 2 ^ b)"
    by (simp add: take_bit_eq_mod zmod_int flip: take_bit_eq_mask)
  finally show ?thesis
    by simp
qed

text \<open>The next index is in the high bits of what is left of a byte.\<close>

lemma next_digit:
  assumes "e mod 2 ^ s = packed_bits bpp s (k # ks)" "bpp \<le> s" "list_all (\<lambda>k. k < 2 ^ bpp) (k # ks)"
  shows "(e div 2 ^ (s - bpp)) mod 2 ^ bpp = k" "e mod 2 ^ (s - bpp) = packed_bits bpp (s - bpp) ks"
proof -
  let ?q = "2 ^ (s - bpp)" and ?r = "packed_bits bpp (s - bpp) ks"
  have r: "?r < ?q"
    using packed_bits_less assms(3) by simp
  have m: "e mod (?q * 2 ^ bpp) = k * ?q + ?r"
    using assms(1,2) by (simp flip: power_add)
  have "e mod (?q * 2 ^ bpp) = ?q * (e div ?q mod 2 ^ bpp) + e mod ?q"
    by (rule mod_mult2_eq)
  then have a: "?q * (e div ?q mod 2 ^ bpp) + e mod ?q = ?q * k + ?r"
    using m by (simp add: mult.commute)
  have d: "(?q * A + B) div ?q = A" "(?q * A + B) mod ?q = B" if "B < ?q" for A B :: nat
    using that by simp_all
  have e: "e mod ?q < ?q"
    by simp
  show "e div ?q mod 2 ^ bpp = k"
    using d(1) [OF e, of "e div ?q mod 2 ^ bpp"] unfolding a d(1) [OF r] by (rule sym)
  show "e mod ?q = ?r"
    using d(2) [OF e, of "e div ?q mod 2 ^ bpp"] unfolding a d(2) [OF r] by (rule sym)
qed

abbreviation painted_packed :: "colour list \<Rightarrow> nat list \<Rightarrow> byte list" where
  "painted_packed cs ks \<equiv> concat (map (\<lambda>k. pixel (cs ! k)) ks)"

text \<open>The pixels \<open>px\<close> are stored from pixel \<open>i\<close> on, and the palette is still there.\<close>

definition tinted :: "nat \<Rightarrow> byte list \<Rightarrow> 'z zrle \<Rightarrow> 'z zrle \<Rightarrow> bool" where
  "tinted i px st st' = (zr_tile st' = stored i px (zr_tile st) \<and> zr_pixels st' = zr_pixels st)"

lemma copy_pixel_stored: "4 * i + 4 \<le> length data \<Longrightarrow> copy_pixel p k i data = stored i (pixel_at p k) data"
proof -
  have "length (pixel_at p k) = 4"
    by (simp add: pixel_at_def)
  then show "4 * i + 4 \<le> length data \<Longrightarrow> copy_pixel p k i data = stored i (pixel_at p k) data"
    by (simp add: copy_pixel_take stored_def)
qed

context inflating begin

text \<open>One pixel out of the current byte, and the rest of the row.\<close>

lemma yields_pixel:
  assumes "4 * i + 4 \<le> length (zr_tile st)" "zr_tile st' = zr_tile st" "palette_in cs st'" "k < length cs"
    and "zr_pixels st' = zr_pixels st"
    and "\<And>st''. length (zr_tile st'') = length (zr_tile st) \<Longrightarrow> zr_pixels st'' = zr_pixels st' \<Longrightarrow>
      yields m bs (\<lambda>q st3. Q q \<and> tinted (Suc i) px st'' st3) st''"
  shows "yields (\<lambda>st. m (st\<lparr>zr_tile := copy_pixel (zr_pixels st) k i (zr_tile st)\<rparr>)) bs
    (\<lambda>q st3. Q q \<and> tinted i (pixel (cs ! k) @ px) st st3) st'"
proof (rule yields_tile [OF refl])
  let ?st = "st'\<lparr>zr_tile := copy_pixel (zr_pixels st') k i (zr_tile st')\<rparr>"
  have "pixel_at (zr_pixels st') k = pixel (cs ! k)"
    using assms(3,4) pixel_at_colours by (auto simp: palette_in_def)
  then have t: "zr_tile ?st = stored i (pixel (cs ! k)) (zr_tile st)"
    using assms(1,2) by (simp add: copy_pixel_stored)
  have "yields m bs (\<lambda>q st3. Q q \<and> tinted (Suc i) px ?st st3) ?st"
    by (rule assms(6)) (use assms(2) in simp_all)
  then show "yields m bs (\<lambda>q st3. Q q \<and> tinted i (pixel (cs ! k) @ px) st st3) ?st"
    by (rule yields_mono) (use assms(1,5) t stored_stored [of "pixel (cs ! k)" 1 i] in \<open>simp add: tinted_def\<close>)
qed

text \<open>A row, of which the first pixels are in the low \<open>s\<close> bits of the byte that was read last.  It
  leaves a shift from which the code sees whether the byte has been touched.\<close>

definition row_left :: "nat \<Rightarrow> nat list \<Rightarrow> nat \<times> int \<Rightarrow> bool" where
  "row_left bpp ks q = (ks \<noteq> [] \<longrightarrow> snd q < 8 - int bpp)"

lemma yields_row:
  assumes "bpp \<in> {1, 2, 4}" "s \<le> 8" "bpp dvd s" "e < 256" "e mod 2 ^ s = packed_bits bpp s ks"
    and "list_all (\<lambda>k. k < 2 ^ bpp \<and> k < length cs) ks" "4 * (i + length ks) \<le> length (zr_tile st)" "palette_in cs st"
  shows "yields (palette_row zl bpp (length ks) i e (int s - int bpp)) (pack bpp (drop (s div bpp) ks))
    (\<lambda>q st'. (ks = [] \<or> snd q < 8 - int bpp) \<and> tinted i (painted_packed cs ks) st st') st"
  using assms(2-)
proof (induction ks arbitrary: i e s st)
  case Nil
  then show ?case
    by (auto intro!: yieldsI simp: pack.simps tinted_def stored_def)
next
  case (Cons k ks)
  have b: "0 < bpp" "bpp < 8" "bpp dvd 8"
    using assms(1) by auto
  have k: "k < 2 ^ bpp" "k < length cs" "list_all (\<lambda>k. k < 2 ^ bpp) (k # ks)"
    using Cons.prems(5) by (auto simp: list_all_iff)
  define next_pixel where "next_pixel e s st = (let j = nat (js_and (js_shr (int e) (nat s)) (js_shl 1 bpp - 1))
      in palette_row zl bpp (length ks) (Suc i) e (s - int bpp)
              (st\<lparr>zr_tile := copy_pixel (zr_pixels st) j i (zr_tile st)\<rparr>))" for e s and st :: "'z zrle"
  have pix: "yields (next_pixel e (int s - int bpp)) (pack bpp (drop (s div bpp) (k # ks)))
      (\<lambda>q st'. (k # ks = [] \<or> snd q < 8 - int bpp) \<and> tinted i (painted_packed cs (k # ks)) st st') st'"
    if e: "e < 256" "e mod 2 ^ s = packed_bits bpp s (k # ks)" and s: "bpp \<le> s" "s \<le> 8" "bpp dvd s"
      and st': "zr_tile st' = zr_tile st" "zr_pixels st' = zr_pixels st" for e s st'
  proof -
    have j: "nat (js_and (js_shr (int e) (nat (int (s - bpp)))) (js_shl 1 bpp - 1)) = k"
    proof -
      have "s - bpp < 8"
        using s b by simp
      then show ?thesis
        unfolding nat_int using digit_bits [OF e(1) _ b(2)] next_digit(1) [OF e(2) s(1) k(3)] by metis
    qed
    have s': "int s - int bpp = int (s - bpp)" "bpp dvd s - bpp" "s - bpp \<le> 8" "s div bpp = Suc ((s - bpp) div bpp)"
      using s b by (auto simp: of_nat_diff dvd_diff_nat le_div_geq)
    have rest: "yields (palette_row zl bpp (length ks) (Suc i) e (int (s - bpp) - int bpp))
        (pack bpp (drop ((s - bpp) div bpp) ks))
        (\<lambda>q st3. (ks = [] \<or> snd q < 8 - int bpp) \<and> tinted (Suc i) (painted_packed cs ks) st'' st3) st''"
      if "length (zr_tile st'') = length (zr_tile st)" "zr_pixels st'' = zr_pixels st'" for st''
      by (rule Cons.IH) (use Cons.prems that st' s' e next_digit(2) [OF e(2) s(1) k(3)] in \<open>simp_all add: palette_in_def\<close>)
    have "ks = [] \<Longrightarrow> int (s - bpp) - int bpp < 8 - int bpp"
      using s b by linarith
    then have rest': "yields (palette_row zl bpp (length ks) (Suc i) e (int (s - bpp) - int bpp))
        (pack bpp (drop ((s - bpp) div bpp) ks))
        (\<lambda>q st3. snd q < 8 - int bpp \<and> tinted (Suc i) (painted_packed cs ks) st'' st3) st''"
      if "length (zr_tile st'') = length (zr_tile st)" "zr_pixels st'' = zr_pixels st'" for st''
    proof (cases "ks = []")
      case True
      then show ?thesis
        using s b by (auto intro!: yieldsI simp: pack.simps tinted_def stored_def)
    qed (rule yields_mono [OF rest [OF that]], simp)
    have "yields (\<lambda>st. palette_row zl bpp (length ks) (Suc i) e (int (s - bpp) - int bpp)
        (st\<lparr>zr_tile := copy_pixel (zr_pixels st) k i (zr_tile st)\<rparr>)) (pack bpp (drop ((s - bpp) div bpp) ks))
        (\<lambda>q st3. snd q < 8 - int bpp \<and> tinted i (pixel (cs ! k) @ painted_packed cs ks) st st3) st'"
      by (rule yields_pixel [OF _ st'(1)])
        (use Cons.prems st' k rest' in \<open>simp_all add: palette_in_def\<close>)
    moreover have "next_pixel e (int s - int bpp) = (\<lambda>st. palette_row zl bpp (length ks) (Suc i) e (int (s - bpp) - int bpp)
        (st\<lparr>zr_tile := copy_pixel (zr_pixels st) k i (zr_tile st)\<rparr>))"
      unfolding next_pixel_def Let_def s'(1) j ..
    ultimately show ?thesis
      using s'(4) by simp
  qed
  show ?case
  proof (cases "s = 0")
    case False
    then have "bpp \<le> s"
      using Cons.prems(2) by (simp add: dvd_imp_le)
    then show ?thesis
      using pix [OF Cons.prems(3,4) _ Cons.prems(1,2) refl refl] by (simp add: next_pixel_def [abs_def])
  next
    case True
    let ?e = "packed_bits bpp 8 (k # ks)"
    have e: "?e < 256"
      using packed_bits_less [OF k(3), of 8] by simp
    have "8 div bpp \<noteq> 0"
      using assms(1) by auto
    then have pk: "pack bpp (drop (s div bpp) (k # ks)) = [u8n ?e] @ pack bpp (drop (8 div bpp) (k # ks))"
      using True by (subst pack.simps) simp
    have "yields (\<lambda>st. seqr (zr_byte zl st) (\<lambda>e st. next_pixel e (8 - int bpp) st))
        ([u8n ?e] @ pack bpp (drop (8 div bpp) (k # ks)))
        (\<lambda>q st'. (k # ks = [] \<or> snd q < 8 - int bpp) \<and> tinted i (painted_packed cs (k # ks)) st st') st"
      by (rule yields_seqr [OF yields_byte_nat [OF e]]) (use pix [of ?e 8] e b in simp)
    then show ?thesis
      unfolding pk using True b by (simp add: next_pixel_def [abs_def] seqr_assoc)
  qed
qed

end

lemma stored_nil [simp]: "stored i [] data = data"
  by (simp add: stored_def)

lemma length_painted_packed: "length (painted_packed cs ks) = 4 * length ks"
  by (induction ks) simp_all

lemma tinted_trans:
  "tinted i px st st1 \<Longrightarrow> tinted (i + n) py st1 st2 \<Longrightarrow> length px = 4 * n \<Longrightarrow> 4 * i + length px \<le> length (zr_tile st) \<Longrightarrow>
    tinted i (px @ py) st st2"
  by (simp add: tinted_def stored_stored)

text \<open>The rows of a tile, of which the first byte has been read.\<close>

definition good_rows :: "nat \<Rightarrow> nat \<Rightarrow> nat \<Rightarrow> nat list list \<Rightarrow> bool" where
  "good_rows bpp ncolours tw rows =
     list_all (\<lambda>ks. length ks = tw \<and> list_all (\<lambda>k. k < 2 ^ bpp \<and> k < ncolours) ks) rows"

lemma pack_Cons:
  "bpp \<in> {1, 2, 4} \<Longrightarrow> ks \<noteq> [] \<Longrightarrow> pack bpp ks = [u8n (packed_bits bpp 8 ks)] @ pack bpp (drop (8 div bpp) ks)"
  by (subst pack.simps) auto

context inflating begin

lemma yields_full_row:
  assumes "bpp \<in> {1, 2, 4}" "0 < tw" "good_rows bpp (length cs) tw (ks # rows)"
    and "4 * (i + tw) \<le> length (zr_tile st)" "palette_in cs st"
  shows "yields (palette_row zl bpp tw i (packed_bits bpp 8 ks) (8 - int bpp)) (pack bpp (drop (8 div bpp) ks))
    (\<lambda>q st'. snd q < 8 - int bpp \<and> tinted i (painted_packed cs ks) st st') st"
proof -
  have ks: "length ks = tw" "list_all (\<lambda>k. k < 2 ^ bpp \<and> k < length cs) ks" "ks \<noteq> []"
    using assms(2,3) by (auto simp: good_rows_def)
  have e: "packed_bits bpp 8 ks < 256"
    using packed_bits_less [of bpp ks 8] ks(2) by (simp add: list_all_iff)
  have "yields (palette_row zl bpp (length ks) i (packed_bits bpp 8 ks) (int 8 - int bpp)) (pack bpp (drop (8 div bpp) ks))
    (\<lambda>q st'. (ks = [] \<or> snd q < 8 - int bpp) \<and> tinted i (painted_packed cs ks) st st') st"
    by (rule yields_row) (use assms ks e in auto)
  then show ?thesis
    using ks(1,3) by simp
qed

lemma yields_rows:
  assumes "bpp \<in> {1, 2, 4}" "0 < tw" "good_rows bpp (length cs) tw (ks # rows)"
    and "4 * (i + tw * Suc (length rows)) \<le> length (zr_tile st)" "palette_in cs st"
  shows "yields (palette_rows zl bpp tw (Suc (length rows)) i (packed_bits bpp 8 ks))
    (pack bpp (drop (8 div bpp) ks) @ concat (map (pack bpp) rows))
    (\<lambda>_. tinted i (concat (map (painted_packed cs) (ks # rows))) st) st"
  using assms(3-)
proof (induction rows arbitrary: ks i st)
  case Nil
  have "yields (\<lambda>st. seqr (palette_row zl bpp tw i (packed_bits bpp 8 ks) (8 - int bpp) st) (\<lambda>(encoded, shift) st.
       seqr (if shift < 8 - int bpp \<and> (0::nat) > 0 then zr_byte zl st else ret encoded st) (\<lambda>encoded st.
         palette_rows zl bpp tw 0 (i + tw) encoded st)))
    (pack bpp (drop (8 div bpp) ks) @ []) (\<lambda>_. tinted i (painted_packed cs ks) st) st"
    by (rule yields_seqr [OF yields_full_row [OF assms(1,2) Nil.prems(1) _ Nil.prems(3)]])
      (use Nil.prems in \<open>auto intro!: yieldsI split: prod.split\<close>)
  then show ?case
    by simp
next
  case (Cons ks' rows)
  let ?e' = "packed_bits bpp 8 ks'"
  have ks: "length ks = tw" "ks' \<noteq> []" "list_all (\<lambda>k. k < 2 ^ bpp) ks'"
    using Cons.prems assms(2) by (auto simp: good_rows_def list_all_iff)
  have e: "?e' < 256"
    using packed_bits_less [OF ks(3), of 8] by simp
  have rest: "yields (palette_rows zl bpp tw (Suc (length rows)) (i + tw) ?e')
      (pack bpp (drop (8 div bpp) ks') @ concat (map (pack bpp) rows))
      (\<lambda>_. tinted i (concat (map (painted_packed cs) (ks # ks' # rows))) st) st1"
    if "tinted i (painted_packed cs ks) st st1" for st1
  proof -
    have l: "length (zr_tile st1) = length (zr_tile st)" "palette_in cs st1"
      using that Cons.prems(2,3) ks(1) by (simp_all add: tinted_def length_stored length_painted_packed palette_in_def)
    then have "yields (palette_rows zl bpp tw (Suc (length rows)) (i + tw) ?e')
        (pack bpp (drop (8 div bpp) ks') @ concat (map (pack bpp) rows))
        (\<lambda>_. tinted (i + tw) (concat (map (painted_packed cs) (ks' # rows))) st1) st1"
      using Cons.prems by (intro Cons.IH) (simp_all add: good_rows_def)
    then show ?thesis
      by (rule yields_mono)
        (use tinted_trans [OF that] Cons.prems(2) ks(1) in \<open>simp add: length_painted_packed\<close>)
  qed
  have next_row: "yields (\<lambda>st. seqr (zr_byte zl st) (\<lambda>encoded st. palette_rows zl bpp tw (Suc (length rows)) (i + tw) encoded st))
      ([u8n ?e'] @ (pack bpp (drop (8 div bpp) ks') @ concat (map (pack bpp) rows)))
      (\<lambda>_. tinted i (concat (map (painted_packed cs) (ks # ks' # rows))) st) st1"
    if t: "tinted i (painted_packed cs ks) st st1" for st1
  proof (rule yields_seqr [OF yields_byte_nat [OF e]])
    fix b and st2 :: "'z zrle"
    assume b: "b = ?e' \<and> zr_tile st2 = zr_tile st1 \<and> zr_pixels st2 = zr_pixels st1"
    have "tinted i (painted_packed cs ks) st st2"
      using t b by (simp add: tinted_def)
    then show "yields (palette_rows zl bpp tw (Suc (length rows)) (i + tw) b)
        (pack bpp (drop (8 div bpp) ks') @ concat (map (pack bpp) rows))
        (\<lambda>_. tinted i (concat (map (painted_packed cs) (ks # ks' # rows))) st) st2"
      unfolding conjunct1 [OF b] by (rule rest)
  qed
  have "yields (\<lambda>st. seqr (palette_row zl bpp tw i (packed_bits bpp 8 ks) (8 - int bpp) st) (\<lambda>(encoded, shift) st.
       seqr (if shift < 8 - int bpp \<and> Suc (length rows) > 0 then zr_byte zl st else ret encoded st) (\<lambda>encoded st.
         palette_rows zl bpp tw (Suc (length rows)) (i + tw) encoded st)))
    (pack bpp (drop (8 div bpp) ks) @ [u8n ?e'] @ (pack bpp (drop (8 div bpp) ks') @ concat (map (pack bpp) rows)))
    (\<lambda>_. tinted i (concat (map (painted_packed cs) (ks # ks' # rows))) st) st"
  proof (rule yields_seqr [OF yields_full_row])
    show "bpp \<in> {1, 2, 4}" "0 < tw" "good_rows bpp (length cs) tw (ks # ks' # rows)" "palette_in cs st"
      by (fact assms(1) assms(2) Cons.prems(1) Cons.prems(3))+
    show "4 * (i + tw) \<le> length (zr_tile st)"
      using Cons.prems(2) by (simp add: algebra_simps)
    fix q :: "nat \<times> int" and st1 :: "'z zrle"
    assume q: "snd q < 8 - int bpp \<and> tinted i (painted_packed cs ks) st st1"
    obtain encoded shift where "q = (encoded, shift)"
      by (cases q)
    then show "yields ((\<lambda>(encoded, shift) st.
         seqr (if shift < 8 - int bpp \<and> Suc (length rows) > 0 then zr_byte zl st else ret encoded st) (\<lambda>encoded st.
           palette_rows zl bpp tw (Suc (length rows)) (i + tw) encoded st)) q)
        ([u8n ?e'] @ (pack bpp (drop (8 div bpp) ks') @ concat (map (pack bpp) rows)))
        (\<lambda>_. tinted i (concat (map (painted_packed cs) (ks # ks' # rows))) st) st1"
      using q next_row by (simp del: palette_rows.simps)
  qed
  moreover have "palette_rows zl bpp tw (Suc (length (ks' # rows))) i (packed_bits bpp 8 ks) =
      (\<lambda>st. seqr (palette_row zl bpp tw i (packed_bits bpp 8 ks) (8 - int bpp) st) (\<lambda>(encoded, shift) st.
         seqr (if shift < 8 - int bpp \<and> Suc (length rows) > 0 then zr_byte zl st else ret encoded st) (\<lambda>encoded st.
           palette_rows zl bpp tw (Suc (length rows)) (i + tw) encoded st)))"
    by (rule ext) (simp only: palette_rows.simps(2) [of zl bpp tw "Suc (length rows)" i "packed_bits bpp 8 ks"]
        list.size add_Suc_right add_0_right)
  moreover have "concat (map (pack bpp) (ks' # rows)) =
      [u8n ?e'] @ (pack bpp (drop (8 div bpp) ks') @ concat (map (pack bpp) rows))"
    by (simp add: pack_Cons [OF assms(1) ks(2)])
  ultimately show ?case
    by (simp only:)
qed

end

section \<open>A tile of every kind\<close>

datatype tile =
    RawTile "colour list"
  | SolidTile colour
  | PackedTile "colour list" "nat list list"
  | RunTile "(colour \<times> nat) list"
  | PaletteRunTile "colour list" "(nat \<times> nat) list"

fun enc_tile :: "tile \<Rightarrow> byte list" where
  "enc_tile (RawTile cs) = 0 # concat (map enc_colour cs)"
| "enc_tile (SolidTile c) = 1 # enc_colour c"
| "enc_tile (PackedTile cs rows) =
     u8n (length cs) # concat (map enc_colour cs) @ concat (map (pack (bitsPerPixelInPalette (length cs))) rows)"
| "enc_tile (RunTile runs) = 128 # concat (map enc_run runs)"
| "enc_tile (PaletteRunTile cs runs) =
     u8n (length cs + 128) # concat (map enc_colour cs) @ concat (map enc_index runs)"

fun tile_ok :: "nat \<Rightarrow> nat \<Rightarrow> tile \<Rightarrow> bool" where
  "tile_ok tw th (RawTile cs) = (length cs = tw * th)"
| "tile_ok tw th (SolidTile c) = True"
| "tile_ok tw th (PackedTile cs rows) =
     (2 \<le> length cs \<and> length cs \<le> 16 \<and> length rows = th
      \<and> list_all (\<lambda>ks. length ks = tw \<and> list_all (\<lambda>k. k < length cs) ks) rows)"
| "tile_ok tw th (RunTile runs) = (list_all (\<lambda>r. 0 < snd r) runs \<and> total runs = tw * th)"
| "tile_ok tw th (PaletteRunTile cs runs) =
     (2 \<le> length cs \<and> length cs \<le> 127 \<and> list_all (\<lambda>r. fst r < length cs \<and> 0 < snd r) runs
      \<and> total runs = tw * th)"

text \<open>The pixels of a tile, row by row, and whether an instruction to draw shows them.\<close>

fun tile_pixels :: "nat \<Rightarrow> tile \<Rightarrow> byte list" where
  "tile_pixels n (RawTile cs) = concat (map pixel cs)"
| "tile_pixels n (SolidTile c) = run_of (pixel c) n"
| "tile_pixels n (PackedTile cs rows) = concat (map (painted_packed cs) rows)"
| "tile_pixels n (RunTile runs) = painted_runs runs"
| "tile_pixels n (PaletteRunTile cs runs) = painted_indices cs runs"

definition depicts :: "nat \<Rightarrow> byte list \<Rightarrow> tile_draw \<Rightarrow> bool" where
  "depicts n px d =
     (case d of TileBlit data \<Rightarrow> 4 * n \<le> length data \<and> take (4 * n) data = px
      | TileFill c \<Rightarrow> run_of (c @ [255]) n = px)"

definition zrle_wf :: "'z zrle \<Rightarrow> bool" where
  "zrle_wf st = (length (zr_pixels st) = ZRLE_TILE * ZRLE_TILE * 4 \<and> length (zr_tile st) = ZRLE_TILE * ZRLE_TILE * 4)"

lemma bits_of_palette: "2 \<le> n \<Longrightarrow> n \<le> 16 \<Longrightarrow> bitsPerPixelInPalette n \<in> {1, 2, 4} \<and> n \<le> 2 ^ bitsPerPixelInPalette n"
  by (auto simp: bitsPerPixelInPalette_def)

lemma length_painted_runs: "length (painted_runs runs) = 4 * total runs" 
  by (induction runs) (simp_all add: length_run_of)

lemma length_painted_indices: "length (painted_indices cs runs) = 4 * total runs"
  by (induction runs) (simp_all add: length_run_of)

lemma length_painted_rows:
  "list_all (\<lambda>ks. length ks = tw \<and> P ks) rows \<Longrightarrow> length (concat (map (painted_packed cs) rows)) = 4 * (tw * length rows)"
  by (induction rows) (simp_all add: length_painted_packed)

lemma room_for_tile:
  "n \<le> ZRLE_TILE * ZRLE_TILE \<Longrightarrow> zrle_wf st \<Longrightarrow> 4 * n \<le> length (zr_tile st) \<and> 4 * n \<le> length (zr_pixels st)"
  by (simp add: zrle_wf_def)

lemma length_single: "length [c] = 1"
  by simp

lemma painted_shows:
  assumes "painted 0 px st st'" "length px = 4 * n" "4 * n \<le> length (zr_tile st)" "zrle_wf st"
  shows "depicts n px (TileBlit (zr_tile st')) \<and> zrle_wf st'"
  using assms by (simp add: painted_def depicts_def zrle_wf_def stored_def)

context inflating begin

lemma yields_blit:
  assumes "yields m bs (\<lambda>_ st'. painted 0 px st st') st" "length px = 4 * n" "4 * n \<le> length (zr_tile st)" "zrle_wf st"
  shows "yields (\<lambda>st. seqr (m st) (\<lambda>_ st. ret (TileBlit (zr_tile st)) st)) bs (\<lambda>d st'. depicts n px d \<and> zrle_wf st') st"
proof -
  have "yields (\<lambda>st. seqr (m st) (\<lambda>_ st. ret (TileBlit (zr_tile st)) st)) (bs @ [])
      (\<lambda>d st'. depicts n px d \<and> zrle_wf st') st"
    by (rule yields_seqr [OF assms(1)]) (use painted_shows [OF _ assms(2-4)] in \<open>auto intro!: yieldsI\<close>)
  then show ?thesis by simp
qed

lemma yields_raw:
  assumes "length cs = n" "0 < n" "4 * n \<le> length (zr_pixels st)" "zrle_wf st"
  shows "yields (\<lambda>st. seqr (readPixels zl n st) (\<lambda>_ st. ret (TileBlit (zr_pixels st)) st)) (concat (map enc_colour cs))
    (\<lambda>d st'. depicts n (concat (map pixel cs)) d \<and> zrle_wf st') st"
proof -
  have "yields (\<lambda>st. seqr (readPixels zl n st) (\<lambda>_ st. ret (TileBlit (zr_pixels st)) st)) (concat (map enc_colour cs) @ [])
    (\<lambda>d st'. depicts n (concat (map pixel cs)) d \<and> zrle_wf st') st"
    by (rule yields_seqr [OF yields_palette [of cs st, unfolded assms(1)]])
      (use assms in \<open>auto intro!: yieldsI simp: depicts_def zrle_wf_def palette_in_def length_pixels\<close>)
  then show ?thesis by simp
qed

lemma yields_solid:
  assumes "zrle_wf st"
  shows "yields (\<lambda>st. seqr (readPixels zl 1 st) (\<lambda>_ st. ret (TileFill (take 3 (zr_pixels st))) st)) (enc_colour c)
    (\<lambda>d st'. depicts n (run_of (pixel c) n) d \<and> zrle_wf st') st"
proof -
  obtain r g b where c: "c = (r, g, b)"
    by (cases c)
  have "yields (\<lambda>st. seqr (readPixels zl 1 st) (\<lambda>_ st. ret (TileFill (take 3 (zr_pixels st))) st)) (concat (map enc_colour [c]) @ [])
    (\<lambda>d st'. depicts n (run_of (pixel c) n) d \<and> zrle_wf st') st"
    by (rule yields_seqr [OF yields_palette [of "[c]" st, unfolded length_single]])
      (use assms in \<open>auto intro!: yieldsI simp: c depicts_def zrle_wf_def palette_in_def\<close>)
  then show ?thesis by simp
qed

lemma yields_packed:
  assumes "tile_ok tw th (PackedTile cs rows)" "0 < tw" "0 < th" "tw * th \<le> ZRLE_TILE * ZRLE_TILE" "zrle_wf st"
  shows "yields (decodePaletteTile zl (length cs) tw th)
    (concat (map enc_colour cs) @ concat (map (pack (bitsPerPixelInPalette (length cs))) rows))
    (\<lambda>_. painted 0 (concat (map (painted_packed cs) rows)) st) st"
proof -
  let ?bpp = "bitsPerPixelInPalette (length cs)"
  have bpp: "?bpp \<in> {1, 2, 4}" "length cs \<le> 2 ^ ?bpp"
    using bits_of_palette assms(1) by simp_all
  obtain ks rows' where rows: "rows = ks # rows'" "th = Suc (length rows')"
    using assms(1,3) by (cases rows) auto
  have good: "good_rows ?bpp (length cs) tw (ks # rows')"
    using assms(1) bpp(2) rows(1) by (fastforce simp: good_rows_def list_all_iff)
  have ks: "ks \<noteq> []" "list_all (\<lambda>k. k < 2 ^ ?bpp) ks"
    using good assms(2) by (auto simp: good_rows_def list_all_iff)
  have e: "packed_bits ?bpp 8 ks < 256"
    using packed_bits_less [OF ks(2), of 8] by simp
  have inner: "yields (\<lambda>st. seqr (zr_byte zl st) (\<lambda>encoded st. palette_rows zl ?bpp tw th 0 encoded st))
      ([u8n (packed_bits ?bpp 8 ks)] @ (pack ?bpp (drop (8 div ?bpp) ks) @ concat (map (pack ?bpp) rows')))
      (\<lambda>_. painted 0 (concat (map (painted_packed cs) rows)) st) st1"
    if st1: "palette_in cs st1" "zr_tile st1 = zr_tile st" "length (zr_pixels st1) = length (zr_pixels st)" for st1
  proof (rule yields_seqr [OF yields_byte_nat [OF e]])
    fix b and st2 :: "'z zrle"
    assume b: "b = packed_bits ?bpp 8 ks \<and> zr_tile st2 = zr_tile st1 \<and> zr_pixels st2 = zr_pixels st1"
    have "4 * (0 + tw * Suc (length rows')) \<le> length (zr_tile st2)"
      using b st1 assms(4,5) rows(2) by (simp add: zrle_wf_def)
    then have "yields (palette_rows zl ?bpp tw (Suc (length rows')) 0 (packed_bits ?bpp 8 ks))
        (pack ?bpp (drop (8 div ?bpp) ks) @ concat (map (pack ?bpp) rows'))
        (\<lambda>_. tinted 0 (concat (map (painted_packed cs) (ks # rows'))) st2) st2"
      by (rule yields_rows [OF bpp(1) assms(2) good]) (use b st1 in \<open>simp add: palette_in_def\<close>)
    then show "yields (palette_rows zl ?bpp tw th 0 b)
        (pack ?bpp (drop (8 div ?bpp) ks) @ concat (map (pack ?bpp) rows'))
        (\<lambda>_. painted 0 (concat (map (painted_packed cs) rows)) st) st2"
      unfolding conjunct1 [OF b] rows by (rule yields_mono) (use b st1 in \<open>simp add: tinted_def painted_def\<close>)
  qed
  have "yields (\<lambda>st. seqr (readPixels zl (length cs) st) (\<lambda>_ st. seqr (zr_byte zl st) (\<lambda>encoded st.
      palette_rows zl ?bpp tw th 0 encoded st)))
    (concat (map enc_colour cs) @ ([u8n (packed_bits ?bpp 8 ks)] @ (pack ?bpp (drop (8 div ?bpp) ks) @ concat (map (pack ?bpp) rows'))))
    (\<lambda>_. painted 0 (concat (map (painted_packed cs) rows)) st) st"
    by (rule yields_seqr [OF yields_palette]) (use assms inner in \<open>auto simp: zrle_wf_def\<close>)
  then show ?thesis
    by (simp add: decodePaletteTile_def [abs_def] rows(1) pack_Cons [OF bpp(1) ks(1)])
qed

lemma yields_palette_runs:
  assumes "tile_ok tw th (PaletteRunTile cs runs)" "tw * th \<le> ZRLE_TILE * ZRLE_TILE" "zrle_wf st"
  shows "yields (decodeRLEPaletteTile zl (length cs) (tw * th)) (concat (map enc_colour cs) @ concat (map enc_index runs))
    (\<lambda>_. painted 0 (painted_indices cs runs) st) st"
  unfolding decodeRLEPaletteTile_def
proof (rule yields_seqr [OF yields_palette])
  have area: "4 * (tw * th) \<le> length (zr_tile st)"
    using room_for_tile assms(2,3) by blast
  show "cs \<noteq> []" "4 * length cs \<le> length (zr_pixels st)"
    using assms by (auto simp: zrle_wf_def)
  fix u and st1 :: "'z zrle"
  assume st1: "palette_in cs st1 \<and> zr_tile st1 = zr_tile st \<and> length (zr_pixels st1) = length (zr_pixels st)"
  have "yields (decodeRLEPaletteTile_from zl (length cs) (tw * th) 0) (concat (map enc_index runs))
      (\<lambda>_. painted 0 (painted_indices cs runs) st1) st1"
    by (rule yields_rle_palette) (use assms(1) st1 area in simp_all)
  then show "yields (decodeRLEPaletteTile_from zl (length cs) (tw * th) 0) (concat (map enc_index runs))
      (\<lambda>_. painted 0 (painted_indices cs runs) st) st1"
    by (rule yields_mono) (use st1 in \<open>simp add: painted_def\<close>)
qed

end

lemma unat_u8n: "n < 256 \<Longrightarrow> unat (u8n n) = n"
  by (simp add: unat_of_nat)

lemma subtile_palette:
  "2 \<le> n \<Longrightarrow> n \<le> 16 \<Longrightarrow> zrle_subtile zl tw th n =
     (\<lambda>st. seqr (decodePaletteTile zl n tw th st) (\<lambda>_ st. ret (TileBlit (zr_tile st)) st))"
  "2 \<le> n \<Longrightarrow> n \<le> 127 \<Longrightarrow> zrle_subtile zl tw th (n + 128) =
     (\<lambda>st. seqr (decodeRLEPaletteTile zl n (tw * th) st) (\<lambda>_ st. ret (TileBlit (zr_tile st)) st))"
  by (simp_all add: zrle_subtile_def [abs_def])

lemma area_in_tile: "tw \<le> ZRLE_TILE \<Longrightarrow> th \<le> ZRLE_TILE \<Longrightarrow> tw * th \<le> ZRLE_TILE * ZRLE_TILE"
  by (rule mult_le_mono)

context inflating begin

lemma yields_tile_of_kind:
  assumes "tile_ok tw th t" "0 < tw" "0 < th" "tw \<le> ZRLE_TILE" "th \<le> ZRLE_TILE" "zrle_wf st"
  shows "yields (zrle_tile zl tw th) (enc_tile t) (\<lambda>d st'. depicts (tw * th) (tile_pixels (tw * th) t) d \<and> zrle_wf st') st"
proof -
  have area: "tw * th \<le> ZRLE_TILE * ZRLE_TILE"
    using area_in_tile assms(4,5) .
  have sub: "yields (zrle_tile zl tw th) ([b] @ bs) P st"
    if "\<And>st'. zr_tile st' = zr_tile st \<Longrightarrow> zr_pixels st' = zr_pixels st \<Longrightarrow> yields (zrle_subtile zl tw th (unat b)) bs P st'"
    for b bs P
    unfolding zrle_tile_def by (rule yields_seqr [OF yields_byte]) (use that in auto)
  have room: "4 * (tw * th) \<le> length (zr_tile st')" "4 * (tw * th) \<le> length (zr_pixels st')" "4 \<le> length (zr_pixels st')" "zrle_wf st'"
    if "zr_tile st' = zr_tile st" "zr_pixels st' = zr_pixels st" for st' :: "'z zrle"
    using that room_for_tile [OF area assms(6)] assms(6) by (simp_all add: zrle_wf_def)
  show ?thesis
  proof (cases t)
    case (RawTile cs)
    have "yields (zrle_tile zl tw th) ([0] @ concat (map enc_colour cs))
        (\<lambda>d st'. depicts (tw * th) (concat (map pixel cs)) d \<and> zrle_wf st') st"
    proof (rule sub)
      fix st' :: "'z zrle"
      assume st': "zr_tile st' = zr_tile st" "zr_pixels st' = zr_pixels st"
      have l: "length cs = tw * th" and pos: "0 < tw * th"
        using assms(1-3) RawTile by simp_all
      show "yields (zrle_subtile zl tw th (unat (0::byte))) (concat (map enc_colour cs))
          (\<lambda>d st'. depicts (tw * th) (concat (map pixel cs)) d \<and> zrle_wf st') st'"
        using yields_raw [OF l pos room(2) [OF st'] room(4) [OF st']] by (simp add: zrle_subtile_def [abs_def])
    qed
    then show ?thesis
      by (simp add: RawTile)
  next
    case (SolidTile c)
    have "yields (zrle_tile zl tw th) ([1] @ enc_colour c)
        (\<lambda>d st'. depicts (tw * th) (run_of (pixel c) (tw * th)) d \<and> zrle_wf st') st"
      by (rule sub) (use yields_solid [OF room(4)] in \<open>simp add: zrle_subtile_def [abs_def] del: One_nat_def\<close>)
    then show ?thesis
      by (simp add: SolidTile)
  next
    case (PackedTile cs rows)
    let ?px = "concat (map (painted_packed cs) rows)"
    have cs: "2 \<le> length cs" "length cs \<le> 16" "length ?px = 4 * (tw * th)"
      using assms(1) length_painted_rows [of tw _ rows cs] PackedTile by auto
    have "yields (zrle_tile zl tw th)
        ([u8n (length cs)] @ (concat (map enc_colour cs) @ concat (map (pack (bitsPerPixelInPalette (length cs))) rows)))
        (\<lambda>d st'. depicts (tw * th) ?px d \<and> zrle_wf st') st"
    proof (rule sub)
      fix st' :: "'z zrle"
      assume st': "zr_tile st' = zr_tile st" "zr_pixels st' = zr_pixels st"
      have "yields (\<lambda>st. seqr (decodePaletteTile zl (length cs) tw th st) (\<lambda>_ st. ret (TileBlit (zr_tile st)) st))
        (concat (map enc_colour cs) @ concat (map (pack (bitsPerPixelInPalette (length cs))) rows))
        (\<lambda>d st'. depicts (tw * th) ?px d \<and> zrle_wf st') st'"
        using assms(1) PackedTile
        by (intro yields_blit yields_packed cs(3) room(1,4) [OF st'] area assms(2,3)) simp
      then show "yields (zrle_subtile zl tw th (unat (u8n (length cs))))
        (concat (map enc_colour cs) @ concat (map (pack (bitsPerPixelInPalette (length cs))) rows))
        (\<lambda>d st'. depicts (tw * th) ?px d \<and> zrle_wf st') st'"
        unfolding unat_u8n [OF le_less_trans [OF cs(2)], simplified] subtile_palette(1) [OF cs(1,2)] .
    qed
    then show ?thesis
      by (simp add: PackedTile)
  next
    case (RunTile runs)
    have runs: "list_all (\<lambda>r. 0 < snd r) runs" "0 + total runs = tw * th"
      using assms(1) RunTile by simp_all
    have "yields (zrle_tile zl tw th) ([128] @ concat (map enc_run runs))
        (\<lambda>d st'. depicts (tw * th) (painted_runs runs) d \<and> zrle_wf st') st"
    proof (rule sub)
      fix st' :: "'z zrle"
      assume st': "zr_tile st' = zr_tile st" "zr_pixels st' = zr_pixels st"
      have "yields (\<lambda>st. seqr (decodeRLETile zl (tw * th) st) (\<lambda>_ st. ret (TileBlit (zr_tile st)) st))
          (concat (map enc_run runs)) (\<lambda>d st'. depicts (tw * th) (painted_runs runs) d \<and> zrle_wf st') st'"
        unfolding decodeRLETile_def using runs(2)
        by (intro yields_blit yields_rle runs room [OF st']) (simp add: length_painted_runs)
      then show "yields (zrle_subtile zl tw th (unat (128::byte))) (concat (map enc_run runs))
          (\<lambda>d st'. depicts (tw * th) (painted_runs runs) d \<and> zrle_wf st') st'"
        by (simp add: zrle_subtile_def [abs_def])
    qed
    then show ?thesis
      by (simp add: RunTile)
  next
    case (PaletteRunTile cs runs)
    let ?px = "painted_indices cs runs"
    have cs: "2 \<le> length cs" "length cs \<le> 127" "length ?px = 4 * (tw * th)"
      using assms(1) PaletteRunTile by (simp_all add: length_painted_indices)
    have "yields (zrle_tile zl tw th)
        ([u8n (length cs + 128)] @ (concat (map enc_colour cs) @ concat (map enc_index runs)))
        (\<lambda>d st'. depicts (tw * th) ?px d \<and> zrle_wf st') st"
    proof (rule sub)
      fix st' :: "'z zrle"
      assume st': "zr_tile st' = zr_tile st" "zr_pixels st' = zr_pixels st"
      have "yields (\<lambda>st. seqr (decodeRLEPaletteTile zl (length cs) (tw * th) st) (\<lambda>_ st. ret (TileBlit (zr_tile st)) st))
        (concat (map enc_colour cs) @ concat (map enc_index runs)) (\<lambda>d st'. depicts (tw * th) ?px d \<and> zrle_wf st') st'"
        using assms(1) PaletteRunTile
        by (intro yields_blit yields_palette_runs cs(3) room(1,4) [OF st'] area) simp
      then show "yields (zrle_subtile zl tw th (unat (u8n (length cs + 128))))
        (concat (map enc_colour cs) @ concat (map enc_index runs)) (\<lambda>d st'. depicts (tw * th) ?px d \<and> zrle_wf st') st'"
        using cs(2) by (simp only: unat_u8n [of "length cs + 128"] subtile_palette(2) [OF cs(1,2)])
    qed
    then show ?thesis
      by (simp add: PaletteRunTile)
  qed
qed

end

section \<open>Tiles are drawn as they were encoded\<close>

text \<open>The law holds of a zlib without compression, whose inflated stream is the input itself.\<close>

interpretation plain_stream: inflating plain_zlib "\<lambda>zi bs. z_input zi = bs"
proof
  show "inflates plain_zlib (\<lambda>zi bs. z_input zi = bs)"
    by (auto simp: inflates_def inflate_def plain_zlib_def z_view_def z_resize_def)
qed

text \<open>C16. A ZRLE tile shows the pixels that the server encoded, whichever of the five kinds of tile it
  chose (raw, one colour, packed indices of 1, 2 or 4 bits with each row starting a byte, runs of
  colours, runs of palette indices), and the decoder takes exactly the tile's bytes from the
  inflated stream: the next tile starts where this one ends.  zlib is any that gives the inflated
  bytes, one or more at a time, in their order (\<open>inflates\<close>).\<close>

theorem zrle_tile_roundtrip:
  assumes "inflates zl R" "R (zr_inflator st) (enc_tile t @ rest)" "zrle_wf st"
    and "tile_ok tw th t" "0 < tw" "tw \<le> ZRLE_TILE" "0 < th" "th \<le> ZRLE_TILE"
  shows "\<exists>d st'. zrle_tile zl tw th st = ret d st' \<and> depicts (tw * th) (tile_pixels (tw * th) t) d
    \<and> zrle_wf st' \<and> R (zr_inflator st') rest"
  using inflating.yields_tile_of_kind [OF inflating.intro [OF assms(1)] assms(4,5,7,6,8,3)] assms(2)
  by (auto simp: inflating.yields_def [OF inflating.intro [OF assms(1)]])

definition checkered :: tile where
  "checkered = PackedTile [(1, 2, 3), (4, 5, 6)] [[0, 1, 0], [1, 0, 1]]"

definition checkered_zrle :: "unit zrle" where
  "checkered_zrle = (new_zrle plain_zlib)\<lparr>zr_inflator := setInput (Some (enc_tile checkered @ [9])) (new_inflator plain_zlib)\<rparr>"

theorem zrle_tile_roundtrip_witness:
  "\<exists>d st'. zrle_tile plain_zlib 3 2 checkered_zrle = ret d st'
    \<and> depicts 6 [1, 2, 3, 255, 4, 5, 6, 255, 1, 2, 3, 255, 4, 5, 6, 255, 1, 2, 3, 255, 4, 5, 6, 255] d
    \<and> z_input (zr_inflator st') = [9]"
  using zrle_tile_roundtrip [OF plain_stream.stream, of checkered_zrle checkered "[9]" 3 2]
  by (auto simp: checkered_zrle_def checkered_def zrle_wf_def new_zrle_def setInput_def)

text \<open>The test of an index against the size of the palette lets the size itself pass: the pixel is
  taken from behind the palette, where an earlier tile has left its bytes.\<close>

lemma zrle_index_past_palette:
  assumes "offset < tileSize" "palette_run zl st = ret (paletteSize, 1) st'"
  shows "decodeRLEPaletteTile_from zl paletteSize tileSize offset st =
    decodeRLEPaletteTile_from zl paletteSize tileSize (Suc offset)
      (st'\<lparr>zr_tile := copy_pixel (zr_pixels st') paletteSize offset (zr_tile st')\<rparr>)"
  using assms
  by (subst decodeRLEPaletteTile_from.simps) (simp add: seqr_def ret_def run_pixels_def)

end
