(* ===== verification/Reader.thy ===== *)
theory Reader
  imports Resumable
begin

text \<open>
  Decoders written as a sequence of steps, each of which may find that bytes are missing.

  A reader works on a state of its own and on the socket; it ends with a value, with the answer
  that more bytes are needed (\<open>return false\<close> after \<open>rQwait\<close>), or with an exception.  The rules show
  of a decoder made of such steps that a call that was interrupted has only been interrupted: when
  it is made again with more bytes, the outcome is that of a single call with all of them.  From
  this follows the contract of \<open>Resumable\<close>.
\<close>

section \<open>Readers\<close>

type_synonym ('a, 's) reader = "'s \<Rightarrow> websock \<Rightarrow> (js_error + 'a option) \<times> 's \<times> websock"

definition rd_ret :: "'a \<Rightarrow> ('a, 's) reader" where
  "rd_ret a st s = (Inr (Some a), st, s)"

definition rd_bind :: "('a, 's) reader \<Rightarrow> ('a \<Rightarrow> ('b, 's) reader) \<Rightarrow> ('b, 's) reader" where
  "rd_bind m f st s =
     (case m st s of
        (Inl e, st, s) \<Rightarrow> (Inl e, st, s)
      | (Inr None, st, s) \<Rightarrow> (Inr None, st, s)
      | (Inr (Some a), st, s) \<Rightarrow> f a st s)"

text \<open>\<open>if (sock.rQwait(msg, n)) return false\<close>, and then \<open>g\<close> reads some of these bytes.\<close>

definition rd_take :: "nat \<Rightarrow> (websock \<Rightarrow> 'a \<times> websock) \<Rightarrow> ('a, 's) reader" where
  "rd_take n g st s = (if rQwait n s then (Inr None, st, s) else case g s of (a, s) \<Rightarrow> (Inr (Some a), st, s))"

text \<open>What touches the state alone, and may throw.\<close>

definition rd_state :: "('s \<Rightarrow> (js_error + 'a) \<times> 's) \<Rightarrow> ('a, 's) reader" where
  "rd_state f st s =
     (case f st of (Inl e, st) \<Rightarrow> (Inl e, st, s) | (Inr a, st) \<Rightarrow> (Inr (Some a), st, s))"

definition rd_set :: "('s \<Rightarrow> 's) \<Rightarrow> (unit, 's) reader" where
  "rd_set f = rd_state (\<lambda>st. (Inr (), f st))"

text \<open>A step that depends on the state it finds.\<close>

definition rd_case :: "('s \<Rightarrow> 'c) \<Rightarrow> ('c \<Rightarrow> ('a, 's) reader) \<Rightarrow> ('a, 's) reader" where
  "rd_case c m st s = m (c st) st s"

section \<open>The unread bytes\<close>

definition over :: "byte list \<Rightarrow> websock" where
  "over u = new_websock\<lparr>rQ := u, rQi := 0, rQlen := length u\<rparr>"

lemma over_ok [simp]: "rq_ok (over u)" "unread (over u) = u"
  by (simp_all add: over_def rq_ok_def unread_def)

section \<open>Steps that read\<close>

text \<open>\<open>g\<close> reads at most the first \<open>n\<close> bytes, and nothing else decides what it does.\<close>

definition eats :: "nat \<Rightarrow> (websock \<Rightarrow> 'a \<times> websock) \<Rightarrow> bool" where
  "eats n g \<longleftrightarrow> (\<forall>s t. rq_ok s \<longrightarrow> rq_ok t \<longrightarrow> n \<le> length (unread s) \<longrightarrow> n \<le> length (unread t) \<longrightarrow>
     take n (unread s) = take n (unread t) \<longrightarrow>
     (\<exists>a k. k \<le> n \<and> g s = (a, adv k s) \<and> g t = (a, adv k t)))"

lemma eatsE:
  assumes "eats n g" "rq_ok s" "rq_ok t" "n \<le> length (unread s)" "n \<le> length (unread t)"
    "take n (unread s) = take n (unread t)"
  obtains a k where "k \<le> n" "g s = (a, adv k s)" "g t = (a, adv k t)"
  using assms unfolding eats_def by blast

lemma eatsI:
  assumes "\<And>s t. rq_ok s \<Longrightarrow> rq_ok t \<Longrightarrow> n \<le> length (unread s) \<Longrightarrow> n \<le> length (unread t) \<Longrightarrow>
     take n (unread s) = take n (unread t) \<Longrightarrow> \<exists>a k. k \<le> n \<and> g s = (a, adv k s) \<and> g t = (a, adv k t)"
  shows "eats n g"
  using assms by (simp add: eats_def)

lemma take_nth: "take n u = take n v \<Longrightarrow> i < n \<Longrightarrow> u ! i = v ! i"
  using nth_take [of i n u] nth_take [of i n v] by simp

lemma rQshift_ok:
  "rq_ok s \<Longrightarrow> rq_ok t \<Longrightarrow> n \<le> length (unread s) \<Longrightarrow> n \<le> length (unread t) \<Longrightarrow>
     take n (unread s) = take n (unread t) \<Longrightarrow>
     \<exists>a. rQshift n res s = (a, adv n s) \<and> rQshift n res t = (a, adv n t)"
proof (induction n arbitrary: s t res)
  case (Suc n)
  have "0 < length (unread s)" "0 < length (unread t)"
    using Suc.prems(3,4) by linarith+
  then have b: "js_byte (rQ s) (rQi s) = js_byte (rQ t) (rQi t)"
    using js_byte_ok [of s 0] js_byte_ok [of t 0] take_nth [OF Suc.prems(5), of 0] Suc.prems
    by simp
  have i: "x\<lparr>rQi := Suc (rQi x)\<rparr> = adv 1 x" for x :: websock
    by (simp add: adv_def)
  have "take n (unread (adv 1 s)) = take n (unread (adv 1 t))"
    using Suc.prems(5) by (simp add: adv_unread take_drop)
  then show ?case
    using Suc.IH [OF adv_ok [of s 1] adv_ok [of t 1], of "res + js_shl (int (js_byte (rQ t) (rQi t))) (n * 8)"]
      Suc.prems by (auto simp: b i adv_unread)
qed simp

lemma eats_rQshift: "eats n (rQshift n 0)"
proof (rule eatsI)
  fix s t
  assume "rq_ok s" "rq_ok t" "n \<le> length (unread s)" "n \<le> length (unread t)" "take n (unread s) = take n (unread t)"
  from rQshift_ok [OF this, of 0] show "\<exists>a k. k \<le> n \<and> rQshift n 0 s = (a, adv k s) \<and> rQshift n 0 t = (a, adv k t)"
    by blast
qed

lemma eats_shift: "eats 1 rQshift8" "eats 2 rQshift16" "eats 4 rQshift32"
  unfolding rQshift8_def [abs_def] rQshift16_def [abs_def] rQshift32_def [abs_def] by (rule eats_rQshift)+

lemma eats_bytes: "eats n (rQshiftBytes n)"
proof (rule eatsI)
  fix s t
  assume st: "rq_ok s" "rq_ok t" "n \<le> length (unread s)" "n \<le> length (unread t)" "take n (unread s) = take n (unread t)"
  have "take n (drop (rQi s) (rQ s)) = take n (unread s)" if "rq_ok s" "n \<le> length (unread s)" for s
    using that by (simp add: length_unread_ok unread_def)
  then show "\<exists>a k. k \<le> n \<and> rQshiftBytes n s = (a, adv k s) \<and> rQshiftBytes n t = (a, adv k t)"
    using st by (intro exI [of _ "take n (unread s)"] exI [of _ n]) (simp add: rQshiftBytes_def adv_def)
qed

lemma eats_skip: "eats n (\<lambda>s. ((), adv n s))"
  by (rule eatsI) (auto intro!: exI [of _ n])

text \<open>One read after the other.\<close>

lemma eats_then:
  assumes "eats n g" "\<And>a. eats m (f a)"
  shows "eats (n + m) (\<lambda>s. case g s of (a, s) \<Rightarrow> f a s)"
proof (rule eatsI)
  fix s t
  assume st: "rq_ok s" "rq_ok t" "n + m \<le> length (unread s)" "n + m \<le> length (unread t)"
    "take (n + m) (unread s) = take (n + m) (unread t)"
  have "take n (unread s) = take n (unread t)"
    using arg_cong [OF st(5), of "take n"] by simp
  then obtain a k where k: "k \<le> n" "g s = (a, adv k s)" "g t = (a, adv k t)"
    using st by (elim eatsE [OF assms(1), of s t]) simp_all
  have "take m (drop k (take (n + m) (unread s))) = take m (drop k (take (n + m) (unread t)))"
    using st(5) by simp
  then have "take m (unread (adv k s)) = take m (unread (adv k t))"
    using k(1) by (simp add: adv_unread drop_take min_def split: if_splits)
  moreover have "rq_ok (adv k s)" "rq_ok (adv k t)" "m \<le> length (unread (adv k s))" "m \<le> length (unread (adv k t))"
    using st k(1) by (auto simp: adv_ok adv_unread)
  ultimately obtain b l where "l \<le> m" "f a (adv k s) = (b, adv l (adv k s))" "f a (adv k t) = (b, adv l (adv k t))"
    by (elim eatsE [OF assms(2), of "adv k s" "adv k t" a])
  then show "\<exists>b l. l \<le> n + m \<and> (case g s of (a, s) \<Rightarrow> f a s) = (b, adv l s) \<and> (case g t of (a, s) \<Rightarrow> f a s) = (b, adv l t)"
    using k by (intro exI [of _ b] exI [of _ "k + l"]) simp
qed

lemma eats_ret: "eats n (\<lambda>s. (a, s))"
  by (rule eatsI) (auto intro!: exI [of _ 0])

lemma eats_mono: "eats n g \<Longrightarrow> n \<le> m \<Longrightarrow> eats m g"
proof (rule eatsI)
  fix s t
  assume *: "eats n g" "n \<le> m" "rq_ok s" "rq_ok t" "m \<le> length (unread s)" "m \<le> length (unread t)"
    "take m (unread s) = take m (unread t)"
  have "take n (unread s) = take n (unread t)"
    using arg_cong [OF *(7), of "take n"] *(2) by (simp add: min_def)
  then obtain a k where "k \<le> n" "g s = (a, adv k s)" "g t = (a, adv k t)"
    using *(2-6) by (elim eatsE [OF *(1), of s t]) simp_all
  then show "\<exists>a k. k \<le> m \<and> g s = (a, adv k s) \<and> g t = (a, adv k t)"
    using *(2) by (auto intro!: exI [of _ a] exI [of _ k])
qed

lemma eats_map:
  assumes "eats n g"
  shows "eats n (\<lambda>s. case g s of (a, s) \<Rightarrow> (f a, s))"
  using eats_then [OF assms eats_ret [of 0]] by simp

section \<open>Resumption\<close>

text \<open>
  A call with the bytes \<open>unread s\<close>, and one with these and \<open>bs\<close> behind them: if the first ends, the
  second ends alike; if the first needs more, the second is the first continued.
\<close>

definition resuming :: "('a, 's) reader \<Rightarrow> bool" where
  "resuming m \<longleftrightarrow> (\<forall>st s t bs. rq_ok s \<longrightarrow> rq_ok t \<longrightarrow> unread t = unread s @ bs \<longrightarrow>
     (\<exists>r st' k. k \<le> length (unread s) \<and> m st s = (r, st', adv k s)
        \<and> (if r = Inr None then m st t = m st' (adv k t) else m st t = (r, st', adv k t))
        \<and> (bs = [] \<longrightarrow> m st t = (r, st', adv k t))))"

text \<open>A step that needs more has done nothing yet; a prompt one never needs more.\<close>

definition still :: "('a, 's) reader \<Rightarrow> bool" where
  "still m \<longleftrightarrow> (\<forall>st s t bs. rq_ok s \<longrightarrow> rq_ok t \<longrightarrow> unread t = unread s @ bs \<longrightarrow>
     (\<exists>r st' k. k \<le> length (unread s) \<and> m st s = (r, st', adv k s)
        \<and> (if r = Inr None then st' = st \<and> k = 0 else m st t = (r, st', adv k t))
        \<and> (bs = [] \<longrightarrow> m st t = (r, st', adv k t))))"

definition prompt :: "('a, 's) reader \<Rightarrow> bool" where
  "prompt m \<longleftrightarrow> (\<forall>st s. rq_ok s \<longrightarrow> fst (m st s) \<noteq> Inr None)"

lemma promptD: "prompt m \<Longrightarrow> rq_ok s \<Longrightarrow> m st s = (r, st', s') \<Longrightarrow> r \<noteq> Inr None"
  unfolding prompt_def by (metis fst_conv)

lemma resumingE:
  assumes "resuming m" "rq_ok s" "rq_ok t" "unread t = unread s @ bs"
  obtains r st' k where "k \<le> length (unread s)" "m st s = (r, st', adv k s)"
    "if r = Inr None then m st t = m st' (adv k t) else m st t = (r, st', adv k t)"
    "bs = [] \<longrightarrow> m st t = (r, st', adv k t)"
  using assms unfolding resuming_def by metis

lemma stillE:
  assumes "still m" "rq_ok s" "rq_ok t" "unread t = unread s @ bs"
  obtains r st' k where "k \<le> length (unread s)" "m st s = (r, st', adv k s)"
    "if r = Inr None then st' = st \<and> k = 0 else m st t = (r, st', adv k t)"
    "bs = [] \<longrightarrow> m st t = (r, st', adv k t)"
  using assms unfolding still_def by metis

lemma stillI:
  assumes "\<And>st s t bs. rq_ok s \<Longrightarrow> rq_ok t \<Longrightarrow> unread t = unread s @ bs \<Longrightarrow>
     \<exists>r st' k. k \<le> length (unread s) \<and> m st s = (r, st', adv k s)
        \<and> (if r = Inr None then st' = st \<and> k = 0 else m st t = (r, st', adv k t))
        \<and> (bs = [] \<longrightarrow> m st t = (r, st', adv k t))"
  shows "still m"
  using assms unfolding still_def by blast

lemma still_resumes: "still m \<Longrightarrow> resuming m"
  unfolding resuming_def
proof (intro allI impI)
  fix st s t bs
  assume m: "still m" and st: "rq_ok s" "rq_ok t" "unread t = unread s @ bs"
  obtain r st' k where *: "k \<le> length (unread s)" "m st s = (r, st', adv k s)"
    "if r = Inr None then st' = st \<and> k = 0 else m st t = (r, st', adv k t)"
    "bs = [] \<longrightarrow> m st t = (r, st', adv k t)"
    by (rule stillE [OF m st, where st = st]) (erule (3) that)
  then show "\<exists>r st' k. k \<le> length (unread s) \<and> m st s = (r, st', adv k s)
        \<and> (if r = Inr None then m st t = m st' (adv k t) else m st t = (r, st', adv k t))
        \<and> (bs = [] \<longrightarrow> m st t = (r, st', adv k t))"
    by (intro exI [of _ r] exI [of _ st'] exI [of _ k]) auto
qed

named_theorems reader_intros \<open>rules by which a decoder can be resumed\<close>

lemma still_take [reader_intros]:
  assumes "eats n g"
  shows "still (rd_take n g)"
proof (rule stillI)
  fix st :: 's and s t bs
  assume st: "rq_ok s" "rq_ok t" "unread t = unread s @ bs"
  show "\<exists>r st' k. k \<le> length (unread s) \<and> rd_take n g st s = (r, st', adv k s)
        \<and> (if r = Inr None then st' = st \<and> k = 0 else rd_take n g st t = (r, st', adv k t))
        \<and> (bs = [] \<longrightarrow> rd_take n g st t = (r, st', adv k t))"
  proof (cases "length (unread s) < n")
    case True
    then show ?thesis
      using st by (intro exI [of _ "Inr None"] exI [of _ st] exI [of _ 0]) (auto simp: rd_take_def rQwait_ok)
  next
    case False
    obtain a k where "k \<le> n" "g s = (a, adv k s)" "g t = (a, adv k t)"
      by (rule eatsE [OF assms st(1,2)]) (use False st(3) in simp_all)
    then show ?thesis
      using st False
      by (intro exI [of _ "Inr (Some a)"] exI [of _ st] exI [of _ k]) (auto simp: rd_take_def rQwait_ok)
  qed
qed

lemma still_state [reader_intros]: "still (rd_state f)"
proof (rule stillI)
  fix st s t and bs :: "byte list"
  show "\<exists>r st' k. k \<le> length (unread s) \<and> rd_state f st s = (r, st', adv k s)
        \<and> (if r = Inr None then st' = st \<and> k = 0 else rd_state f st t = (r, st', adv k t))
        \<and> (bs = [] \<longrightarrow> rd_state f st t = (r, st', adv k t))"
  proof (cases "f st")
    case (Pair q st')
    then show ?thesis
      by (cases q; intro exI [of _ "case q of Inl e \<Rightarrow> Inl e | Inr a \<Rightarrow> Inr (Some a)"] exI [of _ st'] exI [of _ 0])
        (simp_all add: rd_state_def)
  qed
qed

lemma still_set [reader_intros]: "still (rd_set f)"
  unfolding rd_set_def by (rule still_state)

lemma still_ret [reader_intros]: "still (rd_ret a)"
  using still_state [of "\<lambda>st. (Inr a, st)"] by (simp add: rd_state_def [abs_def] rd_ret_def [abs_def])

lemma prompt_state [reader_intros]: "prompt (rd_state f)" "prompt (rd_set g)" "prompt (rd_ret a)"
  by (auto simp: prompt_def rd_set_def rd_state_def rd_ret_def split: prod.split sum.split)

lemma still_if [reader_intros]:
  "(b \<Longrightarrow> still m) \<Longrightarrow> (\<not> b \<Longrightarrow> still m') \<Longrightarrow> still (if b then m else m')"
  "(b \<Longrightarrow> prompt m) \<Longrightarrow> (\<not> b \<Longrightarrow> prompt m') \<Longrightarrow> prompt (if b then m else m')"
  "(b \<Longrightarrow> resuming m) \<Longrightarrow> (\<not> b \<Longrightarrow> resuming m') \<Longrightarrow> resuming (if b then m else m')"
  by simp_all

lemma still_case [reader_intros]: "(\<And>x. still (m x)) \<Longrightarrow> still (rd_case c m)"
  unfolding still_def rd_case_def by blast

lemma prompt_case [reader_intros]: "(\<And>x. prompt (m x)) \<Longrightarrow> prompt (rd_case c m)"
  unfolding prompt_def rd_case_def by blast

lemma prompt_bind [reader_intros]:
  assumes "still m" "prompt m" "\<And>a. prompt (f a)"
  shows "prompt (rd_bind m f)"
  unfolding prompt_def
proof (intro allI impI)
  fix st s
  assume s: "rq_ok s"
  obtain r st' k where k: "k \<le> length (unread s)" "m st s = (r, st', adv k s)"
    by (rule stillE [OF assms(1) s s, of "[]" st]) auto
  have "r \<noteq> Inr None"
    using promptD [OF assms(2) s k(2)] .
  then show "fst (rd_bind m f st s) \<noteq> Inr None"
    using assms(3) k(2) adv_ok [OF s k(1)] by (auto simp: rd_bind_def prompt_def split: sum.split option.split)
qed

text \<open>Behind a step that has not done anything unless it ended, steps that never wait.\<close>

lemma still_bind [reader_intros]:
  assumes "still m" "\<And>a. still (f a)" "\<And>a. prompt (f a)"
  shows "still (rd_bind m f)"
proof (rule stillI)
  fix st s t bs
  assume st: "rq_ok s" "rq_ok t" "unread t = unread s @ bs"
  obtain r st1 k where m: "k \<le> length (unread s)" "m st s = (r, st1, adv k s)"
    "if r = Inr None then st1 = st \<and> k = 0 else m st t = (r, st1, adv k t)"
    "bs = [] \<longrightarrow> m st t = (r, st1, adv k t)"
    by (rule stillE [OF assms(1) st, where st = st]) (erule (3) that)
  show "\<exists>r st' k. k \<le> length (unread s) \<and> rd_bind m f st s = (r, st', adv k s)
        \<and> (if r = Inr None then st' = st \<and> k = 0 else rd_bind m f st t = (r, st', adv k t))
        \<and> (bs = [] \<longrightarrow> rd_bind m f st t = (r, st', adv k t))"
  proof (cases "\<exists>a. r = Inr (Some a)")
    case True
    then obtain a where r: "r = Inr (Some a)"
      by blast
    have t: "m st t = (r, st1, adv k t)"
      using m(3) r by simp
    have u: "unread (adv k t) = unread (adv k s) @ bs" "rq_ok (adv k s)" "rq_ok (adv k t)"
      using m(1) st by (simp_all add: adv_unread adv_ok)
    obtain r' st2 l where f: "l \<le> length (unread (adv k s))" "f a st1 (adv k s) = (r', st2, adv l (adv k s))"
      "if r' = Inr None then st2 = st1 \<and> l = 0 else f a st1 (adv k t) = (r', st2, adv l (adv k t))"
      "bs = [] \<longrightarrow> f a st1 (adv k t) = (r', st2, adv l (adv k t))"
      by (rule stillE [OF assms(2) u(2,3,1), where st = st1]) (erule (3) that)
    have "r' \<noteq> Inr None"
      using promptD [OF assms(3) u(2) f(2)] .
    then show ?thesis
      using m(1,2) t r f by (intro exI [of _ r'] exI [of _ st2] exI [of _ "k + l"]) (auto simp: rd_bind_def adv_unread)
  next
    case False
    have "rd_bind m f x y = (case r of Inl e \<Rightarrow> Inl e | Inr _ \<Rightarrow> Inr None, st1, adv k y)"
      if "m x y = (r, st1, adv k y)" for x y
      using that False by (auto simp: rd_bind_def split: sum.split option.split)
    then show ?thesis
      using m False
      by (intro exI [of _ "case r of Inl e \<Rightarrow> Inl e | Inr _ \<Rightarrow> Inr None"] exI [of _ st1] exI [of _ k])
        (auto split: sum.splits)
  qed
qed

text \<open>
  A step that may wait after it has stored what it read, and the steps behind it: when one of these
  waits, the first step, called again, must give the same value at once.
\<close>

lemma resuming_bind [reader_intros]:
  assumes "resuming m" "\<And>a. resuming (f a)"
    and skip: "\<And>st s a st1 k st2 l t. rq_ok s \<Longrightarrow> k \<le> length (unread s) \<Longrightarrow> m st s = (Inr (Some a), st1, adv k s) \<Longrightarrow>
      f a st1 (adv k s) = (Inr None, st2, adv l (adv k s)) \<Longrightarrow> m st2 t = (Inr (Some a), st2, t)"
  shows "resuming (rd_bind m f)"
  unfolding resuming_def
proof (intro allI impI)
  fix st s t bs
  assume st: "rq_ok s" "rq_ok t" "unread t = unread s @ bs"
  obtain r st1 k where m: "k \<le> length (unread s)" "m st s = (r, st1, adv k s)"
    "if r = Inr None then m st t = m st1 (adv k t) else m st t = (r, st1, adv k t)"
    "bs = [] \<longrightarrow> m st t = (r, st1, adv k t)"
    by (rule resumingE [OF assms(1) st, where st = st]) (erule (3) that)
  show "\<exists>r st' k. k \<le> length (unread s) \<and> rd_bind m f st s = (r, st', adv k s)
        \<and> (if r = Inr None then rd_bind m f st t = rd_bind m f st' (adv k t) else rd_bind m f st t = (r, st', adv k t))
        \<and> (bs = [] \<longrightarrow> rd_bind m f st t = (r, st', adv k t))"
  proof (cases "\<exists>a. r = Inr (Some a)")
    case True
    then obtain a where r: "r = Inr (Some a)"
      by blast
    have t: "m st t = (r, st1, adv k t)"
      using m(3) r by simp
    have u: "unread (adv k t) = unread (adv k s) @ bs" "rq_ok (adv k s)" "rq_ok (adv k t)"
      using m(1) st by (simp_all add: adv_unread adv_ok)
    obtain r' st2 l where f: "l \<le> length (unread (adv k s))" "f a st1 (adv k s) = (r', st2, adv l (adv k s))"
      "if r' = Inr None then f a st1 (adv k t) = f a st2 (adv l (adv k t))
       else f a st1 (adv k t) = (r', st2, adv l (adv k t))"
      "bs = [] \<longrightarrow> f a st1 (adv k t) = (r', st2, adv l (adv k t))"
      by (rule resumingE [OF assms(2) u(2,3,1), where st = st1]) (erule (3) that)
    have "r' = Inr None \<Longrightarrow> m st2 (adv l (adv k t)) = (Inr (Some a), st2, adv l (adv k t))"
      by (rule skip [OF st(1) m(1) m(2) [unfolded r]]) (use f(2) in simp)
    then show ?thesis
      using m(1,2) t r f by (intro exI [of _ r'] exI [of _ st2] exI [of _ "k + l"]) (auto simp: rd_bind_def adv_unread)
  next
    case False
    have b: "rd_bind m f x y = (case r of Inl e \<Rightarrow> Inl e | Inr _ \<Rightarrow> Inr None, st1, adv k y)"
      if "m x y = (r, st1, adv k y)" for x y
      using that False by (auto simp: rd_bind_def split: sum.split option.split)
    have n: "rd_bind m f st t = rd_bind m f st1 (adv k t)" if "r = Inr None"
      using m(3) that by (simp add: rd_bind_def)
    show ?thesis
      using m False b n
      by (intro exI [of _ "case r of Inl e \<Rightarrow> Inl e | Inr _ \<Rightarrow> Inr None"] exI [of _ st1] exI [of _ k])
        (auto split: sum.splits)
  qed
qed

text \<open>The part of the state that decides stays as it is while a step waits.\<close>

lemma resuming_case [reader_intros]:
  assumes "\<And>x. resuming (m x)"
    and "\<And>x st s st' s'. rq_ok s \<Longrightarrow> c st = x \<Longrightarrow> m x st s = (Inr None, st', s') \<Longrightarrow> c st' = x"
  shows "resuming (rd_case c m)"
  unfolding resuming_def rd_case_def
proof (intro allI impI)
  fix st s t bs
  assume st: "rq_ok s" "rq_ok t" "unread t = unread s @ bs"
  obtain r st1 k where m: "k \<le> length (unread s)" "m (c st) st s = (r, st1, adv k s)"
    "if r = Inr None then m (c st) st t = m (c st) st1 (adv k t) else m (c st) st t = (r, st1, adv k t)"
    "bs = [] \<longrightarrow> m (c st) st t = (r, st1, adv k t)"
    by (rule resumingE [OF assms(1) st, where st = st, of "c st"]) (erule (3) that)
  have "r = Inr None \<Longrightarrow> c st1 = c st"
    using assms(2) [OF st(1) refl] m(2) by simp
  then show "\<exists>r st' k. k \<le> length (unread s) \<and> m (c st) st s = (r, st', adv k s)
        \<and> (if r = Inr None then m (c st) st t = m (c st') st' (adv k t) else m (c st) st t = (r, st', adv k t))
        \<and> (bs = [] \<longrightarrow> m (c st) st t = (r, st', adv k t))"
    using m by (intro exI [of _ r] exI [of _ st1] exI [of _ k]) auto
qed

section \<open>Readers as decoders\<close>

definition decoder_of :: "(unit, 'd \<times> 'p) reader \<Rightarrow> 'd \<Rightarrow> websock \<Rightarrow> 'p \<Rightarrow> ('d, 'p) decoded" where
  "decoder_of m d s p =
     (case m (d, p) s of (r, (d, p), s) \<Rightarrow> (case r of Inl e \<Rightarrow> Inl e | Inr q \<Rightarrow> Inr (q \<noteq> None), d, s, p))"

text \<open>What it does as a function of the unread bytes.\<close>

definition bytes_of :: "(unit, 'd \<times> 'p) reader \<Rightarrow> 'd \<Rightarrow> byte list \<Rightarrow> 'p \<Rightarrow> ('d, 'p) decoded_bytes" where
  "bytes_of m d u p = (case decoder_of m d (over u) p of (r, d, s, p) \<Rightarrow> (r, d, unread s, p))"

lemma bytes_of_unread:
  assumes "resuming m" "rq_ok s" "unread s = u"
  obtains r d' p' k where "m (d, p) s = (r, (d', p'), adv k s)" "m (d, p) (over u) = (r, (d', p'), adv k (over u))"
    "k \<le> length u" "bytes_of m d u p = (case r of Inl e \<Rightarrow> Inl e | Inr q \<Rightarrow> Inr (q \<noteq> None), d', drop k u, p')"
proof -
  have u: "unread (over u) = unread s @ []"
    using assms(3) by simp
  obtain r st k where m: "k \<le> length (unread s)" "m (d, p) s = (r, st, adv k s)"
    "[] = ([] :: byte list) \<longrightarrow> m (d, p) (over u) = (r, st, adv k (over u))"
    by (rule resumingE [OF assms(1,2) over_ok(1) u, where st = "(d, p)"]) (erule (1) that)
  obtain d' p' where "st = (d', p')"
    by (cases st)
  then show ?thesis
    using m assms(3) by (intro that [of r d' p' k]) (simp_all add: bytes_of_def decoder_of_def adv_unread)
qed

lemma resuming_resumable:
  assumes "resuming m"
  shows "resumable (decoder_of m) (bytes_of m) (\<lambda>_ _. True)"
proof
  fix d p s r d' s' p'
  assume s: "rq_wf s" and dec: "decoder_of m d s p = (r, d', s', p')"
  obtain q d1 p1 k where "m (d, p) s = (q, (d1, p1), adv k s)" "k \<le> length (unread s)"
    "bytes_of m d (unread s) p = (case q of Inl e \<Rightarrow> Inl e | Inr q \<Rightarrow> Inr (q \<noteq> None), d1, drop k (unread s), p1)"
    by (rule bytes_of_unread [OF assms rq_wf_ok [OF s] refl]) (erule (2) that)
  then show "rq_wf s' \<and> bytes_of m d (unread s) p = (r, d', unread s', p')"
    using dec s by (auto simp: decoder_of_def adv_wf adv_unread)
next
  fix d p u r d' u' p'
  assume sp: "bytes_of m d u p = (r, d', u', p')"
  obtain k where "u' = drop k u"
    by (rule bytes_of_unread [OF assms over_ok, of d p u]) (use sp in auto)
  then show "length u' \<le> length u"
    by simp
next
  fix d p u bs
  have u: "unread (over (u @ bs)) = unread (over u) @ bs"
    by simp
  obtain r st k where m: "k \<le> length (unread (over u))" "m (d, p) (over u) = (r, st, adv k (over u))"
    "if r = Inr None then m (d, p) (over (u @ bs)) = m st (adv k (over (u @ bs)))
     else m (d, p) (over (u @ bs)) = (r, st, adv k (over (u @ bs)))"
    by (rule resumingE [OF assms over_ok(1) over_ok(1) u, where st = "(d, p)"]) (erule (2) that)
  obtain d' p' where st: "st = (d', p')"
    by (cases st)
  have k: "k \<le> length u" "drop k (u @ bs) = drop k u @ bs"
    using m(1) by simp_all
  show "bytes_of m d (u @ bs) p = resume (bytes_of m) (bytes_of m d u p) bs"
  proof (cases "r = Inr None")
    case True
    let ?t = "adv k (over (u @ bs))"
    have t: "rq_ok ?t" "unread ?t = drop k u @ bs"
      using k by (simp_all add: adv_ok adv_unread)
    obtain q d2 p2 l where "m (d', p') ?t = (q, (d2, p2), adv l ?t)" "l \<le> length (drop k u @ bs)"
      "bytes_of m d' (drop k u @ bs) p' =
         (case q of Inl e \<Rightarrow> Inl e | Inr q \<Rightarrow> Inr (q \<noteq> None), d2, drop l (drop k u @ bs), p2)"
      by (rule bytes_of_unread [OF assms t]) (erule (2) that)
    then show ?thesis
      using m(2,3) True st k by (simp add: bytes_of_def decoder_of_def resume_def adv_unread add.commute)
  next
    case False
    then show ?thesis
      using m(2,3) st k by (auto simp: bytes_of_def decoder_of_def resume_def adv_unread split: sum.splits)
  qed
qed (simp_all)

section \<open>What a step leaves alone\<close>

text \<open>\<open>m\<close> does not change the part \<open>c\<close> of the state, whatever its outcome.\<close>

definition keeps :: "('s \<Rightarrow> 'c) \<Rightarrow> ('a, 's) reader \<Rightarrow> bool" where
  "keeps c m \<longleftrightarrow> (\<forall>st s. c (fst (snd (m st s))) = c st)"

named_theorems keeps_intros \<open>rules for the parts of the state that a step leaves alone\<close>

lemma keepsD: "keeps c m \<Longrightarrow> m st s = (r, st', s') \<Longrightarrow> c st' = c st"
  unfolding keeps_def by (metis fst_conv snd_conv)

lemma keeps_bind [keeps_intros]:
  assumes "keeps c m" "\<And>a. keeps c (f a)"
  shows "keeps c (rd_bind m f)"
  unfolding keeps_def
proof (intro allI)
  fix st s
  obtain r st1 s1 where m: "m st s = (r, st1, s1)"
    by (cases "m st s")
  have 1: "c st1 = c st"
    by (rule keepsD [OF assms(1) m])
  have 2: "c (fst (snd (f a st1 s1))) = c st1" for a
    using assms(2) by (simp add: keeps_def)
  show "c (fst (snd (rd_bind m f st s))) = c st"
    using 1 2 by (simp add: rd_bind_def m split: sum.split option.split)
qed

lemma keeps_take [keeps_intros]: "keeps c (rd_take n g)"
  by (simp add: keeps_def rd_take_def split: prod.split)

lemma keeps_ret [keeps_intros]: "keeps c (rd_ret a)"
  by (simp add: keeps_def rd_ret_def)

lemma keeps_state [keeps_intros]:
  assumes "\<And>st. c (snd (f st)) = c st"
  shows "keeps c (rd_state f)"
proof -
  have "c st' = c st" if "f st = (r, st')" for st r st'
    using assms [of st] that by simp
  then show ?thesis
    by (auto simp: keeps_def rd_state_def split: prod.split sum.split)
qed

lemma keeps_set [keeps_intros]: "(\<And>st. c (f st) = c st) \<Longrightarrow> keeps c (rd_set f)"
  unfolding rd_set_def by (rule keeps_state) simp

lemma keeps_case [keeps_intros]: "(\<And>x. keeps c (m x)) \<Longrightarrow> keeps c (rd_case c' m)"
  by (simp add: keeps_def rd_case_def)

lemma keeps_if [keeps_intros]: "keeps c m \<Longrightarrow> keeps c m' \<Longrightarrow> keeps c (if b then m else m')"
  by simp

lemma still_option [reader_intros]:
  "still m \<Longrightarrow> (\<And>x. still (f x)) \<Longrightarrow> still (case q of None \<Rightarrow> m | Some x \<Rightarrow> f x)"
  by (simp split: option.split)

lemma keeps_option [keeps_intros]:
  "keeps c m \<Longrightarrow> (\<And>x. keeps c (f x)) \<Longrightarrow> keeps c (case q of None \<Rightarrow> m | Some x \<Rightarrow> f x)"
  by (simp split: option.split)

text \<open>The usual way in which a first step has no more to do: it finds in the state what it stored.\<close>

definition stores :: "('s \<Rightarrow> 'c) \<Rightarrow> ('a \<Rightarrow> 'c) \<Rightarrow> ('a, 's) reader \<Rightarrow> bool" where
  "stores c v m \<longleftrightarrow> (\<forall>st s a st' s'. m st s = (Inr (Some a), st', s') \<longrightarrow> c st' = v a)"

lemma storesD: "stores c v m \<Longrightarrow> m st s = (Inr (Some a), st', s') \<Longrightarrow> c st' = v a"
  unfolding stores_def by blast

text \<open>The same, but only asked of the calls that end in waiting.\<close>

lemma resuming_ok:
  assumes "resuming m" "rq_ok s" "m st s = (r, st', s')"
  shows "rq_ok s'"
proof -
  obtain k r1 st1 where "k \<le> length (unread s)" "m st s = (r1, st1, adv k s)"
    using assms(1,2) unfolding resuming_def by (metis append_Nil2)
  then show ?thesis
    using assms(2,3) adv_ok by simp
qed

definition awaits :: "('s \<Rightarrow> 'c) \<Rightarrow> ('a, 's) reader \<Rightarrow> bool" where
  "awaits c m \<longleftrightarrow> (\<forall>st s st' s'. rq_ok s \<longrightarrow> m st s = (Inr None, st', s') \<longrightarrow> c st' = c st)"

lemma awaits_prompt: "prompt m \<Longrightarrow> awaits c m"
  unfolding awaits_def by (intro allI impI) (drule (2) promptD, simp)

lemma awaits_keeps: "keeps c m \<Longrightarrow> awaits c m"
  unfolding awaits_def by (intro allI impI) (rule keepsD)

lemma awaits_if: "(b \<Longrightarrow> awaits c m) \<Longrightarrow> (\<not> b \<Longrightarrow> awaits c m') \<Longrightarrow> awaits c (if b then m else m')"
  by simp

lemma awaits_bind:
  assumes "keeps c m" "resuming m" "\<And>a. awaits c (f a)"
  shows "awaits c (rd_bind m f)"
  unfolding awaits_def
proof (intro allI impI)
  fix st s st' s'
  assume s: "rq_ok s" and b: "rd_bind m f st s = (Inr None, st', s')"
  obtain r st1 s1 where m: "m st s = (r, st1, s1)"
    by (cases "m st s")
  have ok: "rq_ok s1"
    by (rule resuming_ok [OF assms(2) s m])
  have c: "c st1 = c st"
    by (rule keepsD [OF assms(1) m])
  have f: "f a st1 s1 = (Inr None, st', s') \<Longrightarrow> c st' = c st1" for a
    by (rule assms(3) [unfolded awaits_def, rule_format, OF ok])
  have "st' = st1 \<or> (\<exists>a. f a st1 s1 = (Inr None, st', s'))"
  proof (cases r)
    case (Inr q)
    then show ?thesis
      using b by (cases q) (auto simp: rd_bind_def m)
  qed (use b in \<open>simp add: rd_bind_def m\<close>)
  then show "c st' = c st"
  proof
    assume "st' = st1"
    then show ?thesis
      using c by (simp only:)
  next
    assume "\<exists>a. f a st1 s1 = (Inr None, st', s')"
    then obtain a where "f a st1 s1 = (Inr None, st', s')" ..
    then show ?thesis
      using f c by (simp only:)
  qed
qed

lemma resuming_stored:
  assumes "still m" "\<And>a. resuming (f a)" "stores c v m" "\<And>a. awaits c (f a)"
    and "\<And>a st t. c st = v a \<Longrightarrow> m st t = (Inr (Some a), st, t)"
  shows "resuming (rd_bind m f)"
proof (rule resuming_bind [OF still_resumes [OF assms(1)] assms(2)])
  fix st s a st1 k st2 l t
  assume *: "rq_ok s" "k \<le> length (unread s)" "m st s = (Inr (Some a), st1, adv k s)"
    "f a st1 (adv k s) = (Inr None, st2, adv l (adv k s))"
  have "c st2 = c st1"
    using assms(4) adv_ok [OF *(1,2)] *(4) unfolding awaits_def by blast
  then show "m st2 t = (Inr (Some a), st2, t)"
    using storesD [OF assms(3) *(3)] by (intro assms(5)) simp
qed

text \<open>Steps that never wait may follow any step.\<close>

lemma resuming_prompt:
  assumes "resuming m" "\<And>a. still (f a)" "\<And>a. prompt (f a)"
  shows "resuming (rd_bind m f)"
proof (rule resuming_bind [OF assms(1) still_resumes [OF assms(2)]])
  fix st s a st1 k st2 l t
  assume "rq_ok s" "k \<le> length (unread s)" "f a st1 (adv k s) = (Inr None, st2, adv l (adv k s))"
  then show "m st2 t = (Inr (Some a), st2, t)"
    using promptD [OF assms(3)] adv_ok by blast
qed

end
