(* ===== verification/DecTight.thy ===== *)
theory DecTight
  imports Reader DecZrle
begin

text \<open>
  Model of \<open>core/decoders/tight.js\<close> and \<open>core/decoders/tightpng.js\<close>, written as readers
  (\<open>Reader\<close>) over the decoder's fields and the display.  The subclass for TightPNG differs in two
  methods; \<open>png\<close> says which class it is.
\<close>

section \<open>State\<close>

record 'z tight =
  t_ctl :: "nat option"
  t_filter :: "nat option"
  t_numColors :: nat
  t_palette :: "byte list"
  t_len :: nat
  t_zlibs :: "'z inflator list"
  t_scratch :: "byte list option"

type_synonym ('a, 'z) tight_reader = "('a, 'z tight \<times> display) reader"

definition new_tight :: "'z zlib \<Rightarrow> 'z tight" where
  "new_tight zl = \<lparr>t_ctl = None, t_filter = None, t_numColors = 0, t_palette = replicate 1024 0, t_len = 0,
     t_zlibs = replicate 4 (new_inflator zl), t_scratch = None\<rparr>"

definition t_set :: "('z tight \<Rightarrow> 'z tight) \<Rightarrow> (unit, 'z) tight_reader" where
  "t_set f = rd_set (\<lambda>(st, d). (f st, d))"

definition t_case :: "('z tight \<Rightarrow> 'c) \<Rightarrow> ('c \<Rightarrow> ('a, 'z) tight_reader) \<Rightarrow> ('a, 'z) tight_reader" where
  "t_case c = rd_case (\<lambda>p. c (fst p))"

definition rd_raise :: "js_error \<Rightarrow> ('a, 's) reader" where
  "rd_raise e = rd_state (\<lambda>st. (Inl e, st))"

definition t_blit :: "int \<Rightarrow> int \<Rightarrow> nat \<Rightarrow> nat \<Rightarrow> byte list \<Rightarrow> (unit, 'z) tight_reader" where
  "t_blit x y width height data = rd_state (\<lambda>(st, d).
     case blitImage x y (int width) (int height) (view_of data) 0 d of
       Inl e \<Rightarrow> (Inl e, st, d) | Inr d \<Rightarrow> (Inr (), st, d))"

definition t_image :: "int \<Rightarrow> int \<Rightarrow> nat \<Rightarrow> nat \<Rightarrow> string \<Rightarrow> byte list \<Rightarrow> (unit, 'z) tight_reader" where
  "t_image x y width height mime data = rd_state (\<lambda>(st, d).
     case imageRect x y (int width) (int height) mime data d of
       (Some e, d) \<Rightarrow> (Inl e, st, d) | (None, d) \<Rightarrow> (Inr (), st, d))"

section \<open>Data with a length in front\<close>

text \<open>A length in one, two or three bytes, of which three have been waited for.\<close>

definition compactLength :: "websock \<Rightarrow> nat \<times> websock" where
  "compactLength s =
     (let (b, s) = rQshift8 s; len = b AND 0x7f in
      if b AND 0x80 \<noteq> 0 then
        let (b, s) = rQshift8 s; len = len OR push_bit 7 (b AND 0x7f) in
        if b AND 0x80 \<noteq> 0 then
          let (b, s) = rQshift8 s in (len OR push_bit 14 b, s)
        else (len, s)
      else (len, s))"

definition readDataLength :: "(nat, 'z) tight_reader" where
  "readDataLength = t_case t_len (\<lambda>len.
     if len = 0 then
       rd_bind (rd_take 3 compactLength) (\<lambda>len. rd_bind (t_set (\<lambda>st. st\<lparr>t_len := len\<rparr>)) (\<lambda>_. rd_ret len))
     else rd_ret len)"

definition readData :: "(byte list, 'z) tight_reader" where
  "readData =
     rd_bind readDataLength (\<lambda>len.
     rd_bind (rd_take len (rQshiftBytes len)) (\<lambda>data.
     rd_bind (t_set (\<lambda>st. st\<lparr>t_len := 0\<rparr>)) (\<lambda>_. rd_ret data)))"

text \<open>Bytes of a known number, as they are when they are few, or else compressed.\<close>

definition t_inflate :: "'z zlib \<Rightarrow> nat \<Rightarrow> nat \<Rightarrow> byte list \<Rightarrow> (byte list, 'z) tight_reader" where
  "t_inflate zl streamId n data = rd_state (\<lambda>(st, d).
     case inflate zl (int n) (setInput (Some data) (t_zlibs st ! streamId)) of
       (Inl e, zi) \<Rightarrow> (Inl e, st\<lparr>t_zlibs := (t_zlibs st)[streamId := zi]\<rparr>, d)
     | (Inr k, zi) \<Rightarrow> (Inr (z_view k zi), st\<lparr>t_zlibs := (t_zlibs st)[streamId := setInput None zi]\<rparr>, d))"

definition tight_bytes :: "'z zlib \<Rightarrow> nat \<Rightarrow> nat \<Rightarrow> (byte list, 'z) tight_reader" where
  "tight_bytes zl streamId uncompressedSize =
     (if uncompressedSize < 12 then rd_take uncompressedSize (rQshiftBytes uncompressedSize)
      else rd_bind readData (t_inflate zl streamId uncompressedSize))"

section \<open>The filters\<close>

definition copyFilter :: "'z zlib \<Rightarrow> nat \<Rightarrow> int \<Rightarrow> int \<Rightarrow> nat \<Rightarrow> nat \<Rightarrow> (unit, 'z) tight_reader" where
  "copyFilter zl streamId x y width height =
     (if width * height * 3 = 0 then rd_ret ()
      else rd_bind (tight_bytes zl streamId (width * height * 3)) (\<lambda>data.
        t_blit x y width height (rgbx (width * height) data)))"

text \<open>
  A palette of up to 256 colours, read into the decoder's array when all of it has arrived.
\<close>

definition paletteHeader :: "(nat, 'z) tight_reader" where
  "paletteHeader p s =
     (if rQwait 1 s then (Inr None, p, s)
      else
        let numColors = rQpeek8 s + 1; paletteSize = numColors * 3
        in if rQwait (1 + paletteSize) s then (Inr None, p, s)
           else
             let st = (fst p)\<lparr>t_numColors := numColors\<rparr>; s = rQskipBytes 1 s
             in case rQshiftTo (t_palette st) paletteSize s of
                  Inl e \<Rightarrow> (Inl e, (st, snd p), s)
                | Inr (palette, s) \<Rightarrow> (Inr (Some numColors), (st\<lparr>t_palette := palette\<rparr>, snd p), s))"

definition getScratchBuffer :: "nat \<Rightarrow> byte list option \<Rightarrow> byte list" where
  "getScratchBuffer n b = (case b of None \<Rightarrow> replicate n 0 | Some b \<Rightarrow> if length b < n then replicate n 0 else b)"

text \<open>The colour from element \<open>sp\<close> of the palette on, at element \<open>dp\<close> of the destination;
  \<open>None\<close> is the index \<open>NaN\<close>, for which the palette gives \<open>undefined\<close>.\<close>

definition put_colour :: "byte list \<Rightarrow> nat option \<Rightarrow> nat \<Rightarrow> byte list \<Rightarrow> byte list" where
  "put_colour palette sp dp dest =
     (let c = (\<lambda>i. case sp of None \<Rightarrow> 0 | Some sp \<Rightarrow> u8n (js_byte palette (sp + i)))
      in dest[dp := c 0, dp + 1 := c 1, dp + 2 := c 2, dp + 3 := 255])"

text \<open>The bits of a row: the byte and the bit in it, highest first, whole bytes and then the rest.\<close>

definition mono_bits :: "nat \<Rightarrow> (nat \<times> nat) list" where
  "mono_bits width =
     (let w1 = width div 8 in
      concat (map (\<lambda>x. map (\<lambda>b. (x, b)) (rev [0..<8])) [0..<w1])
      @ map (\<lambda>b. (w1, b)) (rev [8 - width mod 8..<8]))"

definition mono_row :: "byte list \<Rightarrow> byte list \<Rightarrow> nat \<Rightarrow> nat \<Rightarrow> byte list \<Rightarrow> byte list" where
  "mono_row palette data width y dest =
     (let w = (width + 7) div 8 in
      fold (\<lambda>(x, b). put_colour palette (Some ((drop_bit b (js_byte data (y * w + x)) AND 1) * 3))
              ((y * width + x * 8 + 7 - b) * 4)) (mono_bits width) dest)"

definition mono_dest :: "byte list \<Rightarrow> byte list \<Rightarrow> nat \<Rightarrow> nat \<Rightarrow> byte list \<Rightarrow> byte list" where
  "mono_dest palette data width height dest = fold (mono_row palette data width) [0..<height] dest"

definition palette_dest :: "byte list \<Rightarrow> byte list \<Rightarrow> nat \<Rightarrow> nat \<Rightarrow> byte list \<Rightarrow> byte list" where
  "palette_dest palette data width height dest =
     fold (\<lambda>j. put_colour palette (if j < length data then Some (unat (data ! j) * 3) else None) (j * 4))
       [0..<width * height] dest"

definition t_paint :: "(byte list \<Rightarrow> byte list \<Rightarrow> nat \<Rightarrow> nat \<Rightarrow> byte list \<Rightarrow> byte list) \<Rightarrow>
    int \<Rightarrow> int \<Rightarrow> nat \<Rightarrow> nat \<Rightarrow> byte list \<Rightarrow> (unit, 'z) tight_reader" where
  "t_paint paint x y width height data = t_case (\<lambda>st. (t_palette st, t_scratch st)) (\<lambda>(palette, scratch).
     let dest = paint palette data width height (getScratchBuffer (width * height * 4) scratch)
     in rd_bind (t_set (\<lambda>st. st\<lparr>t_scratch := Some dest\<rparr>)) (\<lambda>_. t_blit x y width height dest))"

abbreviation monoRect :: "int \<Rightarrow> int \<Rightarrow> nat \<Rightarrow> nat \<Rightarrow> byte list \<Rightarrow> (unit, 'z) tight_reader" where
  "monoRect \<equiv> t_paint mono_dest"

abbreviation paletteRect :: "int \<Rightarrow> int \<Rightarrow> nat \<Rightarrow> nat \<Rightarrow> byte list \<Rightarrow> (unit, 'z) tight_reader" where
  "paletteRect \<equiv> t_paint palette_dest"

definition paletteFilter :: "'z zlib \<Rightarrow> nat \<Rightarrow> int \<Rightarrow> int \<Rightarrow> nat \<Rightarrow> nat \<Rightarrow> (unit, 'z) tight_reader" where
  "paletteFilter zl streamId x y width height =
     rd_bind (t_case t_numColors (\<lambda>n. if n = 0 then paletteHeader else rd_ret n)) (\<lambda>numColors.
       let bpp = (if numColors \<le> 2 then 1 else 8);
           rowSize = (width * bpp + 7) div 8;
           uncompressedSize = rowSize * height
       in if uncompressedSize = 0 then rd_ret ()
          else rd_bind (tight_bytes zl streamId uncompressedSize) (\<lambda>data.
            rd_bind (if numColors = 2 then monoRect x y width height data else paletteRect x y width height data)
              (\<lambda>_. t_set (\<lambda>st. st\<lparr>t_numColors := 0\<rparr>))))"

text \<open>
  The gradient filter: each colour component is the difference from a prediction made of the
  pixels to the left, above and above to the left.  The first line only uses the left one.
\<close>

fun gradient_first :: "byte list \<Rightarrow> nat \<Rightarrow> byte list \<Rightarrow> byte list" where
  "gradient_first left 0 data = []"
| "gradient_first left (Suc n) data =
     (let px = map (\<lambda>c. u8n (js_byte data c + unat (left ! c))) [0..<3]
      in px @ [255] @ gradient_first px n (drop 3 data))"

definition prediction :: "byte \<Rightarrow> byte \<Rightarrow> byte \<Rightarrow> nat" where
  "prediction left upper upperleft =
     (let p = uint left + uint upper - uint upperleft in if p < 0 then 0 else if p > 255 then 255 else nat p)"

fun gradient_line :: "byte list \<Rightarrow> byte list \<Rightarrow> byte list \<Rightarrow> nat \<Rightarrow> byte list \<Rightarrow> byte list" where
  "gradient_line upper left upperleft 0 data = []"
| "gradient_line upper left upperleft (Suc n) data =
     (let px = map (\<lambda>c. u8n (js_byte data c + prediction (left ! c) (upper ! c) (upperleft ! c))) [0..<3]
      in px @ [255] @ gradient_line (drop 4 upper) px (take 3 upper) n (drop 3 data))"

fun gradient_lines :: "nat \<Rightarrow> byte list \<Rightarrow> nat \<Rightarrow> byte list \<Rightarrow> byte list" where
  "gradient_lines width upper 0 data = []"
| "gradient_lines width upper (Suc n) data =
     (let line = gradient_line upper [0, 0, 0] [0, 0, 0] width data
      in line @ gradient_lines width line n (drop (3 * width) data))"

definition gradient_pixels :: "nat \<Rightarrow> nat \<Rightarrow> byte list \<Rightarrow> byte list" where
  "gradient_pixels width height data =
     (let line = gradient_first [0, 0, 0] width data
      in line @ gradient_lines width line (height - 1) (drop (3 * width) data))"

definition gradientFilter :: "'z zlib \<Rightarrow> nat \<Rightarrow> int \<Rightarrow> int \<Rightarrow> nat \<Rightarrow> nat \<Rightarrow> (unit, 'z) tight_reader" where
  "gradientFilter zl streamId x y width height =
     (if width * height * 3 = 0 then rd_ret ()
      else rd_bind (tight_bytes zl streamId (width * height * 3)) (\<lambda>data.
        t_blit x y width height (gradient_pixels width height data)))"

section \<open>A rectangle\<close>

definition tight_fillRect :: "int \<Rightarrow> int \<Rightarrow> nat \<Rightarrow> nat \<Rightarrow> (unit, 'z) tight_reader" where
  "tight_fillRect x y width height =
     rd_bind (rd_take 3 (rQshiftBytes 3)) (\<lambda>pixel.
       rd_set (\<lambda>(st, d). (st, fillRect x y (int width) (int height) pixel d)))"

definition jpegRect :: "int \<Rightarrow> int \<Rightarrow> nat \<Rightarrow> nat \<Rightarrow> (unit, 'z) tight_reader" where
  "jpegRect x y width height = rd_bind readData (t_image x y width height ''image/jpeg'')"

definition pngRect :: "bool \<Rightarrow> int \<Rightarrow> int \<Rightarrow> nat \<Rightarrow> nat \<Rightarrow> (unit, 'z) tight_reader" where
  "pngRect png x y width height =
     (if png then rd_bind readData (t_image x y width height ''image/png'')
      else rd_raise (JsError ''PNG received in standard Tight rect''))"

definition tight_filter :: "nat \<Rightarrow> (nat, 'z) tight_reader" where
  "tight_filter ctl = t_case t_filter (\<lambda>f.
     case f of
       Some f \<Rightarrow> rd_ret f
     | None \<Rightarrow>
         rd_bind (if ctl AND 0x4 \<noteq> 0 then rd_take 1 rQshift8 else rd_ret 0) (\<lambda>f.
         rd_bind (t_set (\<lambda>st. st\<lparr>t_filter := Some f\<rparr>)) (\<lambda>_. rd_ret f)))"

definition tight_filtered :: "'z zlib \<Rightarrow> nat \<Rightarrow> nat \<Rightarrow> int \<Rightarrow> int \<Rightarrow> nat \<Rightarrow> nat \<Rightarrow> (unit, 'z) tight_reader" where
  "tight_filtered zl f streamId x y width height =
     (if f = 0 then copyFilter zl streamId x y width height
      else if f = 1 then paletteFilter zl streamId x y width height
      else if f = 2 then gradientFilter zl streamId x y width height
      else rd_raise (JsError ''Illegal tight filter received''))"

definition basicRect :: "'z zlib \<Rightarrow> bool \<Rightarrow> nat \<Rightarrow> int \<Rightarrow> int \<Rightarrow> nat \<Rightarrow> nat \<Rightarrow> (unit, 'z) tight_reader" where
  "basicRect zl png ctl x y width height =
     (if png then rd_raise (JsError ''BasicCompression received in TightPNG rect'')
      else
        rd_bind (tight_filter ctl) (\<lambda>f.
        rd_bind (tight_filtered zl f (ctl AND 0x3) x y width height) (\<lambda>_.
        t_set (\<lambda>st. st\<lparr>t_filter := None\<rparr>))))"

text \<open>The control byte: four bits reset streams, and the others say what follows.\<close>

definition tight_reset :: "'z zlib \<Rightarrow> nat \<Rightarrow> 'z tight \<Rightarrow> 'z tight" where
  "tight_reset zl ctl st = st\<lparr>t_zlibs :=
     fold (\<lambda>i zs. if drop_bit i ctl AND 1 \<noteq> 0 then zs[i := inflator_reset zl (zs ! i)] else zs) [0..<4] (t_zlibs st)\<rparr>"

definition tight_control :: "'z zlib \<Rightarrow> (nat, 'z) tight_reader" where
  "tight_control zl = t_case t_ctl (\<lambda>ctl.
     case ctl of
       Some ctl \<Rightarrow> rd_ret ctl
     | None \<Rightarrow>
         rd_bind (rd_take 1 rQshift8) (\<lambda>ctl.
         rd_bind (t_set (\<lambda>st. (tight_reset zl ctl st)\<lparr>t_ctl := Some (drop_bit 4 ctl)\<rparr>)) (\<lambda>_.
         rd_ret (drop_bit 4 ctl))))"

definition tight_body :: "'z zlib \<Rightarrow> bool \<Rightarrow> nat \<Rightarrow> int \<Rightarrow> int \<Rightarrow> nat \<Rightarrow> nat \<Rightarrow> (unit, 'z) tight_reader" where
  "tight_body zl png ctl x y width height =
     (if ctl = 0x08 then tight_fillRect x y width height
      else if ctl = 0x09 then jpegRect x y width height
      else if ctl = 0x0A then pngRect png x y width height
      else if ctl AND 0x08 = 0 then basicRect zl png ctl x y width height
      else rd_raise (JsError ''Illegal tight compression received''))"

definition tight_rect :: "'z zlib \<Rightarrow> bool \<Rightarrow> int \<Rightarrow> int \<Rightarrow> nat \<Rightarrow> nat \<Rightarrow> (unit, 'z) tight_reader" where
  "tight_rect zl png x y width height =
     rd_bind (tight_control zl) (\<lambda>ctl.
     rd_bind (tight_body zl png ctl x y width height) (\<lambda>_.
     t_set (\<lambda>st. st\<lparr>t_ctl := None\<rparr>)))"

definition tight_decodeRect ::
    "'z zlib \<Rightarrow> bool \<Rightarrow> int \<Rightarrow> int \<Rightarrow> nat \<Rightarrow> nat \<Rightarrow> 'z tight \<Rightarrow> websock \<Rightarrow> display \<Rightarrow> ('z tight, display) decoded" where
  "tight_decodeRect zl png x y width height = decoder_of (tight_rect zl png x y width height)"

end
