(* ===== verification/TightProps.thy ===== *)
theory TightProps
  imports DecTight Samples
begin

text \<open>
  The Tight decoders: an interrupted rectangle is resumed where it stopped, the filters invert the
  encoder's, and the decoder's fields keep their sizes.
\<close>

section \<open>Resumption\<close>

lemma keeps_fst [keeps_intros]:
  "(\<And>st. c (f st) = c st) \<Longrightarrow> keeps (\<lambda>p. c (fst p)) (t_set f)"
  "(\<And>x. keeps c' (m x)) \<Longrightarrow> keeps c' (t_case k m)"
  unfolding t_set_def t_case_def by (auto intro!: keeps_intros)

lemma keeps_draw [keeps_intros]:
  "keeps (\<lambda>p. c (fst p)) (t_blit x y w h data)" "keeps (\<lambda>p. c (fst p)) (t_image x y w h mime data)"
  "keeps c' (rd_raise e)"
  unfolding t_blit_def t_image_def rd_raise_def
  by (auto intro!: keeps_state split: prod.split sum.split option.split)

lemma still_t [reader_intros]:
  "still (t_set f)" "prompt (t_set f)" "(\<And>x. still (m x)) \<Longrightarrow> still (t_case k m)" "(\<And>x. prompt (m x)) \<Longrightarrow> prompt (t_case k m)"
  unfolding t_set_def t_case_def by (auto intro!: reader_intros)

lemma still_draw [reader_intros]:
  "still (t_blit x y w h data)" "still (t_image x y w h mime data)" "still (rd_raise e)" "still (t_inflate zl i n data)"
  "prompt (t_blit x y w h data)" "prompt (t_image x y w h mime data)" "prompt (rd_raise e)" "prompt (t_inflate zl i n data)"
  unfolding t_blit_def t_image_def rd_raise_def t_inflate_def by (rule reader_intros)+

lemma eats_if: "(b \<Longrightarrow> eats n g) \<Longrightarrow> (\<not> b \<Longrightarrow> eats n h) \<Longrightarrow> eats n (\<lambda>s. if b then g s else h s)"
  by (cases b) simp_all

lemma eats_compact: "eats 3 compactLength"
proof -
  have 1: "eats 1 (\<lambda>s. case rQshift8 s of (b, s) \<Rightarrow> (f b, s))" for f :: "nat \<Rightarrow> nat"
    by (rule eats_map [OF eats_shift(1)])
  have 2: "eats (1 + 1) (\<lambda>s. case rQshift8 s of (b, s) \<Rightarrow>
      if b AND 0x80 \<noteq> 0 then case rQshift8 s of (b', s) \<Rightarrow> (f b b', s) else (g b, s))" for f and g :: "nat \<Rightarrow> nat"
    by (rule eats_then [OF eats_shift(1)]) (intro eats_if 1 eats_ret)
  have "eats (1 + (1 + 1)) (\<lambda>s. case rQshift8 s of (b, s) \<Rightarrow>
      if b AND 0x80 \<noteq> 0 then case rQshift8 s of (b', s) \<Rightarrow>
        if b' AND 0x80 \<noteq> 0 then case rQshift8 s of (b'', s) \<Rightarrow> (f b b' b'', s) else (g b b', s)
      else (h b, s))" for f g and h :: "nat \<Rightarrow> nat"
    by (rule eats_then [OF eats_shift(1)]) (intro eats_if 2 eats_ret)
  then show ?thesis
    unfolding compactLength_def [abs_def] Let_def by (simp add: numeral_3_eq_3)
qed

lemma stores_bind: "(\<And>a. stores c v (f a)) \<Longrightarrow> stores c v (rd_bind m f)"
  by (auto simp: stores_def rd_bind_def split: prod.splits sum.splits option.splits)

lemma stores_set: "(\<And>st. c (g st) = v a) \<Longrightarrow> stores c v (rd_bind (rd_set g) (\<lambda>_. rd_ret a))"
  by (auto simp: stores_def rd_bind_def rd_set_def rd_state_def rd_ret_def)

lemma resuming_readData: "resuming (readData :: (byte list, 'z) tight_reader)"
proof -
  have still: "still (readDataLength :: (nat, 'z) tight_reader)"
    unfolding readDataLength_def by (intro reader_intros eats_compact)
  have stores: "stores (\<lambda>p. t_len (fst p)) (\<lambda>n. n) (readDataLength :: (nat, 'z) tight_reader)"
    by (auto simp: stores_def readDataLength_def t_case_def rd_case_def t_set_def rd_set_def rd_bind_def rd_state_def
        rd_ret_def split: prod.splits sum.splits option.splits if_splits)
  let ?f = "\<lambda>len. rd_bind (rd_take len (rQshiftBytes len)) (\<lambda>data.
      rd_bind (t_set (\<lambda>st :: 'z tight. st\<lparr>t_len := 0\<rparr>)) (\<lambda>_. rd_ret data))"
  have f: "still (?f len)" for len
    by (intro reader_intros eats_bytes)
  have waits: "len \<noteq> 0 \<and> st2 = st1" if "?f len st1 s1 = (Inr None, st2, s2)" "rq_ok s1" for len st1 s1 st2 s2
    using that by (auto simp: rd_bind_def rd_take_def t_set_def rd_set_def rd_state_def rd_ret_def rQwait_ok
        split: prod.splits if_splits)
  show ?thesis
    unfolding readData_def
  proof (rule resuming_bind [OF still_resumes [OF still] still_resumes [OF f]])
    fix st :: "'z tight \<times> display" and s len st1 k st2 l t
    assume *: "rq_ok s" "k \<le> length (unread s)" "readDataLength st s = (Inr (Some len), st1, adv k s)"
      "?f len st1 (adv k s) = (Inr None, st2, adv l (adv k s))"
    have "t_len (fst st1) = len"
      by (rule storesD [OF stores *(3)])
    then show "readDataLength st2 t = (Inr (Some len), st2, t)"
      using waits [OF *(4) adv_ok [OF *(1,2)]] by (simp add: readDataLength_def t_case_def rd_case_def rd_ret_def)
  qed
qed

lemma resuming_bytes: "resuming (tight_bytes zl i n)"
  unfolding tight_bytes_def
  by (intro reader_intros still_resumes [OF still_take] eats_bytes resuming_prompt resuming_readData)

lemma still_header: "still (paletteHeader :: (nat, 'z) tight_reader)"
proof (rule stillI)
  fix p :: "'z tight \<times> display" and s t bs
  assume st: "rq_ok s" "rq_ok t" "unread t = unread s @ bs"
  let ?P = "\<lambda>r st' k. k \<le> length (unread s) \<and> paletteHeader p s = (r, st', adv k s)
        \<and> (if r = Inr None then st' = p \<and> k = 0 else paletteHeader p t = (r, st', adv k t))
        \<and> (bs = [] \<longrightarrow> paletteHeader p t = (r, st', adv k t))"
  have peek: "rQpeek8 s = rQpeek8 t" if "\<not> length (unread s) < 1"
    using that js_byte_ok [of s 0] js_byte_ok [of t 0] st by (cases "unread s") (auto simp: rQpeek8_def)
  let ?n = "(rQpeek8 s + 1) * 3"
  show "\<exists>r st' k. ?P r st' k"
  proof (cases "length (unread s) < 1 \<or> length (unread s) < 1 + ?n")
    case True
    then show ?thesis
      using st peek by (intro exI [of _ "Inr None"] exI [of _ p] exI [of _ 0])
        (auto simp: paletteHeader_def rQwait_ok Let_def)
  next
    case False
    have b: "take n (drop (Suc (rQi x)) (rQ x)) = take n (drop 1 (unread x))" "\<not> length (rQ x) < Suc (rQi x) + n"
      if "rq_ok x" "1 + n \<le> length (unread x)" for x n
      using that by (auto simp: length_unread_ok unread_def drop_take rq_ok_def)
    have u: "take ?n (drop 1 (unread t)) = take ?n (drop 1 (unread s))"
      using False st(3) by simp
    show ?thesis
    proof (cases "length (t_palette (fst p)) < ?n")
      case True
      then show ?thesis
        using False st peek b [of s ?n] b [of t ?n]
        by (intro exI [of _ "Inl RangeError"] exI [of _ "((fst p)\<lparr>t_numColors := rQpeek8 s + 1\<rparr>, snd p)"] exI [of _ 1])
          (auto simp: paletteHeader_def rQwait_ok Let_def rQshiftTo_def rQskipBytes_def adv_def)
    next
      case fits: False
      then show ?thesis
        using False st peek b [of s ?n] b [of t ?n] u
        by (intro exI [of _ "Inr (Some (rQpeek8 s + 1))"]
            exI [of _ "((fst p)\<lparr>t_numColors := rQpeek8 s + 1,
              t_palette := take ?n (drop 1 (unread s)) @ drop ?n (t_palette (fst p))\<rparr>, snd p)"] exI [of _ "1 + ?n"])
          (auto simp: paletteHeader_def rQwait_ok Let_def rQshiftTo_def rQskipBytes_def adv_def)
    qed
  qed
qed


lemma prompt_paint [reader_intros]: "still (t_paint paint x y w h data)" "prompt (t_paint paint x y w h data)"
  unfolding t_paint_def by (auto intro!: reader_intros simp: Let_def split: prod.split)

lemma keeps_bytes [keeps_intros]:
  assumes "\<And>st len. c (st\<lparr>t_len := len\<rparr>) = c st" "\<And>st zs. c (st\<lparr>t_zlibs := zs\<rparr>) = c st"
  shows "keeps (\<lambda>p. c (fst p)) (tight_bytes zl i n)"
    "keeps (\<lambda>p. c (fst p)) (rd_bind readData (t_image x y w h mime))"
proof -
  have "keeps (\<lambda>p. c (fst p)) readData"
    unfolding readData_def readDataLength_def by (intro keeps_intros) (simp_all add: assms)
  moreover have "keeps (\<lambda>p. c (fst p)) (t_inflate zl i n data)" for data
    unfolding t_inflate_def by (intro keeps_intros) (auto simp: assms split: prod.split sum.split)
  ultimately show "keeps (\<lambda>p. c (fst p)) (tight_bytes zl i n)"
      "keeps (\<lambda>p. c (fst p)) (rd_bind readData (t_image x y w h mime))"
    unfolding tight_bytes_def by (auto intro!: keeps_intros)
qed

lemma resuming_paletteFilter: "resuming (paletteFilter zl i x y w h)"
  unfolding paletteFilter_def
proof (rule resuming_stored [where c = "\<lambda>p. (t_numColors (fst p), t_numColors (fst p) \<noteq> 0)" and v = "\<lambda>n. (n, True)"])
  show "still (t_case t_numColors (\<lambda>n. if n = 0 then paletteHeader else rd_ret n))"
    by (intro reader_intros still_header)
  show "stores (\<lambda>p. (t_numColors (fst p), t_numColors (fst p) \<noteq> 0)) (\<lambda>n. (n, True)) (t_case t_numColors (\<lambda>n. if n = 0 then paletteHeader else rd_ret n))"
    by (auto simp: stores_def t_case_def rd_case_def paletteHeader_def rd_ret_def Let_def split: if_splits sum.splits)
  let ?f = "\<lambda>n. let bpp = (if n \<le> 2 then 1 else 8); rowSize = (w * bpp + 7) div 8; size = rowSize * h
    in if size = 0 then rd_ret ()
       else rd_bind (tight_bytes zl i size) (\<lambda>data.
            rd_bind (if n = 2 then monoRect x y w h data else paletteRect x y w h data)
              (\<lambda>_. t_set (\<lambda>st. st\<lparr>t_numColors := 0\<rparr>)))"
  show "resuming (?f n)" for n
    unfolding Let_def
    by (intro still_if(3) still_resumes [OF still_ret] resuming_prompt resuming_bytes reader_intros)
  show "awaits (\<lambda>p. (t_numColors (fst p), t_numColors (fst p) \<noteq> 0)) (?f n)" for n
    unfolding Let_def
    by (intro awaits_if awaits_bind awaits_prompt [OF prompt_state(3)] resuming_bytes keeps_bytes
        awaits_prompt [OF prompt_bind] still_if(1,2) reader_intros) simp_all
  fix n and st :: "'a tight \<times> display" and t
  assume "(t_numColors (fst st), t_numColors (fst st) \<noteq> 0) = (n, True)"
  then show "t_case t_numColors (\<lambda>n. if n = 0 then paletteHeader else rd_ret n) st t = (Inr (Some n), st, t)"
    by (auto simp: t_case_def rd_case_def rd_ret_def)
qed

lemma resuming_filtered: "resuming (tight_filtered zl f i x y w h)"
  unfolding tight_filtered_def copyFilter_def gradientFilter_def
  by (intro still_if(3) still_resumes [OF still_ret] resuming_prompt resuming_bytes resuming_paletteFilter
      still_resumes [OF still_draw(3)] reader_intros)

lemma keeps_header: "(\<And>st n. c (st\<lparr>t_numColors := n\<rparr>) = c st) \<Longrightarrow> (\<And>st p. c (st\<lparr>t_palette := p\<rparr>) = c st) \<Longrightarrow>
    keeps (\<lambda>p. c (fst p)) paletteHeader"
  by (auto simp: keeps_def paletteHeader_def Let_def split: sum.split)

lemma keeps_paint [keeps_intros]:
  "(\<And>st b. c (st\<lparr>t_scratch := b\<rparr>) = c st) \<Longrightarrow> keeps (\<lambda>p. c (fst p)) (t_paint paint x y w h data)"
  unfolding t_paint_def Let_def by (auto intro!: keeps_intros split: prod.split)

lemma keeps_filtered:
  assumes "\<And>st len. c (st\<lparr>t_len := len\<rparr>) = c st" "\<And>st zs. c (st\<lparr>t_zlibs := zs\<rparr>) = c st"
    "\<And>st b. c (st\<lparr>t_scratch := b\<rparr>) = c st" "\<And>st n. c (st\<lparr>t_numColors := n\<rparr>) = c st"
    "\<And>st p. c (st\<lparr>t_palette := p\<rparr>) = c st"
  shows "keeps (\<lambda>p. c (fst p)) (tight_filtered zl f i x y w h)"
  unfolding tight_filtered_def copyFilter_def gradientFilter_def paletteFilter_def Let_def
  by (intro keeps_if keeps_bind keeps_bytes keeps_draw keeps_ret keeps_fst keeps_header keeps_paint; (rule assms)?)

lemma resuming_basic: "resuming (basicRect zl png ctl x y w h)"
  unfolding basicRect_def
proof (intro still_if(3) still_resumes [OF still_draw(3)]
    resuming_stored [where c = "\<lambda>p. t_filter (fst p)" and v = Some])
  show "still (tight_filter ctl)"
    unfolding tight_filter_def by (intro reader_intros eats_shift)
  show "stores (\<lambda>p. t_filter (fst p)) Some (tight_filter ctl)"
    by (auto simp: stores_def tight_filter_def t_case_def rd_case_def t_set_def rd_set_def rd_bind_def rd_state_def
        rd_ret_def split: prod.splits sum.splits option.splits)
  show "tight_filter ctl st t = (Inr (Some f), st, t)" if "t_filter (fst st) = Some f" for f and st :: "'a tight \<times> display" and t
    using that by (simp add: tight_filter_def t_case_def rd_case_def rd_ret_def)
  let ?f = "\<lambda>f. rd_bind (tight_filtered zl f (ctl AND 0x3) x y w h) (\<lambda>_. t_set (\<lambda>st. st\<lparr>t_filter := None\<rparr>))"
  show "resuming (?f f)" for f
    by (intro resuming_prompt resuming_filtered reader_intros)
  show "awaits (\<lambda>p. t_filter (fst p)) (?f f)" for f
    by (intro awaits_bind keeps_filtered resuming_filtered awaits_prompt reader_intros) simp_all
qed

lemma keeps_basic:
  assumes "\<And>st len. c (st\<lparr>t_len := len\<rparr>) = c st" "\<And>st zs. c (st\<lparr>t_zlibs := zs\<rparr>) = c st"
    "\<And>st b. c (st\<lparr>t_scratch := b\<rparr>) = c st" "\<And>st n. c (st\<lparr>t_numColors := n\<rparr>) = c st"
    "\<And>st p. c (st\<lparr>t_palette := p\<rparr>) = c st" "\<And>st f. c (st\<lparr>t_filter := f\<rparr>) = c st"
  shows "keeps (\<lambda>p. c (fst p)) (basicRect zl png ctl x y w h)"
  unfolding basicRect_def tight_filter_def
  by (intro keeps_if keeps_bind keeps_draw keeps_ret keeps_fst keeps_option keeps_take keeps_filtered; (rule assms)?)

lemma keeps_body:
  assumes "\<And>st len. c (st\<lparr>t_len := len\<rparr>) = c st" "\<And>st zs. c (st\<lparr>t_zlibs := zs\<rparr>) = c st"
    "\<And>st b. c (st\<lparr>t_scratch := b\<rparr>) = c st" "\<And>st n. c (st\<lparr>t_numColors := n\<rparr>) = c st"
    "\<And>st p. c (st\<lparr>t_palette := p\<rparr>) = c st" "\<And>st f. c (st\<lparr>t_filter := f\<rparr>) = c st"
  shows "keeps (\<lambda>p. c (fst p)) (tight_body zl png ctl x y w h)"
proof -
  have fill: "keeps (\<lambda>p. c (fst p)) (rd_set (\<lambda>(st, d). (st, fillRect x y (int w) (int h) pixel d)))" for pixel
    by (intro keeps_intros) auto
  show ?thesis
    unfolding tight_body_def tight_fillRect_def jpegRect_def pngRect_def
    by (intro keeps_if keeps_bind [OF keeps_take] keeps_bytes keeps_basic keeps_draw fill; (rule assms)?)
qed

lemma resuming_body: "resuming (tight_body zl png ctl x y w h)"
  unfolding tight_body_def tight_fillRect_def jpegRect_def pngRect_def
  by (intro still_if(3) resuming_prompt resuming_readData resuming_basic still_resumes [OF still_take] eats_bytes
      still_resumes [OF still_draw(3)] reader_intros)

lemma resuming_tight: "resuming (tight_rect zl png x y w h)"
  unfolding tight_rect_def
proof (rule resuming_stored [where c = "\<lambda>p. t_ctl (fst p)" and v = Some])
  show "still (tight_control zl)"
    unfolding tight_control_def by (intro reader_intros eats_shift)
  show "stores (\<lambda>p. t_ctl (fst p)) Some (tight_control zl)"
    by (auto simp: stores_def tight_control_def t_case_def rd_case_def t_set_def rd_set_def rd_bind_def rd_state_def
        rd_ret_def split: prod.splits sum.splits option.splits)
  show "tight_control zl st t = (Inr (Some ctl), st, t)" if "t_ctl (fst st) = Some ctl"
    for ctl and st :: "'a tight \<times> display" and t
    using that by (simp add: tight_control_def t_case_def rd_case_def rd_ret_def)
  let ?f = "\<lambda>ctl. rd_bind (tight_body zl png ctl x y w h) (\<lambda>_. t_set (\<lambda>st. st\<lparr>t_ctl := None\<rparr>))"
  show "resuming (?f ctl)" for ctl
    by (intro resuming_prompt resuming_body reader_intros)
  show "awaits (\<lambda>p. t_ctl (fst p)) (?f ctl)" for ctl
    by (intro awaits_bind keeps_body resuming_body awaits_prompt reader_intros) simp_all
qed

interpretation tight: resumable "tight_decodeRect zl png x y w h" "bytes_of (tight_rect zl png x y w h)" "\<lambda>_ _. True"
  for zl :: "'z zlib" and png x y w h
  unfolding tight_decodeRect_def by (rule resuming_resumable [OF resuming_tight])

text \<open>C14. A Tight or TightPNG rectangle is decoded from the stream of bytes alone: however the server's
  bytes are cut into messages, in the middle of the control byte's operands, of a length, of a
  palette or of compressed data, the calls of \<open>decodeRect\<close> come to what one call with all the bytes
  comes to: the same outcome, drawing and state of the decoder, and the same rest of the stream.\<close>

theorem tight_chunks:
  assumes "rq_wf s" "length (unread s) + length (concat bss) \<le> MAX_RQ_GROW_SIZE" "concat bss = concat css"
    and "feed (tight_decodeRect zl png x y w h) bss st s d = (r, st', s', d')"
    and "feed (tight_decodeRect zl png x y w h) css st s d = (r2, st2, s2, d2)"
  shows "bytes_of (tight_rect zl png x y w h) st (unread s @ concat bss) d = (r, st', unread s', d')
    \<and> r = r2 \<and> st' = st2 \<and> d' = d2 \<and> unread s' = unread s2"
  using tight.feed_spec [OF TrueI assms(1,2,4)] tight.feed_same [OF TrueI assms] by blast

definition tight_call :: "byte list list \<Rightarrow> (unit tight, display) decoded" where
  "tight_call bss = feed (tight_decodeRect plain_zlib False 0 0 1 1) bss (new_tight plain_zlib) two_bytes (new_display 4 4)"

theorem tight_chunks_witness:
  "unread (fst (snd (snd (tight_call [[9], [8, 7, 6, 5]])))) = unread (fst (snd (snd (tight_call [[9, 8, 7, 6, 5]]))))"
proof -
  obtain r st s d where e: "tight_call [[9], [8, 7, 6, 5]] = (r, st, s, d)"
    by (metis prod_cases4)
  obtain r2 st2 s2 d2 where e2: "tight_call [[9, 8, 7, 6, 5]] = (r2, st2, s2, d2)"
    by (metis prod_cases4)
  have "rq_wf two_bytes" "unread two_bytes = [1, 2]"
    by (simp_all add: two_bytes_def new_websock_def rq_wf_def unread_def MAX_RQ_GROW_SIZE_def)
  then show ?thesis
    using tight_chunks [OF _ _ _ e [unfolded tight_call_def] e2 [unfolded tight_call_def]] e e2
    by (simp add: MAX_RQ_GROW_SIZE_def)
qed

section \<open>The gradient filter\<close>

text \<open>An image is a function of column, row and colour component.  The encoder sends the difference
  between a component and its prediction, the value on the plane through the three neighbours, kept
  between 0 and 255; outside of the image everything is 0.\<close>

type_synonym picture = "nat \<Rightarrow> nat \<Rightarrow> nat \<Rightarrow> byte"

definition to_left :: "picture \<Rightarrow> picture" where
  "to_left P x y c = (if x = 0 then 0 else P (x - 1) y c)"

definition above :: "picture \<Rightarrow> picture" where
  "above P x y c = (if y = 0 then 0 else P x (y - 1) c)"

definition planar :: "byte \<Rightarrow> byte \<Rightarrow> byte \<Rightarrow> byte" where
  "planar l u ul = word_of_int (max 0 (min 255 (uint l + uint u - uint ul)))"

definition residual :: "picture \<Rightarrow> picture" where
  "residual P x y c = P x y c - planar (to_left P x y c) (above P x y c) (above (to_left P) x y c)"

lemma planar_prediction: "planar l u ul = u8n (prediction l u ul)"
  by (simp add: planar_def prediction_def Let_def min_def max_def)

lemma residual_code:
  "residual P x y c = P x y c - u8n (prediction (to_left P x y c) (above P x y c) (above (to_left P) x y c))"
  by (simp add: residual_def planar_prediction)

definition row_bytes :: "picture \<Rightarrow> nat \<Rightarrow> nat \<Rightarrow> nat \<Rightarrow> byte list" where
  "row_bytes P y x n = concat (map (\<lambda>x. map (P x y) [0..<3]) [x..<x + n])"

definition row_pixels :: "picture \<Rightarrow> nat \<Rightarrow> nat \<Rightarrow> nat \<Rightarrow> byte list" where
  "row_pixels P y x n = concat (map (\<lambda>x. map (P x y) [0..<3] @ [255]) [x..<x + n])"

definition enc_gradient :: "nat \<Rightarrow> nat \<Rightarrow> picture \<Rightarrow> byte list" where
  "enc_gradient w h P = concat (map (\<lambda>y. row_bytes (residual P) y 0 w) [0..<h])"

definition picture_pixels :: "nat \<Rightarrow> nat \<Rightarrow> picture \<Rightarrow> byte list" where
  "picture_pixels w h P = concat (map (\<lambda>y. row_pixels P y 0 w) [0..<h])"

lemma upto3: "[0..<3] = [0, 1, 2::nat]"
  by (simp add: upt_rec)

lemma row_Suc:
  "row_bytes P y x (Suc n) = [P x y 0, P x y 1, P x y 2] @ row_bytes P y (Suc x) n"
  "row_pixels P y x (Suc n) = [P x y 0, P x y 1, P x y 2, 255] @ row_pixels P y (Suc x) n"
  by (simp_all add: row_bytes_def row_pixels_def upt_conv_Cons upto3 del: upt_Suc)

lemma row_0 [simp]: "row_bytes P y x 0 = []" "row_pixels P y x 0 = []"
  by (simp_all add: row_bytes_def row_pixels_def)

lemma length_row_bytes [simp]: "length (row_bytes P y x n) = 3 * n"
  by (induction n arbitrary: x) (simp_all add: row_Suc)

lemma u8n_sum: "u8n (unat (a - u8n p) + p) = (a :: byte)"
  by simp

lemma gradient_line_decodes:
  assumes "0 < y"
  shows "gradient_line (row_pixels P (y - 1) x n) (map (to_left P x y) [0..<3]) (map (above (to_left P) x y) [0..<3]) n
      (row_bytes (residual P) y x n @ rest) = row_pixels P y x n"
proof (induction n arbitrary: x)
  case (Suc n)
  have "to_left P (Suc x) y c = P x y c" "above (to_left P) (Suc x) y c = P x (y - 1) c" for c
    using assms by (simp_all add: to_left_def above_def)
  then show ?case
    using Suc.IH [of "Suc x"] assms
    by (simp add: row_Suc upto3 residual_code above_def js_byte_def u8n_sum)
qed simp

lemma prediction_first: "prediction p 0 0 = unat p"
  using uint_lt2p [of p] by (simp add: prediction_def unsigned_of_nat nat_less_iff flip: unat_eq_nat_uint)

lemma gradient_first_decodes:
  "gradient_first (map (to_left P x 0) [0..<3]) n (row_bytes (residual P) 0 x n @ rest) = row_pixels P 0 x n"
proof (induction n arbitrary: x)
  case (Suc n)
  have "to_left P (Suc x) 0 c = P x 0 c" for c
    by (simp add: to_left_def)
  then show ?case
    using Suc.IH [of "Suc x"]
    by (simp add: row_Suc upto3 residual_code above_def js_byte_def prediction_first u8n_sum)
qed simp

lemma gradient_lines_decode:
  "gradient_lines w (row_pixels P y 0 w) n (concat (map (\<lambda>y. row_bytes (residual P) y 0 w) [Suc y..<Suc y + n]) @ rest)
    = concat (map (\<lambda>y. row_pixels P y 0 w) [Suc y..<Suc y + n])"
proof (induction n arbitrary: y)
  case (Suc n)
  have r: "[Suc y..<Suc y + Suc n] = Suc y # [Suc (Suc y)..<Suc (Suc y) + n]"
    by (simp add: upt_conv_Cons del: upt_Suc)
  have z: "map (to_left P 0 (Suc y)) [0..<3] = [0, 0, 0]" "map (above (to_left P) 0 (Suc y)) [0..<3] = [0, 0, 0]"
    by (simp_all add: upto3 to_left_def above_def)
  have l: "gradient_line (row_pixels P y 0 w) [0, 0, 0] [0, 0, 0] w (row_bytes (residual P) (Suc y) 0 w @ more)
      = row_pixels P (Suc y) 0 w" for more
    using gradient_line_decodes [of "Suc y" P 0 w more] by (simp add: z)
  show ?case
    unfolding r using Suc.IH [of "Suc y"] by (simp add: l del: upt_Suc)
qed simp

lemma gradient_decodes:
  assumes "0 < h"
  shows "gradient_pixels w h (enc_gradient w h P @ rest) = picture_pixels w h P"
proof -
  obtain n where h: "h = Suc n"
    using assms by (cases h) auto
  have r: "[0..<Suc n] = 0 # [Suc 0..<Suc 0 + n]"
    by (simp add: upt_conv_Cons del: upt_Suc)
  have z: "map (to_left P 0 0) [0..<3] = [0, 0, 0]"
    by (simp add: upto3 to_left_def)
  have "gradient_first [0, 0, 0] w (row_bytes (residual P) 0 0 w @ more) = row_pixels P 0 0 w" for more
    using gradient_first_decodes [of P 0 w more] by (simp add: z)
  then show ?thesis
    unfolding gradient_pixels_def enc_gradient_def picture_pixels_def h r
    using gradient_lines_decode [of w P 0 n rest] by (simp add: Let_def del: upt_Suc)
qed

lemma length_picture: "length (picture_pixels w h P) = w * h * 4"
proof -
  have "length (row_pixels P y x n) = 4 * n" for y x n
    by (induction n arbitrary: x) (simp_all add: row_Suc)
  then show ?thesis
    unfolding picture_pixels_def by (induction h) simp_all
qed

text \<open>C17. The gradient filter inverts the encoder's prediction: when the bytes that arrive (plain or
  inflated) are the differences between each colour component of a picture and what its
  neighbours to the left, above and above to the left predict, then the rectangle is drawn with
  exactly the pixels of the picture, whatever its size.\<close>

theorem gradient_roundtrip:
  assumes "tight_bytes zl i (w * h * 3) (st, d) s = (Inr (Some (enc_gradient w h P)), (st', d'), s')"
    and "renderQ d' = []" "0 < w" "0 < h"
  shows "gradientFilter zl i x y w h (st, d) s =
    (Inr (Some ()), (st', act (ABlit x y (int w) (int h) (picture_pixels w h P)) d'), s')"
proof -
  have "blitImage x y (int w) (int h) (view_of (picture_pixels w h P)) 0 d' =
      Inr (act (ABlit x y (int w) (int h) (picture_pixels w h P)) d')"
    using blit_direct [OF assms(2), of "view_of (picture_pixels w h P)" "int w" "int h" x y] assms(3,4)
    by (simp add: length_picture)
  then show ?thesis
    using assms gradient_decodes [OF assms(4), of w P "[]"]
    by (simp add: gradientFilter_def rd_bind_def t_blit_def rd_state_def)
qed

text \<open>Two pixels in one row, sent as they are since they are fewer than twelve bytes.\<close>

definition two_pixels :: picture where
  "two_pixels x y c = [[10, 20, 30], [12, 19, 250]] ! x ! c"

theorem gradient_roundtrip_witness:
  "fst (snd (gradientFilter plain_zlib 0 5 6 2 1 (new_tight plain_zlib, new_display 4 4) (over [10, 20, 30, 2, 255, 220, 7]))) =
    (new_tight plain_zlib, act (ABlit 5 6 2 1 [10, 20, 30, 255, 12, 19, 250, 255]) (new_display 4 4))"
proof -
  have e: "enc_gradient 2 1 two_pixels = [10, 20, 30, 2, 255, 220]"
    and p: "picture_pixels 2 1 two_pixels = [10, 20, 30, 255, 12, 19, 250, 255]"
    by (simp_all add: enc_gradient_def picture_pixels_def row_bytes_def row_pixels_def residual_def to_left_def above_def
        two_pixels_def planar_def upt_rec)
  have t: "tight_bytes plain_zlib 0 (2 * 1 * 3) (new_tight plain_zlib, new_display 4 4) (over [10, 20, 30, 2, 255, 220, 7]) =
      (Inr (Some (enc_gradient 2 1 two_pixels)), (new_tight plain_zlib, new_display 4 4),
       adv 6 (over [10, 20, 30, 2, 255, 220, 7]))"
    by (simp add: tight_bytes_def rd_take_def rQwait_ok e [simplified] rQshiftBytes_def over_def adv_def rQwait_def rQ_length_def
        new_websock_def)
  show ?thesis
    using gradient_roundtrip [OF t, of 5 6] by (simp add: p [simplified] e [simplified] new_display_def)
qed

section \<open>Palettes\<close>

text \<open>The four bytes of a pixel with colour \<open>sp\<close>.\<close>

definition cell :: "byte list \<Rightarrow> nat option \<Rightarrow> byte list" where
  "cell palette sp = map (\<lambda>i. case sp of None \<Rightarrow> 0 | Some sp \<Rightarrow> u8n (js_byte palette (sp + i))) [0..<3] @ [255]"

lemma put_colour_take:
  "dp + 4 \<le> length dest \<Longrightarrow> put_colour palette sp dp dest = take dp dest @ cell palette sp @ drop (dp + 4) dest"
  unfolding put_colour_def cell_def Let_def upto3
  by (rule nth_equalityI) (auto simp: nth_append nth_list_update nth_Cons' less_Suc_eq_le add.commute not_less_eq_eq le_Suc_eq
      cong: option.case_cong)

lemma length_cell [simp]: "length (cell palette sp) = 4"
  by (simp add: cell_def)

lemma paint_cells:
  "n * 4 \<le> length dest \<Longrightarrow>
    fold (\<lambda>j. put_colour palette (f j) (j * 4)) [0..<n] dest = concat (map (\<lambda>j. cell palette (f j)) [0..<n]) @ drop (n * 4) dest"
proof (induction n)
  case (Suc n)
  have l: "length (concat (map (\<lambda>j. cell palette (f j)) [0..<n])) = n * 4"
    by (induction n) simp_all
  show ?case
    using Suc l by (simp add: put_colour_take drop_append add.commute)
qed simp

lemma upt_behind: "[n..<n + k] = map (\<lambda>i. n + i) [0..<k]" for n k :: nat
  by (rule nth_equalityI) simp_all

lemma upt_append: "[0..<n + k] = [0..<n] @ map (\<lambda>i. n + i) [0..<k]"
  by (simp add: upt_add_eq_append [of 0 n k] upt_behind)

lemma paint_rows:
  "fold (\<lambda>y. fold (\<lambda>x. g (y * w + x)) [0..<w]) [0..<h] dest = fold g [0..<w * h] dest"
proof (induction h)
  case (Suc h)
  have "[0..<w * Suc h] = [0..<w * h] @ map (\<lambda>x. h * w + x) [0..<w]"
    using upt_append [of "w * h" w] by (simp add: add.commute mult.commute)
  moreover have "fold g (map (\<lambda>x. h * w + x) xs) d = fold (\<lambda>x. g (h * w + x)) xs d" for xs d
    by (simp add: fold_map comp_def)
  ultimately show ?case
    using Suc by simp
qed simp

text \<open>The bits of a row are those of its pixels, from left to right.\<close>

lemma mono_bits_eq: "mono_bits w = map (\<lambda>x. (x div 8, 7 - x mod 8)) [0..<w]"
proof -
  have e: "rev [0..<8] = map (\<lambda>i. 7 - i) [0..<8::nat]"
    by (simp add: upt_rec)
  have whole: "concat (map (\<lambda>x. map (\<lambda>b. (x, b)) (rev [0..<8])) [0..<n]) = map (\<lambda>x. (x div 8, 7 - x mod 8)) [0..<8 * n]" for n
  proof (induction n)
    case (Suc n)
    have "[0..<8 * Suc n] = [0..<8 * n] @ map (\<lambda>i. 8 * n + i) [0..<8]"
      using upt_append [of "8 * n" 8] by (simp add: add.commute)
    then show ?case
      using Suc unfolding e by (simp add: comp_def)
  qed simp
  have r: "rev [8 - k..<8] = map (\<lambda>i. 7 - i) [0..<k]" if "k < 8" for k :: nat
    by (rule nth_equalityI) (use that in \<open>auto simp: rev_nth\<close>)
  have k: "rev [8 - w mod 8..<8] = map (\<lambda>i. 7 - i) [0..<w mod 8]"
    by (rule r) simp
  have "[0..<w] = [0..<8 * (w div 8)] @ map (\<lambda>i. 8 * (w div 8) + i) [0..<w mod 8]"
    using upt_append [of "8 * (w div 8)" "w mod 8"] by simp
  then show ?thesis
    unfolding mono_bits_def Let_def whole k by (simp add: comp_def)
qed

definition mono_index :: "byte list \<Rightarrow> nat \<Rightarrow> nat \<Rightarrow> nat" where
  "mono_index data w j =
     drop_bit (7 - j mod w mod 8) (js_byte data (j div w * ((w + 7) div 8) + j mod w div 8)) AND 1"

lemma mono_dest_cells:
  assumes "w * h * 4 \<le> length dest" "0 < w"
  shows "mono_dest palette data w h dest =
    concat (map (\<lambda>j. cell palette (Some (mono_index data w j * 3))) [0..<w * h]) @ drop (w * h * 4) dest"
proof -
  let ?g = "\<lambda>j. put_colour palette (Some (mono_index data w j * 3)) (j * 4)"
  have row: "mono_row palette data w y d = fold (\<lambda>x. ?g (y * w + x)) [0..<w] d" for y d
  proof -
    have i: "(y * w + x div 8 * 8 + 7 - (7 - x mod 8)) = y * w + x" for x
    proof -
      have "x mod 8 < 8"
        by simp
      then show ?thesis
        using div_mult_mod_eq [of x 8] by linarith
    qed
    have "fold (\<lambda>x. put_colour palette (Some ((drop_bit (7 - x mod 8) (js_byte data (y * ((w + 7) div 8) + x div 8)) AND 1) * 3))
            ((y * w + x) * 4)) [0..<w] d = fold (\<lambda>x. ?g (y * w + x)) [0..<w] d"
      by (rule fold_cong) (simp_all add: mono_index_def)
    then show ?thesis
      unfolding mono_row_def mono_bits_eq Let_def by (simp add: fold_map comp_def i)
  qed
  have "mono_dest palette data w h dest = fold ?g [0..<w * h] dest"
    unfolding mono_dest_def row [abs_def] by (rule paint_rows)
  then show ?thesis
    using paint_cells [of "w * h" dest palette] assms(1) by simp
qed

lemma palette_dest_cells:
  "w * h * 4 \<le> length dest \<Longrightarrow> palette_dest palette data w h dest =
    concat (map (\<lambda>j. cell palette (if j < length data then Some (unat (data ! j) * 3) else None)) [0..<w * h])
      @ drop (w * h * 4) dest"
  unfolding palette_dest_def by (rule paint_cells)

text \<open>The pixels of a rectangle with a palette of \<open>n\<close> colours, row by row.\<close>

definition indexed_pixels :: "nat \<Rightarrow> byte list \<Rightarrow> byte list \<Rightarrow> nat \<Rightarrow> nat \<Rightarrow> byte list" where
  "indexed_pixels n palette data w h = concat (map (\<lambda>j. cell palette
     (if n = 2 then Some (mono_index data w j * 3)
      else if j < length data then Some (unat (data ! j) * 3) else None)) [0..<w * h])"

lemma length_indexed [simp]: "length (indexed_pixels n palette data w h) = w * h * 4"
proof -
  have "length (concat (map (\<lambda>j. cell palette (f j)) js)) = length js * 4" for f and js :: "nat list"
    by (induction js) simp_all
  then show ?thesis
    by (simp add: indexed_pixels_def)
qed

lemma getScratchBuffer_length: "n \<le> length (getScratchBuffer n b)"
  by (simp add: getScratchBuffer_def split: option.split)

lemma paint_draws:
  assumes "renderQ d = []" "0 < w" "0 < h"
    and "\<And>dest. w * h * 4 \<le> length dest \<Longrightarrow> \<exists>rest. paint (t_palette st) data w h dest = px @ rest" "length px = w * h * 4"
  shows "\<exists>b. t_paint paint x y w h data (st, d) s =
    (Inr (Some ()), (st\<lparr>t_scratch := Some b\<rparr>, act (ABlit x y (int w) (int h) px) d), s)"
proof -
  let ?dest = "paint (t_palette st) data w h (getScratchBuffer (w * h * 4) (t_scratch st))"
  obtain rest where "?dest = px @ rest"
    using assms(4) [OF getScratchBuffer_length] by blast
  moreover have "nat (int w * int h * 4) = length px" "\<not> int w * int h * 4 < 0" "px \<noteq> []"
    using assms(2,3,5) by (auto simp: nat_mult_distrib mult_less_0_iff)
  ultimately have "blitImage x y (int w) (int h) (view_of ?dest) 0 d = Inr (act (ABlit x y (int w) (int h) px) d)"
    using assms(1) by (simp add: blitImage_def blit_now_def view_of_def)
  then show ?thesis
    by (intro exI [of _ ?dest])
      (simp add: t_paint_def t_case_def rd_case_def rd_bind_def t_set_def rd_set_def rd_state_def t_blit_def Let_def split_def)
qed

text \<open>Both ways of painting draw the indexed pixels; what an earlier rectangle left in the shared
  buffer does not show.\<close>

lemma indexed_rect:
  assumes "renderQ d = []" "0 < w" "0 < h"
  shows "\<exists>b. (if n = 2 then monoRect x y w h data else paletteRect x y w h data) (st, d) s =
    (Inr (Some ()), (st\<lparr>t_scratch := Some b\<rparr>,
       act (ABlit x y (int w) (int h) (indexed_pixels n (t_palette st) data w h)) d), s)"
proof (cases "n = 2")
  case True
  have e: "\<exists>rest. mono_dest (t_palette st) data w h dest = indexed_pixels n (t_palette st) data w h @ rest"
    if "w * h * 4 \<le> length dest" for dest
    using mono_dest_cells [OF that assms(2)] True by (simp add: indexed_pixels_def)
  show ?thesis
    using paint_draws [of d w h mono_dest st data "indexed_pixels n (t_palette st) data w h" x y s,
        OF assms e length_indexed] True by simp
next
  case False
  have e: "\<exists>rest. palette_dest (t_palette st) data w h dest = indexed_pixels n (t_palette st) data w h @ rest"
    if "w * h * 4 \<le> length dest" for dest
    using palette_dest_cells [OF that] False by (simp add: indexed_pixels_def)
  show ?thesis
    using paint_draws [of d w h palette_dest st data "indexed_pixels n (t_palette st) data w h" x y s,
        OF assms e length_indexed] False by simp
qed

subsection \<open>What the encoder sends\<close>

text \<open>
  A palette is a list of two to 256 colours of three bytes, a picture a list of rows of indices.
  With two colours a row is sent as one bit per pixel, the first in the highest bit of the first
  byte and the last byte filled up with zeros; with more colours as one byte per pixel.
\<close>

definition bit_byte :: "bool list \<Rightarrow> byte" where
  "bit_byte bs = horner_sum of_bool 2 (rev bs)"

definition bit_row :: "nat list \<Rightarrow> byte list" where
  "bit_row ks = map (\<lambda>i. bit_byte (map (\<lambda>k. 8 * i + k < length ks \<and> ks ! (8 * i + k) = 1) [0..<8]))
     [0..<(length ks + 7) div 8]"

definition enc_indices :: "nat \<Rightarrow> nat list list \<Rightarrow> byte list" where
  "enc_indices n rows = concat (map (if n = 2 then bit_row else map u8n) rows)"

definition palette_ok :: "byte list list \<Rightarrow> bool" where
  "palette_ok cs \<longleftrightarrow> 2 \<le> length cs \<and> length cs \<le> 256 \<and> list_all (\<lambda>c. length c = 3) cs"

definition indices_ok :: "nat \<Rightarrow> nat \<Rightarrow> nat \<Rightarrow> nat list list \<Rightarrow> bool" where
  "indices_ok n w h rows \<longleftrightarrow> length rows = h \<and> list_all (\<lambda>ks. length ks = w \<and> list_all (\<lambda>k. k < n) ks) rows"

definition palette_picture :: "byte list list \<Rightarrow> nat list list \<Rightarrow> byte list" where
  "palette_picture cs rows = concat (map (\<lambda>ks. concat (map (\<lambda>k. cs ! k @ [255]) ks)) rows)"

lemma bit_bit_byte: "length bs = 8 \<Longrightarrow> k < 8 \<Longrightarrow> drop_bit (7 - k) (unat (bit_byte bs)) AND 1 = of_bool (bs ! k)"
  by (auto simp: bit_byte_def and_one_eq mod_2_eq_odd bit_iff_odd_drop_bit [symmetric] bit_unsigned_iff
      bit_horner_sum_bit_iff rev_nth)

lemma length_bit_row [simp]: "length (bit_row ks) = (length ks + 7) div 8"
  by (simp add: bit_row_def)

lemma bit_row_nth:
  assumes "x < length ks" "ks ! x < 2"
  shows "drop_bit (7 - x mod 8) (unat (bit_row ks ! (x div 8))) AND 1 = ks ! x"
proof -
  have x: "x div 8 < (length ks + 7) div 8" "8 * (x div 8) + x mod 8 = x"
    using assms(1) by (linarith, simp)
  have "drop_bit (7 - x mod 8) (unat (bit_row ks ! (x div 8))) AND 1 = of_bool (ks ! x = 1)"
    using bit_bit_byte [of _ "x mod 8"] x assms(1) by (simp add: bit_row_def)
  then show ?thesis
    using assms(2) by (cases "ks ! x = 1") auto
qed

text \<open>Elements of a list made of rows of equal length.\<close>

lemma rows_nth:
  "list_all (\<lambda>r. length r = m) rs \<Longrightarrow> y < length rs \<Longrightarrow> x < m \<Longrightarrow>
     y * m + x < length (concat rs) \<and> concat rs ! (y * m + x) = rs ! y ! x"
proof (induction rs arbitrary: y)
  case (Cons r rs)
  show ?case
  proof (cases y)
    case (Suc y')
    have "y' * m + x < length (concat rs) \<and> concat rs ! (y' * m + x) = rs ! y' ! x"
      using Cons.IH [of y'] Cons.prems Suc by simp
    then show ?thesis
      using Cons.prems Suc by (simp add: nth_append)
  qed (use Cons.prems in \<open>simp add: nth_append\<close>)
qed simp

lemma take_rows:
  "list_all (\<lambda>r. length r = m) rs \<Longrightarrow> k < length rs \<Longrightarrow> take m (drop (k * m) (concat rs @ zs)) = rs ! k"
proof (induction rs arbitrary: k)
  case (Cons r rs)
  then show ?case
    by (cases k) simp_all
qed simp

lemma rows_of_upt:
  "concat (map f [0..<w * h]) = concat (map (\<lambda>y. concat (map (\<lambda>x. f (y * w + x)) [0..<w])) [0..<h])"
proof (induction h)
  case (Suc h)
  have "[0..<w * Suc h] = [0..<w * h] @ map (\<lambda>x. h * w + x) [0..<w]"
    using upt_append [of "w * h" w] by (simp add: add.commute mult.commute)
  then show ?case
    using Suc by (simp add: comp_def)
qed simp

lemma cell_colour:
  assumes "palette_ok cs" "k < length cs"
  shows "cell (concat cs @ zs) (Some (k * 3)) = cs ! k @ [255]"
proof -
  have cs: "list_all (\<lambda>c. length c = 3) cs"
    using assms(1) by (simp add: palette_ok_def)
  have l: "length (cs ! k) = 3"
    using cs assms(2) by (simp add: list_all_length)
  have b: "u8n (js_byte (concat cs @ zs) (k * 3 + i)) = cs ! k ! i" if "i < 3" for i
    using rows_nth [OF cs assms(2) that] by (simp add: js_byte_def nth_append)
  have "map (\<lambda>i. cs ! k ! i) [0..<3] = cs ! k"
    using l map_nth [of "cs ! k"] by simp
  then show ?thesis
    using b [of 0] b [of 1] b [of 2] by (simp add: cell_def upto3)
qed

text \<open>The pixels that the decoder looks up are those of the picture.\<close>

lemma indices_decode:
  assumes cs: "palette_ok cs" and rows: "indices_ok (length cs) w h rows"
  shows "indexed_pixels (length cs) (concat cs @ zs) (enc_indices (length cs) rows) w h = palette_picture cs rows"
proof -
  let ?n = "length cs"
  let ?data = "enc_indices ?n rows"
  have each: "length (rows ! y) = w" "rows ! y ! x < ?n" if "y < h" "x < w" for x y
    using rows that by (auto simp: indices_ok_def list_all_length)
  have h: "length rows = h"
    using rows by (simp add: indices_ok_def)
  have px: "cell (concat cs @ zs) (if ?n = 2 then Some (mono_index ?data w (y * w + x) * 3)
      else if y * w + x < length ?data then Some (unat (?data ! (y * w + x)) * 3) else None) = cs ! (rows ! y ! x) @ [255]"
    if yx: "y < h" "x < w" for x y
  proof (cases "?n = 2")
    case True
    have rb: "list_all (\<lambda>r. length r = (w + 7) div 8) (map bit_row rows)"
      using rows by (auto simp: indices_ok_def list_all_iff)
    have "x div 8 < (w + 7) div 8"
      using yx(2) by linarith
    then have "?data ! (y * ((w + 7) div 8) + x div 8) = bit_row (rows ! y) ! (x div 8)"
      and "y * ((w + 7) div 8) + x div 8 < length ?data"
      using rows_nth [OF rb, of y "x div 8"] yx h True by (simp_all add: enc_indices_def)
    then have "mono_index ?data w (y * w + x) = rows ! y ! x"
      using bit_row_nth [of x "rows ! y"] each [OF yx] yx True by (simp add: mono_index_def js_byte_def)
    then show ?thesis
      using cell_colour [OF cs each(2) [OF yx]] True by simp
  next
    case False
    have rb: "list_all (\<lambda>r. length r = w) (map (map u8n) rows)"
      using rows by (auto simp: indices_ok_def list_all_iff)
    have "y * w + x < length ?data" "?data ! (y * w + x) = u8n (rows ! y ! x)"
      using rows_nth [OF rb, of y x] yx h False each(1) [OF yx] by (simp_all add: enc_indices_def)
    moreover have "unat (u8n (rows ! y ! x)) = rows ! y ! x"
      using each(2) [OF yx] cs by (simp add: unat_of_nat palette_ok_def)
    ultimately show ?thesis
      using cell_colour [OF cs each(2) [OF yx]] False by simp
  qed
  have row: "concat (map (\<lambda>x. cs ! (rows ! y ! x) @ [255]) [0..<w]) = concat (map (\<lambda>k. cs ! k @ [255]) (rows ! y))"
    if "y < h" for y
  proof -
    have "map (\<lambda>x. rows ! y ! x) [0..<w] = rows ! y"
      using rows that map_nth [of "rows ! y"] by (simp add: indices_ok_def list_all_length)
    then have "map (\<lambda>k. cs ! k @ [255]) (rows ! y) = map (\<lambda>k. cs ! k @ [255]) (map (\<lambda>x. rows ! y ! x) [0..<w])"
      by simp
    then show ?thesis
      by (simp add: comp_def)
  qed
  have "indexed_pixels ?n (concat cs @ zs) ?data w h =
      concat (map (\<lambda>y. concat (map (\<lambda>x. cs ! (rows ! y ! x) @ [255]) [0..<w])) [0..<h])"
    unfolding indexed_pixels_def rows_of_upt by (intro arg_cong [where f = concat] map_cong refl) (use px in auto)
  also have "\<dots> = concat (map (\<lambda>y. concat (map (\<lambda>k. cs ! k @ [255]) (rows ! y))) [0..<h])"
    by (rule arg_cong [where f = concat], rule map_cong [OF refl], rule row) simp
  also have "\<dots> = palette_picture cs rows"
    using map_nth [of rows] h by (metis (no_types, lifting) map_map comp_apply palette_picture_def map_eq_conv)
  finally show ?thesis .
qed

lemma length_enc_indices:
  assumes "palette_ok cs" "indices_ok (length cs) w h rows"
  shows "length (enc_indices (length cs) rows) = (w * (if length cs \<le> 2 then 1 else 8) + 7) div 8 * h"
proof -
  have "list_all (\<lambda>r. length r = m) rs \<Longrightarrow> length (concat rs) = m * length rs" for m and rs :: "byte list list"
    by (induction rs) simp_all
  moreover have "list_all (\<lambda>r. length r = (w * (if length cs \<le> 2 then 1 else 8) + 7) div 8)
      (map (if length cs = 2 then bit_row else map u8n) rows)"
    using assms by (auto simp: indices_ok_def palette_ok_def list_all_iff)
  ultimately show ?thesis
    using assms(2) by (simp add: enc_indices_def indices_ok_def)
qed

text \<open>The header: the number of colours less one, and the colours.\<close>

lemma paletteHeader_reads:
  assumes "palette_ok cs" "rq_ok s" "unread s = u8n (length cs - 1) # concat cs @ rest" "768 \<le> length (t_palette st)"
  shows "paletteHeader (st, d) s = (Inr (Some (length cs)),
    (st\<lparr>t_numColors := length cs, t_palette := concat cs @ drop (3 * length cs) (t_palette st)\<rparr>, d), adv (1 + 3 * length cs) s)"
proof -
  let ?n = "length cs"
  have "list_all (\<lambda>c. length c = 3) cs \<Longrightarrow> length (concat cs) = 3 * length cs"
    by (induction cs) simp_all
  then have n: "2 \<le> ?n" "?n \<le> 256" "length (concat cs) = 3 * ?n"
    using assms(1) by (simp_all add: palette_ok_def)
  have "unat (u8n (?n - 1)) = ?n - 1"
    using n(2) by (simp add: unat_of_nat)
  then have p: "Suc (rQpeek8 s) = ?n"
    using n(1) js_byte_ok [OF assms(2), of 0] assms(3) by (simp add: rQpeek8_def)
  have ok: "rq_ok (adv 1 s)" and u: "unread (adv 1 s) = concat cs @ rest"
    using assms(2,3) by (simp_all add: adv_ok adv_unread)
  have room: "3 * ?n \<le> rQlen s - Suc (rQi s)" "rQlen s \<le> length (rQ s)" "Suc (rQi s) \<le> rQlen s"
    using length_unread_ok [OF ok] ok arg_cong [OF u, of length] n(3) by (simp_all add: rq_ok_def)
  have "take (3 * ?n) (unread (adv 1 s)) = take (3 * ?n) (drop (Suc (rQi s)) (rQ s))"
    using room by (simp add: unread_def)
  then have "take (3 * ?n) (drop (Suc (rQi s)) (rQ s)) = concat cs"
    using u n(3) by simp
  then have "rQshiftTo (t_palette st) (?n * 3) (adv 1 s) =
      Inr (concat cs @ drop (3 * ?n) (t_palette st), adv (1 + 3 * ?n) s)"
    using assms(4) n(2) room by (simp add: rQshiftTo_def mult.commute adv_def)
  then show ?thesis
    using assms(2,3) n(3) by (simp add: paletteHeader_def rQwait_ok p Let_def rQskipBytes_adv mult.commute)
qed

text \<open>Reading the indices leaves the palette and the display alone.\<close>

lemma tight_bytes_keeps:
  assumes "tight_bytes zl i n (st, d) s = (r, (st', d'), s')"
  shows "t_palette st' = t_palette st \<and> d' = d"
  using assms
  by (auto simp: tight_bytes_def rd_take_def rd_bind_def readData_def readDataLength_def t_case_def rd_case_def t_set_def
      rd_set_def rd_state_def rd_ret_def t_inflate_def Let_def split: if_splits prod.splits sum.splits option.splits)

text \<open>C18. A Tight rectangle with a palette of two or more colours shows the encoder's picture: when the
  palette and then the indices arrive (plain or inflated), one bit per pixel for two colours and one
  byte per pixel for more, each row of bits starting a byte, then, while no image or frame is queued on
  the display, every pixel is drawn in the colour that its index has in the palette, with full
  opacity, and the decoder is back where it expects a new palette.  A palette of one colour is not
  covered: \<open>one_colour_is_black\<close> is what is drawn for it (tight.js:228).\<close>

theorem palette_pixels:
  assumes "palette_ok cs" "indices_ok (length cs) w h rows" "0 < w" "0 < h" "renderQ d = []"
    and "rq_ok s" "unread s = u8n (length cs - 1) # concat cs @ rest"
    and "t_numColors st = 0" "768 \<le> length (t_palette st)"
    and "tight_bytes zl i (length (enc_indices (length cs) rows))
           (st\<lparr>t_numColors := length cs, t_palette := concat cs @ drop (3 * length cs) (t_palette st)\<rparr>, d)
           (adv (1 + 3 * length cs) s) = (Inr (Some (enc_indices (length cs) rows)), (st', d'), s')"
  shows "\<exists>b. paletteFilter zl i x y w h (st, d) s =
    (Inr (Some ()), (st'\<lparr>t_numColors := 0, t_scratch := Some b\<rparr>,
       act (ABlit x y (int w) (int h) (palette_picture cs rows)) d), s')"
proof -
  let ?n = "length cs"
  have kept: "t_palette st' = concat cs @ drop (3 * ?n) (t_palette st)" "d' = d"
    using tight_bytes_keeps [OF assms(10)] by simp_all
  have size: "length (enc_indices ?n rows) = (w * (if ?n \<le> 2 then 1 else 8) + 7) div 8 * h"
    "length (enc_indices ?n rows) \<noteq> 0"
    using length_enc_indices [OF assms(1,2)] assms(3,4) by (simp_all add: div_greater_zero_iff)
  obtain b where b: "(if ?n = 2 then monoRect x y w h (enc_indices ?n rows) else paletteRect x y w h (enc_indices ?n rows)) (st', d) s' =
      (Inr (Some ()), (st'\<lparr>t_scratch := Some b\<rparr>, act (ABlit x y (int w) (int h) (palette_picture cs rows)) d), s')"
    using indexed_rect [OF assms(5,3,4), of ?n x y "enc_indices ?n rows" st' s'] kept(1) indices_decode [OF assms(1,2)]
    by auto
  define F where "F n = (let bpp = (if n \<le> 2 then 1 else 8); rowSize = (w * bpp + 7) div 8; uncompressedSize = rowSize * h
       in if uncompressedSize = 0 then rd_ret ()
          else rd_bind (tight_bytes zl i uncompressedSize) (\<lambda>data.
            rd_bind (if n = 2 then monoRect x y w h data else paletteRect x y w h data)
              (\<lambda>_. t_set (\<lambda>st. st\<lparr>t_numColors := 0\<rparr>))))" for n :: nat
  have h: "t_case t_numColors (\<lambda>n. if n = 0 then paletteHeader else rd_ret n) (st, d) s =
      (Inr (Some ?n), (st\<lparr>t_numColors := ?n, t_palette := concat cs @ drop (3 * ?n) (t_palette st)\<rparr>, d), adv (1 + 3 * ?n) s)"
    using assms(8) paletteHeader_reads [OF assms(1,6,7,9)] by (simp add: t_case_def rd_case_def)
  have "paletteFilter zl i x y w h = rd_bind (t_case t_numColors (\<lambda>n. if n = 0 then paletteHeader else rd_ret n)) F"
    unfolding paletteFilter_def F_def [abs_def] by (rule refl)
  then have "paletteFilter zl i x y w h (st, d) s =
      F ?n (st\<lparr>t_numColors := ?n, t_palette := concat cs @ drop (3 * ?n) (t_palette st)\<rparr>, d) (adv (1 + 3 * ?n) s)"
    by (simp only: rd_bind_def h prod.case sum.case option.case)
  also have "F ?n = rd_bind (tight_bytes zl i (length (enc_indices ?n rows))) (\<lambda>data.
            rd_bind (if ?n = 2 then monoRect x y w h data else paletteRect x y w h data)
              (\<lambda>_. t_set (\<lambda>st. st\<lparr>t_numColors := 0\<rparr>)))"
    unfolding F_def Let_def size(1) [symmetric] using size(2) by (simp only: if_False)
  finally have "paletteFilter zl i x y w h (st, d) s =
      rd_bind (if ?n = 2 then monoRect x y w h (enc_indices ?n rows) else paletteRect x y w h (enc_indices ?n rows))
        (\<lambda>_. t_set (\<lambda>st. st\<lparr>t_numColors := 0\<rparr>)) (st', d) s'"
    by (simp only: rd_bind_def [of "tight_bytes _ _ _"] assms(10) [unfolded kept(2)] prod.case sum.case option.case)
  also have "\<dots> = (Inr (Some ()), (st'\<lparr>t_numColors := 0, t_scratch := Some b\<rparr>,
       act (ABlit x y (int w) (int h) (palette_picture cs rows)) d), s')"
    by (simp only: rd_bind_def b prod.case sum.case option.case) (simp add: t_set_def rd_set_def rd_state_def)
  finally show ?thesis ..
qed

text \<open>Three pixels in two colours, and three in three.\<close>

theorem palette_pixels_witness:
  "\<exists>b. paletteFilter plain_zlib 0 0 0 3 1 (new_tight plain_zlib, new_display 4 4) (over [1, 1, 2, 3, 4, 5, 6, 160, 9]) =
    (Inr (Some ()), ((new_tight plain_zlib)\<lparr>t_palette := [1, 2, 3, 4, 5, 6] @ replicate 1018 0, t_scratch := Some b\<rparr>,
       act (ABlit 0 0 3 1 [4, 5, 6, 255, 1, 2, 3, 255, 4, 5, 6, 255]) (new_display 4 4)),
     adv 8 (over [1, 1, 2, 3, 4, 5, 6, 160, 9]))"
proof -
  let ?s = "over [1, 1, 2, 3, 4, 5, 6, 160, 9]" and ?st = "new_tight plain_zlib"
  let ?st1 = "?st\<lparr>t_numColors := 2, t_palette := [1, 2, 3, 4, 5, 6] @ replicate 1018 0\<rparr>"
  let ?cs = "[[1, 2, 3], [4, 5, 6]] :: byte list list"
  have e: "enc_indices 2 [[1, 0, 1]] = [160]"
    by (simp add: enc_indices_def bit_row_def bit_byte_def upt_rec)
  have "rQshiftBytes 1 (adv 7 ?s) = ([160], adv 8 ?s)"
    by (simp add: rQshiftBytes_def over_def adv_def)
  moreover have "\<not> rQwait 1 (adv 7 ?s)"
    by (simp add: rQwait_def rQ_length_def over_def)
  ultimately have "tight_bytes plain_zlib 0 1 (?st1, new_display 4 4) (adv 7 ?s) =
      (Inr (Some [160]), (?st1, new_display 4 4), adv 8 ?s)"
    by (simp add: tight_bytes_def rd_take_def)
  moreover have "palette_ok ?cs" "indices_ok 2 3 1 [[1, 0, 1]]"
    by (simp_all add: palette_ok_def indices_ok_def)
  moreover have "drop 6 (replicate 1024 0) = (replicate 1018 0 :: byte list)"
    unfolding drop_replicate by simp
  moreover have l: "length ?cs = 2"
    by simp
  ultimately show ?thesis
    using palette_pixels [of ?cs 3 1 "[[1, 0, 1]]" "new_display 4 4" ?s "[160, 9]" ?st plain_zlib 0 ?st1 "new_display 4 4" "adv 8 ?s" 0 0]
    unfolding l e by (simp add: palette_picture_def new_display_def new_tight_def)
qed

text \<open>A palette of one colour: a bit is read for every pixel, as for two colours, but then a byte is
  looked up, so that the pixels behind the first eighth are black whatever the colour is.\<close>

lemma one_colour_is_black:
  assumes "length data = (w + 7) div 8 * h" "(w + 7) div 8 * h \<le> j" "j < w * h"
  shows "take 4 (drop (j * 4) (indexed_pixels 1 palette data w h)) = [0, 0, 0, 255]"
proof -
  let ?f = "\<lambda>j. cell palette (if j < length data then Some (unat (data ! j) * 3) else None)"
  have px: "indexed_pixels 1 palette data w h = concat (map ?f [0..<w * h])"
    by (simp add: indexed_pixels_def)
  have "[0..<w * h] = [0..<j] @ j # [Suc j..<w * h]"
    using assms(3) upt_add_eq_append [of 0 j "w * h - j"] upt_conv_Cons [of j "w * h"] by simp
  then have split: "concat (map ?f [0..<w * h]) = concat (map ?f [0..<j]) @ ?f j @ concat (map ?f [Suc j..<w * h])"
    by simp
  have l: "length (concat (map ?f [0..<j])) = j * 4"
    by (induction j) simp_all
  have fj: "?f j = [0, 0, 0, 255]"
    using assms(1,2) by (simp add: cell_def upto3)
  have "take 4 (drop (j * 4) (xs @ [0, 0, 0, 255] @ ys)) = [0, 0, 0, 255]" if "length xs = j * 4" for xs ys :: "byte list"
    using that by simp
  from this [OF l] show ?thesis
    unfolding px split fj .
qed

text \<open>A rectangle without pixels takes its palette from the stream but does not forget it: the next
  rectangle with a palette does not read its own.\<close>

lemma empty_rectangle_keeps_palette:
  assumes "paletteHeader (st, d) s = (Inr (Some n), (st', d), s')" "t_numColors st = 0"
  shows "paletteFilter zl i x y 0 0 (st, d) s = (Inr (Some ()), (st', d), s') \<and> t_numColors st' = n \<and> 0 < n"
  using assms
  by (auto simp: paletteFilter_def rd_bind_def t_case_def rd_case_def rd_ret_def paletteHeader_def Let_def
      split: if_splits sum.splits)

end
