(* ===== verification/DecJpeg.thy ===== *)
theory DecJpeg
  imports Reader Display
begin

text \<open>
  Model of \<open>core/decoders/jpeg.js\<close>: a rectangle is a JPEG file, of which the decoder collects the
  segments, and which it completes with the tables of an earlier file when it has none.
\<close>

section \<open>Segments\<close>

record jpeg =
  j_quant :: "byte list list"
  j_huff :: "byte list list"
  j_segments :: "byte list list"


text \<open>The end of the entropy-coded data: the first marker from position \<open>p\<close> on that is neither a
  stuffed byte nor a restart marker.  It has not arrived when its second byte has not.\<close>

function scan_end :: "byte list \<Rightarrow> nat \<Rightarrow> nat option" where
  "scan_end data p =
     (case List.find (\<lambda>i. data ! i = 0xFF) [p..<length data] of
        None \<Rightarrow> None
      | Some idx \<Rightarrow>
          if idx \<ge> length data - 1 then None
          else if data ! (idx + 1) = 0x00 \<or> data ! (idx + 1) \<ge> 0xD0 \<and> data ! (idx + 1) \<le> 0xD7 then scan_end data (idx + 2)
          else Some idx)"
  by pat_completeness auto
termination
  by (relation "measure (\<lambda>(data, p). length data - p)") (auto simp: find_Some_iff)

declare scan_end.simps [simp del]

text \<open>\<open>rQwait("JPEG", Infinity, goback)\<close> always goes back.\<close>

definition rQwait_forever :: "nat \<Rightarrow> websock \<Rightarrow> js_error + websock" where
  "rQwait_forever goback s =
     (if rQi s < goback then Inl (JsError ''rQwait cannot backup'') else Inr (s\<lparr>rQi := rQi s - goback\<rparr>))"

definition jpeg_data :: "nat \<Rightarrow> nat \<Rightarrow> nat \<Rightarrow> nat \<Rightarrow> websock \<Rightarrow> byte list \<times> websock" where
  "jpeg_data marker type len n s =
     (let (data, s) = rQshiftBytes n s in ([u8n marker, u8n type, u8n (drop_bit 8 len), u8n len] @ data, s))"

definition jpeg_scan :: "nat \<Rightarrow> nat \<Rightarrow> nat \<Rightarrow> (byte list, 's) reader" where
  "jpeg_scan marker type len st s =
     (case rQwait_back (len - 2 + 2) 4 s of
        Inl e \<Rightarrow> (Inl e, st, s)
      | Inr (True, s) \<Rightarrow> (Inr None, st, s)
      | Inr (False, s) \<Rightarrow>
          (case scan_end (rQpeekBytes (nat (rQ_length s)) s) (len - 2) of
             None \<Rightarrow> (case rQwait_forever 4 s of Inl e \<Rightarrow> (Inl e, st, s) | Inr s \<Rightarrow> (Inr None, st, s))
           | Some idx \<Rightarrow> let (seg, s) = jpeg_data marker type len idx s in (Inr (Some seg), st, s)))"

definition jpeg_body :: "nat \<Rightarrow> nat \<Rightarrow> (byte list, 's) reader" where
  "jpeg_body marker type st s =
     (case rQwait_back 2 2 s of
        Inl e \<Rightarrow> (Inl e, st, s)
      | Inr (True, s) \<Rightarrow> (Inr None, st, s)
      | Inr (False, s) \<Rightarrow>
          let (len, s) = rQshift16 s in
          if len < 2 then (Inl (JsError ''Illegal JPEG length received''), st, s)
          else
            (case rQwait_back (len - 2) 4 s of
               Inl e \<Rightarrow> (Inl e, st, s)
             | Inr (True, s) \<Rightarrow> (Inr None, st, s)
             | Inr (False, s) \<Rightarrow>
                 if type = 0xDA then jpeg_scan marker type len st s
                 else let (seg, s) = jpeg_data marker type len (len - 2) s in (Inr (Some seg), st, s)))"

definition readSegment :: "(byte list, 's) reader" where
  "readSegment st s =
     (if rQwait 2 s then (Inr None, st, s)
      else
        let (marker, s) = rQshift8 s in
        if marker \<noteq> 0xFF then (Inl (JsError ''Illegal JPEG marker received''), st, s)
        else
          let (type, s) = rQshift8 s in
          if type \<ge> 0xD0 \<and> type \<le> 0xD9 \<or> type = 0x01 then (Inr (Some [u8n marker, u8n type]), st, s)
          else jpeg_body marker type st s)"

subsection \<open>A segment as a function of the bytes\<close>

text \<open>The outcome, and how many bytes are taken.\<close>

definition segment_rest :: "byte list \<Rightarrow> (js_error + byte list option) \<times> nat" where
  "segment_rest u =
     (if length u < 4 then (Inr None, 0)
      else
        let len = be (take 2 (drop 2 u)) in
        if len < 2 then (Inl (JsError ''Illegal JPEG length received''), 4)
        else if length u < 4 + (len - 2) then (Inr None, 0)
        else if u ! 1 = 0xDA then
          if length u < 4 + len then (Inr None, 0)
          else (case scan_end (drop 4 u) (len - 2) of
                  None \<Rightarrow> (Inr None, 0)
                | Some idx \<Rightarrow> (Inr (Some (take (4 + idx) u)), 4 + idx))
        else (Inr (Some (take (4 + (len - 2)) u)), 4 + (len - 2)))"

definition segment_of :: "byte list \<Rightarrow> (js_error + byte list option) \<times> nat" where
  "segment_of u =
     (if length u < 2 then (Inr None, 0)
      else if u ! 0 \<noteq> 0xFF then (Inl (JsError ''Illegal JPEG marker received''), 1)
      else if u ! 1 \<ge> 0xD0 \<and> u ! 1 \<le> 0xD9 \<or> u ! 1 = 0x01 then (Inr (Some (take 2 u)), 2)
      else segment_rest u)"

lemma scan_end_less: "scan_end data p = Some idx \<Longrightarrow> p \<le> idx \<and> Suc idx < length data"
proof (induction data p rule: scan_end.induct)
  case (1 data p)
  let ?find = "List.find (\<lambda>i. data ! i = 0xFF) [p..<length data]"
  obtain i where i: "?find = Some i"
    using 1(2) by (cases ?find) (simp_all add: scan_end.simps [of data p])
  then have p: "p \<le> i"
    by (auto simp: find_Some_iff)
  show ?case
  proof (cases "i \<ge> length data - 1")
    case True
    then show ?thesis
      using 1(2) i by (simp add: scan_end.simps [of data p])
  next
    case False
    then show ?thesis
      using 1(1) [OF i False] 1(2) i p
      by (simp add: scan_end.simps [of data p] split: if_splits)
  qed
qed


lemma be_take2: "2 \<le> length u \<Longrightarrow> [u8n (drop_bit 8 (be (take 2 u))), u8n (be (take 2 u))] = take 2 u"
proof -
  assume "2 \<le> length u"
  then obtain a b rest where u: "u = a # b # rest"
    by (cases u; cases "tl u") auto
  have "unat b < 256"
    using unsigned_less [of b] by simp
  then have "(unat a * 256 + unat b) div 256 = unat a"
    by simp
  moreover have "(256 :: byte) = 0"
    by simp
  then have "u8n (unat a * 256 + unat b) = b"
    by (simp only: of_nat_add of_nat_mult of_nat_numeral mult_zero_right add_0_left of_nat_unat ucast_id)
  ultimately show ?thesis
    by (simp add: u drop_bit_eq_div)
qed

lemma read_ok:
  assumes "rq_ok s"
  shows "1 \<le> length (unread s) \<Longrightarrow> rQshift8 s = (unat (unread s ! 0), adv 1 s)"
    and "2 \<le> length (unread s) \<Longrightarrow> rQshift16 s = (be (take 2 (unread s)), adv 2 s)"
    and "n \<le> length (unread s) \<Longrightarrow> rQshiftBytes n s = (take n (unread s), adv n s)"
    and "rQpeekBytes (nat (rQ_length s)) s = unread s"
    and "rQwait_back n g s = (if length (unread s) < n then
        if g \<noteq> 0 then if rQi s < g then Inl (JsError ''rQwait cannot backup'') else Inr (True, s\<lparr>rQi := rQi s - g\<rparr>)
        else Inr (True, s) else Inr (False, s))"
proof -
  show "1 \<le> length (unread s) \<Longrightarrow> rQshift8 s = (unat (unread s ! 0), adv 1 s)"
    using rQshift_be_ok [OF assms, of 1] by (cases "unread s") (simp_all add: rQshift8_def)
  show "2 \<le> length (unread s) \<Longrightarrow> rQshift16 s = (be (take 2 (unread s)), adv 2 s)"
    using rQshift_be_ok [OF assms, of 2] by (simp add: rQshift16_def)
  show "n \<le> length (unread s) \<Longrightarrow> rQshiftBytes n s = (take n (unread s), adv n s)"
    using assms by (simp add: rQshiftBytes_def length_unread_ok adv_def) (simp add: unread_def)
  have l: "rQ_length s = int (length (unread s))"
    using assms by (simp add: rQ_length_def length_unread_ok) (simp add: rq_ok_def)
  then show "rQpeekBytes (nat (rQ_length s)) s = unread s"
    using assms by (simp add: rQpeekBytes_def length_unread_ok) (simp add: unread_def)
  show "rQwait_back n g s = (if length (unread s) < n then
        if g \<noteq> 0 then if rQi s < g then Inl (JsError ''rQwait cannot backup'') else Inr (True, s\<lparr>rQi := rQi s - g\<rparr>)
        else Inr (True, s) else Inr (False, s))"
    by (simp add: rQwait_back_def l)
qed

lemma unadv: "(adv k s)\<lparr>rQi := i\<rparr> = s\<lparr>rQi := i\<rparr>" "s\<lparr>rQi := rQi s\<rparr> = s"
  by (simp_all add: adv_def)

lemma u8n_drop_be:
  assumes "4 \<le> length u"
  shows "[u8n 255, u8n (unat (u ! 1)), u8n (drop_bit 8 (be (take 2 (drop 2 u)))), u8n (be (take 2 (drop 2 u)))] =
    [255, u ! 1] @ take 2 (drop 2 u)"
  using be_take2 [of "drop 2 u"] assms by simp

lemma seg_take:
  assumes "4 \<le> length u" "u ! 0 = 255"
  shows "[255, u ! 1] @ take 2 (drop 2 u) @ take n (drop 4 u) = take (4 + n) u"
proof -
  obtain a b c d v where "u = a # b # c # d # v"
    using assms(1) by (cases u; cases "tl u"; cases "tl (tl u)"; cases "tl (tl (tl u))") auto
  then show ?thesis
    using assms(2) by (simp add: numeral_eq_Suc)
qed

lemma readSegment_eq:
  assumes "rq_ok s"
  shows "readSegment st s = (case segment_of (unread s) of (r, k) \<Rightarrow> (r, st, adv k s))"
proof (cases "length (unread s) < 2")
  case True
  then show ?thesis
    using assms by (simp add: readSegment_def segment_of_def rQwait_ok)
next
  case two: False
  let ?u = "unread s"
  have s1: "rq_ok (adv 1 s)" "rq_ok (adv 2 s)"
    using two assms by (simp_all add: adv_ok)
  have m: "rQshift8 s = (unat (?u ! 0), adv 1 s)" "rQshift8 (adv 1 s) = (unat (?u ! 1), adv 2 s)"
    using two read_ok(1) [OF assms] read_ok(1) [OF s1(1)] by (simp_all add: adv_unread)
  have b: "unat x = 255 \<longleftrightarrow> x = 255" "208 \<le> unat x \<longleftrightarrow> 208 \<le> x" "unat x \<le> 217 \<longleftrightarrow> x \<le> 217" "unat x = Suc 0 \<longleftrightarrow> x = 1"
    "unat x = 218 \<longleftrightarrow> x = 218"
    for x :: byte
    by (simp_all add: word_le_nat_alt word_unat_eq_iff)
  let ?body = "case segment_rest ?u of (r, k) \<Rightarrow> (r, st, adv k s)"
  have "jpeg_body 255 (unat (?u ! 1)) st (adv 2 s) = ?body" if "?u ! 0 = 255"
  proof (cases "length ?u < 4")
    case True
    then have "length ?u - 2 < 2"
      using two by linarith
    then show ?thesis
      using True read_ok(5) [OF s1(2), of 2 2] by (simp add: jpeg_body_def segment_rest_def adv_unread unadv)
  next
    case four: False
    let ?len = "be (take 2 (drop 2 ?u))"
    have s4: "rq_ok (adv 4 s)"
      using four assms by (simp add: adv_ok)
    have h: "rQwait_back 2 2 (adv 2 s) = Inr (False, adv 2 s)" "rQshift16 (adv 2 s) = (?len, adv 4 s)"
      using four read_ok(5) [OF s1(2), of 2 2] read_ok(2) [OF s1(2)] by (simp_all add: adv_unread)
    have w: "rQwait_back n 4 (adv 4 s) = (if length ?u < 4 + n then Inr (True, s) else Inr (False, adv 4 s))" for n
      using four read_ok(5) [OF s4, of n 4] by (auto simp: adv_unread unadv)
    have data: "jpeg_data 255 (unat (?u ! 1)) ?len n (adv 4 s) = (take (4 + n) ?u, adv (4 + n) s)"
      if "4 + n \<le> length ?u" for n
    proof -
      have "rQshiftBytes n (adv 4 s) = (take n (drop 4 ?u), adv (4 + n) s)"
        using that read_ok(3) [OF s4, of n] by (simp add: adv_unread)
      then show ?thesis
        using four u8n_drop_be [of ?u] seg_take [of ?u n] \<open>?u ! 0 = 255\<close> by (simp add: jpeg_data_def)
    qed
    have peek: "rQpeekBytes (nat (rQ_length (adv 4 s))) (adv 4 s) = drop 4 ?u"
      using read_ok(4) [OF s4] by (simp add: adv_unread)
    have forever: "rQwait_forever 4 (adv 4 s) = Inr s"
      by (simp add: rQwait_forever_def unadv)
    have idx: "4 + idx \<le> length ?u" if "scan_end (drop 4 ?u) p = Some idx" for p idx
      using scan_end_less [OF that] by (simp, linarith)
    consider (short) "?len < 2" | (wait) "2 \<le> ?len" "length ?u < 4 + (?len - 2)"
      | (scan) "2 \<le> ?len" "4 + (?len - 2) \<le> length ?u" "?u ! 1 = 0xDA"
      | (plain) "2 \<le> ?len" "4 + (?len - 2) \<le> length ?u" "?u ! 1 \<noteq> 0xDA"
      by linarith
    then show ?thesis
    proof cases
      case scan
      have l: "?len - 2 + 2 = ?len"
        using scan(1) by simp
      have d: "jpeg_data 255 218 ?len n (adv 4 s) = (take (4 + n) ?u, adv (4 + n) s)" if "4 + n \<le> length ?u" for n
        using data [OF that] scan(3) by simp
      show ?thesis
        using scan four h w forever peek
        by (auto simp: jpeg_body_def jpeg_scan_def segment_rest_def l d idx b Let_def split: option.split)
    qed (use four h w data b in \<open>simp_all add: jpeg_body_def segment_rest_def Let_def\<close>)
  qed
  moreover have "take 2 ?u = [?u ! 0, ?u ! 1]"
    using two by (cases ?u; cases "tl ?u") auto
  ultimately show ?thesis
    using two m by (auto simp: readSegment_def segment_of_def rQwait_ok [OF assms] b Let_def)
qed

text \<open>Bytes behind those that decide do not matter.\<close>

lemma find_append:
  "List.find P [p..<n] = Some i \<Longrightarrow> n \<le> m \<Longrightarrow> (\<And>j. j < n \<Longrightarrow> P j = Q j) \<Longrightarrow> List.find Q [p..<m] = Some i"
proof (induction "n - p" arbitrary: p)
  case (Suc k)
  have u: "[p..<n] = p # [Suc p..<n]" "[p..<m] = p # [Suc p..<m]" "p < n"
    using Suc(2,4) by (simp_all add: upt_conv_Cons)
  show ?case
    using Suc(1) [of "Suc p"] Suc(2-) u by (auto split: if_splits)
qed simp

lemma scan_end_append: "scan_end data p = Some idx \<Longrightarrow> scan_end (data @ bs) p = Some idx"
proof (induction data p rule: scan_end.induct)
  case (1 data p)
  let ?find = "List.find (\<lambda>i. data ! i = 0xFF) [p..<length data]"
  obtain i where i: "?find = Some i"
    using 1(2) by (cases ?find) (simp_all add: scan_end.simps [of data p])
  have i': "List.find (\<lambda>i. (data @ bs) ! i = 0xFF) [p..<length (data @ bs)] = Some i"
    by (rule find_append [OF i]) (simp_all add: nth_append)
  show ?case
  proof (cases "i \<ge> length data - 1")
    case True
    then show ?thesis
      using 1(2) i by (simp add: scan_end.simps [of data p])
  next
    case False
    then have "(data @ bs) ! (i + 1) = data ! (i + 1)" "\<not> i \<ge> length (data @ bs) - 1"
      by (auto simp: nth_append)
    then show ?thesis
      using 1(1) [OF i False] 1(2) i i' False
      by (auto simp: scan_end.simps [of data p] scan_end.simps [of "data @ bs" p] split: if_splits)
  qed
qed

lemma segment_rest_append:
  assumes "segment_rest u = (r, k)"
  shows "k \<le> length u \<and> (if r = Inr None then k = 0 else segment_rest (u @ bs) = (r, k))"
proof (cases "length u < 4")
  case True
  then show ?thesis
    using assms by (simp add: segment_rest_def)
next
  case False
  then obtain a b c d v where u: "u = a # b # c # d # v"
    by (cases u; cases "tl u"; cases "tl (tl u)"; cases "tl (tl (tl u))") auto
  let ?len = "be [c, d]"
  have h: "take 2 (drop 2 u) = [c, d]" "take 2 (drop 2 (u @ bs)) = [c, d]" "drop 4 u = v" "drop 4 (u @ bs) = v @ bs"
    "(u @ bs) ! 1 = b" "u ! 1 = b" "length u = 4 + length v"
    by (simp_all add: u)
  have t: "take n (u @ bs) = take n u" if "n \<le> length u" for n
    using that by simp
  have e: "scan_end (v @ bs) p = Some idx \<and> 4 + idx \<le> length u" if "scan_end v p = Some idx" for p idx
    using scan_end_append [OF that] scan_end_less [OF that] h(7) by simp
  show ?thesis
    using assms False unfolding segment_rest_def h(1-6) Let_def
    by (auto simp: h(7) t e split: if_splits option.splits simp del: be.simps dest: e)
qed

lemma segment_of_append:
  assumes "segment_of u = (r, k)"
  shows "k \<le> length u \<and> (if r = Inr None then k = 0 else segment_of (u @ bs) = (r, k))"
proof (cases "length u < 2")
  case True
  then show ?thesis
    using assms by (simp add: segment_of_def)
next
  case False
  then have "(u @ bs) ! 0 = u ! 0" "(u @ bs) ! 1 = u ! 1" "take 2 (u @ bs) = take 2 u"
    by (auto simp: nth_append)
  then show ?thesis
    using False assms segment_rest_append [of u r k bs]
    by (cases "u ! 0 \<noteq> 0xFF"; cases "u ! 1 \<ge> 0xD0 \<and> u ! 1 \<le> 0xD9 \<or> u ! 1 = 0x01") (auto simp: segment_of_def)
qed

lemma still_readSegment: "still readSegment"
proof (rule stillI)
  fix st :: 's and s t bs
  assume st: "rq_ok s" "rq_ok t" "unread t = unread s @ bs"
  obtain r k where r: "segment_of (unread s) = (r, k)"
    by (cases "segment_of (unread s)")
  show "\<exists>r st' k. k \<le> length (unread s) \<and> readSegment st s = (r, st', adv k s)
        \<and> (if r = Inr None then st' = st \<and> k = 0 else readSegment st t = (r, st', adv k t))
        \<and> (bs = [] \<longrightarrow> readSegment st t = (r, st', adv k t))"
    using segment_of_append [OF r, of bs] r st
    by (intro exI [of _ r] exI [of _ st] exI [of _ k]) (auto simp: readSegment_eq)
qed

section \<open>A rectangle\<close>

definition push_segment :: "byte list \<Rightarrow> jpeg \<times> display \<Rightarrow> jpeg \<times> display" where
  "push_segment seg p = ((fst p)\<lparr>j_segments := j_segments (fst p) @ [seg]\<rparr>, snd p)"

lemma rQshift_adv: "snd (rQshift k res s) = adv k s"
proof (induction k arbitrary: res s)
  case (Suc k)
  then show ?case
    by (simp add: adv_def)
qed (simp add: adv_def)

lemma shift_adv: "rQshift8 s = (n, s') \<Longrightarrow> s' = adv 1 s" "rQshift16 s = (n, s') \<Longrightarrow> s' = adv 2 s"
  using rQshift_adv [of 1 0 s] rQshift_adv [of 2 0 s] by (simp_all add: rQshift8_def rQshift16_def)

lemma body_uses:
  assumes "jpeg_body m ty p s = (Inr (Some seg), p', s')"
  shows "rQlen s' = rQlen s \<and> rQi s \<le> rQi s'"
proof -
  have d: "rQlen s2 = rQlen s1 \<and> rQi s1 \<le> rQi s2" if "jpeg_data m ty l n s1 = (seg, s2)" for m ty l n s1 s2 seg
    using that by (auto simp: jpeg_data_def rQshiftBytes_def)
  have bk: "s2 = s1" if "rQwait_back n g s1 = Inr (False, s2)" for n g s1 s2
    using that by (auto simp: rQwait_back_def split: if_splits)
  show ?thesis
    using assms
    by (auto simp: jpeg_body_def jpeg_scan_def Let_def split: sum.splits prod.splits bool.splits if_splits option.splits
        dest!: bk shift_adv d)
qed

lemma readSegment_uses:
  assumes "readSegment p s = (Inr (Some seg), p', s')"
  shows "rQlen s' = rQlen s \<and> rQi s + 2 \<le> rQi s' \<and> rQi s < rQlen s"
  using assms
  by (auto simp: readSegment_def rQwait_def rQ_length_def Let_def split: prod.splits if_splits
      dest!: shift_adv body_uses)

function jpeg_loop :: "jpeg \<times> display \<Rightarrow> websock \<Rightarrow> (js_error + unit option) \<times> (jpeg \<times> display) \<times> websock" where
  "jpeg_loop p s =
     (case readSegment p s of
        (Inl e, p, s) \<Rightarrow> (Inl e, p, s)
      | (Inr None, p, s) \<Rightarrow> (Inr None, p, s)
      | (Inr (Some seg), p, s) \<Rightarrow>
          if seg ! 1 = 0xD9 then (Inr (Some ()), push_segment seg p, s) else jpeg_loop (push_segment seg p) s)"
  by pat_completeness auto

termination
  by (relation "measure (\<lambda>(p, s). rQlen s - rQi s)") (auto dest!: readSegment_uses [OF sym])

declare jpeg_loop.simps [simp del]

definition jpeg_filled :: "jpeg \<Rightarrow> nat \<Rightarrow> byte list list" where
  "jpeg_filled st sof =
     (let segs = j_segments st;
          huffmanTables = filter (\<lambda>s. s ! 1 = 0xC4) segs;
          quantTables = filter (\<lambda>s. s ! 1 = 0xDB) segs;
          insert = (\<lambda>xs ys. take (sof + 1) ys @ xs @ drop (sof + 1) ys);
          segs = (if quantTables = [] then insert (j_quant st) segs else segs)
      in if huffmanTables = [] then insert (j_huff st) segs else segs)"

definition jpeg_finish :: "int \<Rightarrow> int \<Rightarrow> nat \<Rightarrow> nat \<Rightarrow> jpeg \<times> display \<Rightarrow> (js_error + unit) \<times> jpeg \<times> display" where
  "jpeg_finish x y width height p =
     (case p of (st, d) \<Rightarrow>
        let segs = j_segments st;
            huffmanTables = filter (\<lambda>s. s ! 1 = 0xC4) segs;
            quantTables = filter (\<lambda>s. s ! 1 = 0xDB) segs
        in case List.find (\<lambda>i. segs ! i ! 1 = 0xC0 \<or> segs ! i ! 1 = 0xC2) [0..<length segs] of
             None \<Rightarrow> (Inl (JsError ''Illegal JPEG image without SOF''), st, d)
           | Some sofIndex \<Rightarrow>
               let st = st\<lparr>j_segments := jpeg_filled st sofIndex\<rparr>
               in case imageRect x y (int width) (int height) ''image/jpeg'' (concat (j_segments st)) d of
                    (Some e, d) \<Rightarrow> (Inl e, st, d)
                  | (None, d) \<Rightarrow>
                      (Inr (), st\<lparr>j_huff := (if huffmanTables \<noteq> [] then huffmanTables else j_huff st),
                                 j_quant := (if quantTables \<noteq> [] then quantTables else j_quant st),
                                 j_segments := []\<rparr>, d))"

definition jpeg_rect :: "int \<Rightarrow> int \<Rightarrow> nat \<Rightarrow> nat \<Rightarrow> (unit, jpeg \<times> display) reader" where
  "jpeg_rect x y width height = rd_bind jpeg_loop (\<lambda>_. rd_state (jpeg_finish x y width height))"

definition jpeg_decodeRect ::
    "int \<Rightarrow> int \<Rightarrow> nat \<Rightarrow> nat \<Rightarrow> jpeg \<Rightarrow> websock \<Rightarrow> display \<Rightarrow> (jpeg, display) decoded" where
  "jpeg_decodeRect x y width height = decoder_of (jpeg_rect x y width height)"

subsection \<open>The loop over segments as a function of the bytes\<close>

text \<open>The segments that are read, the outcome, and the number of bytes taken.\<close>

lemma segment_of_Some:
  assumes "segment_of u = (Inr (Some seg), k)"
  shows "2 \<le> k \<and> k \<le> length u \<and> seg = take k u"
proof -
  have "k \<le> length u"
    using segment_of_append [OF assms] by simp
  then show ?thesis
    using assms by (auto simp: segment_of_def segment_rest_def Let_def split: if_splits option.splits)
qed

function segments_of :: "byte list \<Rightarrow> byte list list \<times> (js_error + bool) \<times> nat" where
  "segments_of u =
     (case segment_of u of
        (Inl e, k) \<Rightarrow> ([], Inl e, k)
      | (Inr None, k) \<Rightarrow> ([], Inr False, k)
      | (Inr (Some seg), k) \<Rightarrow>
          if seg ! 1 = 0xD9 then ([seg], Inr True, k)
          else case segments_of (drop k u) of (segs, r, l) \<Rightarrow> (seg # segs, r, k + l))"
  by pat_completeness auto

termination
  by (relation "measure length") (auto dest!: segment_of_Some [OF sym])

declare segments_of.simps [simp del]

fun push_segments :: "byte list list \<Rightarrow> jpeg \<times> display \<Rightarrow> jpeg \<times> display" where
  "push_segments segs p = ((fst p)\<lparr>j_segments := j_segments (fst p) @ segs\<rparr>, snd p)"

lemma push_push: "push_segments segs (push_segment seg p) = push_segments (seg # segs) p"
  "push_segments [] p = p" "push_segment seg p = push_segments [seg] p"
  by (simp_all add: push_segment_def)

definition loop_outcome :: "js_error + bool \<Rightarrow> js_error + unit option" where
  "loop_outcome r = (case r of Inl e \<Rightarrow> Inl e | Inr b \<Rightarrow> Inr (if b then Some () else None))"

lemma jpeg_loop_eq:
  "rq_ok s \<Longrightarrow> jpeg_loop p s = (case segments_of (unread s) of (segs, r, k) \<Rightarrow> (loop_outcome r, push_segments segs p, adv k s))"
proof (induction "unread s" arbitrary: p s rule: segments_of.induct)
  case 1
  obtain r k where r: "segment_of (unread s) = (r, k)"
    by (cases "segment_of (unread s)")
  have read: "readSegment p s = (r, p, adv k s)"
    using readSegment_eq [OF 1(2), of p] r by simp
  show ?case
  proof (cases "\<exists>seg. r = Inr (Some seg) \<and> seg ! 1 \<noteq> 0xD9")
    case True
    then obtain seg where seg: "r = Inr (Some seg)" "seg ! 1 \<noteq> 0xD9"
      by blast
    have k: "k \<le> length (unread s)" "rq_ok (adv k s)" "unread (adv k s) = drop k (unread s)"
      using segment_of_Some [OF r [unfolded seg]] 1(2) by (simp_all add: adv_ok adv_unread)
    have "jpeg_loop (push_segment seg p) (adv k s) =
        (case segments_of (drop k (unread s)) of (segs, r, l) \<Rightarrow>
           (loop_outcome r, push_segments segs (push_segment seg p), adv l (adv k s)))"
      using 1(1) [OF r [symmetric] seg(1) refl seg(2) k(3) [symmetric] k(2)] unfolding k(3) .
    then show ?thesis
      using seg by (simp add: jpeg_loop.simps [of p s] segments_of.simps [of "unread s"] read r push_push(1)
          split: prod.split del: push_segments.simps)
  next
    case False
    then show ?thesis
      by (auto simp: jpeg_loop.simps [of p s] segments_of.simps [of "unread s"] read r push_push(2,3) loop_outcome_def
          simp del: push_segments.simps split: sum.split option.split)
  qed
qed

lemma segments_of_append:
  "segments_of u = (segs, r, k) \<Longrightarrow> k \<le> length u \<and>
     (if r = Inr False
      then segments_of (u @ bs) = (case segments_of (drop k u @ bs) of (segs', r, l) \<Rightarrow> (segs @ segs', r, k + l))
      else segments_of (u @ bs) = (segs, r, k))"
proof (induction u arbitrary: segs r k rule: segments_of.induct)
  case (1 u)
  obtain q n where q: "segment_of u = (q, n)"
    by (cases "segment_of u")
  note a = segment_of_append [OF q, of bs]
  show ?case
  proof (cases "\<exists>seg. q = Inr (Some seg) \<and> seg ! 1 \<noteq> 0xD9")
    case True
    then obtain seg where seg: "q = Inr (Some seg)" "seg ! 1 \<noteq> 0xD9"
      by blast
    obtain segs1 r1 l where rest: "segments_of (drop n u) = (segs1, r1, l)"
      by (cases "segments_of (drop n u)")
    have e: "segs = seg # segs1" "r = r1" "k = n + l"
      using 1(2) q seg rest by (simp_all add: segments_of.simps [of u])
    have n: "n \<le> length u" "drop n (u @ bs) = drop n u @ bs" "segment_of (u @ bs) = (q, n)"
      using a seg(1) by simp_all
    have "segments_of (u @ bs) = (case segments_of (drop n u @ bs) of (segs', r, l) \<Rightarrow> (seg # segs', r, n + l))"
      using n seg by (simp add: segments_of.simps [of "u @ bs"])
    then show ?thesis
      using 1(1) [OF q [symmetric] seg(1) refl seg(2) rest] e n by (auto simp: add.assoc add.commute split: prod.splits)
  next
    case False
    then show ?thesis
      using 1(2) a q by (auto simp: segments_of.simps [of u] segments_of.simps [of "u @ bs"] split: sum.splits option.splits if_splits)
  qed
qed

lemma resuming_jpeg_loop: "resuming jpeg_loop"
  unfolding resuming_def
proof (intro allI impI)
  fix p :: "jpeg \<times> display" and s t bs
  assume st: "rq_ok s" "rq_ok t" "unread t = unread s @ bs"
  obtain segs r k where r: "segments_of (unread s) = (segs, r, k)"
    by (cases "segments_of (unread s)")
  note a = segments_of_append [OF r, of bs]
  have t: "jpeg_loop p' (adv k t) = (case segments_of (drop k (unread s) @ bs) of (segs, r, l) \<Rightarrow>
      (loop_outcome r, push_segments segs p', adv (k + l) t))" for p'
    using jpeg_loop_eq [of "adv k t" p'] a st by (simp add: adv_ok adv_unread)
  have pp: "push_segments (xs @ ys) p = push_segments ys (push_segments xs p)" for xs ys
    by simp
  have o: "loop_outcome r = Inr None \<longleftrightarrow> r = Inr False"
    by (auto simp: loop_outcome_def split: sum.split)
  show "\<exists>r st' k. k \<le> length (unread s) \<and> jpeg_loop p s = (r, st', adv k s)
        \<and> (if r = Inr None then jpeg_loop p t = jpeg_loop st' (adv k t) else jpeg_loop p t = (r, st', adv k t))
        \<and> (bs = [] \<longrightarrow> jpeg_loop p t = (r, st', adv k t))"
    using a r st t jpeg_loop_eq [OF st(1), of p] jpeg_loop_eq [OF st(2), of p] o pp
    by (intro exI [of _ "loop_outcome r"] exI [of _ "push_segments segs p"] exI [of _ k])
      (auto simp del: push_segments.simps split: prod.splits if_splits)
qed

lemma resuming_jpeg: "resuming (jpeg_rect x y w h)"
  unfolding jpeg_rect_def by (rule resuming_prompt [OF resuming_jpeg_loop still_state prompt_state(1)])

interpretation jpeg: resumable "jpeg_decodeRect x y w h" "bytes_of (jpeg_rect x y w h)" "\<lambda>_ _. True" for x y w h
  unfolding jpeg_decodeRect_def by (rule resuming_resumable [OF resuming_jpeg])

section \<open>Files\<close>














subsection \<open>The end of a scan\<close>




subsection \<open>The segments of a file\<close>






subsection \<open>What the browser gets\<close>













end
