(* ===== verification/DecH264.thy ===== *)
theory DecH264
  imports Reader Display Dh "HOL-Library.AList"
begin

text \<open>
  Model of \<open>core/decoders/h264.js\<close>: a payload is cut into frames at the start codes of its NAL
  units, and the frames go to the browser's \<open>VideoDecoder\<close>, one for each rectangle position that
  the server uses.

  The browser's part: \<open>vd_accepts\<close> says whether \<open>configure\<close> takes a configuration, \<open>vd_decodes\<close>
  whether \<open>decode\<close> takes a chunk, and \<open>clock\<close> is \<open>Math.round(performance.now() * 1e3)\<close> at the n-th
  rectangle.  The source stores the profile in \<open>self\<close>, which is the window: it is one for all
  positions, and undefined at first.
\<close>

section \<open>The parser\<close>

text \<open>An element behind the end of an array is \<open>undefined\<close>, and equal to no number.\<close>

definition elem_at :: "byte list \<Rightarrow> nat \<Rightarrow> byte option" where
  "elem_at data i = (if i < length data then Some (data ! i) else None)"

type_synonym sps = "byte option \<times> byte option \<times> byte option"

definition getStartSequenceLen :: "byte list \<Rightarrow> nat \<Rightarrow> nat" where
  "getStartSequenceLen data i =
     (if elem_at data i = Some 0 \<and> elem_at data (i + 1) = Some 0 \<and> elem_at data (i + 2) = Some 0 \<and> elem_at data (i + 3) = Some 1
      then 4
      else if elem_at data i = Some 0 \<and> elem_at data (i + 1) = Some 0 \<and> elem_at data (i + 2) = Some 1 then 3
      else 0)"

definition indexOfNextNalUnit :: "byte list \<Rightarrow> nat \<Rightarrow> nat option" where
  "indexOfNextNalUnit data i = List.find (\<lambda>i. getStartSequenceLen data i \<noteq> 0) [i..<length data]"

definition parseSps :: "byte list \<Rightarrow> nat \<Rightarrow> sps" where
  "parseSps data i = (elem_at data i, elem_at data (i + 1), elem_at data (i + 2))"

text \<open>Whether the unit is a slice, and one of a key frame, and the profile, which a unit may set.\<close>

definition parseNalUnit :: "byte list \<Rightarrow> nat \<Rightarrow> sps option \<Rightarrow> js_error + (bool \<times> bool \<times> sps option)" where
  "parseNalUnit data i sps =
     (let firstByte = (case elem_at data i of None \<Rightarrow> 0 | Some b \<Rightarrow> unat b) in
      if firstByte AND 0x80 \<noteq> 0 then Inl (JsError ''H264 parsing sanity check failed, forbidden zero bit is set'')
      else
        let unitType = firstByte AND 0x1f in
        if unitType = 1 then Inr (True, False, sps)
        else if unitType = 5 then Inr (True, True, sps)
        else if unitType = 7 then Inr (False, False, Some (parseSps data (i + 1)))
        else Inr (False, False, sps))"

lemma next_nal_unit:
  "indexOfNextNalUnit data i = Some j \<Longrightarrow> i \<le> j \<and> j < length data \<and> getStartSequenceLen data j \<noteq> 0"
  by (auto simp: indexOfNextNalUnit_def find_Some_iff)

text \<open>\<open>parse\<close> from \<open>i\<close> on: where the frame ends, whether it is a key frame, and the profile.\<close>

function parse_from :: "byte list \<Rightarrow> nat \<Rightarrow> sps option \<Rightarrow> bool \<Rightarrow> js_error + (nat \<times> bool \<times> sps option)" where
  "parse_from data i sps isKey =
     (if i < length data then
        let n = getStartSequenceLen data i in
        if n = 0 then Inl (JsError ''Invalid start sequence in bit stream'')
        else
          case parseNalUnit data (i + n) sps of
            Inl e \<Rightarrow> Inl e
          | Inr (is_slice, key, sps) \<Rightarrow>
              let j = (case indexOfNextNalUnit data (i + n) of None \<Rightarrow> length data | Some j \<Rightarrow> j)
              in if is_slice then Inr (j, isKey \<or> key, sps) else parse_from data j sps (isKey \<or> key)
      else Inr (i, isKey, sps))"
  by pat_completeness auto

termination
  by (relation "measure (\<lambda>(data, i, _, _). length data - i)") (auto split: option.splits dest!: next_nal_unit)

declare parse_from.simps [simp del]

section \<open>A position\<close>

datatype vd_state = Unconfigured | Configured | ClosedDecoder

record vdecoder =
  vd_state :: vd_state
  vd_configs :: "(nat list \<times> nat \<times> nat) list"
  vd_chunks :: "(int \<times> bool \<times> byte list) list"

record browser_video =
  vd_accepts :: "nat list \<Rightarrow> nat \<Rightarrow> nat \<Rightarrow> bool"
  vd_decodes :: "vdecoder \<Rightarrow> int \<times> bool \<times> byte list \<Rightarrow> bool"
  clock :: "nat \<Rightarrow> int"

record pending_frame =
  pd_frame :: nat
  pd_timestamp :: int
  pd_ready :: bool
  pd_keep :: bool

record h264_context =
  c_lastUsed :: nat
  c_width :: nat
  c_height :: nat
  c_decoder :: "vdecoder option"
  c_pending :: "pending_frame list"

definition new_context :: "nat \<Rightarrow> nat \<Rightarrow> h264_context" where
  "new_context width height = \<lparr>c_lastUsed = 0, c_width = width, c_height = height, c_decoder = None, c_pending = []\<rparr>"

text \<open>\<open>_handleFrame\<close>: the frames come out of the decoder in the order in which they went in.\<close>

definition handleFrame :: "int \<Rightarrow> h264_context \<Rightarrow> (js_error + pending_frame) \<times> h264_context" where
  "handleFrame timestamp c =
     (case c_pending c of
        [] \<Rightarrow> (Inl (JsError ''Pending frame queue empty when receiving frame from decoder''), c)
      | p # ps \<Rightarrow>
          if pd_timestamp p \<noteq> timestamp then (Inl (JsError ''Video frame timestamp mismatch''), c\<lparr>c_pending := ps\<rparr>)
          else (Inr (p\<lparr>pd_ready := True\<rparr>), c\<lparr>c_pending := ps\<rparr>))"

text \<open>\<open>toString\<close> of an undefined number is a \<open>TypeError\<close>; it comes after the decoder was made.\<close>

definition codec_digits :: "byte \<Rightarrow> byte \<Rightarrow> byte \<Rightarrow> nat list" where
  "codec_digits a b c = padStart 2 (hex_digits (unat a)) @ padStart 2 (hex_digits (unat b)) @ padStart 2 (hex_digits (unat c))"

definition configureDecoder :: "browser_video \<Rightarrow> sps \<Rightarrow> h264_context \<Rightarrow> js_error option \<times> h264_context" where
  "configureDecoder bv sps c =
     (let vd = (case c_decoder c of
                  None \<Rightarrow> \<lparr>vd_state = Unconfigured, vd_configs = [], vd_chunks = []\<rparr>
                | Some v \<Rightarrow> if vd_state v = ClosedDecoder then \<lparr>vd_state = Unconfigured, vd_configs = [], vd_chunks = []\<rparr> else v);
          c = c\<lparr>c_decoder := Some vd\<rparr>
      in case sps of
           (Some a, Some b, Some l) \<Rightarrow>
             if vd_accepts bv (codec_digits a b l) (c_width c) (c_height c)
             then (None, c\<lparr>c_decoder := Some (vd\<lparr>vd_state := Configured,
                     vd_configs := vd_configs vd @ [(codec_digits a b l, c_width c, c_height c)]\<rparr>)\<rparr>)
             else (Some (JsError ''TypeError''), c)
         | _ \<Rightarrow> (Some NullError, c))"

text \<open>
  What \<open>decode\<close> changes: the context, the profile in the window, and the number of the next frame
  object.
\<close>

record decoding =
  d_context :: h264_context
  d_self :: sps
  d_next :: nat

definition prepareFrame :: "browser_video \<Rightarrow> sps option \<Rightarrow> bool \<Rightarrow> decoding \<Rightarrow> (js_error + bool) \<times> decoding" where
  "prepareFrame bv sps key s =
     (let s = (case sps of None \<Rightarrow> s | Some sps \<Rightarrow> s\<lparr>d_self := sps\<rparr>)
      in if (case c_decoder (d_context s) of None \<Rightarrow> False | Some v \<Rightarrow> vd_state v = Configured) then (Inr True, s)
         else if \<not> key then (Inr False, s)
         else case configureDecoder bv (d_self s) (d_context s) of
                (Some e, c) \<Rightarrow> (Inl e, s\<lparr>d_context := c\<rparr>)
              | (None, c) \<Rightarrow> (Inr True, s\<lparr>d_context := c\<rparr>))"

definition preparePendingFrame :: "int \<Rightarrow> decoding \<Rightarrow> nat \<times> decoding" where
  "preparePendingFrame timestamp s =
     (d_next s,
      s\<lparr>d_context := (d_context s)\<lparr>c_pending := c_pending (d_context s)
            @ [\<lparr>pd_frame = d_next s, pd_timestamp = timestamp, pd_ready = False, pd_keep = False\<rparr>]\<rparr>,
        d_next := Suc (d_next s)\<rparr>)"

text \<open>An exception of the decoder is caught and logged; the frame stays in the list.\<close>

definition submit :: "browser_video \<Rightarrow> int \<times> bool \<times> byte list \<Rightarrow> h264_context \<Rightarrow> h264_context" where
  "submit bv chunk c =
     (case c_decoder c of
        None \<Rightarrow> c
      | Some v \<Rightarrow> if vd_decodes bv v chunk then c\<lparr>c_decoder := Some (v\<lparr>vd_chunks := vd_chunks v @ [chunk]\<rparr>)\<rparr> else c)"

lemma parse_from_advances:
  "parse_from data i sps isKey = Inr (j, k, sps') \<Longrightarrow> i \<le> j \<and> (i \<le> length data \<longrightarrow> j \<le> length data)"
proof (induction data i sps isKey rule: parse_from.induct)
  case (1 data i sps isKey)
  show ?case
  proof (cases "i < length data")
    case True
    let ?n = "getStartSequenceLen data i"
    let ?j = "case indexOfNextNalUnit data (i + ?n) of None \<Rightarrow> length data | Some j \<Rightarrow> j"
    have j: "i \<le> ?j" "?j \<le> length data"
      using True by (auto split: option.split dest!: next_nal_unit)
    obtain is_slice key sps1 where p: "?n \<noteq> 0" "parseNalUnit data (i + ?n) sps = Inr (is_slice, key, sps1)"
      using 1(2) True by (simp add: parse_from.simps [of data i] Let_def split: if_splits sum.splits prod.splits)
    show ?thesis
    proof (cases is_slice)
      case True
      then show ?thesis
        using 1(2) \<open>i < length data\<close> p j by (simp add: parse_from.simps [of data i] Let_def)
    next
      case False
      then have "parse_from data ?j sps1 (isKey \<or> key) = Inr (j, k, sps')"
        using 1(2) \<open>i < length data\<close> p by (simp add: parse_from.simps [of data i] Let_def)
      then have "?j \<le> j \<and> (?j \<le> length data \<longrightarrow> j \<le> length data)"
        by (intro 1(1) [OF True refl p(1) p(2) refl refl refl]) (use False in simp_all)
      then show ?thesis
        using j by linarith
    qed
  next
    case False
    then show ?thesis
      using 1(2) by (simp add: parse_from.simps [of data i])
  qed
qed

function decode_loop ::
    "browser_video \<Rightarrow> int \<Rightarrow> byte list \<Rightarrow> nat \<Rightarrow> sps option \<Rightarrow> nat option \<Rightarrow> decoding \<Rightarrow> (js_error + nat option) \<times> decoding" where
  "decode_loop bv timestamp data i sps result s =
     (case parse_from data i sps False of
        Inl e \<Rightarrow> (Inl e, s)
      | Inr (j, key, sps) \<Rightarrow>
          if j \<le> i then (Inr result, s)
          else
            case prepareFrame bv sps key s of
              (Inl e, s) \<Rightarrow> (Inl e, s)
            | (Inr False, s) \<Rightarrow> decode_loop bv timestamp data j sps result s
            | (Inr True, s) \<Rightarrow>
                let (p, s) = preparePendingFrame timestamp s;
                    chunk = (timestamp, key, take (j - i) (drop i data))
                in decode_loop bv timestamp data j sps (Some p) (s\<lparr>d_context := submit bv chunk (d_context s)\<rparr>))"
  by pat_completeness auto

termination
proof (relation "measure (\<lambda>(_, _, data, i, _, _, _). length data - i)", goal_cases)
  case (2 bv timestamp data i sps result s y x2 key sps1 xa y1 e)
  then show ?case
    using parse_from_advances [of data i sps False] by (auto simp: parse_from.simps [of data i] split: if_splits)
next
  case (3 bv timestamp data i sps result s y x2 key sps1 xa y1 e)
  then show ?case
    using parse_from_advances [of data i sps False] by (auto simp: parse_from.simps [of data i] split: if_splits)
qed simp

declare decode_loop.simps [simp del]

definition keep_pending :: "nat \<Rightarrow> h264_context \<Rightarrow> h264_context" where
  "keep_pending n c = c\<lparr>c_pending := map (\<lambda>p. if pd_frame p = n then p\<lparr>pd_keep := True\<rparr> else p) (c_pending c)\<rparr>"

definition h264_decode :: "browser_video \<Rightarrow> int \<Rightarrow> byte list \<Rightarrow> decoding \<Rightarrow> (js_error + nat option) \<times> decoding" where
  "h264_decode bv timestamp payload s =
     (case decode_loop bv timestamp payload 0 None None s of
        (Inr (Some n), s) \<Rightarrow> (Inr (Some n), s\<lparr>d_context := keep_pending n (d_context s)\<rparr>)
      | r \<Rightarrow> r)"

section \<open>The decoder\<close>

text \<open>The positions with their contexts, in the order in which they were put into the object.\<close>

type_synonym contextId = "int \<times> int \<times> nat \<times> nat"

record h264 =
  h_tick :: nat
  h_contexts :: "(contextId \<times> h264_context) list"
  h_self :: sps
  h_next :: nat

definition new_h264 :: h264 where
  "new_h264 = \<lparr>h_tick = 0, h_contexts = [], h_self = (None, None, None), h_next = 0\<rparr>"

definition maxContexts :: nat where
  "maxContexts = 64"

definition older :: "contextId \<times> h264_context \<Rightarrow> (contextId \<times> nat) option \<Rightarrow> (contextId \<times> nat) option" where
  "older kc oldest = (case oldest of
     None \<Rightarrow> Some (fst kc, c_lastUsed (snd kc))
   | Some (k, t) \<Rightarrow> if c_lastUsed (snd kc) < t then Some (fst kc, c_lastUsed (snd kc)) else Some (k, t))"

definition findOldestContextId :: "(contextId \<times> h264_context) list \<Rightarrow> contextId option" where
  "findOldestContextId cs = map_option fst (fold older cs None)"

definition createContext :: "contextId \<Rightarrow> h264 \<Rightarrow> h264_context \<times> h264" where
  "createContext k st =
     (let cs = h_contexts st;
          cs = (if length cs \<ge> maxContexts
                then (case findOldestContextId cs of None \<Rightarrow> cs | Some k' \<Rightarrow> AList.delete k' cs) else cs);
          context = (case k of (x, y, width, height) \<Rightarrow> new_context width height)
      in (context, st\<lparr>h_contexts := AList.update k context cs\<rparr>))"

definition getContext :: "contextId \<Rightarrow> h264 \<Rightarrow> h264_context \<times> h264" where
  "getContext k st = (case map_of (h_contexts st) k of Some c \<Rightarrow> (c, st) | None \<Rightarrow> createContext k st)"

definition resetContext :: "contextId \<Rightarrow> h264 \<Rightarrow> h264" where
  "resetContext k st = st\<lparr>h_contexts := AList.delete k (h_contexts st)\<rparr>"

definition resetAllContexts :: "h264 \<Rightarrow> h264" where
  "resetAllContexts st = st\<lparr>h_contexts := []\<rparr>"

text \<open>The header and the payload; when the payload has not arrived, the header is put back.\<close>

definition h264_header :: "(nat \<times> byte list, 's) reader" where
  "h264_header st s =
     (if rQwait 8 s then (Inr None, st, s)
      else
        let (n, s) = rQshift32 s; (flags, s) = rQshift32 s
        in case rQwait_back n 8 s of
             Inl e \<Rightarrow> (Inl e, st, s)
           | Inr (True, s) \<Rightarrow> (Inr None, st, s)
           | Inr (False, s) \<Rightarrow> let (payload, s) = rQshiftBytes n s in (Inr (Some (flags, payload)), st, s))"

definition put_context :: "contextId \<Rightarrow> h264_context \<Rightarrow> h264 \<Rightarrow> h264" where
  "put_context k c st = st\<lparr>h_contexts := AList.update k c (h_contexts st)\<rparr>"

definition h264_use :: "nat \<Rightarrow> contextId \<Rightarrow> h264 \<Rightarrow> h264_context \<times> h264" where
  "h264_use flags k st =
     (let st = (if flags AND 2 \<noteq> 0 then resetAllContexts st else if flags AND 1 \<noteq> 0 then resetContext k st else st);
          (c, st) = getContext k st;
          c = c\<lparr>c_lastUsed := h_tick st\<rparr>
      in (c, (put_context k c st)\<lparr>h_tick := Suc (h_tick st)\<rparr>))"

definition h264_show ::
    "browser_video \<Rightarrow> int \<Rightarrow> int \<Rightarrow> nat \<Rightarrow> nat \<Rightarrow> nat \<Rightarrow> byte list \<Rightarrow> h264 \<times> display \<Rightarrow> (js_error + unit) \<times> h264 \<times> display" where
  "h264_show bv x y width height flags payload p =
     (case p of (st, d) \<Rightarrow>
        let k = (x, y, width, height);
            timestamp = clock bv (h_tick st);
            (c, st) = h264_use flags k st
        in if payload = [] then (Inr (), st, d)
           else
             let (r, s) = h264_decode bv timestamp payload \<lparr>d_context = c, d_self = h_self st, d_next = h_next st\<rparr>;
                 st = (put_context k (d_context s) st)\<lparr>h_self := d_self s, h_next := d_next s\<rparr>
             in case r of
                  Inl e \<Rightarrow> (Inl e, st, d)
                | Inr None \<Rightarrow> (Inr (), st, d)
                | Inr (Some n) \<Rightarrow>
                    (case videoFrame x y (int width) (int height)
                            \<lparr>fr_id = n, fr_ready = False, codedWidth = 0, codedHeight = 0, callbacks = 0\<rparr> d of
                       (Some e, d) \<Rightarrow> (Inl e, st, d)
                     | (None, d) \<Rightarrow> (Inr (), st, d)))"

definition h264_rect :: "browser_video \<Rightarrow> int \<Rightarrow> int \<Rightarrow> nat \<Rightarrow> nat \<Rightarrow> (unit, h264 \<times> display) reader" where
  "h264_rect bv x y width height =
     rd_bind h264_header (\<lambda>(flags, payload). rd_state (h264_show bv x y width height flags payload))"

definition h264_decodeRect ::
    "browser_video \<Rightarrow> int \<Rightarrow> int \<Rightarrow> nat \<Rightarrow> nat \<Rightarrow> h264 \<Rightarrow> websock \<Rightarrow> display \<Rightarrow> (h264, display) decoded" where
  "h264_decodeRect bv x y width height = decoder_of (h264_rect bv x y width height)"

text \<open>A frame comes out of the decoder of a position.\<close>

definition h264_output :: "contextId \<Rightarrow> int \<Rightarrow> int \<Rightarrow> int \<Rightarrow> h264 \<Rightarrow> display \<Rightarrow> js_error option \<times> h264 \<times> display" where
  "h264_output k timestamp w h st d =
     (case map_of (h_contexts st) k of
        None \<Rightarrow> (None, st, d)
      | Some c \<Rightarrow>
          (case handleFrame timestamp c of
             (Inl e, c) \<Rightarrow> (Some e, put_context k c st, d)
           | (Inr p, c) \<Rightarrow> (case frame_ready (pd_frame p) w h d of (e, d) \<Rightarrow> (e, put_context k c st, d))))"

section \<open>The frames of a payload\<close>

text \<open>Resumption: the header is put back while the payload is incomplete.\<close>

lemma h264_header_eq:
  assumes "rq_ok x"
  shows "h264_header st x = (if length (unread x) < 8 \<or> length (unread x) < 8 + be (take 4 (unread x)) then (Inr None, st, x)
      else (Inr (Some (be (take 4 (drop 4 (unread x))), take (be (take 4 (unread x))) (drop 8 (unread x)))), st,
        adv (8 + be (take 4 (unread x))) x))"
proof (cases "length (unread x) < 8")
  case True
  then show ?thesis
    using assms by (simp add: h264_header_def rQwait_ok)
next
  case False
  have x: "rq_ok (adv 4 x)" "rq_ok (adv 8 x)"
    using False assms by (simp_all add: adv_ok)
  have m: "rQshift32 x = (be (take 4 (unread x)), adv 4 x)"
    "rQshift32 (adv 4 x) = (be (take 4 (drop 4 (unread x))), adv 8 x)"
    using False rQshift_be_ok [OF assms, of 4] rQshift_be_ok [OF x(1), of 4]
    by (simp_all add: rQshift32_def adv_unread)
  have l: "rQ_length (adv 8 x) = int (length (unread x)) - 8"
    using False assms by (simp add: rQ_length_def length_unread_ok)
  have b: "take n (drop (rQi x + 8) (rQ x)) = take n (drop 8 (unread x))" if "8 + n \<le> length (unread x)" for n
    using that \<open>rq_ok x\<close> by (simp add: length_unread_ok) (simp add: unread_def drop_take add.commute)
  show ?thesis
    using False assms m l b
    by (auto simp: h264_header_def rQwait_ok rQwait_back_def rQshiftBytes_def adv_def)
qed

lemma still_h264_header: "still h264_header"
proof (rule stillI)
  fix st :: 's and s t bs
  assume st: "rq_ok s" "rq_ok t" "unread t = unread s @ bs"
  let ?u = "unread s" and ?n = "be (take 4 (unread s))"
  note hd = h264_header_eq
  have e: "take 4 (unread t) = take 4 ?u" "take 4 (drop 4 (unread t)) = take 4 (drop 4 ?u)"
    "take n (drop 8 (unread t)) = take n (drop 8 ?u)"
    if "8 \<le> length ?u" "8 + n \<le> length ?u" for n
    using that st(3) by simp_all
  show "\<exists>r st' k. k \<le> length (unread s) \<and> h264_header st s = (r, st', adv k s)
        \<and> (if r = Inr None then st' = st \<and> k = 0 else h264_header st t = (r, st', adv k t))
        \<and> (bs = [] \<longrightarrow> h264_header st t = (r, st', adv k t))"
  proof (cases "length ?u < 8 \<or> length ?u < 8 + ?n")
    case True
    then show ?thesis
      using hd [OF st(1)] hd [OF st(2)] st(3) by (intro exI [of _ "Inr None"] exI [of _ st] exI [of _ 0]) auto
  next
    case False
    then show ?thesis
      using hd [OF st(1)] hd [OF st(2)] e [of ?n] st(3)
      by (intro exI [of _ "Inr (Some (be (take 4 (drop 4 ?u)), take ?n (drop 8 ?u)))"] exI [of _ st] exI [of _ "8 + ?n"])
        (auto simp: not_less)
  qed
qed

interpretation h264: resumable "h264_decodeRect bv x y w h" "bytes_of (h264_rect bv x y w h)" "\<lambda>_ _. True" for bv x y w h
proof -
  have "resuming (h264_rect bv x y w h)"
    unfolding h264_rect_def
    by (rule resuming_prompt [OF still_resumes [OF still_h264_header]]) (auto intro!: reader_intros split: prod.split)
  then show "resumable (h264_decodeRect bv x y w h) (bytes_of (h264_rect bv x y w h)) (\<lambda>_ _. True)"
    unfolding h264_decodeRect_def by (rule resuming_resumable)
qed


text \<open>A unit has its start code, and the bit that is forbidden in its first byte is clear.\<close>

definition nal_stream :: "byte list \<Rightarrow> bool" where
  "nal_stream data \<longleftrightarrow>
     (data \<noteq> [] \<longrightarrow> getStartSequenceLen data 0 \<noteq> 0)
     \<and> list_all (\<lambda>i. case elem_at data (i + getStartSequenceLen data i) of None \<Rightarrow> True
          | Some b \<Rightarrow> getStartSequenceLen data i = 0 \<or> unat b < 128) [0..<length data]"

lemma forbidden_bit: "(x::nat) < 128 \<Longrightarrow> x AND 128 = 0"
proof -
  assume "x < 128"
  then have "\<not> bit x 7"
    by (simp add: bit_iff_odd)
  then show ?thesis
    using and_exp_eq_0_iff_not_bit [of x 7] by simp
qed

lemma unit_parsed:
  assumes "nal_stream data" "i < length data" "getStartSequenceLen data i \<noteq> 0"
  shows "\<exists>u. parseNalUnit data (i + getStartSequenceLen data i) sps = Inr u"
proof -
  have "unat b < 128" if "elem_at data (i + getStartSequenceLen data i) = Some b" for b
  proof -
    have "case elem_at data (i + getStartSequenceLen data i) of None \<Rightarrow> True | Some b \<Rightarrow> getStartSequenceLen data i = 0 \<or> unat b < 128"
      using assms(1,2) unfolding nal_stream_def list_all_iff by (elim conjE bspec) simp
    then show ?thesis
      using that assms(3) by simp
  qed
  then show ?thesis
    by (auto simp: parseNalUnit_def Let_def forbidden_bit split: option.splits)
qed

lemma start_code_inside: "getStartSequenceLen data i \<noteq> 0 \<Longrightarrow> i + getStartSequenceLen data i \<le> length data"
  by (auto simp: getStartSequenceLen_def elem_at_def split: if_splits)

lemma start_code_of_chunk:
  "getStartSequenceLen data i \<noteq> 0 \<Longrightarrow> i + getStartSequenceLen data i \<le> j
   \<Longrightarrow> getStartSequenceLen (take (j - i) (drop i data)) 0 \<noteq> 0"
  by (auto simp: getStartSequenceLen_def elem_at_def split: if_splits)

lemma parse_from_stream:
  assumes "nal_stream data" "i \<le> length data" "i < length data \<longrightarrow> getStartSequenceLen data i \<noteq> 0"
  shows "\<exists>j k sps'. parse_from data i sps key = Inr (j, k, sps') \<and> j \<le> length data
     \<and> (j < length data \<longrightarrow> getStartSequenceLen data j \<noteq> 0)
     \<and> (i < length data \<longrightarrow> i + getStartSequenceLen data i \<le> j)"
  using assms
proof (induction data i sps key rule: parse_from.induct)
  case (1 data i sps key)
  show ?case
  proof (cases "i < length data")
    case True
    let ?n = "getStartSequenceLen data i"
    let ?j = "case indexOfNextNalUnit data (i + ?n) of None \<Rightarrow> length data | Some j \<Rightarrow> j"
    have n: "?n \<noteq> 0" "i + ?n \<le> length data"
      using True 1(4) start_code_inside by auto
    have j: "i + ?n \<le> ?j" "?j \<le> length data" "?j < length data \<longrightarrow> getStartSequenceLen data ?j \<noteq> 0"
      using n by (auto split: option.split dest!: next_nal_unit)
    obtain is_slice k sps1 where p: "parseNalUnit data (i + ?n) sps = Inr (is_slice, k, sps1)"
      using unit_parsed [OF 1(2) True n(1)] by (metis prod_cases3)
    show ?thesis
    proof (cases is_slice)
      case True
      then show ?thesis
        using \<open>i < length data\<close> n p j by (simp add: parse_from.simps [of data i] Let_def)
    next
      case False
      have "\<exists>j' k' sps'. parse_from data ?j sps1 (key \<or> k) = Inr (j', k', sps') \<and> j' \<le> length data
          \<and> (j' < length data \<longrightarrow> getStartSequenceLen data j' \<noteq> 0)
          \<and> (?j < length data \<longrightarrow> ?j + getStartSequenceLen data ?j \<le> j')"
        by (rule 1(1) [OF True refl n(1) p refl refl refl False 1(2) j(2,3)])
      then obtain j' k' sps' where r: "parse_from data ?j sps1 (key \<or> k) = Inr (j', k', sps')" "j' \<le> length data"
        "j' < length data \<longrightarrow> getStartSequenceLen data j' \<noteq> 0"
        by blast
      have "?j \<le> j'"
        using parse_from_advances [OF r(1)] by simp
      then show ?thesis
        using r n p j True False by (simp add: parse_from.simps [of data i] Let_def)
    qed
  next
    case False
    then have "parse_from data i sps key = Inr (i, key, sps)"
      by (simp add: parse_from.simps [of data i])
    then show ?thesis
      using 1(3) False by auto
  qed
qed

text \<open>
  What WebCodecs documents of \<open>decode\<close>: a configured decoder takes a key chunk, and once it has taken
  one it takes every chunk; it throws when it is not configured, and for a delta chunk before the
  first key chunk.
\<close>

definition webcodecs :: "browser_video \<Rightarrow> bool" where
  "webcodecs bv \<longleftrightarrow> (\<forall>v ch. vd_state v = Configured \<longrightarrow> vd_chunks v \<noteq> [] \<or> fst (snd ch) \<longrightarrow> vd_decodes bv v ch)"

text \<open>The first frame that the parser finds from \<open>i\<close> on is a key frame.\<close>

definition key_first :: "byte list \<Rightarrow> nat \<Rightarrow> sps option \<Rightarrow> bool" where
  "key_first data i sps = (case parse_from data i sps False of Inl e \<Rightarrow> False | Inr (j, key, _) \<Rightarrow> key)"

lemma decode_loop_frames:
  assumes "webcodecs bv" "nal_stream data"
    "i \<le> length data" "i < length data \<longrightarrow> getStartSequenceLen data i \<noteq> 0"
    "c_decoder (d_context s) = Some v" "vd_state v = Configured"
    "i < length data \<longrightarrow> vd_chunks v \<noteq> [] \<or> key_first data i sps"
  shows "\<exists>new s'. decode_loop bv ts data i sps res s
       = (Inr (if new = [] then res else Some (d_next s + length new - 1)), s')
     \<and> c_decoder (d_context s') = Some (v\<lparr>vd_chunks := vd_chunks v @ new\<rparr>)
     \<and> concat (map (snd \<circ> snd) new) = drop i data
     \<and> (\<forall>ch\<in>set new. fst ch = ts \<and> getStartSequenceLen (snd (snd ch)) 0 \<noteq> 0)
     \<and> map pd_frame (c_pending (d_context s')) = map pd_frame (c_pending (d_context s)) @ [d_next s..<d_next s + length new]
     \<and> map pd_timestamp (c_pending (d_context s')) = map pd_timestamp (c_pending (d_context s)) @ map fst new
     \<and> d_next s' = d_next s + length new"
  using assms(3-7)
proof (induction "length data - i" arbitrary: i sps res s v rule: less_induct)
  case less
  obtain j k sps' where p: "parse_from data i sps False = Inr (j, k, sps')" "j \<le> length data"
    "j < length data \<longrightarrow> getStartSequenceLen data j \<noteq> 0" "i < length data \<longrightarrow> i + getStartSequenceLen data i \<le> j"
    using parse_from_stream [OF assms(2) less(2,3)] by blast
  show ?case
  proof (cases "i < length data")
    case False
    then have "j = i"
      using p(1) by (simp add: parse_from.simps [of data i])
    then have "decode_loop bv ts data i sps res s = (Inr res, s)"
      using p(1) by (subst decode_loop.simps) simp
    then show ?thesis
      using False less by (intro exI [of _ "[]"] exI [of _ s]) simp
  next
    case True
    then have ij: "i < j"
      using p(4) less(3) by auto
    let ?ch = "(ts, k, take (j - i) (drop i data))"
    define s1 where "s1 = (case sps' of None \<Rightarrow> s | Some sps \<Rightarrow> s\<lparr>d_self := sps\<rparr>)"
    have s1: "d_context s1 = d_context s" "d_next s1 = d_next s"
      by (simp_all add: s1_def split: option.split)
    define s2 where "s2 = (snd (preparePendingFrame ts s1))\<lparr>d_context := submit bv ?ch (d_context (snd (preparePendingFrame ts s1)))\<rparr>"
    have eq: "decode_loop bv ts data i sps res s = decode_loop bv ts data j sps' (Some (d_next s)) s2"
      using p(1) ij less(4,5) s1
      by (simp add: decode_loop.simps [of bv ts data i] prepareFrame_def Let_def s2_def preparePendingFrame_def flip: s1_def)
    have "vd_chunks v \<noteq> [] \<or> k"
      using less(6) True p(1) by (simp add: key_first_def)
    then have takes: "vd_decodes bv v ?ch"
      using assms(1) less(5) by (simp add: webcodecs_def)
    have d2: "c_decoder (d_context s2) = Some (v\<lparr>vd_chunks := vd_chunks v @ [?ch]\<rparr>)" "d_next s2 = Suc (d_next s)"
      "map pd_frame (c_pending (d_context s2)) = map pd_frame (c_pending (d_context s)) @ [d_next s]"
      "map pd_timestamp (c_pending (d_context s2)) = map pd_timestamp (c_pending (d_context s)) @ [ts]"
      using less(4) takes s1 by (simp_all add: s2_def submit_def preparePendingFrame_def)
    have "length data - j < length data - i"
      using ij True by simp
    from less(1) [OF this p(2,3) d2(1), of sps' "Some (d_next s)"] less(5) obtain new s' where
      n: "decode_loop bv ts data j sps' (Some (d_next s)) s2
         = (Inr (if new = [] then Some (d_next s) else Some (d_next s2 + length new - 1)), s')"
        "c_decoder (d_context s') = Some (v\<lparr>vd_chunks := vd_chunks v @ ?ch # new\<rparr>)"
        "concat (map (snd \<circ> snd) new) = drop j data"
        "\<forall>ch\<in>set new. fst ch = ts \<and> getStartSequenceLen (snd (snd ch)) 0 \<noteq> 0"
        "map pd_frame (c_pending (d_context s')) = map pd_frame (c_pending (d_context s2)) @ [d_next s2..<d_next s2 + length new]"
        "map pd_timestamp (c_pending (d_context s')) = map pd_timestamp (c_pending (d_context s2)) @ map fst new"
        "d_next s' = d_next s2 + length new"
      by auto
    have "take (j - i) (drop i data) @ drop j data = drop i data"
      using ij by (metis append_take_drop_id drop_drop le_add_diff_inverse2 less_imp_le)
    moreover have "getStartSequenceLen (take (j - i) (drop i data)) 0 \<noteq> 0"
      using start_code_of_chunk p(4) less(3) True by blast
    moreover have "d_next s # [d_next s2..<d_next s2 + length new] = [d_next s..<d_next s + length (?ch # new)]"
      by (simp add: d2 upt_conv_Cons del: upt_Suc)
    moreover have "(if new = [] then Some (d_next s) else Some (d_next s2 + length new - 1))
      = Some (d_next s + length (?ch # new) - 1)"
      using d2(2) by (cases new) simp_all
    ultimately show ?thesis
      unfolding eq using n d2(2-4)
      by (intro exI [of _ "?ch # new"] exI [of _ s']) (simp del: upt_Suc)
  qed
qed


lemma h264_decode_frames:
  assumes "webcodecs bv" "nal_stream payload"
    "c_decoder (d_context s) = Some v" "vd_state v = Configured" "vd_chunks v \<noteq> [] \<or> key_first payload 0 None"
  shows "\<exists>new s'. h264_decode bv timestamp payload s = (Inr (if new = [] then None else Some (d_next s + length new - 1)), s')
     \<and> c_decoder (d_context s') = Some (v\<lparr>vd_chunks := vd_chunks v @ new\<rparr>)
     \<and> concat (map (snd \<circ> snd) new) = payload
     \<and> (\<forall>ch\<in>set new. fst ch = timestamp \<and> getStartSequenceLen (snd (snd ch)) 0 \<noteq> 0)
     \<and> map pd_frame (c_pending (d_context s')) = map pd_frame (c_pending (d_context s)) @ [d_next s..<d_next s + length new]
     \<and> map pd_timestamp (c_pending (d_context s')) = map pd_timestamp (c_pending (d_context s)) @ map fst new
     \<and> d_next s' = d_next s + length new"
proof -
  have "0 < length payload \<longrightarrow> getStartSequenceLen payload 0 \<noteq> 0"
    using assms(2) by (auto simp: nal_stream_def)
  then obtain new s' where
    n: "decode_loop bv timestamp payload 0 None None s
       = (Inr (if new = [] then None else Some (d_next s + length new - 1)), s')"
      "c_decoder (d_context s') = Some (v\<lparr>vd_chunks := vd_chunks v @ new\<rparr>)"
      "concat (map (snd \<circ> snd) new) = payload"
      "\<forall>ch\<in>set new. fst ch = timestamp \<and> getStartSequenceLen (snd (snd ch)) 0 \<noteq> 0"
      "map pd_frame (c_pending (d_context s')) = map pd_frame (c_pending (d_context s)) @ [d_next s..<d_next s + length new]"
      "map pd_timestamp (c_pending (d_context s')) = map pd_timestamp (c_pending (d_context s)) @ map fst new" "d_next s' = d_next s + length new"
    using decode_loop_frames [of bv payload 0 s v None timestamp None, OF assms(1,2) _ _ assms(3,4)] assms(5) by auto
  have keep: "map pd_frame (c_pending (keep_pending m c)) = map pd_frame (c_pending c)"
    "map pd_timestamp (c_pending (keep_pending m c)) = map pd_timestamp (c_pending c)"
    "c_decoder (keep_pending m c) = c_decoder c" for m c
    by (simp_all add: keep_pending_def)
  show ?thesis
  proof (cases "new = []")
    case True
    then show ?thesis
      using n by (intro exI [of _ new] exI [of _ s']) (simp add: h264_decode_def)
  next
    case False
    then show ?thesis
      using n keep
      by (intro exI [of _ new] exI [of _ "s'\<lparr>d_context := keep_pending (d_next s + length new - 1) (d_context s')\<rparr>"])
        (simp add: h264_decode_def)
  qed
qed

text \<open>A context that is not reset and known is the one that is used.\<close>

lemma h264_use_known:
  assumes "flags AND 2 = 0" "flags AND 1 = 0" "map_of (h_contexts st) k = Some c"
  shows "h264_use flags k st = (c\<lparr>c_lastUsed := h_tick st\<rparr>,
    (put_context k (c\<lparr>c_lastUsed := h_tick st\<rparr>) st)\<lparr>h_tick := Suc (h_tick st)\<rparr>)"
  using assms by (simp add: h264_use_def getContext_def Let_def)

text \<open>A frame that is not there yet is queued.\<close>

definition queued_frame :: "nat \<Rightarrow> display \<Rightarrow> frame" where
  "queued_frame n d = \<lparr>fr_id = n, fr_ready = False, codedWidth = 0, codedHeight = 0,
     callbacks = (if renderQ d = [] then 1 else 0)\<rparr>"

lemma videoFrame_queues:
  "videoFrame x y w h \<lparr>fr_id = n, fr_ready = False, codedWidth = 0, codedHeight = 0, callbacks = 0\<rparr> d
   = (None, d\<lparr>renderQ := renderQ d @ [AFrame (queued_frame n d) x y w h]\<rparr>)"
  by (simp add: videoFrame_def renderQPush_def scanRenderQ_def queued_frame_def Let_def)

text \<open>C20. Once its decoder is configured, a position of an H.264 stream loses nothing and keeps the
order.  When a rectangle has arrived that does not reset the position, its payload is not empty and a
sequence of NAL units (each behind its start code, with the forbidden bit clear: \<open>nal_stream\<close>), and
either the decoder has taken a chunk before or the payload begins with a key frame, then: nothing is
thrown; the chunks that the decoder gets, each of which begins with a start code and carries the time
of the payload, are the payload when they are joined; as many frames with that time wait at the end
of the position's list, numbered in order; and the last of them, and no other, is queued on the
display for drawing at the rectangle.  Exactly the rectangle's bytes are taken from the stream and no
other position changes.  The browser is any whose \<open>decode\<close> takes what WebCodecs says (\<open>webcodecs\<close>).\<close>

theorem h264_frames:
  assumes "webcodecs bv" "nal_stream payload" "payload \<noteq> []"
    and "rq_ok s" "unread s = len @ flags @ payload @ rest"
    and "length len = 4" "be len = length payload" "length flags = 4" "be flags AND 2 = 0" "be flags AND 1 = 0"
    and "map_of (h_contexts st) (x, y, w, h) = Some c" "c_decoder c = Some v" "vd_state v = Configured"
    and "vd_chunks v \<noteq> [] \<or> key_first payload 0 None"
  shows "\<exists>new st' s' c'. new \<noteq> []
     \<and> h264_decodeRect bv x y w h st s d = (Inr True, st', s',
         d\<lparr>renderQ := renderQ d @ [AFrame (queued_frame (h_next st + length new - 1) d) x y (int w) (int h)]\<rparr>)
     \<and> unread s' = rest \<and> h_next st' = h_next st + length new
     \<and> map_of (h_contexts st') = (map_of (h_contexts st))((x, y, w, h) \<mapsto> c')
     \<and> c_decoder c' = Some (v\<lparr>vd_chunks := vd_chunks v @ new\<rparr>)
     \<and> concat (map (snd \<circ> snd) new) = payload
     \<and> (\<forall>ch\<in>set new. fst ch = clock bv (h_tick st) \<and> getStartSequenceLen (snd (snd ch)) 0 \<noteq> 0)
     \<and> map pd_frame (c_pending c') = map pd_frame (c_pending c) @ [h_next st..<h_next st + length new]
     \<and> map pd_timestamp (c_pending c') = map pd_timestamp (c_pending c) @ map fst new"
proof -
  let ?k = "(x, y, w, h)" and ?n = "length payload"
  have hd: "h264_header p s = (Inr (Some (be flags, payload)), p, adv (8 + ?n) s)" for p :: "h264 \<times> display"
    using assms(4-8) by (simp add: h264_header_eq)
  define c0 where "c0 = c\<lparr>c_lastUsed := h_tick st\<rparr>"
  define st0 where "st0 = (put_context ?k c0 st)\<lparr>h_tick := Suc (h_tick st)\<rparr>"
  let ?s = "\<lparr>d_context = c0, d_self = h_self st, d_next = h_next st\<rparr>"
  have "c_decoder (d_context ?s) = Some v"
    using assms(12) by (simp add: c0_def)
  note frames = h264_decode_frames [OF assms(1,2) this assms(13,14), of "clock bv (h_tick st)"]
  have c0: "c_pending c0 = c_pending c"
    by (simp add: c0_def)
  obtain new s' where n: "h264_decode bv (clock bv (h_tick st)) payload ?s
       = (Inr (if new = [] then None else Some (h_next st + length new - 1)), s')"
      "c_decoder (d_context s') = Some (v\<lparr>vd_chunks := vd_chunks v @ new\<rparr>)"
      "concat (map (snd \<circ> snd) new) = payload"
      "\<forall>ch\<in>set new. fst ch = clock bv (h_tick st) \<and> getStartSequenceLen (snd (snd ch)) 0 \<noteq> 0"
      "map pd_frame (c_pending (d_context s')) = map pd_frame (c_pending c) @ [h_next st..<h_next st + length new]"
      "map pd_timestamp (c_pending (d_context s')) = map pd_timestamp (c_pending c) @ map fst new"
      "d_next s' = h_next st + length new"
    using frames unfolding decoding.select_convs c0 by blast
  have ne: "new \<noteq> []"
    using n(3) assms(3) by auto
  define st1 where "st1 = (put_context ?k (d_context s') st0)\<lparr>h_self := d_self s', h_next := d_next s'\<rparr>"
  have u: "h264_use (be flags) ?k st = (c0, st0)"
    unfolding c0_def st0_def by (rule h264_use_known) (use assms(9-11) in simp_all)
  have s0: "h_self st0 = h_self st" "h_next st0 = h_next st"
    by (simp_all add: st0_def put_context_def)
  have "h264_show bv x y w h (be flags) payload (st, d) = (Inr (), st1,
      d\<lparr>renderQ := renderQ d @ [AFrame (queued_frame (h_next st + length new - 1) d) x y (int w) (int h)]\<rparr>)"
    using assms(3) ne n(1) by (simp add: h264_show_def u s0 videoFrame_queues st1_def Let_def)
  then have "h264_decodeRect bv x y w h st s d = (Inr True, st1, adv (8 + ?n) s,
      d\<lparr>renderQ := renderQ d @ [AFrame (queued_frame (h_next st + length new - 1) d) x y (int w) (int h)]\<rparr>)"
    by (simp add: h264_decodeRect_def decoder_of_def h264_rect_def rd_bind_def hd rd_state_def)
  moreover have "map_of (h_contexts st1) = (map_of (h_contexts st))(?k \<mapsto> d_context s')"
    by (simp add: st1_def st0_def put_context_def AList.update_conv')
  moreover have "unread (adv (8 + ?n) s) = rest"
    using assms(5-8) by (simp add: adv_unread)
  moreover have "h_next st1 = h_next st + length new"
    by (simp add: st1_def n(7))
  ultimately show ?thesis
    using ne n(2-6) by blast
qed

text \<open>Parameters and a key frame of one slice, and another slice: two frames.\<close>

definition started_h264 :: h264 where
  "started_h264 = new_h264\<lparr>h_next := 5, h_contexts := [((0, 0, 4, 4), (new_context 4 4)\<lparr>c_decoder :=
     Some \<lparr>vd_state = Configured, vd_configs = [], vd_chunks = []\<rparr>\<rparr>)]\<rparr>"

definition documented_browser :: browser_video where
  "documented_browser = \<lparr>vd_accepts = \<lambda>_ _ _. True,
     vd_decodes = \<lambda>v ch. vd_state v = Configured \<and> (vd_chunks v \<noteq> [] \<or> fst (snd ch)), clock = int\<rparr>"

theorem h264_frames_witness:
  "\<exists>new st' s' c'. h264_decodeRect documented_browser 0 0 4 4 started_h264
       (over [0, 0, 0, 12, 0, 0, 0, 0, 0, 0, 1, 0x67, 0, 0, 1, 0x65, 0, 0, 1, 0x41, 9]) (new_display 4 4)
     = (Inr True, st', s', (new_display 4 4)\<lparr>renderQ := [AFrame (queued_frame (4 + length new) (new_display 4 4)) 0 0 4 4]\<rparr>)
   \<and> unread s' = [9] \<and> map_of (h_contexts st') (0, 0, 4, 4) = Some c'
   \<and> c_decoder c' = Some \<lparr>vd_state = Configured, vd_configs = [], vd_chunks = new\<rparr>
   \<and> concat (map (snd \<circ> snd) new) = [0, 0, 1, 0x67, 0, 0, 1, 0x65, 0, 0, 1, 0x41]"
proof -
  let ?p = "[0, 0, 1, 0x67, 0, 0, 1, 0x65, 0, 0, 1, 0x41] :: byte list"
  let ?s = "over ([0, 0, 0, 12] @ [0, 0, 0, 0] @ ?p @ [9])"
  let ?v = "\<lparr>vd_state = Configured, vd_configs = [], vd_chunks = []\<rparr>"
  have b: "webcodecs documented_browser"
    by (simp add: webcodecs_def documented_browser_def)
  have p: "nal_stream ?p"
    by (simp add: nal_stream_def getStartSequenceLen_def elem_at_def)
  have k: "vd_chunks ?v \<noteq> [] \<or> key_first ?p 0 None"
    by (simp add: key_first_def parse_from.simps getStartSequenceLen_def elem_at_def parseNalUnit_def indexOfNextNalUnit_def
        parseSps_def)
  have m: "map_of (h_contexts started_h264) (0, 0, 4, 4) = Some ((new_context 4 4)\<lparr>c_decoder := Some ?v\<rparr>)"
    by (simp add: started_h264_def)
  have h: "be [0, 0, 0, 12] = length ?p" "be [0, 0, 0, 0] AND 2 = 0" "be [0, 0, 0, 0] AND 1 = 0"
    by simp_all
  have d: "renderQ (new_display 4 4) = []" "h_next started_h264 = 5"
    by (simp_all add: new_display_def started_h264_def)
  obtain new st' s' c' where "new \<noteq> []" "h264_decodeRect documented_browser 0 0 4 4 started_h264 ?s (new_display 4 4)
     = (Inr True, st', s', (new_display 4 4)\<lparr>renderQ := renderQ (new_display 4 4) @
         [AFrame (queued_frame (h_next started_h264 + length new - 1) (new_display 4 4)) 0 0 (int 4) (int 4)]\<rparr>)"
    "unread s' = [9]" "map_of (h_contexts st') = (map_of (h_contexts started_h264))((0, 0, 4, 4) \<mapsto> c')"
    "c_decoder c' = Some (?v\<lparr>vd_chunks := vd_chunks ?v @ new\<rparr>)" "concat (map (snd \<circ> snd) new) = ?p"
    using h264_frames [OF b p _ over_ok _ h(1) _ h(2,3) m _ _ k, of "[9]" "new_display 4 4"] by auto
  then show ?thesis
    unfolding d by (intro exI [of _ new] exI [of _ st'] exI [of _ s'] exI [of _ c']) simp
qed

section \<open>The positions\<close>

text \<open>
  What holds of the contexts between two calls: no more than 64, each for one position, used at
  different times, which are past, with the size of its position, and with its waiting frames in
  the order of their numbers.
\<close>

definition context_ok :: "nat \<Rightarrow> nat \<Rightarrow> contextId \<times> h264_context \<Rightarrow> bool" where
  "context_ok tick n kc = (case kc of ((x, y, w, h), c) \<Rightarrow>
     c_lastUsed c < tick \<and> c_width c = w \<and> c_height c = h \<and> sorted_wrt (<) (map pd_frame (c_pending c) @ [n]))"

definition contexts_ok :: "nat \<Rightarrow> nat \<Rightarrow> (contextId \<times> h264_context) list \<Rightarrow> bool" where
  "contexts_ok tick n cs \<longleftrightarrow> length cs \<le> maxContexts \<and> distinct (map fst cs) \<and> distinct (map (c_lastUsed \<circ> snd) cs)
     \<and> list_all (context_ok tick n) cs"

definition h264_wf :: "h264 \<Rightarrow> bool" where
  "h264_wf st = contexts_ok (h_tick st) (h_next st) (h_contexts st)"


lemma set_update_distinct: "distinct (map fst al) \<Longrightarrow> set (AList.update k v al) = insert (k, v) {p \<in> set al. fst p \<noteq> k}"
  by (induction al) (auto simp: image_iff)

lemma distinct_update_values:
  "distinct (map fst al) \<Longrightarrow> distinct (map (f \<circ> snd) al) \<Longrightarrow> \<forall>p\<in>set al. fst p \<noteq> k \<longrightarrow> f (snd p) \<noteq> f v
   \<Longrightarrow> distinct (map (f \<circ> snd) (AList.update k v al))"
proof (induction al)
  case (Cons p al)
  show ?case
  proof (cases "fst p = k")
    case True
    then have "\<forall>q\<in>set al. fst q \<noteq> k"
      using Cons.prems(1) by (auto simp: image_iff)
    then have "f v \<notin> (\<lambda>q. f (snd q)) ` set al"
      using Cons.prems(3) by (auto dest: bspec)
    then show ?thesis
      using Cons.prems(2) True by (simp add: o_def)
  next
    case False
    have p: "f (snd p) \<noteq> f v" "\<forall>q\<in>set al. f (snd q) \<noteq> f (snd p)"
      using Cons.prems(2,3) False by (auto simp: image_iff)
    have "f (snd p) \<notin> (\<lambda>q. f (snd q)) ` set (AList.update k v al)"
      using p Cons.prems(1) by (auto simp: set_update_distinct dest: bspec)
    moreover have "distinct (map (f \<circ> snd) (AList.update k v al))"
      using Cons.IH Cons.prems by (simp add: o_def)
    ultimately show ?thesis
      using False by (simp add: o_def)
  qed
qed simp

lemma contexts_sub:
  assumes "contexts_ok t n cs"
  shows "contexts_ok t n (AList.delete k cs)" "contexts_ok t n []"
proof -
  have "AList.delete k cs = filter (\<lambda>p. k \<noteq> fst p) cs"
    by (simp add: AList.delete_eq case_prod_beta')
  moreover have "length (filter (\<lambda>p. k \<noteq> fst p) cs) \<le> length cs"
    by (rule length_filter_le)
  ultimately show "contexts_ok t n (AList.delete k cs)"
    using assms by (auto simp: contexts_ok_def list_all_iff distinct_map_filter simp del: length_filter_le)
  show "contexts_ok t n []"
    by (simp add: contexts_ok_def)
qed

lemma context_ok_mono: "context_ok t n p \<Longrightarrow> t \<le> t' \<Longrightarrow> n \<le> n' \<Longrightarrow> context_ok t' n' p"
  by (fastforce simp: context_ok_def sorted_wrt_append split: prod.splits)

lemma contexts_put:
  assumes "contexts_ok t n cs" "t \<le> t'" "n \<le> n'" "context_ok t' n' (k, c)"
    "k \<in> fst ` set cs \<or> length cs < maxContexts"
    "\<forall>p\<in>set cs. fst p \<noteq> k \<longrightarrow> c_lastUsed (snd p) \<noteq> c_lastUsed c"
  shows "contexts_ok t' n' (AList.update k c cs)"
proof -
  have "length (AList.update k c cs) = length (map fst (AList.update k c cs))"
    by simp
  also have "\<dots> \<le> maxContexts"
    using assms(1,5) by (auto simp: AList.update_keys contexts_ok_def simp del: length_map) (simp_all add: Suc_le_eq)
  finally have "length (AList.update k c cs) \<le> maxContexts" .
  moreover have "list_all (context_ok t' n') (AList.update k c cs)"
    using assms(1-4) by (auto simp: contexts_ok_def list_all_iff set_update_distinct intro: context_ok_mono)
  ultimately show ?thesis
    using assms(1,6) by (auto simp: contexts_ok_def AList.distinct_update distinct_update_values)
qed

text \<open>The context that goes is the one that was not used for the longest time.\<close>

lemma findOldest_fold:
  "\<exists>k' t'. fold older cs (Some (k, t)) = Some (k', t') \<and> t' \<le> t \<and> (\<forall>p\<in>set cs. t' \<le> c_lastUsed (snd p)) \<and> ((k', t') = (k, t) \<or> (\<exists>c. (k', c) \<in> set cs \<and> c_lastUsed c = t'))"
proof (induction cs arbitrary: k t)
  case (Cons p cs)

  define k0 t0 where "k0 = (if c_lastUsed (snd p) < t then fst p else k)" and "t0 = min t (c_lastUsed (snd p))"
  have p: "t0 \<le> t" "t0 \<le> c_lastUsed (snd p)" "(k0, t0) = (k, t) \<or> (k0, snd p) = p \<and> c_lastUsed (snd p) = t0"
    "older p (Some (k, t)) = Some (k0, t0)"
    by (auto simp: older_def k0_def t0_def)
  obtain k' t' where r: "fold older cs (Some (k0, t0)) = Some (k', t')" "t' \<le> t0" "\<forall>p\<in>set cs. t' \<le> c_lastUsed (snd p)"
    "(k', t') = (k0, t0) \<or> (\<exists>c. (k', c) \<in> set cs \<and> c_lastUsed c = t')"
    using Cons.IH [of k0 t0] by blast
  have "t' \<le> t" "\<forall>q\<in>set (p # cs). t' \<le> c_lastUsed (snd q)"
    using r(2,3) p(1,2) by auto
  moreover have "(k', t') = (k, t) \<or> (\<exists>c. (k', c) \<in> set (p # cs) \<and> c_lastUsed c = t')"
    using r(4) p(3) by (auto intro: exI [of _ "snd p"])
  ultimately show ?case
    using r(1) p(4) by auto
qed simp

lemma oldest_is_least_recent:
  assumes "cs \<noteq> []"
  shows "\<exists>k c. findOldestContextId cs = Some k \<and> (k, c) \<in> set cs \<and> (\<forall>p\<in>set cs. c_lastUsed c \<le> c_lastUsed (snd p))"
proof (cases cs)
  case (Cons p cs')
  obtain k0 c0 where p: "p = (k0, c0)"
    by (cases p)
  obtain k t where "fold older cs' (Some (k0, c_lastUsed c0)) = Some (k, t)" "t \<le> c_lastUsed c0"
    "\<forall>p\<in>set cs'. t \<le> c_lastUsed (snd p)"
    "(k, t) = (k0, c_lastUsed c0) \<or> (\<exists>c. (k, c) \<in> set cs' \<and> c_lastUsed c = t)"
    using findOldest_fold [of cs' k0 "c_lastUsed c0"] by blast
  moreover from this(1) have "findOldestContextId cs = Some k"
    using Cons p by (simp add: findOldestContextId_def older_def)
  ultimately show ?thesis
    using Cons p by auto
qed (use assms in simp)


text \<open>What a payload leaves alone in its context.\<close>

definition queue_sorted :: "decoding \<Rightarrow> bool" where
  "queue_sorted s = sorted_wrt (<) (map pd_frame (c_pending (d_context s)) @ [d_next s])"

definition decoded_from :: "decoding \<Rightarrow> decoding \<Rightarrow> bool" where
  "decoded_from s s' \<longleftrightarrow> c_lastUsed (d_context s') = c_lastUsed (d_context s)
     \<and> c_width (d_context s') = c_width (d_context s) \<and> c_height (d_context s') = c_height (d_context s)
     \<and> d_next s \<le> d_next s' \<and> (queue_sorted s \<longrightarrow> queue_sorted s')"

lemma decoded_from_trans [trans]: "decoded_from s1 s2 \<Longrightarrow> decoded_from s2 s3 \<Longrightarrow> decoded_from s1 s3"
  by (auto simp: decoded_from_def)

lemma prepareFrame_from: "prepareFrame bv sps key s = (r, s') \<Longrightarrow> decoded_from s s'"
  by (auto simp: prepareFrame_def configureDecoder_def Let_def decoded_from_def queue_sorted_def
      split: if_splits option.splits prod.splits)

lemma submit_same [simp]:
  "c_lastUsed (submit bv ch c) = c_lastUsed c" "c_width (submit bv ch c) = c_width c"
  "c_height (submit bv ch c) = c_height c" "c_pending (submit bv ch c) = c_pending c"
  by (simp_all add: submit_def split: option.split)

lemma pending_from:
  "preparePendingFrame ts s = (p, s') \<Longrightarrow> decoded_from s (s'\<lparr>d_context := submit bv ch (d_context s')\<rparr>)"
  by (auto simp: preparePendingFrame_def decoded_from_def queue_sorted_def sorted_wrt_append less_SucI)

lemma decode_loop_from: "decode_loop bv ts data i sps res s = (r, s') \<Longrightarrow> decoded_from s s'"
proof (induction bv ts data i sps res s rule: decode_loop.induct)
  case (1 bv ts data i sps res s)
  show ?case
  proof (cases "parse_from data i sps False")
    case (Inl e)
    then show ?thesis
      using 1(3) by (simp add: decode_loop.simps [of bv ts data i] decoded_from_def)
  next
    case (Inr q)
    obtain j key sps1 where q: "q = (j, key, sps1)"
      by (cases q)
    obtain p s1 where p: "prepareFrame bv sps1 key s = (p, s1)"
      by (cases "prepareFrame bv sps1 key s")
    obtain n s2 where s2: "preparePendingFrame ts s1 = (n, s2)"
      by (cases "preparePendingFrame ts s1")
    note step = decode_loop.simps [of bv ts data i sps res s] Inr q
    consider (stop) "j \<le> i" | (raise) e where "\<not> j \<le> i" "p = Inl e" | (skip) "\<not> j \<le> i" "p = Inr False"
      | (chunk) "\<not> j \<le> i" "p = Inr True"
      by (cases p) auto
    then show ?thesis
    proof cases
      case stop
      then show ?thesis
        using 1(3) by (simp add: step decoded_from_def)
    next
      case raise
      then show ?thesis
        using 1(3) p by (simp add: step prepareFrame_from)
    next
      case skip
      then have "decoded_from s1 s'"
        using 1(3) p by (intro 1(2) [OF Inr q [symmetric] refl _ p [symmetric]]) (simp_all add: step)
      then show ?thesis
        by (rule decoded_from_trans [OF prepareFrame_from [OF p]])
    next
      case chunk
      then have "decoded_from (s2\<lparr>d_context := submit bv (ts, key, take (j - i) (drop i data)) (d_context s2)\<rparr>) s'"
        using 1(3) p s2 by (intro 1(1) [OF Inr q [symmetric] refl _ p [symmetric] _ _ refl s2 [symmetric] refl]) (simp_all add: step)
      then show ?thesis
        by (intro decoded_from_trans [OF prepareFrame_from [OF p]] decoded_from_trans [OF pending_from [OF s2]])
    qed
  qed
qed

lemma h264_decode_from:
  assumes "h264_decode bv ts payload s = (r, s')"
  shows "decoded_from s s'"
proof -
  obtain q s1 where l: "decode_loop bv ts payload 0 None None s = (q, s1)"
    by (cases "decode_loop bv ts payload 0 None None s")
  have "map pd_frame (c_pending (keep_pending n c)) = map pd_frame (c_pending c)"
    "c_lastUsed (keep_pending n c) = c_lastUsed c" "c_width (keep_pending n c) = c_width c"
    "c_height (keep_pending n c) = c_height c" for n c
    by (simp_all add: keep_pending_def)
  then show ?thesis
    using decode_loop_from [OF l] assms l
    by (auto simp: h264_decode_def decoded_from_def queue_sorted_def split: sum.splits option.splits)
qed


lemma map_of_context: "contexts_ok t n cs \<Longrightarrow> map_of cs k = Some c \<Longrightarrow> context_ok t n (k, c) \<and> k \<in> fst ` set cs"
  by (auto simp: contexts_ok_def list_all_iff dest!: map_of_SomeD intro: rev_image_eqI)

text \<open>A place for one more is made when there is none.\<close>

lemma getContext_wf:
  assumes wf: "contexts_ok (h_tick st) (h_next st) (h_contexts st)" and get: "getContext k st = (c, st1)"
  shows "\<exists>cs. contexts_ok (h_tick st) (h_next st) cs \<and> (k \<in> fst ` set cs \<or> length cs < maxContexts)
     \<and> fst ` set cs \<subseteq> fst ` set (h_contexts st)
     \<and> (\<forall>c'. AList.update k c' (h_contexts st1) = AList.update k c' cs)
     \<and> h_tick st1 = h_tick st \<and> h_next st1 = h_next st \<and> h_self st1 = h_self st
     \<and> c_width c = fst (snd (snd k)) \<and> c_height c = snd (snd (snd k))
     \<and> sorted_wrt (<) (map pd_frame (c_pending c) @ [h_next st])"
proof (cases "map_of (h_contexts st) k")
  case (Some c')
  then have "context_ok (h_tick st) (h_next st) (k, c)" "k \<in> fst ` set (h_contexts st)" "st1 = st"
    using map_of_context [OF wf Some] get by (simp_all add: getContext_def)
  then show ?thesis
    using wf by (intro exI [of _ "h_contexts st"]) (auto simp: context_ok_def split: prod.splits)
next
  case None
  let ?cs = "h_contexts st"
  define cs where "cs = (if length ?cs \<ge> maxContexts
      then (case findOldestContextId ?cs of None \<Rightarrow> ?cs | Some k' \<Rightarrow> AList.delete k' ?cs) else ?cs)"
  have st1: "st1 = st\<lparr>h_contexts := AList.update k (new_context (fst (snd (snd k))) (snd (snd (snd k)))) cs\<rparr>"
    "c = new_context (fst (snd (snd k))) (snd (snd (snd k)))"
    using get None by (auto simp: getContext_def createContext_def Let_def cs_def split: prod.splits)
  have cs: "contexts_ok (h_tick st) (h_next st) cs"
    using wf contexts_sub(1) [OF wf] by (simp add: cs_def split: option.split)
  have sub: "fst ` set cs \<subseteq> fst ` set ?cs"
    by (auto simp: cs_def AList.delete_eq split: option.split if_splits)
  have "length cs < maxContexts"
  proof (cases "length ?cs \<ge> maxContexts")
    case True
    then have "?cs \<noteq> []"
      by (auto simp: maxContexts_def)
    then obtain k' c' where o: "findOldestContextId ?cs = Some k'" "(k', c') \<in> set ?cs"
      using oldest_is_least_recent by metis
    then have "length (filter (\<lambda>p. k' \<noteq> fst p) ?cs) < length ?cs"
      by (intro length_filter_less [of "(k', c')"]) simp_all
    moreover have "length ?cs \<le> maxContexts"
      using wf by (simp add: contexts_ok_def)
    ultimately show ?thesis
      using True o by (simp add: cs_def AList.delete_eq case_prod_beta')
  qed (simp add: cs_def)
  then show ?thesis
    using cs sub st1 by (intro exI [of _ cs]) (simp add: new_context_def)
qed

lemma h264_use_wf:
  assumes wf: "h264_wf st" and use: "h264_use flags k st = (c, st')"
  shows "h264_wf st'" "map_of (h_contexts st') k = Some c" "h_next st' = h_next st" "h_tick st' = Suc (h_tick st)"
    "fst ` set (h_contexts st') \<subseteq> insert k (fst ` set (h_contexts st))" "c_lastUsed c = h_tick st"
proof -
  define st0 where "st0 = (if flags AND 2 \<noteq> 0 then resetAllContexts st else if flags AND 1 \<noteq> 0 then resetContext k st else st)"
  have st0: "contexts_ok (h_tick st0) (h_next st0) (h_contexts st0)" "h_tick st0 = h_tick st" "h_next st0 = h_next st"
    "fst ` set (h_contexts st0) \<subseteq> fst ` set (h_contexts st)"
    using wf contexts_sub [of "h_tick st" "h_next st" "h_contexts st"]
    by (auto simp: st0_def resetAllContexts_def resetContext_def h264_wf_def AList.delete_eq)
  obtain c0 st1 where get: "getContext k st0 = (c0, st1)"
    by (cases "getContext k st0")
  obtain cs where cs: "contexts_ok (h_tick st) (h_next st) cs" "k \<in> fst ` set cs \<or> length cs < maxContexts"
    "fst ` set cs \<subseteq> fst ` set (h_contexts st0)"
    "\<And>c'. AList.update k c' (h_contexts st1) = AList.update k c' cs" "h_tick st1 = h_tick st" "h_next st1 = h_next st"
    "c_width c0 = fst (snd (snd k))" "c_height c0 = snd (snd (snd k))"
    "sorted_wrt (<) (map pd_frame (c_pending c0) @ [h_next st])"
    using getContext_wf [OF st0(1) get] st0(2,3) by auto
  have c: "c = c0\<lparr>c_lastUsed := h_tick st\<rparr>"
    "st' = st1\<lparr>h_contexts := AList.update k c cs, h_tick := Suc (h_tick st)\<rparr>"
    using use [unfolded h264_use_def Let_def, folded st0_def] get cs(4,5) by (auto simp: put_context_def)
  have "\<forall>p\<in>set cs. c_lastUsed (snd p) \<noteq> h_tick st"
    using cs(1) by (fastforce simp: contexts_ok_def list_all_iff context_ok_def)
  moreover have "context_ok (Suc (h_tick st)) (h_next st) (k, c)"
    using cs(7-9) by (simp add: context_ok_def c(1) split: prod.split)
  ultimately have "contexts_ok (Suc (h_tick st)) (h_next st) (AList.update k c cs)"
    by (intro contexts_put [OF cs(1) _ _ _ cs(2)]) (simp_all add: c(1))
  then show "h264_wf st'" "h_next st' = h_next st" "h_tick st' = Suc (h_tick st)"
    using cs(5,6) by (simp_all add: h264_wf_def c(2))
  show "map_of (h_contexts st') k = Some c" "c_lastUsed c = h_tick st"
    by (simp_all add: c AList.update_conv')
  have "distinct (map fst cs)"
    using cs(1) by (simp add: contexts_ok_def)
  then show "fst ` set (h_contexts st') \<subseteq> insert k (fst ` set (h_contexts st))"
    using cs(3) st0(4) by (auto simp: c(2) set_update_distinct)
qed

lemma put_context_wf:
  assumes wf: "h264_wf st" and c: "map_of (h_contexts st) k = Some c" "c_lastUsed c' = c_lastUsed c"
    "context_ok (h_tick st) n (k, c')" "h_next st \<le> n"
  shows "h264_wf ((put_context k c' st)\<lparr>h_self := sps, h_next := n\<rparr>)"
    "fst ` set (h_contexts (put_context k c' st)) = fst ` set (h_contexts st)"
proof -
  have ok: "contexts_ok (h_tick st) (h_next st) (h_contexts st)" and d: "distinct (map fst (h_contexts st))"
    using wf by (simp_all add: h264_wf_def contexts_ok_def)
  have k: "(k, c) \<in> set (h_contexts st)"
    using c(1) by (rule map_of_SomeD)
  have "inj_on (c_lastUsed \<circ> snd) (set (h_contexts st))"
    using ok by (simp add: contexts_ok_def distinct_map)
  then have "\<forall>p\<in>set (h_contexts st). fst p \<noteq> k \<longrightarrow> c_lastUsed (snd p) \<noteq> c_lastUsed c'"
    using k c(2) by (metis comp_apply fst_conv inj_on_def snd_conv)
  moreover have "k \<in> fst ` set (h_contexts st)"
    using k by force
  ultimately have "contexts_ok (h_tick st) n (AList.update k c' (h_contexts st))"
    using c(3,4) by (intro contexts_put [OF ok]) simp_all
  then show "h264_wf ((put_context k c' st)\<lparr>h_self := sps, h_next := n\<rparr>)"
    by (simp add: h264_wf_def put_context_def)
  show "fst ` set (h_contexts (put_context k c' st)) = fst ` set (h_contexts st)"
    using k by (force simp: put_context_def AList.dom_update)
qed

lemma h264_show_wf:
  assumes wf: "h264_wf st" and shown: "h264_show bv x y w h flags payload (st, d) = (r, st', d')"
  shows "h264_wf st'" "fst ` set (h_contexts st') \<subseteq> insert (x, y, w, h) (fst ` set (h_contexts st))"
proof -
  let ?k = "(x, y, w, h)"
  obtain c st1 where use: "h264_use flags ?k st = (c, st1)"
    by (cases "h264_use flags ?k st")
  note st1 = h264_use_wf [OF wf use]
  have res: "h264_wf st' \<and> fst ` set (h_contexts st') \<subseteq> insert ?k (fst ` set (h_contexts st))"
  proof (cases "payload = []")
    case True
    then show ?thesis
      using shown use st1 by (simp add: h264_show_def)
  next
    case False
    let ?s = "\<lparr>d_context = c, d_self = h_self st1, d_next = h_next st1\<rparr>"
    obtain q s where dec: "h264_decode bv (clock bv (h_tick st)) payload ?s = (q, s)"
      by (cases "h264_decode bv (clock bv (h_tick st)) payload ?s")
    have c: "context_ok (h_tick st1) (h_next st1) (?k, c)"
      using map_of_context [of "h_tick st1" "h_next st1" "h_contexts st1"] st1(1,2) by (simp add: h264_wf_def)
    then have "queue_sorted ?s"
      by (simp add: context_ok_def queue_sorted_def)
    then have s: "context_ok (h_tick st1) (d_next s) (?k, d_context s)" "c_lastUsed (d_context s) = c_lastUsed c"
      "h_next st1 \<le> d_next s"
      using h264_decode_from [OF dec] c by (simp_all add: decoded_from_def context_ok_def queue_sorted_def)
    have "st' = (put_context ?k (d_context s) st1)\<lparr>h_self := d_self s, h_next := d_next s\<rparr>"
      using shown use dec False
      by (simp add: h264_show_def Let_def split: sum.splits option.splits prod.splits)
    then show ?thesis
      using put_context_wf [OF st1(1,2) s(2,1,3)] st1(5) by simp
  qed
  then show "h264_wf st'" "fst ` set (h_contexts st') \<subseteq> insert ?k (fst ` set (h_contexts st))"
    by simp_all
qed


lemma h264_header_state: "h264_header st s = (r, st', s') \<Longrightarrow> st' = st"
  by (auto simp: h264_header_def Let_def split: if_splits sum.splits prod.splits bool.splits)

text \<open>C21. Whatever the rectangles of a server are, and however they arrive, the decoder's object stays
well formed, also when a rectangle raises: at most 64 positions, each with the size of its key and
with waiting frames in the order in which they were numbered, no two used at the same time and none
used in the future; the only position that a rectangle can add is its own.\<close>

theorem h264_contexts:
  assumes "h264_wf st" "h264_decodeRect bv x y w h st s d = (r, st', s', d')"
  shows "h264_wf st' \<and> fst ` set (h_contexts st') \<subseteq> insert (x, y, w, h) (fst ` set (h_contexts st))"
proof -
  obtain q s1 p where hd: "h264_header (st, d) s = (q, p, s1)"
    by (cases "h264_header (st, d) s") auto
  have p: "p = (st, d)"
    using h264_header_state [OF hd] .
  show ?thesis
  proof (cases "\<exists>flags payload. q = Inr (Some (flags, payload))")
    case True
    then obtain flags payload where q: "q = Inr (Some (flags, payload))"
      by blast
    obtain r1 st1 d1 where sh: "h264_show bv x y w h flags payload (st, d) = (r1, st1, d1)"
      by (cases "h264_show bv x y w h flags payload (st, d)") auto
    have "st' = st1"
      using assms(2) hd p q sh
      by (auto simp: h264_decodeRect_def decoder_of_def h264_rect_def rd_bind_def rd_state_def split: sum.splits)
    then show ?thesis
      using h264_show_wf [OF assms(1) sh] by simp
  next
    case False
    then have "st' = st"
      using assms(2) hd p
      by (auto simp: h264_decodeRect_def decoder_of_def h264_rect_def rd_bind_def split: sum.splits option.splits)
    then show ?thesis
      using assms(1) by auto
  qed
qed

theorem h264_contexts_witness:
  "h264_wf (fst (snd (h264_decodeRect \<lparr>vd_accepts = \<lambda>_ _ _. True, vd_decodes = \<lambda>_ _. True, clock = int\<rparr> 0 0 4 4 new_h264
     (over [0, 0, 0, 4, 0, 0, 0, 0, 0, 0, 1, 0x65]) (new_display 4 4))))"
proof -
  have "h264_wf new_h264"
    by (simp add: h264_wf_def new_h264_def contexts_ok_def)
  then show ?thesis
    by (cases "h264_decodeRect \<lparr>vd_accepts = \<lambda>_ _ _. True, vd_decodes = \<lambda>_ _. True, clock = int\<rparr> 0 0 4 4 new_h264
        (over [0, 0, 0, 4, 0, 0, 0, 0, 0, 0, 1, 0x65]) (new_display 4 4)") (simp add: h264_contexts)
qed

text \<open>A frame that comes out of a decoder keeps this, too.\<close>

lemma h264_output_wf:
  assumes "h264_wf st" "h264_output k ts w h st d = (e, st', d')"
  shows "h264_wf st'"
proof (cases "map_of (h_contexts st) k")
  case None
  then show ?thesis
    using assms by (simp add: h264_output_def)
next
  case (Some c)
  obtain r c' where c': "handleFrame ts c = (r, c')"
    by (cases "handleFrame ts c")
  have ok: "context_ok (h_tick st) (h_next st) (k, c)"
    using map_of_context [of "h_tick st" "h_next st" "h_contexts st" k c] assms(1) Some by (simp add: h264_wf_def)
  have "c_lastUsed c' = c_lastUsed c \<and> context_ok (h_tick st) (h_next st) (k, c')"
    using c' ok by (auto simp: handleFrame_def context_ok_def sorted_wrt_append split: list.splits if_splits prod.splits)
  moreover have "st' = (put_context k c' st)\<lparr>h_self := h_self st, h_next := h_next st\<rparr>"
    using assms(2) Some c' by (auto simp: h264_output_def put_context_def split: sum.splits prod.splits)
  ultimately show ?thesis
    using put_context_wf(1) [OF assms(1) Some] by simp
qed

text \<open>C22. When 64 positions are in use, a rectangle at a new one takes the place of the position that
was not used for the longest time, and all others stay.\<close>

theorem oldest_position_goes:
  assumes "h264_wf st" "length (h_contexts st) = maxContexts" "k \<notin> fst ` set (h_contexts st)" "flags AND 3 = 0"
  shows "\<exists>k' c'. (k', c') \<in> set (h_contexts st) \<and> (\<forall>p\<in>set (h_contexts st). c_lastUsed c' \<le> c_lastUsed (snd p))
     \<and> fst ` set (h_contexts (snd (h264_use flags k st))) = insert k (fst ` set (h_contexts st) - {k'})"
proof -
  have "flags AND n = (flags AND 3) AND n" if "3 AND n = n" for n
    using that by (simp add: and.assoc)
  from this [of 2] this [of 1] have f: "flags AND 2 = 0" "flags AND 1 = 0"
    using assms(4) by simp_all
  have "h_contexts st \<noteq> []"
    using assms(2) by (auto simp: maxContexts_def)
  then obtain k' c' where o: "findOldestContextId (h_contexts st) = Some k'" "(k', c') \<in> set (h_contexts st)"
    "\<forall>p\<in>set (h_contexts st). c_lastUsed c' \<le> c_lastUsed (snd p)"
    using oldest_is_least_recent by blast
  have "map_of (h_contexts st) k = None"
    using assms(3) by (simp add: map_of_eq_None_iff)
  then have "fst ` set (h_contexts (snd (h264_use flags k st))) = insert k (fst ` set (AList.delete k' (h_contexts st)))"
    using f o(1) assms(2)
    by (simp add: h264_use_def Let_def getContext_def createContext_def put_context_def AList.dom_update split: prod.split)
  moreover have "fst ` set (AList.delete k' (h_contexts st)) = fst ` set (h_contexts st) - {k'}"
    by (force simp: AList.delete_eq)
  ultimately show ?thesis
    using o(2,3) by metis
qed


theorem oldest_position_goes_witness:
  "fst ` set (h_contexts (snd (h264_use 0 (7, 7, 4, 4)
     \<lparr>h_tick = 64, h_contexts = map (\<lambda>i. ((int i, 0, 4, 4), (new_context 4 4)\<lparr>c_lastUsed := i\<rparr>)) [0..<64],
      h_self = (None, None, None), h_next = 0\<rparr>)))
   = insert (7, 7, 4, 4) ((\<lambda>i. (int i, 0, 4, 4)) ` {1..<64})"
proof -
  let ?cs = "map (\<lambda>i. ((int i, 0, 4, 4), (new_context 4 4)\<lparr>c_lastUsed := i\<rparr>)) [0..<64] :: (contextId \<times> h264_context) list"
  let ?st = "\<lparr>h_tick = 64, h_contexts = ?cs, h_self = (None, None, None), h_next = 0\<rparr>"
  have "h264_wf ?st"
    by (auto simp: h264_wf_def contexts_ok_def maxContexts_def distinct_map inj_on_def context_ok_def list_all_iff
        new_context_def simp del: upt_Suc)
  moreover have "length ?cs = maxContexts" "(7, 7, 4, 4) \<notin> fst ` set ?cs"
    by (auto simp: maxContexts_def simp del: upt_Suc)
  ultimately obtain k' c' where k: "(k', c') \<in> set ?cs" "\<forall>p\<in>set ?cs. c_lastUsed c' \<le> c_lastUsed (snd p)"
    "fst ` set (h_contexts (snd (h264_use 0 (7, 7, 4, 4) ?st))) = insert (7, 7, 4, 4) (fst ` set ?cs - {k'})"
    using oldest_position_goes [of ?st "(7, 7, 4, 4)" 0] by (auto simp del: upt_Suc set_map set_upt)
  have "(( 0, 0, 4, 4), (new_context 4 4)\<lparr>c_lastUsed := 0\<rparr>) \<in> set ?cs"
    by (auto simp del: upt_Suc intro!: image_eqI [of _ _ 0])
  then have "k' = (0, 0, 4, 4)"
    using k(1,2) by (fastforce simp del: upt_Suc)
  moreover have "fst ` set ?cs = (\<lambda>i. (int i, 0, 4, 4)) ` {0..<64}"
    by (auto simp del: upt_Suc simp: image_iff)
  moreover have "(\<lambda>i. (int i, 0::int, 4, 4)) ` {0..<64} - {(0, 0, 4, 4)} = (\<lambda>i. (int i, 0, 4::nat, 4::nat)) ` {1..<64}"
    by (auto simp: image_iff)
  ultimately show ?thesis
    using k(3) by simp
qed


section \<open>The profile of another\<close>

text \<open>
  The profile is kept in the window and is undefined at first, which is not \<open>null\<close>: a key frame
  that comes before any parameters is not passed over with a warning, it raises.  Later the profile
  is that of whichever position had parameters last.
\<close>

lemma key_frame_before_parameters:
  "fst (h264_decode bv ts [0, 0, 1, 0x65] \<lparr>d_context = new_context w h, d_self = (None, None, None), d_next = n\<rparr>) = Inl NullError"
  by (simp add: h264_decode_def decode_loop.simps parse_from.simps getStartSequenceLen_def elem_at_def parseNalUnit_def
      indexOfNextNalUnit_def prepareFrame_def configureDecoder_def new_context_def)

lemma profile_of_another_position:
  assumes "h_self st = (Some a, Some b, Some l)" "vd_accepts bv (codec_digits a b l) w h"
    "h264_use flags (x, y, w, h) st = (c, st1)" "c = (new_context w h)\<lparr>c_lastUsed := t\<rparr>" "h_self st1 = h_self st"
  shows "\<exists>c'. prepareFrame bv None True \<lparr>d_context = c, d_self = h_self st1, d_next = h_next st1\<rparr>
       = (Inr True, \<lparr>d_context = c', d_self = h_self st1, d_next = h_next st1\<rparr>)
     \<and> map_option vd_configs (c_decoder c') = Some [(codec_digits a b l, w, h)]"
  using assms by (simp add: prepareFrame_def configureDecoder_def new_context_def)

end
