(* ===== verification/Gesture.thy ===== *)
theory Gesture
  imports Input
begin

text \<open>
  Model of \<open>core/input/gesturehandler.js\<close>: touches are followed until they can only be one of
  seven gestures, and the events of that gesture are dispatched on the target, where \<open>rfb.js\<close>
  listens for them (\<open>Input.handleGesture\<close>).

  \<open>Date.now()\<close> is an argument of the calls.  The events that were dispatched are kept in a list.
  As in \<open>Rfb\<close>, the handle of a timer is \<open>None\<close> when it is \<open>null\<close>, and otherwise tells whether the
  timer is still armed: a handle stays when its timer has fired.  Coordinates are rational;
  distances are compared by their squares, and lengths and angles are real.
\<close>

section \<open>The object\<close>

abbreviation GH_NOGESTURE :: int where "GH_NOGESTURE \<equiv> 0"
abbreviation GH_ONETAP :: int where "GH_ONETAP \<equiv> 1"
abbreviation GH_TWOTAP :: int where "GH_TWOTAP \<equiv> 2"
abbreviation GH_THREETAP :: int where "GH_THREETAP \<equiv> 4"
abbreviation GH_DRAG :: int where "GH_DRAG \<equiv> 8"
abbreviation GH_LONGPRESS :: int where "GH_LONGPRESS \<equiv> 16"
abbreviation GH_TWODRAG :: int where "GH_TWODRAG \<equiv> 32"
abbreviation GH_PINCH :: int where "GH_PINCH \<equiv> 64"
abbreviation GH_INITSTATE :: int where "GH_INITSTATE \<equiv> 127"
abbreviation GH_MOVE_THRESHOLD :: rat where "GH_MOVE_THRESHOLD \<equiv> 50"
abbreviation GH_ANGLE_THRESHOLD :: real where "GH_ANGLE_THRESHOLD \<equiv> 90"
abbreviation GH_MULTITOUCH_TIMEOUT :: int where "GH_MULTITOUCH_TIMEOUT \<equiv> 250"
abbreviation GH_TAP_TIMEOUT :: int where "GH_TAP_TIMEOUT \<equiv> 1000"

record touch =
  t_id :: int
  started :: int
  active :: bool
  firstX :: rat
  firstY :: rat
  lastX :: rat
  lastY :: rat
  angle :: real

record gestures =
  gh_target :: bool
  gh_state :: int
  tracked :: "touch list"
  ignored :: "int list"
  waitingRelease :: bool
  releaseStart :: int
  longpressTimeoutId :: "bool option"
  twoTouchTimeoutId :: "bool option"
  dispatched :: "gesture_ev list"

definition new_gestures :: gestures where
  "new_gestures = \<lparr>gh_target = False, gh_state = GH_INITSTATE, tracked = [], ignored = [], waitingRelease = False,
     releaseStart = 0, longpressTimeoutId = None, twoTouchTimeoutId = None, dispatched = []\<rparr>"

section \<open>Timers\<close>

definition stopLongpressTimeout :: "gestures \<Rightarrow> gestures" where
  "stopLongpressTimeout g = g\<lparr>longpressTimeoutId := None\<rparr>"

definition startLongpressTimeout :: "gestures \<Rightarrow> gestures" where
  "startLongpressTimeout g = (stopLongpressTimeout g)\<lparr>longpressTimeoutId := Some True\<rparr>"

definition stopTwoTouchTimeout :: "gestures \<Rightarrow> gestures" where
  "stopTwoTouchTimeout g = g\<lparr>twoTouchTimeoutId := None\<rparr>"

definition startTwoTouchTimeout :: "gestures \<Rightarrow> gestures" where
  "startTwoTouchTimeout g = (stopTwoTouchTimeout g)\<lparr>twoTouchTimeoutId := Some True\<rparr>"

definition isTwoTouchTimeoutRunning :: "gestures \<Rightarrow> bool" where
  "isTwoTouchTimeoutRunning g = (twoTouchTimeoutId g \<noteq> None)"

definition gh_detach :: "gestures \<Rightarrow> gestures" where
  "gh_detach g = (if \<not> gh_target g then g else (stopTwoTouchTimeout (stopLongpressTimeout g))\<lparr>gh_target := False\<rparr>)"

definition gh_attach :: "gestures \<Rightarrow> gestures" where
  "gh_attach g = (gh_detach g)\<lparr>gh_target := True\<rparr>"

section \<open>What the touches have become\<close>

definition without :: "int \<Rightarrow> gestures \<Rightarrow> gestures" where
  "without m g = g\<lparr>gh_state := gh_state g AND NOT m\<rparr>"

definition hasDetectedGesture :: "gestures \<Rightarrow> bool" where
  "hasDetectedGesture g =
     (if gh_state g = GH_NOGESTURE then False
      else if gh_state g AND (gh_state g - 1) \<noteq> 0 then False
      else if gh_state g AND (GH_ONETAP OR GH_TWOTAP OR GH_THREETAP) \<noteq> 0 \<and> list_ex active (tracked g) then False
      else True)"

definition stateToGesture :: "int \<Rightarrow> string option" where
  "stateToGesture state =
     (if state = GH_ONETAP then Some ''onetap''
      else if state = GH_TWOTAP then Some ''twotap''
      else if state = GH_THREETAP then Some ''threetap''
      else if state = GH_DRAG then Some ''drag''
      else if state = GH_LONGPRESS then Some ''longpress''
      else if state = GH_TWODRAG then Some ''twodrag''
      else if state = GH_PINCH then Some ''pinch''
      else None)"

definition average :: "rat list \<Rightarrow> rat" where
  "average xs = sum_list xs / of_nat (length xs)"

definition getPosition :: "touch list \<Rightarrow> ((rat \<times> rat) \<times> rat \<times> rat) option" where
  "getPosition ts = (if ts = [] then None else
     Some ((average (map firstX ts), average (map firstY ts)), (average (map lastX ts), average (map lastY ts))))"

definition getAverageMovement :: "touch list \<Rightarrow> (rat \<times> rat) option" where
  "getAverageMovement ts = (if ts = [] then None else
     Some (average (map (\<lambda>t. lastX t - firstX t) ts), average (map (\<lambda>t. lastY t - firstY t) ts)))"

definition getAverageDistance :: "touch list \<Rightarrow> ((rat \<times> rat) \<times> rat \<times> rat) option" where
  "getAverageDistance ts = (if ts = [] then None else
     let a = hd ts; b = last ts
     in Some ((\<bar>firstX b - firstX a\<bar>, \<bar>firstY b - firstY a\<bar>), (\<bar>lastX b - lastX a\<bar>, \<bar>lastY b - lastY a\<bar>)))"

text \<open>
  \<open>_pushEvent\<close>; the magnitudes of the other gestures are not set and not read, here they are 0.
\<close>

definition magnitudes :: "string \<Rightarrow> int \<Rightarrow> touch list \<Rightarrow> (rat \<times> rat) option" where
  "magnitudes ty state ts =
     (if state = GH_PINCH then
        map_option (\<lambda>(f, l). if ty = ''gesturestart'' then f else l) (getAverageDistance ts)
      else if state = GH_TWODRAG then
        (if ty = ''gesturestart'' then Some (0, 0) else getAverageMovement ts)
      else Some (0, 0))"

definition pushEvent :: "string \<Rightarrow> gestures \<Rightarrow> (unit, gestures) res" where
  "pushEvent ty g =
     (case stateToGesture (gh_state g) of
        None \<Rightarrow> raise (JsError ''Unknown gesture state'') g
      | Some gesture \<Rightarrow>
          case getPosition (tracked g) of
            None \<Rightarrow> raise (JsError ''Failed to get gesture position, no tracked touches'') g
          | Some (f, l) \<Rightarrow>
              let pos = (if ty = ''gesturestart'' then f else l);
                  pos = (if gh_state g = GH_TWODRAG \<or> gh_state g = GH_PINCH then f else pos)
              in case magnitudes ty (gh_state g) (tracked g) of
                   None \<Rightarrow> raise (JsError ''Failed to get gesture distance, no tracked touches'') g
                 | Some (mx, my) \<Rightarrow>
                     if \<not> gh_target g then raise NullError g
                     else ret () (g\<lparr>dispatched := dispatched g @
                       [\<lparr>ge_type = ty, ge_gesture = gesture, ge_clientX = fst pos, ge_clientY = snd pos,
                         ge_magnitudeX = of_rat mx, ge_magnitudeY = of_rat my\<rparr>]\<rparr>))"

section \<open>Touches\<close>

definition gh_ignore :: "int \<Rightarrow> gestures \<Rightarrow> gestures" where
  "gh_ignore i g = g\<lparr>ignored := ignored g @ [i]\<rparr>"

definition touchStart :: "int \<Rightarrow> int \<Rightarrow> rat \<Rightarrow> rat \<Rightarrow> gestures \<Rightarrow> (unit, gestures) res" where
  "touchStart time i x y g =
     (if hasDetectedGesture g \<or> gh_state g = GH_NOGESTURE then ret () (gh_ignore i g)
      else if tracked g \<noteq> [] \<and> time - started (hd (tracked g)) > GH_MULTITOUCH_TIMEOUT
      then ret () (gh_ignore i (g\<lparr>gh_state := GH_NOGESTURE\<rparr>))
      else if waitingRelease g then ret () (gh_ignore i (g\<lparr>gh_state := GH_NOGESTURE\<rparr>))
      else
        let g = g\<lparr>tracked := tracked g @ [\<lparr>t_id = i, started = time, active = True,
                   firstX = x, firstY = y, lastX = x, lastY = y, angle = 0\<rparr>]\<rparr>;
            n = length (tracked g)
        in ret () (if n = 1 then startLongpressTimeout g
                   else if n = 2 then stopLongpressTimeout (without (GH_ONETAP OR GH_DRAG OR GH_LONGPRESS) g)
                   else if n = 3 then without (GH_TWOTAP OR GH_TWODRAG OR GH_PINCH) g
                   else g\<lparr>gh_state := GH_NOGESTURE\<rparr>))"

text \<open>An update of the object that \<open>find\<close> returns.\<close>

fun upd_touch :: "int \<Rightarrow> (touch \<Rightarrow> touch) \<Rightarrow> touch list \<Rightarrow> touch list" where
  "upd_touch i f [] = []"
| "upd_touch i f (t # ts) = (if t_id t = i then f t # ts else t # upd_touch i f ts)"

definition direction :: "rat \<Rightarrow> rat \<Rightarrow> real" where
  "direction deltaX deltaY = Arg (Complex (of_rat deltaX) (of_rat deltaY)) * 180 / pi"

definition moved :: "rat \<Rightarrow> rat \<Rightarrow> touch \<Rightarrow> touch" where
  "moved x y t =
     (let t = t\<lparr>lastX := x, lastY := y\<rparr>
      in if firstX t \<noteq> lastX t \<or> firstY t \<noteq> lastY t
         then t\<lparr>angle := direction (x - firstX t) (y - firstY t)\<rparr> else t)"

text \<open>\<open>%\<close> of a number that is not negative.\<close>

definition js_fmod :: "real \<Rightarrow> real \<Rightarrow> real" where
  "js_fmod x m = x - m * of_int \<lfloor>x / m\<rfloor>"

definition angle_between :: "real \<Rightarrow> real \<Rightarrow> real" where
  "angle_between a b = \<bar>js_fmod (\<bar>a - b\<bar> + 180) 360 - 180\<bar>"

text \<open>\<open>Math.hypot(dx, dy) > limit\<close>; \<open>nearer\<close> is the other one.\<close>

definition farther :: "rat \<Rightarrow> rat \<Rightarrow> rat \<Rightarrow> bool" where
  "farther dx dy limit = (dx * dx + dy * dy > limit * limit)"

text \<open>Two touches, of which the one that moves has moved far.\<close>

definition two_touches :: "int \<Rightarrow> touch \<Rightarrow> gestures \<Rightarrow> (unit, gestures) res" where
  "two_touches i touch g =
     (case List.find (\<lambda>t. t_id t \<noteq> i) (tracked g) of
        None \<Rightarrow> raise NullError g
      | Some prevTouch \<Rightarrow>
          if farther (firstX prevTouch - lastX prevTouch) (firstY prevTouch - lastY prevTouch) GH_MOVE_THRESHOLD
          then
            let g = (if angle_between (angle touch) (angle prevTouch) > GH_ANGLE_THRESHOLD then without GH_TWODRAG g else without GH_PINCH g)
            in ret () (if isTwoTouchTimeoutRunning g then stopTwoTouchTimeout g else g)
          else if \<not> isTwoTouchTimeoutRunning g then ret () (startTwoTouchTimeout g)
          else ret () g)"

text \<open>A touch that moves far is no tap and no long press.\<close>

definition far_move :: "gestures \<Rightarrow> gestures" where
  "far_move g =
     (let g = stopLongpressTimeout (without (GH_ONETAP OR GH_TWOTAP OR GH_THREETAP OR GH_LONGPRESS) g);
          g = (if length (tracked g) \<noteq> 1 then without GH_DRAG g else g)
      in if length (tracked g) \<noteq> 2 then without (GH_TWODRAG OR GH_PINCH) g else g)"

definition touchMove :: "int \<Rightarrow> rat \<Rightarrow> rat \<Rightarrow> gestures \<Rightarrow> (unit, gestures) res" where
  "touchMove i x y g =
     (case List.find (\<lambda>t. t_id t = i) (tracked g) of
        None \<Rightarrow> ret () g
      | Some touch \<Rightarrow>
          let touch = moved x y touch; g = g\<lparr>tracked := upd_touch i (moved x y) (tracked g)\<rparr>
          in if hasDetectedGesture g then pushEvent ''gesturemove'' g
             else if nearer (x - firstX touch) (y - firstY touch) GH_MOVE_THRESHOLD then ret () g
             else
               let g = far_move g
               in seqr (if length (tracked g) = 2 then two_touches i touch g else ret () g) (\<lambda>_ g.
                    if \<not> hasDetectedGesture g then ret () g
                    else seqr (pushEvent ''gesturestart'' g) (\<lambda>_. pushEvent ''gesturemove'')))"

definition gh_reset :: "gestures \<Rightarrow> gestures" where
  "gh_reset g = g\<lparr>gh_state := GH_INITSTATE, waitingRelease := False\<rparr>"

text \<open>The steps of \<open>_touchEnd\<close> for a touch that is not ignored.\<close>

definition end_before_timer :: "gestures \<Rightarrow> gestures" where
  "end_before_timer g =
     (if \<not> hasDetectedGesture g \<and> isTwoTouchTimeoutRunning g
      then (stopTwoTouchTimeout g)\<lparr>gh_state := GH_NOGESTURE\<rparr> else g)"

definition first_release :: "int \<Rightarrow> gestures \<Rightarrow> gestures" where
  "first_release time g =
     (if hasDetectedGesture g then g
      else
        let g = stopLongpressTimeout (without GH_LONGPRESS (without (GH_DRAG OR GH_TWODRAG OR GH_PINCH) g))
        in if waitingRelease g then g
           else
             let g = g\<lparr>releaseStart := time, waitingRelease := True\<rparr>
             in if length (tracked g) = 1 then without (GH_TWOTAP OR GH_THREETAP) g
                else if length (tracked g) = 2 then without (GH_ONETAP OR GH_THREETAP) g
                else g)"

text \<open>Whether \<open>_touchEnd\<close> goes on behind the wait for more releases.\<close>

definition wait_release :: "int \<Rightarrow> int \<Rightarrow> gestures \<Rightarrow> (bool, gestures) res" where
  "wait_release time i g =
     (if \<not> waitingRelease g then ret True g
      else
        let g = (if time - releaseStart g > GH_MULTITOUCH_TIMEOUT then g\<lparr>gh_state := GH_NOGESTURE\<rparr> else g);
            g = (if list_ex (\<lambda>t. time - started t > GH_TAP_TIMEOUT) (tracked g) then g\<lparr>gh_state := GH_NOGESTURE\<rparr> else g)
        in case List.find (\<lambda>t. t_id t = i) (tracked g) of
             None \<Rightarrow> raise NullError g
           | Some _ \<Rightarrow>
               let g = g\<lparr>tracked := upd_touch i (\<lambda>t. t\<lparr>active := False\<rparr>) (tracked g)\<rparr>
               in if hasDetectedGesture g then seqr (pushEvent ''gesturestart'' g) (\<lambda>_. ret True)
                  else ret (gh_state g = GH_NOGESTURE) g)"

definition forget_touches :: "int \<Rightarrow> gestures \<Rightarrow> gestures" where
  "forget_touches i g =
     (let g = g\<lparr>ignored := ignored g @ map t_id (filter active (tracked g)), tracked := [], gh_state := GH_NOGESTURE\<rparr>;
          g = g\<lparr>ignored := remove1 i (ignored g)\<rparr>
      in if ignored g = [] then gh_reset g else g)"

definition touchEnd :: "int \<Rightarrow> int \<Rightarrow> gestures \<Rightarrow> (unit, gestures) res" where
  "touchEnd time i g =
     (if i \<in> set (ignored g) then
        let g = g\<lparr>ignored := remove1 i (ignored g)\<rparr>
        in ret () (if ignored g = [] \<and> tracked g = [] then gh_reset g else g)
      else
        seqr (wait_release time i (first_release time (end_before_timer g))) (\<lambda>more g.
          if \<not> more then ret () g
          else
            seqr (if hasDetectedGesture g then pushEvent ''gestureend'' g else ret () g) (\<lambda>_ g.
              ret () (forget_touches i g))))"

section \<open>Timers that fire\<close>

definition longpressTimeout :: "gestures \<Rightarrow> (unit, gestures) res" where
  "longpressTimeout g =
     (if hasDetectedGesture g
      then raise (JsError ''A longpress gesture failed, conflict with a different gesture'') g
      else pushEvent ''gesturestart'' (g\<lparr>gh_state := GH_LONGPRESS\<rparr>))"


definition twoTouchTimeout :: "gestures \<Rightarrow> (unit, gestures) res" where
  "twoTouchTimeout g =
     (case (getAverageMovement (tracked g), getAverageDistance (tracked g)) of
        (Some (mx, my), Some ((fx, fy), (lx, ly))) \<Rightarrow>
          let deltaTouchDistance = \<bar>hypot (of_rat fx) (of_rat fy) - hypot (of_rat lx) (of_rat ly)\<bar>;
              g = g\<lparr>gh_state := (if of_rat \<bar>my\<bar> < deltaTouchDistance \<and> of_rat \<bar>mx\<bar> < deltaTouchDistance
                                 then GH_PINCH else GH_TWODRAG)\<rparr>
          in seqr (pushEvent ''gesturestart'' g) (\<lambda>_. pushEvent ''gesturemove'')
      | _ \<Rightarrow> raise (JsError ''A pinch or two drag gesture failed, no tracked touches'') g)"

section \<open>Events\<close>

datatype touch_type = TouchStart | TouchMove | TouchEnd

definition touch_event :: "touch_type \<Rightarrow> int \<Rightarrow> int \<times> rat \<times> rat \<Rightarrow> gestures \<Rightarrow> (unit, gestures) res" where
  "touch_event ty time c g =
     (case c of (i, x, y) \<Rightarrow>
        (case ty of TouchStart \<Rightarrow> touchStart time i x y g | TouchMove \<Rightarrow> touchMove i x y g | TouchEnd \<Rightarrow> touchEnd time i g))"

fun eventHandler :: "touch_type \<Rightarrow> int \<Rightarrow> (int \<times> rat \<times> rat) list \<Rightarrow> gestures \<Rightarrow> (unit, gestures) res" where
  "eventHandler ty time [] g = ret () g"
| "eventHandler ty time (c # cs) g = seqr (touch_event ty time c g) (\<lambda>_. eventHandler ty time cs)"

text \<open>What the browser does to the object: an event of the listeners, or a timer that is armed.\<close>

datatype gh_input =
    Touches touch_type int "(int \<times> rat \<times> rat) list"
  | LongpressFires
  | TwoTouchFires

fun gh_step :: "gh_input \<Rightarrow> gestures \<Rightarrow> (unit, gestures) res" where
  "gh_step (Touches ty time cs) g = eventHandler ty time cs g"
| "gh_step LongpressFires g = longpressTimeout (g\<lparr>longpressTimeoutId := Some False\<rparr>)"
| "gh_step TwoTouchFires g = twoTouchTimeout (g\<lparr>twoTouchTimeoutId := Some False\<rparr>)"

fun gh_run :: "gh_input list \<Rightarrow> gestures \<Rightarrow> (unit, gestures) res" where
  "gh_run [] g = ret () g"
| "gh_run (e # es) g = seqr (gh_step e g) (\<lambda>_. gh_run es)"

end
