(* ===== verification/GestureProps.thy ===== *)
theory GestureProps
  imports Gesture
begin

text \<open>
  Properties of the gesture handler: the events that it dispatches are whole gestures, it neither
  throws nor gets stuck whatever the fingers do, taps of one to three fingers are recognised, and
  the direction of two fingers tells a pinch from a drag.
\<close>

section \<open>Whole gestures\<close>

text \<open>The gesture under way behind a list of events; \<open>None\<close> if the list is not a sequence of whole
  gestures, each with a start, moves and an end of the same name.\<close>

fun protocol :: "string option \<Rightarrow> gesture_ev list \<Rightarrow> string option option" where
  "protocol g [] = Some g"
| "protocol g (e # es) =
     (if ge_type e = ''gesturestart'' \<and> g = None then protocol (Some (ge_gesture e)) es
      else if ge_type e = ''gesturemove'' \<and> g = Some (ge_gesture e) then protocol g es
      else if ge_type e = ''gestureend'' \<and> g = Some (ge_gesture e) then protocol None es
      else None)"

lemma protocol_append: "protocol g es = Some g' \<Longrightarrow> protocol g (es @ es') = protocol g' es'"
  by (induction es arbitrary: g) (auto split: if_splits)

definition active_ids :: "touch list \<Rightarrow> int list" where
  "active_ids ts = map t_id (filter active ts)"

text \<open>The states with \<open>n\<close> touches, before and behind the first release.\<close>

definition phase :: "nat \<Rightarrow> bool \<Rightarrow> int \<Rightarrow> bool" where
  "phase n w state =
     (if n = 0 then state = 0 \<or> state = 127
      else if n = 1 then \<not> w \<and> (state = 127 \<or> state = 0 \<or> state = 8 \<or> state = 16)
      else if n = 2 then (if w then state = 2 \<or> state = 0 else state = 102 \<or> state = 96 \<or> state = 0 \<or> state = 32 \<or> state = 64)
      else if n = 3 then (if w then state = 4 \<or> state = 0 else state = 4 \<or> state = 0 \<or> state = 32 \<or> state = 64)
      else state = 0)"

definition under_way :: "int \<Rightarrow> string option" where
  "under_way state = (if state = 8 \<or> state = 16 \<or> state = 32 \<or> state = 64 then stateToGesture state else None)"

text \<open>What holds between two calls, when the fingers \<open>down\<close> are on the target.\<close>

definition gh_ok :: "int list \<Rightarrow> gestures \<Rightarrow> bool" where
  "gh_ok down g \<longleftrightarrow>
     gh_target g \<and> distinct (map t_id (tracked g)) \<and> distinct (ignored g)
     \<and> set (active_ids (tracked g)) \<inter> set (ignored g) = {}
     \<and> set down = set (active_ids (tracked g)) \<union> set (ignored g)
     \<and> phase (length (tracked g)) (waitingRelease g) (gh_state g)
     \<and> (waitingRelease g \<or> list_all active (tracked g))
     \<and> (\<not> waitingRelease g \<or> tracked g = [] \<or> list_ex active (tracked g))
     \<and> (tracked g \<noteq> [] \<or> (if ignored g = [] then gh_state g = 127 \<and> \<not> waitingRelease g else gh_state g = 0))
     \<and> (longpressTimeoutId g \<noteq> Some True \<or> length (tracked g) = 1 \<and> (gh_state g = 127 \<or> gh_state g = 0))
     \<and> (twoTouchTimeoutId g \<noteq> Some True \<or> (length (tracked g) = 2 \<or> length (tracked g) = 3) \<and> (gh_state g = 96 \<or> gh_state g = 0))
     \<and> protocol None (dispatched g) = Some (under_way (gh_state g))"

lemma gh_okI:
  assumes "gh_target g" "distinct (map t_id (tracked g))" "distinct (ignored g)"
    "set (active_ids (tracked g)) \<inter> set (ignored g) = {}"
    "set down = set (active_ids (tracked g)) \<union> set (ignored g)"
    "phase (length (tracked g)) (waitingRelease g) (gh_state g)"
    "\<not> waitingRelease g \<Longrightarrow> list_all active (tracked g)"
    "waitingRelease g \<Longrightarrow> tracked g \<noteq> [] \<Longrightarrow> list_ex active (tracked g)"
    "tracked g = [] \<Longrightarrow> if ignored g = [] then gh_state g = 127 \<and> \<not> waitingRelease g else gh_state g = 0"
    "longpressTimeoutId g = Some True \<Longrightarrow> length (tracked g) = 1 \<and> (gh_state g = 127 \<or> gh_state g = 0)"
    "twoTouchTimeoutId g = Some True \<Longrightarrow> (length (tracked g) = 2 \<or> length (tracked g) = 3) \<and> (gh_state g = 96 \<or> gh_state g = 0)"
    "protocol None (dispatched g) = Some (under_way (gh_state g))"
  shows "gh_ok down g"
  using assms unfolding gh_ok_def by blast

lemma gh_okD:
  assumes "gh_ok down g"
  shows "gh_target g" "distinct (map t_id (tracked g))" "distinct (ignored g)"
    "set (active_ids (tracked g)) \<inter> set (ignored g) = {}"
    "set down = set (active_ids (tracked g)) \<union> set (ignored g)"
    "phase (length (tracked g)) (waitingRelease g) (gh_state g)"
    "\<not> waitingRelease g \<Longrightarrow> list_all active (tracked g)"
    "waitingRelease g \<Longrightarrow> tracked g \<noteq> [] \<Longrightarrow> list_ex active (tracked g)"
    "tracked g = [] \<Longrightarrow> if ignored g = [] then gh_state g = 127 \<and> \<not> waitingRelease g else gh_state g = 0"
    "longpressTimeoutId g = Some True \<Longrightarrow> length (tracked g) = 1 \<and> (gh_state g = 127 \<or> gh_state g = 0)"
    "twoTouchTimeoutId g = Some True \<Longrightarrow> (length (tracked g) = 2 \<or> length (tracked g) = 3) \<and> (gh_state g = 96 \<or> gh_state g = 0)"
    "protocol None (dispatched g) = Some (under_way (gh_state g))"
  using assms unfolding gh_ok_def by blast+

lemma phase_states:
  "phase n w s \<Longrightarrow> s \<in> {0, 2, 4, 8, 16, 32, 64, 96, 102, 127}"
  by (auto simp: phase_def split: if_splits)

lemma phase_waiting: "phase n w s \<Longrightarrow> under_way s \<noteq> None \<Longrightarrow> 0 < n \<and> \<not> w"
  by (auto simp: phase_def under_way_def split: if_splits)

lemma phase_0: "phase n w s \<Longrightarrow> phase n w 0"
  by (auto simp: phase_def split: if_splits)

lemma under_way_states [simp]: "under_way 0 = None" "under_way 127 = None" "under_way 102 = None" "under_way 4 = None"
    "under_way 2 = None" "under_way 96 = None"
  by (simp_all add: under_way_def)

text \<open>While a finger that is followed is down, a gesture that was detected is one under way.\<close>

lemma detected_active:
  assumes "phase (length (tracked g)) w (gh_state g)" "list_ex active (tracked g) \<or> tracked g = []"
  shows "hasDetectedGesture g \<longleftrightarrow> under_way (gh_state g) \<noteq> None"
proof (cases "tracked g = []")
  case True
  then have "gh_state g = 0 \<or> gh_state g = 127"
    using assms(1) by (simp add: phase_def)
  then show ?thesis
    by (auto simp: hasDetectedGesture_def)
next
  case False
  then have "list_ex active (tracked g)"
    using assms(2) by simp
  then show ?thesis
    using phase_states [OF assms(1)] by (auto simp: hasDetectedGesture_def under_way_def stateToGesture_def)
qed

lemma gh_ok_active: "gh_ok down g \<Longrightarrow> list_ex active (tracked g) \<or> tracked g = []"
  by (cases "tracked g") (auto simp: gh_ok_def)

lemma gh_ok_detected: "gh_ok down g \<Longrightarrow> hasDetectedGesture g \<longleftrightarrow> under_way (gh_state g) \<noteq> None"
  using detected_active [of g "waitingRelease g"] gh_ok_active [of down g] gh_okD(6) [of down g] by blast

lemma pushEvent_ret:
  assumes "stateToGesture (gh_state g) = Some nm" "tracked g \<noteq> []" "gh_target g"
  shows "\<exists>e. pushEvent ty g = ret () (g\<lparr>dispatched := dispatched g @ [e]\<rparr>) \<and> ge_type e = ty \<and> ge_gesture e = nm"
  using assms
  by (auto simp: pushEvent_def getPosition_def magnitudes_def getAverageDistance_def getAverageMovement_def Let_def
      split: prod.split)

lemma under_way_gesture: "under_way s = Some nm \<Longrightarrow> stateToGesture s = Some nm"
  by (simp add: under_way_def split: if_splits)

text \<open>An event that continues a sequence of whole gestures.\<close>

lemma push_move:
  assumes "under_way (gh_state g) = Some nm" "tracked g \<noteq> []" "gh_target g" "protocol None (dispatched g) = Some (Some nm)"
  shows "\<exists>es. pushEvent ''gesturemove'' g = ret () (g\<lparr>dispatched := es\<rparr>) \<and> protocol None es = Some (Some nm)"
  using pushEvent_ret [OF under_way_gesture [OF assms(1)] assms(2,3)] protocol_append [OF assms(4)] by fastforce

lemma push_start:
  assumes "stateToGesture (gh_state g) = Some nm" "tracked g \<noteq> []" "gh_target g" "protocol None (dispatched g) = Some None"
  shows "\<exists>es. pushEvent ''gesturestart'' g = ret () (g\<lparr>dispatched := es\<rparr>) \<and> protocol None es = Some (Some nm)"
  using pushEvent_ret [OF assms(1-3)] protocol_append [OF assms(4)] by fastforce

lemma push_end:
  assumes "stateToGesture (gh_state g) = Some nm" "tracked g \<noteq> []" "gh_target g" "protocol None (dispatched g) = Some (Some nm)"
  shows "\<exists>es. pushEvent ''gestureend'' g = ret () (g\<lparr>dispatched := es\<rparr>) \<and> protocol None es = Some None"
  using pushEvent_ret [OF assms(1-3)] protocol_append [OF assms(4)] by fastforce

subsection \<open>A finger comes down\<close>

lemma ignore_ok:
  assumes ok: "gh_ok down g" and i: "i \<notin> set down" and g: "under_way (gh_state g) = None" "tracked g \<noteq> []"
  shows "gh_ok (i # down) (gh_ignore i (g\<lparr>gh_state := 0\<rparr>))"
  using gh_okD [OF ok] i g phase_0 [OF gh_okD(6) [OF ok]]
  by (intro gh_okI) (simp_all add: gh_ignore_def)

lemma ignore_more:
  assumes ok: "gh_ok down g" and i: "i \<notin> set down" and g: "under_way (gh_state g) \<noteq> None \<or> gh_state g = 0"
  shows "gh_ok (i # down) (gh_ignore i g)"
proof -
  have "tracked g = [] \<Longrightarrow> gh_state g = 0"
    using gh_okD(9) [OF ok] g by (auto split: if_splits)
  then show ?thesis
    using gh_okD [OF ok] i by (intro gh_okI) (simp_all add: gh_ignore_def)
qed

lemma active_ids_all: "list_all active ts \<Longrightarrow> active_ids ts = map t_id ts"
  by (simp add: active_ids_def list_all_iff)

lemma start_ok:
  assumes ok: "gh_ok down g" and i: "i \<notin> set down"
  shows "\<exists>g'. touchStart time i x y g = ret () g' \<and> gh_ok (i # down) g'"
proof -
  have det: "hasDetectedGesture g \<longleftrightarrow> under_way (gh_state g) \<noteq> None"
    using gh_ok_detected [OF ok] .
  show ?thesis
  proof (cases "hasDetectedGesture g \<or> gh_state g = 0")
    case True
    then show ?thesis
      using ignore_more [OF ok i] det by (auto simp: touchStart_def)
  next
    case False
    then have uw: "under_way (gh_state g) = None" "gh_state g \<noteq> 0"
      using det by auto
    show ?thesis
    proof (cases "(tracked g \<noteq> [] \<and> time - started (hd (tracked g)) > GH_MULTITOUCH_TIMEOUT) \<or> waitingRelease g")
      case True
      have "tracked g \<noteq> []"
        using True gh_okD(9) [OF ok] uw(2) by (auto split: if_splits)
      then show ?thesis
        using True False ignore_ok [OF ok i uw(1)] by (auto simp: touchStart_def)
    next
      case not_late: False
      then have act: "list_all active (tracked g)" "\<not> waitingRelease g"
        using gh_okD(7) [OF ok] by auto
      note ids = active_ids_all [OF act(1)]
      let ?t = "\<lparr>t_id = i, started = time, active = True, firstX = x, firstY = y, lastX = x, lastY = y, angle = 0\<rparr>"
      define g1 where "g1 = g\<lparr>tracked := tracked g @ [?t]\<rparr>"
      define g' where "g' = (if length (tracked g1) = 1 then startLongpressTimeout g1
                   else if length (tracked g1) = 2 then stopLongpressTimeout (without 25 g1)
                   else if length (tracked g1) = 3 then without 98 g1 else g1\<lparr>gh_state := 0\<rparr>)"
      have r: "touchStart time i x y g = ret () g'"
        using False not_late unfolding touchStart_def g'_def g1_def Let_def by (auto simp: not_less)
      have same: "gh_target g' = gh_target g" "tracked g' = tracked g @ [?t]" "ignored g' = ignored g"
        "waitingRelease g' = waitingRelease g" "dispatched g' = dispatched g" "twoTouchTimeoutId g' = twoTouchTimeoutId g"
        by (simp_all add: g'_def g1_def startLongpressTimeout_def stopLongpressTimeout_def without_def)
      have "active_ids (tracked g @ [?t]) = map t_id (tracked g) @ [i]"
        using ids by (simp add: active_ids_def)
      note facts = gh_okD [OF ok, unfolded ids] same act i this
      have ph: "phase (length (tracked g)) False (gh_state g)"
        using gh_okD(6) [OF ok] act(2) by simp
      have st: "phase (length (tracked g')) False (gh_state g') \<and> under_way (gh_state g') = None
        \<and> (longpressTimeoutId g' = Some True \<longrightarrow> length (tracked g') = 1 \<and> gh_state g' = 127)
        \<and> (twoTouchTimeoutId g = Some True \<longrightarrow> length (tracked g') = 3 \<and> gh_state g' = 0)"
      proof -
        consider "length (tracked g) = 0" "gh_state g = 127" | "length (tracked g) = 1" "gh_state g = 127"
          | "length (tracked g) = 2" "gh_state g = 102" | "length (tracked g) = 2" "gh_state g = 96"
          | "length (tracked g) = 3" "gh_state g = 4"
          using ph uw by (auto simp: phase_def under_way_def stateToGesture_def split: if_splits)
        then show ?thesis
        proof cases
          case 1
          then show ?thesis
            using gh_okD(11) [OF ok] by (auto simp: g'_def g1_def phase_def startLongpressTimeout_def stopLongpressTimeout_def)
        next
          case 2
          then show ?thesis
            using gh_okD(11) [OF ok] by (auto simp: g'_def g1_def phase_def stopLongpressTimeout_def without_def)
        next
          case 3
          then show ?thesis
            using gh_okD(10,11) [OF ok] by (auto simp: g'_def g1_def phase_def without_def)
        next
          case 4
          then show ?thesis
            using gh_okD(10,11) [OF ok] by (auto simp: g'_def g1_def phase_def without_def)
        next
          case 5
          then show ?thesis
            using gh_okD(10,11) [OF ok] by (auto simp: g'_def g1_def phase_def)
        qed
      qed
      have "gh_ok (i # down) g'"
        using facts st uw(1) by (intro gh_okI) auto
      then show ?thesis
        using r by blast
    qed
  qed
qed


subsection \<open>A gesture begins\<close>

lemma begun_ok:
  assumes ok: "gh_ok down (g\<lparr>gh_state := 0\<rparr>)" and g: "tracked g \<noteq> []" "phase (length (tracked g)) (waitingRelease g) (gh_state g)"
    "longpressTimeoutId g \<noteq> Some True" "twoTouchTimeoutId g \<noteq> Some True"
    and es: "protocol None es = Some (under_way (gh_state g))"
  shows "gh_ok down (g\<lparr>dispatched := es\<rparr>)"
  using gh_okD [OF ok] g es by (intro gh_okI) simp_all

lemma begin_ok:
  assumes ok: "gh_ok down (g\<lparr>gh_state := 0\<rparr>)" and g: "tracked g \<noteq> []" "phase (length (tracked g)) (waitingRelease g) (gh_state g)"
    "longpressTimeoutId g \<noteq> Some True" "twoTouchTimeoutId g \<noteq> Some True" and uw: "under_way (gh_state g) = Some nm"
  shows "\<exists>g'. pushEvent ''gesturestart'' g = ret () g' \<and> gh_ok down g'"
    "\<exists>g'. seqr (pushEvent ''gesturestart'' g) (\<lambda>_. pushEvent ''gesturemove'') = ret () g' \<and> gh_ok down g'"
proof -
  have t: "gh_target g" "protocol None (dispatched g) = Some None"
    using gh_okD(1,12) [OF ok] by simp_all
  obtain es where es: "pushEvent ''gesturestart'' g = ret () (g\<lparr>dispatched := es\<rparr>)" "protocol None es = Some (Some nm)"
    using push_start [OF under_way_gesture [OF uw] g(1) t] by blast
  then show "\<exists>g'. pushEvent ''gesturestart'' g = ret () g' \<and> gh_ok down g'"
    using begun_ok [OF ok g, of es] uw by simp
  have "under_way (gh_state (g\<lparr>dispatched := es\<rparr>)) = Some nm" "tracked (g\<lparr>dispatched := es\<rparr>) \<noteq> []"
    "gh_target (g\<lparr>dispatched := es\<rparr>)" "protocol None (dispatched (g\<lparr>dispatched := es\<rparr>)) = Some (Some nm)"
    using uw g(1) t(1) es(2) by simp_all
  from push_move [OF this] obtain es' where
    "pushEvent ''gesturemove'' (g\<lparr>dispatched := es\<rparr>) = ret () (g\<lparr>dispatched := es'\<rparr>)" "protocol None es' = Some (Some nm)"
    by auto
  then show "\<exists>g'. seqr (pushEvent ''gesturestart'' g) (\<lambda>_. pushEvent ''gesturemove'') = ret () g' \<and> gh_ok down g'"
    using begun_ok [OF ok g, of es'] uw es(1) by simp
qed

subsection \<open>A finger moves\<close>

lemma upd_touch_keeps:
  assumes "\<And>t. t_id (f t) = t_id t \<and> active (f t) = active t"
  shows "map t_id (upd_touch i f ts) = map t_id ts" "length (upd_touch i f ts) = length ts" "upd_touch i f ts = [] \<longleftrightarrow> ts = []"
    "active_ids (upd_touch i f ts) = active_ids ts" "list_all active (upd_touch i f ts) = list_all active ts"
    "list_ex active (upd_touch i f ts) = list_ex active ts"
  using assms by (induction ts) (auto simp: active_ids_def)

lemma moved_keeps: "t_id (moved x y t) = t_id t \<and> active (moved x y t) = active t"
  by (simp add: moved_def Let_def)

lemma retouch_ok:
  assumes ok: "gh_ok down g"
  shows "gh_ok down (g\<lparr>tracked := upd_touch i (moved x y) (tracked g)\<rparr>)"
  using gh_okD [OF ok] upd_touch_keeps [of "moved x y", OF moved_keeps]
  by (intro gh_okI) simp_all

lemma another_touch: "distinct (map t_id ts) \<Longrightarrow> length ts = 2 \<Longrightarrow> \<exists>t. List.find (\<lambda>t. t_id t \<noteq> i) ts = Some t"
  by (auto simp: length_Suc_conv numeral_2_eq_2)

definition settled :: "int list \<Rightarrow> gestures \<Rightarrow> bool" where
  "settled down g \<longleftrightarrow> gh_ok down g \<and> under_way (gh_state g) = None
     \<or> gh_ok down (g\<lparr>gh_state := 0\<rparr>) \<and> tracked g \<noteq> [] \<and> phase (length (tracked g)) (waitingRelease g) (gh_state g)
       \<and> longpressTimeoutId g \<noteq> Some True \<and> twoTouchTimeoutId g \<noteq> Some True \<and> under_way (gh_state g) \<noteq> None"

lemma two_touches_ok:
  assumes ok: "gh_ok down g" and n: "length (tracked g) = 2" and s: "gh_state g = 96 \<or> gh_state g = 0"
    and long: "longpressTimeoutId g \<noteq> Some True"
  shows "\<exists>g'. two_touches i touch g = ret () g' \<and> settled down g'"
proof -
  obtain p where p: "List.find (\<lambda>t. t_id t \<noteq> i) (tracked g) = Some p"
    using another_touch [OF gh_okD(2) [OF ok] n] by blast
  have s0: "gh_ok down (g\<lparr>gh_state := 0\<rparr>)"
    using gh_okD [OF ok] s n phase_0 [OF gh_okD(6) [OF ok]] by (intro gh_okI) auto
  have start: "gh_ok down (startTwoTouchTimeout g)"
    using gh_okD [OF ok] s n by (intro gh_okI) (auto simp: startTwoTouchTimeout_def stopTwoTouchTimeout_def)
  have "under_way (gh_state g) = None"
    using s by auto
  note start = start this
  have ne: "tracked g \<noteq> []"
    using n by auto
  show ?thesis
  proof (cases "farther (firstX p - lastX p) (firstY p - lastY p) GH_MOVE_THRESHOLD")
    case False
    then show ?thesis
      using p start ok by (auto simp: two_touches_def settled_def startTwoTouchTimeout_def stopTwoTouchTimeout_def)
  next
    case True
    define g1 where "g1 = (if angle_between (angle touch) (angle p) > GH_ANGLE_THRESHOLD then without GH_TWODRAG g else without GH_PINCH g)"
    have g1: "gh_state g1 = (if gh_state g = 0 then 0 else if angle_between (angle touch) (angle p) > GH_ANGLE_THRESHOLD then 64 else 32)"
      "g1 = g\<lparr>gh_state := gh_state g1\<rparr>"
      using s by (auto simp: g1_def without_def)
    define g2 where "g2 = (if isTwoTouchTimeoutRunning g1 then stopTwoTouchTimeout g1 else g1)"
    have g2: "g2 = g\<lparr>gh_state := gh_state g1, twoTouchTimeoutId := None\<rparr>"
      using g1(2) by (cases g) (auto simp: g2_def isTwoTouchTimeoutRunning_def stopTwoTouchTimeout_def)
    have r: "two_touches i touch g = ret () g2"
      using p True by (simp add: two_touches_def Let_def flip: g1_def g2_def)
    have ok2: "gh_ok down (g2\<lparr>gh_state := 0\<rparr>)"
      using gh_okD [OF s0] ne unfolding g2 by (intro gh_okI) simp_all
    show ?thesis
    proof (cases "gh_state g1 = 0")
      case True
      have e: "g2\<lparr>gh_state := 0\<rparr> = g2" and "gh_state g2 = 0"
        using True by (simp_all add: g2)
      moreover have "gh_ok down g2"
        using ok2 unfolding e .
      ultimately show ?thesis
        using r by (auto simp: settled_def)
    next
      case False
      have "\<not> waitingRelease g"
        using gh_okD(6) [OF ok] n s False g1(1) by (auto simp: phase_def split: if_splits)
      then show ?thesis
        using r ok2 n long False g1(1) by (auto simp: settled_def g2 phase_def under_way_def stateToGesture_def)
    qed
  qed
qed

lemma move_ok:
  assumes ok: "gh_ok down g"
  shows "\<exists>g'. touchMove i x y g = ret () g' \<and> gh_ok down g'"
proof (cases "List.find (\<lambda>t. t_id t = i) (tracked g)")
  case None
  then show ?thesis
    using ok by (simp add: touchMove_def)
next
  case (Some t)
  define g1 where "g1 = g\<lparr>tracked := upd_touch i (moved x y) (tracked g)\<rparr>"
  have ok1: "gh_ok down g1"
    unfolding g1_def by (rule retouch_ok [OF ok])
  have ne: "tracked g1 \<noteq> []"
    using Some by (cases "tracked g") (auto simp: g1_def)
  note det = gh_ok_detected [OF ok1]
  show ?thesis
  proof (cases "hasDetectedGesture g1")
    case True
    then obtain nm where nm: "under_way (gh_state g1) = Some nm"
      using det by blast
    then obtain es where es: "pushEvent ''gesturemove'' g1 = ret () (g1\<lparr>dispatched := es\<rparr>)" "protocol None es = Some (Some nm)"
      using push_move [OF nm ne gh_okD(1) [OF ok1]] gh_okD(12) [OF ok1] by auto
    have "gh_ok down (g1\<lparr>dispatched := es\<rparr>)"
      using gh_okD [OF ok1] es(2) nm by (intro gh_okI) simp_all
    then show ?thesis
      using Some True es(1) by (simp add: touchMove_def Let_def flip: g1_def)
  next
    case undetected: False
    show ?thesis
    proof (cases "nearer (x - firstX (moved x y t)) (y - firstY (moved x y t)) GH_MOVE_THRESHOLD")
      case True
      then show ?thesis
        using Some undetected ok1 by (auto simp: touchMove_def Let_def simp flip: g1_def)
    next
      case False
      define g4 where "g4 = far_move g1"
      have g4: "gh_target g4 = gh_target g1" "tracked g4 = tracked g1" "ignored g4 = ignored g1"
        "waitingRelease g4 = waitingRelease g1" "longpressTimeoutId g4 = None"
        "twoTouchTimeoutId g4 = twoTouchTimeoutId g1" "dispatched g4 = dispatched g1"
        by (simp_all add: g4_def far_move_def Let_def without_def stopLongpressTimeout_def)
      have s4: "gh_state g4 = (if length (tracked g1) = 1 then (if gh_state g1 = 127 then 8 else 0)
          else if length (tracked g1) = 2 then (if gh_state g1 = 102 \<or> gh_state g1 = 96 then 96 else 0) else 0)"
      proof -
        have u: "under_way (gh_state g1) = None"
          using undetected det by blast
        have "gh_state g1 \<noteq> 8" "gh_state g1 \<noteq> 16" "gh_state g1 \<noteq> 32" "gh_state g1 \<noteq> 64"
          using u by (auto simp: under_way_def stateToGesture_def)
        then show ?thesis
          using gh_okD(6) [OF ok1] ne
          by (auto simp: phase_def g4_def far_move_def Let_def without_def stopLongpressTimeout_def split: if_splits)
      qed
      have ph4: "gh_state g4 = 8 \<or> gh_ok down g4"
      proof (cases "gh_state g4 = 8")
        case False
        have "phase (length (tracked g1)) (waitingRelease g1) (gh_state g4)"
          using gh_okD(6) [OF ok1] s4 False ne by (auto simp: phase_def split: if_splits)
        moreover have "under_way (gh_state g4) = None" "under_way (gh_state g1) = None"
          using s4 False undetected det by (auto split: if_splits)
        moreover have "twoTouchTimeoutId g1 = Some True \<Longrightarrow> gh_state g4 = 96 \<or> gh_state g4 = 0"
          using s4 False by (auto split: if_splits)
        ultimately have "gh_ok down g4"
          using gh_okD [OF ok1] ne by (intro gh_okI) (simp_all add: g4)
        then show ?thesis ..
      qed simp
      have "\<exists>g5. (if length (tracked g4) = 2 then two_touches i (moved x y t) g4 else ret () g4) = ret () g5 \<and> settled down g5"
      proof (cases "gh_state g4 = 8")
        case True
        then have n: "length (tracked g4) = 1" "gh_state g1 = 127" "length (tracked g1) = 1"
          using s4 by (auto simp: g4 split: if_splits)
        have "gh_ok down (g4\<lparr>gh_state := 0\<rparr>)"
          using gh_okD [OF ok1] n ne phase_0 [OF gh_okD(6) [OF ok1]] by (intro gh_okI) (simp_all add: g4)
        moreover have "phase (length (tracked g4)) (waitingRelease g4) (gh_state g4)"
          using gh_okD(6) [OF ok1] n True by (simp add: phase_def g4)
        moreover have "longpressTimeoutId g4 \<noteq> Some True" "twoTouchTimeoutId g4 \<noteq> Some True" "tracked g4 \<noteq> []"
          using gh_okD(11) [OF ok1] n ne by (auto simp: g4)
        ultimately have "settled down g4"
          using True by (simp add: settled_def under_way_def stateToGesture_def)
        then show ?thesis
          using n(1) by simp
      next
        case False
        then have ok4: "gh_ok down g4" "gh_state g4 = 96 \<or> gh_state g4 = 0" "longpressTimeoutId g4 \<noteq> Some True"
          using ph4 s4 by (auto simp: g4 split: if_splits)
        show ?thesis
        proof (cases "length (tracked g4) = 2")
          case True
          then show ?thesis
            using two_touches_ok [OF ok4(1) True ok4(2,3)] by simp
        next
          case False
          have "under_way (gh_state g4) = None"
            using ok4(2) by auto
          then show ?thesis
            using False ok4(1) by (simp add: settled_def)
        qed
      qed
      then obtain g5 where g5: "(if length (tracked g4) = 2 then two_touches i (moved x y t) g4 else ret () g4) = ret () g5" "settled down g5"
        by blast
      have "touchMove i x y g = seqr (if length (tracked g4) = 2 then two_touches i (moved x y t) g4 else ret () g4)
            (\<lambda>_ g. if \<not> hasDetectedGesture g then ret () g
               else seqr (pushEvent ''gesturestart'' g) (\<lambda>_. pushEvent ''gesturemove''))"
        using Some undetected False by (simp add: touchMove_def Let_def flip: g1_def g4_def)
      then have "touchMove i x y g = (if \<not> hasDetectedGesture g5 then ret () g5
            else seqr (pushEvent ''gesturestart'' g5) (\<lambda>_. pushEvent ''gesturemove''))"
        unfolding g5(1) by simp
      moreover have "under_way (gh_state g5) = None \<Longrightarrow> \<not> hasDetectedGesture g5"
        using g5(2) gh_ok_detected [of down g5] by (auto simp: settled_def)
      moreover have "under_way (gh_state g5) \<noteq> None \<Longrightarrow> hasDetectedGesture g5 \<and> gh_ok down (g5\<lparr>gh_state := 0\<rparr>) \<and> tracked g5 \<noteq> []
          \<and> phase (length (tracked g5)) (waitingRelease g5) (gh_state g5)
          \<and> longpressTimeoutId g5 \<noteq> Some True \<and> twoTouchTimeoutId g5 \<noteq> Some True"
        using g5(2) detected_active [of g5 "waitingRelease g5"] gh_ok_active [of down "g5\<lparr>gh_state := 0\<rparr>"]
        by (auto simp: settled_def)
      ultimately show ?thesis
        using begin_ok(2) [of down g5] g5(2) by (cases "under_way (gh_state g5)") (auto simp: settled_def)
    qed
  qed
qed


subsection \<open>A finger is lifted\<close>

lemma active_ids_Nil [simp]: "active_ids [] = []"
  by (simp add: active_ids_def)

lemma forget_ok:
  assumes "gh_target g" "distinct (map t_id (tracked g))" "distinct (ignored g)"
    "set (active_ids (tracked g)) \<inter> set (ignored g) = {}"
    "set down' = (set (active_ids (tracked g)) \<union> set (ignored g)) - {i}"
    "longpressTimeoutId g \<noteq> Some True" "twoTouchTimeoutId g \<noteq> Some True" "protocol None (dispatched g) = Some None"
  shows "gh_ok down' (forget_touches i g)"
proof -
  have "distinct (active_ids (tracked g))"
    using assms(2) by (simp add: active_ids_def distinct_map_filter)
  then have d: "distinct (ignored g @ active_ids (tracked g))"
    using assms(3,4) by auto
  let ?left = "remove1 i (ignored g @ active_ids (tracked g))"
  have l: "distinct ?left" "set ?left = set down'"
    using d assms(5) by (auto simp: set_remove1_eq [OF d])
  have "forget_touches i g = (if ?left = [] then g\<lparr>tracked := [], ignored := [], gh_state := 127, waitingRelease := False\<rparr>
      else g\<lparr>tracked := [], ignored := ?left, gh_state := 0\<rparr>)"
    by (cases g) (simp add: forget_touches_def gh_reset_def Let_def active_ids_def)
  moreover have "gh_ok down' (g\<lparr>tracked := [], ignored := [], gh_state := 127, waitingRelease := False\<rparr>)" if "?left = []"
    using assms(1,6,7,8) l that by (intro gh_okI) (simp_all add: phase_def)
  moreover have "gh_ok down' (g\<lparr>tracked := [], ignored := ?left, gh_state := 0\<rparr>)" if "?left \<noteq> []"
    using assms(1,6,7,8) l that by (intro gh_okI) (simp_all add: phase_def)
  ultimately show ?thesis
    by simp
qed

lemma release_ids:
  assumes "distinct (map t_id ts)"
  shows "active_ids (upd_touch i (\<lambda>t. t\<lparr>active := False\<rparr>) ts) = removeAll i (active_ids ts)"
  using assms
proof (induction ts)
  case (Cons t ts)
  have "i \<notin> set (active_ids ts)" if "t_id t = i"
    using Cons.prems that by (auto simp: active_ids_def)
  then show ?case
    using Cons by (auto simp: active_ids_def)
qed (simp add: active_ids_def)

lemma upd_touch_same:
  assumes "\<And>t. t_id (f t) = t_id t"
  shows "map t_id (upd_touch i f ts) = map t_id ts" "length (upd_touch i f ts) = length ts" "upd_touch i f ts = [] \<longleftrightarrow> ts = []"
  using assms by (induction ts) auto

lemma active_ids_ex: "list_ex active ts \<longleftrightarrow> active_ids ts \<noteq> []"
  by (induction ts) (auto simp: active_ids_def)

lemma end_ok:
  assumes ok: "gh_ok down g" and i: "i \<in> set down"
  shows "\<exists>g'. touchEnd time i g = ret () g' \<and> gh_ok (removeAll i down) g'"
proof (cases "i \<in> set (ignored g)")
  case True
  let ?left = "remove1 i (ignored g)"
  have l: "distinct ?left" "set ?left = set (ignored g) - {i}" "i \<notin> set (active_ids (tracked g))"
    using gh_okD(3,4) [OF ok] True by (auto simp: set_remove1_eq)
  define g' where "g' = (if ?left = [] \<and> tracked g = [] then gh_reset (g\<lparr>ignored := ?left\<rparr>) else g\<lparr>ignored := ?left\<rparr>)"
  have "gh_ok (removeAll i down) g'"
  proof (cases "?left = [] \<and> tracked g = []")
    case True
    have "gh_state g = 0 \<or> gh_state g = 127"
      using gh_okD(9) [OF ok] True by (auto split: if_splits)
    then have "protocol None (dispatched g) = Some None"
      using gh_okD(12) [OF ok] by auto
    then show ?thesis
      using gh_okD [OF ok] l True unfolding g'_def
      by (intro gh_okI) (auto simp: gh_reset_def phase_def)
  next
    case False
    have "tracked g = [] \<Longrightarrow> gh_state g = 0"
      using gh_okD(9) [OF ok] \<open>i \<in> set (ignored g)\<close> by (auto split: if_splits)
    then show ?thesis
      using gh_okD [OF ok] l False unfolding g'_def by (intro gh_okI) auto
  qed
  then show ?thesis
    using True by (simp add: touchEnd_def Let_def g'_def)
next
  case not_ignored: False
  then have a: "i \<in> set (active_ids (tracked g))"
    using gh_okD(5) [OF ok] i by simp
  then have ne: "tracked g \<noteq> []"
    by (auto simp: active_ids_def)
  have down: "set (removeAll i down) = (set (active_ids (tracked g)) \<union> set (ignored g)) - {i}"
    using gh_okD(5) [OF ok] by simp
  show ?thesis
  proof (cases "under_way (gh_state g)")
    case (Some nm)
    then have det: "hasDetectedGesture g" and w: "\<not> waitingRelease g"
      using gh_ok_detected [OF ok] phase_waiting [OF gh_okD(6) [OF ok]] by simp_all
    obtain es where es: "pushEvent ''gestureend'' g = ret () (g\<lparr>dispatched := es\<rparr>)" "protocol None es = Some None"
      using push_end [OF under_way_gesture [OF Some] ne gh_okD(1) [OF ok]] gh_okD(12) [OF ok] Some by auto
    have "longpressTimeoutId g \<noteq> Some True" "twoTouchTimeoutId g \<noteq> Some True"
      using gh_okD(10,11) [OF ok] Some by auto
    then have "gh_ok (removeAll i down) (forget_touches i (g\<lparr>dispatched := es\<rparr>))"
      using gh_okD [OF ok] es(2) down by (intro forget_ok) simp_all
    moreover have "touchEnd time i g = ret () (forget_touches i (g\<lparr>dispatched := es\<rparr>))"
      using not_ignored det w es(1)
      by (simp add: touchEnd_def end_before_timer_def first_release_def wait_release_def)
    ultimately show ?thesis
      by blast
  next
    case None
    then have und: "\<not> hasDetectedGesture g"
      using gh_ok_detected [OF ok] by simp
    define g1 where "g1 = end_before_timer g"
    have g1: "gh_target g1 = gh_target g" "tracked g1 = tracked g" "ignored g1 = ignored g" "waitingRelease g1 = waitingRelease g"
      "dispatched g1 = dispatched g" "twoTouchTimeoutId g1 = None" "gh_state g1 = gh_state g \<or> gh_state g1 = 0"
      using und by (auto simp: g1_def end_before_timer_def stopTwoTouchTimeout_def isTwoTouchTimeoutRunning_def)
    have und1: "\<not> hasDetectedGesture g1"
      using und by (simp add: g1_def end_before_timer_def) (simp add: hasDetectedGesture_def)
    define g2 where "g2 = first_release time g1"
    have g2: "gh_target g2 = gh_target g" "tracked g2 = tracked g" "ignored g2 = ignored g" "waitingRelease g2"
      "dispatched g2 = dispatched g" "twoTouchTimeoutId g2 = None" "longpressTimeoutId g2 = None"
      using und1 g1 by (auto simp: g2_def first_release_def stopLongpressTimeout_def without_def Let_def)
    have s2: "gh_state g2 = 0 \<or> length (tracked g) = 1 \<and> gh_state g2 = 1 \<or> length (tracked g) = 2 \<and> gh_state g2 = 2
        \<or> length (tracked g) = 3 \<and> gh_state g2 = 4"
    proof -
      have "gh_state g \<noteq> 8" "gh_state g \<noteq> 16" "gh_state g \<noteq> 32" "gh_state g \<noteq> 64"
        using None by (auto simp: under_way_def stateToGesture_def)
      then show ?thesis
        using gh_okD(6) [OF ok] ne und1 g1(2,4,7)
        by (auto simp: phase_def g2_def first_release_def stopLongpressTimeout_def without_def Let_def split: if_splits)
    qed
    define s3 where "s3 = (if time - releaseStart g2 > GH_MULTITOUCH_TIMEOUT \<or> list_ex (\<lambda>t. time - started t > GH_TAP_TIMEOUT) (tracked g)
      then 0 else gh_state g2)"
    define g4 where "g4 = g2\<lparr>gh_state := s3, tracked := upd_touch i (\<lambda>t. t\<lparr>active := False\<rparr>) (tracked g)\<rparr>"
    have s3: "s3 = 0 \<or> length (tracked g) = 1 \<and> s3 = 1 \<or> length (tracked g) = 2 \<and> s3 = 2 \<or> length (tracked g) = 3 \<and> s3 = 4"
      using s2 by (auto simp: s3_def)
    have left: "active_ids (tracked g4) = removeAll i (active_ids (tracked g))"
      using release_ids [OF gh_okD(2) [OF ok]] by (simp add: g4_def)
    have ids4: "distinct (map t_id (tracked g4))" "length (tracked g4) = length (tracked g)" "tracked g4 \<noteq> []"
      using gh_okD(2) [OF ok] ne upd_touch_same [of "\<lambda>t. t\<lparr>active := False\<rparr>" i "tracked g"] by (simp_all add: g4_def)
    have sel4: "gh_target g4" "ignored g4 = ignored g" "waitingRelease g4" "dispatched g4 = dispatched g"
      "twoTouchTimeoutId g4 = None" "longpressTimeoutId g4 = None" "gh_state g4 = s3"
      using g2 gh_okD(1) [OF ok] by (simp_all add: g4_def)
    have quiet: "protocol None (dispatched g) = Some None"
      using gh_okD(12) [OF ok] None by simp
    have det4: "hasDetectedGesture g4 \<longleftrightarrow> s3 \<noteq> 0 \<and> active_ids (tracked g4) = []"
      using s3 by (auto simp: hasDetectedGesture_def sel4 active_ids_ex)
    have disj: "set (active_ids (tracked g4)) \<inter> set (ignored g) = {}"
      using left gh_okD(4) [OF ok] by auto
    have down4: "set (removeAll i down) = (set (active_ids (tracked g4)) \<union> set (ignored g)) - {i}"
      using down left by auto
    have more: "touchEnd time i g = seqr (if hasDetectedGesture g4 then seqr (pushEvent ''gesturestart'' g4) (\<lambda>_. ret True) else ret (s3 = 0) g4)
      (\<lambda>more g. if \<not> more then ret () g
          else seqr (if hasDetectedGesture g then pushEvent ''gestureend'' g else ret () g) (\<lambda>_ g. ret () (forget_touches i g)))"
    proof -
      have "List.find (\<lambda>t. t_id t = i) (tracked g) \<noteq> None"
        using a by (auto simp: active_ids_def find_None_iff)
      then obtain t where t: "List.find (\<lambda>t. t_id t = i) (tracked g) = Some t"
        by blast
      define h where "h = (if time - releaseStart g2 > GH_MULTITOUCH_TIMEOUT then g2\<lparr>gh_state := GH_NOGESTURE\<rparr> else g2)"
      have h: "(if list_ex (\<lambda>t. time - started t > GH_TAP_TIMEOUT) (tracked h) then h\<lparr>gh_state := GH_NOGESTURE\<rparr> else h) = g2\<lparr>gh_state := s3\<rparr>"
        by (simp add: h_def s3_def g2(2))
      have "wait_release time i g2 =
          (if hasDetectedGesture g4 then seqr (pushEvent ''gesturestart'' g4) (\<lambda>_. ret True) else ret (s3 = 0) g4)"
        using g2(4) t sel4(7) unfolding wait_release_def Let_def h_def [symmetric] h by (simp add: g2(2) flip: g4_def)
      then show ?thesis
        using not_ignored by (simp add: touchEnd_def flip: g1_def g2_def)
    qed
    show ?thesis
    proof (cases "s3 = 0")
      case True
      then have "touchEnd time i g = ret () (forget_touches i g4)"
        using det4 by (simp add: more)
      moreover have "gh_ok (removeAll i down) (forget_touches i g4)"
        using ids4 sel4 disj down4 quiet gh_okD(3) [OF ok] by (intro forget_ok) simp_all
      ultimately show ?thesis
        by blast
    next
      case tap: False
      show ?thesis
      proof (cases "active_ids (tracked g4) = []")
        case True
        then have d: "hasDetectedGesture g4"
          using det4 tap by simp
        obtain nm where nm: "stateToGesture (gh_state g4) = Some nm"
          using s3 tap sel4(7) by (auto simp: stateToGesture_def)
        obtain es where es: "pushEvent ''gesturestart'' g4 = ret () (g4\<lparr>dispatched := es\<rparr>)" "protocol None es = Some (Some nm)"
          using push_start [OF nm ids4(3) sel4(1)] quiet sel4(4) by auto
        have "hasDetectedGesture (g4\<lparr>dispatched := es\<rparr>) = hasDetectedGesture g4"
          by (simp add: hasDetectedGesture_def)
        then have d5: "hasDetectedGesture (g4\<lparr>dispatched := es\<rparr>)"
          using d by simp
        obtain es' where es': "pushEvent ''gestureend'' (g4\<lparr>dispatched := es\<rparr>) = ret () (g4\<lparr>dispatched := es'\<rparr>)"
            "protocol None es' = Some None"
          using push_end [of "g4\<lparr>dispatched := es\<rparr>" nm] nm ids4(3) sel4(1) es(2) by auto
        have "touchEnd time i g = ret () (forget_touches i (g4\<lparr>dispatched := es'\<rparr>))"
          using d d5 es(1) es'(1) by (simp add: more)
        moreover have "gh_ok (removeAll i down) (forget_touches i (g4\<lparr>dispatched := es'\<rparr>))"
          using ids4 sel4 disj down4 es'(2) gh_okD(3) [OF ok] by (intro forget_ok) simp_all
        ultimately show ?thesis
          by blast
      next
        case False
        then have "touchEnd time i g = ret () g4"
          using det4 tap by (simp add: more)
        moreover have "gh_ok (removeAll i down) g4"
        proof -
          have n: "length (tracked g) \<noteq> 1"
          proof
            assume "length (tracked g) = 1"
            then obtain t where "tracked g = [t]"
              by (auto simp: length_Suc_conv)
            then show False
              using a False left by (auto simp: active_ids_def split: if_splits)
          qed
          have "phase (length (tracked g)) True s3" "under_way s3 = None"
            using s3 tap n by (auto simp: phase_def)
          moreover have "set (removeAll i down) = set (active_ids (tracked g4)) \<union> set (ignored g)"
            using down4 left not_ignored by auto
          ultimately show ?thesis
            using ids4 sel4 disj quiet gh_okD(3) [OF ok] False by (intro gh_okI) (simp_all add: active_ids_ex)
        qed
        ultimately show ?thesis
          by blast
      qed
    qed
  qed
qed


subsection \<open>A timer fires\<close>

lemma far_move_length: "length (tracked (far_move g)) = length (tracked g)"
  by (simp add: far_move_def Let_def without_def stopLongpressTimeout_def)

lemma longpress_ok:
  assumes ok: "gh_ok down g" and armed: "longpressTimeoutId g = Some True"
  shows "\<exists>g'. longpressTimeout (g\<lparr>longpressTimeoutId := Some False\<rparr>) = ret () g' \<and> gh_ok down g'"
proof -
  let ?g = "g\<lparr>longpressTimeoutId := Some False, gh_state := GH_LONGPRESS\<rparr>"
  have n: "length (tracked g) = 1" "under_way (gh_state g) = None"
    using gh_okD(10) [OF ok armed] by auto
  then have ne: "tracked g \<noteq> []"
    by auto
  have "hasDetectedGesture (g\<lparr>longpressTimeoutId := Some False\<rparr>) = hasDetectedGesture g"
    by (simp add: hasDetectedGesture_def)
  then have und: "\<not> hasDetectedGesture (g\<lparr>longpressTimeoutId := Some False\<rparr>)"
    using gh_ok_detected [OF ok] n(2) by simp
  have "twoTouchTimeoutId g \<noteq> Some True" "\<not> waitingRelease g"
    using gh_okD(6,11) [OF ok] n(1) by (auto simp: phase_def)
  moreover have "gh_ok down (?g\<lparr>gh_state := 0\<rparr>)"
    using gh_okD [OF ok] n ne phase_0 [OF gh_okD(6) [OF ok]] calculation(1) by (intro gh_okI) simp_all
  ultimately show ?thesis
    using begin_ok(1) [of down ?g "''longpress''"] ne n(1) und
    by (simp add: longpressTimeout_def phase_def under_way_def stateToGesture_def)
qed

lemma twoTouch_ok:
  assumes ok: "gh_ok down g" and armed: "twoTouchTimeoutId g = Some True" and w: "\<not> waitingRelease g"
  shows "\<exists>g'. twoTouchTimeout (g\<lparr>twoTouchTimeoutId := Some False\<rparr>) = ret () g' \<and> gh_ok down g'"
proof -
  have n: "length (tracked g) = 2 \<or> length (tracked g) = 3" "under_way (gh_state g) = None" "gh_state g = 96 \<or> gh_state g = 0"
    using gh_okD(11) [OF ok armed] by auto
  then have ne: "tracked g \<noteq> []"
    by auto
  obtain mx my where m: "getAverageMovement (tracked g) = Some (mx, my)"
    using ne by (simp add: getAverageMovement_def)
  obtain fx fy lx ly where d: "getAverageDistance (tracked g) = Some ((fx, fy), (lx, ly))"
    using ne by (simp add: getAverageDistance_def Let_def)
  let ?far = "\<bar>hypot (of_rat fx) (of_rat fy) - hypot (of_rat lx) (of_rat ly)\<bar>"
  define s where "s = (if of_rat \<bar>my\<bar> < ?far \<and> of_rat \<bar>mx\<bar> < ?far then GH_PINCH else GH_TWODRAG)"
  let ?g = "g\<lparr>twoTouchTimeoutId := Some False, gh_state := s\<rparr>"
  have s: "s = 64 \<or> s = 32"
    by (simp add: s_def)
  have "longpressTimeoutId g \<noteq> Some True"
    using gh_okD(10) [OF ok] n(1) by auto
  moreover have "gh_ok down (?g\<lparr>gh_state := 0\<rparr>)"
    using gh_okD [OF ok] n ne phase_0 [OF gh_okD(6) [OF ok]] by (intro gh_okI) simp_all
  moreover have "phase (length (tracked ?g)) (waitingRelease ?g) (gh_state ?g)"
    using n(1) w s by (auto simp: phase_def)
  moreover have "\<exists>nm. under_way s = Some nm"
    using s by (auto simp: under_way_def stateToGesture_def)
  ultimately have "\<exists>g'. seqr (pushEvent ''gesturestart'' ?g) (\<lambda>_. pushEvent ''gesturemove'') = ret () g' \<and> gh_ok down g'"
    using ne by (elim exE) (intro begin_ok(2) [of down ?g], simp_all)
  then show ?thesis
    by (simp add: twoTouchTimeout_def m d Let_def flip: s_def)
qed

subsection \<open>Any sequence of touches and timers\<close>

text \<open>The fingers that are down behind an event, and the events that can come: a finger that comes
  down was not down, one that is lifted was, and a timer that fires is armed.  The timer for two
  fingers must not fire when one of them has been lifted; what happens then is shown below.\<close>

fun fingers :: "gh_input \<Rightarrow> int list \<Rightarrow> int list" where
  "fingers (Touches TouchStart time cs) down = rev (map fst cs) @ down"
| "fingers (Touches TouchEnd time cs) down = filter (\<lambda>i. i \<notin> set (map fst cs)) down"
| "fingers _ down = down"

fun can_come :: "int list \<Rightarrow> gestures \<Rightarrow> gh_input \<Rightarrow> bool" where
  "can_come down g (Touches TouchStart time cs) = distinct (rev (map fst cs) @ down)"
| "can_come down g (Touches TouchEnd time cs) = (distinct (map fst cs) \<and> set (map fst cs) \<subseteq> set down)"
| "can_come down g (Touches TouchMove time cs) = (set (map fst cs) \<subseteq> set down)"
| "can_come down g LongpressFires = (longpressTimeoutId g = Some True)"
| "can_come down g TwoTouchFires = (twoTouchTimeoutId g = Some True \<and> \<not> waitingRelease g)"

fun can_happen :: "int list \<Rightarrow> gh_input list \<Rightarrow> gestures \<Rightarrow> bool" where
  "can_happen down [] g = True"
| "can_happen down (e # es) g =
     (can_come down g e \<and> (case gh_step e g of Some (Inr _, g) \<Rightarrow> can_happen (fingers e down) es g | _ \<Rightarrow> True))"

lemma gh_ok_set: "gh_ok down g \<Longrightarrow> set down' = set down \<Longrightarrow> gh_ok down' g"
  by (simp add: gh_ok_def)

lemma starts_ok: "gh_ok down g \<Longrightarrow> distinct (rev (map fst cs) @ down) \<Longrightarrow>
    \<exists>g'. eventHandler TouchStart time cs g = ret () g' \<and> gh_ok (rev (map fst cs) @ down) g'"
proof (induction cs arbitrary: down g)
  case (Cons c cs)
  obtain i x y where c: "c = (i, x, y)"
    by (cases c)
  obtain g1 where "touchStart time i x y g = ret () g1" "gh_ok (i # down) g1"
    using start_ok [OF Cons.prems(1), of i time x y] Cons.prems(2) c by auto
  then show ?case
    using Cons.IH [of "i # down" g1] Cons.prems(2) c by (auto simp: touch_event_def)
qed simp

lemma moves_ok: "gh_ok down g \<Longrightarrow> \<exists>g'. eventHandler TouchMove time cs g = ret () g' \<and> gh_ok down g'"
proof (induction cs arbitrary: g)
  case (Cons c cs)
  obtain i x y where c: "c = (i, x, y)"
    by (cases c)
  obtain g1 where "touchMove i x y g = ret () g1" "gh_ok down g1"
    using move_ok [OF Cons.prems] by blast
  then show ?case
    using Cons.IH [of g1] c by (auto simp: touch_event_def)
qed simp

lemma ends_ok: "gh_ok down g \<Longrightarrow> distinct (map fst cs) \<Longrightarrow> set (map fst cs) \<subseteq> set down \<Longrightarrow>
    \<exists>g'. eventHandler TouchEnd time cs g = ret () g' \<and> gh_ok (filter (\<lambda>i. i \<notin> set (map fst cs)) down) g'"
proof (induction cs arbitrary: down g)
  case (Cons c cs)
  obtain i x y where c: "c = (i, x, y)"
    by (cases c)
  obtain g1 where g1: "touchEnd time i g = ret () g1" "gh_ok (removeAll i down) g1"
    using end_ok [OF Cons.prems(1), of i time] Cons.prems(3) c by auto
  have "\<exists>g'. eventHandler TouchEnd time cs g1 = ret () g' \<and> gh_ok (filter (\<lambda>i. i \<notin> set (map fst cs)) (removeAll i down)) g'"
    using Cons.prems c by (intro Cons.IH [OF g1(2)]) auto
  moreover have "filter (\<lambda>i. i \<notin> set (map fst cs)) (removeAll i down) = filter (\<lambda>i. i \<notin> set (map fst (c # cs))) down"
    using c by (induction down) auto
  ultimately show ?case
    using g1(1) c by (simp add: touch_event_def)
qed simp

lemma step_ok:
  assumes "gh_ok down g" "can_come down g e"
  shows "\<exists>g'. gh_step e g = ret () g' \<and> gh_ok (fingers e down) g'"
  using assms starts_ok moves_ok ends_ok longpress_ok twoTouch_ok
  by (cases e; cases "case e of Touches ty _ _ \<Rightarrow> ty | _ \<Rightarrow> TouchMove") (auto split: gh_input.splits)

lemma run_ok:
  "gh_ok down g \<Longrightarrow> can_happen down es g \<Longrightarrow> \<exists>g'. gh_run es g = ret () g' \<and> gh_ok (fold fingers es down) g'"
proof (induction es arbitrary: down g)
  case (Cons e es)
  obtain g1 where g1: "gh_step e g = ret () g1" "gh_ok (fingers e down) g1"
    using step_ok [OF Cons.prems(1)] Cons.prems(2) by auto
  then show ?case
    using Cons.IH [OF g1(2)] Cons.prems(2) by (simp add: ret_def)
qed simp

lemma attached_ok: "gh_ok [] (gh_attach new_gestures)"
  by (simp add: gh_ok_def gh_attach_def gh_detach_def new_gestures_def phase_def)

text \<open>C29. Whatever fingers do on the screen and whenever the timers fire, as long as the timer for two
fingers does not fire while the handler waits for the other fingers to be lifted, the gesture handler
never throws, and what it dispatches are whole gestures: each begins, moves and ends under one name
before the next begins; and when no finger is down, the last gesture has ended, no timer is armed,
and the object recognises gestures from the beginning.

\<open>can_happen\<close> is what a browser does: fingers come down once and under new names, only fingers that
are down move or are lifted, and a timer fires only while it is armed.  Its one restriction beyond
that is the one just named: gesturehandler.js:207 does not ask whether the handler waits for release,
and a timer that fires then makes a gesture begin twice (\<open>lifted_finger_begins_twice\<close> in \<open>GestureTaps\<close>).
\<close>

theorem whole_gestures:
  assumes "can_happen [] es (gh_attach new_gestures)"
  shows "\<exists>g. gh_run es (gh_attach new_gestures) = ret () g \<and> protocol None (dispatched g) \<noteq> None
    \<and> (fold fingers es [] = [] \<longrightarrow> protocol None (dispatched g) = Some None \<and> gh_state g = GH_INITSTATE
         \<and> tracked g = [] \<and> ignored g = [] \<and> \<not> waitingRelease g
         \<and> longpressTimeoutId g \<noteq> Some True \<and> twoTouchTimeoutId g \<noteq> Some True)"
proof -
  obtain g where g: "gh_run es (gh_attach new_gestures) = ret () g" "gh_ok (fold fingers es []) g"
    using run_ok [OF attached_ok assms] by blast
  have "tracked g = []" "ignored g = []" if "fold fingers es [] = []"
    using gh_okD(5,7,8) [OF g(2)] that by (cases "waitingRelease g"; auto simp: active_ids_ex active_ids_all)+
  then show ?thesis
    using g(1) gh_okD(9-12) [OF g(2)] by auto
qed

text \<open>A drag.\<close>

lemmas gh_defs = new_gestures_def gh_attach_def gh_detach_def stopLongpressTimeout_def startLongpressTimeout_def
  stopTwoTouchTimeout_def startTwoTouchTimeout_def isTwoTouchTimeoutRunning_def without_def hasDetectedGesture_def
  stateToGesture_def average_def getPosition_def getAverageMovement_def getAverageDistance_def magnitudes_def pushEvent_def
  gh_ignore_def touchStart_def moved_def two_touches_def far_move_def touchMove_def gh_reset_def
  end_before_timer_def first_release_def wait_release_def forget_touches_def touchEnd_def longpressTimeout_def
  twoTouchTimeout_def touch_event_def farther_def nearer_def

theorem whole_gestures_witness:
  "\<exists>g. gh_run [Touches TouchStart 0 [(7, 0, 0)], Touches TouchMove 100 [(7, 60, 0)], Touches TouchEnd 700 [(7, 60, 0)]]
      (gh_attach new_gestures) = ret () g
    \<and> map (\<lambda>e. (ge_type e, ge_gesture e, ge_clientX e)) (dispatched g) =
      [(''gesturestart'', ''drag'', 0), (''gesturemove'', ''drag'', 60), (''gestureend'', ''drag'', 60)]"
proof -
  let ?es = "[Touches TouchStart 0 [(7, 0, 0)], Touches TouchMove 100 [(7, 60, 0)], Touches TouchEnd 700 [(7, 60, 0)]]"
  have "can_happen [] ?es (gh_attach new_gestures)"
    by (simp add: gh_defs ret_def)
  then obtain g where g: "gh_run ?es (gh_attach new_gestures) = ret () g"
    using whole_gestures by blast
  moreover have "\<exists>g. gh_run ?es (gh_attach new_gestures) = ret () g \<and> map (\<lambda>e. (ge_type e, ge_gesture e, ge_clientX e)) (dispatched g) =
      [(''gesturestart'', ''drag'', 0), (''gesturemove'', ''drag'', 60), (''gestureend'', ''drag'', 60)]"
    by (simp add: gh_defs)
  ultimately show ?thesis
    by simp
qed

section \<open>Two fingers\<close>

text \<open>The angle between two directions as the code takes it, from \<open>atan2\<close>, is more than a right angle
  exactly if their scalar product is negative.\<close>

lemma cos_negative:
  assumes "0 \<le> d" "d < 2 * pi"
  shows "cos d < 0 \<longleftrightarrow> pi / 2 < d \<and> d < 3 * pi / 2"
proof (cases "pi / 2 < d \<and> d < 3 * pi / 2")
  case True
  then have "0 < cos (d - pi)"
    by (intro cos_gt_zero_pi) (simp_all add: field_simps)
  then show ?thesis
    using True cos_periodic_pi [of "d - pi"] by simp
next
  case False
  have "0 \<le> cos d"
  proof (cases "d \<le> pi / 2")
    case True
    then show ?thesis
      using assms(1) pi_gt_zero by (intro cos_ge_zero) linarith+
  next
    case f: False
    then have "3 * pi / 2 \<le> d"
      using False by linarith
    then have "0 \<le> cos (2 * pi - d)"
      using assms(2) pi_gt_zero by (intro cos_ge_zero) linarith+
    then show ?thesis
      by simp
  qed
  then show ?thesis
    using False by simp
qed

lemma wide_angle:
  assumes "(x1, y1) \<noteq> (0, 0)" "(x2, y2) \<noteq> (0, 0)"
  shows "angle_between (direction x1 y1) (direction x2 y2) > 90 \<longleftrightarrow> x1 * x2 + y1 * y2 < 0"
proof -
  let ?z1 = "Complex (of_rat x1) (of_rat y1)" and ?z2 = "Complex (of_rat x2) (of_rat y2)"
  define d where "d = \<bar>Arg ?z1 - Arg ?z2\<bar>"
  have z: "?z1 \<noteq> 0" "?z2 \<noteq> 0"
    using assms by (auto simp: complex_eq_iff)
  have d: "0 \<le> d" "d < 2 * pi"
    using Arg_bounded [of ?z1] Arg_bounded [of ?z2] by (auto simp: d_def abs_if)
  define a where "a = d * 180 / pi"
  have a: "0 \<le> a" "a < 360"
    using d pi_gt_zero by (simp_all add: a_def field_simps)
  have ab: "\<bar>direction x1 y1 - direction x2 y2\<bar> = a"
  proof -
    have "direction x1 y1 - direction x2 y2 = (Arg ?z1 - Arg ?z2) * (180 / pi)"
      by (simp add: direction_def algebra_simps diff_divide_distrib)
    then show ?thesis
      by (simp only: abs_mult a_def d_def) simp
  qed
  have f: "js_fmod (a + 180) 360 = (if a < 180 then a + 180 else a - 180)"
  proof (cases "a < 180")
    case True
    then have "\<lfloor>(a + 180) / 360\<rfloor> = 0"
      using a(1) by (simp add: floor_eq_iff)
    then show ?thesis
      using True by (simp add: js_fmod_def)
  next
    case False
    then have "\<lfloor>(a + 180) / 360\<rfloor> = 1"
      using a(2) by (simp add: floor_eq_iff)
    then show ?thesis
      using False by (simp add: js_fmod_def)
  qed
  have "angle_between (direction x1 y1) (direction x2 y2) > 90 \<longleftrightarrow> 90 < a \<and> a < 270"
    unfolding angle_between_def ab f using a by auto
  also have "\<dots> \<longleftrightarrow> pi / 2 < d \<and> d < 3 * pi / 2"
    using pi_gt_zero by (simp add: a_def field_simps)
  also have "\<dots> \<longleftrightarrow> cos d < 0"
    using cos_negative [OF d] by blast
  also have "cos d = cos (Arg ?z1) * cos (Arg ?z2) + sin (Arg ?z1) * sin (Arg ?z2)"
    by (simp add: d_def cos_diff)
  also have "\<dots> = of_rat (x1 * x2 + y1 * y2) / (cmod ?z1 * cmod ?z2)"
    using z by (simp add: cos_Arg sin_Arg of_rat_add of_rat_mult add_divide_distrib)
  also have "\<dots> < 0 \<longleftrightarrow> x1 * x2 + y1 * y2 < 0"
  proof -
    have "0 < cmod ?z1 * cmod ?z2"
      using z by simp
    then show ?thesis
      by (simp only: divide_less_0_iff) (auto simp: of_rat_less_0_iff)
  qed
  finally show ?thesis .
qed


text \<open>The angle of a touch is that of its displacement, when it is displaced.\<close>

definition touch_ok :: "touch \<Rightarrow> bool" where
  "touch_ok t \<longleftrightarrow> (lastX t, lastY t) = (firstX t, firstY t) \<or> angle t = direction (lastX t - firstX t) (lastY t - firstY t)"

lemma moved_ok: "touch_ok (moved x y t)"
  by (auto simp: touch_ok_def moved_def Let_def)

lemma touches_ok_move: "list_all touch_ok ts \<Longrightarrow> list_all touch_ok (upd_touch i (moved x y) ts)"
  by (induction ts) (simp_all add: moved_ok)

text \<open>C31. Two fingers that have both moved far make a pinch if their directions are more than a right
angle apart, that is if the scalar product of their displacements is negative, and otherwise a drag;
the start and a move of that gesture are dispatched at once.\<close>

theorem two_fingers_decide:
  assumes "tracked g = [p, q] \<or> tracked g = [q, p]" "t_id p \<noteq> t_id q" "active p" "gh_target g"
    "gh_state g = 102 \<or> gh_state g = 96" "touch_ok q"
    "\<not> nearer (x - firstX p) (y - firstY p) 50" "farther (firstX q - lastX q) (firstY q - lastY q) 50"
  shows "\<exists>g' e e'. touchMove (t_id p) x y g = ret () g' \<and> dispatched g' = dispatched g @ [e, e']
    \<and> gh_state g' = (if (x - firstX p) * (lastX q - firstX q) + (y - firstY p) * (lastY q - firstY q) < 0 then GH_PINCH else GH_TWODRAG)
    \<and> ge_type e = ''gesturestart'' \<and> ge_type e' = ''gesturemove''
    \<and> Some (ge_gesture e) = stateToGesture (gh_state g') \<and> ge_gesture e' = ge_gesture e"
proof -
  let ?p = "moved x y p"
  let ?wide = "(x - firstX p) * (lastX q - firstX q) + (y - firstY p) * (lastY q - firstY q) < 0"
  define g1 where "g1 = g\<lparr>tracked := upd_touch (t_id p) (moved x y) (tracked g)\<rparr>"
  have p: "firstX ?p = firstX p" "firstY ?p = firstY p" "active ?p" "t_id ?p = t_id p"
    using assms(3) by (simp_all add: moved_def Let_def)
  have t1: "tracked g1 = [?p, q] \<or> tracked g1 = [q, ?p]"
    using assms(1,2) by (auto simp: g1_def)
  have far: "(x - firstX p, y - firstY p) \<noteq> (0, 0)" "(lastX q - firstX q, lastY q - firstY q) \<noteq> (0, 0)"
    using assms(7,8) by (auto simp: nearer_def farther_def)
  have angles: "angle ?p = direction (x - firstX p) (y - firstY p)" "angle q = direction (lastX q - firstX q) (lastY q - firstY q)"
    using far assms(6) by (auto simp: moved_def Let_def touch_ok_def)
  have hits: "List.find (\<lambda>t. t_id t = t_id p) (tracked g) = Some p"
    "List.find (\<lambda>t. t_id t \<noteq> t_id p) (tracked g1) = Some q"
    using assms(1,2) t1 p(4) by auto
  define g2 where "g2 = g1\<lparr>gh_state := (if ?wide then GH_PINCH else GH_TWODRAG), longpressTimeoutId := None, twoTouchTimeoutId := None\<rparr>"
  have und: "\<not> hasDetectedGesture g1"
    using assms(5) by (auto simp: hasDetectedGesture_def g1_def)
  have n: "length (tracked g1) = 2"
    using t1 by auto
  have narrow: "far_move g1 = g1\<lparr>gh_state := 96, longpressTimeoutId := None\<rparr>"
    using assms(5) n by (auto simp: far_move_def without_def stopLongpressTimeout_def g1_def Let_def)
  then have two: "two_touches (t_id p) ?p (far_move g1) = ret () g2"
    using hits(2) assms(8) wide_angle [OF far]
    by (auto simp: two_touches_def angles without_def isTwoTouchTimeoutRunning_def stopTwoTouchTimeout_def g2_def Let_def)
  have nm: "\<exists>nm. stateToGesture (gh_state g2) = Some nm" "hasDetectedGesture g2"
    by (auto simp: g2_def stateToGesture_def hasDetectedGesture_def)
  have move: "touchMove (t_id p) x y g = seqr (pushEvent ''gesturestart'' g2) (\<lambda>_. pushEvent ''gesturemove'')"
    using hits(1) und assms(7) n two nm(2)
    by (simp add: touchMove_def Let_def p(1,2) far_move_length flip: g1_def)
  obtain nm where nm: "stateToGesture (gh_state g2) = Some nm"
    using nm(1) by blast
  have g2: "tracked g2 \<noteq> []" "gh_target g2" "dispatched g2 = dispatched g"
    using n assms(4) by (auto simp: g2_def g1_def)
  obtain e where e: "pushEvent ''gesturestart'' g2 = ret () (g2\<lparr>dispatched := dispatched g @ [e]\<rparr>)"
    "ge_type e = ''gesturestart''" "ge_gesture e = nm"
    using pushEvent_ret [OF nm g2(1,2)] g2(3) by metis
  obtain e' where e': "pushEvent ''gesturemove'' (g2\<lparr>dispatched := dispatched g @ [e]\<rparr>) = ret () (g2\<lparr>dispatched := dispatched g @ [e, e']\<rparr>)"
    "ge_type e' = ''gesturemove''" "ge_gesture e' = nm"
    using pushEvent_ret [of "g2\<lparr>dispatched := dispatched g @ [e]\<rparr>" nm "''gesturemove''"] nm g2 by auto
  show ?thesis
    using move e e' nm
    by (intro exI [of _ "g2\<lparr>dispatched := dispatched g @ [e, e']\<rparr>"] exI [of _ e] exI [of _ e']) (simp add: g2_def)
qed


text \<open>Two fingers that move away from each other.\<close>

theorem two_fingers_decide_witness:
  "\<exists>g'. touchMove 1 (-60) 0 ((gh_attach new_gestures)\<lparr>gh_state := 102, tracked :=
      [\<lparr>t_id = 1, started = 0, active = True, firstX = 0, firstY = 0, lastX = 0, lastY = 0, angle = 0\<rparr>,
       \<lparr>t_id = 2, started = 0, active = True, firstX = 10, firstY = 0, lastX = 70, lastY = 0, angle = direction 60 0\<rparr>]\<rparr>) = ret () g'
    \<and> gh_state g' = GH_PINCH"
proof -
  let ?p = "\<lparr>t_id = 1, started = 0, active = True, firstX = 0, firstY = 0, lastX = 0, lastY = 0, angle = 0\<rparr> :: touch"
  let ?q = "\<lparr>t_id = 2, started = 0, active = True, firstX = 10, firstY = 0, lastX = 70, lastY = 0, angle = direction 60 0\<rparr> :: touch"
  let ?g = "(gh_attach new_gestures)\<lparr>gh_state := 102, tracked := [?p, ?q]\<rparr>"
  have "tracked ?g = [?p, ?q] \<or> tracked ?g = [?q, ?p]" "t_id ?p \<noteq> t_id ?q" "active ?p" "gh_target ?g"
    "gh_state ?g = 102 \<or> gh_state ?g = 96" "touch_ok ?q"
    "\<not> nearer (-60 - firstX ?p) (0 - firstY ?p) 50" "farther (firstX ?q - lastX ?q) (firstY ?q - lastY ?q) 50"
    by (simp_all add: gh_attach_def touch_ok_def nearer_def farther_def)
  from two_fingers_decide [OF this] show ?thesis
    by auto
qed

end
