(* ===== verification/GestureTaps.thy ===== *)
theory GestureTaps
  imports GestureProps
begin

text \<open>
  Taps with one, two or three fingers: the touches that make one, what is dispatched for it, and
  when it gets lost.
\<close>

section \<open>Taps\<close>

text \<open>Touches that come down one after the other: when, which finger, and where.\<close>

type_synonym tap = "int \<times> int \<times> rat \<times> rat"

definition tap_touch :: "tap \<Rightarrow> touch" where
  "tap_touch p = (case p of (time, i, x, y) \<Rightarrow>
     \<lparr>t_id = i, started = time, active = True, firstX = x, firstY = y, lastX = x, lastY = y, angle = 0\<rparr>)"

definition tap_input :: "touch_type \<Rightarrow> tap \<Rightarrow> gh_input" where
  "tap_input ty p = (case p of (time, c) \<Rightarrow> Touches ty time [c])"

lemma seqr_unit: "seqr m ret = m"
  by (auto simp: seqr_def ret_def split: option.splits sum.splits)

lemma eventHandler_Nil: "eventHandler ty time [] = ret ()"
  by (rule ext) simp

lemma gh_step_tap:
  "gh_step (tap_input TouchStart (time, i, x, y)) g = touchStart time i x y g"
  "gh_step (tap_input TouchEnd (time, i, x, y)) g = touchEnd time i g"
  by (simp_all add: tap_input_def touch_event_def seqr_unit eventHandler_Nil)

text \<open>The state with \<open>n\<close> fingers, before and behind the first release.\<close>

definition pressed :: "nat \<Rightarrow> int" where
  "pressed n = (if n = 2 then 102 else if n = 3 then 4 else 127)"

definition tapping :: "nat \<Rightarrow> int" where
  "tapping n = (if n = 1 then GH_ONETAP else if n = 2 then GH_TWOTAP else GH_THREETAP)"

definition pressing :: "tap list \<Rightarrow> gestures \<Rightarrow> gestures \<Rightarrow> bool" where
  "pressing ps g0 g \<longleftrightarrow> gh_target g \<and> tracked g = map tap_touch ps \<and> ignored g = [] \<and> \<not> waitingRelease g
     \<and> twoTouchTimeoutId g = None \<and> dispatched g = dispatched g0 \<and> gh_state g = pressed (length ps)"

lemma press_one:
  assumes "pressing ps g0 g" "length ps < 3" "ps \<noteq> [] \<Longrightarrow> time - fst (hd ps) \<le> 250"
  shows "\<exists>g'. touchStart time i x y g = ret () g' \<and> pressing (ps @ [(time, i, x, y)]) g0 g'"
proof -
  have hd: "ps \<noteq> [] \<Longrightarrow> started (hd (tracked g)) = fst (hd ps)"
    using assms(1) by (auto simp: pressing_def hd_map tap_touch_def split: prod.split)
  have "gh_state g \<in> {127, 102}"
    using assms(1,2) by (auto simp: pressing_def pressed_def)
  then have "\<not> hasDetectedGesture g" "gh_state g \<noteq> 0"
    by (auto simp: hasDetectedGesture_def)
  then show ?thesis
    using assms hd
    by (auto simp: touchStart_def Let_def pressing_def tap_touch_def pressed_def startLongpressTimeout_def stopLongpressTimeout_def
        without_def numeral_2_eq_2 numeral_3_eq_3 less_Suc_eq)
qed

lemma press_all:
  "pressing ps g0 g \<Longrightarrow> length (ps @ qs) \<le> 3 \<Longrightarrow> \<forall>q\<in>set qs. fst q - fst (hd (ps @ qs)) \<le> 250 \<Longrightarrow>
   \<exists>g'. gh_run (map (tap_input TouchStart) qs) g = ret () g' \<and> pressing (ps @ qs) g0 g'"
proof (induction qs arbitrary: ps g)
  case (Cons q qs)
  obtain time i x y where q: "q = (time, i, x, y)"
    by (cases q)
  have "ps \<noteq> [] \<Longrightarrow> time - fst (hd ps) \<le> 250"
    using Cons.prems(3) q by simp
  then obtain g1 where g1: "touchStart time i x y g = ret () g1" "pressing (ps @ [q]) g0 g1"
    using press_one [OF Cons.prems(1), of time i x y] Cons.prems(2) q by auto
  then show ?case
    using Cons.IH [OF g1(2)] Cons.prems(2,3) q by (simp add: gh_step_tap)
qed simp


definition tap_name :: "nat \<Rightarrow> string" where
  "tap_name n = (if n = 1 then ''onetap'' else if n = 2 then ''twotap'' else ''threetap'')"

definition tap_event :: "string \<Rightarrow> rat list \<Rightarrow> rat list \<Rightarrow> gesture_ev" where
  "tap_event ty xs ys = \<lparr>ge_type = ty, ge_gesture = tap_name (length xs), ge_clientX = average xs, ge_clientY = average ys,
     ge_magnitudeX = 0, ge_magnitudeY = 0\<rparr>"

definition at_rest :: "gestures \<Rightarrow> bool" where
  "at_rest g \<longleftrightarrow> gh_target g \<and> tracked g = [] \<and> ignored g = [] \<and> \<not> waitingRelease g \<and> gh_state g = 127
     \<and> twoTouchTimeoutId g = None"

text \<open>Fingers on the same spot since they came down, and what is left after one is lifted.\<close>

definition still_touches :: "touch list \<Rightarrow> bool" where
  "still_touches ts \<longleftrightarrow> distinct (map t_id ts) \<and> ts \<noteq> [] \<and> length ts \<le> 3
     \<and> list_all (\<lambda>t. lastX t = firstX t \<and> lastY t = firstY t) ts"

abbreviation lifted :: "int \<Rightarrow> touch list \<Rightarrow> touch list" where
  "lifted i \<equiv> upd_touch i (\<lambda>t. t\<lparr>active := False\<rparr>)"

lemma lifted_keeps:
  "map firstX (lifted i ts) = map firstX ts" "map firstY (lifted i ts) = map firstY ts"
  "map lastX (lifted i ts) = map lastX ts" "map lastY (lifted i ts) = map lastY ts"
  "map started (lifted i ts) = map started ts" "map t_id (lifted i ts) = map t_id ts"
  "length (lifted i ts) = length ts" "lifted i ts = [] \<longleftrightarrow> ts = []"
  by (induction ts) auto

lemma lifted_still: "still_touches ts \<Longrightarrow> still_touches (lifted i ts)"
proof -
  have "list_all (\<lambda>t. lastX t = firstX t \<and> lastY t = firstY t) (lifted i ts)"
    if "list_all (\<lambda>t. lastX t = firstX t \<and> lastY t = firstY t) ts"
    using that by (induction ts) auto
  then show "still_touches ts \<Longrightarrow> still_touches (lifted i ts)"
    by (simp add: still_touches_def lifted_keeps)
qed

lemma still_touchesD:
  assumes "still_touches ts"
  shows "length ts = 1 \<or> length ts = 2 \<or> length ts = 3" "ts \<noteq> []" "distinct (map t_id ts)"
    "map lastX ts = map firstX ts" "map lastY ts = map firstY ts"
proof -
  have "length ts \<noteq> 0" "length ts \<le> 3"
    using assms by (simp_all add: still_touches_def)
  then show "length ts = 1 \<or> length ts = 2 \<or> length ts = 3"
    by linarith
  show "ts \<noteq> []" "distinct (map t_id ts)" "map lastX ts = map firstX ts" "map lastY ts = map firstY ts"
    using assms by (simp_all add: still_touches_def list_all_iff)
qed

lemma tap_push:
  assumes "still_touches ts" "tracked g = ts" "gh_target g" "gh_state g = tapping (length ts)"
    "ty = ''gesturestart'' \<or> ty = ''gestureend''"
  shows "pushEvent ty g = ret () (g\<lparr>dispatched := dispatched g @ [tap_event ty (map firstX ts) (map firstY ts)]\<rparr>)"
proof -
  note ts = still_touchesD [OF assms(1)]
  have st: "stateToGesture (gh_state g) = Some (tap_name (length ts))" "gh_state g \<noteq> 32" "gh_state g \<noteq> 64"
    using ts(1) assms(4) by (auto simp: stateToGesture_def tapping_def tap_name_def)
  have "getPosition ts = Some ((average (map firstX ts), average (map firstY ts)), (average (map firstX ts), average (map firstY ts)))"
    by (simp add: getPosition_def ts)
  then show ?thesis
    using assms(2,3,5) st by (simp add: pushEvent_def magnitudes_def tap_event_def)
qed

lemma release_one:
  assumes ts: "still_touches ts" "tracked g = ts" and i: "i \<in> set (active_ids ts)"
    and g: "gh_target g" "ignored g = []" "twoTouchTimeoutId g = None"
    and times: "\<forall>t\<in>set ts. time - started t \<le> 1000" "waitingRelease g \<longrightarrow> time - releaseStart g \<le> 250"
    and s: "gh_state g = (if waitingRelease g then tapping (length ts) else pressed (length ts))"
  shows "\<exists>g'. touchEnd time i g = ret () g' \<and>
    (if active_ids (lifted i ts) = [] then
       at_rest g' \<and> dispatched g' = dispatched g @ [tap_event ''gesturestart'' (map firstX ts) (map firstY ts),
         tap_event ''gestureend'' (map firstX ts) (map firstY ts)]
     else tracked g' = lifted i ts \<and> gh_target g' \<and> ignored g' = [] \<and> twoTouchTimeoutId g' = None \<and> waitingRelease g'
       \<and> releaseStart g' = (if waitingRelease g then releaseStart g else time) \<and> gh_state g' = tapping (length ts)
       \<and> dispatched g' = dispatched g)"
proof -
  have n: "length ts = 1 \<or> length ts = 2 \<or> length ts = 3" "ts \<noteq> []" "distinct (map t_id ts)"
    using still_touchesD [OF ts(1)] by simp_all
  have act: "list_ex active ts"
    using i unfolding active_ids_ex by auto
  have "gh_state g \<in> {1, 2, 4, 102, 127}"
    using s n(1) by (auto simp: tapping_def pressed_def)
  then have und: "\<not> hasDetectedGesture g"
    using act ts(2) by (auto simp: hasDetectedGesture_def)
  have g1: "end_before_timer g = g"
    using g(3) by (simp add: end_before_timer_def isTwoTouchTimeoutRunning_def)
  define g2 where "g2 = first_release time g"
  have g2: "g2 = g\<lparr>gh_state := tapping (length ts), longpressTimeoutId := None, waitingRelease := True,
      releaseStart := (if waitingRelease g then releaseStart g else time)\<rparr>"
    using und s ts(2) n(1)
    by (cases "waitingRelease g"; elim disjE)
      (simp_all add: g2_def first_release_def without_def stopLongpressTimeout_def Let_def tapping_def pressed_def)
  define g3 where "g3 = g2\<lparr>tracked := lifted i ts\<rparr>"
  have "List.find (\<lambda>t. t_id t = i) ts \<noteq> None"
    using i by (auto simp: active_ids_def find_None_iff)
  then obtain t where t: "List.find (\<lambda>t. t_id t = i) ts = Some t"
    by blast
  have late: "\<not> list_ex (\<lambda>t. time - started t > GH_TAP_TIMEOUT) ts"
    using times(1) by (auto simp: list_ex_iff not_less)
  have early: "\<not> time - releaseStart g2 > GH_MULTITOUCH_TIMEOUT"
    using times(2) by (auto simp: g2)
  have sel: "waitingRelease g2" "tracked g2 = ts" "gh_state g2 = tapping (length ts)"
    using ts(2) by (simp_all add: g2)
  have tap: "tapping (length ts) \<noteq> 0" "tapping (length ts) AND (tapping (length ts) - 1) = 0"
    "tapping (length ts) AND (GH_ONETAP OR GH_TWOTAP OR GH_THREETAP) \<noteq> 0"
    using n(1) by (auto simp: tapping_def)
  have det: "hasDetectedGesture g3 \<longleftrightarrow> active_ids (lifted i ts) = []"
    using tap by (simp add: hasDetectedGesture_def g3_def sel active_ids_ex)
  have w: "wait_release time i g2 = (if hasDetectedGesture g3 then seqr (pushEvent ''gesturestart'' g3) (\<lambda>_. ret True) else ret False g3)"
    using t late early sel tap(1) by (simp add: wait_release_def g3_def)
  have e: "touchEnd time i g = seqr (wait_release time i g2) (\<lambda>more g.
          if \<not> more then ret () g
          else seqr (if hasDetectedGesture g then pushEvent ''gestureend'' g else ret () g) (\<lambda>_ g. ret () (forget_touches i g)))"
    using g(2) by (simp add: touchEnd_def g1 flip: g2_def)
  show ?thesis
  proof (cases "active_ids (lifted i ts) = []")
    case False
    then show ?thesis
      using e w det g by (simp add: g3_def g2)
  next
    case True
    have g3: "tracked g3 = lifted i ts" "gh_target g3" "gh_state g3 = tapping (length (lifted i ts))"
      "dispatched g3 = dispatched g" "ignored g3 = []" "twoTouchTimeoutId g3 = None"
      using g by (simp_all add: g3_def g2 lifted_keeps)
    note st = lifted_still [OF ts(1), of i]
    let ?e = "\<lambda>ty. tap_event ty (map firstX ts) (map firstY ts)"
    have p: "pushEvent ''gesturestart'' g3 = ret () (g3\<lparr>dispatched := dispatched g @ [?e ''gesturestart'']\<rparr>)"
      using tap_push [OF st g3(1-3), of "''gesturestart''"] g3(4) by (simp add: lifted_keeps)
    have q: "pushEvent ''gestureend'' (g3\<lparr>dispatched := dispatched g @ [?e ''gesturestart'']\<rparr>) =
        ret () (g3\<lparr>dispatched := dispatched g @ [?e ''gesturestart'', ?e ''gestureend'']\<rparr>)"
      using tap_push [OF st, of "g3\<lparr>dispatched := dispatched g @ [?e ''gesturestart'']\<rparr>" "''gestureend''"] g3
      by (simp add: lifted_keeps)
    have d: "hasDetectedGesture (g3\<lparr>dispatched := es\<rparr>) = hasDetectedGesture g3" for es
      by (simp add: hasDetectedGesture_def)
    have "filter active (lifted i ts) = []"
      using True unfolding active_ids_def by simp
    then have f: "forget_touches i (g3\<lparr>dispatched := es\<rparr>) =
        g3\<lparr>dispatched := es, tracked := [], ignored := [], gh_state := 127, waitingRelease := False\<rparr>" for es
      using g3(1,5) by (cases g3) (simp add: forget_touches_def gh_reset_def Let_def)
    show ?thesis
      using e w det p q d f True g3(2,6) by (simp add: at_rest_def)
  qed
qed

lemma release_rest:
  "still_touches ts \<Longrightarrow> tracked g = ts \<Longrightarrow> gh_target g \<Longrightarrow> ignored g = [] \<Longrightarrow> twoTouchTimeoutId g = None \<Longrightarrow>
   waitingRelease g \<Longrightarrow> gh_state g = tapping (length ts) \<Longrightarrow> qs \<noteq> [] \<Longrightarrow> distinct (map (fst \<circ> snd) qs) \<Longrightarrow>
   set (map (fst \<circ> snd) qs) = set (active_ids ts) \<Longrightarrow>
   \<forall>q\<in>set qs. fst q - releaseStart g \<le> 250 \<and> (\<forall>t\<in>set ts. fst q - started t \<le> 1000) \<Longrightarrow>
   \<exists>g'. gh_run (map (tap_input TouchEnd) qs) g = ret () g' \<and> at_rest g'
     \<and> dispatched g' = dispatched g @ [tap_event ''gesturestart'' (map firstX ts) (map firstY ts),
         tap_event ''gestureend'' (map firstX ts) (map firstY ts)]"
proof (induction qs arbitrary: ts g)
  case (Cons q qs)
  obtain time i x y where q: "q = (time, i, x, y)"
    by (cases q)
  have d: "distinct (map t_id ts)"
    using Cons.prems(1) by (simp add: still_touches_def)
  obtain g1 where g1: "touchEnd time i g = ret () g1"
    "if active_ids (lifted i ts) = [] then
       at_rest g1 \<and> dispatched g1 = dispatched g @ [tap_event ''gesturestart'' (map firstX ts) (map firstY ts),
         tap_event ''gestureend'' (map firstX ts) (map firstY ts)]
     else tracked g1 = lifted i ts \<and> gh_target g1 \<and> ignored g1 = [] \<and> twoTouchTimeoutId g1 = None \<and> waitingRelease g1
       \<and> releaseStart g1 = releaseStart g \<and> gh_state g1 = tapping (length ts) \<and> dispatched g1 = dispatched g"
  proof -
    have "i \<in> set (active_ids ts)" "\<forall>t\<in>set ts. time - started t \<le> 1000" "waitingRelease g \<longrightarrow> time - releaseStart g \<le> 250"
      "gh_state g = (if waitingRelease g then tapping (length ts) else pressed (length ts))"
      using Cons.prems(6,7,10,11) q by auto
    from release_one [OF Cons.prems(1,2) this(1) Cons.prems(3-5) this(2-4)] show ?thesis
      using that Cons.prems(6) by auto
  qed
  have ids: "active_ids (lifted i ts) = removeAll i (active_ids ts)"
    using release_ids [OF d] .
  then have left: "set (map (fst \<circ> snd) qs) = set (active_ids (lifted i ts))"
    using Cons.prems(9,10) q by auto
  show ?case
  proof (cases "qs = []")
    case True
    then have "active_ids (lifted i ts) = []"
      using left by simp
    then show ?thesis
      using g1 True q by (simp add: gh_step_tap)
  next
    case False
    then have "active_ids (lifted i ts) \<noteq> []"
      using left by auto
    have "\<forall>t\<in>set (lifted i ts). started t \<in> set (map started ts)"
      using arg_cong [OF lifted_keeps(5) [of i ts], of set] by auto
    then have "\<forall>t\<in>set (lifted i ts). \<exists>t'\<in>set ts. started t = started t'"
      by auto
    then have times: "\<forall>q\<in>set qs. \<forall>t\<in>set (lifted i ts). fst q - started t \<le> 1000"
      using Cons.prems(11) by (metis list.set_intros(2))
    have "\<exists>g'. gh_run (map (tap_input TouchEnd) qs) g1 = ret () g' \<and> at_rest g'
     \<and> dispatched g' = dispatched g1 @ [tap_event ''gesturestart'' (map firstX (lifted i ts)) (map firstY (lifted i ts)),
         tap_event ''gestureend'' (map firstX (lifted i ts)) (map firstY (lifted i ts))]"
      using Cons.prems(9,11) q g1(2) left False times \<open>active_ids (lifted i ts) \<noteq> []\<close>
      by (intro Cons.IH [of "lifted i ts"] lifted_still [OF Cons.prems(1)]) (auto simp: lifted_keeps)
    moreover have "dispatched g1 = dispatched g"
      using g1(2) \<open>active_ids (lifted i ts) \<noteq> []\<close> by simp
    ultimately show ?thesis
      using g1(1) q by (simp add: gh_step_tap lifted_keeps)
  qed
qed simp


lemma gh_run_append: "gh_run (es @ es') g = seqr (gh_run es g) (\<lambda>_. gh_run es')"
proof (induction es arbitrary: g)
  case (Cons e es)
  then have "gh_run (es @ es') = (\<lambda>g. seqr (gh_run es g) (\<lambda>_. gh_run es'))"
    by blast
  then show ?case
    by (simp add: seqr_assoc)
qed simp

lemma pressed_still:
  assumes "ps \<noteq> []" "length ps \<le> 3" "distinct (map (fst \<circ> snd) ps)"
  shows "still_touches (map tap_touch ps)"
    "active_ids (map tap_touch ps) = map (fst \<circ> snd) ps"
    "map firstX (map tap_touch ps) = map (fst \<circ> snd \<circ> snd) ps" "map firstY (map tap_touch ps) = map (snd \<circ> snd \<circ> snd) ps"
    "map started (map tap_touch ps) = map fst ps"
proof -
  have ids: "map t_id (map tap_touch ps) = map (fst \<circ> snd) ps"
    by (auto simp: tap_touch_def)
  then show "still_touches (map tap_touch ps)"
    using assms by (auto simp: still_touches_def list_all_iff tap_touch_def simp del: map_map)
  have "list_all active (map tap_touch ps)"
    by (auto simp: list_all_iff tap_touch_def)
  then show "active_ids (map tap_touch ps) = map (fst \<circ> snd) ps"
    using ids active_ids_all by metis
qed (auto simp: tap_touch_def)

text \<open>C30. A tap with one, two or three fingers is recognised: when they come down within 250 ms of the
first, do not move, and are lifted in any order within 250 ms of the first that is lifted and 1000 ms
after they came down, then exactly a start and an end of that tap are dispatched, both in the middle
of the places touched, and the object is as before the tap.

The handler is at rest before the tap (\<open>at_rest\<close>): it listens, no finger is down or ignored, it does
not wait for release, every gesture is still possible, and the handle of the timer for two fingers is
null.  The last holds from \<open>attach\<close> on until a gesture has been decided by that timer, which leaves
the handle behind (gesturehandler.js:408): the tap that follows is lost (\<open>tap_after_pinch_is_lost\<close>).
\<close>

theorem taps_are_recognised:
  assumes "at_rest g" "ps \<noteq> []" "length ps \<le> 3" "distinct (map (fst \<circ> snd) ps)"
    "distinct (map (fst \<circ> snd) qs)" "set (map (fst \<circ> snd) qs) = set (map (fst \<circ> snd) ps)"
    "\<forall>p\<in>set ps. fst p - fst (hd ps) \<le> 250"
    "\<forall>q\<in>set qs. fst q - fst (hd qs) \<le> 250 \<and> (\<forall>p\<in>set ps. fst q - fst p \<le> 1000)"
  shows "\<exists>g'. gh_run (map (tap_input TouchStart) ps @ map (tap_input TouchEnd) qs) g = ret () g' \<and> at_rest g'
    \<and> dispatched g' = dispatched g @
        (let xs = map (fst \<circ> snd \<circ> snd) ps; ys = map (snd \<circ> snd \<circ> snd) ps
         in [tap_event ''gesturestart'' xs ys, tap_event ''gestureend'' xs ys])"
proof -
  let ?ts = "map tap_touch ps"
  note still = pressed_still [OF assms(2-4)]
  let ?es = "[tap_event ''gesturestart'' (map firstX ?ts) (map firstY ?ts), tap_event ''gestureend'' (map firstX ?ts) (map firstY ?ts)]"
  have "pressing [] g g"
    using assms(1) by (simp add: at_rest_def pressing_def pressed_def)
  then obtain g1 where g1: "gh_run (map (tap_input TouchStart) ps) g = ret () g1" "pressing ps g g1"
    using press_all [of "[]" g g ps] assms(3,7) by auto
  obtain q qs' where qs: "qs = q # qs'"
    using assms(2,6) by (cases qs) auto
  obtain time i x y where q: "q = (time, i, x, y)"
    by (cases q)
  have i: "i \<in> set (active_ids ?ts)"
    using assms(6) qs q unfolding still(2) by auto
  have start: "started t \<in> fst ` set ps" if "t \<in> set ?ts" for t
    using that arg_cong [OF still(5), of set] by (metis image_eqI list.set_map)
  have times: "\<forall>q\<in>set qs. \<forall>t\<in>set ?ts. fst q - started t \<le> 1000"
    using assms(8) start by fastforce
  have p1: "tracked g1 = ?ts" "gh_target g1" "ignored g1 = []" "twoTouchTimeoutId g1 = None" "\<not> waitingRelease g1"
    "gh_state g1 = pressed (length ?ts)" "dispatched g1 = dispatched g"
    using g1(2) by (simp_all add: pressing_def)
  have "\<forall>t\<in>set ?ts. time - started t \<le> 1000" "waitingRelease g1 \<longrightarrow> time - releaseStart g1 \<le> 250"
    "gh_state g1 = (if waitingRelease g1 then tapping (length ?ts) else pressed (length ?ts))"
    using times qs q p1(5,6) by auto
  from release_one [OF still(1) p1(1) i p1(2-4) this] obtain g2 where g2: "touchEnd time i g1 = ret () g2"
    "if active_ids (lifted i ?ts) = [] then at_rest g2 \<and> dispatched g2 = dispatched g1 @ ?es
     else tracked g2 = lifted i ?ts \<and> gh_target g2 \<and> ignored g2 = [] \<and> twoTouchTimeoutId g2 = None \<and> waitingRelease g2
       \<and> releaseStart g2 = time \<and> gh_state g2 = tapping (length ?ts) \<and> dispatched g2 = dispatched g1"
    using p1(5) by auto
  have left: "set (map (fst \<circ> snd) qs') = set (active_ids (lifted i ?ts))"
    using assms(5,6) qs q release_ids [OF still_touchesD(3) [OF still(1)], of i] unfolding still(2) by auto
  have "\<exists>g'. gh_run (map (tap_input TouchEnd) qs) g1 = ret () g' \<and> at_rest g' \<and> dispatched g' = dispatched g @ ?es"
  proof (cases "qs' = []")
    case True
    then have "active_ids (lifted i ?ts) = []"
      using left by simp
    then show ?thesis
      using g2 p1(7) qs q True by (simp add: gh_step_tap del: map_map)
  next
    case False
    then have more: "active_ids (lifted i ?ts) \<noteq> []"
      using left by auto
    have "\<forall>q\<in>set qs'. \<forall>t\<in>set (lifted i ?ts). fst q - started t \<le> 1000"
    proof -
      have "\<forall>t\<in>set (lifted i ?ts). started t \<in> started ` set ?ts"
        using arg_cong [OF lifted_keeps(5) [of i ?ts], of set] by (metis image_eqI list.set_map)
      then show ?thesis
        using times qs by fastforce
    qed
    then have "\<exists>g'. gh_run (map (tap_input TouchEnd) qs') g2 = ret () g' \<and> at_rest g'
       \<and> dispatched g' = dispatched g2 @ [tap_event ''gesturestart'' (map firstX (lifted i ?ts)) (map firstY (lifted i ?ts)),
         tap_event ''gestureend'' (map firstX (lifted i ?ts)) (map firstY (lifted i ?ts))]"
      using g2(2) more left assms(5,8) qs q False
      by (intro release_rest [OF lifted_still [OF still(1), of i]]) (auto simp: lifted_keeps simp del: map_map)
    moreover have "dispatched g2 = dispatched g"
      using g2(2) more p1(7) by simp
    ultimately show ?thesis
      using g2(1) qs q by (simp add: gh_step_tap lifted_keeps del: map_map)
  qed
  then show ?thesis
    using g1(1) unfolding gh_run_append still(3,4) by (simp add: Let_def)
qed

text \<open>Two fingers, the second comes down later and is lifted first.\<close>

theorem taps_are_recognised_witness:
  "\<exists>g'. gh_run (map (tap_input TouchStart) [(0, 1, 10, 20), (100, 2, 30, 40)] @ map (tap_input TouchEnd) [(200, 2, 30, 40), (250, 1, 10, 20)])
      (gh_attach new_gestures) = ret () g'
    \<and> map (\<lambda>e. (ge_type e, ge_gesture e, ge_clientX e, ge_clientY e)) (dispatched g') =
      [(''gesturestart'', ''twotap'', 20, 30), (''gestureend'', ''twotap'', 20, 30)]"
proof -
  let ?ps = "[(0, 1, 10, 20), (100, 2, 30, 40)] :: tap list" and ?qs = "[(200, 2, 30, 40), (250, 1, 10, 20)] :: tap list"
  have "at_rest (gh_attach new_gestures)"
    by (simp add: at_rest_def gh_attach_def gh_detach_def new_gestures_def)
  moreover have "set (map (fst \<circ> snd) ?qs) = set (map (fst \<circ> snd) ?ps)"
    by auto
  ultimately obtain g' where "gh_run (map (tap_input TouchStart) ?ps @ map (tap_input TouchEnd) ?qs) (gh_attach new_gestures) = ret () g'"
    "dispatched g' = dispatched (gh_attach new_gestures) @ [tap_event ''gesturestart'' [10, 30] [20, 40], tap_event ''gestureend'' [10, 30] [20, 40]]"
    using taps_are_recognised [of "gh_attach new_gestures" ?ps ?qs] by (auto simp: Let_def)
  then show ?thesis
    by (intro exI [of _ g']) (simp add: Let_def tap_event_def tap_name_def average_def gh_attach_def gh_detach_def new_gestures_def)
qed


section \<open>Timers that outlive their reason\<close>

lemma hypot_60 [simp]: "hypot 60 0 = 60" "hypot 0 0 = 0"
  by (simp_all add: hypot_def)

abbreviation sequence_of :: "gestures \<Rightarrow> (string \<times> string) list" where
  "sequence_of g \<equiv> map (\<lambda>e. (ge_type e, ge_gesture e)) (dispatched g)"

text \<open>The handle of the timer for two fingers is not set back to \<open>null\<close> when the timer fires.  Behind
  a gesture that was decided by the timer, the next tap is taken for one that ends before the timer.\<close>

lemma tap_after_pinch_is_lost:
  assumes "at_rest (g\<lparr>twoTouchTimeoutId := None\<rparr>)" "twoTouchTimeoutId g = Some False"
  shows "\<exists>g'. gh_run [Touches TouchStart t [(i, x, y)], Touches TouchEnd t' [(i, x, y)]] g = ret () g'
    \<and> dispatched g' = dispatched g"
  using assms by (cases "GH_TAP_TIMEOUT < t' - t") (simp_all add: at_rest_def gh_defs Let_def)

lemma pinch_leaves_handle:
  "\<exists>g. gh_run [Touches TouchStart 0 [(1, 0, 0), (2, 0, 0)], Touches TouchMove 10 [(1, 60, 0)], TwoTouchFires,
      Touches TouchEnd 100 [(1, 60, 0), (2, 0, 0)]] (gh_attach new_gestures) = ret () g
    \<and> at_rest (g\<lparr>twoTouchTimeoutId := None\<rparr>) \<and> twoTouchTimeoutId g = Some False
    \<and> sequence_of g = [(''gesturestart'', ''pinch''), (''gesturemove'', ''pinch''), (''gestureend'', ''pinch'')]"
  by (simp add: at_rest_def gh_defs)

text \<open>A finger that moves after another was lifted arms the timer, too; the gesture that begins then
  begins a second time when the finger is lifted.\<close>

lemma lifted_finger_begins_twice:
  "\<exists>g. gh_run [Touches TouchStart 0 [(1, 0, 0), (2, 0, 0)], Touches TouchEnd 10 [(2, 0, 0)], Touches TouchMove 20 [(1, 60, 0)],
      TwoTouchFires, Touches TouchEnd 100 [(1, 60, 0)]] (gh_attach new_gestures) = ret () g
    \<and> sequence_of g = [(''gesturestart'', ''pinch''), (''gesturemove'', ''pinch''),
        (''gesturestart'', ''pinch''), (''gestureend'', ''pinch'')]"
  by (simp add: gh_defs)

text \<open>A gesture that was ruled out, by a third finger or by one that came too late, begins all the
  same when a timer fires that was not stopped.\<close>

lemma third_finger_pinches:
  "\<exists>g. gh_run [Touches TouchStart 0 [(1, 0, 0), (2, 0, 0)], Touches TouchMove 10 [(1, 60, 0)], Touches TouchStart 20 [(3, 0, 0)]]
      (gh_attach new_gestures) = ret () g \<and> gh_state g = GH_NOGESTURE
    \<and> (\<exists>g'. gh_step TwoTouchFires g = ret () g' \<and> sequence_of g' = [(''gesturestart'', ''pinch''), (''gesturemove'', ''pinch'')])"
  by (simp add: gh_defs)

lemma late_finger_long_press:
  "\<exists>g. gh_run [Touches TouchStart 0 [(1, 0, 0)], Touches TouchStart 300 [(2, 0, 0)]] (gh_attach new_gestures) = ret () g
    \<and> gh_state g = GH_NOGESTURE
    \<and> (\<exists>g'. gh_step LongpressFires g = ret () g' \<and> sequence_of g' = [(''gesturestart'', ''longpress'')])"
  by (simp add: gh_defs)

end
