(* ===== verification/Aes.thy ===== *)
theory Aes
  imports JsBase
begin

text \<open>
  Model of the class \<open>AESEAXCipher\<close> of \<open>core/crypto/aes.js\<close>: authenticated encryption (EAX) put
  together from the two modes of AES that the browser offers.

  The browser's \<open>subtle.encrypt\<close> and \<open>subtle.decrypt\<close> are the parameter \<open>subtle\<close>, functions of the
  raw key.  What is documented of them is \<open>is_cbc\<close> (cipher block chaining over a block cipher, with
  PKCS 7 padding) and \<open>is_ctr\<close> (decrypting inverts encrypting, and keeps the length).
\<close>

section \<open>The cipher\<close>

record subtle =
  cbc_encrypt :: "byte list \<Rightarrow> byte list \<Rightarrow> byte list \<Rightarrow> byte list"
  ctr_encrypt :: "byte list \<Rightarrow> byte list \<Rightarrow> byte list \<Rightarrow> byte list"
  ctr_decrypt :: "byte list \<Rightarrow> byte list \<Rightarrow> byte list \<Rightarrow> byte list"

record eax =
  rawKey :: "byte list"
  eax_k1 :: "byte list"
  eax_k2 :: "byte list"

text \<open>\<open>slice\<close> counts a negative index from the end; \<open>set\<close> stores an array at an offset; a read
  outside an array is 0 to the operator \<open>^\<close>.\<close>

definition js_slice :: "int \<Rightarrow> int \<Rightarrow> 'a list \<Rightarrow> 'a list" where
  "js_slice a b xs =
     (let n = int (length xs);
          clip = (\<lambda>i. if i < 0 then max (n + i) 0 else min i n)
      in take (nat (clip b - clip a)) (drop (nat (clip a)) xs))"

definition u8_set :: "nat \<Rightarrow> byte list \<Rightarrow> byte list \<Rightarrow> byte list" where
  "u8_set off src arr = take off arr @ src @ drop (off + length src) arr"

definition u8_get :: "byte list \<Rightarrow> nat \<Rightarrow> byte" where
  "u8_get xs i = (if i < length xs then xs ! i else 0)"

definition zeroBlock :: "byte list" where
  "zeroBlock = replicate 16 0"

definition prefixBlock0 :: "byte list" where
  "prefixBlock0 = zeroBlock"

definition prefixBlock1 :: "byte list" where
  "prefixBlock1 = [0, 0, 0, 0, 0, 0, 0, 0, 0, 0, 0, 0, 0, 0, 0, 1]"

definition prefixBlock2 :: "byte list" where
  "prefixBlock2 = [0, 0, 0, 0, 0, 0, 0, 0, 0, 0, 0, 0, 0, 0, 0, 2]"

definition encryptBlock :: "subtle \<Rightarrow> byte list \<Rightarrow> byte list \<Rightarrow> byte list" where
  "encryptBlock sub key block = js_slice 0 16 (cbc_encrypt sub key zeroBlock block)"

text \<open>One pass of the loop of \<open>_initCMAC\<close>, on both arrays.\<close>

definition cmac_pass :: "byte list \<times> byte list \<Rightarrow> nat \<Rightarrow> byte list \<times> byte list" where
  "cmac_pass = (\<lambda>(k1, k2) i.
     (k1[i := drop_bit 7 (k1 ! (i + 1)) OR push_bit 1 (k1 ! i)],
      k2[i := drop_bit 6 (k1 ! (i + 1)) OR push_bit 2 (k1 ! i)]))"

definition cmac_keys :: "byte list \<Rightarrow> byte list \<times> byte list" where
  "cmac_keys k1 =
     (let v = unat (drop_bit 6 (k1 ! 0));
          (k1, k2) = foldl cmac_pass (k1, replicate 16 0) [0..<15];
          lut = [0x0, 0x87, 0x0e, 0x89];
          k2 = k2[14 := k2 ! 14 XOR u8n (drop_bit 1 v)];
          k2 = k2[15 := push_bit 2 (k1 ! 15) XOR lut ! v];
          k1 = k1[15 := push_bit 1 (k1 ! 15) XOR lut ! drop_bit 1 v]
      in (k1, k2))"

definition initCMAC :: "subtle \<Rightarrow> byte list \<Rightarrow> byte list \<times> byte list" where
  "initCMAC sub key = cmac_keys (encryptBlock sub key zeroBlock)"

definition eax_importKey :: "subtle \<Rightarrow> byte list \<Rightarrow> eax" where
  "eax_importKey sub key =
     (let (k1, k2) = initCMAC sub key in \<lparr>rawKey = key, eax_k1 = k1, eax_k2 = k2\<rparr>)"

definition xor_at :: "nat \<Rightarrow> byte list \<Rightarrow> byte list \<Rightarrow> byte list" where
  "xor_at off k arr = foldl (\<lambda>a i. a[off + i := a ! (off + i) XOR u8_get k i]) arr [0..<16]"

definition computeCMAC :: "subtle \<Rightarrow> eax \<Rightarrow> byte list \<Rightarrow> byte list \<Rightarrow> byte list option" where
  "computeCMAC sub c data prefixBlock =
     (if length prefixBlock \<noteq> 16 then None
      else
        let n = length data div 16;
            m = (length data + 15) div 16;
            r = length data - n * 16;
            cbcData = u8_set 16 data (u8_set 0 prefixBlock (replicate ((m + 1) * 16) 0));
            cbcData = (if r = 0 then xor_at (n * 16) (eax_k1 c) cbcData
                       else xor_at ((n + 1) * 16) (eax_k2 c) (cbcData[(n + 1) * 16 + r := 0x80]));
            cbcEncrypted = cbc_encrypt sub (rawKey c) zeroBlock cbcData;
            len = int (length cbcEncrypted)
        in Some (js_slice (len - 32) (len - 16) cbcEncrypted))"

text \<open>The last loop over the three codes: \<open>mac[i] ^= nCMAC[i] ^ adCMAC[i]\<close>.\<close>

definition join_macs :: "byte list \<Rightarrow> byte list \<Rightarrow> byte list \<Rightarrow> byte list" where
  "join_macs mac nCMAC adCMAC =
     map (\<lambda>i. if i < 16 then mac ! i XOR (u8_get nCMAC i XOR u8_get adCMAC i) else mac ! i)
       [0..<length mac]"

definition eax_encrypt :: "subtle \<Rightarrow> eax \<Rightarrow> byte list \<Rightarrow> byte list \<Rightarrow> byte list \<Rightarrow> js_error + byte list" where
  "eax_encrypt sub c nonce ad message =
     (case computeCMAC sub c nonce prefixBlock0 of None \<Rightarrow> Inl NullError
      | Some nCMAC \<Rightarrow>
          let encrypted = ctr_encrypt sub (rawKey c) nCMAC message
          in case (computeCMAC sub c ad prefixBlock1, computeCMAC sub c encrypted prefixBlock2) of
               (Some adCMAC, Some mac) \<Rightarrow>
                 let mac = join_macs mac nCMAC adCMAC
                 in if length mac > 16 then Inl RangeError
                    else Inr (u8_set (length encrypted) mac
                                (u8_set 0 encrypted (replicate (16 + length encrypted) 0)))
             | _ \<Rightarrow> Inl NullError)"

definition eax_decrypt ::
    "subtle \<Rightarrow> eax \<Rightarrow> byte list \<Rightarrow> byte list \<Rightarrow> byte list \<Rightarrow> js_error + byte list option" where
  "eax_decrypt sub c nonce ad data =
     (let len = int (length data);
          encrypted = js_slice 0 (len - 16) data;
          mac = js_slice (len - 16) len data
      in case (computeCMAC sub c nonce prefixBlock0, computeCMAC sub c ad prefixBlock1,
               computeCMAC sub c encrypted prefixBlock2) of
           (Some nCMAC, Some adCMAC, Some computedMac) \<Rightarrow>
             let computedMac = join_macs computedMac nCMAC adCMAC
             in if length computedMac \<noteq> length mac then Inr None
                else if \<exists>i \<in> {0..<length mac}. computedMac ! i \<noteq> mac ! i then Inr None
                else Inr (Some (ctr_decrypt sub (rawKey c) nCMAC encrypted))
         | _ \<Rightarrow> Inl NullError)"

section \<open>What the browser documents\<close>

definition xorb :: "byte list \<Rightarrow> byte list \<Rightarrow> byte list" where
  "xorb xs ys = map2 (XOR) xs ys"

fun chain_blocks :: "(byte list \<Rightarrow> byte list) \<Rightarrow> byte list \<Rightarrow> nat \<Rightarrow> byte list \<Rightarrow> byte list" where
  "chain_blocks E c 0 d = []"
| "chain_blocks E c (Suc n) d =
     (let y = E (xorb c (take 16 d)) in y @ chain_blocks E y n (drop 16 d))"

definition pkcs7 :: "byte list \<Rightarrow> byte list" where
  "pkcs7 d = (let p = 16 - length d mod 16 in d @ replicate p (u8n p))"

definition cbc_pkcs7 :: "(byte list \<Rightarrow> byte list) \<Rightarrow> byte list \<Rightarrow> byte list \<Rightarrow> byte list" where
  "cbc_pkcs7 E iv d = chain_blocks E iv (length (pkcs7 d) div 16) (pkcs7 d)"

text \<open>\<open>E\<close> is the block cipher under the key.\<close>

definition is_cbc :: "subtle \<Rightarrow> byte list \<Rightarrow> (byte list \<Rightarrow> byte list) \<Rightarrow> bool" where
  "is_cbc sub key E \<longleftrightarrow>
     (\<forall>b. length (E b) = 16) \<and> (\<forall>iv d. cbc_encrypt sub key iv d = cbc_pkcs7 E iv d)"

definition is_ctr :: "subtle \<Rightarrow> byte list \<Rightarrow> bool" where
  "is_ctr sub key \<longleftrightarrow>
     (\<forall>ctr d. length (ctr_encrypt sub key ctr d) = length d
        \<and> ctr_decrypt sub key ctr (ctr_encrypt sub key ctr d) = d)"

section \<open>The message authentication code, as it is specified\<close>

text \<open>Doubling in the field of 2^128 elements (NIST SP 800-38B), on a block as a number.\<close>

definition dbl :: "128 word \<Rightarrow> 128 word" where
  "dbl w = push_bit 1 w XOR (if bit w 127 then 0x87 else 0)"

definition blk :: "byte list \<Rightarrow> 128 word" where
  "blk bs = word_of_nat (be bs)"

text \<open>The code of a message that is not empty: all blocks but the last are chained; the last one
  is combined with the first subkey when it is full, and filled up and combined with the second when
  it is not.\<close>

fun cmac_from :: "(byte list \<Rightarrow> byte list) \<Rightarrow> byte list \<Rightarrow> byte list \<Rightarrow> byte list \<Rightarrow> byte list \<Rightarrow> byte list" where
  "cmac_from E k1 k2 c m =
     (if length m < 16 then E (xorb c (xorb (m @ 0x80 # replicate (15 - length m) 0) k2))
      else if length m = 16 then E (xorb c (xorb m k1))
      else cmac_from E k1 k2 (E (xorb c (take 16 m))) (drop 16 m))"

declare cmac_from.simps [simp del]

definition cmac :: "(byte list \<Rightarrow> byte list) \<Rightarrow> byte list \<Rightarrow> byte list \<Rightarrow> byte list \<Rightarrow> byte list" where
  "cmac E k1 k2 m = cmac_from E k1 k2 zeroBlock m"

text \<open>EAX (Bellare, Rogaway, Wagner): the tag of nonce, header and ciphertext.\<close>

definition eax_tag :: "(byte list \<Rightarrow> byte list \<Rightarrow> byte list) \<Rightarrow> byte list \<Rightarrow> byte list \<Rightarrow> byte list \<Rightarrow> byte list" where
  "eax_tag M nonce ad ct = xorb (M prefixBlock2 ct) (xorb (M prefixBlock0 nonce) (M prefixBlock1 ad))"

section \<open>Subkeys\<close>

text \<open>A block shifted to the left, byte by byte as the loop does it.\<close>

fun shl :: "nat \<Rightarrow> byte list \<Rightarrow> byte list" where
  "shl k [] = []"
| "shl k [b] = [push_bit k b]"
| "shl k (b # c # r) = (drop_bit (8 - k) c OR push_bit k b) # shl k (c # r)"

lemma length_shl [simp]: "length (shl k bs) = length bs"
  by (induction k bs rule: shl.induct) simp_all

lemma unat_push: "unat (push_bit k (b :: byte)) = 2 ^ k * unat b mod 256"
  using unsigned_push_bit_eq [of k b, where 'a = nat]
  by (simp only: push_bit_eq_mult take_bit_eq_mod mult.commute) simp

lemma unat_shl_byte:
  assumes "k \<le> 8"
  shows "unat (drop_bit (8 - k) c OR push_bit k (b :: byte)) = unat c div 2 ^ (8 - k) + 2 ^ k * unat b mod 256"
proof -
  have "\<not> bit (unat (drop_bit (8 - k) c)) n \<or> \<not> bit (unat (push_bit k b)) n" for n
    using assms by (auto simp: bit_simps dest: bit_imp_le_length)
  then have "unat (drop_bit (8 - k) c) + unat (push_bit k b) = unat (drop_bit (8 - k) c) OR unat (push_bit k b)"
    by (intro disjunctive_add) blast
  moreover have "take_bit 8 (unat c) = unat c"
    using unsigned_less [of c] by (simp add: take_bit_nat_eq_self_iff)
  ultimately show ?thesis
    by (simp only: unsigned_or_eq unat_push unsigned_drop_bit_eq) (simp add: drop_bit_eq_div)
qed

lemma div_shift:
  assumes "k \<le> 8" "r < n"
  shows "2 ^ k * (unat (c :: byte) * n + r) div (256 * n) = unat c div 2 ^ (8 - k)"
proof -
  have "(2::nat) ^ 8 = 2 ^ k * 2 ^ (8 - k)"
    using assms(1) by (simp only: le_add_diff_inverse flip: power_add)
  then have e: "256 * n = 2 ^ k * (n * 2 ^ (8 - k))"
    by simp
  have "2 ^ k * (unat c * n + r) div (256 * n) = (unat c * n + r) div (n * 2 ^ (8 - k))"
    unfolding e by (rule div_mult_mult1) simp
  also have "\<dots> = (unat c * n + r) div n div 2 ^ (8 - k)"
    by (rule div_mult2_eq)
  also have "(unat c * n + r) div n = unat c"
    using assms(2) by simp
  finally show ?thesis .
qed

lemma mod_shift:
  assumes "k \<le> 8"
  shows "unat (c :: byte) div 2 ^ (8 - k) + 2 ^ k * b mod 256 = (2 ^ k * b + unat c div 2 ^ (8 - k)) mod 256"
proof -
  define q where "q = unat c div 2 ^ (8 - k)"
  have e: "(256::nat) = 2 ^ k * 2 ^ (8 - k)"
    using assms power_add [of "2::nat" k "8 - k"] by simp
  have "unat c < 2 ^ k * 2 ^ (8 - k)"
    using unsigned_less [of c] by (simp flip: e)
  then have q: "q < 2 ^ k"
    unfolding q_def by (rule less_mult_imp_div_less)
  have m: "2 ^ k * b mod 256 = 2 ^ k * (b mod 2 ^ (8 - k))"
    by (simp only: e mult_mod_right)
  have "b mod 2 ^ (8 - k) + 1 \<le> 2 ^ (8 - k)"
    by (simp add: Suc_le_eq)
  then have "2 ^ k * (b mod 2 ^ (8 - k) + 1) \<le> 256"
    unfolding e by (rule mult_le_mono2)
  then have "q + 2 ^ k * b mod 256 < 256"
    unfolding m using q by (simp only: distrib_left)
  then show ?thesis
    by (metis q_def add.commute mod_add_left_eq mod_less)
qed

lemma mod_block: "(x::nat) < m \<Longrightarrow> a mod c * m + x = (a * m + x) mod (m * c)"
  unfolding mod_mult2_eq by simp

lemma be_shl: "k \<le> 8 \<Longrightarrow> be (shl k bs) = 2 ^ k * be bs mod 256 ^ length bs"
proof (induction k bs rule: shl.induct)
  case (3 k b c r)
  define n :: nat where "n = 256 ^ length r"
  define q where "q = unat c div 2 ^ (8 - k)"
  define B where "B = be (c # r)"
  have n: "be r < n"
    unfolding n_def by (rule be_less)
  have B: "B = unat c * n + be r"
    by (simp add: B_def n_def)
  have dm: "2 ^ k * B = q * (256 * n) + 2 ^ k * B mod (256 * n)"
    using div_mult_mod_eq [of "2 ^ k * B" "256 * n", symmetric]
    by (simp only: B q_def div_shift [OF "3.prems" n])
  have "be (shl k (b # c # r)) = (q + 2 ^ k * unat b mod 256) * (256 * n) + 2 ^ k * B mod (256 * n)"
    using "3.IH" [OF "3.prems"] unat_shl_byte [OF "3.prems", of c b]
    by (simp add: q_def B_def n_def)
  also have "\<dots> = (2 ^ k * unat b + q) mod 256 * (256 * n) + 2 ^ k * B mod (256 * n)"
    unfolding q_def by (simp only: mod_shift [OF "3.prems"])
  also have "\<dots> = ((2 ^ k * unat b + q) * (256 * n) + 2 ^ k * B mod (256 * n)) mod (256 * n * 256)"
    using n by (intro mod_block) simp
  also have "(2 ^ k * unat b + q) * (256 * n) + 2 ^ k * B mod (256 * n) = 2 ^ k * (unat b * (256 * n) + B)"
    using dm by (simp only: distrib_left distrib_right mult.assoc add.assoc)
  finally show ?case
    by (simp add: B_def n_def mult_ac)
qed (simp_all add: unat_push)


lemma blk_shl:
  assumes "length bs = 16" "k \<le> 8"
  shows "blk (shl k bs) = push_bit k (blk bs)"
proof -
  have "be (shl k bs) = take_bit LENGTH(128) (2 ^ k * be bs)"
    using assms by (simp add: be_shl take_bit_eq_mod)
  then have "blk (shl k bs) = word_of_nat (2 ^ k * be bs)"
    unfolding blk_def by (simp only: word_of_nat_eq_iff take_bit_take_bit min.idem)
  then show ?thesis
    by (simp add: blk_def push_bit_eq_mult mult.commute)
qed

lemma blk_snoc: "blk (bs @ [b]) = push_bit 8 (blk bs) XOR ucast b"
proof -
  have "blk (bs @ [b]) = push_bit 8 (blk bs) + ucast b"
    by (simp add: blk_def be_snoc push_bit_eq_mult mult.commute)
  also have "\<dots> = push_bit 8 (blk bs) XOR ucast b"
    by (rule disjunctive_add_eq_xor) (auto simp: bit_eq_iff bit_simps dest: bit_imp_le_length)
  finally show ?thesis .
qed

lemma bit_blk:
  assumes "length bs = 15" "n < 8"
  shows "bit (blk (b # bs)) (120 + n) = bit b n"
proof -
  have "be (b # bs) div 2 ^ 120 = unat b"
    using be_less [of bs] assms(1) by simp
  then have "drop_bit 120 (be (b # bs)) = unat b"
    by (simp only: drop_bit_eq_div)
  then have "bit (be (b # bs)) (120 + n) = bit (unat b) n"
    by (metis bit_drop_bit_eq comp_apply)
  moreover have "bit (blk (b # bs)) (120 + n) = bit (be (b # bs)) (120 + n)"
    using assms(2) unfolding blk_def by (simp only: bit_of_nat_iff) simp
  ultimately show ?thesis
    by (simp only: bit_unsigned_iff) simp
qed


lemma lut_index: "unat (drop_bit 6 (b :: byte)) = (if bit b 7 then 2 else 0) + (if bit b 6 then 1 else 0)"
proof -
  have "drop_bit 6 b = (if bit b 7 then 2 else 0) XOR (if bit b 6 then 1 else 0)"
  proof (rule bit_word_eqI)
    fix n assume "n < LENGTH(8)"
    then consider "n = 0" | "n = 1" | "1 < n" "n < 8" by fastforce
    then show "bit (drop_bit 6 b) n = bit ((if bit b 7 then 2 else 0) XOR (if bit b 6 then 1 else 0) :: byte) n"
      by cases (auto simp: bit_simps bit_numeral_rec numeral_One split: nat.splits dest: bit_imp_le_length)
  qed
  then show ?thesis
    by simp
qed

lemma sixteen:
  assumes "length L = 16"
  obtains b0 b1 b2 b3 b4 b5 b6 b7 b8 b9 b10 b11 b12 b13 b14 b15
  where "L = [b0, b1, b2, b3, b4, b5, b6, b7, b8, b9, b10, b11, b12, b13, b14, b15]"
  using assms by (auto simp: numeral_eq_Suc length_Suc_conv)

lemma cmac_keys_shl:
  assumes "length L = 16"
  obtains x y z t v where "shl 1 L = x @ [y]" "shl 2 L = z @ [t, v]"
    "cmac_keys L = (x @ [y XOR [0x0, 0x87, 0x0e, 0x89] ! drop_bit 1 (unat (drop_bit 6 (L ! 0)))],
       z @ [t XOR u8n (drop_bit 1 (unat (drop_bit 6 (L ! 0)))), v XOR [0x0, 0x87, 0x0e, 0x89] ! unat (drop_bit 6 (L ! 0))])"
proof -
  obtain b0 b1 b2 b3 b4 b5 b6 b7 b8 b9 b10 b11 b12 b13 b14 b15 where
    L: "L = [b0, b1, b2, b3, b4, b5, b6, b7, b8, b9, b10, b11, b12, b13, b14, b15]"
    using assms by (rule sixteen)
  have u: "[0..<15] = [0, 1, 2, 3, 4, 5, 6, 7, 8, 9, 10, 11, 12, 13, 14::nat]"
    by (simp add: upt_rec)
  show ?thesis
    by (rule that [of "butlast (shl 1 L)" "last (shl 1 L)" "butlast (butlast (shl 2 L))"
          "last (butlast (shl 2 L))" "last (shl 2 L)"])
      (simp_all add: L cmac_keys_def cmac_pass_def u numeral_eq_Suc Let_def)
qed


lemma blk_xor1: "blk (x @ [y XOR c]) = blk (x @ [y]) XOR ucast c"
  by (simp add: blk_snoc unsigned_xor_eq xor.assoc)

lemma blk_xor2: "blk (z @ [t XOR c, v XOR d]) = blk (z @ [t, v]) XOR push_bit 8 (ucast c) XOR ucast d"
  using blk_snoc [of "z @ [t XOR c]" "v XOR d"] blk_snoc [of "z @ [t]" v] blk_xor1 [of z t c]
  by (simp add: push_bit_xor unsigned_xor_eq xor.assoc xor.left_commute)

theorem cmac_subkeys:
  assumes "length L = 16"
  shows "blk (fst (cmac_keys L)) = dbl (blk L) \<and> blk (snd (cmac_keys L)) = dbl (dbl (blk L))"
proof -
  obtain b bs where L: "L = b # bs" "length bs = 15"
    using assms by (cases L) auto
  obtain x y z t v where k: "shl 1 L = x @ [y]" "shl 2 L = z @ [t, v]"
    "cmac_keys L = (x @ [y XOR [0x0, 0x87, 0x0e, 0x89] ! drop_bit 1 (unat (drop_bit 6 (L ! 0)))],
       z @ [t XOR u8n (drop_bit 1 (unat (drop_bit 6 (L ! 0)))), v XOR [0x0, 0x87, 0x0e, 0x89] ! unat (drop_bit 6 (L ! 0))])"
    using assms by (rule cmac_keys_shl)
  have top: "bit (blk L) 127 = bit b 7" "bit (blk L) 126 = bit b 6"
    using bit_blk [of bs 7 b] bit_blk [of bs 6 b] L by simp_all
  have "bit (push_bit 1 (blk L)) 127 = bit b 6"
    using top(2) by (simp only: bit_push_bit_iff) (simp add: possible_bit_def)
  then have "bit (dbl (blk L)) 127 = bit b 6"
    unfolding dbl_def bit_xor_iff by (auto simp: bit_numeral_rec)
  then have d: "dbl (dbl (blk L)) = push_bit 2 (blk L) XOR push_bit 1 (if bit b 7 then 0x87 else 0) XOR (if bit b 6 then 0x87 else 0)"
    unfolding dbl_def [of "dbl (blk L)"]
    by (simp only: dbl_def top push_bit_xor push_bit_push_bit one_add_one xor.assoc)
  have s: "blk (x @ [y]) = push_bit 1 (blk L)" "blk (z @ [t, v]) = push_bit 2 (blk L)"
    using blk_shl [of L 1] blk_shl [of L 2] assms unfolding k by simp_all
  have v: "unat (drop_bit 6 (L ! 0)) = (if bit b 7 then 2 else 0) + (if bit b 6 then 1 else 0)"
    by (simp only: L nth_Cons_0 lut_index)
  have n: "drop_bit 1 (3 :: nat) = 1" "drop_bit 1 (2 :: nat) = 1"
    by (simp_all add: drop_bit_eq_div)
  have "blk (fst (cmac_keys L)) = dbl (blk L)"
    unfolding k fst_conv blk_xor1 s v dbl_def top
    by (cases "bit b 7"; cases "bit b 6") (simp_all add: n)
  moreover have "blk (snd (cmac_keys L)) = dbl (dbl (blk L))"
    unfolding k snd_conv blk_xor2 s v d
    by (cases "bit b 7"; cases "bit b 6") (simp_all add: n xor.assoc)
  ultimately show ?thesis ..
qed

section \<open>One call of the browser computes the code\<close>

lemma length_xor_at [simp]: "length (xor_at off k arr) = length arr"
proof -
  have "length (foldl (\<lambda>a i. a[off + i := f a i]) arr is) = length arr" for f :: "byte list \<Rightarrow> nat \<Rightarrow> byte" and "is"
    by (induction "is" arbitrary: arr) simp_all
  then show ?thesis
    by (simp add: xor_at_def)
qed

lemma nth_xor_upto:
  assumes "off + n \<le> length arr" "j < length arr"
  shows "foldl (\<lambda>a i. a[off + i := a ! (off + i) XOR u8_get k i]) arr [0..<n] ! j
    = (if off \<le> j \<and> j < off + n then arr ! j XOR u8_get k (j - off) else arr ! j)"
    and "length (foldl (\<lambda>a i. a[off + i := a ! (off + i) XOR u8_get k i]) arr [0..<n]) = length arr"
  using assms by (induction n) (auto simp: nth_list_update less_Suc_eq)

lemma xor_at_block:
  assumes "off + 16 \<le> length arr" "length k = 16"
  shows "xor_at off k arr = take off arr @ xorb (take 16 (drop off arr)) k @ drop (off + 16) arr"
proof (rule nth_equalityI)
  let ?x = "xorb (take 16 (drop off arr)) k"
  have l: "length ?x = 16" and x: "?x ! i = arr ! (off + i) XOR k ! i" if "i < 16" for i
    using assms that by (simp_all add: xorb_def)
  fix j assume j: "j < length (xor_at off k arr)"
  then have "j < length arr" by simp
  consider "j < off" | "off \<le> j" "j < off + 16" | "off + 16 \<le> j" by linarith
  then show "xor_at off k arr ! j = (take off arr @ xorb (take 16 (drop off arr)) k @ drop (off + 16) arr) ! j"
    unfolding xor_at_def nth_xor_upto(1) [OF assms(1) \<open>j < length arr\<close>]
    using assms \<open>j < length arr\<close> l [of 0] by cases (auto simp: nth_append u8_get_def x)
qed (use assms in \<open>simp add: xorb_def\<close>)

definition prepared_block :: "byte list \<Rightarrow> byte list \<Rightarrow> byte list \<Rightarrow> byte list" where
  "prepared_block k1 k2 l = (if length l = 16 then xorb l k1 else xorb (l @ 0x80 # replicate (15 - length l) 0) k2)"

lemma cmac_cbc:
  assumes "\<And>b. length (E b) = 16" "length k1 = 16" "length k2 = 16"
  shows "16 * n < length m \<Longrightarrow> length m \<le> 16 * Suc n \<Longrightarrow>
    take 16 (drop (16 * n) (chain_blocks E c (Suc n + j) (take (16 * n) m @ prepared_block k1 k2 (drop (16 * n) m) @ e)))
    = cmac_from E k1 k2 c m"
proof (induction n arbitrary: c m)
  case 0
  have "length (prepared_block k1 k2 m) = 16"
    using 0 assms by (simp add: prepared_block_def xorb_def)
  then show ?case
    using 0 assms(1) by (simp add: Let_def cmac_from.simps [of E k1 k2 c m] prepared_block_def)
next
  case (Suc n)
  have "cmac_from E k1 k2 c m = cmac_from E k1 k2 (E (xorb c (take 16 m))) (drop 16 m)"
    using Suc.prems by (subst cmac_from.simps) simp
  also have "\<dots> = take 16 (drop (16 * n) (chain_blocks E (E (xorb c (take 16 m))) (Suc n + j)
      (take (16 * n) (drop 16 m) @ prepared_block k1 k2 (drop (16 * n) (drop 16 m)) @ e)))"
    by (rule Suc.IH [symmetric]) (use Suc.prems in auto)
  finally have "cmac_from E k1 k2 c m = \<dots>" .
  moreover have "take (16 * Suc n) m = take 16 m @ take (16 * n) (drop 16 m)" "length (take 16 m) = 16"
    using Suc.prems by (simp_all add: take_add [symmetric] del: take_add)
  ultimately show ?case
    using assms(1) by (simp add: Let_def add.commute)
qed

lemma length_chain_blocks [simp]: "(\<And>b. length (E b) = 16) \<Longrightarrow> length (chain_blocks E c n d) = 16 * n"
  by (induction n arbitrary: c d) (simp_all add: Let_def)


lemma importKey_keys:
  assumes "is_cbc sub key E"
  shows "rawKey (eax_importKey sub key) = key"
    "eax_k1 (eax_importKey sub key) = fst (cmac_keys (E zeroBlock))"
    "eax_k2 (eax_importKey sub key) = snd (cmac_keys (E zeroBlock))"
proof -
  have x: "xorb zeroBlock zeroBlock = zeroBlock"
    by (simp add: xorb_def zeroBlock_def numeral_eq_Suc)
  have "cbc_encrypt sub key zeroBlock zeroBlock = chain_blocks E zeroBlock 2 (pkcs7 zeroBlock)"
    using assms by (simp add: is_cbc_def cbc_pkcs7_def pkcs7_def zeroBlock_def)
  moreover have "take 16 (pkcs7 zeroBlock) = zeroBlock"
    by (simp add: pkcs7_def zeroBlock_def)
  ultimately have "cbc_encrypt sub key zeroBlock zeroBlock
      = E zeroBlock @ chain_blocks E (E zeroBlock) 1 (drop 16 (pkcs7 zeroBlock))"
    by (simp only: numeral_2_eq_2 chain_blocks.simps Let_def One_nat_def) (simp only: x)
  then have "encryptBlock sub key zeroBlock = E zeroBlock"
    using assms by (simp add: encryptBlock_def js_slice_def is_cbc_def)
  then show "rawKey (eax_importKey sub key) = key"
    "eax_k1 (eax_importKey sub key) = fst (cmac_keys (E zeroBlock))"
    "eax_k2 (eax_importKey sub key) = snd (cmac_keys (E zeroBlock))"
    by (simp_all add: eax_importKey_def initCMAC_def split: prod.split)
qed

lemma length_cmac_keys:
  assumes "length L = 16"
  shows "length (fst (cmac_keys L)) = 16" "length (snd (cmac_keys L)) = 16"
proof -
  have "length (fst (foldl cmac_pass p is)) = length (fst p) \<and> length (snd (foldl cmac_pass p is)) = length (snd p)" for p "is"
    by (induction "is" arbitrary: p) (simp_all add: cmac_pass_def split: prod.split)
  from this [of "(L, replicate 16 0)" "[0..<15]"] assms
  show "length (fst (cmac_keys L)) = 16" "length (snd (cmac_keys L)) = 16"
    by (auto simp: cmac_keys_def Let_def split: prod.split)
qed

lemma u8_set_front: "length src = k \<Longrightarrow> k \<le> n \<Longrightarrow> u8_set 0 src (replicate n 0) = src @ replicate (n - k) 0"
  by (simp add: u8_set_def)

lemma u8_set_behind:
  "length pre = 16 \<Longrightarrow> length src \<le> n \<Longrightarrow>
    u8_set 16 src (pre @ replicate n 0) = (pre @ src) @ replicate (n - length src) 0"
  by (simp add: u8_set_def)

lemma blocks_16:
  fixes l :: nat
  shows "l = l div 16 * 16 + l mod 16" "l mod 16 < 16"
    "(l + 15) div 16 = (if l mod 16 = 0 then l div 16 else l div 16 + 1)"
proof -
  define n r where "n = l div 16" and "r = l mod 16"
  have l: "l = n * 16 + r" and r: "r < 16"
    by (simp_all add: n_def r_def)
  have "(n * 16 + r + 15) div 16 = n + (r + 15) div 16"
    using div_mult_self3 [of 16 n "r + 15"] by (simp add: add.assoc)
  moreover have "(r + 15) div 16 = (if r = 0 then 0 else 1)"
    using r by (auto intro: div_nat_eqI)
  ultimately have "(l + 15) div 16 = (if r = 0 then n else n + 1)"
    by (simp add: l)
  then show "l = l div 16 * 16 + l mod 16" "l mod 16 < 16"
    "(l + 15) div 16 = (if l mod 16 = 0 then l div 16 else l div 16 + 1)"
    by (simp_all add: n_def r_def)
qed

text \<open>What the code chains: the message with its last block prepared.\<close>

lemma cmac_data:
  fixes prefix data :: "byte list"
  assumes "length prefix = 16" "length k1 = 16" "length k2 = 16"
  defines "m \<equiv> (length data + 15) div 16" and "n \<equiv> length data div 16" and "r \<equiv> length data mod 16"
    and "arr \<equiv> (prefix @ data) @ replicate ((length data + 15) div 16 * 16 - length data) 0"
  shows "(if r = 0 then xor_at (n * 16) k1 arr else xor_at ((n + 1) * 16) k2 (arr[(n + 1) * 16 + r := 0x80]))
    = take (16 * m) (prefix @ data) @ prepared_block k1 k2 (drop (16 * m) (prefix @ data))"
proof (cases "r = 0")
  case True
  then have "length data = n * 16" "m = n"
    using blocks_16 [of "length data"] unfolding r_def n_def m_def by simp_all
  then have l: "length (prefix @ data) = n * 16 + 16" "arr = prefix @ data"
    using assms(1) by (simp_all add: arr_def flip: m_def)
  then have "take 16 (drop (n * 16) arr) = drop (n * 16) arr" "drop (n * 16 + 16) arr = []"
    "length (drop (n * 16) arr) = 16"
    by simp_all
  then have "xor_at (n * 16) k1 arr = take (n * 16) arr @ prepared_block k1 k2 (drop (n * 16) arr)"
    using xor_at_block [of "n * 16" arr k1] assms(2) l by (simp only: prepared_block_def) simp
  then show ?thesis
    using True \<open>m = n\<close> by (simp only: l(2) if_True refl mult.commute)
next
  case False
  have len: "length data = n * 16 + r" "r < 16" "m = n + 1"
    using False blocks_16 [of "length data"] unfolding r_def n_def m_def by simp_all
  have z: "m * 16 - length data = Suc (15 - r)"
    using len by simp
  have arr: "arr = (prefix @ data) @ 0 # replicate (15 - r) 0"
    unfolding arr_def m_def [symmetric] z by simp
  have "(n + 1) * 16 + r = length (prefix @ data)"
    using len assms(1) by simp
  then have u: "arr[(n + 1) * 16 + r := 0x80] = (prefix @ data) @ 0x80 # replicate (15 - r) 0"
    unfolding arr by (simp only: list_update_length)
  show ?thesis
    unfolding u using False len assms(1-3)
    by (subst xor_at_block) (simp_all add: prepared_block_def mult.commute)
qed


lemma computeCMAC_is_cmac:
  assumes "is_cbc sub key E" "length prefix = 16"
  shows "computeCMAC sub (eax_importKey sub key) data prefix
    = Some (cmac E (fst (cmac_keys (E zeroBlock))) (snd (cmac_keys (E zeroBlock))) (prefix @ data))"
proof -
  define k1 k2 where "k1 = fst (cmac_keys (E zeroBlock))" and "k2 = snd (cmac_keys (E zeroBlock))"
  define m where "m = (length data + 15) div 16"
  define d where "d = take (16 * m) (prefix @ data) @ prepared_block k1 k2 (drop (16 * m) (prefix @ data))"
  have E: "length (E b) = 16" for b
    using assms(1) by (simp add: is_cbc_def)
  have k: "length k1 = 16" "length k2 = 16"
    unfolding k1_def k2_def using E by (simp_all add: length_cmac_keys)
  have m: "16 * m < length (prefix @ data)" "length (prefix @ data) \<le> 16 * Suc m" "length data \<le> m * 16"
    using blocks_16 [of "length data"] assms(2) unfolding m_def length_append by (auto split: if_splits)
  have data: "u8_set 16 data (u8_set 0 prefix (replicate ((m + 1) * 16) 0))
      = (prefix @ data) @ replicate (m * 16 - length data) 0"
    using assms(2) m(3) by (simp add: u8_set_front u8_set_behind del: append_assoc)
  have len: "length d = 16 * Suc m"
    unfolding d_def prepared_block_def xorb_def using m k by auto
  have "length (pkcs7 d) div 16 = Suc m + 1"
    using len by (simp add: pkcs7_def Let_def)
  then have enc: "cbc_encrypt sub key zeroBlock d = chain_blocks E zeroBlock (Suc m + 1) (d @ replicate 16 16)"
    using assms(1) len by (simp add: is_cbc_def cbc_pkcs7_def pkcs7_def)
  have "take 16 (drop (16 * m) (cbc_encrypt sub key zeroBlock d)) = cmac E k1 k2 (prefix @ data)"
    unfolding enc cmac_def unfolding d_def append_assoc by (rule cmac_cbc [OF E k m(1,2)])
  moreover have "length (cbc_encrypt sub key zeroBlock d) = 16 * (m + 2)"
    unfolding enc length_chain_blocks [of E, OF E] by simp
  ultimately have "js_slice (int (length (cbc_encrypt sub key zeroBlock d)) - 32)
      (int (length (cbc_encrypt sub key zeroBlock d)) - 16) (cbc_encrypt sub key zeroBlock d)
      = cmac E k1 k2 (prefix @ data)"
    by (simp add: js_slice_def nat_mult_distrib)
  moreover have "(if length data - length data div 16 * 16 = 0
      then xor_at (length data div 16 * 16) k1
        (u8_set 16 data (u8_set 0 prefix (replicate (((length data + 15) div 16 + 1) * 16) 0)))
      else xor_at ((length data div 16 + 1) * 16) k2
        ((u8_set 16 data (u8_set 0 prefix (replicate (((length data + 15) div 16 + 1) * 16) 0)))
           [(length data div 16 + 1) * 16 + (length data - length data div 16 * 16) := 0x80])) = d"
    unfolding data [unfolded m_def] minus_div_mult_eq_mod cmac_data [OF assms(2) k] d_def m_def by (rule refl)
  ultimately show ?thesis
    unfolding computeCMAC_def Let_def importKey_keys [OF assms(1)] k1_def [symmetric] k2_def [symmetric]
    using assms(2) by (simp only: not_True_eq_False if_False simp_thms)
qed

section \<open>Sealing and opening\<close>

lemma length_cmac:
  assumes "\<And>b. length (E b) = 16"
  shows "length (cmac E k1 k2 m) = 16"
proof -
  have "length (cmac_from E k1 k2 c m) = 16" for c
    using assms
    by (induction E k1 k2 c m rule: cmac_from.induct) (subst cmac_from.simps, simp)
  then show ?thesis
    by (simp add: cmac_def)
qed

lemma join_macs_xorb:
  "length x = 16 \<Longrightarrow> length y = 16 \<Longrightarrow> length z = 16 \<Longrightarrow> join_macs x y z = xorb x (xorb y z)"
  by (rule nth_equalityI) (simp_all add: join_macs_def xorb_def u8_get_def)

lemma prefix_lengths [simp]:
  "length prefixBlock0 = 16" "length prefixBlock1 = 16" "length prefixBlock2 = 16" "length zeroBlock = 16"
  by (simp_all add: prefixBlock0_def prefixBlock1_def prefixBlock2_def zeroBlock_def)

text \<open>The code of the key \<open>key\<close>, of a prefix and a message.\<close>

definition omac :: "(byte list \<Rightarrow> byte list) \<Rightarrow> byte list \<Rightarrow> byte list \<Rightarrow> byte list" where
  "omac E p d = cmac E (fst (cmac_keys (E zeroBlock))) (snd (cmac_keys (E zeroBlock))) (p @ d)"

lemma eax_encrypt_spec:
  fixes nonce ad m :: "byte list"
  assumes "is_cbc sub key E" "is_ctr sub key"
  defines "ct \<equiv> ctr_encrypt sub key (omac E prefixBlock0 nonce) m"
  shows "eax_encrypt sub (eax_importKey sub key) nonce ad m = Inr (ct @ eax_tag (omac E) nonce ad ct)"
    "length (eax_tag (omac E) nonce ad ct) = 16" "length ct = length m"
proof -
  have E: "length (omac E p d) = 16" for p d
    unfolding omac_def using assms(1) by (intro length_cmac) (simp add: is_cbc_def)
  then show "length (eax_tag (omac E) nonce ad ct) = 16"
    by (simp add: eax_tag_def xorb_def)
  show "length ct = length m"
    using assms(2) by (simp add: ct_def is_ctr_def)
  show "eax_encrypt sub (eax_importKey sub key) nonce ad m = Inr (ct @ eax_tag (omac E) nonce ad ct)"
    using E by (simp add: eax_encrypt_def computeCMAC_is_cmac [OF assms(1)] importKey_keys [OF assms(1)] ct_def
        join_macs_xorb eax_tag_def xorb_def u8_set_def Let_def flip: omac_def)
qed

lemma eax_decrypt_spec:
  assumes "is_cbc sub key E" "length t = 16"
  shows "eax_decrypt sub (eax_importKey sub key) nonce ad (ct @ t)
    = Inr (if t = eax_tag (omac E) nonce ad ct then Some (ctr_decrypt sub key (omac E prefixBlock0 nonce) ct) else None)"
proof -
  have E: "length (omac E p d) = 16" for p d
    unfolding omac_def using assms(1) by (intro length_cmac) (simp add: is_cbc_def)
  then have l: "length (eax_tag (omac E) nonce ad ct) = 16"
    by (simp add: eax_tag_def xorb_def)
  have eq: "(\<exists>i \<in> {0..<length t}. eax_tag (omac E) nonce ad ct ! i \<noteq> t ! i) \<longleftrightarrow> t \<noteq> eax_tag (omac E) nonce ad ct"
    using l assms(2) by (auto simp: list_eq_iff_nth_eq Bex_def)
  have s: "js_slice 0 (int (length (ct @ t)) - 16) (ct @ t) = ct"
    "js_slice (int (length (ct @ t)) - 16) (int (length (ct @ t))) (ct @ t) = t"
    using assms(2) by (simp_all add: js_slice_def)
  show ?thesis
    unfolding eax_decrypt_def Let_def s
    using E eq l by (simp add: computeCMAC_is_cmac [OF assms(1)] importKey_keys [OF assms(1)] join_macs_xorb
        assms(2) flip: omac_def eax_tag_def)
qed

text \<open>
  C36. With the keys that \<open>importKey\<close> derives, \<open>_computeCMAC\<close> is the CMAC of NIST SP 800-38B over the
  block cipher of the browser, of the prefix followed by the data: the two subkeys are the first and
  the second doubling of the encrypted zero block in the field of 2^128 elements, and the code is
  what the chained blocks give, the last block being combined with the first subkey when it is full
  and filled up and combined with the second when it is not.
\<close>

theorem code_is_cmac:
  assumes "is_cbc sub key E" "length prefix = 16"
  shows "\<exists>k1 k2. length k1 = 16 \<and> length k2 = 16
    \<and> blk k1 = dbl (blk (E zeroBlock)) \<and> blk k2 = dbl (dbl (blk (E zeroBlock)))
    \<and> computeCMAC sub (eax_importKey sub key) data prefix = Some (cmac E k1 k2 (prefix @ data))"
proof -
  have l: "length (E zeroBlock) = 16"
    using assms(1) by (simp add: is_cbc_def)
  show ?thesis
    by (intro exI conjI, rule length_cmac_keys(1) [OF l], rule length_cmac_keys(2) [OF l],
        rule cmac_subkeys [OF l, THEN conjunct1], rule cmac_subkeys [OF l, THEN conjunct2],
        rule computeCMAC_is_cmac [OF assms])
qed

text \<open>A browser with a toy block cipher and a toy stream.\<close>

definition toy_block :: "byte list \<Rightarrow> byte list" where
  "toy_block b = map (\<lambda>x. x + 129) (take 16 (b @ zeroBlock))"

definition toy_subtle :: subtle where
  "toy_subtle = \<lparr>cbc_encrypt = (\<lambda>_. cbc_pkcs7 toy_block), ctr_encrypt = (\<lambda>_ ctr. map (\<lambda>x. x + u8_get ctr 0)),
     ctr_decrypt = (\<lambda>_ ctr. map (\<lambda>x. x - u8_get ctr 0))\<rparr>"

lemma toy_block_length: "length (toy_block b) = 16"
  by (cases "length b \<le> 16") (simp_all add: toy_block_def zeroBlock_def)

lemma toy_modes: "is_cbc toy_subtle key toy_block" "is_ctr toy_subtle key"
  by (simp_all add: is_cbc_def is_ctr_def toy_subtle_def comp_def toy_block_length)

theorem code_is_cmac_witness:
  "\<exists>k1 k2. length k1 = 16 \<and> length k2 = 16
    \<and> blk k1 = dbl (blk (toy_block zeroBlock)) \<and> blk k2 = dbl (dbl (blk (toy_block zeroBlock)))
    \<and> computeCMAC toy_subtle (eax_importKey toy_subtle [7]) [1, 2, 3] prefixBlock1
      = Some (cmac toy_block k1 k2 (prefixBlock1 @ [1, 2, 3]))"
  by (rule code_is_cmac [OF toy_modes(1)]) simp

text \<open>What is sealed opens again with the same nonce and header, and with any other tag it does not.\<close>

lemma eax_roundtrip:
  assumes "is_cbc sub key E" "is_ctr sub key"
  obtains ct t where "length ct = length m" "length t = 16"
    "eax_encrypt sub (eax_importKey sub key) nonce ad m = Inr (ct @ t)"
    "\<And>t'. length t' = 16 \<Longrightarrow> eax_decrypt sub (eax_importKey sub key) nonce ad (ct @ t')
       = Inr (if t' = t then Some m else None)"
proof -
  have "ctr_decrypt sub key ctr (ctr_encrypt sub key ctr m) = m" for ctr
    using assms(2) by (simp add: is_ctr_def)
  then show ?thesis
    using eax_decrypt_spec [OF assms(1), of _ nonce ad]
    by (intro that [OF eax_encrypt_spec(3) [OF assms, of nonce m] eax_encrypt_spec(2,1) [OF assms, of nonce ad m]]) simp
qed

end
