(* ===== verification/Rsa.thy ===== *)
theory Rsa
  imports Dh Base64
begin

text \<open>
  Model of the class \<open>RSACipher\<close> of \<open>core/crypto/rsa.js\<close>: RSA with the padding of PKCS #1 v1.5.

  The key pair that the browser makes comes as the three strings of its exported key (\<open>jwk\<close>), and
  the random bytes that \<open>getRandomValues\<close> puts into an array of \<open>n\<close> bytes are \<open>rnd n\<close>.  A private
  exponent that was never set is \<open>null\<close>, which the loop of \<open>modPow\<close> takes for 0.
\<close>

section \<open>Keys\<close>

record rsa_key =
  rsa_keyLength :: nat
  rsa_keyBytes :: nat
  rsa_n :: "byte list"
  rsa_e :: "byte list"
  rsa_d :: "byte list option"
  rsa_nBigInt :: nat
  rsa_eBigInt :: nat
  rsa_dBigInt :: "nat option"
  rsa_extractable :: bool

record jwk =
  jwk_n :: string
  jwk_e :: string
  jwk_d :: string

definition base64urlDecode :: "string \<Rightarrow> js_error + nat option list" where
  "base64urlDecode data =
     (let data = map (\<lambda>c. if c = CHR ''-'' then CHR ''+'' else c) data;
          data = map (\<lambda>c. if c = CHR ''_'' then CHR ''/'' else c) data;
          data = data @ replicate ((length data + 3) div 4 * 4 - length data) (CHR ''='')
      in b64_decode data 0)"

text \<open>Storing an array that is too long is an exception; an element without a value is stored as 0.\<close>

definition padArray :: "nat option list \<Rightarrow> nat \<Rightarrow> js_error + byte list" where
  "padArray arr len =
     (if len < length arr then Inl RangeError
      else Inr (replicate (len - length arr) 0 @ map (\<lambda>x. case x of None \<Rightarrow> 0 | Some v \<Rightarrow> u8n v) arr))"

text \<open>One of the three numbers of an exported key.\<close>

definition key_part :: "string \<Rightarrow> nat \<Rightarrow> js_error + (byte list \<times> nat)" where
  "key_part s len =
     (case base64urlDecode s of Inl e \<Rightarrow> Inl e
      | Inr arr \<Rightarrow> (case padArray arr len of Inl e \<Rightarrow> Inl e
      | Inr bytes \<Rightarrow> (case u8ArrayToBigInt bytes of Inl e \<Rightarrow> Inl e
      | Inr b \<Rightarrow> Inr (bytes, b))))"

definition rsa_generateKey :: "jwk \<Rightarrow> nat \<Rightarrow> bool \<Rightarrow> js_error + rsa_key" where
  "rsa_generateKey privateKey modulusLength extractable =
     (let keyBytes = (modulusLength + 7) div 8
      in case key_part (jwk_n privateKey) keyBytes of Inl e \<Rightarrow> Inl e
         | Inr (n, nB) \<Rightarrow> (case key_part (jwk_e privateKey) keyBytes of Inl e \<Rightarrow> Inl e
         | Inr (e, eB) \<Rightarrow> (case key_part (jwk_d privateKey) keyBytes of Inl e \<Rightarrow> Inl e
         | Inr (d, dB) \<Rightarrow>
             Inr \<lparr>rsa_keyLength = modulusLength, rsa_keyBytes = keyBytes, rsa_n = n, rsa_e = e,
                  rsa_d = Some d, rsa_nBigInt = nB, rsa_eBigInt = eB, rsa_dBigInt = Some dB,
                  rsa_extractable = extractable\<rparr>)))"

definition rsa_importKey ::
    "byte list \<Rightarrow> byte list \<Rightarrow> bool \<Rightarrow> string list \<Rightarrow> js_error + rsa_key" where
  "rsa_importKey n e extractable keyUsages =
     (if keyUsages \<noteq> [''encrypt''] then Inl (JsError ''only support importing RSA public key'')
      else if length n \<noteq> length e
      then Inl (JsError ''the sizes of modulus and public exponent do not match'')
      else case u8ArrayToBigInt n of Inl err \<Rightarrow> Inl err
         | Inr nB \<Rightarrow> (case u8ArrayToBigInt e of Inl err \<Rightarrow> Inl err
         | Inr eB \<Rightarrow>
             Inr \<lparr>rsa_keyLength = length n * 8, rsa_keyBytes = length n, rsa_n = n, rsa_e = e,
                  rsa_d = None, rsa_nBigInt = nB, rsa_eBigInt = eB, rsa_dBigInt = None,
                  rsa_extractable = extractable\<rparr>))"

definition rsa_exportKey :: "rsa_key \<Rightarrow> js_error + (byte list \<times> byte list \<times> byte list option)" where
  "rsa_exportKey k =
     (if \<not> rsa_extractable k then Inl (JsError ''key is not extractable'')
      else Inr (rsa_n k, rsa_e k, rsa_d k))"

section \<open>Encryption\<close>

text \<open>\<open>Math.floor(x * 254 / 255 + 1)\<close>, with the division exact: a byte that is not 0.\<close>

definition pad_byte :: "byte \<Rightarrow> byte" where
  "pad_byte x = u8n (unat x * 254 div 255 + 1)"

definition rsa_encrypt :: "(nat \<Rightarrow> byte list) \<Rightarrow> rsa_key \<Rightarrow> byte list \<Rightarrow> js_error + byte list option" where
  "rsa_encrypt rnd k message =
     (if int (length message) > int (rsa_keyBytes k) - 11 then Inr None
      else
        let ps = map pad_byte (rnd (rsa_keyBytes k - length message - 3));
            em = [0, 0x02] @ ps @ [0] @ message
        in case u8ArrayToBigInt em of Inl e \<Rightarrow> Inl e
           | Inr emBigInt \<Rightarrow> (case modPow emBigInt (rsa_eBigInt k) (rsa_nBigInt k) of Inl e \<Rightarrow> Inl e
           | Inr c \<Rightarrow> Inr (Some (bigIntToU8Array c (rsa_keyBytes k)))))"

text \<open>The loop looks for the first zero byte behind the two of the block type.\<close>

definition rsa_decrypt :: "rsa_key \<Rightarrow> byte list \<Rightarrow> js_error + byte list option" where
  "rsa_decrypt k message =
     (if length message \<noteq> rsa_keyBytes k then Inr None
      else case u8ArrayToBigInt message of Inl e \<Rightarrow> Inl e
         | Inr msgBigInt \<Rightarrow>
             (case modPow msgBigInt (case rsa_dBigInt k of None \<Rightarrow> 0 | Some d \<Rightarrow> d) (rsa_nBigInt k) of
                Inl e \<Rightarrow> Inl e
              | Inr emBigInt \<Rightarrow>
                  let em = bigIntToU8Array emBigInt (rsa_keyBytes k)
                  in if length em < 2 \<or> em ! 0 \<noteq> 0x00 \<or> em ! 1 \<noteq> 0x02 then Inr None
                     else
                       let i = 2 + length (takeWhile (\<lambda>b. b \<noteq> 0x00) (drop 2 em))
                       in if i = length em then Inr None else Inr (Some (drop (i + 1) em))))"

section \<open>Padding\<close>


lemma be_inj: "length xs = length ys \<Longrightarrow> be xs = be ys \<Longrightarrow> xs = ys"
proof (induction xs arbitrary: ys rule: rev_induct)
  case (snoc x xs)
  obtain y zs where ys: "ys = zs @ [y]"
    using snoc.prems(1) by (cases ys rule: rev_cases) auto
  have "256 * be xs + unat x = 256 * be zs + unat y" "unat x < 256" "unat y < 256"
    using snoc.prems(2) unsigned_less [of x] unsigned_less [of y] by (simp_all add: ys be_snoc)
  then have "be xs = (256 * be zs + unat y) div 256" "unat x = (256 * be zs + unat y) mod 256"
    by (metis div_mult_self4 div_less add_0_right zero_neq_numeral, metis mod_mult_self4 mod_less)
  then have "be xs = be zs" "unat x = unat y"
    using \<open>unat y < 256\<close> by simp_all
  then show ?case
    using snoc by (simp add: ys word_unat_eq_iff)
qed simp

lemma pad_byte_nonzero [simp]: "pad_byte x \<noteq> 0"
proof -
  define q where "q = unat x * 254 div 255 + 1"
  have "unat x < 256"
    using unsigned_less [of x] by simp
  then have "q < 256"
    unfolding q_def by simp
  then have "unat (u8n q) = q"
    unfolding unat_of_nat by simp
  moreover have "q \<noteq> 0"
    by (simp add: q_def)
  ultimately show ?thesis
    unfolding pad_byte_def q_def [symmetric] by (metis unsigned_0)
qed

text \<open>The two keys belong together: raising to both exponents is the identity below the modulus,
  which has no zero byte at its front.\<close>

definition rsa_pair :: "rsa_key \<Rightarrow> rsa_key \<Rightarrow> bool" where
  "rsa_pair pub priv \<longleftrightarrow>
     rsa_keyBytes priv = rsa_keyBytes pub \<and> rsa_nBigInt priv = rsa_nBigInt pub
     \<and> 256 ^ (rsa_keyBytes pub - 1) \<le> rsa_nBigInt pub \<and> rsa_nBigInt pub < 256 ^ rsa_keyBytes pub
     \<and> (case rsa_dBigInt priv of None \<Rightarrow> False | Some d \<Rightarrow>
          (\<forall>x < rsa_nBigInt pub. (x ^ rsa_eBigInt pub) ^ d mod rsa_nBigInt pub = x))"

definition encoded :: "byte list \<Rightarrow> byte list \<Rightarrow> byte list" where
  "encoded ps m = [0, 0x02] @ ps @ [0] @ m"

lemma be_encoded: "be (encoded ps m) < 256 ^ (length ps + length m + 2)"
  using be_less [of "0x02 # ps @ 0 # m"] by (simp add: encoded_def)

lemma rsa_encrypt_encoded:
  assumes "length m + 11 \<le> rsa_keyBytes k" "1 < rsa_nBigInt k"
  shows "rsa_encrypt rnd k m = Inr (Some (bigIntToU8Array
      (be (encoded (map pad_byte (rnd (rsa_keyBytes k - length m - 3))) m) ^ rsa_eBigInt k mod rsa_nBigInt k)
      (rsa_keyBytes k)))"
proof -
  have "u8ArrayToBigInt (encoded ps m) = Inr (be (encoded ps m))" for ps
    by (rule u8ArrayToBigInt_be) (simp add: encoded_def)
  moreover have "\<not> int (rsa_keyBytes k) - 11 < int (length m)"
    using assms(1) by simp
  ultimately show ?thesis
    unfolding rsa_encrypt_def Let_def encoded_def [symmetric]
    by (simp only: if_False sum.case modPow_power [OF assms(2)])
qed

lemma rsa_decrypt_encoded:
  assumes "rsa_dBigInt k = Some d" "1 < rsa_nBigInt k" "0 \<notin> set ps"
    "rsa_keyBytes k = length ps + length m + 3" "length c = rsa_keyBytes k"
    "be c ^ d mod rsa_nBigInt k = be (encoded ps m)"
  shows "rsa_decrypt k c = Inr (Some m)"
proof -
  have len: "length (encoded ps m) = rsa_keyBytes k"
    by (simp add: encoded_def assms(4))
  have "be (encoded ps m) < 256 ^ rsa_keyBytes k"
    using be_less [of "encoded ps m"] len by simp
  then have em: "bigIntToU8Array (be (encoded ps m)) (rsa_keyBytes k) = encoded ps m"
    using len assms(4) by (intro be_inj) (simp_all add: bigIntToU8Array_fits)
  have "u8ArrayToBigInt c = Inr (be c)"
    using assms(4,5) by (intro u8ArrayToBigInt_be) auto
  then have "rsa_decrypt k c = (let em = encoded ps m in
      if length em < 2 \<or> em ! 0 \<noteq> 0x00 \<or> em ! 1 \<noteq> 0x02 then Inr None
      else let i = 2 + length (takeWhile (\<lambda>b. b \<noteq> 0x00) (drop 2 em))
        in if i = length em then Inr None else Inr (Some (drop (i + 1) em)))"
    by (simp only: rsa_decrypt_def assms(5) if_False simp_thms sum.case option.case assms(1)
        modPow_power [OF assms(2)] assms(6) em)
  moreover have "takeWhile (\<lambda>b. b \<noteq> 0x00) (ps @ 0 # m) = ps"
    using assms(3) by (subst takeWhile_append2) auto
  ultimately show ?thesis
    by (simp add: encoded_def)
qed

lemma rsa_decrypts:
  assumes "rsa_pair pub priv" "length m + 11 \<le> rsa_keyBytes pub" "\<And>n. length (rnd n) = n"
  shows "\<exists>c. length c = rsa_keyBytes pub \<and> rsa_encrypt rnd pub m = Inr (Some c)
    \<and> rsa_decrypt priv c = Inr (Some m)"
proof -
  define k n where "k = rsa_keyBytes pub" and "n = rsa_nBigInt pub"
  obtain d where d: "rsa_dBigInt priv = Some d" "\<And>x. x < n \<Longrightarrow> (x ^ rsa_eBigInt pub) ^ d mod n = x"
    using assms(1) by (auto simp: rsa_pair_def n_def split: option.splits)
  have priv: "rsa_keyBytes priv = k" "rsa_nBigInt priv = n"
    using assms(1) by (simp_all add: rsa_pair_def k_def n_def)
  have n: "256 ^ (k - 1) \<le> n" "n < 256 ^ k" and k: "length m + 11 \<le> k"
    using assms(1,2) by (simp_all add: rsa_pair_def k_def n_def)
  define ps where "ps = map pad_byte (rnd (k - length m - 3))"
  define c where "c = bigIntToU8Array (be (encoded ps m) ^ rsa_eBigInt pub mod n) k"
  have len: "length ps + length m + 3 = k"
    using k by (simp add: ps_def assms(3))
  then have e2: "length ps + length m + 2 = k - 1"
    by simp
  have em: "be (encoded ps m) < n"
    using be_encoded [of ps m] n(1) unfolding e2 by simp
  have "(256::nat) ^ 1 \<le> 256 ^ (k - 1)"
    using k by (intro power_increasing) simp_all
  then have n1: "1 < n"
    using n(1) by simp
  have "be (encoded ps m) ^ rsa_eBigInt pub mod n < 256 ^ k"
    using n1 n(2) by (meson less_trans mod_less_divisor zero_less_one)
  then have c: "length c = k" "be c = be (encoded ps m) ^ rsa_eBigInt pub mod n"
    using bigIntToU8Array_fits [of k] k by (simp_all add: c_def)
  have "be c ^ d mod n = be (encoded ps m)"
    using d(2) [OF em] by (simp only: c(2) power_mod)
  moreover have "0 \<notin> set ps"
    by (auto simp: ps_def)
  ultimately have "rsa_decrypt priv c = Inr (Some m)"
    using rsa_decrypt_encoded [of priv d ps m c] d(1) n1 len c(1) by (simp add: priv)
  moreover have "rsa_encrypt rnd pub m = Inr (Some c)"
    using rsa_encrypt_encoded [OF assms(2), of rnd] n1 by (simp only: c_def ps_def flip: k_def n_def)
  ultimately show ?thesis
    using c(1) by (auto simp: k_def)
qed


section \<open>Keys of the browser\<close>

text \<open>Base 64 as RFC 7515 writes the numbers of a key: another alphabet, and nothing at the end.\<close>

definition base64url :: "byte list \<Rightarrow> string" where
  "base64url bs = map (\<lambda>c. if c = CHR ''+'' then CHR ''-'' else if c = CHR ''/'' then CHR ''_'' else c)
     (takeWhile (\<lambda>c. c \<noteq> CHR ''='') (b64_encode bs))"

lemma encode_padding:
  "b64_encode bs = takeWhile (\<lambda>c. c \<noteq> CHR ''='') (b64_encode bs)
     @ replicate (length (b64_encode bs) - length (takeWhile (\<lambda>c. c \<noteq> CHR ''='') (b64_encode bs))) (CHR ''='')"
proof (induction bs rule: b64_encode.induct)
  case (1 x y z rest)
  show ?case
    using 1 [OF refl refl refl] by (simp add: Let_def b64char_no_pad byte_chars del: push_bit_and)
qed (simp_all add: Let_def b64char_no_pad byte_chars b64val_pad del: push_bit_and)

lemma length_encode: "length (b64_encode bs) = (length bs + 2) div 3 * 4"
proof (induction bs rule: b64_encode.induct)
  case (1 x y z rest)
  have "(length (x # y # z # rest) + 2) div 3 = (length rest + 2) div 3 + 1"
    using div_add_self2 [of 3 "length rest + 2"] by simp
  then show ?case
    using 1 [OF refl refl refl] by (simp add: Let_def)
qed (simp_all add: Let_def)

lemma encode_alphabet: "CHR ''-'' \<notin> set (b64_encode bs)" "CHR ''_'' \<notin> set (b64_encode bs)"
proof -
  have t: "CHR ''-'' \<noteq> b64char n \<and> CHR ''_'' \<noteq> b64char n" if "n < 65" for n
  proof -
    have "length toBase64Table = 65"
      by (simp add: toBase64Table_def)
    then have "b64char n \<in> set toBase64Table"
      using that by (simp add: b64char_def)
    then show ?thesis
      by (auto simp: toBase64Table_def)
  qed
  have "CHR ''-'' \<notin> set (b64_encode bs) \<and> CHR ''_'' \<notin> set (b64_encode bs)"
  proof (induction bs rule: b64_encode.induct)
    case (1 x y z rest)
    show ?case
      using 1 [OF refl refl refl] by (simp add: Let_def t byte_chars [THEN less_trans] del: push_bit_and)
  qed (simp_all add: Let_def t byte_chars [THEN less_trans] del: push_bit_and)
  then show "CHR ''-'' \<notin> set (b64_encode bs)" "CHR ''_'' \<notin> set (b64_encode bs)"
    by simp_all
qed


lemma padded_length: "(chars_before_pad n + 3) div 4 * 4 = (n + 2) div 3 * 4"
proof -
  obtain q r where n: "n = 3 * q + r" and r: "r < 3"
    by (metis mult_div_mod_eq mod_less_divisor zero_less_numeral)
  have qr: "n div 3 = q" "n mod 3 = r" "(n + 2) div 3 = q + (r + 2) div 3"
    using r div_mult_self4 [of 3 q "r + 2"] by (simp_all add: n add.assoc)
  have "r = 0 \<or> r = 1 \<or> r = 2"
    using r by linarith
  then show ?thesis
    unfolding chars_before_pad_def qr by (elim disjE) simp_all
qed

lemma base64urlDecode_base64url: "base64urlDecode (base64url bs) = Inr (map (\<lambda>b. Some (unat b)) bs)"
proof -
  let ?t = "takeWhile (\<lambda>c. c \<noteq> CHR ''='') (b64_encode bs)"
  have t: "length ?t = chars_before_pad (length bs)"
    using takeWhile_encode by blast
  have "CHR ''-'' \<notin> set ?t" "CHR ''_'' \<notin> set ?t"
    using encode_alphabet by (metis set_takeWhileD)+
  then have "map (\<lambda>c. if c = CHR ''_'' then CHR ''/'' else c) (map (\<lambda>c. if c = CHR ''-'' then CHR ''+'' else c)
      (base64url bs)) = ?t"
    unfolding base64url_def map_map by (intro map_idI) (auto simp: comp_def)
  moreover have "?t @ replicate ((length ?t + 3) div 4 * 4 - length ?t) (CHR ''='') = b64_encode bs"
    using encode_padding [of bs] unfolding t padded_length length_encode by simp
  ultimately show ?thesis
    unfolding base64urlDecode_def Let_def by (simp only: base64_roundtrip)
qed

lemma key_part_base64url:
  assumes "length bs \<le> len" "0 < len"
  shows "key_part (base64url bs) len = Inr (replicate (len - length bs) 0 @ bs, be bs)"
proof -
  have "be (replicate n 0 @ bs) = be bs" for n
    by (induction n) simp_all
  moreover have "padArray (map (\<lambda>b. Some (unat b)) bs) len = Inr (replicate (len - length bs) 0 @ bs)"
    using assms(1) by (simp add: padArray_def comp_def)
  moreover have "replicate (len - length bs) 0 @ bs \<noteq> []"
    using assms by auto
  ultimately show ?thesis
    unfolding key_part_def base64urlDecode_base64url by (simp add: u8ArrayToBigInt_be del: append_is_Nil_conv)
qed

text \<open>A generated key holds the numbers of the key that the browser made, written in as many bytes as
  the modulus has; what is exported is a public key that can be imported.\<close>

lemma generated_key:
  assumes "length n = kb" "length e \<le> kb" "length d \<le> kb" "0 < kb" "kb = (bits + 7) div 8"
  shows "\<exists>priv. rsa_generateKey \<lparr>jwk_n = base64url n, jwk_e = base64url e, jwk_d = base64url d\<rparr> bits True = Inr priv
    \<and> rsa_keyBytes priv = kb \<and> rsa_nBigInt priv = be n \<and> rsa_eBigInt priv = be e \<and> rsa_dBigInt priv = Some (be d)
    \<and> (\<exists>e' d' pub. length e' = kb \<and> rsa_exportKey priv = Inr (n, e', Some d')
         \<and> rsa_importKey n e' False [''encrypt''] = Inr pub
         \<and> rsa_keyBytes pub = kb \<and> rsa_nBigInt pub = be n \<and> rsa_eBigInt pub = be e)"
proof -
  have z: "be (replicate j 0 @ bs) = be bs" for j bs
    by (induction j) simp_all
  have ne: "n \<noteq> []" "replicate (kb - length e) 0 @ e \<noteq> []"
    using assms by auto
  have "rsa_generateKey \<lparr>jwk_n = base64url n, jwk_e = base64url e, jwk_d = base64url d\<rparr> bits True
      = Inr \<lparr>rsa_keyLength = bits, rsa_keyBytes = kb, rsa_n = n, rsa_e = replicate (kb - length e) 0 @ e,
         rsa_d = Some (replicate (kb - length d) 0 @ d), rsa_nBigInt = be n, rsa_eBigInt = be e,
         rsa_dBigInt = Some (be d), rsa_extractable = True\<rparr>"
    unfolding rsa_generateKey_def Let_def assms(5) [symmetric] using assms(1-4) by (simp add: key_part_base64url)
  moreover have "length (replicate (kb - length e) 0 @ e) = kb"
    using assms(2) by simp
  ultimately show ?thesis
    using assms(1) ne z [of "kb - length e" e] by (simp add: rsa_exportKey_def rsa_importKey_def u8ArrayToBigInt_be)
qed


text \<open>
  C37. RSA between two sides: a key pair of the browser is exported and its public part is imported on the other
  side.  When its numbers form an RSA key (raising to both exponents is the identity below the
  modulus, whose top byte is not zero), every message of at most 11 bytes less than the modulus is
  encrypted, whatever the random padding, to as many bytes as the modulus has, and decrypting gives exactly the message back.
\<close>

theorem rsa_delivers:
  assumes "length n = kb" "length e \<le> kb" "length d \<le> kb" "kb = (bits + 7) div 8"
    and "256 ^ (kb - 1) \<le> be n" "\<And>x. x < be n \<Longrightarrow> (x ^ be e) ^ be d mod be n = x"
    and "length m + 11 \<le> kb" "\<And>j. length (rnd j) = j"
  shows "\<exists>priv n' e' d' pub c.
    rsa_generateKey \<lparr>jwk_n = base64url n, jwk_e = base64url e, jwk_d = base64url d\<rparr> bits True = Inr priv
    \<and> rsa_exportKey priv = Inr (n', e', d') \<and> rsa_importKey n' e' False [''encrypt''] = Inr pub
    \<and> rsa_encrypt rnd pub m = Inr (Some c) \<and> length c = kb \<and> rsa_decrypt priv c = Inr (Some m)"
proof -
  obtain priv e' d' pub where k:
    "rsa_generateKey \<lparr>jwk_n = base64url n, jwk_e = base64url e, jwk_d = base64url d\<rparr> bits True = Inr priv"
    "rsa_keyBytes priv = kb" "rsa_nBigInt priv = be n" "rsa_dBigInt priv = Some (be d)"
    "rsa_exportKey priv = Inr (n, e', Some d')" "rsa_importKey n e' False [''encrypt''] = Inr pub"
    "rsa_keyBytes pub = kb" "rsa_nBigInt pub = be n" "rsa_eBigInt pub = be e"
    using generated_key [OF assms(1-3) _ assms(4)] assms(7) by auto
  have "be n < 256 ^ kb"
    using be_less [of n] assms(1) by simp
  then have "rsa_pair pub priv"
    using k assms(5,6) by (simp add: rsa_pair_def)
  then show ?thesis
    using rsa_decrypts [of pub priv m rnd] assms(7,8) k by metis
qed

text \<open>A key of 96 bits: a modulus that is the product of the first twenty primes.\<close>

lemma power_fixed:
  assumes "\<And>r. r < p \<Longrightarrow> r ^ Suc q mod p = r" "0 < (p :: nat)"
  shows "x ^ (q * k + 1) mod p = x mod p"
proof (induction k)
  case (Suc k)
  have "x ^ (q * Suc k + 1) mod p = (x ^ q * (x ^ (q * k + 1))) mod p"
    by (simp add: power_add mult_ac)
  also have "\<dots> = (x ^ q * (x ^ (q * k + 1) mod p)) mod p"
    by (rule mod_mult_right_eq [symmetric])
  also have "\<dots> = (x ^ q * (x mod p)) mod p"
    by (simp only: Suc)
  also have "\<dots> = (x ^ Suc q) mod p"
    by (simp only: mod_mult_right_eq power_Suc2)
  also have "\<dots> = (x mod p) ^ Suc q mod p"
    by (rule power_mod [symmetric])
  also have "\<dots> = x mod p"
    using assms by simp
  finally show ?case .
qed simp

lemma mod_coprime:
  assumes "coprime p q" "(a::nat) mod p = b mod p" "a mod q = b mod q"
  shows "a mod (p * q) = b mod (p * q)"
proof -
  have "int p dvd int a - int b" "int q dvd int a - int b"
    using assms(2,3) by (metis mod_eq_dvd_iff zmod_int)+
  then have "int p * int q dvd int a - int b"
    using assms(1) by (intro divides_mult) simp_all
  then show ?thesis
    by (metis mod_eq_dvd_iff of_nat_mult of_nat_eq_iff zmod_int)
qed

fun fits :: "nat \<Rightarrow> nat list \<Rightarrow> bool" where
  "fits l [] = True"
| "fits l (p # ps) = (list_all (\<lambda>r. modPow_loop 1 r p p mod p = r) [2..<p] \<and> l mod (p - 1) = 0 \<and> 1 < p
     \<and> coprime p (prod_list ps) \<and> fits l ps)"

lemma fits_fixed: "fits l ps \<Longrightarrow> x ^ (l + 1) mod prod_list ps = x mod prod_list ps"
proof (induction ps)
  case (Cons p ps)
  have p: "list_all (\<lambda>r. modPow_loop 1 r p p mod p = r) [2..<p]" "l mod (p - 1) = 0" "1 < p"
    "coprime p (prod_list ps)" "fits l ps"
    using Cons.prems by simp_all
  have s: "Suc (p - 1) = p"
    using p(3) by simp
  have "r ^ Suc (p - 1) mod p = r" if "r < p" for r
  proof (cases "2 \<le> r")
    case True
    then have "modPow_loop 1 r p p mod p = r"
      using p(1) that by (simp add: list_all_iff)
    then show ?thesis
      unfolding s modPow_loop_mod by simp
  next
    case False
    then have "r = 0 \<or> r = 1" by linarith
    then show ?thesis
      using p(3) unfolding s by (cases p) auto
  qed
  moreover have "l = (p - 1) * (l div (p - 1))"
    using p(2) by (metis mult_div_mod_eq add_0_right)
  ultimately have "x ^ (l + 1) mod p = x mod p"
    using power_fixed [of p "p - 1" x "l div (p - 1)"] p(3) by simp
  then show ?case
    unfolding prod_list.Cons by (rule mod_coprime [OF p(4) _ Cons.IH [OF p(5)]])
qed simp


definition toy_primes :: "nat list" where
  "toy_primes = [2, 3, 5, 7, 11, 13, 17, 19, 23, 29, 31, 37, 41, 43, 47, 53, 59, 61, 67, 71]"

lemma fits_step:
  "list_all (\<lambda>r. modPow_loop 1 r p p mod p = r) [2..<p] \<Longrightarrow> l mod (p - 1) = 0 \<Longrightarrow> 1 < p
     \<Longrightarrow> gcd p (prod_list ps) = 1 \<Longrightarrow> fits l ps \<Longrightarrow> fits l (p # ps)"
  by (simp add: coprime_iff_gcd_eq_1)

lemma toy_fits: "fits 5287922640 toy_primes"
  unfolding toy_primes_def
  by (intro fits_step, simp_all add: gcd_non_0_nat) (simp_all add: modPow_loop.simps)

lemma toy_key: "(x::nat) < 557940830126698960967415390 \<Longrightarrow> (x ^ 17) ^ 311054273 mod 557940830126698960967415390 = x"
proof -
  assume x: "x < 557940830126698960967415390"
  have n: "prod_list toy_primes = 557940830126698960967415390"
    by (simp add: toy_primes_def)
  have "(x ^ 17) ^ 311054273 = x ^ (5287922640 + 1)"
    using power_mult [of x 17 311054273] by simp
  then show ?thesis
    using fits_fixed [OF toy_fits, of x] unfolding n mod_less [OF x] by (rule trans [OF arg_cong])
qed

theorem rsa_delivers_witness:
  "\<exists>priv n' e' d' pub c.
    rsa_generateKey \<lparr>jwk_n = base64url [1, 205, 132, 145, 1, 208, 110, 22, 24, 151, 182, 94],
      jwk_e = base64url [17], jwk_d = base64url [18, 138, 79, 193]\<rparr> 96 True = Inr priv
    \<and> rsa_exportKey priv = Inr (n', e', d') \<and> rsa_importKey n' e' False [''encrypt''] = Inr pub
    \<and> rsa_encrypt (\<lambda>j. replicate j 7) pub [42] = Inr (Some c) \<and> length c = 12
    \<and> rsa_decrypt priv c = Inr (Some [42])"
proof (rule rsa_delivers)
  have n: "be [1, 205, 132, 145, 1, 208, 110, 22, 24, 151, 182, 94] = 557940830126698960967415390"
    "be [17] = 17" "be [18, 138, 79, 193] = 311054273"
    by simp_all
  show "(256::nat) ^ (12 - 1) \<le> be [1, 205, 132, 145, 1, 208, 110, 22, 24, 151, 182, 94]"
    unfolding n by simp
  show "(x ^ be [17]) ^ be [18, 138, 79, 193] mod be [1, 205, 132, 145, 1, 208, 110, 22, 24, 151, 182, 94] = x"
    if "x < be [1, 205, 132, 145, 1, 208, 110, 22, 24, 151, 182, 94]" for x
    using that unfolding n by (rule toy_key)
qed simp_all

end
