(* ===== verification/Ra2.thy ===== *)
theory Ra2
  imports Rfb Utf8 Aes Rsa
begin

text \<open>
  Model of \<open>core/ra2.js\<close>: the RSA-AES authentication, an asynchronous function that runs beside the
  rest of the client and talks over the same socket.

  Its state is the object \<open>RSAAESAuthenticationState\<close> together with the local variables of
  \<open>negotiateRA2neAuthAsync\<close> that live across an \<open>await\<close>, and the \<open>await\<close> it stands at
  (\<open>ra2_point\<close>).  An \<open>await\<close> on the socket or on the credentials that is satisfied already continues
  at once; otherwise \<open>checkInternalEvents\<close> does, and \<open>disconnect\<close> ends it.  The computations that
  the browser does in its own time (generating a key, hashing, the modes of AES) are points too,
  left when the browser reports that it has finished, so that anything may happen meanwhile.

  \<open>v_block\<close> is what the browser has been given to work on.  The messages of the exceptions leave
  out the numbers that the source appends to them.

  The browser is the parameter \<open>ra2_env\<close>: the modes of AES, SHA-1, the key pair it generates and its
  random bytes.
\<close>

section \<open>Messages\<close>

record ra2_cipher =
  rc_cipher :: eax
  rc_counter :: "byte list"

definition new_cipher :: "subtle \<Rightarrow> byte list \<Rightarrow> ra2_cipher" where
  "new_cipher sub key = \<lparr>rc_cipher = eax_importKey sub key, rc_counter = replicate 16 0\<rparr>"

text \<open>The counter is a number of 16 bytes, least significant byte first.\<close>

fun count_up :: "byte list \<Rightarrow> byte list" where
  "count_up [] = []"
| "count_up (b # bs) = (b + 1) # (if b = 255 then count_up bs else bs)"

definition step_counter :: "ra2_cipher \<Rightarrow> ra2_cipher" where
  "step_counter c = c\<lparr>rc_counter := count_up (rc_counter c)\<rparr>"

definition length_field :: "nat \<Rightarrow> byte list" where
  "length_field n = [u8n (drop_bit 8 (n AND 0xff00)), u8n (n AND 0xff)]"

definition makeMessage :: "subtle \<Rightarrow> byte list \<Rightarrow> ra2_cipher \<Rightarrow> js_error + (byte list \<times> ra2_cipher)" where
  "makeMessage sub message c =
     (let ad = length_field (length message)
      in case eax_encrypt sub (rc_cipher c) (rc_counter c) ad message of
           Inl e \<Rightarrow> Inl e
         | Inr encrypted \<Rightarrow>
             if length encrypted > length message + 16 then Inl RangeError
             else Inr (u8_set 2 encrypted (u8_set 0 ad (replicate (length message + 2 + 16) 0)), step_counter c))"

definition receiveMessage ::
    "subtle \<Rightarrow> nat \<Rightarrow> byte list \<Rightarrow> ra2_cipher \<Rightarrow> js_error + (byte list option \<times> ra2_cipher)" where
  "receiveMessage sub len encrypted c =
     (case eax_decrypt sub (rc_cipher c) (rc_counter c) (length_field len) encrypted of
        Inl e \<Rightarrow> Inl e
      | Inr res \<Rightarrow> Inr (res, step_counter c))"

section \<open>State\<close>

datatype ra2_point =
    NotStarted
  | WaitLength | WaitKey | WaitApproval | Generating
  | WaitRandom | Keying
  | WaitHash | OpeningHash
  | WaitSubtype | OpeningSubtype
  | WaitCredentials | Sealing
  | Ended "js_error option"

datatype ra2_event = ServerVerification "byte list" | CredentialsRequired "string list"

record ra2_env =
  e_subtle :: subtle
  e_sha1 :: "byte list \<Rightarrow> byte list"
  e_key :: jwk
  e_random :: "byte list"
  e_padding :: "nat \<Rightarrow> byte list"

record ra2_auth =
  a_started :: bool
  a_checkSock :: "nat option"
  a_checkCredentials :: "nat option option"
  a_approve :: bool
  a_sockReject :: bool
  a_credentialsReject :: bool
  a_approveReject :: bool
  a_sock :: websock
  a_creds :: credentials
  a_events :: "ra2_event list"
  a_point :: ra2_point
  v_serverKeyLengthBuffer :: "byte list"
  v_serverKeyBytes :: nat
  v_serverRSA :: "rsa_key option"
  v_serverPublickey :: "byte list"
  v_clientRSA :: "rsa_key option"
  v_clientPublicKey :: "byte list"
  v_serverRandom :: "byte list"
  v_clientCipher :: "ra2_cipher option"
  v_serverCipher :: "ra2_cipher option"
  v_serverHash :: "byte list"
  v_block :: "byte list"
  v_subtype :: "nat option"

definition new_ra2 :: "websock \<Rightarrow> credentials \<Rightarrow> ra2_auth" where
  "new_ra2 s creds = \<lparr>a_started = False, a_checkSock = None, a_checkCredentials = None, a_approve = False,
     a_sockReject = False, a_credentialsReject = False, a_approveReject = False, a_sock = s,
     a_creds = creds, a_events = [], a_point = NotStarted, v_serverKeyLengthBuffer = [],
     v_serverKeyBytes = 0, v_serverRSA = None, v_serverPublickey = [], v_clientRSA = None,
     v_clientPublicKey = [], v_serverRandom = [], v_clientCipher = None, v_serverCipher = None,
     v_serverHash = [], v_block = [], v_subtype = None\<rparr>"

type_synonym ra2_res = "(unit, ra2_auth) res"

definition thrown :: "string \<Rightarrow> ra2_auth \<Rightarrow> ra2_res" where
  "thrown msg a = raise (JsError msg) a"

definition ra2_send :: "byte list \<Rightarrow> ra2_auth \<Rightarrow> ra2_res" where
  "ra2_send bs a =
     (case sq_exec [PushBytes bs, Flush] (a_sock a) of None \<Rightarrow> None | Some (q, s) \<Rightarrow> Some (q, a\<lparr>a_sock := s\<rparr>))"

definition read16 :: "ra2_auth \<Rightarrow> nat \<times> ra2_auth" where
  "read16 a = (case rQshift16 (a_sock a) of (n, s) \<Rightarrow> (n, a\<lparr>a_sock := s\<rparr>))"

definition read_bytes :: "nat \<Rightarrow> ra2_auth \<Rightarrow> byte list \<times> ra2_auth" where
  "read_bytes n a = (case rQshiftBytes n (a_sock a) of (bs, s) \<Rightarrow> (bs, a\<lparr>a_sock := s\<rparr>))"

text \<open>\<open>await this._waitSockAsync(len)\<close>, with what follows it.\<close>

definition await_sock :: "nat \<Rightarrow> ra2_point \<Rightarrow> (ra2_auth \<Rightarrow> ra2_res) \<Rightarrow> ra2_auth \<Rightarrow> ra2_res" where
  "await_sock len pt k a =
     (if rQwait len (a_sock a)
      then ret () (a\<lparr>a_checkSock := Some len, a_sockReject := True, a_point := pt\<rparr>)
      else k a)"

definition has_credentials :: "nat option \<Rightarrow> credentials \<Rightarrow> bool" where
  "has_credentials subtype c =
     (if subtype = Some 1 \<and> username c \<noteq> None \<and> password c \<noteq> None then True
      else if subtype = Some 2 \<and> password c \<noteq> None then True
      else False)"

section \<open>The negotiation\<close>

text \<open>From its end to its beginning: every part runs up to the next \<open>await\<close>.\<close>

definition js_text :: "jsstr option \<Rightarrow> jsstr" where
  "js_text s = (case s of None \<Rightarrow> lit ''undefined'' | Some s \<Rightarrow> s)"

definition credential_bytes :: "nat option \<Rightarrow> credentials \<Rightarrow> js_error + byte list" where
  "credential_bytes subtype c =
     (case (if subtype = Some 1 then encodeUTF8 (js_text (username c)) else Inr []) of
        Inl e \<Rightarrow> Inl e
      | Inr user \<Rightarrow>
          (case encodeUTF8 (js_text (password c)) of
             Inl e \<Rightarrow> Inl e
           | Inr pass \<Rightarrow>
               let user = take 255 user; pass = take 255 pass
               in Inr ([u8n (length user)] @ map u8n user @ [u8n (length pass)] @ map u8n pass)))"

text \<open>7: the credentials, sealed for the server, are the last message.\<close>

definition after_credentials :: "ra2_auth \<Rightarrow> ra2_res" where
  "after_credentials a =
     (case credential_bytes (v_subtype a) (a_creds a) of
        Inl e \<Rightarrow> raise e a
      | Inr creds \<Rightarrow> ret () (a\<lparr>v_block := creds, a_point := Sealing\<rparr>))"

definition send_credentials :: "ra2_env \<Rightarrow> ra2_auth \<Rightarrow> ra2_res" where
  "send_credentials env a =
     (case v_clientCipher a of None \<Rightarrow> raise NullError a
      | Some c \<Rightarrow>
          (case makeMessage (e_subtle env) (v_block a) c of
             Inl e \<Rightarrow> raise e a
           | Inr (msg, c) \<Rightarrow>
               seqr (ra2_send msg (a\<lparr>v_clientCipher := Some c\<rparr>))
                 (\<lambda>_ a. ret () (a\<lparr>a_point := Ended None\<rparr>))))"

definition ask_credentials :: "string list \<Rightarrow> bool \<Rightarrow> ra2_auth \<Rightarrow> ra2_auth" where
  "ask_credentials types missing a =
     (if missing then a\<lparr>a_events := a_events a @ [CredentialsRequired types]\<rparr> else a)"

definition with_subtype :: "ra2_env \<Rightarrow> ra2_auth \<Rightarrow> ra2_res" where
  "with_subtype env a =
     (case v_serverCipher a of None \<Rightarrow> raise NullError a
      | Some c \<Rightarrow>
          (case receiveMessage (e_subtle env) 1 (v_block a) c of
             Inl e \<Rightarrow> raise e a
           | Inr (None, c) \<Rightarrow> thrown ''RA2: failed to authenticate the message'' (a\<lparr>v_serverCipher := Some c\<rparr>)
           | Inr (Some res, c) \<Rightarrow>
               let subtype = (case res of [] \<Rightarrow> None | b # _ \<Rightarrow> Some (unat b));
                   a = a\<lparr>v_serverCipher := Some c, v_subtype := subtype\<rparr>;
                   ready = has_credentials subtype (a_creds a);
                   a = (if ready then a
                        else a\<lparr>a_checkCredentials := Some subtype, a_credentialsReject := True\<rparr>);
                   no_user = username (a_creds a) = None;
                   no_pass = password (a_creds a) = None
               in if subtype \<noteq> Some 1 \<and> subtype \<noteq> Some 2 then thrown ''RA2: wrong subtype'' a
                  else
                    let a = (if subtype = Some 1
                             then ask_credentials [''username'', ''password''] (no_user \<or> no_pass) a
                             else ask_credentials [''password''] no_pass a)
                    in if ready then after_credentials a else ret () (a\<lparr>a_point := WaitCredentials\<rparr>)))"

definition read_subtype :: "ra2_auth \<Rightarrow> ra2_res" where
  "read_subtype a =
     (let (n, a) = read16 a in
      if n \<noteq> 1 then thrown ''RA2: wrong subtype'' a
      else let (bs, a) = read_bytes (1 + 16) a
           in ret () (a\<lparr>v_block := bs, a_point := OpeningSubtype\<rparr>))"

definition element :: "'a list \<Rightarrow> nat \<Rightarrow> 'a option" where
  "element xs i = (if i < length xs then Some (xs ! i) else None)"

text \<open>6: the two hashes.\<close>

definition with_hash :: "ra2_env \<Rightarrow> ra2_auth \<Rightarrow> ra2_res" where
  "with_hash env a =
     (case v_serverCipher a of None \<Rightarrow> raise NullError a
      | Some c \<Rightarrow>
          (case receiveMessage (e_subtle env) 20 (v_block a) c of
             Inl e \<Rightarrow> raise e a
           | Inr (None, c) \<Rightarrow> thrown ''RA2: failed to authenticate the message'' (a\<lparr>v_serverCipher := Some c\<rparr>)
           | Inr (Some h, c) \<Rightarrow>
               let a = a\<lparr>v_serverCipher := Some c\<rparr>
               in if \<exists>i \<in> {0..<20}. element h i \<noteq> element (v_serverHash a) i
                  then thrown ''RA2: wrong server hash'' a
                  else await_sock (2 + 1 + 16) WaitSubtype read_subtype a))"

definition read_hash :: "ra2_auth \<Rightarrow> ra2_res" where
  "read_hash a =
     (let (n, a) = read16 a in
      if n \<noteq> 20 then thrown ''RA2: wrong server hash'' a
      else let (bs, a) = read_bytes (20 + 16) a
           in ret () (a\<lparr>v_block := bs, a_point := OpeningHash\<rparr>))"

abbreviation clientKeyBytes :: nat where
  "clientKeyBytes \<equiv> 256"

definition hash_input :: "nat \<Rightarrow> byte list \<Rightarrow> byte list \<Rightarrow> byte list" where
  "hash_input serverKeyBytes first_key second_key =
     u8_set (length first_key) second_key
       (u8_set 0 first_key (replicate (8 + serverKeyBytes * 2 + clientKeyBytes * 2) 0))"

text \<open>5: the session keys.\<close>

definition session_key :: "ra2_env \<Rightarrow> byte list \<Rightarrow> byte list \<Rightarrow> byte list" where
  "session_key env first_random second_random =
     take 16 (e_sha1 env (u8_set 16 second_random (u8_set 0 first_random (replicate 32 0))))"

definition with_keys :: "ra2_env \<Rightarrow> ra2_auth \<Rightarrow> ra2_res" where
  "with_keys env a =
     (let clientSessionKey = session_key env (v_serverRandom a) (e_random env);
          serverSessionKey = session_key env (e_random env) (v_serverRandom a);
          clientCipher = new_cipher (e_subtle env) clientSessionKey;
          serverCipher = new_cipher (e_subtle env) serverSessionKey;
          serverHash = e_sha1 env (hash_input (v_serverKeyBytes a) (v_serverPublickey a) (v_clientPublicKey a));
          clientHash = e_sha1 env (hash_input (v_serverKeyBytes a) (v_clientPublicKey a) (v_serverPublickey a));
          a = a\<lparr>v_serverCipher := Some serverCipher, v_serverHash := serverHash\<rparr>
      in case makeMessage (e_subtle env) clientHash clientCipher of
           Inl e \<Rightarrow> raise e a
         | Inr (msg, clientCipher) \<Rightarrow>
             seqr (ra2_send msg (a\<lparr>v_clientCipher := Some clientCipher\<rparr>))
               (\<lambda>_ a. await_sock (2 + 20 + 16) WaitHash read_hash a))"

text \<open>4: the server's random bytes.  Only the length field has been waited for.\<close>

definition read_random :: "ra2_auth \<Rightarrow> ra2_res" where
  "read_random a =
     (let (n, a) = read16 a in
      if n \<noteq> clientKeyBytes then thrown ''RA2: wrong encrypted message length'' a
      else
        let (serverEncryptedRandom, a) = read_bytes clientKeyBytes a
        in case v_clientRSA a of None \<Rightarrow> raise NullError a
           | Some k \<Rightarrow>
               (case rsa_decrypt k serverEncryptedRandom of
                  Inl e \<Rightarrow> raise e a
                | Inr None \<Rightarrow> thrown ''RA2: corrupted server encrypted random'' a
                | Inr (Some serverRandom) \<Rightarrow>
                    if length serverRandom \<noteq> 16 then thrown ''RA2: corrupted server encrypted random'' a
                    else ret () (a\<lparr>v_serverRandom := serverRandom, a_point := Keying\<rparr>)))"

text \<open>2 and 3: the client's key and random bytes.\<close>

definition client_public_key :: "byte list \<Rightarrow> byte list \<Rightarrow> byte list" where
  "client_public_key n e =
     u8_set (4 + clientKeyBytes) e (u8_set 4 n (u8_set 0 [0, 0, 8, 0] (replicate (4 + clientKeyBytes * 2) 0)))"

definition send_random :: "ra2_env \<Rightarrow> ra2_auth \<Rightarrow> ra2_res" where
  "send_random env a =
     (case v_serverRSA a of None \<Rightarrow> raise NullError a
      | Some k \<Rightarrow>
          (case rsa_encrypt (e_padding env) k (e_random env) of
             Inl e \<Rightarrow> raise e a
           | Inr None \<Rightarrow> raise NullError a
           | Inr (Some clientEncryptedRandom) \<Rightarrow>
               if length clientEncryptedRandom > v_serverKeyBytes a then raise RangeError a
               else
                 let m = u8_set 2 clientEncryptedRandom
                           (u8_set 0 (length_field (v_serverKeyBytes a)) (replicate (2 + v_serverKeyBytes a) 0))
                 in seqr (ra2_send m a) (\<lambda>_ a. await_sock 2 WaitRandom read_random a)))"

definition with_client_key :: "ra2_env \<Rightarrow> ra2_auth \<Rightarrow> ra2_res" where
  "with_client_key env a =
     (case rsa_generateKey (e_key env) 2048 True of Inl e \<Rightarrow> raise e a
      | Inr k \<Rightarrow>
          (case rsa_exportKey k of Inl e \<Rightarrow> raise e a
           | Inr (n, e, _) \<Rightarrow>
               let pub = client_public_key n e;
                   a = a\<lparr>v_clientRSA := Some k, v_clientPublicKey := pub\<rparr>
               in seqr (ra2_send pub a) (\<lambda>_ a. send_random env a)))"

text \<open>1: the server's key, which the page has to approve.\<close>

definition read_key :: "ra2_auth \<Rightarrow> ra2_res" where
  "read_key a =
     (let (serverN, a) = read_bytes (v_serverKeyBytes a) a;
          (serverE, a) = read_bytes (v_serverKeyBytes a) a
      in case rsa_importKey serverN serverE False [''encrypt''] of Inl e \<Rightarrow> raise e a
         | Inr k \<Rightarrow>
             let pub = u8_set (4 + v_serverKeyBytes a) serverE
                         (u8_set 4 serverN (u8_set 0 (v_serverKeyLengthBuffer a)
                            (replicate (4 + v_serverKeyBytes a * 2) 0)))
             in ret () (a\<lparr>v_serverRSA := Some k, v_serverPublickey := pub, a_approve := True,
                          a_approveReject := True, a_events := a_events a @ [ServerVerification pub],
                          a_point := WaitApproval\<rparr>))"

definition read_length :: "ra2_auth \<Rightarrow> ra2_res" where
  "read_length a =
     (let a = a\<lparr>v_serverKeyLengthBuffer := rQpeekBytes 4 (a_sock a)\<rparr>;
          (serverKeyLength, s) = rQshift32 (a_sock a);
          a = a\<lparr>a_sock := s\<rparr>
      in if serverKeyLength < 1024 then thrown ''RA2: server public key is too short'' a
         else if serverKeyLength > 8192 then thrown ''RA2: server public key is too long'' a
         else
           let serverKeyBytes = (serverKeyLength + 7) div 8
           in await_sock (serverKeyBytes * 2) WaitKey read_key (a\<lparr>v_serverKeyBytes := serverKeyBytes\<rparr>))"

definition negotiateRA2neAuthAsync :: "ra2_auth \<Rightarrow> ra2_res" where
  "negotiateRA2neAuthAsync a = await_sock 4 WaitLength read_length (a\<lparr>a_started := True\<rparr>)"

section \<open>The object\<close>

text \<open>An exception settles the promise of the function.\<close>

definition ra2_settle :: "ra2_res \<Rightarrow> ra2_auth option" where
  "ra2_settle m = (case m of None \<Rightarrow> None
     | Some (Inl e, a) \<Rightarrow> Some (a\<lparr>a_point := Ended (Some e)\<rparr>) | Some (Inr _, a) \<Rightarrow> Some a)"

text \<open>What follows the \<open>await\<close> on the socket at which the function stands.\<close>

definition resume_sock :: "ra2_auth \<Rightarrow> ra2_res" where
  "resume_sock a =
     (case a_point a of WaitLength \<Rightarrow> read_length a | WaitKey \<Rightarrow> read_key a | WaitRandom \<Rightarrow> read_random a
      | WaitHash \<Rightarrow> read_hash a | WaitSubtype \<Rightarrow> read_subtype a | _ \<Rightarrow> ret () a)"

definition check_sock :: "ra2_auth \<Rightarrow> ra2_auth option" where
  "check_sock a =
     (case a_checkSock a of
        None \<Rightarrow> Some a
      | Some len \<Rightarrow>
          if rQwait len (a_sock a) then Some a
          else ra2_settle (resume_sock (a\<lparr>a_checkSock := None, a_sockReject := False\<rparr>)))"

definition check_credentials :: "ra2_auth \<Rightarrow> ra2_auth option" where
  "check_credentials a =
     (case a_checkCredentials a of
        None \<Rightarrow> Some a
      | Some subtype \<Rightarrow>
          if has_credentials subtype (a_creds a)
          then
            let a = a\<lparr>a_checkCredentials := None, a_credentialsReject := False\<rparr>
            in if a_point a = WaitCredentials then ra2_settle (after_credentials a) else Some a
          else Some a)"

definition checkInternalEvents :: "ra2_auth \<Rightarrow> ra2_auth option" where
  "checkInternalEvents a = (case check_sock a of None \<Rightarrow> None | Some a \<Rightarrow> check_credentials a)"

definition ra2_approveServer :: "ra2_auth \<Rightarrow> ra2_auth" where
  "ra2_approveServer a =
     (if a_approve a
      then a\<lparr>a_approve := False, a_point := (if a_point a = WaitApproval then Generating else a_point a)\<rparr>
      else a)"

definition end_at :: "ra2_point list \<Rightarrow> bool \<Rightarrow> ra2_auth \<Rightarrow> ra2_auth" where
  "end_at pts rejected a =
     (if rejected \<and> a_point a \<in> set pts
      then a\<lparr>a_point := Ended (Some (JsError ''disconnect normally''))\<rparr> else a)"

definition ra2_disconnect :: "ra2_auth \<Rightarrow> ra2_auth" where
  "ra2_disconnect a =
     (let a = (end_at [WaitLength, WaitKey, WaitRandom, WaitHash, WaitSubtype] (a_sockReject a) a)\<lparr>a_sockReject := False\<rparr>;
          a = (end_at [WaitCredentials] (a_credentialsReject a) a)\<lparr>a_credentialsReject := False\<rparr>;
          a = (end_at [WaitApproval] (a_approveReject a) a)\<lparr>a_approveReject := False\<rparr>
      in a)"

text \<open>The browser has finished what the function waits for.\<close>

definition browser_done :: "ra2_env \<Rightarrow> ra2_auth \<Rightarrow> ra2_auth option" where
  "browser_done env a =
     (case a_point a of Generating \<Rightarrow> ra2_settle (with_client_key env a) | Keying \<Rightarrow> ra2_settle (with_keys env a)
      | OpeningHash \<Rightarrow> ra2_settle (with_hash env a) | OpeningSubtype \<Rightarrow> ra2_settle (with_subtype env a)
      | Sealing \<Rightarrow> ra2_settle (send_credentials env a) | _ \<Rightarrow> Some a)"

text \<open>Everything that can happen: the client starts the function or looks for events when data has
  arrived, the page approves, sends credentials or disconnects, the browser finishes.\<close>

datatype ra2_input =
    Start
  | Arrived "byte list"
  | CheckEvents
  | Approve
  | Disconnect
  | NewCredentials credentials
  | BrowserDone

fun ra2_step :: "ra2_env \<Rightarrow> ra2_input \<Rightarrow> ra2_auth \<Rightarrow> ra2_auth option" where
  "ra2_step env Start a = (if a_started a then Some a else ra2_settle (negotiateRA2neAuthAsync a))"
| "ra2_step env (Arrived bs) a =
     (let (err, _, s) = recvMessage bs (a_sock a); a = a\<lparr>a_sock := s\<rparr>
      in if err = None then checkInternalEvents a else Some a)"
| "ra2_step env CheckEvents a = checkInternalEvents a"
| "ra2_step env Approve a = Some (ra2_approveServer a)"
| "ra2_step env Disconnect a = Some (ra2_disconnect a)"
| "ra2_step env (NewCredentials c) a = Some (a\<lparr>a_creds := c\<rparr>)"
| "ra2_step env BrowserDone a = browser_done env a"

fun ra2_run :: "ra2_env \<Rightarrow> ra2_input list \<Rightarrow> ra2_auth \<Rightarrow> ra2_auth option" where
  "ra2_run env [] a = Some a"
| "ra2_run env (x # xs) a = (case ra2_step env x a of None \<Rightarrow> None | Some a \<Rightarrow> ra2_run env xs a)"

end
