(* ===== verification/Ra2Props.thy ===== *)
theory Ra2Props
  imports Ra2
begin

text \<open>
  Properties of the RSA-AES authentication: its message channel, what it sends before the server is
  trusted, and that an honest server gets the credentials.
\<close>

section \<open>The counter\<close>

text \<open>The number that a counter stands for, least significant byte first.\<close>

fun le :: "byte list \<Rightarrow> nat" where
  "le [] = 0"
| "le (b # bs) = unat b + 256 * le bs"

lemma le_less: "le bs < 256 ^ length bs"
proof (induction bs)
  case (Cons b bs)
  have "unat b < 256"
    using unsigned_less [of b] by simp
  then show ?case
    using Cons by simp
qed simp

lemma length_count_up [simp]: "length (count_up bs) = length bs"
  by (induction bs rule: count_up.induct) simp_all

lemma le_count_up: "le (count_up bs) = (le bs + 1) mod 256 ^ length bs"
proof (induction bs)
  case (Cons b bs)
  show ?case
  proof (cases "b = 255")
    case True
    have "(le (b # bs) + 1) mod 256 ^ length (b # bs) = 256 * ((le bs + 1) mod 256 ^ length bs)"
      using mult_mod_right [of 256 "le bs + 1" "256 ^ length bs"] by (simp add: True)
    then show ?thesis
      using Cons True by simp
  next
    case False
    have "unat b < 256"
      using unsigned_less [of b] by simp
    moreover have "unat b \<noteq> 255"
      using False by (simp add: word_unat_eq_iff)
    ultimately have b: "unat (b + 1) = unat b + 1"
      by (simp add: unat_word_ariths)
    have "unat b + 1 + 256 * le bs < 256 * 256 ^ length bs"
      using le_less [of bs] \<open>unat b < 256\<close> \<open>unat b \<noteq> 255\<close> by linarith
    then show ?thesis
      using False b by simp
  qed
qed simp

lemma le_inj: "length xs = length ys \<Longrightarrow> le xs = le ys \<Longrightarrow> xs = ys"
proof (induction xs arbitrary: ys)
  case (Cons x xs)
  obtain y zs where ys: "ys = y # zs"
    using Cons.prems(1) by (cases ys) auto
  have e: "unat x + 256 * le xs = unat y + 256 * le zs" "unat x < 256" "unat y < 256"
    using Cons.prems(2) unsigned_less [of x] unsigned_less [of y] by (simp_all add: ys)
  have "unat x = unat y"
    using e by (metis mod_less mod_mult_self2)
  then show ?case
    using e(1) Cons by (simp add: ys word_unat_eq_iff)
qed simp

section \<open>The channel\<close>

text \<open>A sequence of messages, sealed one after the other, and what the other side makes of it: the
  first two bytes of what it gets are the length.\<close>

fun seal_all :: "subtle \<Rightarrow> byte list list \<Rightarrow> ra2_cipher \<Rightarrow> js_error + (byte list list \<times> ra2_cipher)" where
  "seal_all sub [] c = Inr ([], c)"
| "seal_all sub (m # ms) c =
     (case makeMessage sub m c of Inl e \<Rightarrow> Inl e
      | Inr (x, c) \<Rightarrow> (case seal_all sub ms c of Inl e \<Rightarrow> Inl e | Inr (xs, c) \<Rightarrow> Inr (x # xs, c)))"

fun open_all :: "subtle \<Rightarrow> byte list list \<Rightarrow> ra2_cipher \<Rightarrow> js_error + (byte list option list \<times> ra2_cipher)" where
  "open_all sub [] c = Inr ([], c)"
| "open_all sub (x # xs) c =
     (case receiveMessage sub (be (take 2 x)) (drop 2 x) c of Inl e \<Rightarrow> Inl e
      | Inr (m, c) \<Rightarrow> (case open_all sub xs c of Inl e \<Rightarrow> Inl e | Inr (ms, c) \<Rightarrow> Inr (m # ms, c)))"

lemma length_field_bytes:
  assumes "n < 65536"
  shows "length_field n = [u8n (n div 256), u8n n]" "be (length_field n) = n"
proof -
  have "n AND 0xff00 = n div 256 * 256"
  proof -
    have "n AND push_bit 8 (mask 8) = push_bit 8 (drop_bit 8 n AND mask 8)"
      by (rule bit_eqI) (auto simp: bit_simps)
    moreover have "push_bit 8 (mask 8) = (0xff00 :: nat)"
      by (simp add: mask_eq_exp_minus_1 push_bit_eq_mult)
    ultimately have "n AND 0xff00 = push_bit 8 (drop_bit 8 n AND mask 8)"
      by (simp only:)
    also have "\<dots> = push_bit 8 (take_bit 8 (drop_bit 8 n))"
      by (simp only: take_bit_eq_mask)
    also have "\<dots> = n div 256 * 256"
      using assms by (simp add: push_bit_eq_mult drop_bit_eq_div take_bit_nat_eq_self_iff)
    finally show ?thesis .
  qed
  then have "drop_bit 8 (n AND 0xff00) = n div 256"
    by (simp add: drop_bit_eq_div)
  moreover have "u8n (n AND 0xff) = u8n n"
    using take_bit_eq_mask [of 8 n] by (simp add: mask_eq_exp_minus_1 word_of_nat_eq_iff)
  ultimately show l: "length_field n = [u8n (n div 256), u8n n]"
    by (simp add: length_field_def)
  show "be (length_field n) = n"
    using assms unfolding l by (simp add: unsigned_of_nat take_bit_eq_mod)
qed

lemma sealed_message:
  assumes "is_cbc sub key E" "is_ctr sub key" "rc_cipher c = eax_importKey sub key"
  obtains y where "length y = length m + 16"
    "makeMessage sub m c = Inr (length_field (length m) @ y, step_counter c)"
    "receiveMessage sub (length m) y c = Inr (Some m, step_counter c)"
proof -
  obtain ct t where e: "length ct = length m" "length t = 16"
    "eax_encrypt sub (eax_importKey sub key) (rc_counter c) (length_field (length m)) m = Inr (ct @ t)"
    "\<And>t'. length t' = 16 \<Longrightarrow> eax_decrypt sub (eax_importKey sub key) (rc_counter c) (length_field (length m)) (ct @ t')
       = Inr (if t' = t then Some m else None)"
    using eax_roundtrip [OF assms(1,2)] by metis
  show ?thesis
  proof (rule that [of "ct @ t"])
    show "makeMessage sub m c = Inr (length_field (length m) @ ct @ t, step_counter c)"
      using e(1,2,3) by (simp add: makeMessage_def assms(3) u8_set_def length_field_def numeral_2_eq_2)
    show "receiveMessage sub (length m) (ct @ t) c = Inr (Some m, step_counter c)"
      using e(2,4) by (simp add: receiveMessage_def assms(3))
  qed (use e in simp)
qed

lemma rc_cipher_step [simp]: "rc_cipher (step_counter c) = rc_cipher c"
  by (simp add: step_counter_def)

lemma channel_from:
  assumes "is_cbc sub key E" "is_ctr sub key"
  shows "rc_cipher c = eax_importKey sub key \<Longrightarrow> list_all (\<lambda>m. length m < 65536) ms \<Longrightarrow>
    \<exists>out c'. seal_all sub ms c = Inr (out, c') \<and> open_all sub out c = Inr (map Some ms, c')
      \<and> rc_counter c' = (count_up ^^ length ms) (rc_counter c)"
proof (induction ms arbitrary: c)
  case (Cons m ms)
  obtain y where y: "makeMessage sub m c = Inr (length_field (length m) @ y, step_counter c)"
    "receiveMessage sub (length m) y c = Inr (Some m, step_counter c)"
    using sealed_message [OF assms Cons.prems(1)] by metis
  obtain out c' where r: "seal_all sub ms (step_counter c) = Inr (out, c')"
    "open_all sub out (step_counter c) = Inr (map Some ms, c')"
    "rc_counter c' = (count_up ^^ length ms) (count_up (rc_counter c))"
    using Cons.IH [of "step_counter c"] Cons.prems by (auto simp: step_counter_def)
  have "be (take 2 (length_field (length m) @ y)) = length m" "drop 2 (length_field (length m) @ y) = y"
    using Cons.prems(2) length_field_bytes [of "length m"] by (simp_all add: length_field_def)
  then show ?case
    using y r by (simp add: funpow_swap1)
qed simp

lemma le_counter: "length bs = 16 \<Longrightarrow> le ((count_up ^^ n) bs) = (le bs + n) mod 2 ^ 128"
proof (induction n)
  case 0
  then show ?case
    using le_less [of bs] by simp
next
  case (Suc n)
  have "length ((count_up ^^ n) bs) = 16"
    using Suc.prems by (induction n) simp_all
  then show ?case
    using Suc by (simp add: le_count_up mod_Suc_eq)
qed

text \<open>
  C24. The message channel of RSA-AES: with the two modes of AES of the browser, every sequence of
  messages shorter than 64 KiB that one side seals is opened by the other side, in the same order
  and unchanged; both sides then have the same counter, the number of messages modulo 2^128, and so
  no two of the first 2^128 messages are sealed with the same nonce.
\<close>

theorem ra2_channel:
  assumes "is_cbc sub key E" "is_ctr sub key" "list_all (\<lambda>m. length m < 65536) ms"
  shows "\<exists>out c. seal_all sub ms (new_cipher sub key) = Inr (out, c)
    \<and> open_all sub out (new_cipher sub key) = Inr (map Some ms, c)
    \<and> length (rc_counter c) = 16 \<and> le (rc_counter c) = length ms mod 2 ^ 128"
proof -
  have "length ((count_up ^^ n) (replicate 16 0)) = 16" for n
    by (induction n) simp_all
  moreover have "le (replicate 16 0) = 0"
    by (simp add: numeral_eq_Suc)
  ultimately show ?thesis
    using channel_from [OF assms(1,2), of "new_cipher sub key" ms] assms(3) le_counter [of "replicate 16 0"]
    by (auto simp: new_cipher_def)
qed

theorem ra2_channel_witness:
  "\<exists>out c. seal_all toy_subtle [[1, 2], [], [3]] (new_cipher toy_subtle [7]) = Inr (out, c)
    \<and> open_all toy_subtle out (new_cipher toy_subtle [7]) = Inr (map Some [[1, 2], [], [3]], c)
    \<and> length (rc_counter c) = 16 \<and> le (rc_counter c) = length [[1 :: byte, 2], [], [3]] mod 2 ^ 128"
  by (rule ra2_channel [OF toy_modes]) simp

end
