(* ===== verification/Ra2Trust.thy ===== *)
theory Ra2Trust
  imports Ra2Props
begin

text \<open>
  What the RSA-AES authentication sends, and when: an invariant over every sequence of inputs.
\<close>

section \<open>What has been sent\<close>

text \<open>At most \<open>n\<close> bytes more than in the beginning.\<close>

definition sent :: "byte list \<Rightarrow> nat \<Rightarrow> ra2_auth \<Rightarrow> bool" where
  "sent w0 n a \<longleftrightarrow> sq_ready (a_sock a) \<and> (\<exists>w. stream (a_sock a) = w0 @ w \<and> length w \<le> n)"

definition ra2_outcome :: "(ra2_auth \<Rightarrow> bool) \<Rightarrow> ra2_res \<Rightarrow> bool" where
  "ra2_outcome P m \<longleftrightarrow> (\<forall>a. ra2_settle m = Some a \<longrightarrow> P a)"

lemma ra2_outcome_simps [simp]:
  "ra2_outcome P (ret x a) = P a" "ra2_outcome P (raise e a) = P (a\<lparr>a_point := Ended (Some e)\<rparr>)"
  "ra2_outcome P (thrown msg a) = P (a\<lparr>a_point := Ended (Some (JsError msg))\<rparr>)"
  by (simp_all add: ra2_outcome_def ra2_settle_def ret_def raise_def thrown_def)

lemma stream_rq: 
  "stream (s\<lparr>rQi := i\<rparr>) = stream s" "sq_ready (s\<lparr>rQi := i\<rparr>) = sq_ready s"
  "stream (s\<lparr>rQlen := n\<rparr>) = stream s" "sq_ready (s\<lparr>rQlen := n\<rparr>) = sq_ready s"
  "stream (s\<lparr>rQ := q\<rparr>) = stream s" "sq_ready (s\<lparr>rQ := q\<rparr>) = sq_ready s"
  "stream (s\<lparr>rQbufferSize := b\<rparr>) = stream s" "sq_ready (s\<lparr>rQbufferSize := b\<rparr>) = sq_ready s"
  by (simp_all add: stream_def wire_def sq_ready_def readyState_def)

lemma shift_keeps:
  "stream (snd (rQshift k res s)) = stream s" "sq_ready (snd (rQshift k res s)) = sq_ready s"
  by (induction k res s rule: rQshift.induct) (simp_all add: stream_rq)

definition same_stream :: "websock \<Rightarrow> websock \<Rightarrow> bool" where
  "same_stream s s' \<longleftrightarrow> stream s' = stream s \<and> sq_ready s' = sq_ready s"

lemma same_stream_intros:
  "same_stream s s" "same_stream s t \<Longrightarrow> same_stream s (t\<lparr>rQi := i\<rparr>)"
  "same_stream s t \<Longrightarrow> same_stream s (t\<lparr>rQlen := n\<rparr>)" "same_stream s t \<Longrightarrow> same_stream s (t\<lparr>rQ := q\<rparr>)"
  "same_stream s t \<Longrightarrow> same_stream s (t\<lparr>rQbufferSize := b\<rparr>)"
  by (simp_all add: same_stream_def stream_rq)

lemma same_stream_if: "same_stream s t \<Longrightarrow> same_stream s u \<Longrightarrow> same_stream s (if b then t else u)"
  by simp

lemma same_stream_trans: "same_stream s t \<Longrightarrow> same_stream t u \<Longrightarrow> same_stream s u"
  by (simp add: same_stream_def)

lemma expand_keeps: "same_stream s (snd (expandCompactRQ n s))"
  unfolding expandCompactRQ_def Let_def
  by (simp only: if_distrib [of snd] snd_conv) (intro same_stream_if same_stream_intros)

lemma recv_keeps: "same_stream s (snd (snd (recvMessage bs s)))"
proof -
  define s1 where "s1 = (if rQlen s = rQi s then s\<lparr>rQlen := 0, rQi := 0\<rparr> else s)"
  define p where "p = (if int (length bs) > int (rQbufferSize s1) - int (rQlen s1) then expandCompactRQ (length bs) s1 else (None, s1))"
  have 1: "same_stream s s1"
    unfolding s1_def by (intro same_stream_if same_stream_intros)
  have "same_stream s1 (snd p)"
    unfolding p_def using expand_keeps by (simp add: same_stream_intros)
  then have 2: "same_stream s (snd p)"
    by (rule same_stream_trans [OF 1])
  have "recvMessage bs s = (let (err, s2) = p in case err of
           Some e \<Rightarrow> (Some e, False, s2)
         | None \<Rightarrow>
             if length (rQ s2) < rQlen s2 + length bs then (Some RangeError, False, s2)
             else
               let s3 = s2\<lparr>rQ := take (rQlen s2) (rQ s2) @ bs @ drop (rQlen s2 + length bs) (rQ s2),
                           rQlen := rQlen s2 + length bs\<rparr>
               in (None, rQ_length s3 > 0 \<and> handlers s3 EvMessage, s3))"
    by (simp only: recvMessage_def s1_def p_def Let_def)
  then show ?thesis
    using 2 by (cases p) (auto simp: Let_def same_stream_intros split: option.split)
qed

lemma read_sent:
  assumes "sent w0 n a"
  shows "sent w0 n (snd (read16 a))" "sent w0 n (snd (read_bytes k a))"
  using assms shift_keeps [of 2 0 "a_sock a"]
  by (auto simp: sent_def read16_def read_bytes_def rQshift16_def rQshiftBytes_def stream_rq split: prod.splits)

text \<open>The key that the function works with stays.\<close>

definition same_key :: "ra2_auth \<Rightarrow> ra2_auth \<Rightarrow> bool" where
  "same_key a a' \<longleftrightarrow> v_serverKeyBytes a' = v_serverKeyBytes a \<and> v_serverPublickey a' = v_serverPublickey a"

lemma same_key_read [simp]:
  "same_key a (snd (read16 b)) = same_key a b" "same_key a (snd (read_bytes k b)) = same_key a b"
  by (simp_all add: same_key_def read16_def read_bytes_def split: prod.split)

lemma same_key_refl [simp]: "same_key a a"
  by (simp add: same_key_def)

definition failed_at :: "ra2_auth \<Rightarrow> bool" where
  "failed_at a \<longleftrightarrow> (\<exists>e. a_point a = Ended (Some e))"

lemma read_random_sent:
  assumes "sent w0 n a"
  shows "ra2_outcome (\<lambda>a'. sent w0 n a' \<and> same_key a a' \<and> (a_point a' = Keying \<or> failed_at a')) (read_random a)"
proof -
  obtain k a1 where r: "read16 a = (k, a1)" by (cases "read16 a")
  obtain bs a2 where b: "read_bytes clientKeyBytes a1 = (bs, a2)" by (cases "read_bytes clientKeyBytes a1")
  have s: "sent w0 n a1" "sent w0 n a2" "same_key a a1" "same_key a a2"
    using read_sent(1) [OF assms] read_sent(2) [of w0 n a1 256] r b
      same_key_read(1) [of a a] same_key_read(2) [of a 256 a1] by simp_all
  show ?thesis
    using s unfolding read_random_def r b Let_def prod.case
    by (auto simp: sent_def same_key_def failed_at_def split: option.split sum.split)
qed


lemma read_hash_sent:
  assumes "sent w0 n a"
  shows "ra2_outcome (\<lambda>a'. sent w0 n a' \<and> same_key a a' \<and> v_serverCipher a' = v_serverCipher a
    \<and> v_serverHash a' = v_serverHash a \<and> v_serverRandom a' = v_serverRandom a \<and> v_clientPublicKey a' = v_clientPublicKey a
    \<and> (a_point a' = OpeningHash \<or> failed_at a')) (read_hash a)"
  using read_sent(1) [OF assms] read_sent(2) [OF read_sent(1) [OF assms], of 36]
  by (auto simp: read_hash_def Let_def sent_def same_key_def failed_at_def read16_def read_bytes_def split: prod.splits)

lemma read_subtype_sent:
  assumes "sent w0 n a"
  shows "ra2_outcome (\<lambda>a'. sent w0 n a' \<and> same_key a a' \<and> (a_point a' = OpeningSubtype \<or> failed_at a')) (read_subtype a)"
  using read_sent(1) [OF assms] read_sent(2) [OF read_sent(1) [OF assms], of 17]
  by (auto simp: read_subtype_def Let_def sent_def same_key_def failed_at_def read16_def read_bytes_def split: prod.splits)

definition presented :: "ra2_auth \<Rightarrow> bool" where
  "presented a \<longleftrightarrow> a_point a = WaitApproval \<and> ServerVerification (v_serverPublickey a) \<in> set (a_events a)"

lemma read_key_sent:
  assumes "sent w0 n a"
  shows "ra2_outcome (\<lambda>a'. sent w0 n a'
    \<and> (presented a' \<or> failed_at a')) (read_key a)"
proof -
  obtain n1 a1 where r: "read_bytes (v_serverKeyBytes a) a = (n1, a1)" by (cases "read_bytes (v_serverKeyBytes a) a")
  obtain e1 a2 where b: "read_bytes (v_serverKeyBytes a1) a1 = (e1, a2)" by (cases "read_bytes (v_serverKeyBytes a1) a1")
  have "sent w0 n a2"
    using read_sent(2) [OF read_sent(2) [OF assms], of "v_serverKeyBytes a1" "v_serverKeyBytes a"] r b by simp
  then show ?thesis
    unfolding read_key_def r b Let_def prod.case
    by (auto simp: sent_def failed_at_def presented_def split: sum.split)
qed

lemma await_sent:
  assumes "ra2_outcome (\<lambda>a'. Q a' \<and> (R a' \<or> failed_at a')) (k a)"
    "\<And>a'. a' = a\<lparr>a_checkSock := Some len, a_sockReject := True, a_point := pt\<rparr> \<Longrightarrow> Q a'"
  shows "ra2_outcome (\<lambda>a'. Q a' \<and> (a_point a' = pt \<or> R a' \<or> failed_at a')) (await_sock len pt k a)"
proof (cases "rQwait len (a_sock a)")
  case True
  then show ?thesis
    using assms(2) [OF refl] by (simp add: await_sock_def)
next
  case False
  then show ?thesis
    using assms(1) by (auto simp: await_sock_def ra2_outcome_def)
qed

lemma read_length_sent:
  assumes "sent w0 n a"
  shows "ra2_outcome (\<lambda>a'. sent w0 n a' \<and> ((a_point a' = WaitKey \<or> presented a') \<or> failed_at a')) (read_length a)"
proof -
  obtain l s where l: "rQshift32 (a_sock a) = (l, s)" by (cases "rQshift32 (a_sock a)")
  define b where "b = a\<lparr>v_serverKeyLengthBuffer := rQpeekBytes 4 (a_sock a), a_sock := s\<rparr>"
  have b: "sent w0 n b" "sent w0 n (b\<lparr>v_serverKeyBytes := k\<rparr>)" for k
    using assms shift_keeps [of 4 0 "a_sock a"] l by (simp_all add: sent_def b_def rQshift32_def)
  show ?thesis
  proof (cases "l < 1024 \<or> 8192 < l")
    case True
    then show ?thesis
      using b l by (auto simp: read_length_def Let_def b_def failed_at_def sent_def)
  next
    case False
    have e: "read_length a = await_sock ((l + 7) div 8 * 2) WaitKey read_key (b\<lparr>v_serverKeyBytes := (l + 7) div 8\<rparr>)"
      using False l by (simp add: read_length_def Let_def b_def)
    have "ra2_outcome (\<lambda>a'. sent w0 n a' \<and> (a_point a' = WaitKey \<or> presented a' \<or> failed_at a')) (read_length a)"
      unfolding e
      by (rule await_sent, rule read_key_sent [OF b(2)]) (use b(2) in \<open>simp add: sent_def\<close>)
    then show ?thesis
      by (simp only: disj_assoc)
  qed
qed

lemma start_sent:
  assumes "sent w0 n a"
  shows "ra2_outcome (\<lambda>a'. sent w0 n a' \<and> (a_point a' = WaitLength \<or> (a_point a' = WaitKey \<or> presented a') \<or> failed_at a'))
    (negotiateRA2neAuthAsync a)"
proof -
  have s: "sent w0 n (a\<lparr>a_started := True\<rparr>)"
    using assms by (simp add: sent_def)
  show ?thesis
    unfolding negotiateRA2neAuthAsync_def
    by (rule await_sent, rule read_length_sent [OF s]) (use s in \<open>simp add: sent_def\<close>)
qed

section \<open>The messages of the client\<close>

lemma ra2_send_sends:
  assumes "sent w0 n a"
  obtains s where "ra2_send bs a = ret () (a\<lparr>a_sock := s\<rparr>)" "sent w0 (n + length bs) (a\<lparr>a_sock := s\<rparr>)"
proof -
  have r: "sq_ready (a_sock a)"
    using assms by (simp add: sent_def)
  obtain s where s: "sq_run [PushBytes bs, Flush] (a_sock a) = Some (Inr s)" "sends (a_sock a) bs s"
    using sq.run_appends [OF r, of "[PushBytes bs, Flush]"] by auto
  have "sq_exec [PushBytes bs, Flush] (a_sock a) = Some (Inr (), s)"
    using s(1) sq_exec_run [of "[PushBytes bs, Flush]" "a_sock a"] by (auto split: option.splits sum.splits prod.splits)
  then show ?thesis
    using s(2) assms that [of s] by (auto simp: ra2_send_def ret_def sends_def sent_def)
qed

lemma sent_mono: "sent w0 n a \<Longrightarrow> n \<le> m \<Longrightarrow> sent w0 m a"
  by (auto simp: sent_def)

lemma outcome_mono: "ra2_outcome P m \<Longrightarrow> (\<And>a. P a \<Longrightarrow> Q a) \<Longrightarrow> ra2_outcome Q m"
  by (auto simp: ra2_outcome_def)

lemma length_u8_set: "off + length src \<le> length arr \<Longrightarrow> length (u8_set off src arr) = length arr"
  by (simp add: u8_set_def)

lemma made_length: "makeMessage sub m c = Inr (msg, c') \<Longrightarrow> length msg = length m + 18"
  by (auto simp: makeMessage_def Let_def length_u8_set length_field_def split: sum.splits if_splits)

lemma exported_lengths:
  assumes "rsa_generateKey j 2048 True = Inr k" "rsa_exportKey k = Inr (n, e, d)"
  shows "length n = 256" "length e = 256"
  using assms
  by (auto simp: rsa_generateKey_def rsa_exportKey_def key_part_def padArray_def Let_def split: sum.splits if_splits)

lemma send_random_sent:
  assumes "sent w0 n a"
  shows "ra2_outcome (\<lambda>a'. (sent w0 (n + 2 + v_serverKeyBytes a) a' \<and> same_key a a')
    \<and> (a_point a' = WaitRandom \<or> a_point a' = Keying \<or> failed_at a')) (send_random env a)"
proof -
  have f: "sent w0 (n + 2 + v_serverKeyBytes a) (a\<lparr>a_point := p\<rparr>)" for p
    using assms by (auto simp: sent_def)
  show ?thesis
  proof (cases "v_serverRSA a")
    case None
    then show ?thesis
      using f by (simp add: send_random_def failed_at_def same_key_def)
  next
    case (Some k)
    show ?thesis
    proof (cases "\<exists>c. rsa_encrypt (e_padding env) k (e_random env) = Inr (Some c) \<and> length c \<le> v_serverKeyBytes a")
      case False
      then show ?thesis
        using f Some by (auto simp: send_random_def failed_at_def same_key_def split: sum.split option.split)
    next
      case True
      then obtain c where c: "rsa_encrypt (e_padding env) k (e_random env) = Inr (Some c)" "length c \<le> v_serverKeyBytes a"
        by auto
      define m where "m = u8_set 2 c (u8_set 0 (length_field (v_serverKeyBytes a)) (replicate (2 + v_serverKeyBytes a) 0))"
      have m: "length m = 2 + v_serverKeyBytes a"
        unfolding m_def using c(2) by (simp add: length_u8_set length_field_def)
      obtain s where s: "ra2_send m a = ret () (a\<lparr>a_sock := s\<rparr>)" "sent w0 (n + length m) (a\<lparr>a_sock := s\<rparr>)"
        using ra2_send_sends [OF assms] by metis
      have e: "send_random env a = await_sock 2 WaitRandom read_random (a\<lparr>a_sock := s\<rparr>)"
        using c Some s(1) unfolding m_def by (simp add: send_random_def Let_def)
      have "ra2_outcome (\<lambda>a'. (sent w0 (n + length m) a' \<and> same_key a a') \<and> (a_point a' = Keying \<or> failed_at a'))
          (read_random (a\<lparr>a_sock := s\<rparr>))"
        using read_random_sent [OF s(2)] by (rule outcome_mono) (simp add: same_key_def)
      then show ?thesis
        unfolding e m [symmetric] add.assoc
        by (rule await_sent) (use s(2) in \<open>simp add: sent_def same_key_def\<close>)
    qed
  qed
qed


lemma length_client_public_key: "length n = 256 \<Longrightarrow> length e = 256 \<Longrightarrow> length (client_public_key n e) = 516"
  by (simp add: client_public_key_def length_u8_set)

lemma sent_at: "sent w0 n a \<Longrightarrow> n \<le> m \<Longrightarrow> sent w0 m (a\<lparr>a_point := p\<rparr>)"
  by (auto simp: sent_def)

lemma with_client_key_sent:
  assumes "sent w0 0 a"
  shows "ra2_outcome (\<lambda>a'. (sent w0 (518 + v_serverKeyBytes a) a' \<and> same_key a a')
    \<and> (a_point a' = WaitRandom \<or> a_point a' = Keying \<or> failed_at a')) (with_client_key env a)"
proof (cases "\<exists>k n e d. rsa_generateKey (e_key env) 2048 True = Inr k \<and> rsa_exportKey k = Inr (n, e, d)")
  case False
  then show ?thesis
    using sent_at [OF assms] by (auto simp: with_client_key_def failed_at_def same_key_def split: sum.split)
next
  case True
  then obtain k n e d where k: "rsa_generateKey (e_key env) 2048 True = Inr k" "rsa_exportKey k = Inr (n, e, d)"
    by auto
  define b where "b = a\<lparr>v_clientRSA := Some k, v_clientPublicKey := client_public_key n e\<rparr>"
  have b: "sent w0 0 b"
    using assms by (simp add: sent_def b_def)
  obtain s where s: "ra2_send (client_public_key n e) b = ret () (b\<lparr>a_sock := s\<rparr>)" "sent w0 516 (b\<lparr>a_sock := s\<rparr>)"
    using ra2_send_sends [OF b, of "client_public_key n e"] length_client_public_key [OF exported_lengths [OF k]] by auto
  have "with_client_key env a = send_random env (b\<lparr>a_sock := s\<rparr>)"
    using k s(1) by (simp add: with_client_key_def Let_def b_def)
  moreover have "ra2_outcome (\<lambda>a'. (sent w0 (516 + 2 + v_serverKeyBytes (b\<lparr>a_sock := s\<rparr>)) a' \<and> same_key (b\<lparr>a_sock := s\<rparr>) a')
    \<and> (a_point a' = WaitRandom \<or> a_point a' = Keying \<or> failed_at a')) (send_random env (b\<lparr>a_sock := s\<rparr>))"
    by (rule send_random_sent [OF s(2)])
  ultimately show ?thesis
    by (simp add: b_def same_key_def)
qed

text \<open>What the function knows when it waits for the hash of the server.\<close>

definition hash_set :: "ra2_env \<Rightarrow> ra2_auth \<Rightarrow> bool" where
  "hash_set env a \<longleftrightarrow>
     v_serverHash a = e_sha1 env (hash_input (v_serverKeyBytes a) (v_serverPublickey a) (v_clientPublicKey a))
     \<and> v_serverCipher a = Some (new_cipher (e_subtle env) (session_key env (e_random env) (v_serverRandom a)))"

lemma with_keys_sent:
  assumes "sent w0 n a" "\<And>x. length (e_sha1 env x) = 20"
  shows "ra2_outcome (\<lambda>a'. (sent w0 (n + 38) a' \<and> same_key a a')
    \<and> ((a_point a' = WaitHash \<or> a_point a' = OpeningHash) \<and> hash_set env a' \<or> failed_at a')) (with_keys env a)"
proof -
  define b where "b = a\<lparr>v_serverCipher := Some (new_cipher (e_subtle env) (session_key env (e_random env) (v_serverRandom a))),
     v_serverHash := e_sha1 env (hash_input (v_serverKeyBytes a) (v_serverPublickey a) (v_clientPublicKey a))\<rparr>"
  define h where "h = e_sha1 env (hash_input (v_serverKeyBytes a) (v_clientPublicKey a) (v_serverPublickey a))"
  define c where "c = new_cipher (e_subtle env) (session_key env (v_serverRandom a) (e_random env))"
  have b: "sent w0 m (b\<lparr>v_clientCipher := q\<rparr>)" "sent w0 m (b\<lparr>a_point := p\<rparr>)" if "n \<le> m" for q p m
    using assms(1) that by (auto simp: sent_def b_def)
  show ?thesis
  proof (cases "makeMessage (e_subtle env) h c")
    case (Inl e)
    have "with_keys env a = raise e b"
      using Inl by (simp add: with_keys_def Let_def h_def c_def b_def)
    then show ?thesis
      using b by (simp add: failed_at_def same_key_def b_def)
  next
    case (Inr p)
    obtain msg c' where p: "makeMessage (e_subtle env) h c = Inr (msg, c')"
      using Inr by (cases p) auto
    have l: "length msg = 38"
      using made_length [OF p] assms(2) by (simp add: h_def)
    obtain s where s: "ra2_send msg (b\<lparr>v_clientCipher := Some c'\<rparr>) = ret () (b\<lparr>v_clientCipher := Some c', a_sock := s\<rparr>)"
      "sent w0 (n + 38) (b\<lparr>v_clientCipher := Some c', a_sock := s\<rparr>)"
      using ra2_send_sends [OF b(1) [OF le_refl], of msg "Some c'"] l by auto
    have e: "with_keys env a = await_sock 38 WaitHash read_hash (b\<lparr>v_clientCipher := Some c', a_sock := s\<rparr>)"
      using p s(1) by (simp add: with_keys_def Let_def h_def c_def b_def)
    have k: "hash_set env (b\<lparr>v_clientCipher := Some c', a_sock := s\<rparr>)" "same_key a (b\<lparr>v_clientCipher := Some c', a_sock := s\<rparr>)"
      by (simp_all add: hash_set_def same_key_def b_def)
    have "ra2_outcome (\<lambda>a'. (sent w0 (n + 38) a' \<and> same_key a a' \<and> hash_set env a') \<and> (a_point a' = OpeningHash \<or> failed_at a'))
        (read_hash (b\<lparr>v_clientCipher := Some c', a_sock := s\<rparr>))"
      using read_hash_sent [OF s(2)] by (rule outcome_mono) (use k in \<open>simp add: same_key_def hash_set_def\<close>)
    then have "ra2_outcome (\<lambda>a'. (sent w0 (n + 38) a' \<and> same_key a a' \<and> hash_set env a')
        \<and> (a_point a' = WaitHash \<or> a_point a' = OpeningHash \<or> failed_at a')) (with_keys env a)"
      unfolding e by (rule await_sent) (use s(2) k in \<open>simp add: sent_def same_key_def hash_set_def\<close>)
    then show ?thesis
      by (rule outcome_mono) auto
  qed
qed

text \<open>The block that was opened is the hash that the client has computed.\<close>

definition hash_opened :: "ra2_env \<Rightarrow> ra2_auth \<Rightarrow> bool" where
  "hash_opened env a \<longleftrightarrow> (\<exists>h c.
     receiveMessage (e_subtle env) 20 (v_block a)
       (new_cipher (e_subtle env) (session_key env (e_random env) (v_serverRandom a))) = Inr (Some h, c)
     \<and> (\<forall>i < 20. element h i = element
          (e_sha1 env (hash_input (v_serverKeyBytes a) (v_serverPublickey a) (v_clientPublicKey a))) i))"

lemma with_hash_sent:
  assumes "sent w0 n a" "hash_set env a"
  shows "ra2_outcome (\<lambda>a'. (sent w0 n a' \<and> same_key a a')
    \<and> ((a_point a' = WaitSubtype \<or> a_point a' = OpeningSubtype) \<and> hash_opened env a \<or> failed_at a')) (with_hash env a)"
proof (cases "hash_opened env a")
  case True
  then obtain h c where h: "receiveMessage (e_subtle env) 20 (v_block a)
       (new_cipher (e_subtle env) (session_key env (e_random env) (v_serverRandom a))) = Inr (Some h, c)"
     "\<forall>i < 20. element h i = element (v_serverHash a) i"
    using assms(2) by (auto simp: hash_opened_def hash_set_def)
  have s: "sent w0 n (a\<lparr>v_serverCipher := Some c\<rparr>)"
    using assms(1) by (simp add: sent_def)
  have "\<not> (\<exists>i \<in> {0..<20}. element h i \<noteq> element (v_serverHash a) i)"
    using h(2) by simp
  then have e: "with_hash env a = await_sock 19 WaitSubtype read_subtype (a\<lparr>v_serverCipher := Some c\<rparr>)"
    using h(1) assms(2) by (simp add: with_hash_def hash_set_def Let_def)
  have "ra2_outcome (\<lambda>a'. (sent w0 n a' \<and> same_key a a') \<and> (a_point a' = OpeningSubtype \<or> failed_at a'))
      (read_subtype (a\<lparr>v_serverCipher := Some c\<rparr>))"
    using read_subtype_sent [OF s] by (rule outcome_mono) (simp add: same_key_def)
  then have "ra2_outcome (\<lambda>a'. (sent w0 n a' \<and> same_key a a')
      \<and> (a_point a' = WaitSubtype \<or> a_point a' = OpeningSubtype \<or> failed_at a')) (with_hash env a)"
    unfolding e by (rule await_sent) (use s in \<open>simp add: sent_def same_key_def\<close>)
  then show ?thesis
    by (rule outcome_mono) (use True in auto)
next
  case False
  have s: "sent w0 n (a\<lparr>v_serverCipher := q, a_point := p\<rparr>)" "sent w0 n (a\<lparr>a_point := p\<rparr>)" for q p
    using assms(1) by (simp_all add: sent_def)
  have "\<exists>i \<in> {0..<20}. element h i \<noteq> element (v_serverHash a) i"
    if "receiveMessage (e_subtle env) 20 (v_block a)
       (new_cipher (e_subtle env) (session_key env (e_random env) (v_serverRandom a))) = Inr (Some h, c)" for h c
    using False that assms(2) unfolding hash_opened_def hash_set_def by (metis atLeastLessThan_iff zero_le)
  then show ?thesis
    using s assms(2)
    by (auto simp: with_hash_def hash_set_def failed_at_def same_key_def Let_def split: sum.split option.split prod.split)
qed

lemma after_credentials_sent:
  assumes "sent w0 n a"
  shows "ra2_outcome (\<lambda>a'. sent w0 n a' \<and> same_key a a' \<and> (a_point a' = Sealing \<or> failed_at a')) (after_credentials a)"
  using assms by (auto simp: after_credentials_def sent_def same_key_def failed_at_def split: sum.split)


lemma with_subtype_sent:
  assumes "sent w0 n a"
  shows "ra2_outcome (\<lambda>a'. sent w0 n a' \<and> same_key a a'
    \<and> (a_point a' = Sealing \<or> a_point a' = WaitCredentials \<or> failed_at a')) (with_subtype env a)"
proof (cases "\<exists>c res c'. v_serverCipher a = Some c \<and> receiveMessage (e_subtle env) 1 (v_block a) c = Inr (Some res, c')")
  case False
  have "sent w0 n (a\<lparr>v_serverCipher := q, a_point := p\<rparr>)" "sent w0 n (a\<lparr>a_point := p\<rparr>)" for q p
    using assms by (simp_all add: sent_def)
  then show ?thesis
    using False
    by (auto simp: with_subtype_def failed_at_def same_key_def split: sum.split option.split prod.split)
next
  case True
  then obtain c res c' where c: "v_serverCipher a = Some c"
    "receiveMessage (e_subtle env) 1 (v_block a) c = Inr (Some res, c')"
    by auto
  define subtype where "subtype = (case res of [] \<Rightarrow> None | b # _ \<Rightarrow> Some (unat b))"
  define ready where "ready = has_credentials subtype (a_creds a)"
  define b where "b = (let a = a\<lparr>v_serverCipher := Some c', v_subtype := subtype\<rparr>
    in if ready then a else a\<lparr>a_checkCredentials := Some subtype, a_credentialsReject := True\<rparr>)"
  define d where "d = (if subtype = Some 1
    then ask_credentials [''username'', ''password''] (username (a_creds b) = None \<or> password (a_creds b) = None) b
    else ask_credentials [''password''] (password (a_creds b) = None) b)"
  have b: "sent w0 n b" "same_key a b"
    using assms by (auto simp: b_def sent_def same_key_def Let_def)
  then have d: "sent w0 n d" "same_key a d"
    by (auto simp: d_def sent_def same_key_def ask_credentials_def)
  have e: "with_subtype env a = (if subtype \<noteq> Some 1 \<and> subtype \<noteq> Some 2 then thrown ''RA2: wrong subtype'' b
      else if ready then after_credentials d else ret () (d\<lparr>a_point := WaitCredentials\<rparr>))"
    using c by (simp add: with_subtype_def subtype_def ready_def b_def d_def Let_def)
  have "ra2_outcome (\<lambda>a'. sent w0 n a' \<and> same_key a a' \<and> (a_point a' = Sealing \<or> failed_at a')) (after_credentials d)"
    using after_credentials_sent [OF d(1)] by (rule outcome_mono) (use d(2) in \<open>simp add: same_key_def\<close>)
  then have "ra2_outcome (\<lambda>a'. sent w0 n a' \<and> same_key a a' \<and> (a_point a' = Sealing \<or> a_point a' = WaitCredentials \<or> failed_at a'))
      (after_credentials d)"
    by (rule outcome_mono) auto
  then show ?thesis
    unfolding e using b d by (simp add: sent_def same_key_def failed_at_def)
qed

lemma send_credentials_sent:
  assumes "sent w0 n a"
  shows "ra2_outcome (\<lambda>a'. (\<exists>m. sent w0 m a') \<and> same_key a a' \<and> (a_point a' = Ended None \<or> failed_at a')) (send_credentials env a)"
proof (cases "\<exists>c msg c'. v_clientCipher a = Some c \<and> makeMessage (e_subtle env) (v_block a) c = Inr (msg, c')")
  case False
  have "\<exists>m. sent w0 m (a\<lparr>a_point := p\<rparr>)" for p
    using assms by (auto simp: sent_def)
  then show ?thesis
    using False by (auto simp: send_credentials_def failed_at_def same_key_def split: sum.split option.split prod.split)
next
  case True
  then obtain c msg c' where c: "v_clientCipher a = Some c" "makeMessage (e_subtle env) (v_block a) c = Inr (msg, c')"
    by auto
  have "sent w0 n (a\<lparr>v_clientCipher := Some c'\<rparr>)"
    using assms by (simp add: sent_def)
  then obtain s where s: "ra2_send msg (a\<lparr>v_clientCipher := Some c'\<rparr>) = ret () (a\<lparr>v_clientCipher := Some c', a_sock := s\<rparr>)"
    "sent w0 (n + length msg) (a\<lparr>v_clientCipher := Some c', a_sock := s\<rparr>)"
    using ra2_send_sends [of w0 n "a\<lparr>v_clientCipher := Some c'\<rparr>" msg] by auto
  then have "\<exists>m. sent w0 m (a\<lparr>v_clientCipher := Some c', a_sock := s, a_point := Ended None\<rparr>)"
    by (auto simp: sent_def)
  then show ?thesis
    using c s(1) by (simp add: send_credentials_def same_key_def)
qed

section \<open>Before the server is trusted\<close>

text \<open>The input \<open>x\<close> came when \<open>P\<close> held.\<close>

definition happened :: "ra2_env \<Rightarrow> ra2_auth \<Rightarrow> ra2_input list \<Rightarrow> ra2_input \<Rightarrow> (ra2_auth \<Rightarrow> bool) \<Rightarrow> bool" where
  "happened env a0 xs x P \<longleftrightarrow> (\<exists>ys zs b. xs = ys @ x # zs \<and> ra2_run env ys a0 = Some b \<and> P b)"

text \<open>The page has approved the key of the server, which had been shown to it.\<close>

definition approved :: "ra2_env \<Rightarrow> ra2_auth \<Rightarrow> ra2_input list \<Rightarrow> ra2_auth \<Rightarrow> bool" where
  "approved env a0 xs a \<longleftrightarrow>
     happened env a0 xs Approve (\<lambda>b. presented b \<and> v_serverPublickey b = v_serverPublickey a)"

text \<open>The server has proved that it knows the session keys, and that it has seen both public keys.\<close>

definition verified :: "ra2_env \<Rightarrow> ra2_auth \<Rightarrow> ra2_input list \<Rightarrow> ra2_auth \<Rightarrow> bool" where
  "verified env a0 xs a \<longleftrightarrow>
     happened env a0 xs BrowserDone (\<lambda>b. hash_opened env b \<and> v_serverPublickey b = v_serverPublickey a)"

lemma happened_more: "happened env a0 xs x P \<Longrightarrow> happened env a0 (xs @ ys) x P"
  unfolding happened_def by (metis append_Cons append_assoc)

lemma approved_more: "approved env a0 xs a \<Longrightarrow> same_key a a' \<Longrightarrow> approved env a0 (xs @ ys) a'"
  using happened_more by (simp add: approved_def same_key_def)

lemma verified_more: "verified env a0 xs a \<Longrightarrow> same_key a a' \<Longrightarrow> verified env a0 (xs @ ys) a'"
  using happened_more by (simp add: verified_def same_key_def)

lemma happened_now: "ra2_run env xs a0 = Some b \<Longrightarrow> P b \<Longrightarrow> happened env a0 (xs @ [x]) x P"
  by (auto simp: happened_def)

fun ra2_phase :: "ra2_point \<Rightarrow> nat" where
  "ra2_phase NotStarted = 0" | "ra2_phase WaitLength = 0" | "ra2_phase WaitKey = 0" | "ra2_phase WaitApproval = 1"
| "ra2_phase Generating = 2" | "ra2_phase WaitRandom = 3" | "ra2_phase Keying = 3" | "ra2_phase WaitHash = 4"
| "ra2_phase OpeningHash = 4" | "ra2_phase WaitSubtype = 5" | "ra2_phase OpeningSubtype = 5"
| "ra2_phase WaitCredentials = 5" | "ra2_phase Sealing = 5" | "ra2_phase (Ended None) = 5" | "ra2_phase (Ended (Some e)) = 6"

definition limits :: "ra2_env \<Rightarrow> ra2_auth \<Rightarrow> ra2_input list \<Rightarrow> byte list \<Rightarrow> ra2_auth \<Rightarrow> bool" where
  "limits env a0 xs w0 a \<longleftrightarrow>
     (\<exists>n. sent w0 n a) \<and> (sent w0 0 a \<or> approved env a0 xs a)
     \<and> (sent w0 (556 + v_serverKeyBytes a) a \<or> verified env a0 xs a)
     \<and> (ra2_phase (a_point a) \<in> {2, 3, 4, 5} \<longrightarrow> approved env a0 xs a)
     \<and> (ra2_phase (a_point a) \<le> 2 \<longrightarrow> sent w0 0 a)
     \<and> (ra2_phase (a_point a) = 1 \<longrightarrow> presented a)
     \<and> (ra2_phase (a_point a) = 3 \<longrightarrow> sent w0 (518 + v_serverKeyBytes a) a)
     \<and> (ra2_phase (a_point a) = 4 \<longrightarrow> sent w0 (556 + v_serverKeyBytes a) a \<and> hash_set env a)
     \<and> (ra2_phase (a_point a) = 5 \<longrightarrow> verified env a0 xs a)"

lemma limits_first: "sq_ready s \<Longrightarrow> limits env (new_ra2 s c) [] (stream s) (new_ra2 s c)"
  by (simp add: limits_def sent_def new_ra2_def presented_def)

text \<open>Each of the five stages.\<close>

lemma limits_0:
  assumes "sent w0 0 a"
    "a_point a \<in> {NotStarted, WaitLength, WaitKey} \<or> presented a \<or> failed_at a"
  shows "limits env a0 xs w0 a"
  using assms sent_mono [OF assms(1)] by (auto simp: limits_def failed_at_def presented_def)

lemma limits_2:
  assumes "sent w0 (518 + v_serverKeyBytes a) a" "approved env a0 xs a"
    "a_point a = WaitRandom \<or> a_point a = Keying \<or> failed_at a"
  shows "limits env a0 xs w0 a"
  using assms sent_mono [OF assms(1), of "556 + v_serverKeyBytes a"] by (auto simp: limits_def failed_at_def)

lemma limits_3:
  assumes "sent w0 (556 + v_serverKeyBytes a) a" "approved env a0 xs a"
    "(a_point a = WaitHash \<or> a_point a = OpeningHash) \<and> hash_set env a \<or> failed_at a"
  shows "limits env a0 xs w0 a"
  using assms by (auto simp: limits_def failed_at_def)

lemma limits_4:
  assumes "sent w0 n a" "approved env a0 xs a" "verified env a0 xs a" "5 \<le> ra2_phase (a_point a)"
  shows "limits env a0 xs w0 a"
  using assms by (auto simp: limits_def)


lemma ra2_settled: "ra2_outcome P m \<Longrightarrow> ra2_settle m = Some a \<Longrightarrow> P a"
  by (simp add: ra2_outcome_def)

lemmas state_defs = sent_def same_key_def presented_def hash_set_def hash_opened_def approved_def verified_def

lemma limits_fields:
  "limits env a0 xs w0 (a\<lparr>a_checkSock := q\<rparr>) = limits env a0 xs w0 a"
  "limits env a0 xs w0 (a\<lparr>a_checkCredentials := c\<rparr>) = limits env a0 xs w0 a"
  "limits env a0 xs w0 (a\<lparr>a_creds := d\<rparr>) = limits env a0 xs w0 a"
  "limits env a0 xs w0 (a\<lparr>a_sockReject := r\<rparr>) = limits env a0 xs w0 a"
  "limits env a0 xs w0 (a\<lparr>a_credentialsReject := r\<rparr>) = limits env a0 xs w0 a"
  "limits env a0 xs w0 (a\<lparr>a_approveReject := r\<rparr>) = limits env a0 xs w0 a"
  by (simp_all add: limits_def state_defs)

lemma limits_sock: "same_stream (a_sock a) s \<Longrightarrow> limits env a0 xs w0 (a\<lparr>a_sock := s\<rparr>) = limits env a0 xs w0 a"
  by (simp add: limits_def state_defs same_stream_def)

lemma limits_ended:
  assumes "limits env a0 xs w0 a"
  shows "limits env a0 xs w0 (a\<lparr>a_point := Ended (Some e)\<rparr>)"
proof -
  have "sent w0 n (a\<lparr>a_point := p\<rparr>) = sent w0 n a" "approved env a0 xs (a\<lparr>a_point := p\<rparr>) = approved env a0 xs a"
    "verified env a0 xs (a\<lparr>a_point := p\<rparr>) = verified env a0 xs a" for n p
    by (simp_all add: sent_def approved_def verified_def)
  then show ?thesis
    using assms by (simp add: limits_def)
qed

lemma limits_more: "limits env a0 xs w0 a \<Longrightarrow> limits env a0 (xs @ ys) w0 a"
  unfolding limits_def
  using approved_more [of env a0 xs a a ys, OF _ same_key_refl] verified_more [of env a0 xs a a ys, OF _ same_key_refl]
  by blast

lemma approved_same: "approved env a0 xs a \<Longrightarrow> same_key a a' \<Longrightarrow> approved env a0 xs a'"
  using approved_more [of env a0 xs a a' "[]"] by simp

lemma verified_same: "verified env a0 xs a \<Longrightarrow> same_key a a' \<Longrightarrow> verified env a0 xs a'"
  using verified_more [of env a0 xs a a' "[]"] by simp

lemma kept_key: "same_key a a' \<Longrightarrow> v_serverKeyBytes a = v_serverKeyBytes a'"
  by (simp add: same_key_def)

lemma resume_limits:
  assumes "limits env a0 xs w0 a" "ra2_settle (resume_sock a) = Some a'"
  shows "limits env a0 xs w0 a'"
proof (cases "a_point a")
  case WaitLength
  then have a: "sent w0 0 a" "ra2_settle (read_length a) = Some a'"
    using assms by (simp_all add: limits_def resume_sock_def)
  note r = ra2_settled [OF read_length_sent [OF a(1)] a(2)]
  show ?thesis
  proof (rule limits_0)
    show "sent w0 0 a'"
      using r by blast
    show "a_point a' \<in> {NotStarted, WaitLength, WaitKey} \<or> presented a' \<or> failed_at a'"
      using r by blast
  qed
next
  case WaitKey
  then have a: "sent w0 0 a" "ra2_settle (read_key a) = Some a'"
    using assms by (simp_all add: limits_def resume_sock_def)
  show ?thesis
    using ra2_settled [OF read_key_sent [OF a(1)] a(2)] by (intro limits_0) auto
next
  case WaitRandom
  then have a: "sent w0 (518 + v_serverKeyBytes a) a" "approved env a0 xs a" "ra2_settle (read_random a) = Some a'"
    using assms by (simp_all add: limits_def resume_sock_def)
  note r = ra2_settled [OF read_random_sent [OF a(1)] a(3)]
  then have k: "same_key a a'" by simp
  show ?thesis
    using r by (intro limits_2 approved_same [OF a(2) k]) (auto simp: kept_key [OF k])
next
  case WaitHash
  then have a: "sent w0 (556 + v_serverKeyBytes a) a" "approved env a0 xs a" "hash_set env a" "ra2_settle (read_hash a) = Some a'"
    using assms by (simp_all add: limits_def resume_sock_def)
  note r = ra2_settled [OF read_hash_sent [OF a(1)] a(4)]
  then have k: "same_key a a'" by simp
  have "hash_set env a'"
    using r a(3) by (simp add: hash_set_def same_key_def)
  then show ?thesis
    using r by (intro limits_3 approved_same [OF a(2) k]) (auto simp: kept_key [OF k])
next
  case WaitSubtype
  then obtain n where a: "sent w0 n a" "approved env a0 xs a" "verified env a0 xs a" "ra2_settle (read_subtype a) = Some a'"
    using assms by (auto simp: limits_def resume_sock_def)
  note r = ra2_settled [OF read_subtype_sent [OF a(1)] a(4)]
  then have k: "same_key a a'" by simp
  show ?thesis
    using r by (intro limits_4 [of w0 n] approved_same [OF a(2) k] verified_same [OF a(3) k]) (auto simp: failed_at_def)
qed (use assms in \<open>simp_all add: resume_sock_def ra2_settle_def ret_def\<close>)

lemma check_sock_limits:
  "limits env a0 xs w0 a \<Longrightarrow> check_sock a = Some a' \<Longrightarrow> limits env a0 xs w0 a'"
  using resume_limits [of env a0 xs w0 "a\<lparr>a_checkSock := None, a_sockReject := False\<rparr>" a']
  by (auto simp: check_sock_def limits_fields split: option.splits if_splits)

lemma check_credentials_limits:
  assumes "limits env a0 xs w0 a" "check_credentials a = Some a'"
  shows "limits env a0 xs w0 a'"
proof (cases "\<exists>t. a_checkCredentials a = Some t \<and> has_credentials t (a_creds a) \<and> a_point a = WaitCredentials")
  case True
  define b where "b = a\<lparr>a_checkCredentials := None, a_credentialsReject := False\<rparr>"
  have "limits env a0 xs w0 b" "a_point b = WaitCredentials"
    using assms(1) True by (auto simp: b_def limits_fields)
  then obtain n where b: "sent w0 n b" "approved env a0 xs b" "verified env a0 xs b"
    by (auto simp: limits_def)
  have "ra2_settle (after_credentials b) = Some a'"
    using assms(2) True by (auto simp: check_credentials_def b_def Let_def)
  note r = ra2_settled [OF after_credentials_sent [OF b(1)] this]
  then have k: "same_key b a'" by simp
  show ?thesis
    using r by (intro limits_4 [of w0 n] approved_same [OF b(2) k] verified_same [OF b(3) k]) (auto simp: failed_at_def)
next
  case False
  then show ?thesis
    using assms by (auto simp: check_credentials_def limits_fields Let_def split: option.splits if_splits)
qed

lemma check_limits:
  assumes "limits env a0 xs w0 a" "checkInternalEvents a = Some a'"
  shows "limits env a0 xs w0 a'"
proof -
  obtain b where "check_sock a = Some b" "check_credentials b = Some a'"
    using assms(2) by (auto simp: checkInternalEvents_def split: option.splits)
  then show ?thesis
    by (rule check_credentials_limits [OF check_sock_limits [OF assms(1)]])
qed

lemma end_at_limits:
  assumes "limits env a0 xs w0 a"
  shows "limits env a0 xs w0 (end_at pts r a)"
proof (cases "r \<and> a_point a \<in> set pts")
  case True
  then show ?thesis
    unfolding end_at_def by (simp only: if_True simp_thms limits_ended [OF assms])
next
  case False
  then show ?thesis
    unfolding end_at_def by (simp only: if_False assms)
qed

lemma disconnect_limits:
  assumes "limits env a0 xs w0 a"
  shows "limits env a0 xs w0 (ra2_disconnect a)"
  unfolding ra2_disconnect_def Let_def
  by (subst limits_fields(6), rule end_at_limits, subst limits_fields(5), rule end_at_limits,
      subst limits_fields(4), rule end_at_limits, rule assms)

lemma done_limits:
  assumes "ra2_run env xs a0 = Some a" "limits env a0 xs w0 a" "browser_done env a = Some a'"
    "\<And>x. length (e_sha1 env x) = 20"
  shows "limits env a0 (xs @ [BrowserDone]) w0 a'"
proof (cases "a_point a")
  case Generating
  then have a: "sent w0 0 a" "approved env a0 xs a" "ra2_settle (with_client_key env a) = Some a'"
    using assms(2,3) by (simp_all add: limits_def browser_done_def)
  note r = ra2_settled [OF with_client_key_sent [OF a(1)] a(3)]
  then have k: "same_key a a'" by simp
  show ?thesis
    using r by (intro limits_2 approved_more [OF a(2) k]) (auto simp: kept_key [OF k])
next
  case Keying
  then have a: "sent w0 (518 + v_serverKeyBytes a) a" "approved env a0 xs a" "ra2_settle (with_keys env a) = Some a'"
    using assms(2,3) by (simp_all add: limits_def browser_done_def)
  note r = ra2_settled [OF with_keys_sent [OF a(1) assms(4)] a(3)]
  then have k: "same_key a a'" by simp
  show ?thesis
    using r by (intro limits_3 approved_more [OF a(2) k]) (auto simp: kept_key [OF k])
next
  case OpeningHash
  then have a: "sent w0 (556 + v_serverKeyBytes a) a" "approved env a0 xs a" "hash_set env a"
    "ra2_settle (with_hash env a) = Some a'"
    using assms(2,3) by (simp_all add: limits_def browser_done_def)
  note r = ra2_settled [OF with_hash_sent [OF a(1,3)] a(4)]
  then have k: "same_key a a'" by simp
  show ?thesis
  proof (cases "failed_at a'")
    case True
    then show ?thesis
      using r by (intro limits_3 approved_more [OF a(2) k]) (auto simp: kept_key [OF k])
  next
    case False
    then have "hash_opened env a" "a_point a' = WaitSubtype \<or> a_point a' = OpeningSubtype" "sent w0 (556 + v_serverKeyBytes a) a'"
      using r by auto
    moreover have "verified env a0 (xs @ [BrowserDone]) a'"
      unfolding verified_def by (rule happened_now [OF assms(1)]) (use \<open>hash_opened env a\<close> k in \<open>simp add: same_key_def\<close>)
    ultimately show ?thesis
      by (intro limits_4 [of w0 "556 + v_serverKeyBytes a"] approved_more [OF a(2) k]) auto
  qed
next
  case OpeningSubtype
  then obtain n where a: "sent w0 n a" "approved env a0 xs a" "verified env a0 xs a" "ra2_settle (with_subtype env a) = Some a'"
    using assms(2,3) by (auto simp: limits_def browser_done_def)
  note r = ra2_settled [OF with_subtype_sent [OF a(1)] a(4)]
  then have k: "same_key a a'" by simp
  show ?thesis
    using r by (intro limits_4 [of w0 n] approved_more [OF a(2) k] verified_more [OF a(3) k]) (auto simp: failed_at_def)
next
  case Sealing
  then obtain n where a: "sent w0 n a" "approved env a0 xs a" "verified env a0 xs a" "ra2_settle (send_credentials env a) = Some a'"
    using assms(2,3) by (auto simp: limits_def browser_done_def)
  obtain m where r: "sent w0 m a'" "same_key a a'" "a_point a' = Ended None \<or> failed_at a'"
    using ra2_settled [OF send_credentials_sent [OF a(1)] a(4)] by auto
  show ?thesis
    using r by (intro limits_4 [of w0 m] approved_more [OF a(2) r(2)] verified_more [OF a(3) r(2)]) (auto simp: failed_at_def)
qed (use assms limits_more [OF assms(2)] in \<open>simp_all add: browser_done_def\<close>)

lemma approve_limits:
  assumes "ra2_run env xs a0 = Some a" "limits env a0 xs w0 a"
  shows "limits env a0 (xs @ [Approve]) w0 (ra2_approveServer a)"
proof (cases "a_approve a \<and> a_point a = WaitApproval")
  case True
  then have p: "sent w0 0 a" "presented a"
    using assms(2) by (simp_all add: limits_def)
  have e: "ra2_approveServer a = a\<lparr>a_approve := False, a_point := Generating\<rparr>"
    using True by (simp add: ra2_approveServer_def)
  have "approved env a0 (xs @ [Approve]) (ra2_approveServer a)"
    unfolding approved_def by (rule happened_now [OF assms(1)]) (simp add: p e)
  moreover have "sent w0 n (ra2_approveServer a)" for n
    using p(1) by (simp add: sent_def e)
  ultimately show ?thesis
    by (auto simp: limits_def e)
next
  case False
  then have "ra2_approveServer a = a \<or> ra2_approveServer a = a\<lparr>a_approve := False\<rparr>"
    by (auto simp: ra2_approveServer_def)
  moreover have "limits env a0 (xs @ [Approve]) w0 (a\<lparr>a_approve := r\<rparr>) = limits env a0 (xs @ [Approve]) w0 a" for r
    by (simp add: limits_def state_defs)
  ultimately show ?thesis
    using limits_more [OF assms(2)] by auto
qed


lemma start_limits:
  assumes "limits env a0 xs w0 a" "a_point a = NotStarted" "ra2_settle (negotiateRA2neAuthAsync a) = Some a'"
  shows "limits env a0 xs w0 a'"
proof -
  have a: "sent w0 0 a"
    using assms(1,2) by (simp add: limits_def)
  note r = ra2_settled [OF start_sent [OF a] assms(3)]
  show ?thesis
  proof (rule limits_0)
    show "sent w0 0 a'"
      using r by blast
    show "a_point a' \<in> {NotStarted, WaitLength, WaitKey} \<or> presented a' \<or> failed_at a'"
      using r by blast
  qed
qed

text \<open>The function starts once.\<close>

definition fresh :: "ra2_auth \<Rightarrow> bool" where
  "fresh a \<longleftrightarrow> a_started a \<or> a_point a = NotStarted"

abbreviation begun :: "ra2_res \<Rightarrow> bool" where
  "begun m \<equiv> leaves a_started m"

lemma begun_send: "a_started a \<Longrightarrow> begun (ra2_send bs a)"
  by (auto simp: ra2_send_def leaves_def split: option.split prod.split)

lemma begun_await: "a_started a \<Longrightarrow> (a_started a \<Longrightarrow> begun (k a)) \<Longrightarrow> begun (await_sock n pt k a)"
  by (simp add: await_sock_def)

lemma begun_read:
  "a_started (snd (read16 a)) = a_started a" "a_started (snd (read_bytes n a)) = a_started a"
  by (simp_all add: read16_def read_bytes_def split: prod.split)

lemma begun_thrown [simp]: "leaves P (thrown msg a) = P a"
  by (simp add: thrown_def)

lemma begun_readers:
  assumes "a_started a"
  shows "begun (read_random a)" "begun (read_hash a)" "begun (read_subtype a)" "begun (read_key a)"
  using assms
  by (auto simp: read_random_def read_hash_def read_subtype_def read_key_def Let_def read16_def read_bytes_def
      split: prod.split sum.split option.split)

lemma begun_read_length: "a_started a \<Longrightarrow> begun (read_length a)"
  by (auto simp: read_length_def Let_def intro!: begun_await begun_readers split: prod.split)

lemma begun_credentials: "a_started a \<Longrightarrow> begun (after_credentials a)"
  by (auto simp: after_credentials_def split: sum.split)

lemma begun_send_random: "a_started a \<Longrightarrow> begun (send_random env a)"
  by (auto simp: send_random_def Let_def intro!: leaves_seqr begun_send begun_await begun_readers
      split: option.split sum.split)

lemma begun_with_client_key: "a_started a \<Longrightarrow> begun (with_client_key env a)"
  by (auto simp: with_client_key_def Let_def intro!: leaves_seqr begun_send begun_send_random
      split: option.split sum.split prod.split)

lemma begun_with_keys: "a_started a \<Longrightarrow> begun (with_keys env a)"
  by (auto simp: with_keys_def Let_def intro!: leaves_seqr begun_send begun_await begun_readers
      split: option.split sum.split prod.split)

lemma begun_with_hash: "a_started a \<Longrightarrow> begun (with_hash env a)"
  by (auto simp: with_hash_def Let_def intro!: begun_await begun_readers
      split: option.split sum.split prod.split)

lemma begun_with_subtype: "a_started a \<Longrightarrow> begun (with_subtype env a)"
  by (auto simp: with_subtype_def Let_def ask_credentials_def intro!: begun_credentials
      split: option.split sum.split prod.split)

lemma begun_send_credentials: "a_started a \<Longrightarrow> begun (send_credentials env a)"
  by (auto simp: send_credentials_def intro!: leaves_seqr begun_send split: option.split sum.split prod.split)

lemma begun_settle: "begun m \<Longrightarrow> ra2_settle m = Some a \<Longrightarrow> a_started a"
  by (auto simp: ra2_settle_def leaves_def split: option.splits sum.splits prod.splits)


lemma fresh_check:
  assumes "fresh a" "checkInternalEvents a = Some a'"
  shows "fresh a'"
proof -
  obtain b where b: "check_sock a = Some b" "check_credentials b = Some a'"
    using assms(2) by (auto simp: checkInternalEvents_def split: option.splits)
  have r: "fresh c'" if "fresh c" "ra2_settle (resume_sock c) = Some c'" for c c'
  proof (cases "a_started c")
    case True
    have "begun (resume_sock c)"
      using True by (cases "a_point c") (simp_all add: resume_sock_def begun_readers begun_read_length)
    then show ?thesis
      using begun_settle that(2) by (auto simp: fresh_def)
  next
    case False
    then show ?thesis
      using that by (auto simp: fresh_def resume_sock_def ra2_settle_def ret_def)
  qed
  have "fresh b"
    using b(1) assms(1) r [of "a\<lparr>a_checkSock := None, a_sockReject := False\<rparr>" b]
    by (auto simp: check_sock_def fresh_def split: option.splits if_splits)
  then show ?thesis
    using b(2) begun_settle [OF begun_credentials, of "b\<lparr>a_checkCredentials := None, a_credentialsReject := False\<rparr>" a']
    by (auto simp: check_credentials_def fresh_def Let_def split: option.splits if_splits)
qed

lemma fresh_done:
  assumes "fresh a" "browser_done env a = Some a'"
  shows "fresh a'"
proof (cases "a_started a")
  case True
  note r = begun_settle [OF begun_with_client_key [OF True]] begun_settle [OF begun_with_keys [OF True]]
    begun_settle [OF begun_with_hash [OF True]] begun_settle [OF begun_with_subtype [OF True]]
    begun_settle [OF begun_send_credentials [OF True]]
  show ?thesis
    using assms(2) True r by (cases "a_point a") (auto simp: browser_done_def fresh_def)
next
  case False
  then show ?thesis
    using assms by (auto simp: browser_done_def fresh_def)
qed

lemma fresh_step:
  assumes "fresh a" "ra2_step env x a = Some a'"
  shows "fresh a'"
proof (cases x)
  case Start
  have "begun (negotiateRA2neAuthAsync a)"
    unfolding negotiateRA2neAuthAsync_def by (intro begun_await begun_read_length) simp_all
  then have "a_started a'" if "ra2_settle (negotiateRA2neAuthAsync a) = Some a'"
    using that by (rule begun_settle)
  then show ?thesis
    using assms Start by (cases "a_started a") (simp_all add: fresh_def)
next
  case (Arrived bs)
  obtain err q s where s: "recvMessage bs (a_sock a) = (err, q, s)"
    by (cases "recvMessage bs (a_sock a)") auto
  have k: "fresh (a\<lparr>a_sock := s\<rparr>)"
    using assms(1) by (simp add: fresh_def)
  show ?thesis
    using fresh_check [OF k] k assms(2) s Arrived by (auto simp: Let_def split: if_splits)
next
  case Disconnect
  then show ?thesis
    using assms by (auto simp: ra2_disconnect_def end_at_def fresh_def Let_def)
next
  case Approve
  then show ?thesis
    using assms by (auto simp: ra2_approveServer_def fresh_def split: if_splits)
next
  case CheckEvents
  then show ?thesis
    using fresh_check [OF assms(1)] assms(2) by simp
next
  case BrowserDone
  then show ?thesis
    using fresh_done [OF assms(1)] assms(2) by simp
qed (use assms in \<open>auto simp: fresh_def\<close>)

lemma limits_step:
  assumes "ra2_run env xs a0 = Some a" "limits env a0 xs w0 a" "fresh a" "ra2_step env x a = Some a'"
    "\<And>y. length (e_sha1 env y) = 20"
  shows "limits env a0 (xs @ [x]) w0 a'"
proof (cases x)
  case Start
  have "limits env a0 xs w0 a'"
  proof (cases "a_started a")
    case False
    then show ?thesis
      using start_limits [OF assms(2)] assms(3,4) Start by (simp add: fresh_def)
  qed (use assms Start in simp)
  then show ?thesis
    by (rule limits_more)
next
  case (Arrived bs)
  obtain err q s where s: "recvMessage bs (a_sock a) = (err, q, s)"
    by (cases "recvMessage bs (a_sock a)") auto
  have k: "limits env a0 xs w0 (a\<lparr>a_sock := s\<rparr>)"
    using limits_sock [of a s] recv_keeps [of "a_sock a" bs] s assms(2) by simp
  have "limits env a0 xs w0 a'"
    using check_limits [OF k] k assms(4) s Arrived by (auto simp: Let_def split: if_splits)
  then show ?thesis
    by (rule limits_more)
next
  case CheckEvents
  then show ?thesis
    using check_limits [OF assms(2)] assms(4) limits_more by simp
next
  case Approve
  then show ?thesis
    using approve_limits [OF assms(1,2)] assms(4) by simp
next
  case Disconnect
  then show ?thesis
    using disconnect_limits [OF assms(2)] assms(4) limits_more by auto
next
  case (NewCredentials c)
  then show ?thesis
    using assms(2,4) limits_more limits_fields(3) by auto
next
  case BrowserDone
  then show ?thesis
    using done_limits [OF assms(1,2) _ assms(5)] assms(4) by simp
qed

lemma ra2_run_snoc:
  "ra2_run env (xs @ [x]) a = (case ra2_run env xs a of None \<Rightarrow> None | Some b \<Rightarrow> ra2_step env x b)"
  by (induction xs arbitrary: a) (auto split: option.split)

lemma run_limits:
  assumes "sq_ready s" "\<And>y. length (e_sha1 env y) = 20"
  shows "ra2_run env xs (new_ra2 s c) = Some a \<Longrightarrow> limits env (new_ra2 s c) xs (stream s) a \<and> fresh a"
proof (induction xs arbitrary: a rule: rev_induct)
  case Nil
  then show ?case
    using limits_first [OF assms(1)] by (auto simp: fresh_def new_ra2_def)
next
  case (snoc x xs)
  obtain b where b: "ra2_run env xs (new_ra2 s c) = Some b" "ra2_step env x b = Some a"
    using snoc.prems by (auto simp: ra2_run_snoc split: option.splits)
  show ?case
    using snoc.IH [OF b(1)] limits_step [OF b(1) _ _ b(2) assms(2)] fresh_step [OF _ b(2)] by blast
qed

text \<open>
  C10. What RSA-AES sends before the server is trusted, whatever the page, the server and the browser do and
  in whatever order.  Nothing at all is sent before the page has approved the server's public key,
  which had been shown to it.  And after the client's public key (516 bytes), its encrypted random
  bytes (as long as the server's key, and a length field) and its hash (38 bytes) nothing more is sent, so no
  credentials, unless the server has answered with the hash of both public keys, the approved one
  among them, sealed under the session key.
\<close>

theorem ra2_trust:
  assumes "sq_ready s" "\<And>y. length (e_sha1 env y) = 20" "ra2_run env xs (new_ra2 s c) = Some a"
  shows "\<exists>w. stream (a_sock a) = stream s @ w
    \<and> (w \<noteq> [] \<longrightarrow> happened env (new_ra2 s c) xs Approve
          (\<lambda>b. presented b \<and> v_serverPublickey b = v_serverPublickey a))
    \<and> (length w > 516 + (2 + v_serverKeyBytes a) + 38 \<longrightarrow> happened env (new_ra2 s c) xs BrowserDone
          (\<lambda>b. hash_opened env b \<and> v_serverPublickey b = v_serverPublickey a))"
proof -
  have l: "limits env (new_ra2 s c) xs (stream s) a"
    using run_limits [OF assms] by simp
  then obtain n where "sent (stream s) n a"
    unfolding limits_def by blast
  then obtain w where w: "stream (a_sock a) = stream s @ w"
    by (auto simp: sent_def)
  have len: "length w \<le> m" if "sent (stream s) m a" for m
    using that w by (auto simp: sent_def)
  have "w = [] \<or> approved env (new_ra2 s c) xs a"
    using l len [of 0] unfolding limits_def le_zero_eq length_0_conv by blast
  moreover have "length w \<le> 556 + v_serverKeyBytes a \<or> verified env (new_ra2 s c) xs a"
    using l len [of "556 + v_serverKeyBytes a"] unfolding limits_def by blast
  ultimately show ?thesis
    using w unfolding approved_def verified_def by (intro exI [of _ w] conjI) (assumption, blast, auto)
qed

end
