(* ===== verification/Ra2Honest.thy ===== *)
theory Ra2Honest
  imports Ra2Trust
begin

text \<open>
  A complete run of the RSA-AES authentication with an honest server.
\<close>

section \<open>The server\<close>

text \<open>What an honest server has: its key and the public part of it, random bytes, the padding it
  draws, and the kind of credentials that it asks for.\<close>

record ra2_server =
  sv_bits :: nat
  sv_n :: "byte list"
  sv_e :: "byte list"
  sv_key :: rsa_key
  sv_random :: "byte list"
  sv_padding :: "nat \<Rightarrow> byte list"
  sv_subtype :: byte

definition sv_bytes :: "ra2_server \<Rightarrow> nat" where
  "sv_bytes sv = (sv_bits sv + 7) div 8"

definition hello :: "ra2_server \<Rightarrow> byte list" where
  "hello sv = [u8_of (drop_bit 24 (int (sv_bits sv))), u8_of (drop_bit 16 (int (sv_bits sv))),
     u8_of (drop_bit 8 (int (sv_bits sv))), u8_of (int (sv_bits sv))] @ sv_n sv @ sv_e sv"

text \<open>The socket of the client with \<open>bs\<close> to be read and \<open>w\<close> written.\<close>

definition holds_bytes :: "ra2_auth \<Rightarrow> byte list \<Rightarrow> byte list \<Rightarrow> bool" where
  "holds_bytes a bs w \<longleftrightarrow>
     rq_wf (a_sock a) \<and> unread (a_sock a) = bs \<and> sq_ready (a_sock a) \<and> stream (a_sock a) = w"

lemma adv_stream: "stream (adv n s) = stream s" "sq_ready (adv n s) = sq_ready s"
  by (simp_all add: adv_def stream_rq)

lemma holds_read_bytes:
  assumes "holds_bytes a bs w" "n \<le> length bs"
  obtains s where "read_bytes n a = (take n bs, a\<lparr>a_sock := s\<rparr>)" "holds_bytes (a\<lparr>a_sock := s\<rparr>) (drop n bs) w"
  using assms that [of "adv n (a_sock a)"]
  by (simp add: read_bytes_def holds_bytes_def rq_simps adv_stream)

lemma holds_read16:
  assumes "holds_bytes a bs w" "2 \<le> length bs"
  obtains s where "read16 a = (be (take 2 bs), a\<lparr>a_sock := s\<rparr>)" "holds_bytes (a\<lparr>a_sock := s\<rparr>) (drop 2 bs) w"
  using assms that [of "adv 2 (a_sock a)"]
  by (simp add: read16_def holds_bytes_def rq_simps adv_stream)

lemma holds_send:
  assumes "holds_bytes a bs w"
  obtains s where "ra2_send m a = ret () (a\<lparr>a_sock := s\<rparr>)" "holds_bytes (a\<lparr>a_sock := s\<rparr>) bs (w @ m)"
proof -
  have r: "sq_ready (a_sock a)"
    using assms by (simp add: holds_bytes_def)
  obtain s where s: "sq_run [PushBytes m, Flush] (a_sock a) = Some (Inr s)" "sends (a_sock a) m s"
    using sq.run_appends [OF r, of "[PushBytes m, Flush]"] by auto
  have "sq_exec [PushBytes m, Flush] (a_sock a) = Some (Inr (), s)"
    using s(1) sq_exec_run [of "[PushBytes m, Flush]" "a_sock a"] by (auto split: option.splits sum.splits prod.splits)
  then show ?thesis
    using s(2) assms that [of s] sends_unread [OF s(2)] sends_wf [OF s(2)]
    by (simp add: ra2_send_def ret_def holds_bytes_def sends_def)
qed

lemma holds_wait: "holds_bytes a bs w \<Longrightarrow> rQwait n (a_sock a) \<longleftrightarrow> length bs < n"
  by (simp add: holds_bytes_def rq_simps)

lemma await_empty:
  "holds_bytes a [] w \<Longrightarrow> 0 < n \<Longrightarrow>
    await_sock n pt k a = ret () (a\<lparr>a_checkSock := Some n, a_sockReject := True, a_point := pt\<rparr>)"
  by (simp add: await_sock_def holds_wait)

text \<open>Data that arrives while the function waits for more is only kept, and wakes it when it completes
  what it waits for.\<close>

lemma received:
  assumes "holds_bytes a u w" "length (u @ bs) < 10000"
  obtains q s where "recvMessage bs (a_sock a) = (None, q, s)" "holds_bytes (a\<lparr>a_sock := s\<rparr>) (u @ bs) w"
proof -
  have "rq_wf (a_sock a)" "accepts bs (a_sock a)"
    using assms by (simp_all add: holds_bytes_def accepts_def MAX_RQ_GROW_SIZE_def)
  from recvMessage_accepts [OF this]
  obtain q s where s: "recvMessage bs (a_sock a) = (None, q, s)" "rq_wf s" "unread s = u @ bs"
    using assms(1) by (auto simp: holds_bytes_def)
  then have "holds_bytes (a\<lparr>a_sock := s\<rparr>) (u @ bs) w"
    using recv_keeps [of "a_sock a" bs] assms(1) by (simp add: holds_bytes_def same_stream_def)
  then show ?thesis
    using that s(1) by blast
qed

lemma arrives_short:
  assumes "holds_bytes a u w" "a_checkSock a = Some n" "a_checkCredentials a = None"
    "length (u @ bs) < n" "length (u @ bs) < 10000"
  obtains s where "ra2_step env (Arrived bs) a = Some (a\<lparr>a_sock := s\<rparr>)" "holds_bytes (a\<lparr>a_sock := s\<rparr>) (u @ bs) w"
proof -
  obtain q s where s: "recvMessage bs (a_sock a) = (None, q, s)" "holds_bytes (a\<lparr>a_sock := s\<rparr>) (u @ bs) w"
    by (rule received [OF assms(1,5)])
  have "ra2_step env (Arrived bs) a = Some (a\<lparr>a_sock := s\<rparr>)"
    using assms(2-4) s(1) holds_wait [OF s(2), of n]
    by (simp add: checkInternalEvents_def check_sock_def check_credentials_def Let_def)
  then show ?thesis
    using that s(2) by blast
qed

lemma arrives_last:
  assumes "holds_bytes a u w" "a_checkSock a = Some n" "a_checkCredentials a = None"
    "n \<le> length (u @ bs)" "length (u @ bs) < 10000"
  obtains s where "holds_bytes (a\<lparr>a_sock := s, a_checkSock := None, a_sockReject := False\<rparr>) (u @ bs) w"
    "\<And>a'. ra2_settle (resume_sock (a\<lparr>a_sock := s, a_checkSock := None, a_sockReject := False\<rparr>)) = Some a' \<Longrightarrow>
       a_checkCredentials a' = None \<Longrightarrow> ra2_step env (Arrived bs) a = Some a'"
proof -
  obtain q s where s: "recvMessage bs (a_sock a) = (None, q, s)" "holds_bytes (a\<lparr>a_sock := s\<rparr>) (u @ bs) w"
    by (rule received [OF assms(1,5)])
  show ?thesis
  proof (rule that [of s])
    show "holds_bytes (a\<lparr>a_sock := s, a_checkSock := None, a_sockReject := False\<rparr>) (u @ bs) w"
      using s(2) by (simp add: holds_bytes_def)
    show "ra2_step env (Arrived bs) a = Some a'"
      if "ra2_settle (resume_sock (a\<lparr>a_sock := s, a_checkSock := None, a_sockReject := False\<rparr>)) = Some a'"
        "a_checkCredentials a' = None" for a'
      using that assms(2,4) s(1) holds_wait [OF s(2), of n]
      by (simp add: checkInternalEvents_def check_sock_def check_credentials_def Let_def)
  qed
qed

text \<open>Data in several parts, of which the last completes it.\<close>

lemma arrives:
  assumes "holds_bytes a u w" "a_checkSock a = Some n" "a_checkCredentials a = None"
    "cs \<noteq> []" "length (u @ concat (butlast cs)) < n" "n \<le> length (u @ concat cs)" "length (u @ concat cs) < 10000"
  shows "\<exists>s. holds_bytes (a\<lparr>a_sock := s, a_checkSock := None, a_sockReject := False\<rparr>) (u @ concat cs) w
    \<and> (\<forall>a'. ra2_settle (resume_sock (a\<lparr>a_sock := s, a_checkSock := None, a_sockReject := False\<rparr>)) = Some a' \<longrightarrow>
         a_checkCredentials a' = None \<longrightarrow> ra2_run env (map Arrived cs) a = Some a')"
  using assms
proof (induction cs arbitrary: a u)
  case (Cons b cs)
  show ?case
  proof (cases "cs = []")
    case True
    obtain s where "holds_bytes (a\<lparr>a_sock := s, a_checkSock := None, a_sockReject := False\<rparr>) (u @ b) w"
      "\<And>a'. ra2_settle (resume_sock (a\<lparr>a_sock := s, a_checkSock := None, a_sockReject := False\<rparr>)) = Some a' \<Longrightarrow>
         a_checkCredentials a' = None \<Longrightarrow> ra2_step env (Arrived b) a = Some a'"
      using arrives_last [OF Cons.prems(1-3), of b env] Cons.prems(6,7) True by auto
    then show ?thesis
      using True by auto
  next
    case False
    have l: "length (u @ b) < n" "length (u @ b) < 10000"
      using Cons.prems(5,7) False by auto
    obtain s where s: "ra2_step env (Arrived b) a = Some (a\<lparr>a_sock := s\<rparr>)" "holds_bytes (a\<lparr>a_sock := s\<rparr>) (u @ b) w"
      by (rule arrives_short [OF Cons.prems(1-3) l])
    show ?thesis
      using Cons.IH [of "a\<lparr>a_sock := s\<rparr>" "u @ b"] Cons.prems s False by simp
  qed
qed simp

text \<open>The parts of a message.\<close>

definition in_parts :: "byte list \<Rightarrow> byte list list \<Rightarrow> bool" where
  "in_parts m cs \<longleftrightarrow> cs \<noteq> [] \<and> last cs \<noteq> [] \<and> concat cs = m"

lemma concat_butlast: "cs \<noteq> [] \<Longrightarrow> concat cs = concat (butlast cs) @ last cs"
  by (metis append_butlast_last_id concat_snoc)

lemma in_partsD:
  assumes "in_parts m cs"
  shows "cs \<noteq> []" "concat cs = m" "length (concat (butlast cs)) < length m"
  using assms concat_butlast [of cs] by (auto simp: in_parts_def)

lemma in_one_part: "m \<noteq> [] \<Longrightarrow> in_parts m [m]"
  by (simp add: in_parts_def)

lemma in_two_parts: "n < length m \<Longrightarrow> in_parts m [take n m, drop n m]"
  by (simp add: in_parts_def)

text \<open>The first parts that make up \<open>n\<close> bytes.\<close>

lemma reaching:
  "length u < n \<Longrightarrow> n \<le> length (u @ concat cs) \<Longrightarrow>
     \<exists>xs ys. cs = xs @ ys \<and> xs \<noteq> [] \<and> length (u @ concat (butlast xs)) < n \<and> n \<le> length (u @ concat xs)"
proof (induction cs arbitrary: u)
  case (Cons b cs)
  show ?case
  proof (cases "n \<le> length (u @ b)")
    case True
    then show ?thesis
      using Cons.prems(1) by (intro exI [of _ "[b]"] exI [of _ cs]) simp
  next
    case False
    obtain xs ys where "cs = xs @ ys" "xs \<noteq> []" "length ((u @ b) @ concat (butlast xs)) < n" "n \<le> length ((u @ b) @ concat xs)"
      using Cons.IH [of "u @ b"] False Cons.prems(2) by auto
    then show ?thesis
      by (intro exI [of _ "b # xs"] exI [of _ ys]) simp
  qed
qed simp

lemma run_append: "ra2_run env xs a = Some b \<Longrightarrow> ra2_run env ys b = Some d \<Longrightarrow> ra2_run env (xs @ ys) a = Some d"
  by (induction xs arbitrary: a) (auto split: option.splits)

section \<open>Step by step\<close>

lemma three_sets:
  assumes "length b0 = 4"
  shows "u8_set (4 + length n) e (u8_set 4 n (u8_set 0 b0 (replicate (4 + (length n + length e)) 0))) = b0 @ n @ e"
  using assms by (simp add: u8_set_def)

lemma hello_length: "length (hello sv) = 4 + length (sv_n sv) + length (sv_e sv)"
  by (simp add: hello_def)

lemma hello_parts:
  "take 4 (hello sv) @ sv_n sv @ sv_e sv = hello sv" "drop 4 (hello sv) = sv_n sv @ sv_e sv"
  "sv_bits sv < 2 ^ 32 \<Longrightarrow> be (take 4 (hello sv)) = sv_bits sv"
  using be_bytes32 [of "int (sv_bits sv)"] by (simp_all add: hello_def to_uint32_small)

text \<open>The key that an honest server sends.\<close>

definition good_key :: "ra2_server \<Rightarrow> rsa_key \<Rightarrow> bool" where
  "good_key sv pub \<longleftrightarrow>
     1024 \<le> sv_bits sv \<and> sv_bits sv \<le> 8192 \<and> length (sv_n sv) = sv_bytes sv \<and> length (sv_e sv) = sv_bytes sv
     \<and> rsa_importKey (sv_n sv) (sv_e sv) False [''encrypt''] = Inr pub"

definition ready_at :: "ra2_point \<Rightarrow> credentials \<Rightarrow> byte list \<Rightarrow> ra2_auth \<Rightarrow> bool" where
  "ready_at pt c w a \<longleftrightarrow>
     a_point a = pt \<and> a_creds a = c \<and> a_checkCredentials a = None \<and> holds_bytes a [] w"

lemma start_step:
  assumes "holds_bytes a [] w" "a_started a = False" "a_checkCredentials a = None"
  obtains a' where "ra2_step env Start a = Some a'" "ready_at WaitLength (a_creds a) w a'" "a_checkSock a' = Some 4"
proof
  have "holds_bytes (a\<lparr>a_started := True\<rparr>) [] w"
    using assms(1) by (simp add: holds_bytes_def)
  then show "ra2_step env Start a = Some (a\<lparr>a_started := True, a_checkSock := Some 4, a_sockReject := True, a_point := WaitLength\<rparr>)"
    using assms(2) by (simp add: negotiateRA2neAuthAsync_def await_empty ra2_settle_def ret_def)
qed (use assms in \<open>simp_all add: ready_at_def holds_bytes_def\<close>)

lemma read_key_step:
  assumes "holds_bytes a (n @ e) w" "v_serverKeyBytes a = length n" "length e = length n"
    "length (v_serverKeyLengthBuffer a) = 4" "rsa_importKey n e False [''encrypt''] = Inr pub"
  obtains s where "holds_bytes (a\<lparr>a_sock := s\<rparr>) [] w"
    "read_key a = ret () (a\<lparr>a_sock := s, v_serverRSA := Some pub, v_serverPublickey := v_serverKeyLengthBuffer a @ n @ e,
       a_approve := True, a_approveReject := True,
       a_events := a_events a @ [ServerVerification (v_serverKeyLengthBuffer a @ n @ e)], a_point := WaitApproval\<rparr>)"
proof -
  obtain s1 where 1: "read_bytes (length n) a = (n, a\<lparr>a_sock := s1\<rparr>)" "holds_bytes (a\<lparr>a_sock := s1\<rparr>) e w"
    using holds_read_bytes [OF assms(1), of "length n"] by auto
  obtain s2 where 2: "read_bytes (length n) (a\<lparr>a_sock := s1\<rparr>) = (e, a\<lparr>a_sock := s2\<rparr>)" "holds_bytes (a\<lparr>a_sock := s2\<rparr>) [] w"
    using holds_read_bytes [OF 1(2), of "length n"] assms(3) by auto
  have p: "u8_set (4 + length n) e (u8_set 4 n (u8_set 0 (v_serverKeyLengthBuffer a)
      (replicate (4 + length n * 2) 0))) = v_serverKeyLengthBuffer a @ n @ e"
    using three_sets [OF assms(4), of n e] unfolding assms(3) mult_2_right [symmetric] .
  show ?thesis
  proof (rule that [OF 2(2)])
    show "read_key a = ret () (a\<lparr>a_sock := s2, v_serverRSA := Some pub, v_serverPublickey := v_serverKeyLengthBuffer a @ n @ e,
       a_approve := True, a_approveReject := True,
       a_events := a_events a @ [ServerVerification (v_serverKeyLengthBuffer a @ n @ e)], a_point := WaitApproval\<rparr>)"
      using 1(1) 2(1) p assms(2,5) by (simp add: read_key_def Let_def)
  qed
qed

text \<open>The key has arrived.\<close>

lemma key_arrived:
  assumes "holds_bytes g (sv_n sv @ sv_e sv) w" "v_serverKeyBytes g = sv_bytes sv" "v_serverKeyLengthBuffer g = take 4 (hello sv)"
    "a_creds g = c" "a_checkCredentials g = None" "good_key sv pub"
  shows "\<exists>a'. ra2_settle (read_key g) = Some a' \<and> ready_at WaitApproval c w a' \<and> a_approve a' \<and> v_serverRSA a' = Some pub
    \<and> v_serverKeyBytes a' = sv_bytes sv \<and> v_serverPublickey a' = hello sv"
proof -
  have b: "length (sv_n sv) = sv_bytes sv" "length (sv_e sv) = sv_bytes sv" "rsa_importKey (sv_n sv) (sv_e sv) False [''encrypt''] = Inr pub"
    using assms(6) by (simp_all add: good_key_def)
  obtain t where t: "holds_bytes (g\<lparr>a_sock := t\<rparr>) [] w"
    "read_key g = ret () (g\<lparr>a_sock := t, v_serverRSA := Some pub, v_serverPublickey := v_serverKeyLengthBuffer g @ sv_n sv @ sv_e sv,
       a_approve := True, a_approveReject := True,
       a_events := a_events g @ [ServerVerification (v_serverKeyLengthBuffer g @ sv_n sv @ sv_e sv)], a_point := WaitApproval\<rparr>)"
  proof (rule read_key_step [OF assms(1) _ _ _ b(3)])
    show "v_serverKeyBytes g = length (sv_n sv)" "length (sv_e sv) = length (sv_n sv)"
      using b assms(2) by simp_all
    show "length (v_serverKeyLengthBuffer g) = 4"
      using assms(3) by (simp add: hello_length)
  qed
  show ?thesis
    unfolding t(2) using assms t(1) hello_parts(1) [of sv] by (simp add: ra2_settle_def ret_def ready_at_def holds_bytes_def)
qed

lemma hello_step:
  assumes "ready_at WaitLength c w a" "a_checkSock a = Some 4" "good_key sv pub" "in_parts (hello sv) cs"
  obtains a' where "ra2_run env (map Arrived cs) a = Some a'" "ready_at WaitApproval c w a'"
    "a_approve a'" "v_serverRSA a' = Some pub" "v_serverKeyBytes a' = sv_bytes sv" "v_serverPublickey a' = hello sv"
proof -
  have b: "1024 \<le> sv_bits sv" "sv_bits sv \<le> 8192" "length (sv_n sv) = sv_bytes sv" "length (sv_e sv) = sv_bytes sv"
    using assms(3) by (simp_all add: good_key_def)
  have kb: "128 \<le> sv_bytes sv" "sv_bytes sv \<le> 1024"
    using b(1,2) by (simp_all add: sv_bytes_def)
  have l: "length (hello sv) = 4 + sv_bytes sv * 2"
    using b(3,4) by (simp add: hello_length)
  have a: "holds_bytes a [] w" "a_checkCredentials a = None" "a_point a = WaitLength" "a_creds a = c"
    using assms(1) by (simp_all add: ready_at_def)
  note p = in_partsD [OF assms(4)]
  obtain xs ys where xy: "cs = xs @ ys" "xs \<noteq> []" "length (concat (butlast xs)) < 4" "4 \<le> length (concat xs)"
    using reaching [of "[]" 4 cs] p(2) l by auto
  have whole: "concat xs @ concat ys = hello sv"
    using p(2) xy(1) by simp
  then have len: "length (concat xs) + length (concat ys) = 4 + sv_bytes sv * 2"
    using l by (metis length_append)
  obtain s where s: "holds_bytes (a\<lparr>a_sock := s, a_checkSock := None, a_sockReject := False\<rparr>) (concat xs) w"
    "\<And>a'. ra2_settle (resume_sock (a\<lparr>a_sock := s, a_checkSock := None, a_sockReject := False\<rparr>)) = Some a' \<Longrightarrow>
       a_checkCredentials a' = None \<Longrightarrow> ra2_run env (map Arrived xs) a = Some a'"
    using arrives [OF a(1) assms(2) a(2) xy(2), of env] xy(3,4) len kb by auto
  define d where "d = a\<lparr>a_checkSock := None, a_sockReject := False, v_serverKeyLengthBuffer := take 4 (hello sv),
    a_sock := adv 4 s, v_serverKeyBytes := sv_bytes sv\<rparr>"
  have h: "rq_wf s" "unread s = concat xs" "sq_ready s" "stream s = w"
    using s(1) by (simp_all add: holds_bytes_def)
  have four: "take 4 (concat xs) = take 4 (hello sv)" "drop 4 (concat xs) @ concat ys = sv_n sv @ sv_e sv"
    using xy(4) hello_parts(2) [of sv] by (simp_all flip: whole)
  have d: "holds_bytes d (drop 4 (concat xs)) w"
    using h xy(4) by (simp add: holds_bytes_def d_def rq_simps adv_stream)
  have "be (take 4 (hello sv)) = sv_bits sv"
    using b(2) by (intro hello_parts(3)) simp
  then have "read_length (a\<lparr>a_sock := s, a_checkSock := None, a_sockReject := False\<rparr>)
      = await_sock (sv_bytes sv * 2) WaitKey read_key d"
    using h xy(4) b(1,2) four(1) by (simp add: read_length_def Let_def rq_simps d_def sv_bytes_def)
  then have r: "resume_sock (a\<lparr>a_sock := s, a_checkSock := None, a_sockReject := False\<rparr>)
      = await_sock (sv_bytes sv * 2) WaitKey read_key d"
    using a(3) by (simp add: resume_sock_def)
  show ?thesis
  proof (cases "ys = []")
    case True
    then have "read_key d = await_sock (sv_bytes sv * 2) WaitKey read_key d"
      using d len by (simp add: await_sock_def holds_wait)
    moreover have "holds_bytes d (sv_n sv @ sv_e sv) w"
      using d four(2) True by simp
    ultimately obtain a' where a': "ra2_settle (await_sock (sv_bytes sv * 2) WaitKey read_key d) = Some a'"
      "ready_at WaitApproval c w a'" "a_approve a'" "v_serverRSA a' = Some pub" "v_serverKeyBytes a' = sv_bytes sv" "v_serverPublickey a' = hello sv"
      using key_arrived [of d sv w c pub] assms(3) a(2,4) by (auto simp: d_def)
    show ?thesis
      by (rule that [OF _ a'(2-6)]) (use s(2) [unfolded r, OF a'(1)] a'(2) True xy(1) in \<open>simp add: ready_at_def\<close>)
  next
    case False
    define e where "e = d\<lparr>a_checkSock := Some (sv_bytes sv * 2), a_sockReject := True, a_point := WaitKey\<rparr>"
    have "last ys \<noteq> []"
      using assms(4) False xy(1) by (simp add: in_parts_def)
    then have some: "length (concat (butlast ys)) < length (concat ys)"
      using concat_butlast [OF False] by simp
    then have short: "length (concat xs) < 4 + sv_bytes sv * 2"
      using len by simp
    then have "await_sock (sv_bytes sv * 2) WaitKey read_key d = ret () e"
      using d xy(4) by (simp add: await_sock_def holds_wait e_def) linarith
    then have 1: "ra2_run env (map Arrived xs) a = Some e"
      using s(2) [of e] r a(2) by (simp add: ra2_settle_def ret_def e_def d_def)
    have e: "holds_bytes e (drop 4 (concat xs)) w" "a_checkSock e = Some (sv_bytes sv * 2)" "a_checkCredentials e = None" "a_point e = WaitKey"
      using d a(2) by (simp_all add: e_def holds_bytes_def) (simp add: d_def)
    have parts: "length (drop 4 (concat xs) @ concat (butlast ys)) < sv_bytes sv * 2"
      "sv_bytes sv * 2 \<le> length (drop 4 (concat xs) @ concat ys)" "length (drop 4 (concat xs) @ concat ys) < 10000"
      using some len xy(4) kb unfolding length_append length_drop by linarith+
    obtain t where t: "holds_bytes (e\<lparr>a_sock := t, a_checkSock := None, a_sockReject := False\<rparr>) (drop 4 (concat xs) @ concat ys) w"
      "\<And>a'. ra2_settle (resume_sock (e\<lparr>a_sock := t, a_checkSock := None, a_sockReject := False\<rparr>)) = Some a' \<Longrightarrow>
         a_checkCredentials a' = None \<Longrightarrow> ra2_run env (map Arrived ys) e = Some a'"
      using arrives [OF e(1-3) False, of env] parts by blast
    define g where "g = e\<lparr>a_sock := t, a_checkSock := None, a_sockReject := False\<rparr>"
    obtain a' where a': "ra2_settle (read_key g) = Some a'"
      "ready_at WaitApproval c w a'" "a_approve a'" "v_serverRSA a' = Some pub" "v_serverKeyBytes a' = sv_bytes sv" "v_serverPublickey a' = hello sv"
      using key_arrived [of g sv w c pub] t(1) four(2) assms(3) a(2,4) by (auto simp: g_def e_def d_def)
    have "ra2_run env (map Arrived ys) e = Some a'"
      by (rule t(2)) (use a'(1,2) e(4) in \<open>simp_all add: resume_sock_def ready_at_def flip: g_def\<close>, simp add: g_def)
    then show ?thesis
      using that [OF _ a'(2-6)] run_append [OF 1] xy(1) by simp
  qed
qed

lemma approve_step:
  assumes "ready_at WaitApproval c w a" "a_approve a"
  shows "ra2_step env Approve a = Some (a\<lparr>a_approve := False, a_point := Generating\<rparr>)"
    "ready_at Generating c w (a\<lparr>a_approve := False, a_point := Generating\<rparr>)"
  using assms by (simp_all add: ready_at_def ra2_approveServer_def holds_bytes_def)


lemma two_sets: "length b0 = 2 \<Longrightarrow> length c = k \<Longrightarrow> u8_set 2 c (u8_set 0 b0 (replicate (2 + k) 0)) = b0 @ c"
  by (simp add: u8_set_def)

lemma length_field_length [simp]: "length (length_field n) = 2"
  by (simp add: length_field_def)

text \<open>What stays from one step to the next.\<close>

definition keeps_keys :: "ra2_auth \<Rightarrow> ra2_auth \<Rightarrow> bool" where
  "keeps_keys a a' \<longleftrightarrow> same_key a a' \<and> v_clientRSA a' = v_clientRSA a \<and> v_clientPublicKey a' = v_clientPublicKey a"

lemma client_key_step:
  assumes "ready_at Generating c w a" "v_serverRSA a = Some pub" "v_serverKeyBytes a = rsa_keyBytes pub"
    "length c1 = rsa_keyBytes pub" "rsa_encrypt (e_padding env) pub (e_random env) = Inr (Some c1)"
    "rsa_generateKey (e_key env) 2048 True = Inr k" "rsa_exportKey k = Inr (n, e, d)"
  obtains a' where "ra2_step env BrowserDone a = Some a'"
    "ready_at WaitRandom c (w @ client_public_key n e @ length_field (rsa_keyBytes pub) @ c1) a'"
    "a_checkSock a' = Some 2" "same_key a a'" "v_clientRSA a' = Some k" "v_clientPublicKey a' = client_public_key n e"
proof -
  note c1 = assms(4,5)
  define b where "b = a\<lparr>v_clientRSA := Some k, v_clientPublicKey := client_public_key n e\<rparr>"
  have b: "holds_bytes b [] w"
    using assms(1) by (simp add: ready_at_def holds_bytes_def b_def)
  obtain s where s: "ra2_send (client_public_key n e) b = ret () (b\<lparr>a_sock := s\<rparr>)"
    "holds_bytes (b\<lparr>a_sock := s\<rparr>) [] (w @ client_public_key n e)"
    using holds_send [OF b] by metis
  obtain t where t: "ra2_send (length_field (rsa_keyBytes pub) @ c1) (b\<lparr>a_sock := s\<rparr>) = ret () (b\<lparr>a_sock := t\<rparr>)"
    "holds_bytes (b\<lparr>a_sock := t\<rparr>) [] ((w @ client_public_key n e) @ length_field (rsa_keyBytes pub) @ c1)"
    using holds_send [OF s(2), of "length_field (rsa_keyBytes pub) @ c1"] by auto
  have v: "v_serverRSA (b\<lparr>a_sock := s\<rparr>) = Some pub" "v_serverKeyBytes (b\<lparr>a_sock := s\<rparr>) = rsa_keyBytes pub"
    using assms(2,3) by (simp_all add: b_def)
  have "send_random env (b\<lparr>a_sock := s\<rparr>) = await_sock 2 WaitRandom read_random (b\<lparr>a_sock := t\<rparr>)"
    using c1 t(1) two_sets [OF length_field_length c1(1), of "rsa_keyBytes pub"]
    by (simp add: send_random_def v Let_def)
  also have "\<dots> = ret () (b\<lparr>a_sock := t, a_checkSock := Some 2, a_sockReject := True, a_point := WaitRandom\<rparr>)"
    using t(2) by (simp add: await_empty)
  finally have "with_client_key env a = ret () (b\<lparr>a_sock := t, a_checkSock := Some 2, a_sockReject := True, a_point := WaitRandom\<rparr>)"
    using assms(6,7) s(1) by (simp add: with_client_key_def Let_def b_def)
  then have "ra2_step env BrowserDone a = Some (b\<lparr>a_sock := t, a_checkSock := Some 2, a_sockReject := True, a_point := WaitRandom\<rparr>)"
    using assms(1) by (simp add: ready_at_def browser_done_def ra2_settle_def ret_def)
  then show ?thesis
    by (rule that) (use assms(1) t(2) c1 in \<open>simp_all add: ready_at_def holds_bytes_def b_def same_key_def\<close>)
qed

text \<open>A message whose length field is read first.\<close>

lemma arrives_field:
  assumes "ready_at pt c w a" "a_checkSock a = Some n" "n \<le> length (f @ y)" "length (f @ y) < 10000" "length f = 2"
    "in_parts (f @ y) cs" "length (concat (butlast cs)) < n"
  obtains s where
    "read16 (a\<lparr>a_sock := s, a_checkSock := None, a_sockReject := False\<rparr>) = (be f, a\<lparr>a_sock := adv 2 s, a_checkSock := None, a_sockReject := False\<rparr>)"
    "read_bytes (length y) (a\<lparr>a_sock := adv 2 s, a_checkSock := None, a_sockReject := False\<rparr>)
      = (y, a\<lparr>a_sock := adv (length y) (adv 2 s), a_checkSock := None, a_sockReject := False\<rparr>)"
    "holds_bytes (a\<lparr>a_sock := adv (length y) (adv 2 s)\<rparr>) [] w"
    "\<And>a'. ra2_settle (resume_sock (a\<lparr>a_sock := s, a_checkSock := None, a_sockReject := False\<rparr>)) = Some a' \<Longrightarrow>
       a_checkCredentials a' = None \<Longrightarrow> ra2_run env (map Arrived cs) a = Some a'"
proof -
  have a: "holds_bytes a [] w" "a_checkCredentials a = None"
    using assms(1) by (simp_all add: ready_at_def)
  obtain s where s: "holds_bytes (a\<lparr>a_sock := s, a_checkSock := None, a_sockReject := False\<rparr>) (f @ y) w"
    "\<And>a'. ra2_settle (resume_sock (a\<lparr>a_sock := s, a_checkSock := None, a_sockReject := False\<rparr>)) = Some a' \<Longrightarrow>
       a_checkCredentials a' = None \<Longrightarrow> ra2_run env (map Arrived cs) a = Some a'"
    using arrives [OF a(1) assms(2) a(2) in_partsD(1) [OF assms(6)], of env] in_partsD(2) [OF assms(6)] assms(3,4,7)
    by auto
  then have h: "rq_wf s" "unread s = f @ y" "sq_ready s" "stream s = w"
    by (simp_all add: holds_bytes_def)
  have h2: "rq_wf (adv 2 s)" "unread (adv 2 s) = y"
    using h assms(5) by (simp_all add: rq_simps)
  show ?thesis
  proof (rule that [of s])
    show "read16 (a\<lparr>a_sock := s, a_checkSock := None, a_sockReject := False\<rparr>) = (be f, a\<lparr>a_sock := adv 2 s, a_checkSock := None, a_sockReject := False\<rparr>)"
      using h assms(5) by (simp add: read16_def rq_simps)
    show "read_bytes (length y) (a\<lparr>a_sock := adv 2 s, a_checkSock := None, a_sockReject := False\<rparr>)
      = (y, a\<lparr>a_sock := adv (length y) (adv 2 s), a_checkSock := None, a_sockReject := False\<rparr>)"
      using h2 by (simp add: read_bytes_def rq_simps)
    show "holds_bytes (a\<lparr>a_sock := adv (length y) (adv 2 s)\<rparr>) [] w"
      using h h2 rQshiftBytes_unread [OF h2(1), of "length y"] adv_wf [OF h2(1), of "length y"] adv_unread [of "length y" "adv 2 s"]
      by (simp add: holds_bytes_def adv_stream del: adv_adv)
  qed (use s(2) in simp)
qed

lemma random_step:
  assumes "ready_at WaitRandom c w a" "a_checkSock a = Some 2" "v_clientRSA a = Some k" "length c2 = 256"
    "rsa_decrypt k c2 = Inr (Some r)" "length r = 16"
    "in_parts ([1, 0] @ c2) cs" "length (concat (butlast cs)) < 2"
  obtains a' where "ra2_run env (map Arrived cs) a = Some a'" "ready_at Keying c w a'" "keeps_keys a a'"
    "v_serverRandom a' = r"
proof -
  obtain s where s: "read16 (a\<lparr>a_sock := s, a_checkSock := None, a_sockReject := False\<rparr>) = (be [1, 0], a\<lparr>a_sock := adv 2 s, a_checkSock := None, a_sockReject := False\<rparr>)"
    "read_bytes (length c2) (a\<lparr>a_sock := adv 2 s, a_checkSock := None, a_sockReject := False\<rparr>)
      = (c2, a\<lparr>a_sock := adv (length c2) (adv 2 s), a_checkSock := None, a_sockReject := False\<rparr>)"
    "holds_bytes (a\<lparr>a_sock := adv (length c2) (adv 2 s)\<rparr>) [] w"
    "\<And>a'. ra2_settle (resume_sock (a\<lparr>a_sock := s, a_checkSock := None, a_sockReject := False\<rparr>)) = Some a' \<Longrightarrow>
       a_checkCredentials a' = None \<Longrightarrow> ra2_run env (map Arrived cs) a = Some a'"
    using arrives_field [OF assms(1,2), of "[1, 0]" c2 cs env] assms(4) assms(7,8) by auto
  define d where "d = a\<lparr>a_sock := adv (length c2) (adv 2 s), a_checkSock := None, a_sockReject := False\<rparr>"
  have "read_random (a\<lparr>a_sock := s, a_checkSock := None, a_sockReject := False\<rparr>) = ret () (d\<lparr>v_serverRandom := r, a_point := Keying\<rparr>)"
    using s(1,2) assms(3-6) by (simp add: read_random_def Let_def d_def)
  then have "ra2_settle (resume_sock (a\<lparr>a_sock := s, a_checkSock := None, a_sockReject := False\<rparr>)) = Some (d\<lparr>v_serverRandom := r, a_point := Keying\<rparr>)"
    using assms(1) by (simp add: resume_sock_def ready_at_def ra2_settle_def ret_def)
  then have "ra2_run env (map Arrived cs) a = Some (d\<lparr>v_serverRandom := r, a_point := Keying\<rparr>)"
    by (rule s(4)) (use assms(1) in \<open>simp add: ready_at_def d_def\<close>)
  then show ?thesis
    by (rule that) (use assms(1) s(3) in \<open>simp_all add: ready_at_def d_def keeps_keys_def same_key_def holds_bytes_def\<close>)
qed


text \<open>The four sealed messages.\<close>

lemma keys_step:
  assumes "ready_at Keying c w a"
    "makeMessage (e_subtle env)
       (e_sha1 env (hash_input (v_serverKeyBytes a) (v_clientPublicKey a) (v_serverPublickey a)))
       (new_cipher (e_subtle env) (session_key env (v_serverRandom a) (e_random env))) = Inr (msg, cc)"
  obtains a' where "ra2_step env BrowserDone a = Some a'" "ready_at WaitHash c (w @ msg) a'" "a_checkSock a' = Some 38"
    "keeps_keys a a'" "v_serverRandom a' = v_serverRandom a" "v_clientCipher a' = Some cc" "hash_set env a'"
proof -
  define b where "b = a\<lparr>v_serverCipher := Some (new_cipher (e_subtle env) (session_key env (e_random env) (v_serverRandom a))),
     v_serverHash := e_sha1 env (hash_input (v_serverKeyBytes a) (v_serverPublickey a) (v_clientPublicKey a)),
     v_clientCipher := Some cc\<rparr>"
  have b: "holds_bytes b [] w"
    using assms(1) by (simp add: ready_at_def holds_bytes_def b_def)
  obtain s where s: "ra2_send msg b = ret () (b\<lparr>a_sock := s\<rparr>)" "holds_bytes (b\<lparr>a_sock := s\<rparr>) [] (w @ msg)"
    using holds_send [OF b] by metis
  have "with_keys env a = await_sock 38 WaitHash read_hash (b\<lparr>a_sock := s\<rparr>)"
    using assms(2) s(1) by (simp add: with_keys_def Let_def b_def)
  also have "\<dots> = ret () (b\<lparr>a_sock := s, a_checkSock := Some 38, a_sockReject := True, a_point := WaitHash\<rparr>)"
    using s(2) by (simp add: await_empty)
  finally have "ra2_step env BrowserDone a = Some (b\<lparr>a_sock := s, a_checkSock := Some 38, a_sockReject := True, a_point := WaitHash\<rparr>)"
    using assms(1) by (simp add: ready_at_def browser_done_def ra2_settle_def ret_def)
  then show ?thesis
    by (rule that) (use assms(1) s(2) in
        \<open>simp_all add: ready_at_def holds_bytes_def b_def same_key_def keeps_keys_def hash_set_def\<close>)
qed

lemma hash_step:
  assumes "ready_at WaitHash c w a" "a_checkSock a = Some 38" "length y = 36"
    "in_parts (length_field 20 @ y) cs"
  obtains a' where "ra2_run env (map Arrived cs) a = Some a'" "ready_at OpeningHash c w a'"
    "keeps_keys a a'" "v_serverRandom a' = v_serverRandom a" "v_clientCipher a' = v_clientCipher a"
    "v_serverCipher a' = v_serverCipher a" "v_serverHash a' = v_serverHash a" "v_block a' = y"
proof -
  obtain s where s:
    "read16 (a\<lparr>a_sock := s, a_checkSock := None, a_sockReject := False\<rparr>)
      = (be (length_field 20), a\<lparr>a_sock := adv 2 s, a_checkSock := None, a_sockReject := False\<rparr>)"
    "read_bytes (length y) (a\<lparr>a_sock := adv 2 s, a_checkSock := None, a_sockReject := False\<rparr>)
      = (y, a\<lparr>a_sock := adv (length y) (adv 2 s), a_checkSock := None, a_sockReject := False\<rparr>)"
    "holds_bytes (a\<lparr>a_sock := adv (length y) (adv 2 s)\<rparr>) [] w"
    "\<And>a'. ra2_settle (resume_sock (a\<lparr>a_sock := s, a_checkSock := None, a_sockReject := False\<rparr>)) = Some a' \<Longrightarrow>
       a_checkCredentials a' = None \<Longrightarrow> ra2_run env (map Arrived cs) a = Some a'"
    using arrives_field [OF assms(1,2), of "length_field 20" y cs env] assms(3) assms(4) in_partsD(3) [OF assms(4)] by auto
  define d where "d = a\<lparr>a_sock := adv (length y) (adv 2 s), a_checkSock := None, a_sockReject := False\<rparr>"
  have "read_hash (a\<lparr>a_sock := s, a_checkSock := None, a_sockReject := False\<rparr>) = ret () (d\<lparr>v_block := y, a_point := OpeningHash\<rparr>)"
    using s(1,2) assms(3) length_field_bytes(2) [of 20] by (simp add: read_hash_def Let_def d_def)
  then have "ra2_settle (resume_sock (a\<lparr>a_sock := s, a_checkSock := None, a_sockReject := False\<rparr>)) = Some (d\<lparr>v_block := y, a_point := OpeningHash\<rparr>)"
    using assms(1) by (simp add: resume_sock_def ready_at_def ra2_settle_def ret_def)
  then have "ra2_run env (map Arrived cs) a = Some (d\<lparr>v_block := y, a_point := OpeningHash\<rparr>)"
    by (rule s(4)) (use assms(1) in \<open>simp add: ready_at_def d_def\<close>)
  then show ?thesis
    by (rule that) (use assms(1) s(3) in \<open>simp_all add: ready_at_def d_def keeps_keys_def same_key_def holds_bytes_def\<close>)
qed

lemma hash_done_step:
  assumes "ready_at OpeningHash c w a" "v_serverCipher a = Some sc"
    "receiveMessage (e_subtle env) 20 (v_block a) sc = Inr (Some (v_serverHash a), sc')"
  obtains a' where "ra2_step env BrowserDone a = Some a'" "ready_at WaitSubtype c w a'" "a_checkSock a' = Some 19"
    "v_clientCipher a' = v_clientCipher a" "v_serverCipher a' = Some sc'"
proof -
  have h: "holds_bytes (a\<lparr>v_serverCipher := Some sc'\<rparr>) [] w"
    using assms(1) by (simp add: ready_at_def holds_bytes_def)
  have "with_hash env a = await_sock 19 WaitSubtype read_subtype (a\<lparr>v_serverCipher := Some sc'\<rparr>)"
    using assms(2,3) by (simp add: with_hash_def Let_def)
  also have "\<dots> = ret () (a\<lparr>v_serverCipher := Some sc', a_checkSock := Some 19, a_sockReject := True, a_point := WaitSubtype\<rparr>)"
    using h by (simp add: await_empty)
  finally have "ra2_step env BrowserDone a
      = Some (a\<lparr>v_serverCipher := Some sc', a_checkSock := Some 19, a_sockReject := True, a_point := WaitSubtype\<rparr>)"
    using assms(1) by (simp add: ready_at_def browser_done_def ra2_settle_def ret_def)
  then show ?thesis
    by (rule that) (use assms(1) in \<open>simp_all add: ready_at_def holds_bytes_def\<close>)
qed

lemma subtype_step:
  assumes "ready_at WaitSubtype c w a" "a_checkSock a = Some 19" "length y = 17"
    "in_parts (length_field 1 @ y) cs"
  obtains a' where "ra2_run env (map Arrived cs) a = Some a'" "ready_at OpeningSubtype c w a'"
    "v_clientCipher a' = v_clientCipher a" "v_serverCipher a' = v_serverCipher a" "v_block a' = y"
proof -
  obtain s where s:
    "read16 (a\<lparr>a_sock := s, a_checkSock := None, a_sockReject := False\<rparr>)
      = (be (length_field 1), a\<lparr>a_sock := adv 2 s, a_checkSock := None, a_sockReject := False\<rparr>)"
    "read_bytes (length y) (a\<lparr>a_sock := adv 2 s, a_checkSock := None, a_sockReject := False\<rparr>)
      = (y, a\<lparr>a_sock := adv (length y) (adv 2 s), a_checkSock := None, a_sockReject := False\<rparr>)"
    "holds_bytes (a\<lparr>a_sock := adv (length y) (adv 2 s)\<rparr>) [] w"
    "\<And>a'. ra2_settle (resume_sock (a\<lparr>a_sock := s, a_checkSock := None, a_sockReject := False\<rparr>)) = Some a' \<Longrightarrow>
       a_checkCredentials a' = None \<Longrightarrow> ra2_run env (map Arrived cs) a = Some a'"
    using arrives_field [OF assms(1,2), of "length_field 1" y cs env] assms(3) assms(4) in_partsD(3) [OF assms(4)] by auto
  define d where "d = a\<lparr>a_sock := adv (length y) (adv 2 s), a_checkSock := None, a_sockReject := False\<rparr>"
  have "read_subtype (a\<lparr>a_sock := s, a_checkSock := None, a_sockReject := False\<rparr>) = ret () (d\<lparr>v_block := y, a_point := OpeningSubtype\<rparr>)"
    using s(1,2) assms(3) length_field_bytes(2) [of 1] by (simp add: read_subtype_def Let_def d_def)
  then have "ra2_settle (resume_sock (a\<lparr>a_sock := s, a_checkSock := None, a_sockReject := False\<rparr>)) = Some (d\<lparr>v_block := y, a_point := OpeningSubtype\<rparr>)"
    using assms(1) by (simp add: resume_sock_def ready_at_def ra2_settle_def ret_def)
  then have "ra2_run env (map Arrived cs) a = Some (d\<lparr>v_block := y, a_point := OpeningSubtype\<rparr>)"
    by (rule s(4)) (use assms(1) in \<open>simp add: ready_at_def d_def\<close>)
  then show ?thesis
    by (rule that) (use assms(1) s(3) in \<open>simp_all add: ready_at_def d_def holds_bytes_def\<close>)
qed

lemma subtype_done_step:
  assumes "ready_at OpeningSubtype c w a" "v_serverCipher a = Some sc"
    "receiveMessage (e_subtle env) 1 (v_block a) sc = Inr (Some [t], sc')" "t = 1 \<or> t = 2"
    "has_credentials (Some (unat t)) c" "credential_bytes (Some (unat t)) c = Inr creds"
  obtains a' where "ra2_step env BrowserDone a = Some a'" "ready_at Sealing c w a'"
    "v_clientCipher a' = v_clientCipher a" "v_block a' = creds"
proof -
  have t: "unat t = 1 \<or> unat t = 2"
    using assms(4) by auto
  have c: "a_creds a = c"
    using assms(1) by (simp add: ready_at_def)
  have m: "\<not> (unat t = 1 \<and> (username c = None \<or> password c = None))" "password c \<noteq> None"
    using assms(5) by (auto simp: has_credentials_def split: if_splits)
  have "with_subtype env a = after_credentials (a\<lparr>v_serverCipher := Some sc', v_subtype := Some (unat t)\<rparr>)"
    using assms(2,3,5) t c m by (auto simp: with_subtype_def Let_def ask_credentials_def)
  also have "\<dots> = ret () (a\<lparr>v_serverCipher := Some sc', v_subtype := Some (unat t), v_block := creds, a_point := Sealing\<rparr>)"
    using assms(6) c by (simp add: after_credentials_def)
  finally have "ra2_step env BrowserDone a
      = Some (a\<lparr>v_serverCipher := Some sc', v_subtype := Some (unat t), v_block := creds, a_point := Sealing\<rparr>)"
    using assms(1) by (simp add: ready_at_def browser_done_def ra2_settle_def ret_def)
  then show ?thesis
    by (rule that) (use assms(1) in \<open>simp_all add: ready_at_def holds_bytes_def\<close>)
qed

lemma send_step:
  assumes "ready_at Sealing c w a" "v_clientCipher a = Some cc"
    "makeMessage (e_subtle env) (v_block a) cc = Inr (msg, cc')"
  obtains a' where "ra2_step env BrowserDone a = Some a'" "a_point a' = Ended None" "stream (a_sock a') = w @ msg"
proof -
  have h: "holds_bytes (a\<lparr>v_clientCipher := Some cc'\<rparr>) [] w"
    using assms(1) by (simp add: ready_at_def holds_bytes_def)
  obtain s where s: "ra2_send msg (a\<lparr>v_clientCipher := Some cc'\<rparr>) = ret () (a\<lparr>v_clientCipher := Some cc', a_sock := s\<rparr>)"
    "holds_bytes (a\<lparr>v_clientCipher := Some cc', a_sock := s\<rparr>) [] (w @ msg)"
    using holds_send [OF h, of msg] by auto
  have "ra2_step env BrowserDone a = Some (a\<lparr>v_clientCipher := Some cc', a_sock := s, a_point := Ended None\<rparr>)"
    using assms s(1) by (simp add: send_credentials_def ready_at_def browser_done_def ra2_settle_def) (simp add: ret_def)
  then show ?thesis
    by (rule that) (use s(2) in \<open>simp_all add: holds_bytes_def\<close>)
qed


section \<open>The whole exchange\<close>

text \<open>Client, browser and server keep what they promise: the two key pairs are RSA keys, random bytes
  and hashes have the lengths that were asked for, and AES has its two modes (\<open>E\<close> is the block
  cipher of a key).\<close>

definition honest ::
    "ra2_env \<Rightarrow> (byte list \<Rightarrow> byte list \<Rightarrow> byte list) \<Rightarrow> ra2_server \<Rightarrow> rsa_key \<Rightarrow> rsa_key \<Rightarrow> rsa_key \<Rightarrow> bool" where
  "honest env E sv pub k cpub \<longleftrightarrow>
     good_key sv pub \<and> rsa_pair pub (sv_key sv) \<and> length (sv_random sv) = 16 \<and> (\<forall>j. length (sv_padding sv j) = j)
     \<and> (sv_subtype sv = 1 \<or> sv_subtype sv = 2)
     \<and> rsa_generateKey (e_key env) 2048 True = Inr k
     \<and> rsa_importKey (rsa_n k) (rsa_e k) False [''encrypt''] = Inr cpub \<and> rsa_pair cpub k
     \<and> length (e_random env) = 16 \<and> (\<forall>j. length (e_padding env j) = j) \<and> (\<forall>x. length (e_sha1 env x) = 20)
     \<and> (\<forall>key. is_cbc (e_subtle env) key (E key) \<and> is_ctr (e_subtle env) key)"

definition client_key_of :: "rsa_key \<Rightarrow> byte list" where
  "client_key_of k = client_public_key (rsa_n k) (rsa_e k)"

definition server_hash_of :: "ra2_env \<Rightarrow> ra2_server \<Rightarrow> rsa_key \<Rightarrow> byte list" where
  "server_hash_of env sv k = e_sha1 env (hash_input (sv_bytes sv) (hello sv) (client_key_of k))"

definition client_hash_of :: "ra2_env \<Rightarrow> ra2_server \<Rightarrow> rsa_key \<Rightarrow> byte list" where
  "client_hash_of env sv k = e_sha1 env (hash_input (sv_bytes sv) (client_key_of k) (hello sv))"

text \<open>The ciphers of the two directions, as the server computes them.\<close>

definition to_server :: "ra2_env \<Rightarrow> ra2_server \<Rightarrow> ra2_cipher" where
  "to_server env sv = new_cipher (e_subtle env) (session_key env (sv_random sv) (e_random env))"

definition to_client :: "ra2_env \<Rightarrow> ra2_server \<Rightarrow> ra2_cipher" where
  "to_client env sv = new_cipher (e_subtle env) (session_key env (e_random env) (sv_random sv))"

lemma imported_bytes:
  "rsa_importKey n e b us = Inr k \<Longrightarrow> rsa_keyBytes k = length n"
  by (auto simp: rsa_importKey_def split: if_splits sum.splits)

lemma exported_key:
  assumes "rsa_generateKey j bits True = Inr k"
  obtains d where "rsa_exportKey k = Inr (rsa_n k, rsa_e k, d)"
  using assms
  by (auto simp: rsa_generateKey_def rsa_exportKey_def Let_def split: sum.splits prod.splits)

lemma credential_length: "credential_bytes t c = Inr creds \<Longrightarrow> length creds < 65536"
  by (auto simp: credential_bytes_def Let_def min_def split: sum.splits if_splits)

lemma sealed_new:
  assumes "honest env E sv pub k cpub"
  shows "\<exists>y. length y = length m + 16
    \<and> makeMessage (e_subtle env) m (new_cipher (e_subtle env) key) = Inr (length_field (length m) @ y, step_counter (new_cipher (e_subtle env) key))
    \<and> receiveMessage (e_subtle env) (length m) y (new_cipher (e_subtle env) key) = Inr (Some m, step_counter (new_cipher (e_subtle env) key))"
    "\<exists>y. length y = length m + 16
    \<and> makeMessage (e_subtle env) m (step_counter (new_cipher (e_subtle env) key))
        = Inr (length_field (length m) @ y, step_counter (step_counter (new_cipher (e_subtle env) key)))
    \<and> receiveMessage (e_subtle env) (length m) y (step_counter (new_cipher (e_subtle env) key))
        = Inr (Some m, step_counter (step_counter (new_cipher (e_subtle env) key)))"
proof -
  have a: "is_cbc (e_subtle env) key (E key)" "is_ctr (e_subtle env) key"
    using assms by (simp_all add: honest_def)
  have c: "rc_cipher (new_cipher (e_subtle env) key) = eax_importKey (e_subtle env) key"
    by (simp add: new_cipher_def)
  show "\<exists>y. length y = length m + 16
    \<and> makeMessage (e_subtle env) m (new_cipher (e_subtle env) key) = Inr (length_field (length m) @ y, step_counter (new_cipher (e_subtle env) key))
    \<and> receiveMessage (e_subtle env) (length m) y (new_cipher (e_subtle env) key) = Inr (Some m, step_counter (new_cipher (e_subtle env) key))"
    using sealed_message [OF a c] by metis
  show "\<exists>y. length y = length m + 16
    \<and> makeMessage (e_subtle env) m (step_counter (new_cipher (e_subtle env) key))
        = Inr (length_field (length m) @ y, step_counter (step_counter (new_cipher (e_subtle env) key)))
    \<and> receiveMessage (e_subtle env) (length m) y (step_counter (new_cipher (e_subtle env) key))
        = Inr (Some m, step_counter (step_counter (new_cipher (e_subtle env) key)))"
    using sealed_message [OF a, of "step_counter (new_cipher (e_subtle env) key)"] c by (metis rc_cipher_step)
qed

lemma two_messages:
  assumes "length m < 65536" "length m' < 65536"
    "makeMessage sub m c = Inr (length_field (length m) @ y, c1)" "receiveMessage sub (length m) y c = Inr (Some m, c1)"
    "makeMessage sub m' c1 = Inr (length_field (length m') @ y', c2)" "receiveMessage sub (length m') y' c1 = Inr (Some m', c2)"
  shows "seal_all sub [m, m'] c = Inr ([length_field (length m) @ y, length_field (length m') @ y'], c2)"
    "open_all sub [length_field (length m) @ y, length_field (length m') @ y'] c = Inr ([Some m, Some m'], c2)"
  using assms length_field_bytes(2) [of "length m"] length_field_bytes(2) [of "length m'"] by simp_all


text \<open>The client has both random numbers and both keys.\<close>

definition keyed :: "ra2_server \<Rightarrow> rsa_key \<Rightarrow> credentials \<Rightarrow> byte list \<Rightarrow> ra2_auth \<Rightarrow> bool" where
  "keyed sv k c w a \<longleftrightarrow> ready_at Keying c w a \<and> v_serverKeyBytes a = sv_bytes sv \<and> v_serverPublickey a = hello sv
     \<and> v_clientPublicKey a = client_key_of k \<and> v_serverRandom a = sv_random sv"

text \<open>The hashes have been exchanged.\<close>

definition trusted :: "ra2_env \<Rightarrow> ra2_server \<Rightarrow> credentials \<Rightarrow> byte list \<Rightarrow> ra2_auth \<Rightarrow> bool" where
  "trusted env sv c w a \<longleftrightarrow> ready_at WaitSubtype c w a \<and> a_checkSock a = Some 19
     \<and> v_clientCipher a = Some (step_counter (to_server env sv)) \<and> v_serverCipher a = Some (step_counter (to_client env sv))"

text \<open>Up to the random bytes of the server.\<close>

lemma keys_exchanged:
  assumes "honest env E sv pub k cpub" "rq_wf s" "unread s = []" "sq_ready s"
  obtains c1 c2 where "rsa_encrypt (sv_padding sv) cpub (sv_random sv) = Inr (Some c2)" "length c2 = 256"
    "rsa_decrypt (sv_key sv) c1 = Inr (Some (e_random env))"
    "\<And>gs rs. in_parts (hello sv) gs \<Longrightarrow> in_parts ([1, 0] @ c2) rs \<Longrightarrow> length (concat (butlast rs)) < 2 \<Longrightarrow>
       \<exists>a. ra2_run env ([Start] @ map Arrived gs @ [Approve, BrowserDone] @ map Arrived rs) (new_ra2 s c) = Some a
         \<and> keyed sv k c (stream s @ client_key_of k @ length_field (sv_bytes sv) @ c1) a"
proof -
  note h = assms(1) [unfolded honest_def]
  obtain d where ex: "rsa_exportKey k = Inr (rsa_n k, rsa_e k, d)"
    using h exported_key by blast
  have g: "good_key sv pub" "rsa_generateKey (e_key env) 2048 True = Inr k" "length (sv_random sv) = 16"
    using h by simp_all
  have kb: "rsa_keyBytes pub = sv_bytes sv" "128 \<le> sv_bytes sv"
    using imported_bytes [of "sv_n sv" "sv_e sv" False "[''encrypt'']" pub] g(1) by (auto simp: good_key_def sv_bytes_def)
  have "rsa_keyBytes cpub = 256"
    using imported_bytes [of "rsa_n k" "rsa_e k" False "[''encrypt'']" cpub] exported_lengths [OF g(2) ex] h by simp
  then obtain c2 where c2: "length c2 = 256" "rsa_encrypt (sv_padding sv) cpub (sv_random sv) = Inr (Some c2)"
    "rsa_decrypt k c2 = Inr (Some (sv_random sv))"
    using rsa_decrypts [of cpub k "sv_random sv" "sv_padding sv"] h by auto
  have "27 \<le> rsa_keyBytes pub"
    using kb by simp
  then obtain c1 where c1: "length c1 = rsa_keyBytes pub" "rsa_encrypt (e_padding env) pub (e_random env) = Inr (Some c1)"
    "rsa_decrypt (sv_key sv) c1 = Inr (Some (e_random env))"
    using rsa_decrypts [of pub "sv_key sv" "e_random env" "e_padding env"] h by auto
  have i: "holds_bytes (new_ra2 s c) [] (stream s)" "a_started (new_ra2 s c) = False"
    "a_checkCredentials (new_ra2 s c) = None" "a_creds (new_ra2 s c) = c"
    using assms(2-4) by (simp_all add: holds_bytes_def new_ra2_def)
  obtain a1 where a1: "ra2_step env Start (new_ra2 s c) = Some a1" "ready_at WaitLength c (stream s) a1" "a_checkSock a1 = Some 4"
    using start_step [OF i(1-3)] i(4) by metis
  show ?thesis
  proof (rule that [OF c2(2,1) c1(3)])
    fix gs rs
    assume gs: "in_parts (hello sv) gs" and rs: "in_parts ([1, 0] @ c2) rs" "length (concat (butlast rs)) < 2"
    obtain a2 where a2: "ra2_run env (map Arrived gs) a1 = Some a2" "ready_at WaitApproval c (stream s) a2"
      "a_approve a2" "v_serverRSA a2 = Some pub" "v_serverKeyBytes a2 = sv_bytes sv" "v_serverPublickey a2 = hello sv"
      using hello_step [OF a1(2,3) g(1) gs] by metis
    define a3 where "a3 = a2\<lparr>a_approve := False, a_point := Generating\<rparr>"
    have a3: "ra2_step env Approve a2 = Some a3" "ready_at Generating c (stream s) a3"
      "v_serverRSA a3 = Some pub" "v_serverKeyBytes a3 = rsa_keyBytes pub" "v_serverPublickey a3 = hello sv"
      using approve_step [OF a2(2,3)] a2 kb by (simp_all add: a3_def)
    obtain a4 where a4: "ra2_step env BrowserDone a3 = Some a4"
      "ready_at WaitRandom c (stream s @ client_key_of k @ length_field (sv_bytes sv) @ c1) a4"
      "a_checkSock a4 = Some 2" "same_key a3 a4" "v_clientRSA a4 = Some k" "v_clientPublicKey a4 = client_key_of k"
      using client_key_step [OF a3(2,3,4) c1(1,2) g(2) ex] kb(1) by (metis client_key_of_def)
    obtain a5 where a5: "ra2_run env (map Arrived rs) a4 = Some a5"
      "ready_at Keying c (stream s @ client_key_of k @ length_field (sv_bytes sv) @ c1) a5" "keeps_keys a4 a5"
      "v_serverRandom a5 = sv_random sv"
      using random_step [OF a4(2,3,5) c2(1,3) g(3) rs] by metis
    have "ra2_run env ([Start] @ map Arrived gs @ [Approve, BrowserDone] @ map Arrived rs) (new_ra2 s c) = Some a5"
      by (rule run_append, simp only: ra2_run.simps a1(1) option.case, rule run_append [OF a2(1)],
          rule run_append, simp only: ra2_run.simps a3(1) a4(1) option.case, rule a5(1))
    moreover have "keyed sv k c (stream s @ client_key_of k @ length_field (sv_bytes sv) @ c1) a5"
      using a5(2-4) a4(4,6) a3(4,5) kb(1) by (simp add: keyed_def keeps_keys_def same_key_def)
    ultimately show "\<exists>a. ra2_run env ([Start] @ map Arrived gs @ [Approve, BrowserDone] @ map Arrived rs) (new_ra2 s c) = Some a
         \<and> keyed sv k c (stream s @ client_key_of k @ length_field (sv_bytes sv) @ c1) a"
      by blast
  qed
qed

text \<open>The two hashes.\<close>

lemma hashes_exchanged:
  assumes "honest env E sv pub k cpub"
  obtains y1 y3 where "length y1 = 36"
    "makeMessage (e_subtle env) (server_hash_of env sv k) (to_client env sv) = Inr (length_field 20 @ y1, step_counter (to_client env sv))"
    "makeMessage (e_subtle env) (client_hash_of env sv k) (to_server env sv) = Inr (length_field 20 @ y3, step_counter (to_server env sv))"
    "receiveMessage (e_subtle env) 20 y1 (to_client env sv) = Inr (Some (server_hash_of env sv k), step_counter (to_client env sv))"
    "receiveMessage (e_subtle env) 20 y3 (to_server env sv) = Inr (Some (client_hash_of env sv k), step_counter (to_server env sv))"
    "\<And>c w a cs. keyed sv k c w a \<Longrightarrow> in_parts (length_field 20 @ y1) cs \<Longrightarrow>
       \<exists>a'. ra2_run env ([BrowserDone] @ map Arrived cs @ [BrowserDone]) a = Some a' \<and> trusted env sv c (w @ length_field 20 @ y3) a'"
proof -
  have l: "length (server_hash_of env sv k) = 20" "length (client_hash_of env sv k) = 20"
    using assms(1) by (simp_all add: honest_def server_hash_of_def client_hash_of_def)
  obtain y1 where y: "length y1 = 36"
    "makeMessage (e_subtle env) (server_hash_of env sv k) (to_client env sv) = Inr (length_field 20 @ y1, step_counter (to_client env sv))"
    "receiveMessage (e_subtle env) 20 y1 (to_client env sv) = Inr (Some (server_hash_of env sv k), step_counter (to_client env sv))"
    using sealed_new(1) [OF assms(1), of "server_hash_of env sv k" "session_key env (e_random env) (sv_random sv)"] l
    by (auto simp flip: to_client_def)
  obtain y3 where z:
    "makeMessage (e_subtle env) (client_hash_of env sv k) (to_server env sv) = Inr (length_field 20 @ y3, step_counter (to_server env sv))"
    "receiveMessage (e_subtle env) 20 y3 (to_server env sv) = Inr (Some (client_hash_of env sv k), step_counter (to_server env sv))"
    using sealed_new(1) [OF assms(1), of "client_hash_of env sv k" "session_key env (sv_random sv) (e_random env)"] l
    by (auto simp flip: to_server_def)
  show ?thesis
  proof (rule that [OF y(1,2) z(1) y(3) z(2)])
    fix c w a cs
    assume k: "keyed sv k c w a" and cs: "in_parts (length_field 20 @ y1) cs"
    have a: "ready_at Keying c w a" "v_serverKeyBytes a = sv_bytes sv" "v_serverPublickey a = hello sv" "v_clientPublicKey a = client_key_of k"
      "v_serverRandom a = sv_random sv"
      using k by (simp_all add: keyed_def)
    have m: "makeMessage (e_subtle env)
         (e_sha1 env (hash_input (v_serverKeyBytes a) (v_clientPublicKey a) (v_serverPublickey a)))
         (new_cipher (e_subtle env) (session_key env (v_serverRandom a) (e_random env)))
       = Inr (length_field 20 @ y3, step_counter (to_server env sv))"
      using z(1) by (simp add: a(2-5) client_hash_of_def to_server_def)
    obtain a6 where a6: "ra2_step env BrowserDone a = Some a6" "ready_at WaitHash c (w @ length_field 20 @ y3) a6"
      "a_checkSock a6 = Some 38" "keeps_keys a a6" "v_serverRandom a6 = v_serverRandom a"
      "v_clientCipher a6 = Some (step_counter (to_server env sv))" "hash_set env a6"
      using keys_step [OF a(1) m] by metis
    have k6: "v_serverHash a6 = server_hash_of env sv k" "v_serverCipher a6 = Some (to_client env sv)"
      using a6(4,5,7) a(2-5) by (simp_all add: hash_set_def keeps_keys_def same_key_def server_hash_of_def to_client_def)
    obtain a7 where a7: "ra2_run env (map Arrived cs) a6 = Some a7"
      "ready_at OpeningHash c (w @ length_field 20 @ y3) a7"
      "v_clientCipher a7 = v_clientCipher a6" "v_serverCipher a7 = v_serverCipher a6" "v_serverHash a7 = v_serverHash a6" "v_block a7 = y1"
      using hash_step [OF a6(2,3) y(1) cs] by metis
    have r: "receiveMessage (e_subtle env) 20 (v_block a7) (to_client env sv) = Inr (Some (v_serverHash a7), step_counter (to_client env sv))"
      using y(3) a7(5,6) k6(1) by simp
    obtain a8 where a8: "ra2_step env BrowserDone a7 = Some a8" "ready_at WaitSubtype c (w @ length_field 20 @ y3) a8"
      "a_checkSock a8 = Some 19" "v_clientCipher a8 = v_clientCipher a7" "v_serverCipher a8 = Some (step_counter (to_client env sv))"
      using hash_done_step [OF a7(2) _ r] a7(4) k6(2) by metis
    have "ra2_run env ([BrowserDone] @ map Arrived cs @ [BrowserDone]) a = Some a8"
      by (rule run_append, simp only: ra2_run.simps a6(1) option.case, rule run_append [OF a7(1)],
          simp only: ra2_run.simps a8(1) option.case)
    moreover have "trusted env sv c (w @ length_field 20 @ y3) a8"
      using a8(2-5) a7(3) a6(6) by (simp add: trusted_def)
    ultimately show "\<exists>a'. ra2_run env ([BrowserDone] @ map Arrived cs @ [BrowserDone]) a = Some a' \<and> trusted env sv c (w @ length_field 20 @ y3) a'"
      by blast
  qed
qed

text \<open>The kind of credentials, and the credentials.\<close>

lemma credentials_sent:
  assumes "honest env E sv pub k cpub" "has_credentials (Some (unat (sv_subtype sv))) c"
    "credential_bytes (Some (unat (sv_subtype sv))) c = Inr creds"
  obtains y2 y4 where "length y2 = 17"
    "makeMessage (e_subtle env) [sv_subtype sv] (step_counter (to_client env sv))
       = Inr (length_field 1 @ y2, step_counter (step_counter (to_client env sv)))"
    "receiveMessage (e_subtle env) 1 y2 (step_counter (to_client env sv)) = Inr (Some [sv_subtype sv], step_counter (step_counter (to_client env sv)))"
    "makeMessage (e_subtle env) creds (step_counter (to_server env sv))
       = Inr (length_field (length creds) @ y4, step_counter (step_counter (to_server env sv)))"
    "receiveMessage (e_subtle env) (length creds) y4 (step_counter (to_server env sv)) = Inr (Some creds, step_counter (step_counter (to_server env sv)))"
    "\<And>w a cs. trusted env sv c w a \<Longrightarrow> in_parts (length_field 1 @ y2) cs \<Longrightarrow>
       \<exists>a'. ra2_run env (map Arrived cs @ [BrowserDone, BrowserDone]) a = Some a' \<and> a_point a' = Ended None
         \<and> stream (a_sock a') = w @ length_field (length creds) @ y4"
proof -
  obtain y2 where y: "length y2 = 17"
    "makeMessage (e_subtle env) [sv_subtype sv] (step_counter (to_client env sv))
       = Inr (length_field 1 @ y2, step_counter (step_counter (to_client env sv)))"
    "receiveMessage (e_subtle env) 1 y2 (step_counter (to_client env sv)) = Inr (Some [sv_subtype sv], step_counter (step_counter (to_client env sv)))"
    using sealed_new(2) [OF assms(1), of "[sv_subtype sv]" "session_key env (e_random env) (sv_random sv)"]
    by (auto simp flip: to_client_def)
  obtain y4 where z:
    "makeMessage (e_subtle env) creds (step_counter (to_server env sv))
       = Inr (length_field (length creds) @ y4, step_counter (step_counter (to_server env sv)))"
    "receiveMessage (e_subtle env) (length creds) y4 (step_counter (to_server env sv)) = Inr (Some creds, step_counter (step_counter (to_server env sv)))"
    using sealed_new(2) [OF assms(1), of creds "session_key env (sv_random sv) (e_random env)"]
    by (auto simp flip: to_server_def)
  show ?thesis
  proof (rule that [OF y z])
    fix w a cs
    assume k: "trusted env sv c w a" and cs: "in_parts (length_field 1 @ y2) cs"
    have a: "ready_at WaitSubtype c w a" "a_checkSock a = Some 19" "v_clientCipher a = Some (step_counter (to_server env sv))"
      "v_serverCipher a = Some (step_counter (to_client env sv))"
      using k by (simp_all add: trusted_def)
    obtain a9 where a9: "ra2_run env (map Arrived cs) a = Some a9" "ready_at OpeningSubtype c w a9"
      "v_clientCipher a9 = v_clientCipher a" "v_serverCipher a9 = v_serverCipher a" "v_block a9 = y2"
      using subtype_step [OF a(1,2) y(1) cs] by metis
    have r9: "receiveMessage (e_subtle env) 1 (v_block a9) (step_counter (to_client env sv))
        = Inr (Some [sv_subtype sv], step_counter (step_counter (to_client env sv)))" "sv_subtype sv = 1 \<or> sv_subtype sv = 2"
      using y(3) a9(5) assms(1) by (simp_all add: honest_def)
    obtain a10 where a10: "ra2_step env BrowserDone a9 = Some a10" "ready_at Sealing c w a10"
      "v_clientCipher a10 = v_clientCipher a9" "v_block a10 = creds"
      using subtype_done_step [OF a9(2) _ r9 assms(2,3)] a9(4) a(4) by metis
    have r10: "v_clientCipher a10 = Some (step_counter (to_server env sv))"
      "makeMessage (e_subtle env) (v_block a10) (step_counter (to_server env sv))
        = Inr (length_field (length creds) @ y4, step_counter (step_counter (to_server env sv)))"
      using a10(3,4) a9(3) a(3) z(1) by simp_all
    obtain a11 where a11: "ra2_step env BrowserDone a10 = Some a11" "a_point a11 = Ended None"
      "stream (a_sock a11) = w @ length_field (length creds) @ y4"
      using send_step [OF a10(2) r10] by metis
    have "ra2_run env (map Arrived cs @ [BrowserDone, BrowserDone]) a = Some a11"
      by (rule run_append [OF a9(1)]) (simp only: ra2_run.simps a10(1) a11(1) option.case)
    then show "\<exists>a'. ra2_run env (map Arrived cs @ [BrowserDone, BrowserDone]) a = Some a' \<and> a_point a' = Ended None
         \<and> stream (a_sock a') = w @ length_field (length creds) @ y4"
      using a11(2,3) by blast
  qed
qed

text \<open>
  The events of the exchange: the server sends each of its messages when the client waits for it, the
  first three and the last in the parts \<open>gs\<close>, \<open>rs\<close>, \<open>h1s\<close> and \<open>h2s\<close>; the page approves the key.
\<close>

definition exchange :: "byte list list \<Rightarrow> byte list list \<Rightarrow> byte list list \<Rightarrow> byte list list \<Rightarrow> ra2_input list" where
  "exchange gs rs h1s h2s =
     ([Start] @ map Arrived gs @ [Approve, BrowserDone] @ map Arrived rs)
     @ ([BrowserDone] @ map Arrived h1s @ [BrowserDone]) @ (map Arrived h2s @ [BrowserDone, BrowserDone])"

text \<open>
  C11. The RSA-AES authentication with an honest server, from the first byte to the last.  The server
  sends its key, its encrypted random bytes, and its hash and the kind of credentials sealed, each when the
  client waits for it, and the page approves the key and has given the credentials.  However the network
  cuts each of these messages into parts, the function ends without an error, and what the client has
  sent is its public key, an encrypted message that the server decrypts to the client's random bytes, and
  two sealed messages that the server opens, with the session key it computes itself, to the client's hash
  of both keys and to the credentials.  The one exception is the message with the encrypted random bytes:
  it may be cut inside its length field but nowhere else, because ra2.js:201 waits for the two bytes of
  the length only (\<open>split_random_fails\<close> shows what happens otherwise).
\<close>

theorem ra2_delivers:
  assumes "honest env E sv pub k cpub"
    and "has_credentials (Some (unat (sv_subtype sv))) c" "credential_bytes (Some (unat (sv_subtype sv))) c = Inr creds"
    and "rq_wf s" "unread s = []" "sq_ready s"
  shows "\<exists>c2 h1 h2 sc c1 m3 m4 cc.
    rsa_encrypt (sv_padding sv) cpub (sv_random sv) = Inr (Some c2) \<and> length c2 = 256
    \<and> seal_all (e_subtle env) [server_hash_of env sv k, [sv_subtype sv]] (to_client env sv) = Inr ([h1, h2], sc)
    \<and> length h1 = 38 \<and> length h2 = 19
    \<and> rsa_decrypt (sv_key sv) c1 = Inr (Some (e_random env))
    \<and> open_all (e_subtle env) [m3, m4] (to_server env sv) = Inr ([Some (client_hash_of env sv k), Some creds], cc)
    \<and> (\<forall>gs rs h1s h2s. in_parts (hello sv) gs \<and> in_parts ([1, 0] @ c2) rs \<and> length (concat (butlast rs)) < 2
         \<and> in_parts h1 h1s \<and> in_parts h2 h2s \<longrightarrow>
         (\<exists>a. ra2_run env (exchange gs rs h1s h2s) (new_ra2 s c) = Some a \<and> a_point a = Ended None
            \<and> stream (a_sock a) = stream s @ client_key_of k @ length_field (sv_bytes sv) @ c1 @ m3 @ m4))"
proof -
  obtain c1 c2 where 1: "rsa_encrypt (sv_padding sv) cpub (sv_random sv) = Inr (Some c2)" "length c2 = 256"
    "rsa_decrypt (sv_key sv) c1 = Inr (Some (e_random env))"
    "\<And>gs rs. in_parts (hello sv) gs \<Longrightarrow> in_parts ([1, 0] @ c2) rs \<Longrightarrow> length (concat (butlast rs)) < 2 \<Longrightarrow>
       \<exists>a. ra2_run env ([Start] @ map Arrived gs @ [Approve, BrowserDone] @ map Arrived rs) (new_ra2 s c) = Some a
         \<and> keyed sv k c (stream s @ client_key_of k @ length_field (sv_bytes sv) @ c1) a"
  proof (rule keys_exchanged [OF assms(1,4-6), of c], goal_cases)
    case (1 c1 c2)
    show thesis
      by (rule 1(1) [OF 1(2-)])
  qed
  obtain y1 y3 where 2: "length y1 = 36"
    "makeMessage (e_subtle env) (server_hash_of env sv k) (to_client env sv) = Inr (length_field 20 @ y1, step_counter (to_client env sv))"
    "makeMessage (e_subtle env) (client_hash_of env sv k) (to_server env sv) = Inr (length_field 20 @ y3, step_counter (to_server env sv))"
    "receiveMessage (e_subtle env) 20 y1 (to_client env sv) = Inr (Some (server_hash_of env sv k), step_counter (to_client env sv))"
    "receiveMessage (e_subtle env) 20 y3 (to_server env sv) = Inr (Some (client_hash_of env sv k), step_counter (to_server env sv))"
    "\<And>c w a cs. keyed sv k c w a \<Longrightarrow> in_parts (length_field 20 @ y1) cs \<Longrightarrow>
       \<exists>a'. ra2_run env ([BrowserDone] @ map Arrived cs @ [BrowserDone]) a = Some a' \<and> trusted env sv c (w @ length_field 20 @ y3) a'"
  proof (rule hashes_exchanged [OF assms(1)], goal_cases)
    case (1 y1 y3)
    show thesis
      by (rule 1(1) [OF 1(2-)])
  qed
  obtain y2 y4 where 3: "length y2 = 17"
    "makeMessage (e_subtle env) [sv_subtype sv] (step_counter (to_client env sv))
       = Inr (length_field 1 @ y2, step_counter (step_counter (to_client env sv)))"
    "receiveMessage (e_subtle env) 1 y2 (step_counter (to_client env sv)) = Inr (Some [sv_subtype sv], step_counter (step_counter (to_client env sv)))"
    "makeMessage (e_subtle env) creds (step_counter (to_server env sv))
       = Inr (length_field (length creds) @ y4, step_counter (step_counter (to_server env sv)))"
    "receiveMessage (e_subtle env) (length creds) y4 (step_counter (to_server env sv)) = Inr (Some creds, step_counter (step_counter (to_server env sv)))"
    "\<And>w a cs. trusted env sv c w a \<Longrightarrow> in_parts (length_field 1 @ y2) cs \<Longrightarrow>
       \<exists>a'. ra2_run env (map Arrived cs @ [BrowserDone, BrowserDone]) a = Some a' \<and> a_point a' = Ended None
         \<and> stream (a_sock a') = w @ length_field (length creds) @ y4"
  proof (rule credentials_sent [OF assms(1-3)], goal_cases)
    case (1 y2 y4)
    show thesis
      by (rule 1(1) [OF 1(2-)])
  qed
  have l: "length (server_hash_of env sv k) = 20" "length (client_hash_of env sv k) = 20"
    using assms(1) by (simp_all add: honest_def server_hash_of_def client_hash_of_def)
  have S: "seal_all (e_subtle env) [server_hash_of env sv k, [sv_subtype sv]] (to_client env sv)
      = Inr ([length_field 20 @ y1, length_field 1 @ y2], step_counter (step_counter (to_client env sv)))"
    using two_messages(1) [of "server_hash_of env sv k" "[sv_subtype sv]"] 2(2,4) 3(2,3) l by simp
  have O: "open_all (e_subtle env) [length_field 20 @ y3, length_field (length creds) @ y4] (to_server env sv)
      = Inr ([Some (client_hash_of env sv k), Some creds], step_counter (step_counter (to_server env sv)))"
    using two_messages(2) [of "client_hash_of env sv k" creds] 2(3,5) 3(4,5) l credential_length [OF assms(3)] by simp
  have L: "length (length_field 20 @ y1) = 38" "length (length_field 1 @ y2) = 19"
    using 2(1) 3(1) by simp_all
  have R: "\<exists>a. ra2_run env (exchange gs rs h1s h2s) (new_ra2 s c) = Some a \<and> a_point a = Ended None
      \<and> stream (a_sock a) = stream s @ client_key_of k @ length_field (sv_bytes sv) @ c1
          @ (length_field 20 @ y3) @ (length_field (length creds) @ y4)"
    if p: "in_parts (hello sv) gs" "in_parts ([1, 0] @ c2) rs" "length (concat (butlast rs)) < 2"
      "in_parts (length_field 20 @ y1) h1s" "in_parts (length_field 1 @ y2) h2s" for gs rs h1s h2s
  proof -
    obtain a1 where a1: "ra2_run env ([Start] @ map Arrived gs @ [Approve, BrowserDone] @ map Arrived rs) (new_ra2 s c) = Some a1"
      "keyed sv k c (stream s @ client_key_of k @ length_field (sv_bytes sv) @ c1) a1"
      using 1(4) [OF p(1-3)] by blast
    obtain a2 where a2: "ra2_run env ([BrowserDone] @ map Arrived h1s @ [BrowserDone]) a1 = Some a2"
      "trusted env sv c ((stream s @ client_key_of k @ length_field (sv_bytes sv) @ c1) @ length_field 20 @ y3) a2"
      using 2(6) [OF a1(2) p(4)] by blast
    obtain a3 where a3: "ra2_run env (map Arrived h2s @ [BrowserDone, BrowserDone]) a2 = Some a3" "a_point a3 = Ended None"
      "stream (a_sock a3) = ((stream s @ client_key_of k @ length_field (sv_bytes sv) @ c1) @ length_field 20 @ y3)
        @ length_field (length creds) @ y4"
      using 3(6) [OF a2(2) p(5)] by blast
    have "ra2_run env (exchange gs rs h1s h2s) (new_ra2 s c) = Some a3"
      unfolding exchange_def by (rule run_append [OF a1(1) run_append [OF a2(1) a3(1)]])
    then show ?thesis
      using a3(2,3) by (intro exI [of _ a3]) simp
  qed
  show ?thesis
    by (rule exI [of _ c2], rule exI [of _ "length_field 20 @ y1"], rule exI [of _ "length_field 1 @ y2"],
        rule exI [of _ "step_counter (step_counter (to_client env sv))"], rule exI [of _ c1],
        rule exI [of _ "length_field 20 @ y3"], rule exI [of _ "length_field (length creds) @ y4"],
        rule exI [of _ "step_counter (step_counter (to_server env sv))"], intro conjI 1(1-3) S L O)
      (intro allI impI, elim conjE, rule R)
qed


section \<open>A concrete exchange\<close>

definition toy_number :: "nat \<Rightarrow> byte list" where
  "toy_number k = 1 # replicate (k - 1) 0"

definition toy_one :: "nat \<Rightarrow> byte list" where
  "toy_one k = replicate (k - 1) 0 @ [1]"

definition toy_public :: "nat \<Rightarrow> rsa_key" where
  "toy_public k = \<lparr>rsa_keyLength = k * 8, rsa_keyBytes = k, rsa_n = toy_number k, rsa_e = toy_one k, rsa_d = None,
     rsa_nBigInt = 256 ^ (k - 1), rsa_eBigInt = 1, rsa_dBigInt = None, rsa_extractable = False\<rparr>"

definition toy_private :: "nat \<Rightarrow> rsa_key" where
  "toy_private k = (toy_public k)\<lparr>rsa_d := Some (toy_one k), rsa_dBigInt := Some 1, rsa_extractable := True\<rparr>"

definition toy_ra2 :: ra2_env where
  "toy_ra2 = \<lparr>e_subtle = toy_subtle, e_sha1 = (\<lambda>x. take 20 (x @ replicate 20 0)),
     e_key = \<lparr>jwk_n = base64url (toy_number 256), jwk_e = base64url [1], jwk_d = base64url [1]\<rparr>,
     e_random = replicate 16 3, e_padding = (\<lambda>j. replicate j 7)\<rparr>"

definition toy_server :: ra2_server where
  "toy_server = \<lparr>sv_bits = 1024, sv_n = toy_number 128, sv_e = toy_one 128, sv_key = toy_private 128,
     sv_random = replicate 16 5, sv_padding = (\<lambda>j. replicate j 9), sv_subtype = 2\<rparr>"

definition toy_credentials :: credentials where
  "toy_credentials = no_credentials\<lparr>password := Some [112, 119]\<rparr>"

definition toy_socket :: websock where
  "toy_socket = new_websock\<lparr>websocket := Some \<lparr>ch_state = WebSocketState 1, ch_props = rawChannelProps,
     ch_sent = [], ch_closes = 0, ch_listening = True\<rparr>, rQbufferSize := 0, allocated := True\<rparr>"

lemma toy_values:
  assumes "0 < k"
  shows "length (toy_number k) = k" "length (toy_one k) = k" "be (toy_number k) = 256 ^ (k - 1)" "be (toy_one k) = 1"
    "toy_number k \<noteq> []" "toy_one k \<noteq> []"
proof -
  have "be (replicate j 0 @ bs) = be bs" for j bs
    by (induction j) simp_all
  from this [of _ "[]"] this [of _ "[1]"] assms
  show "length (toy_number k) = k" "length (toy_one k) = k" "be (toy_number k) = 256 ^ (k - 1)" "be (toy_one k) = 1"
    "toy_number k \<noteq> []" "toy_one k \<noteq> []"
    by (simp_all add: toy_number_def toy_one_def)
qed

lemma toy_import: "0 < k \<Longrightarrow> rsa_importKey (toy_number k) (toy_one k) False [''encrypt''] = Inr (toy_public k)"
  by (simp add: rsa_importKey_def u8ArrayToBigInt_be toy_values toy_public_def)

lemma toy_pair: "0 < k \<Longrightarrow> rsa_pair (toy_public k) (toy_private k)"
  by (simp add: rsa_pair_def toy_public_def toy_private_def power_strict_increasing)

lemma toy_generate: "rsa_generateKey (e_key toy_ra2) 2048 True = Inr (toy_private 256)"
proof -
  have "key_part (base64url (toy_number 256)) 256 = Inr (toy_number 256, 256 ^ 255)"
    using key_part_base64url [of "toy_number 256" 256] toy_values [of 256] by (simp only:) simp
  moreover have "key_part (base64url [1]) 256 = Inr (toy_one 256, 1)"
    using key_part_base64url [of "[1]" 256] by (simp add: toy_one_def)
  ultimately show ?thesis
    unfolding rsa_generateKey_def toy_ra2_def toy_private_def toy_public_def by (simp del: power_numeral)
qed


lemma toy_honest:
  "honest toy_ra2 (\<lambda>_. toy_block) toy_server (toy_public 128) (toy_private 256) (toy_public 256)"
proof -
  have "good_key toy_server (toy_public 128)"
    unfolding good_key_def by (simp add: toy_server_def sv_bytes_def toy_values toy_import)
  moreover have "length (e_sha1 toy_ra2 x) = 20" for x
    by (cases "length x \<le> 20") (simp_all add: toy_ra2_def)
  moreover have "rsa_importKey (rsa_n (toy_private 256)) (rsa_e (toy_private 256)) False [''encrypt''] = Inr (toy_public 256)"
    using toy_import [of 256] by (simp add: toy_private_def toy_public_def)
  moreover have "is_cbc (e_subtle toy_ra2) key toy_block \<and> is_ctr (e_subtle toy_ra2) key" for key
    using toy_modes by (simp add: toy_ra2_def)
  ultimately show ?thesis
    unfolding honest_def using toy_generate toy_pair [of 128] toy_pair [of 256]
    by (simp add: toy_server_def) (simp add: toy_ra2_def)
qed

lemma toy_state:
  "has_credentials (Some (unat (sv_subtype toy_server))) toy_credentials"
  "credential_bytes (Some (unat (sv_subtype toy_server))) toy_credentials = Inr [0, 2, 112, 119]"
  "rq_wf toy_socket" "unread toy_socket = []" "sq_ready toy_socket"
  by (simp_all add: toy_server_def toy_credentials_def no_credentials_def has_credentials_def credential_bytes_def
      js_text_def encodeUTF8_def is_high_def is_low_def point_bytes_def toy_socket_def new_websock_def rq_wf_def unread_def sq_ready_def
      readyState_def sub_ready_def MAX_RQ_GROW_SIZE_def)

text \<open>The key is cut inside its length, the random bytes too, and the hash before its last byte.\<close>

theorem ra2_delivers_witness:
  "\<exists>c2 h1 h2 sc a c1 m3 m4 cc.
    rsa_encrypt (sv_padding toy_server) (toy_public 256) (sv_random toy_server) = Inr (Some c2)
    \<and> seal_all (e_subtle toy_ra2) [server_hash_of toy_ra2 toy_server (toy_private 256), [sv_subtype toy_server]]
        (to_client toy_ra2 toy_server) = Inr ([h1, h2], sc)
    \<and> ra2_run toy_ra2 (exchange [take 3 (hello toy_server), drop 3 (hello toy_server)] [[1], 0 # c2]
        [take 37 h1, drop 37 h1] [h2]) (new_ra2 toy_socket toy_credentials) = Some a
    \<and> a_point a = Ended None
    \<and> stream (a_sock a) = stream toy_socket @ client_key_of (toy_private 256) @ length_field (sv_bytes toy_server) @ c1 @ m3 @ m4
    \<and> rsa_decrypt (sv_key toy_server) c1 = Inr (Some (e_random toy_ra2))
    \<and> open_all (e_subtle toy_ra2) [m3, m4] (to_server toy_ra2 toy_server)
        = Inr ([Some (client_hash_of toy_ra2 toy_server (toy_private 256)), Some [0, 2, 112, 119]], cc)"
proof -
  obtain c2 h1 h2 sc c1 m3 m4 cc where
    x: "rsa_encrypt (sv_padding toy_server) (toy_public 256) (sv_random toy_server) = Inr (Some c2)"
    "seal_all (e_subtle toy_ra2) [server_hash_of toy_ra2 toy_server (toy_private 256), [sv_subtype toy_server]]
        (to_client toy_ra2 toy_server) = Inr ([h1, h2], sc)"
    "length h1 = 38" "length h2 = 19"
    "rsa_decrypt (sv_key toy_server) c1 = Inr (Some (e_random toy_ra2))"
    "open_all (e_subtle toy_ra2) [m3, m4] (to_server toy_ra2 toy_server)
        = Inr ([Some (client_hash_of toy_ra2 toy_server (toy_private 256)), Some [0, 2, 112, 119]], cc)"
    and run: "\<forall>gs rs h1s h2s. in_parts (hello toy_server) gs \<and> in_parts ([1, 0] @ c2) rs \<and> length (concat (butlast rs)) < 2
         \<and> in_parts h1 h1s \<and> in_parts h2 h2s \<longrightarrow>
         (\<exists>a. ra2_run toy_ra2 (exchange gs rs h1s h2s) (new_ra2 toy_socket toy_credentials) = Some a \<and> a_point a = Ended None
            \<and> stream (a_sock a) = stream toy_socket @ client_key_of (toy_private 256) @ length_field (sv_bytes toy_server) @ c1 @ m3 @ m4)"
    using ra2_delivers [OF toy_honest toy_state] by (elim exE conjE)
  have "in_parts (hello toy_server) [take 3 (hello toy_server), drop 3 (hello toy_server)]"
    by (rule in_two_parts) (simp add: hello_length)
  moreover have "in_parts ([1, 0] @ c2) [[1], 0 # c2]" "length (concat (butlast [[1], 0 # c2])) < 2"
    by (simp_all add: in_parts_def)
  moreover have "in_parts h1 [take 37 h1, drop 37 h1]"
    by (rule in_two_parts) (simp add: x(3))
  moreover have "in_parts h2 [h2]"
    by (rule in_one_part) (use x(4) in auto)
  ultimately obtain a where "ra2_run toy_ra2 (exchange [take 3 (hello toy_server), drop 3 (hello toy_server)] [[1], 0 # c2]
        [take 37 h1, drop 37 h1] [h2]) (new_ra2 toy_socket toy_credentials) = Some a" "a_point a = Ended None"
    "stream (a_sock a) = stream toy_socket @ client_key_of (toy_private 256) @ length_field (sv_bytes toy_server) @ c1 @ m3 @ m4"
    using run by blast
  then show ?thesis
    using x by blast
qed

lemma one_sealed: "in_parts (length_field n @ y) [length_field n @ y]"
  using length_field_length [of n] by (intro in_one_part) (cases "length_field n"; simp)

text \<open>The same exchange is one of the runs that \<open>ra2_trust\<close> is about.\<close>

theorem ra2_trust_witness:
  "\<exists>xs a w. ra2_run toy_ra2 xs (new_ra2 toy_socket toy_credentials) = Some a \<and> a_point a = Ended None
    \<and> stream (a_sock a) = stream toy_socket @ w
    \<and> (w \<noteq> [] \<longrightarrow> happened toy_ra2 (new_ra2 toy_socket toy_credentials) xs Approve
          (\<lambda>b. presented b \<and> v_serverPublickey b = v_serverPublickey a))
    \<and> (length w > 516 + (2 + v_serverKeyBytes a) + 38 \<longrightarrow> happened toy_ra2 (new_ra2 toy_socket toy_credentials) xs BrowserDone
          (\<lambda>b. hash_opened toy_ra2 b \<and> v_serverPublickey b = v_serverPublickey a))"
proof -
  obtain c1 c2 where "\<And>gs rs. in_parts (hello toy_server) gs \<Longrightarrow> in_parts ([1, 0] @ c2) rs \<Longrightarrow> length (concat (butlast rs)) < 2 \<Longrightarrow>
       \<exists>a. ra2_run toy_ra2 ([Start] @ map Arrived gs @ [Approve, BrowserDone] @ map Arrived rs) (new_ra2 toy_socket toy_credentials) = Some a
         \<and> keyed toy_server (toy_private 256) toy_credentials
             (stream toy_socket @ client_key_of (toy_private 256) @ length_field (sv_bytes toy_server) @ c1) a"
    using keys_exchanged [OF toy_honest toy_state(3-5), of toy_credentials] by metis
  from this [of "[hello toy_server]" "[[1, 0] @ c2]"]
  obtain a1 w1 where 1: "ra2_run toy_ra2 ([Start] @ map Arrived [hello toy_server] @ [Approve, BrowserDone] @ map Arrived [[1, 0] @ c2])
      (new_ra2 toy_socket toy_credentials) = Some a1" "keyed toy_server (toy_private 256) toy_credentials w1 a1"
    by (auto simp: in_parts_def hello_def)
  obtain y1 y3 where "\<And>c w a cs. keyed toy_server (toy_private 256) c w a \<Longrightarrow> in_parts (length_field 20 @ y1) cs \<Longrightarrow>
       \<exists>a'. ra2_run toy_ra2 ([BrowserDone] @ map Arrived cs @ [BrowserDone]) a = Some a' \<and> trusted toy_ra2 toy_server c (w @ length_field 20 @ y3) a'"
    using hashes_exchanged [OF toy_honest] by metis
  from this [OF 1(2) one_sealed]
  obtain xs a2 w2 where 2: "ra2_run toy_ra2 xs a1 = Some a2" "trusted toy_ra2 toy_server toy_credentials w2 a2"
    by blast
  obtain y2 y4 where "\<And>w a cs. trusted toy_ra2 toy_server toy_credentials w a \<Longrightarrow> in_parts (length_field 1 @ y2) cs \<Longrightarrow>
       \<exists>a'. ra2_run toy_ra2 (map Arrived cs @ [BrowserDone, BrowserDone]) a = Some a' \<and> a_point a' = Ended None
         \<and> stream (a_sock a') = w @ length_field (length [0, 2, 112, 119 :: byte]) @ y4"
    using credentials_sent [OF toy_honest toy_state(1,2)] by metis
  from this [OF 2(2) one_sealed]
  obtain ys a where 3: "ra2_run toy_ra2 ys a2 = Some a" "a_point a = Ended None"
    by blast
  note r = run_append [OF run_append [OF 1(1) 2(1)] 3(1)]
  have h: "length (e_sha1 toy_ra2 y) = 20" for y
    using toy_honest by (simp add: honest_def)
  show ?thesis
    using ra2_trust [OF toy_state(5) h r] r 3(2) by blast
qed

section \<open>Random bytes that arrive in two parts\<close>

lemma decrypt_zeros:
  assumes "rsa_keyBytes k = 256" "1 < rsa_nBigInt k" "rsa_dBigInt k = Some (Suc d)"
  shows "rsa_decrypt k (replicate 256 0) = Inr None"
proof -
  have z: "be (replicate j 0) = 0" for j
    by (induction j) simp_all
  have "bigIntToU8Array 0 256 = replicate 256 0"
    by (rule be_inj) (simp_all add: bigIntToU8Array_fits z)
  moreover have "replicate 256 (0 :: byte) ! 1 = 0"
    by (simp)
  moreover have "u8ArrayToBigInt (replicate 256 0) = Inr 0"
    using u8ArrayToBigInt_be [of "replicate 256 0"] z [of 256] by (simp)
  ultimately show ?thesis
    using assms modPow_power [OF assms(2), of 0 "Suc d"]
    by (simp add: rsa_decrypt_def)
qed

text \<open>
  The function waits for the two bytes of the length before it reads the 256 bytes behind them.
  When the message of an honest server comes in two parts, the first of which ends behind its length field,
  it takes what the array happens to hold; with zeros there it gives up.
\<close>

lemma split_random_fails:
  assumes "a_point a = WaitRandom" "a_checkSock a = Some 2" "a_checkCredentials a = None"
    "v_clientRSA a = Some k" "rsa_keyBytes k = 256" "1 < rsa_nBigInt k" "rsa_dBigInt k = Some (Suc d)"
    "recvMessage [1, 0] (a_sock a) = (None, q, s)" "rq_wf s" "unread s = [1, 0]"
    "take 256 (drop (rQi s + 2) (rQ s)) = replicate 256 0"
  shows "\<exists>a'. ra2_step env (Arrived [1, 0]) a = Some a'
    \<and> a_point a' = Ended (Some (JsError ''RA2: corrupted server encrypted random''))"
proof -
  define b where "b = a\<lparr>a_sock := s, a_checkSock := None, a_sockReject := False\<rparr>"
  have v: "v_clientRSA b = Some k"
    using assms(4) by (simp add: b_def)
  have r: "read16 b = (256, b\<lparr>a_sock := adv 2 s\<rparr>)"
    using assms(9,10) by (simp add: read16_def rq_simps b_def)
  have t: "read_bytes 256 (b\<lparr>a_sock := adv 2 s\<rparr>) = (replicate 256 0, b\<lparr>a_sock := adv 256 (adv 2 s)\<rparr>)"
    using assms(11) by (simp add: read_bytes_def rQshiftBytes_def)
  have "read_random b = thrown ''RA2: corrupted server encrypted random'' (b\<lparr>a_sock := adv 256 (adv 2 s)\<rparr>)"
    using v decrypt_zeros [OF assms(5-7)]
    by (simp add: read_random_def r t)
  then have "check_sock (a\<lparr>a_sock := s\<rparr>)
      = Some (b\<lparr>a_sock := adv 256 (adv 2 s), a_point := Ended (Some (JsError ''RA2: corrupted server encrypted random''))\<rparr>)"
    using assms(1,2,9,10) by (simp add: check_sock_def resume_sock_def rq_simps ra2_settle_def thrown_def raise_def b_def)
  then show ?thesis
    using assms(3,8) by (simp add: checkInternalEvents_def check_credentials_def Let_def b_def)
qed

end
