(* ===== verification/Spec2Isabelle.thy ===== *)
theory Spec2Isabelle
  imports JsBase Websock Utf8 Messages ViewFilter Base64 Display DisplayProps
    Resumable DecBasic DecHextile Des Dh Md5 Zlib Keysyms Keyboard Rfb Handshake Normal Input SessionProps HandshakeProps ZrleProps
    TightProps DecJpeg DecH264 GestureTaps Aes Rsa Ra2 Ra2Props Ra2Trust Ra2Honest
begin

text \<open>
  The program is a web console for virtual machines: a server in Go (\<open>cmd\<close>, \<open>internal\<close>) that keeps
  the machines and relays VNC over WebSocket, and a client in JavaScript (\<open>web/static\<close>), noVNC, that
  speaks the RFB protocol and draws the screen.  This library verifies the client's protocol core,
  \<open>web/static/novnc/core\<close>, and the part of the server that filters what a client with view-only
  rights sends.  File names below are relative to \<open>src/web/static/novnc/core\<close>.

  The parts and how they meet.  \<open>websock.js\<close> keeps a receive queue (bytes that arrive in messages cut
  anywhere) and a send queue over a raw channel.  \<open>rfb.js\<close> is the object a page creates: it drives
  the handshake and the session from the receive queue, hands each rectangle of a framebuffer
  update to a decoder of \<open>decoders/\<close>, which reads the queue and draws on \<open>display.js\<close>, and turns
  keyboard (\<open>input/keyboard.js\<close>), pointer, gesture and clipboard events into messages in the send
  queue.  \<open>display.js\<close> queues what it cannot draw at once and tells \<open>rfb.js\<close> when it is done, upon
  which the next update is asked for.

  Theories, in the order in which they build on each other:
  \<^item> \<open>JsBase\<close>: JavaScript's numbers and operators on 32 bits, strings as code units, byte arrays and
    views of them (also \<open>util/int.js\<close>).  \<open>Effects\<close>: methods that change an object, throw, or do not
    return (\<open>None\<close>), their composition, and what they leave of an invariant.
  \<^item> \<open>Websock\<close>: \<open>websock.js\<close>; a record for the object, with the unread bytes as its abstraction
    (\<open>unread\<close>) and the bytes handed to the channel as the other (\<open>wire\<close>); the locale of a receive
    queue and its interpretation on the code's buffer with its shifting and growing.
  \<^item> \<open>Utf8\<close>, \<open>Base64\<close>: \<open>util/strings.js\<close> and \<open>base64.js\<close>, with their round trips.
  \<^item> \<open>Messages\<close>: \<open>RFB.messages\<close>, each as the sequence of calls on the send queue.
  \<^item> \<open>ViewFilter\<close>: \<open>internal/proxy/filter.go\<close> and \<open>rfb.go\<close>, the server's filter.
  \<^item> \<open>Display\<close>, \<open>DisplayProps\<close>: \<open>display.js\<close>; drawing is the list of calls on the two canvases, and
    \<open>settle\<close>, what is on the canvas after the queue has been worked off, the abstraction by which the
    queue is proved to keep the order; the queue's locale with its interpretation.
  \<^item> \<open>Resumable\<close>: the contract between \<open>rfb.js\<close> and a decoder that may be called again when more
    bytes have come, as a locale; \<open>DecBasic\<close> (raw, CopyRect, RRE) and \<open>DecHextile\<close> interpret it.
    \<open>Zlib\<close>: \<open>inflator.js\<close>, \<open>deflator.js\<close>; \<open>DecZrle\<close>, \<open>ZrleProps\<close>: \<open>decoders/zlib.js\<close>,
    \<open>decoders/zrle.js\<close> against an encoder of tiles.  \<open>Reader\<close>: decoders written as steps that may
    find bytes missing, with the rules that make them resumable; over it \<open>DecTight\<close>, \<open>TightProps\<close>
    (\<open>decoders/tight.js\<close>, \<open>tightpng.js\<close>), \<open>DecJpeg\<close> (\<open>decoders/jpeg.js\<close>) and \<open>DecH264\<close>
    (\<open>decoders/h264.js\<close>).
  \<^item> \<open>Des\<close>, \<open>Dh\<close>, \<open>Md5\<close>, \<open>Aes\<close>, \<open>Rsa\<close>: \<open>crypto/des.js\<close>, \<open>crypto/dh.js\<close> with \<open>crypto/bigint.js\<close>,
    \<open>crypto/md5.js\<close>, \<open>crypto/aes.js\<close>, \<open>crypto/rsa.js\<close>, against the standards' definitions.
  \<^item> \<open>Keysyms\<close>, \<open>Keyboard\<close>: the names of keys and \<open>input/keyboard.js\<close>.  \<open>Gesture\<close>, \<open>GestureProps\<close>,
    \<open>GestureTaps\<close>: \<open>input/gesturehandler.js\<close>, whose events are those that \<open>Input\<close> takes.
  \<^item> \<open>Rfb\<close> (state, properties, connection states), \<open>Handshake\<close> (\<open>_initMsg\<close> and every authentication
    scheme), \<open>Normal\<close> (\<open>_normalMsg\<close>), \<open>Input\<close> (what the user does), \<open>Session\<close> (one step per callback
    or call, in any order): \<open>rfb.js\<close>.  \<open>Lifecycle\<close>, \<open>InputProps\<close>, \<open>SessionProps\<close>, \<open>HandshakeProps\<close>:
    its properties; \<open>Samples\<close>: concrete objects for the witnesses.

  \<^item> \<open>Ra2\<close>: \<open>ra2.js\<close>, the RSA-AES authentication.  Its asynchronous function is cut at every
    \<open>await\<close>; the object rests at a point (\<open>ra2_point\<close>) until data arrives, the user approves or gives
    credentials, or the browser has finished a computation, each of which is an input of \<open>ra2_step\<close>.
    \<open>Ra2Props\<close>: the message channel; \<open>Ra2Trust\<close>: what is sent before the server is trusted, over any
    sequence of inputs; \<open>Ra2Honest\<close>: the exchange with a server that follows the protocol, its
    messages cut anywhere but inside the encrypted random, where the code fails
    (\<open>split_random_fails\<close>).  The object
    stands beside \<open>Rfb\<close>, which records the calls it makes on it.

  What the lemmas show, by group: the queues neither lose, repeat nor reorder bytes, and no
  operation writes behind a buffer; the decoders draw what the protocol's encodings stand for, and
  the result does not depend on how the stream was cut; the connection moves through its states in
  one direction only and the page hears of it once; input sends whole messages, none when it must
  not, and no key is left reported as pressed behind a blur or an ungrab; the filter on the server forwards nothing but the messages it
  allows; the ciphers and digests invert or agree with their standards; the RSA-AES authentication
  gives nothing away to a server that has not been approved or does not know the session key, and
  delivers the credentials to one that does.

  Bounds and loops.  A loop whose end depends on what the server sends or on another component is a
  \<open>partial_function (option)\<close>, and \<open>None\<close> is not returning; that it returns is a theorem where it
  does (\<open>handshake_returns\<close>), and so is that it does not (\<open>push_bytes_not_open\<close>, for a queue that
  was allocated; before, the queue is null in the code and the call throws).  No fuel is used.
  Every other loop is structural or has a measure.  Numbers of JavaScript are \<open>int\<close> or \<open>nat\<close> where
  they stay below \<open>2 ^ 53\<close>, with the operators on 32 bits written out; the contents of byte arrays
  are words of 8 bits; scales are \<open>real\<close>.

  Parameters.  Zlib (\<open>vendor/pako\<close>), AES, SHA-1, generated keys and random bytes of the browser, its
  video decoder and its clock (\<open>browser_video\<close>), and the decoders as seen
  from \<open>rfb.js\<close> are arguments; the laws used of them are hypotheses of the theorems
  (\<open>inflates\<close>, which asks for progress only where output is asked for, \<open>webcodecs\<close>, by which a
  configured video decoder takes a chunk that is a key frame or follows one, \<open>Resumable\<close>,
  \<open>is_cbc\<close>, \<open>is_ctr\<close>), each with an instance.  The instances of the ciphers
  in the witnesses are toys: they satisfy the laws and hide nothing.

  Not modelled, each with its reason in the manifest: what only draws or only reads the page (CSS,
  cursors as canvases, the toolbar of \<open>web/static/console.js\<close>), the dispatch of algorithms by their
  names (\<open>crypto/crypto.js\<close>; the models call the classes), logging, the texts of errors, tables of key
  codes, third-party code (\<open>vendor/pako\<close>), and the Go server but for the filter (it keeps machines
  through QEMU, which the repository only calls).
\<close>

section \<open>The socket\<close>

lemma fold_recv_only:
  assumes "rq_wf s" "length (unread s) + length (concat bss) \<le> MAX_RQ_GROW_SIZE"
  shows "rq_wf (fold recv_only bss s) \<and> unread (fold recv_only bss s) = unread s @ concat bss"
  using assms
proof (induction bss arbitrary: s)
  case (Cons bs bss)
  have a: "accepts bs s"
    using Cons.prems by (simp add: accepts_def)
  show ?case
    using Cons.IH [OF rq.recv_inv [OF Cons.prems(1) a]] Cons.prems rq.recv_content [OF Cons.prems(1) a]
    by simp
qed simp

text \<open>C6. However the server's bytes are cut into messages, the receive queue gives them back in
  order: after any sequence of arrivals that stays within the queue's limit, a read of up to four
  bytes does not have to wait when they are there, is the big-endian number that the next bytes
  of the stream stand for, and leaves the rest of the stream unread.\<close>

theorem receive_queue_is_a_stream:
  assumes "rq_wf s" "length (unread s) + length (concat bss) \<le> MAX_RQ_GROW_SIZE"
    and "n \<le> 4" "n \<le> length (unread s @ concat bss)"
  shows "\<not> rQwait n (fold recv_only bss s)
    \<and> fst (rQshift n 0 (fold recv_only bss s)) = be (take n (unread s @ concat bss))
    \<and> unread (snd (rQshift n 0 (fold recv_only bss s))) = drop n (unread s @ concat bss)"
proof -
  let ?s = "fold recv_only bss s"
  have wf: "rq_wf ?s" and u: "unread ?s = unread s @ concat bss"
    using fold_recv_only [OF assms(1,2)] by simp_all
  have n: "n \<le> length (unread ?s)"
    using assms(4) u by simp
  show ?thesis
    using n assms(3,4) by (simp add: rQwait_iff [OF wf] rQshift_be [OF wf n] adv_unread u)
qed

definition small_socket :: websock where
  "small_socket = new_websock\<lparr>rQbufferSize := 4, rQ := [1, 2, 0, 0], rQlen := 2\<rparr>"

lemma small_socket: "rq_wf small_socket" "unread small_socket = [1, 2]"
  by (simp_all add: small_socket_def new_websock_def rq_wf_def unread_def MAX_RQ_GROW_SIZE_def)

theorem receive_queue_is_a_stream_witness:
  "fst (rQshift 4 0 (fold recv_only [[3], [4, 5, 6, 7]] small_socket)) = 0x01020304"
  using receive_queue_is_a_stream [of small_socket "[[3], [4, 5, 6, 7]]" 4]
  by (simp add: small_socket MAX_RQ_GROW_SIZE_def)

text \<open>C26. A message is refused exactly when the unread bytes and the message together exceed 40
  MiB, with the error the code names; otherwise nothing is thrown, the bytes are appended to the
  unread ones, and the message handler is called unless there is nothing to read.\<close>

theorem receive_limit:
  assumes "rq_wf s"
  shows "case recvMessage u8 s of
      (Some e, _) \<Rightarrow> \<not> accepts u8 s \<and> e = JsError ''Receive queue buffer exceeded''
    | (None, called, s') \<Rightarrow> accepts u8 s \<and> unread s' = unread s @ u8 \<and> rq_wf s'
        \<and> called = (unread s @ u8 \<noteq> [] \<and> handlers s EvMessage)"
proof (cases "accepts u8 s")
  case True
  then show ?thesis
    using recvMessage_accepts [OF assms True] by auto
next
  case False
  then show ?thesis
    using recvMessage_throws [OF assms False] by (auto split: prod.splits option.splits)
qed

theorem receive_limit_witness:
  "case recvMessage [3, 4, 5] small_socket of
      (Some e, _) \<Rightarrow> False
    | (None, called, s') \<Rightarrow> unread s' = [1, 2, 3, 4, 5]"
  using receive_limit [OF small_socket(1), of "[3, 4, 5]"]
  by (auto simp: small_socket accepts_def MAX_RQ_GROW_SIZE_def split: prod.splits option.splits)

fun run_all :: "sq_op list list \<Rightarrow> websock \<Rightarrow> (js_error + websock) option" where
  "run_all [] s = Some (Inr s)"
| "run_all (m # ms) s =
     (case sq_run m s of Some (Inr s) \<Rightarrow> run_all ms s | r \<Rightarrow> r)"

text \<open>C25. The client's messages leave the socket whole and in order: on an open channel with an
  empty send queue every sequence of complete messages, of any length, runs to its end without an
  exception, its bytes follow what is already on the wire, nothing stays behind in the queue and
  the receive side is untouched.\<close>

theorem messages_on_the_wire:
  assumes "sq_ready s" "sQ s = []" "list_all ends_flushed ms"
  shows "\<exists>s'. run_all ms s = Some (Inr s') \<and> wire s' = wire s @ concat (map msg_bytes ms)
    \<and> sQ s' = [] \<and> sq_ready s' \<and> unread s' = unread s"
  using assms
proof (induction ms arbitrary: s)
  case (Cons m ms)
  obtain s1 where s1: "sq_run m s = Some (Inr s1)" "sends s (msg_bytes m) s1" "sQ s1 = []"
      "wire s1 = wire s @ msg_bytes m"
    using ends_flushed_run [of m s] Cons.prems by auto
  show ?case
    using Cons.IH [OF sends_ready [OF s1(2)] s1(3)] Cons.prems s1 sends_unread [OF s1(2)] by auto
qed simp

definition open_socket :: websock where
  "open_socket = new_websock\<lparr>sQbufferSize := 4, allocated := True,
     websocket := Some \<lparr>ch_state = WebSocketState 1, ch_props = rawChannelProps, ch_sent = [],
                        ch_closes = 0, ch_listening = True\<rparr>\<rparr>"

theorem messages_on_the_wire_witness:
  "\<exists>s'. run_all [keyEvent 97 1, keyEvent 97 0] open_socket = Some (Inr s')
     \<and> wire s' = [4, 1, 0, 0, 0, 0, 0, 97, 4, 0, 0, 0, 0, 0, 0, 97]"
proof -
  have r: "sq_ready open_socket" "sQ open_socket = []" "wire open_socket = []"
    by (simp_all add: open_socket_def new_websock_def sq_ready_def readyState_def sub_ready_def wire_def)
  show ?thesis
    using messages_on_the_wire [OF r(1,2), of "[keyEvent 97 1, keyEvent 97 0]"] r(3)
    by (auto simp: ends_flushed_simps) (simp add: keyEvent_def)
qed

text \<open>C38. \<open>sQpushBytes\<close> of at least one byte on a channel that is not open throws when the queue
  has not been allocated (no channel has been attached yet); from then on it returns exactly when
  the bytes fit into what is left of the queue, and stores them then, and otherwise loops for
  ever.\<close>

theorem push_bytes_not_open:
  assumes "readyState s \<noteq> Open" "sQlen s \<le> sQbufferSize s"
  shows "sQpushBytes bs s =
    (if bs = [] then Some (Inr s)
     else if \<not> allocated s then Some (Inl NullError)
     else if sQlen s + length bs \<le> sQbufferSize s
     then Some (Inr (s\<lparr>sQ := sQ s @ bs, sQlen := sQlen s + length bs\<rparr>)) else None)"
  using assms sQpushBytes_fits [of s bs] sQpushBytes_stuck [of s bs] sQpushBytes_null [of s bs]
  by (auto simp: sQpushBytes.simps [of "[]"])

text \<open>A channel that has been attached and is still connecting, and no channel at all.\<close>

definition connecting_socket :: websock where
  "connecting_socket = new_websock\<lparr>allocated := True,
     websocket := Some \<lparr>ch_state = WebSocketState 0, ch_props = rawChannelProps, ch_sent = [],
                        ch_closes = 0, ch_listening = True\<rparr>\<rparr>"

theorem push_bytes_not_open_witness:
  "sQpushBytes (replicate 10241 0) connecting_socket = None
    \<and> sQpushBytes [7] connecting_socket = Some (Inr (connecting_socket\<lparr>sQ := [7], sQlen := 1\<rparr>))
    \<and> sQpushBytes [7] new_websock = Some (Inl NullError)"
  using push_bytes_not_open [of connecting_socket "replicate 10241 0"]
    push_bytes_not_open [of connecting_socket "[7]"] push_bytes_not_open [of new_websock "[7]"]
  by (simp add: connecting_socket_def new_websock_def readyState_def sub_ready_def)

section \<open>Strings and the clipboard\<close>

text \<open>C33. A well-formed string (no code unit beyond 16 bits) that can be encoded is encoded as a
  string of bytes and decoded back to itself, with and without the Latin-1 fallback.\<close>

theorem utf8_roundtrip:
  assumes "units_ok s" "encodeUTF8 s = Inr b"
  shows "(\<forall>c \<in> set b. c < 256) \<and> decodeUTF8 b l = Inr s"
  using decode_encode [OF assms] encode_small [OF assms] by blast

theorem utf8_roundtrip_witness:
  "decodeUTF8 [0xf0, 0x9f, 0x98, 0x80] False = Inr [0xd83d, 0xde00]"
  using utf8_roundtrip [of "[0xd83d, 0xde00]" "[0xf0, 0x9f, 0x98, 0x80]" False]
  by (simp add: units_ok_def encodeUTF8_def is_high_def is_low_def point_bytes_def)

text \<open>The length field of a clipboard message, read as a signed number, is the length of the
  data, and its negation for the extended format; the data follow it and end the message.\<close>

theorem cut_text_framing:
  assumes "length data \<le> 2 ^ 31" "\<not> ext \<Longrightarrow> length data < 2 ^ 31"
  shows "to_int32 (int (be (take 4 (drop 4 (msg_bytes (clientCutText data ext))))))
      = (if ext then - int (length data) else int (length data))
    \<and> drop 8 (msg_bytes (clientCutText data ext)) = data"
  using clientCutText_length_field [OF assms] by (simp add: clientCutText_def Let_def)

theorem cut_text_framing_witness:
  "to_int32 (int (be (take 4 (drop 4 (msg_bytes (clientCutText [1, 2, 3] True)))))) = - 3"
  using cut_text_framing [of "[1, 2, 3]" True] by simp

end
